(* ===== verification/Prelude.thy ===== *)
theory Prelude
  imports Main "HOL-Library.Word" "HOL-Library.Monad_Syntax"
begin

text \<open>
  The types and helpers every component of the model shares.

  A C++ \<open>string\<close> or \<open>char\<close> buffer is a list of bytes. A call that may not return (a failed
  \<open>DEBUG_FATAL_UNLESS\<close> or \<open>LOG_FATAL\<close>, which abort the process, a null dereference, an access out
  of bounds, or a loop that never ends) is a value of an option type: \<open>None\<close> is "the call does not
  return normally". An error the code reports to its caller is an ordinary value (a bool, a number,
  an enum), as in the source.
\<close>

unbundle bit_operations_syntax

section \<open>Types\<close>

type_synonym byte = "8 word"
type_synonym bytes = "byte list"
type_synonym u16 = "16 word"
type_synonym u32 = "32 word"
type_synonym u64 = "64 word"

text \<open>The theorem collections of the development.\<close>

named_theorems exec_simps \<open>unfolding rules for the option monad and the assertions\<close>
named_theorems wire_simps \<open>lengths and round trips of the wire encodings\<close>

section \<open>Assertions that abort the process\<close>

text \<open>
  \<open>AssertSeverity\<close> returns when its condition holds and otherwise falls through to
  \<open>FatalSeverity\<close>, which prints a backtrace and calls \<open>abort\<close>.
\<close>

definition fatal_unless :: "bool \<Rightarrow> unit option" where
  "fatal_unless b = (if b then Some () else None)"

lemma fatal_unless_simps [simp, exec_simps]:
  "fatal_unless True = Some ()"
  "fatal_unless False = None"
  by (simp_all add: fatal_unless_def)

lemma fatal_unless_Some [simp]: "fatal_unless b = Some u \<longleftrightarrow> b"
  by (simp add: fatal_unless_def)

lemma fatal_unless_None [simp]: "fatal_unless b = None \<longleftrightarrow> \<not> b"
  by (simp add: fatal_unless_def)

section \<open>Strings\<close>

definition str :: "string \<Rightarrow> bytes" where
  "str s = map of_char s"

lemma str_simps [simp]:
  "str [] = []"
  "str (c # s) = of_char c # str s"
  by (simp_all add: str_def)

section \<open>Big-endian encodings of machine integers\<close>

text \<open>
  \<open>htons\<close> and \<open>htonl\<close> followed by a copy of the object's bytes put the most significant byte
  first on every host.
\<close>

definition be16 :: "u16 \<Rightarrow> bytes" where
  "be16 w = [ucast (drop_bit 8 w), ucast w]"

definition be32 :: "u32 \<Rightarrow> bytes" where
  "be32 w = [ucast (drop_bit 24 w), ucast (drop_bit 16 w), ucast (drop_bit 8 w), ucast w]"

definition of_be16 :: "byte \<Rightarrow> byte \<Rightarrow> u16" where
  "of_be16 a b = push_bit 8 (ucast a) OR ucast b"

definition of_be32 :: "byte \<Rightarrow> byte \<Rightarrow> byte \<Rightarrow> byte \<Rightarrow> u32" where
  "of_be32 a b c d =
     push_bit 24 (ucast a) OR push_bit 16 (ucast b) OR push_bit 8 (ucast c) OR ucast d"

lemma length_be16 [simp, wire_simps]: "length (be16 w) = 2"
  by (simp add: be16_def)

lemma length_be32 [simp, wire_simps]: "length (be32 w) = 4"
  by (simp add: be32_def)

lemma split_less_32:
  "n < 32 \<Longrightarrow> n < 8 \<or> (\<exists>m<8. n = 8 + m) \<or> (\<exists>m<8. n = 16 + m) \<or> (\<exists>m<8. n = 24 + (m :: nat))"
  by (cases "n < 8"; cases "n < 16"; cases "n < 24")
    (auto intro: exI [of _ "n - 8"] exI [of _ "n - 16"] exI [of _ "n - 24"])

lemma of_be16_be16 [simp, wire_simps]:
  "of_be16 (ucast (drop_bit 8 w)) (ucast w) = w" (is "?v = w")
proof (rule bit_word_eqI)
  fix n
  assume n: "n < LENGTH(16)"
  have "n < 8 \<or> (\<exists>m<8. n = 8 + m)"
    using split_less_32 [of n] n by auto
  then show "bit ?v n = bit w n"
    unfolding of_be16_def
    by (elim disjE exE conjE)
      (simp_all add: bit_push_bit_iff bit_or_iff bit_drop_bit_eq bit_unsigned_iff)
qed

lemma of_be32_be32 [simp, wire_simps]:
  "of_be32 (ucast (drop_bit 24 w)) (ucast (drop_bit 16 w)) (ucast (drop_bit 8 w)) (ucast w) = w"
  (is "?v = w")
proof (rule bit_word_eqI)
  fix n
  assume n: "n < LENGTH(32)"
  have "n < 8 \<or> (\<exists>m<8. n = 8 + m) \<or> (\<exists>m<8. n = 16 + m) \<or> (\<exists>m<8. n = 24 + m)"
    using split_less_32 [of n] n by simp
  then show "bit ?v n = bit w n"
    unfolding of_be32_def
    by (elim disjE exE conjE)
      (simp_all add: bit_push_bit_iff bit_or_iff bit_drop_bit_eq bit_unsigned_iff)
qed

lemma be16_inj [simp]: "be16 v = be16 w \<longleftrightarrow> v = w"
proof
  assume "be16 v = be16 w"
  then have "of_be16 (ucast (drop_bit 8 v)) (ucast v) = of_be16 (ucast (drop_bit 8 w)) (ucast w)"
    by (simp only: be16_def list.inject)
  then show "v = w" by (simp only: of_be16_be16)
qed simp

text \<open>Bytes are equal when their eight bits are.\<close>

lemma less_8_cases:
  "n < 8 \<longleftrightarrow> n = 0 \<or> n = 1 \<or> n = 2 \<or> n = 3 \<or> n = 4 \<or> n = 5 \<or> n = 6 \<or> n = (7 :: nat)"
  by auto

lemma byte_eqI:
  "(\<And>n. n = 0 \<or> n = 1 \<or> n = 2 \<or> n = 3 \<or> n = 4 \<or> n = 5 \<or> n = 6 \<or> n = 7 \<Longrightarrow> bit a n = bit b n)
    \<Longrightarrow> a = b" for a b :: byte
  by (rule bit_word_eqI) (simp add: less_8_cases)

section \<open>Lists\<close>

lemma take_append_drop_length: "length xs = n \<Longrightarrow> take n (xs @ ys) = xs \<and> drop n (xs @ ys) = ys"
  by simp

lemma length_two: "length xs = 2 \<longleftrightarrow> (\<exists>a b. xs = [a, b])"
  by (auto simp: length_Suc_conv numeral_2_eq_2)

lemma length_four: "length xs = 4 \<longleftrightarrow> (\<exists>a b c d. xs = [a, b, c, d])"
  by (auto simp: length_Suc_conv eval_nat_numeral)

lemma append_split_short:
  assumes "as @ bs = cs @ ds" "length cs < length as"
  obtains es where "as = cs @ es" "ds = es @ bs" "es \<noteq> []"
  using assms by (auto simp: append_eq_append_conv2 intro: that)

lemma append_split_long:
  assumes "as @ bs = cs @ ds" "length as \<le> length cs"
  obtains es where "cs = as @ es" "bs = es @ ds"
  using assms by (auto simp: append_eq_append_conv2 intro: that)

lemma until_first:
  assumes "c \<notin> set xs"
  shows "takeWhile (\<lambda>d. d \<noteq> c) (xs @ c # ys) = xs" "dropWhile (\<lambda>d. d \<noteq> c) (xs @ c # ys) = c # ys"
  using assms by (induction xs) auto

end
