(* ===== verification/Base64.thy ===== *)
theory Base64
  imports Prelude
begin

text \<open>
  \<open>src/src/base64.cc\<close>: the encoder and decoder the user database stores secrets with. The
  encoder appends to its output string, and so does the decoder, which also returns whether the
  input was well formed; on a malformed input the bytes decoded so far stay in the output.
\<close>

section \<open>The encoder\<close>

definition b64_alphabet :: bytes where
  "b64_alphabet = str ''ABCDEFGHIJKLMNOPQRSTUVWXYZabcdefghijklmnopqrstuvwxyz0123456789+/''"

definition b64_char :: "byte \<Rightarrow> byte" where
  "b64_char i = b64_alphabet ! unat i"

definition b64_pad :: byte where
  "b64_pad = of_char (CHR ''='')"

text \<open>The four groups of six bits of three bytes, and the groups of a last one or two bytes.\<close>

definition sextet1 :: "byte \<Rightarrow> byte" where
  "sextet1 a = drop_bit 2 (a AND 0xfc)"

definition sextet2 :: "byte \<Rightarrow> byte \<Rightarrow> byte" where
  "sextet2 a b = push_bit 4 (a AND 0x03) OR drop_bit 4 (b AND 0xf0)"

definition sextet2_last :: "byte \<Rightarrow> byte" where
  "sextet2_last a = push_bit 4 (a AND 0x03)"

definition sextet3 :: "byte \<Rightarrow> byte \<Rightarrow> byte" where
  "sextet3 b c = push_bit 2 (b AND 0x0f) OR drop_bit 6 (c AND 0xc0)"

definition sextet3_last :: "byte \<Rightarrow> byte" where
  "sextet3_last b = push_bit 2 (b AND 0x0f)"

definition sextet4 :: "byte \<Rightarrow> byte" where
  "sextet4 c = c AND 0x3f"

fun b64_encode_loop :: "bytes \<Rightarrow> bytes \<Rightarrow> bytes" where
  "b64_encode_loop [] out = out"
| "b64_encode_loop [a] out =
     out @ [b64_char (sextet1 a), b64_char (sextet2_last a), b64_pad, b64_pad]"
| "b64_encode_loop [a, b] out =
     out @ [b64_char (sextet1 a),
            b64_char (sextet2 a b),
            b64_char (sextet3_last b), b64_pad]"
| "b64_encode_loop (a # b # c # rest) out =
     b64_encode_loop rest
       (out @ [b64_char (sextet1 a),
               b64_char (sextet2 a b),
               b64_char (sextet3 b c),
               b64_char (sextet4 c)])"

definition Base64Encode :: "bytes \<Rightarrow> bytes \<Rightarrow> bytes" where
  "Base64Encode input output = b64_encode_loop input output"

section \<open>The decoder\<close>

text \<open>The table maps a character to its six bits, or to \<open>-1\<close>; \<open>char\<close> is signed.\<close>

definition b64_decode_table :: bytes where
  "b64_decode_table = [
      -1, -1, -1, -1, -1, -1, -1, -1, -1, -1, -1, -1, -1, -1, -1, -1,
      -1, -1, -1, -1, -1, -1, -1, -1, -1, -1, -1, -1, -1, -1, -1, -1,
      -1, -1, -1, -1, -1, -1, -1, -1, -1, -1, -1, 62, -1, -1, -1, 63,
      52, 53, 54, 55, 56, 57, 58, 59, 60, 61, -1, -1, -1, -1, -1, -1,
      -1,  0,  1,  2,  3,  4,  5,  6,  7,  8,  9, 10, 11, 12, 13, 14,
      15, 16, 17, 18, 19, 20, 21, 22, 23, 24, 25, -1, -1, -1, -1, -1,
      -1, 26, 27, 28, 29, 30, 31, 32, 33, 34, 35, 36, 37, 38, 39, 40,
      41, 42, 43, 44, 45, 46, 47, 48, 49, 50, 51, -1, -1, -1, -1, -1,
      -1, -1, -1, -1, -1, -1, -1, -1, -1, -1, -1, -1, -1, -1, -1, -1,
      -1, -1, -1, -1, -1, -1, -1, -1, -1, -1, -1, -1, -1, -1, -1, -1,
      -1, -1, -1, -1, -1, -1, -1, -1, -1, -1, -1, -1, -1, -1, -1, -1,
      -1, -1, -1, -1, -1, -1, -1, -1, -1, -1, -1, -1, -1, -1, -1, -1,
      -1, -1, -1, -1, -1, -1, -1, -1, -1, -1, -1, -1, -1, -1, -1, -1,
      -1, -1, -1, -1, -1, -1, -1, -1, -1, -1, -1, -1, -1, -1, -1, -1,
      -1, -1, -1, -1, -1, -1, -1, -1, -1, -1, -1, -1, -1, -1, -1, -1,
      -1, -1, -1, -1, -1, -1, -1, -1, -1, -1, -1, -1, -1, -1, -1, -1]"

definition b64_value :: "byte \<Rightarrow> byte" where
  "b64_value c = b64_decode_table ! unat c"

definition octet1 :: "byte \<Rightarrow> byte \<Rightarrow> byte" where
  "octet1 p q = push_bit 2 p OR drop_bit 4 q"

definition octet2 :: "byte \<Rightarrow> byte \<Rightarrow> byte" where
  "octet2 q r = push_bit 4 (q AND 0xf) OR drop_bit 2 r"

definition octet3 :: "byte \<Rightarrow> byte \<Rightarrow> byte" where
  "octet3 r t = push_bit 6 (r AND 0x03) OR t"

text \<open>
  The loop takes four characters at a time. The size test before it makes the number of
  characters a multiple of four, so the last equation is only met by the empty list.
\<close>

fun b64_decode_loop :: "bytes \<Rightarrow> bytes \<Rightarrow> bool \<times> bytes" where
  "b64_decode_loop (a # b # c # d # rest) out =
     (if sint (b64_value a) < 0 \<or> sint (b64_value b) < 0 then (False, out)
      else
        let out = out @ [octet1 (b64_value a) (b64_value b)]
        in if c = b64_pad then (if d \<noteq> b64_pad then (False, out) else (True, out))
           else if sint (b64_value c) < 0 then (False, out)
           else
             let out = out @ [octet2 (b64_value b) (b64_value c)]
             in if d = b64_pad then (True, out)
                else if sint (b64_value d) < 0 then (False, out)
                else b64_decode_loop rest
                       (out @ [octet3 (b64_value c) (b64_value d)]))"
| "b64_decode_loop _ out = (True, out)"

definition Base64Decode :: "bytes \<Rightarrow> bytes \<Rightarrow> bool \<times> bytes" where
  "Base64Decode input output =
     (if length input mod 4 \<noteq> 0 then (False, output) else b64_decode_loop input output)"

section \<open>The tables are inverse to each other\<close>

lemma less_64_cases: "unat i < 64 \<Longrightarrow> P [0..<64] \<Longrightarrow> unat i \<in> set [0..<64]" for i :: byte
  by simp

lemma b64_tables_ok:
  "list_all (\<lambda>i. b64_decode_table ! unat (b64_alphabet ! i) = of_nat i) [0..<64]"
  by code_simp

lemma b64_alphabet_clean:
  "list_all (\<lambda>c. c \<noteq> b64_pad \<and> c \<noteq> of_char (CHR ''\<newline>'') \<and> c \<noteq> of_char (CHR '':'')) b64_alphabet"
  by code_simp

lemma length_b64_alphabet: "length b64_alphabet = 64"
  by code_simp

lemma b64_value_char: "i < 64 \<Longrightarrow> b64_value (b64_char i) = i"
proof -
  assume "i < 64"
  then have "unat i \<in> set [0..<64]"
    by (simp add: word_less_nat_alt)
  with b64_tables_ok have "b64_decode_table ! unat (b64_alphabet ! unat i) = of_nat (unat i)"
    unfolding list_all_iff by blast
  then show ?thesis by (simp add: b64_value_def b64_char_def)
qed

lemma b64_char_in_alphabet: "i < 64 \<Longrightarrow> b64_char i \<in> set b64_alphabet"
  by (simp add: b64_char_def length_b64_alphabet word_less_nat_alt)

lemma b64_char_clean:
  assumes "i < 64"
  shows "b64_char i \<noteq> b64_pad" "b64_char i \<noteq> of_char (CHR ''\<newline>'')"
    "b64_char i \<noteq> of_char (CHR '':'')"
  using b64_alphabet_clean b64_char_in_alphabet [OF assms] by (auto simp: list_all_iff)

lemma small_iff: "i < 64 \<longleftrightarrow> take_bit 6 i = i" for i :: byte
proof -
  have "unat i < 64 \<longleftrightarrow> take_bit 6 (unat i) = unat i"
    using take_bit_nat_eq_self_iff [of 6 "unat i"] by simp
  then show ?thesis
    by (simp add: word_less_nat_alt word_unat_eq_iff unsigned_take_bit_eq)
qed

lemma small_not_negative: "i < 64 \<Longrightarrow> \<not> sint i < 0" for i :: byte
proof -
  assume "i < 64"
  then have "take_bit 6 i = i" by (simp add: small_iff)
  then have "\<not> bit i 7" by (metis bit_take_bit_iff less_irrefl_nat numeral_less_iff semiring_norm(81) rel_simps(76))
  then show ?thesis using bit_last_iff [of i] by simp
qed

section \<open>The bits of a group of three bytes\<close>

lemmas sextet_defs =
  sextet1_def sextet2_def sextet2_last_def sextet3_def sextet3_last_def sextet4_def

lemmas octet_defs = octet1_def octet2_def octet3_def

lemma b64_bits_bounds:
  "sextet1 a < 64" "sextet2 a b < 64" "sextet2_last a < 64"
  "sextet3 b c < 64" "sextet3_last b < 64" "sextet4 c < 64"
  unfolding small_iff sextet_defs
  by (rule byte_eqI, elim disjE; simp add: bit_simps)+

lemma b64_bits_back:
  "octet1 (sextet1 a) (sextet2 a b) = a"
  "octet1 (sextet1 a) (sextet2_last a) = a"
  "octet2 (sextet2 a b) (sextet3 b c) = b"
  "octet2 (sextet2 a b) (sextet3_last b) = b"
  "octet3 (sextet3 b c) (sextet4 c) = c"
  unfolding sextet_defs octet_defs
  by (rule byte_eqI, elim disjE; simp add: bit_simps)+

lemmas b64_group_facts =
  b64_bits_bounds b64_bits_bounds [THEN b64_value_char] b64_bits_bounds [THEN small_not_negative]
  b64_bits_bounds [THEN b64_char_clean(1)]

section \<open>Properties of the encoder and the decoder\<close>

lemma b64_encode_loop_shift: "b64_encode_loop xs (pre @ out) = pre @ b64_encode_loop xs out"
  by (induction xs out rule: b64_encode_loop.induct) simp_all

lemma b64_encode_loop_append: "b64_encode_loop xs out = out @ b64_encode_loop xs []"
  using b64_encode_loop_shift [of xs out "[]"] by simp

lemma length_b64_encode_loop: "length (b64_encode_loop xs out) = length out + 4 * ((length xs + 2) div 3)"
proof (induction xs out rule: b64_encode_loop.induct)
  case (4 a b c rest out)
  have "(length (a # b # c # rest) + 2) div 3 = Suc ((length rest + 2) div 3)"
    by simp
  with 4 show ?case by simp
qed simp_all

lemma b64_encode_loop_alphabet:
  "set (b64_encode_loop xs out) \<subseteq> set out \<union> set b64_alphabet \<union> {b64_pad}"
  by (induction xs out rule: b64_encode_loop.induct)
    (use b64_bits_bounds [THEN b64_char_in_alphabet] in auto)

lemma b64_roundtrip_loop: "b64_decode_loop (b64_encode_loop xs []) out = (True, out @ xs)"
proof (induction xs "out0 :: bytes" arbitrary: out rule: b64_encode_loop.induct)
  case (4 a b c rest out0)
  then show ?case
    by (simp add: b64_encode_loop_append [of rest "_ # _"] b64_group_facts b64_bits_back Let_def)
qed (simp_all add: b64_group_facts b64_bits_back Let_def)

text \<open>The encoded text never contains a separator of the user database.\<close>

lemma b64_pad_clean: "b64_pad \<noteq> of_char (CHR ''\<newline>'')" "b64_pad \<noteq> of_char (CHR '':'')"
  by (simp_all add: b64_pad_def)

lemma Base64Encode_clean:
  "of_char (CHR ''\<newline>'') \<notin> set (Base64Encode xs [])" "of_char (CHR '':'') \<notin> set (Base64Encode xs [])"
  using b64_encode_loop_alphabet [of xs "[]"] b64_alphabet_clean b64_pad_clean
  unfolding Base64Encode_def list_all_iff by auto

lemma Base64_roundtrip [wire_simps]: "Base64Decode (Base64Encode xs []) out = (True, out @ xs)"
  by (simp add: Base64Decode_def Base64Encode_def length_b64_encode_loop b64_roundtrip_loop)

text \<open>C23. Decoding the encoding of any byte string appends that string to the output and succeeds,
  and the encoding has neither of the separators of the user database in it.\<close>

theorem Base64_decodes_what_it_encodes:
  "Base64Decode (Base64Encode xs []) out = (True, out @ xs) \<and>
   of_char (CHR ''\<newline>'') \<notin> set (Base64Encode xs []) \<and>
   of_char (CHR '':'') \<notin> set (Base64Encode xs [])"
  using Base64_roundtrip Base64Encode_clean by blast

end
