(* ===== verification/Hashing.thy ===== *)
theory Hashing
  imports Prelude
begin

text \<open>
  The small leaf headers: \<open>src/src/hash.h\<close> (the hashes behind every unordered map), \<open>src/src/charset.h\<close>
  (a set of characters as a bit map) and the hexadecimal part of \<open>src/src/conversions.h\<close>.
\<close>

section \<open>Hashes\<close>

text \<open>\<open>size_t\<close> is a word of any width; a byte widens to it.\<close>

fun FNVHash :: "bytes \<Rightarrow> 'a::len word \<Rightarrow> 'a word" where
  "FNVHash [] hash = hash"
| "FNVHash (c # cs) hash = FNVHash cs ((hash * 0x01000193) XOR ucast c)"

definition dragon_round :: "byte \<Rightarrow> 'a::len word \<Rightarrow> 'a word" where
  "dragon_round c hash =
     (let hash = push_bit 4 hash + ucast c; tmp = hash AND 0xf0000000
      in if tmp \<noteq> 0 then (hash XOR drop_bit 24 tmp) XOR tmp else hash)"

fun DragonHash :: "bytes \<Rightarrow> 'a::len word \<Rightarrow> 'a word" where
  "DragonHash [] hash = hash"
| "DragonHash (c # cs) hash = DragonHash cs (dragon_round c hash)"

definition DefaultHash :: "bytes \<Rightarrow> 'a::len word \<Rightarrow> 'a word" where
  "DefaultHash bs seed = DragonHash bs seed"

lemma FNVHash_append: "FNVHash (as @ bs) seed = FNVHash bs (FNVHash as seed)"
  by (induction as arbitrary: seed) simp_all

lemma DragonHash_append: "DragonHash (as @ bs) seed = DragonHash bs (DragonHash as seed)"
  by (induction as arbitrary: seed) simp_all

text \<open>A round of the 32-bit hash leaves the top four bits clear.\<close>

lemma top_bits_clear: "(h :: u32) AND 0xf0000000 = 0 \<longleftrightarrow> h < 2 ^ 28"
proof -
  have m: "(0xf0000000 :: u32) = NOT (mask 28)" by (simp add: mask_eq_decr_exp)
  have "h AND NOT (mask 28) = 0 \<longleftrightarrow> h AND mask 28 = h"
    by (auto simp: bit_eq_iff bit_simps)
  also have "\<dots> \<longleftrightarrow> h < 2 ^ 28"
  proof
    assume "h AND mask 28 = h"
    then have "h \<le> mask 28" by (metis word_and_le1)
    then show "h < 2 ^ 28" by (rule le_less_trans) (simp add: mask_eq_decr_exp)
  qed (rule less_mask_eq)
  finally show ?thesis unfolding m .
qed

lemma dragon_round_bound: "dragon_round c (hash :: u32) < 2 ^ 28"
proof -
  have clear: "((h XOR drop_bit 24 (h AND 0xf0000000)) XOR (h AND 0xf0000000)) AND 0xf0000000 = 0" for h :: u32
  proof -
    have m: "(0xf0000000 :: u32) = NOT (mask 28)" by (simp add: mask_eq_decr_exp)
    show ?thesis unfolding m by (rule bit_word_eqI) (auto simp: bit_simps)
  qed
  show ?thesis
    unfolding top_bits_clear [symmetric] dragon_round_def Let_def
    using clear by (simp split: if_split)
qed

section \<open>Character sets\<close>

text \<open>
  \<open>map_\<close> is eight 32-bit words. The constructor clears \<open>sizeof_array(map_)\<close>, that is eight, bytes: the
  words from the third on keep what the memory held. The members \<open>Offset\<close> and \<open>Mask\<close> are declared
  but only functions of the same names are defined, with the bodies below.
\<close>

type_synonym charset = "u32 list"

definition Charset_new :: "u32 list \<Rightarrow> charset" where
  "Charset_new memory = [0, 0] @ drop 2 memory"

definition charset_offset :: "byte \<Rightarrow> nat" where
  "charset_offset ch = unat ch div 32"

definition charset_mask :: "byte \<Rightarrow> u32" where
  "charset_mask ch = of_nat (unat ch mod 32)"

definition Charset_Add :: "charset \<Rightarrow> byte \<Rightarrow> charset" where
  "Charset_Add m ch = m[charset_offset ch := m ! charset_offset ch OR charset_mask ch]"

definition Charset_Del :: "charset \<Rightarrow> byte \<Rightarrow> charset" where
  "Charset_Del m ch = m[charset_offset ch := m ! charset_offset ch AND NOT (charset_mask ch)]"

definition Charset_Valid :: "charset \<Rightarrow> byte \<Rightarrow> bool" where
  "Charset_Valid m ch \<longleftrightarrow> m ! charset_offset ch AND charset_mask ch \<noteq> 0"

definition Charset_Invalid :: "charset \<Rightarrow> byte \<Rightarrow> bool" where
  "Charset_Invalid m ch \<longleftrightarrow> m ! charset_offset ch AND charset_mask ch = 0"

section \<open>Hexadecimal text\<close>

definition hex_digits :: bytes where
  "hex_digits = str ''0123456789abcdef''"

definition AppendCharToHex :: "byte \<Rightarrow> bytes \<Rightarrow> bytes" where
  "AppendCharToHex ch s =
     s @ [hex_digits ! unat (drop_bit 4 (ch AND 0xf0)), hex_digits ! unat (ch AND 0xf)]"

fun hex_loop :: "bytes \<Rightarrow> bytes \<Rightarrow> bytes" where
  "hex_loop [] hex = hex"
| "hex_loop (c # cs) hex = hex_loop cs (AppendCharToHex c hex)"

definition ConvertToHex :: "bytes \<Rightarrow> bytes" where
  "ConvertToHex bs = hex_loop bs []"

lemma hex_loop_append: "hex_loop bs hex = hex @ hex_loop bs []"
proof (induction bs arbitrary: hex)
  case (Cons c cs)
  from this [of "AppendCharToHex c hex"] this [of "AppendCharToHex c []"] show ?case
    by (simp add: AppendCharToHex_def)
qed simp

lemma hex_loop_Cons: "hex_loop (c # cs) [] = AppendCharToHex c [] @ hex_loop cs []"
  using hex_loop_append [of cs "AppendCharToHex c []"] by simp

lemma hex_digits_distinct: "distinct hex_digits" "length hex_digits = 16"
  by code_simp+

text \<open>The two digits of a byte determine it.\<close>

lemma nibbles: "drop_bit 4 (ch AND 0xf0) < 16" "ch AND 0xf < (16 :: byte)"
  "push_bit 4 (drop_bit 4 (ch AND 0xf0)) OR (ch AND 0xf) = (ch :: byte)"
proof -
  have "x AND 15 < 16" for x :: byte
    using word_and_le1 [of x 15] by (rule le_less_trans) simp
  then show "drop_bit 4 (ch AND 0xf0) < 16" "ch AND 0xf < 16" by simp_all
  show "push_bit 4 (drop_bit 4 (ch AND 0xf0)) OR (ch AND 0xf) = ch"
    by (rule byte_eqI, elim disjE) (simp_all add: bit_simps)
qed

lemma hex_byte_inj: "AppendCharToHex a [] = AppendCharToHex b [] \<longleftrightarrow> a = b"
proof
  assume "AppendCharToHex a [] = AppendCharToHex b []"
  then have "unat (drop_bit 4 (a AND 0xf0)) = unat (drop_bit 4 (b AND 0xf0))" "unat (a AND 0xf) = unat (b AND 0xf)"
    using nibbles(1,2) hex_digits_distinct
    by (auto simp: AppendCharToHex_def nth_eq_iff_index_eq word_less_nat_alt)
  then show "a = b"
    by (metis nibbles(3) word_unat_eq_iff)
qed simp

lemma ConvertToHex_inj: "ConvertToHex as = ConvertToHex bs \<longleftrightarrow> as = bs"
proof
  assume "ConvertToHex as = ConvertToHex bs"
  then show "as = bs"
    unfolding ConvertToHex_def
  proof (induction as arbitrary: bs)
    case Nil
    then show ?case by (cases bs) (simp_all add: hex_loop_Cons AppendCharToHex_def del: hex_loop.simps(2))
  next
    case (Cons a as)
    then obtain b bs' where bs: "bs = b # bs'"
      by (cases bs) (simp_all add: hex_loop_Cons AppendCharToHex_def del: hex_loop.simps(2))
    have "AppendCharToHex a [] @ hex_loop as [] = AppendCharToHex b [] @ hex_loop bs' []"
      using Cons.prems unfolding bs hex_loop_Cons .
    then have "AppendCharToHex a [] = AppendCharToHex b []" "hex_loop as [] = hex_loop bs' []"
      by (simp_all add: AppendCharToHex_def)
    with Cons.IH bs hex_byte_inj show ?case by simp
  qed
qed simp

section \<open>Properties\<close>

lemma DragonHash_bound: "seed < 2 ^ 28 \<Longrightarrow> DragonHash bs (seed :: u32) < 2 ^ 28"
  by (induction bs arbitrary: seed) (simp_all only: DragonHash.simps dragon_round_bound)

text \<open>\<open>Mask\<close> returns the number of the character's bit instead of a mask with that bit set. So a
  set in which \<open>'a'\<close> was added also contains \<open>'c'\<close>, and a space that was added is not a member; and
  the constructor leaves the last six words of the map as they were in memory.\<close>

theorem Charset_confuses_characters:
  "Charset_Valid (Charset_Add (replicate 8 0) (of_char (CHR ''a''))) (of_char (CHR ''c'')) \<and>
   \<not> Charset_Valid (Charset_Add (replicate 8 0) (of_char (CHR '' ''))) (of_char (CHR '' '')) \<and>
   Charset_Valid (Charset_new (replicate 8 0xffffffff)) (of_char (CHR ''a''))"
  by code_simp

text \<open>\<open>ConvertToHex\<close> shows different byte strings differently.\<close>

theorem ConvertToHex_injective: "ConvertToHex as = ConvertToHex bs \<longleftrightarrow> as = bs"
  by (rule ConvertToHex_inj)

text \<open>On a platform with a 32-bit \<open>size_t\<close> the default hash of a non-empty string has its top
  four bits clear whatever the seed, and hashing a string in pieces, each with the hash so far as
  its seed, is hashing the whole.\<close>

theorem DefaultHash_bound_and_chaining:
  "DefaultHash (c # cs) (seed :: u32) < 2 ^ 28 \<and>
   DefaultHash (as @ bs) (seed' :: 'a::len word) = DefaultHash bs (DefaultHash as seed')"
  using DragonHash_bound [OF dragon_round_bound, of cs c seed]
  by (simp only: DefaultHash_def DragonHash_append DragonHash.simps)

end
