(* ===== verification/Buffers.thy ===== *)
theory Buffers
  imports Prelude "HOL-Library.Multiset"
begin

text \<open>
  \<open>src/src/buffer.h\<close>: a FIFO of bytes kept in a chain of chunks. An input cursor appends at the
  last chunk; any number of output cursors read, each from its own position, and a chunk is freed
  when no cursor can reach it any more.

  A chunk is known by its address. Addresses are the serial numbers of the allocations of one chunk
  set: \<open>0\<close> is the placemark that is a member of the set itself, and the chunks of the list hold the
  serials \<open>cs_freed + 1\<close>, \<open>cs_freed + 2\<close>, and so on, in the order of their \<open>next_\<close> pointers (chunks
  are only ever linked at the end and unlinked at the front). A pointer to a serial that is not in
  the list dangles, and following it is \<open>None\<close>.

  The bytes of a chunk past \<open>used_\<close> are never read before they are written, so a chunk holds the
  bytes below \<open>used_\<close> and its capacity. Absolute offsets are 32 bits wide and wrap.
\<close>

section \<open>Chunks and chunk sets\<close>

record chunk =
  ck_data :: bytes        \<comment> \<open>\<open>data_[0], \<dots>, data_[used_ - 1]\<close>\<close>
  ck_size :: nat          \<comment> \<open>\<open>size_\<close>\<close>
  ck_offset :: u32        \<comment> \<open>\<open>absolute_offset_\<close>\<close>
  ck_ref :: int           \<comment> \<open>\<open>refcount_\<close>\<close>

type_synonym ptr = nat

record chunkset =
  cs_refcount :: int       \<comment> \<open>\<open>chunk_refcount_\<close>: how many cursors exist\<close>
  cs_placemark_ref :: int  \<comment> \<open>the reference count of \<open>placemark_\<close>\<close>
  cs_freed :: nat          \<comment> \<open>how many chunks have been deleted\<close>
  cs_chunks :: "chunk list"

definition kRoundedSize :: nat where
  "kRoundedSize = 16384"

definition RoundSize :: "nat \<Rightarrow> nat" where
  "RoundSize n = (if n < kRoundedSize then kRoundedSize else n)"

abbreviation ck_used :: "chunk \<Rightarrow> nat" where
  "ck_used c \<equiv> length (ck_data c)"

definition ck_available :: "chunk \<Rightarrow> nat" where
  "ck_available c = ck_size c - ck_used c"

definition cs_new :: chunkset where
  "cs_new = \<lparr>cs_refcount = 0, cs_placemark_ref = 1, cs_freed = 0, cs_chunks = []\<rparr>"

text \<open>
  \<open>cs_after s p\<close>: the chunks met by following \<open>next_\<close> from the chunk at \<open>p\<close>, that one excluded.
\<close>

definition cs_after :: "chunkset \<Rightarrow> ptr \<Rightarrow> chunk list option" where
  "cs_after s p =
     (if p = 0 then Some (cs_chunks s)
      else if cs_freed s < p \<and> p \<le> cs_freed s + length (cs_chunks s)
      then Some (drop (p - cs_freed s) (cs_chunks s))
      else None)"

definition cs_next :: "chunkset \<Rightarrow> ptr \<Rightarrow> ptr option" where
  "cs_next s p =
     (let n = (if p = 0 then cs_freed s + 1 else p + 1)
      in if n \<le> cs_freed s + length (cs_chunks s) then Some n else None)"

definition cs_append :: "chunkset \<Rightarrow> nat \<Rightarrow> chunkset" where
  "cs_append s n =
     (let offset = (if cs_chunks s = [] then 0
                    else ck_offset (last (cs_chunks s)) + of_nat (ck_used (last (cs_chunks s))))
      in s\<lparr>cs_chunks := cs_chunks s @
             [\<lparr>ck_data = [], ck_size = n, ck_offset = offset, ck_ref = cs_refcount s\<rparr>]\<rparr>)"

definition ck_reference :: "int \<Rightarrow> chunk \<Rightarrow> chunk" where
  "ck_reference n c = c\<lparr>ck_ref := ck_ref c + n\<rparr>"

text \<open>\<open>ReferenceFrom\<close> counts one more cursor on the given chunk and on all that follow.\<close>

definition cs_reference_from :: "chunkset \<Rightarrow> ptr \<Rightarrow> chunkset option" where
  "cs_reference_from s p =
     (let s' = s\<lparr>cs_refcount := cs_refcount s + 1\<rparr>
      in if p = 0
         then Some (s'\<lparr>cs_placemark_ref := cs_placemark_ref s + 1,
                       cs_chunks := map (ck_reference 1) (cs_chunks s)\<rparr>)
         else if cs_freed s < p \<and> p \<le> cs_freed s + length (cs_chunks s)
         then (let i = p - cs_freed s - 1
               in Some (s'\<lparr>cs_chunks := take i (cs_chunks s) @
                             map (ck_reference 1) (drop i (cs_chunks s))\<rparr>))
         else None)"

text \<open>
  \<open>Unreference\<close> drops one reference and returns the chunk that follows. The last reference frees
  the chunk, which must then be the first of the chain.
\<close>

definition cs_unreference :: "chunkset \<Rightarrow> ptr \<Rightarrow> (ptr option \<times> chunkset) option" where
  "cs_unreference s p =
     (if p = 0
      then (let r = cs_placemark_ref s - 1; s' = s\<lparr>cs_placemark_ref := r\<rparr>
            in if r \<noteq> 0 then Some (cs_next s p, s') else None)
      else if cs_freed s < p \<and> p \<le> cs_freed s + length (cs_chunks s)
      then (let i = p - cs_freed s - 1; c = ck_reference (- 1) (cs_chunks s ! i);
                s' = s\<lparr>cs_chunks := (cs_chunks s)[i := c]\<rparr>
            in if ck_ref c \<noteq> 0 then Some (cs_next s p, s')
               else do {
                 fatal_unless (i = 0);
                 let s'' = s'\<lparr>cs_chunks := tl (cs_chunks s'), cs_freed := cs_freed s + 1\<rparr>;
                 Some (cs_next s'' 0, s'')
               })
      else None)"

partial_function (option) cs_unreference_chain :: "chunkset \<Rightarrow> ptr option \<Rightarrow> chunkset option" where
  "cs_unreference_chain s p =
     (case p of None \<Rightarrow> Some s
      | Some q \<Rightarrow> do { (n, s') \<leftarrow> cs_unreference s q; cs_unreference_chain s' n })"

definition cs_unreference_from :: "chunkset \<Rightarrow> ptr \<Rightarrow> chunkset option" where
  "cs_unreference_from s p =
     cs_unreference_chain (s\<lparr>cs_refcount := cs_refcount s - 1\<rparr>) (Some p)"

section \<open>The input cursor\<close>

text \<open>
  An input cursor holds nothing but its chunk set. A caller that fills \<open>Data()\<close> and then calls
  \<open>Increment(n)\<close> is \<open>ic_commit\<close> with the \<open>n\<close> bytes it wrote.
\<close>

definition ic_contiguous :: "chunkset \<Rightarrow> nat" where
  "ic_contiguous s = (if cs_chunks s = [] then 0 else ck_available (last (cs_chunks s)))"

definition ic_reserve :: "chunkset \<Rightarrow> nat \<Rightarrow> chunkset" where
  "ic_reserve s n = (if ic_contiguous s < n then cs_append s (RoundSize n) else s)"

definition ck_write :: "bytes \<Rightarrow> chunk \<Rightarrow> chunk" where
  "ck_write bs c = c\<lparr>ck_data := ck_data c @ bs\<rparr>"

definition ic_commit :: "chunkset \<Rightarrow> bytes \<Rightarrow> chunkset option" where
  "ic_commit s bs =
     (if bs = [] then Some s
      else do {
        fatal_unless (length bs \<le> ic_contiguous s);
        Some (s\<lparr>cs_chunks := butlast (cs_chunks s) @ [ck_write bs (last (cs_chunks s))]\<rparr>)
      })"

partial_function (option) ic_add_loop :: "chunkset \<Rightarrow> bytes \<Rightarrow> chunkset option" where
  "ic_add_loop s bs =
     do {
       let tocopy = min (length bs) (ic_contiguous s);
       s \<leftarrow> ic_commit s (take tocopy bs);
       let bs = drop tocopy bs;
       (if bs = [] then Some s else ic_add_loop (cs_append s (RoundSize (length bs))) bs)
     }"

definition ic_add :: "chunkset \<Rightarrow> bytes \<Rightarrow> chunkset option" where
  "ic_add s bs = ic_add_loop (ic_reserve s (length bs)) bs"

section \<open>The output cursor\<close>

record cursor =
  oc_prev :: ptr               \<comment> \<open>\<open>previous_\<close>\<close>
  oc_offset :: nat             \<comment> \<open>\<open>offset_\<close>\<close>
  oc_limited :: "nat option"   \<comment> \<open>\<open>limited_size_\<close> when \<open>size_is_limited_\<close>\<close>

definition oc_new :: "chunkset \<Rightarrow> (chunkset \<times> cursor) option" where
  "oc_new s = do {
     s \<leftarrow> cs_reference_from s 0;
     Some (s, \<lparr>oc_prev = 0, oc_offset = 0, oc_limited = None\<rparr>)
   }"

definition oc_copy :: "chunkset \<Rightarrow> cursor \<Rightarrow> (chunkset \<times> cursor) option" where
  "oc_copy s cur = do { s \<leftarrow> cs_reference_from s (oc_prev cur); Some (s, cur) }"

definition oc_destroy :: "chunkset \<Rightarrow> cursor \<Rightarrow> chunkset option" where
  "oc_destroy s cur = cs_unreference_from s (oc_prev cur)"

text \<open>The current chunk, if any, and those after it.\<close>

definition oc_chunks :: "chunkset \<Rightarrow> cursor \<Rightarrow> chunk list option" where
  "oc_chunks s cur = cs_after s (oc_prev cur)"

definition oc_current_contiguous :: "chunkset \<Rightarrow> cursor \<Rightarrow> nat option" where
  "oc_current_contiguous s cur =
     map_option (\<lambda>cs. case cs of [] \<Rightarrow> 0 | c # _ \<Rightarrow> ck_used c - oc_offset cur) (oc_chunks s cur)"

definition oc_contiguous :: "chunkset \<Rightarrow> cursor \<Rightarrow> nat option" where
  "oc_contiguous s cur =
     map_option (\<lambda>cs. case cs of [] \<Rightarrow> 0
                      | c # rest \<Rightarrow>
                          (if ck_used c - oc_offset cur \<noteq> 0 then ck_used c - oc_offset cur
                           else (case rest of [] \<Rightarrow> 0 | d # _ \<Rightarrow> ck_used d)))
       (oc_chunks s cur)"

text \<open>\<open>Data()\<close>: the bytes readable at the cursor's pointer in one go.\<close>

definition oc_data :: "chunkset \<Rightarrow> cursor \<Rightarrow> bytes option" where
  "oc_data s cur =
     map_option (\<lambda>cs. case cs of [] \<Rightarrow> []
                      | c # rest \<Rightarrow>
                          (if ck_used c - oc_offset cur \<noteq> 0 then drop (oc_offset cur) (ck_data c)
                           else (case rest of [] \<Rightarrow> [] | d # _ \<Rightarrow> ck_data d)))
       (oc_chunks s cur)"

definition oc_left :: "chunkset \<Rightarrow> cursor \<Rightarrow> nat option" where
  "oc_left s cur =
     map_option (\<lambda>cs. case cs of [] \<Rightarrow> 0
                      | c # _ \<Rightarrow>
                          (let real_size = unat ((ck_offset (last cs) - ck_offset c) -
                                 of_nat (oc_offset cur) + of_nat (ck_used (last cs)))
                           in case oc_limited cur of None \<Rightarrow> real_size | Some l \<Rightarrow> min l real_size))
       (oc_chunks s cur)"

definition oc_limit :: "chunkset \<Rightarrow> cursor \<Rightarrow> nat \<Rightarrow> cursor option" where
  "oc_limit s cur n = do {
     left \<leftarrow> oc_left s cur;
     fatal_unless (n \<le> left);
     Some (cur\<lparr>oc_limited := Some n\<rparr>)
   }"

text \<open>
  \<open>MoveToNextChunk\<close>. A null \<open>previous_\<close> is dereferenced by the size test that follows every call.
\<close>

definition oc_move_next :: "chunkset \<Rightarrow> cursor \<Rightarrow> (chunkset \<times> cursor) option" where
  "oc_move_next s cur = do {
     (p, s) \<leftarrow> cs_unreference s (oc_prev cur);
     (case p of None \<Rightarrow> None | Some q \<Rightarrow> Some (s, cur\<lparr>oc_prev := q, oc_offset := 0\<rparr>))
   }"

partial_function (option) oc_increment_loop ::
    "chunkset \<Rightarrow> cursor \<Rightarrow> nat \<Rightarrow> (chunkset \<times> cursor) option" where
  "oc_increment_loop s cur amount = do {
     here \<leftarrow> oc_current_contiguous s cur;
     (if amount \<le> here then Some (s, cur\<lparr>oc_offset := oc_offset cur + amount\<rparr>)
      else do {
        let amount = amount - here;
        cs \<leftarrow> oc_chunks s cur;
        (s, cur) \<leftarrow> (case cs of [] \<Rightarrow> None
                     | [_] \<Rightarrow> Some (s, cur)
                     | _ # _ # _ \<Rightarrow> oc_move_next s cur);
        here \<leftarrow> oc_current_contiguous s cur;
        (if amount \<noteq> 0 \<and> here \<noteq> 0 then oc_increment_loop s cur amount else Some (s, cur))
      })
   }"

definition oc_increment :: "chunkset \<Rightarrow> cursor \<Rightarrow> nat \<Rightarrow> (chunkset \<times> cursor) option" where
  "oc_increment s cur amount = do {
     left \<leftarrow> oc_left s cur;
     fatal_unless (amount \<le> left);
     oc_increment_loop s cur amount
   }"

text \<open>\<open>Get\<close> copies without consuming.\<close>

fun oc_get_loop :: "chunk list \<Rightarrow> nat \<Rightarrow> nat \<Rightarrow> bytes" where
  "oc_get_loop [] offset n = []"
| "oc_get_loop (c # cs) offset n =
     (if n = 0 then []
      else let to_copy = min n (ck_used c - offset)
           in take to_copy (drop offset (ck_data c)) @ oc_get_loop cs 0 (n - to_copy))"

definition oc_get :: "chunkset \<Rightarrow> cursor \<Rightarrow> nat \<Rightarrow> bytes option" where
  "oc_get s cur n = map_option (\<lambda>cs. oc_get_loop cs (oc_offset cur) n) (oc_chunks s cur)"

text \<open>
  \<open>GetIovec\<close> lists at most \<open>kIovecSize\<close> stretches of memory and returns how many bytes they hold.
\<close>

definition kIovecSize :: nat where
  "kIovecSize = 16"

definition oc_iovec :: "chunkset \<Rightarrow> cursor \<Rightarrow> (bytes list \<times> nat) option" where
  "oc_iovec s cur = do {
     left \<leftarrow> oc_left s cur;
     (if left = 0 then Some ([], 0)
      else do {
        cs \<leftarrow> oc_chunks s cur;
        here \<leftarrow> oc_current_contiguous s cur;
        (case cs of [] \<Rightarrow> None
         | c # rest \<Rightarrow>
             (let first = (if here \<noteq> 0 then [drop (oc_offset cur) (ck_data c)] else []);
                  vect = first @ map ck_data (take (kIovecSize - length first) rest)
              in Some (vect, sum_list (map length vect))))
      })
   }"

text \<open>
  \<open>Consume\<close> and \<open>ConsumeString\<close> copy and advance: the same loop, which returns the bytes copied.
\<close>

partial_function (option) oc_consume_loop ::
    "chunkset \<Rightarrow> cursor \<Rightarrow> nat \<Rightarrow> bytes \<Rightarrow> (bytes \<times> chunkset \<times> cursor) option" where
  "oc_consume_loop s cur left acc = do {
     ls \<leftarrow> oc_left s cur;
     (if left \<noteq> 0 \<and> ls \<noteq> 0
      then do {
        here \<leftarrow> oc_contiguous s cur;
        let tocopy = min left here;
        bs \<leftarrow> oc_data s cur;
        (s, cur) \<leftarrow> oc_increment s cur tocopy;
        oc_consume_loop s cur (left - tocopy) (acc @ take tocopy bs)
      }
      else Some (acc, s, cur))
   }"

definition oc_consume :: "chunkset \<Rightarrow> cursor \<Rightarrow> nat \<Rightarrow> (bytes \<times> chunkset \<times> cursor) option" where
  "oc_consume s cur n = oc_consume_loop s cur n []"

definition oc_consume_string ::
    "chunkset \<Rightarrow> cursor \<Rightarrow> bytes \<Rightarrow> nat \<Rightarrow> (nat \<times> bytes \<times> chunkset \<times> cursor) option" where
  "oc_consume_string s cur out n = do {
     (bs, s, cur) \<leftarrow> oc_consume_loop s cur n [];
     Some (n - length bs, out @ bs, s, cur)
   }"

definition oc_consume_all ::
    "chunkset \<Rightarrow> cursor \<Rightarrow> bytes \<Rightarrow> (bytes \<times> chunkset \<times> cursor) option" where
  "oc_consume_all s cur out = do {
     left \<leftarrow> oc_left s cur;
     (_, out, s, cur) \<leftarrow> oc_consume_string s cur out left;
     Some (out, s, cur)
   }"

section \<open>A buffer\<close>

record buffer =
  bf_chunks :: chunkset   \<comment> \<open>\<open>data_\<close>, which the input cursor appends to\<close>
  bf_output :: cursor     \<comment> \<open>\<open>output_cursor_\<close>\<close>

definition Buffer_new :: "buffer option" where
  "Buffer_new = do {
     (s, cur) \<leftarrow> oc_new cs_new;
     Some \<lparr>bf_chunks = s, bf_output = cur\<rparr>
   }"

section \<open>The invariant\<close>

text \<open>
  \<open>ps\<close> lists the \<open>previous_\<close> pointers of the live output cursors. The reference count of a chunk is
  the number of cursors at it or before it, so a chunk is freed exactly when every cursor is past it.
\<close>

definition refs :: "nat \<Rightarrow> ptr list \<Rightarrow> int" where
  "refs n ps = int (length (filter (\<lambda>p. p \<le> n) ps))"

definition live :: "chunkset \<Rightarrow> ptr \<Rightarrow> bool" where
  "live s p \<longleftrightarrow> p = 0 \<or> cs_freed s < p \<and> p \<le> cs_freed s + length (cs_chunks s)"

fun offsets_ok :: "chunk list \<Rightarrow> bool" where
  "offsets_ok (c # d # cs) \<longleftrightarrow>
     ck_offset d = ck_offset c + of_nat (ck_used c) \<and> offsets_ok (d # cs)"
| "offsets_ok _ \<longleftrightarrow> True"

fun gap_free :: "chunk list \<Rightarrow> bool" where
  "gap_free (c # d # cs) \<longleftrightarrow> ck_data c \<noteq> [] \<and> gap_free (d # cs)"
| "gap_free _ \<longleftrightarrow> True"

text \<open>No chunk is empty: there is no room that was reserved and not used.\<close>

definition all_used :: "chunk list \<Rightarrow> bool" where
  "all_used cs \<longleftrightarrow> [] \<notin> set (map ck_data cs)"

definition ck_ok :: "chunk \<Rightarrow> bool" where
  "ck_ok c \<longleftrightarrow> ck_used c \<le> ck_size c \<and> kRoundedSize \<le> ck_size c"

definition links_inv :: "chunkset \<Rightarrow> ptr list \<Rightarrow> bool" where
  "links_inv s ps \<longleftrightarrow>
     list_all (live s) ps \<and>
     cs_placemark_ref s = 1 + refs 0 ps \<and>
     (\<forall>i < length (cs_chunks s). ck_ref (cs_chunks s ! i) = refs (cs_freed s + 1 + i) ps) \<and>
     (ps = [] \<or> cs_chunks s = [] \<or> list_ex (\<lambda>p. p \<le> cs_freed s + 1) ps) \<and>
     offsets_ok (cs_chunks s) \<and> list_all ck_ok (cs_chunks s)"

definition chain_inv :: "chunkset \<Rightarrow> ptr list \<Rightarrow> bool" where
  "chain_inv s ps \<longleftrightarrow> cs_refcount s = int (length ps) \<and> links_inv s ps"

definition cur_ok :: "chunkset \<Rightarrow> cursor \<Rightarrow> bool" where
  "cur_ok s cur \<longleftrightarrow>
     (case oc_chunks s cur of None \<Rightarrow> False | Some [] \<Rightarrow> oc_prev cur = 0 \<and> oc_offset cur = 0
      | Some (c # _) \<Rightarrow> oc_offset cur \<le> ck_used c)"

definition buf_inv :: "chunkset \<Rightarrow> cursor list \<Rightarrow> bool" where
  "buf_inv s curs \<longleftrightarrow> chain_inv s (map oc_prev curs) \<and> list_all (cur_ok s) curs"

text \<open>What a cursor has still to read: its abstract value.\<close>

definition unread :: "chunkset \<Rightarrow> cursor \<Rightarrow> bytes" where
  "unread s cur =
     (case oc_chunks s cur of None \<Rightarrow> []
      | Some cs \<Rightarrow> drop (oc_offset cur) (concat (map ck_data cs)))"

section \<open>Pointers\<close>

lemma refs_simps [simp]:
  "refs n [] = 0"
  "refs n (p # ps) = (if p \<le> n then 1 else 0) + refs n ps"
  by (simp_all add: refs_def)

lemma refs_nonneg [simp]: "0 \<le> refs n ps"
  by (simp add: refs_def)

lemma refs_zero: "refs n ps = 0 \<longleftrightarrow> list_all (\<lambda>p. n < p) ps"
  by (induction ps) (use refs_nonneg in \<open>auto simp: add_nonneg_eq_0_iff\<close>)

lemma refs_all: "list_all (\<lambda>p. p \<le> n) ps \<Longrightarrow> refs n ps = int (length ps)"
  by (induction ps) auto

lemma cs_after_live: "cs_after s p \<noteq> None \<longleftrightarrow> live s p"
  by (auto simp: cs_after_def live_def)

lemma cs_after_Some: "live s p \<Longrightarrow> \<exists>cs. cs_after s p = Some cs"
  using cs_after_live by blast

lemma cs_next_None: "live s p \<Longrightarrow> cs_next s p = None \<longleftrightarrow> cs_after s p = Some []"
  by (auto simp: cs_next_def cs_after_def live_def Let_def Suc_le_eq)

lemma offsets_ok_tl: "offsets_ok cs \<Longrightarrow> offsets_ok (tl cs)"
  by (cases cs rule: offsets_ok.cases) auto

lemma offsets_ok_drop: "offsets_ok cs \<Longrightarrow> offsets_ok (drop n cs)"
  by (induction n) (auto simp: drop_Suc tl_drop [symmetric] offsets_ok_tl)

lemma gap_free_tl: "gap_free cs \<Longrightarrow> gap_free (tl cs)"
  by (cases cs rule: gap_free.cases) auto

lemma gap_free_drop: "gap_free cs \<Longrightarrow> gap_free (drop n cs)"
  by (induction n) (auto simp: drop_Suc tl_drop [symmetric] gap_free_tl)

lemma links_inv_live: "links_inv s ps \<Longrightarrow> p \<in> set ps \<Longrightarrow> live s p"
  by (simp add: links_inv_def list_all_iff)

text \<open>One chunk loses the reference of one cursor, which moves on to the next.\<close>

lemma unreference_placemark:
  assumes inv: "links_inv s (0 # ps)"
  defines "s' \<equiv> s\<lparr>cs_placemark_ref := cs_placemark_ref s - 1\<rparr>"
  shows "cs_unreference s 0 = Some (cs_next s 0, s')"
    and "cs_chunks s \<noteq> [] \<Longrightarrow> links_inv s' (Suc (cs_freed s) # ps)"
    and "cs_chunks s = [] \<Longrightarrow> links_inv s' ps"
proof -
  show "cs_unreference s 0 = Some (cs_next s 0, s')"
    using inv by (auto simp: links_inv_def cs_unreference_def s'_def Let_def)
      (metis add_cancel_left_right not_one_le_zero refs_nonneg add_nonneg_eq_0_iff zero_le_one zero_neq_one)
  show "cs_chunks s \<noteq> [] \<Longrightarrow> links_inv s' (Suc (cs_freed s) # ps)"
    using inv by (auto simp: links_inv_def s'_def live_def list_all_iff Suc_le_eq)
  show "cs_chunks s = [] \<Longrightarrow> links_inv s' ps"
    using inv by (auto simp: links_inv_def s'_def live_def list_all_iff)
qed

text \<open>The reference counts play no part in what the chunks hold.\<close>

definition ck_body :: "chunk \<Rightarrow> chunk" where
  "ck_body c = c\<lparr>ck_ref := 0\<rparr>"

lemma ck_body_simps [simp]:
  "ck_data (ck_body c) = ck_data c" "ck_size (ck_body c) = ck_size c"
  "ck_offset (ck_body c) = ck_offset c" "ck_body (ck_reference n c) = ck_body c"
  by (simp_all add: ck_body_def ck_reference_def)

lemma body_offsets_ok: "offsets_ok (map ck_body cs) = offsets_ok cs"
  by (induction cs rule: offsets_ok.induct) auto

lemma body_gap_free: "gap_free (map ck_body cs) = gap_free cs"
  by (induction cs rule: gap_free.induct) auto

lemma body_ck_ok: "list_all ck_ok (map ck_body cs) = list_all ck_ok cs"
  by (induction cs) (auto simp: ck_ok_def)

lemma body_data: "map ck_data (map ck_body cs) = map ck_data cs"
  by simp

lemma body_cong:
  assumes "map ck_body cs = map ck_body ds"
  shows "offsets_ok cs = offsets_ok ds" "gap_free cs = gap_free ds"
    "list_all ck_ok cs = list_all ck_ok ds" "map ck_data cs = map ck_data ds" "length cs = length ds"
    "all_used cs = all_used ds"
  using assms body_offsets_ok body_gap_free body_ck_ok body_data
  by (metis, metis, metis, metis, metis length_map, metis all_used_def)

lemma all_used_tl: "all_used cs \<Longrightarrow> all_used (tl cs)"
  by (cases cs) (simp_all add: all_used_def)

lemma all_used_gap_free: "all_used cs \<longleftrightarrow> gap_free cs \<and> (cs = [] \<or> ck_data (last cs) \<noteq> [])"
  by (induction cs rule: gap_free.induct) (auto simp: all_used_def)

lemma body_update [simp]:
  "map ck_body (cs[i := ck_reference n (cs ! i)]) = map ck_body cs"
  by (cases "i < length cs"; rule nth_equalityI) (auto simp: nth_list_update list_update_beyond)

lemma body_reference [simp]:
  "map ck_body (map (ck_reference n) cs) = map ck_body cs"
  by simp

lemma list_all_lessI: "list_all (live s) ps \<Longrightarrow> list_all (\<lambda>r. p < r) ps \<Longrightarrow> r \<in> set ps \<Longrightarrow>
    p < r \<and> cs_freed s < r \<and> r \<le> cs_freed s + length (cs_chunks s)"
  by (auto simp: list_all_iff live_def)

text \<open>The chunk at \<open>p\<close> keeps a reference.\<close>

lemma unreference_keep:
  assumes inv: "links_inv s (p # ps)" and p: "p \<noteq> 0" and keep: "refs p ps \<noteq> 0"
  defines "i \<equiv> p - cs_freed s - 1"
  defines "s' \<equiv> s\<lparr>cs_chunks := (cs_chunks s)[i := ck_reference (- 1) (cs_chunks s ! i)]\<rparr>"
  shows "cs_unreference s p = Some (cs_next s p, s')"
    and "p < cs_freed s + length (cs_chunks s) \<Longrightarrow> links_inv s' (Suc p # ps)"
    and "p = cs_freed s + length (cs_chunks s) \<Longrightarrow> links_inv s' ps"
proof -
  have live: "cs_freed s < p" "p \<le> cs_freed s + length (cs_chunks s)"
    using inv p by (auto simp: links_inv_def live_def)
  then have i: "i < length (cs_chunks s)" "p = Suc (cs_freed s + i)"
    by (auto simp: i_def)
  then have ref: "ck_ref (cs_chunks s ! i) = 1 + refs p ps"
    using inv by (simp add: links_inv_def)
  show "cs_unreference s p = Some (cs_next s p, s')"
    using live ref keep p
    by (simp add: cs_unreference_def s'_def i_def Let_def ck_reference_def)
  have body: "map ck_body (cs_chunks s') = map ck_body (cs_chunks s)"
    by (simp add: s'_def)
  have first: "list_ex (\<lambda>r. r \<le> Suc (cs_freed s)) ps"
    using inv keep i by (cases i) (auto simp: links_inv_def refs_zero list_all_iff list_ex_iff not_less)
  have refs': "ck_ref (cs_chunks s' ! j) = refs (Suc (cs_freed s + j)) ps +
      (if i < j then 1 else 0)" if "j < length (cs_chunks s)" for j
    using inv i that by (auto simp: links_inv_def s'_def nth_list_update ck_reference_def)
  show "p < cs_freed s + length (cs_chunks s) \<Longrightarrow> links_inv s' (Suc p # ps)"
    using inv i first refs' body_cong [OF body]
    by (auto simp: links_inv_def list_all_iff s'_def live_def)
  show "p = cs_freed s + length (cs_chunks s) \<Longrightarrow> links_inv s' ps"
    using inv i first refs' body_cong [OF body]
    by (auto simp: links_inv_def list_all_iff s'_def live_def)
qed

text \<open>The last reference goes: the chunk was the first of the chain and is freed.\<close>

lemma unreference_free:
  assumes inv: "links_inv s (p # ps)" and p: "p \<noteq> 0" and gone: "refs p ps = 0"
  defines "s' \<equiv> s\<lparr>cs_chunks := tl (cs_chunks s), cs_freed := Suc (cs_freed s)\<rparr>"
  shows "p = Suc (cs_freed s)" "cs_chunks s \<noteq> []" 
    and "cs_unreference s p = Some (cs_next s' 0, s')"
    and "p < cs_freed s + length (cs_chunks s) \<Longrightarrow> links_inv s' (Suc p # ps)"
    and "p = cs_freed s + length (cs_chunks s) \<Longrightarrow> links_inv s' ps"
    and "\<And>r. r \<in> set ps \<Longrightarrow> p < r"
proof -
  have later: "\<And>r. r \<in> set ps \<Longrightarrow> p < r"
    using gone by (auto simp: refs_zero list_all_iff)
  have live: "cs_freed s < p" "p \<le> cs_freed s + length (cs_chunks s)"
    using inv p by (auto simp: links_inv_def live_def)
  then show ne: "cs_chunks s \<noteq> []" by auto
  show p1: "p = Suc (cs_freed s)"
    using inv ne later live by (fastforce simp: links_inv_def list_ex_iff)
  obtain c cs where cs: "cs_chunks s = c # cs"
    using ne by (cases "cs_chunks s") auto
  have ref: "ck_ref c = 1"
    using inv gone by (auto simp: links_inv_def cs p1)
  show "cs_unreference s p = Some (cs_next s' 0, s')"
    using ref by (simp add: cs_unreference_def s'_def p1 cs ck_reference_def Let_def)
  have z: "refs 0 ps = 0"
    using later p by (fastforce simp: refs_zero list_all_iff)
  have refs': "ck_ref (cs ! j) = 1 + refs (Suc (Suc (cs_freed s + j))) ps" if "j < length cs" for j
    using inv that unfolding links_inv_def by (auto simp: cs p1 dest!: spec [of _ "Suc j"])
  show "p < cs_freed s + length (cs_chunks s) \<Longrightarrow> links_inv s' (Suc p # ps)"
    using inv refs' z later offsets_ok_tl [of "cs_chunks s"]
    by (auto simp: links_inv_def list_all_iff s'_def live_def p1 cs Suc_le_eq)
  show "p = cs_freed s + length (cs_chunks s) \<Longrightarrow> links_inv s' ps"
    using inv refs' z later by (auto simp: links_inv_def list_all_iff s'_def live_def p1 cs)
  show "\<And>r. r \<in> set ps \<Longrightarrow> p < r" by (rule later)
qed

text \<open>
  The chunks a pointer leads to, as far as their contents go: what survives a change of the
  reference counts.
\<close>

definition bodies :: "chunkset \<Rightarrow> ptr \<Rightarrow> chunk list option" where
  "bodies s p = map_option (map ck_body) (cs_after s p)"

lemma bodies_map:
  "bodies s p =
     (if p = 0 then Some (map ck_body (cs_chunks s))
      else if cs_freed s < p \<and> p \<le> cs_freed s + length (map ck_body (cs_chunks s))
      then Some (drop (p - cs_freed s) (map ck_body (cs_chunks s))) else None)"
  by (simp add: bodies_def cs_after_def drop_map)

lemma bodies_cong:
  assumes "cs_freed s' = cs_freed s" "map ck_body (cs_chunks s') = map ck_body (cs_chunks s)"
  shows "bodies s' p = bodies s p"
  by (simp only: bodies_map assms)

lemma bodies_free:
  assumes "cs_freed s < p" "p \<le> cs_freed s + length (cs_chunks s)"
  shows "p < cs_freed s + length (cs_chunks s) \<Longrightarrow>
      bodies (s\<lparr>cs_chunks := tl (cs_chunks s), cs_freed := Suc (cs_freed s)\<rparr>) (Suc p) =
      map_option tl (bodies s p)" (is "_ \<Longrightarrow> ?move")
    and "p \<noteq> Suc (cs_freed s) \<Longrightarrow>
      bodies (s\<lparr>cs_chunks := tl (cs_chunks s), cs_freed := Suc (cs_freed s)\<rparr>) p = bodies s p"
proof -
  show "p < cs_freed s + length (cs_chunks s) \<Longrightarrow> ?move"
    using assms by (auto simp: bodies_def cs_after_def tl_drop map_tl [symmetric])
  assume "p \<noteq> Suc (cs_freed s)"
  then have "drop (p - cs_freed s) (cs_chunks s) = drop (p - Suc (cs_freed s)) (tl (cs_chunks s))"
    using assms by (simp add: drop_Suc [symmetric] Suc_diff_Suc)
  then show "bodies (s\<lparr>cs_chunks := tl (cs_chunks s), cs_freed := Suc (cs_freed s)\<rparr>) p = bodies s p"
    using assms \<open>p \<noteq> Suc (cs_freed s)\<close> by (auto simp: bodies_def cs_after_def)
qed

lemma bodies_update:
  "bodies (s\<lparr>cs_chunks := (cs_chunks s)[i := ck_reference n (cs_chunks s ! i)]\<rparr>) p = bodies s p"
  by (auto simp: bodies_def cs_after_def drop_map [symmetric] body_update)

lemma bodies_placemark_ref: "bodies (s\<lparr>cs_placemark_ref := n\<rparr>) p = bodies s p"
  by (simp add: bodies_def cs_after_def)

lemma bodies_next:
  assumes "bodies s p = Some (c # cs)"
  shows "bodies s (if p = 0 then Suc (cs_freed s) else Suc p) = Some cs"
    and "cs_next s p = Some (if p = 0 then Suc (cs_freed s) else Suc p)"
    and "p < cs_freed s + length (cs_chunks s)"
proof -
  have len: "p < cs_freed s + length (cs_chunks s)"
    by (rule ccontr) (use assms in \<open>auto simp: bodies_def cs_after_def split: if_splits\<close>)
  then show "p < cs_freed s + length (cs_chunks s)" .
  show "cs_next s p = Some (if p = 0 then Suc (cs_freed s) else Suc p)"
    using len assms by (auto simp: cs_next_def bodies_def cs_after_def split: if_splits)
  show "bodies s (if p = 0 then Suc (cs_freed s) else Suc p) = Some cs"
    using len assms by (auto simp: bodies_def cs_after_def drop_Suc tl_drop [symmetric] Suc_diff_le
        split: if_splits)
qed

text \<open>A cursor that has chunks left to read moves to the next one.\<close>

lemma unreference_move:
  assumes inv: "links_inv s (p # ps)" and more: "bodies s p = Some (c # cs)"
  obtains q s' where "cs_unreference s p = Some (Some q, s')" "links_inv s' (q # ps)"
    "cs_refcount s' = cs_refcount s" "bodies s' q = Some cs"
    "gap_free (cs_chunks s) \<Longrightarrow> gap_free (cs_chunks s')"
    "all_used (cs_chunks s) \<Longrightarrow> all_used (cs_chunks s')"
    "\<And>r. r \<in> set ps \<Longrightarrow> bodies s' r = bodies s r"
proof -
  have live: "live s p" using inv by (simp add: links_inv_def)
  consider (placemark) "p = 0" | (keep) "p \<noteq> 0" "refs p ps \<noteq> 0" | (free) "p \<noteq> 0" "refs p ps = 0"
    by blast
  then show thesis
  proof cases
    case placemark
    then have ne: "cs_chunks s \<noteq> []" using more by (auto simp: bodies_def cs_after_def)
    let ?s' = "s\<lparr>cs_placemark_ref := cs_placemark_ref s - 1\<rparr>"
    show thesis
      using unreference_placemark [of s ps] ne inv bodies_next [OF more] placemark
      by (intro that [of "Suc (cs_freed s)" ?s']) (simp_all add: bodies_placemark_ref)
  next
    case keep
    let ?i = "p - cs_freed s - 1"
    let ?s' = "s\<lparr>cs_chunks := (cs_chunks s)[?i := ck_reference (- 1) (cs_chunks s ! ?i)]\<rparr>"
    show thesis
      using unreference_keep [OF inv keep] bodies_next [OF more] keep
      by (intro that [of "Suc p" ?s'])
        (simp_all add: bodies_update body_cong(2,6) [OF body_update])
  next
    case free
    let ?s' = "s\<lparr>cs_chunks := tl (cs_chunks s), cs_freed := Suc (cs_freed s)\<rparr>"
    note free_facts = unreference_free [OF inv free]
    have bounds: "cs_freed s < p" "p \<le> cs_freed s + length (cs_chunks s)"
      using live free by (auto simp: live_def)
    have next_ptr: "cs_next ?s' 0 = Some (Suc p)"
      using free_facts(1) bodies_next(3) [OF more] by (simp add: cs_next_def)
    have other: "bodies ?s' r = bodies s r" if "r \<in> set ps" for r
    proof -
      have "live s r" "p < r" using inv that free_facts(6) by (auto simp: links_inv_def list_all_iff)
      then show ?thesis using free_facts(1) by (intro bodies_free) (auto simp: live_def)
    qed
    show thesis
      using free_facts bodies_next(3) [OF more] bodies_free(1) [OF bounds] more next_ptr other
      by (intro that [of "Suc p" ?s']) (simp_all add: gap_free_tl all_used_tl)
  qed
qed

text \<open>A cursor at the last chunk gives up its reference: nothing follows.\<close>

lemma unreference_last:
  assumes inv: "links_inv s (p # ps)" and more: "bodies s p = Some []"
  obtains s' where "cs_unreference s p = Some (None, s')" "links_inv s' ps"
    "cs_refcount s' = cs_refcount s"
    "gap_free (cs_chunks s) \<Longrightarrow> gap_free (cs_chunks s')"
    "all_used (cs_chunks s) \<Longrightarrow> all_used (cs_chunks s')"
    "\<And>r. r \<in> set ps \<Longrightarrow> bodies s' r = bodies s r"
proof -
  have live: "live s p" using inv by (simp add: links_inv_def)
  have none: "cs_next s p = None"
    using cs_next_None [OF live] more by (simp add: bodies_def)
  consider (placemark) "p = 0" | (keep) "p \<noteq> 0" "refs p ps \<noteq> 0" | (free) "p \<noteq> 0" "refs p ps = 0"
    by blast
  then show thesis
  proof cases
    case placemark
    then have ne: "cs_chunks s = []" using more by (auto simp: bodies_def cs_after_def)
    let ?s' = "s\<lparr>cs_placemark_ref := cs_placemark_ref s - 1\<rparr>"
    show thesis
      using unreference_placemark [of s ps] ne inv none placemark
      by (intro that [of ?s']) (simp_all add: bodies_placemark_ref)
  next
    case keep
    let ?i = "p - cs_freed s - 1"
    let ?s' = "s\<lparr>cs_chunks := (cs_chunks s)[?i := ck_reference (- 1) (cs_chunks s ! ?i)]\<rparr>"
    have "p = cs_freed s + length (cs_chunks s)"
      using live keep more by (auto simp: live_def bodies_def cs_after_def split: if_splits)
    then show thesis
      using unreference_keep [OF inv keep] none keep
      by (intro that [of ?s']) (simp_all add: bodies_update body_cong(2,6) [OF body_update])
  next
    case free
    let ?s' = "s\<lparr>cs_chunks := tl (cs_chunks s), cs_freed := Suc (cs_freed s)\<rparr>"
    note free_facts = unreference_free [OF inv free]
    have end_ptr: "p = cs_freed s + length (cs_chunks s)"
      using live free more by (auto simp: live_def bodies_def cs_after_def split: if_splits)
    have next_ptr: "cs_next ?s' 0 = None"
      using free_facts(1,2) end_ptr by (simp add: cs_next_def)
    have other: "bodies ?s' r = bodies s r" if "r \<in> set ps" for r
    proof -
      have "live s r" "p < r" using inv that free_facts(6) by (auto simp: links_inv_def list_all_iff)
      then show ?thesis using end_ptr by (auto simp: live_def)
    qed
    show thesis
      using free_facts end_ptr next_ptr other by (intro that [of ?s']) (simp_all add: gap_free_tl all_used_tl)
  qed
qed

lemma unreference_chain:
  assumes "links_inv s (p # ps)" "bodies s p = Some cs"
  shows "\<exists>s'. cs_unreference_chain s (Some p) = Some s' \<and> links_inv s' ps \<and>
    cs_refcount s' = cs_refcount s \<and> (gap_free (cs_chunks s) \<longrightarrow> gap_free (cs_chunks s')) \<and>
    (all_used (cs_chunks s) \<longrightarrow> all_used (cs_chunks s')) \<and>
    (\<forall>r \<in> set ps. bodies s' r = bodies s r)"
  using assms
proof (induction cs arbitrary: s p)
  case Nil
  from unreference_last [OF this] show ?case
    by (metis (no_types, lifting) cs_unreference_chain.simps option.simps(4,5) bind.bind_lunit
        split_conv)
next
  case (Cons c cs)
  obtain q s' where move: "cs_unreference s p = Some (Some q, s')" "links_inv s' (q # ps)"
    "cs_refcount s' = cs_refcount s" "bodies s' q = Some cs"
    "gap_free (cs_chunks s) \<Longrightarrow> gap_free (cs_chunks s')"
    "all_used (cs_chunks s) \<Longrightarrow> all_used (cs_chunks s')"
    "\<And>r. r \<in> set ps \<Longrightarrow> bodies s' r = bodies s r"
    by (rule unreference_move [OF Cons.prems]) (rule that)
  from Cons.IH [OF move(2,4)] move show ?case
    by (auto simp: cs_unreference_chain.simps [of s])
qed

lemma refs_mset: "refs n ps = int (size (filter_mset (\<lambda>p. p \<le> n) (mset ps)))"
  by (simp add: refs_def flip: mset_filter)

lemma links_inv_perm: "mset ps = mset qs \<Longrightarrow> links_inv s ps \<Longrightarrow> links_inv s qs"
  using mset_eq_setD [of ps qs] mset_zero_iff [of ps] mset_zero_iff [of qs]
  unfolding links_inv_def refs_mset list_all_iff list_ex_iff by auto

lemma chain_inv_perm: "mset ps = mset qs \<Longrightarrow> chain_inv s ps \<Longrightarrow> chain_inv s qs"
  unfolding chain_inv_def using links_inv_perm mset_eq_length by metis

text \<open>A new cursor that starts where another one is, or at the placemark.\<close>

lemma reference_from:
  assumes inv: "chain_inv s ps" and p: "p = 0 \<or> p \<in> set ps"
  obtains s' where "cs_reference_from s p = Some s'" "chain_inv s' (p # ps)"
    "gap_free (cs_chunks s') = gap_free (cs_chunks s)" "all_used (cs_chunks s') = all_used (cs_chunks s)"
    "\<And>r. bodies s' r = bodies s r"
proof (cases "p = 0")
  case True
  let ?s' = "s\<lparr>cs_refcount := cs_refcount s + 1, cs_placemark_ref := cs_placemark_ref s + 1,
               cs_chunks := map (ck_reference 1) (cs_chunks s)\<rparr>"
  note body = body_cong [OF body_reference [of 1 "cs_chunks s"]]
  have "chain_inv ?s' (p # ps)"
    using inv body True
    by (auto simp: chain_inv_def links_inv_def list_all_iff live_def ck_reference_def)
  then show thesis
    using True body by (intro that [of ?s'] bodies_cong) (simp_all add: cs_reference_from_def Let_def)
next
  case False
  let ?i = "p - cs_freed s - 1"
  let ?cs = "take ?i (cs_chunks s) @ map (ck_reference 1) (drop ?i (cs_chunks s))"
  let ?s' = "s\<lparr>cs_refcount := cs_refcount s + 1, cs_chunks := ?cs\<rparr>"
  have live: "cs_freed s < p" "p \<le> cs_freed s + length (cs_chunks s)" and ps: "p \<in> set ps"
    using inv p False by (auto simp: chain_inv_def links_inv_def list_all_iff live_def)
  have eq: "map ck_body ?cs = map ck_body (cs_chunks s)"
    by (simp add: o_def flip: take_map drop_map)
  note body = body_cong [OF eq]
  have refs': "ck_ref (?cs ! j) = refs (Suc (cs_freed s + j)) (p # ps)" if "j < length (cs_chunks s)" for j
    using inv that live
    by (auto simp: chain_inv_def links_inv_def nth_append ck_reference_def min_def)
  have "chain_inv ?s' (p # ps)"
    using inv body False live refs' ps
    by (auto simp: chain_inv_def links_inv_def list_all_iff live_def)
  then show thesis
    using False live body eq by (intro that [of ?s'] bodies_cong)
      (simp_all add: cs_reference_from_def Let_def)
qed

text \<open>A chunk linked at the end.\<close>

lemma offsets_ok_snoc:
  "offsets_ok (cs @ [d]) \<longleftrightarrow> offsets_ok cs \<and>
    (cs = [] \<or> ck_offset d = ck_offset (last cs) + of_nat (ck_used (last cs)))"
  by (induction cs rule: offsets_ok.induct) auto

lemma gap_free_snoc: "gap_free (cs @ [d]) \<longleftrightarrow> gap_free cs \<and> (cs = [] \<or> ck_data (last cs) \<noteq> [])"
  by (induction cs rule: gap_free.induct) auto

lemma append_chunk:
  assumes inv: "chain_inv s ps" and n: "kRoundedSize \<le> n"
  shows "chain_inv (cs_append s n) ps"
    and "gap_free (cs_chunks (cs_append s n)) \<longleftrightarrow>
           gap_free (cs_chunks s) \<and> (cs_chunks s = [] \<or> ck_data (last (cs_chunks s)) \<noteq> [])"
    and "live s p \<Longrightarrow> \<exists>d. bodies (cs_append s n) p = map_option (\<lambda>cs. cs @ [d]) (bodies s p) \<and> ck_data d = []"
proof -
  have all: "refs (Suc (cs_freed s + length (cs_chunks s))) ps = int (length ps)"
    using inv by (intro refs_all) (auto simp: chain_inv_def links_inv_def list_all_iff live_def)
  have ex: "ps = [] \<or> cs_chunks s \<noteq> [] \<or> list_ex (\<lambda>p. p \<le> cs_freed s + 1) ps"
    using inv by (cases ps) (auto simp: chain_inv_def links_inv_def live_def)
  show "chain_inv (cs_append s n) ps"
    using inv n all ex
    by (auto simp: chain_inv_def links_inv_def cs_append_def Let_def list_all_iff live_def
        nth_append offsets_ok_snoc ck_ok_def less_Suc_eq)
  show "gap_free (cs_chunks (cs_append s n)) \<longleftrightarrow>
           gap_free (cs_chunks s) \<and> (cs_chunks s = [] \<or> ck_data (last (cs_chunks s)) \<noteq> [])"
    by (simp add: cs_append_def Let_def gap_free_snoc)
  show "live s p \<Longrightarrow> \<exists>d. bodies (cs_append s n) p = map_option (\<lambda>cs. cs @ [d]) (bodies s p) \<and> ck_data d = []"
    by (auto simp: bodies_def cs_append_def Let_def cs_after_def live_def)
qed

text \<open>Bytes written into the last chunk.\<close>

definition ck_view :: "chunk list \<Rightarrow> bytes" where
  "ck_view cs = concat (map ck_data cs)"

lemma ck_view_simps [simp]:
  "ck_view [] = []" "ck_view (c # cs) = ck_data c @ ck_view cs" "ck_view (cs @ ds) = ck_view cs @ ck_view ds"
  by (simp_all add: ck_view_def)

lemma ck_view_body: "map ck_body cs = ds \<Longrightarrow> ck_view cs = ck_view ds"
  by (auto simp: ck_view_def o_def)

lemma ck_write_simps [simp]:
  "ck_data (ck_write bs c) = ck_data c @ bs" "ck_size (ck_write bs c) = ck_size c"
  "ck_offset (ck_write bs c) = ck_offset c" "ck_ref (ck_write bs c) = ck_ref c"
  "ck_body (ck_write bs c) = ck_write bs (ck_body c)"
  by (simp_all add: ck_write_def ck_body_def)

lemma bodies_write:
  assumes cs: "cs_chunks s = cs @ [c]" and ds: "bodies s p = Some ds" "ds \<noteq> []"
  shows "bodies (s\<lparr>cs_chunks := cs @ [ck_write bs c]\<rparr>) p = Some (butlast ds @ [ck_write bs (last ds)])"
proof -
  define n where "n = (if p = 0 then 0 else p - cs_freed s)"
  have "ds = drop n (map ck_body cs @ [ck_body c])"
    using ds(1) by (simp add: bodies_map cs n_def split: if_splits)
  moreover from this ds(2) have n: "n \<le> length cs" by (cases "n \<le> length cs") auto
  ultimately have "ds = drop n (map ck_body cs) @ [ck_body c]" by simp
  moreover have "bodies (s\<lparr>cs_chunks := cs @ [ck_write bs c]\<rparr>) p =
      Some (drop n (map ck_body cs @ [ck_write bs (ck_body c)]))"
    using ds(1) by (simp add: bodies_map cs n_def split: if_splits)
  ultimately show ?thesis using n by simp
qed

lemma commit_bytes:
  assumes inv: "chain_inv s ps" and fits: "length bs \<le> ic_contiguous s" 
  obtains s' where "ic_commit s bs = Some s'" "chain_inv s' ps"
    "gap_free (cs_chunks s') = gap_free (cs_chunks s)"
    "\<And>p cs. bodies s p = Some cs \<Longrightarrow> cs \<noteq> [] \<Longrightarrow>
       bodies s' p = Some (butlast cs @ [ck_write bs (last cs)])"
    "\<And>p. bodies s p = Some [] \<Longrightarrow> bodies s' p = Some []"
    "ic_contiguous s' = ic_contiguous s - length bs" "cs_chunks s' = [] \<longleftrightarrow> cs_chunks s = []"
    "cs_chunks s \<noteq> [] \<Longrightarrow> ck_data (last (cs_chunks s')) = ck_data (last (cs_chunks s)) @ bs"
proof (cases "bs = []")
  case True
  have "ck_write [] = (\<lambda>c. c)" by (rule ext) (simp add: ck_write_def)
  then show thesis using True inv by (intro that [of s]) (simp_all add: ic_commit_def)
next
  case False
  then have ne: "cs_chunks s \<noteq> []" using fits by (auto simp: ic_contiguous_def)
  then obtain cs c where cs: "cs_chunks s = cs @ [c]"
    by (cases "cs_chunks s" rule: rev_cases) auto
  let ?s' = "s\<lparr>cs_chunks := cs @ [ck_write bs c]\<rparr>"
  have fit: "length (ck_data c) + length bs \<le> ck_size c"
    using fits inv False by (auto simp: chain_inv_def links_inv_def ic_contiguous_def cs ck_available_def ck_ok_def)
  have refs': "ck_ref ((cs @ [ck_write bs c]) ! i) = ck_ref ((cs @ [c]) ! i)" for i
    by (cases "i - length cs") (simp_all add: nth_append)
  have "live ?s' = live s" by (rule ext) (simp add: live_def cs)
  then have inv': "chain_inv ?s' ps"
    using inv fit by (auto simp: chain_inv_def links_inv_def cs offsets_ok_snoc ck_ok_def refs')
  show thesis
    using inv' fits False bodies_write [OF cs] bodies_map [of s 0] by (intro that [of ?s'])
      (auto simp: ic_commit_def cs gap_free_snoc ic_contiguous_def ck_available_def bodies_map
        split: if_splits)
qed

text \<open>
  \<open>ds\<close> holds what \<open>cs\<close> held and then \<open>bs\<close>, and the offset of a reader in the first chunk is still
  in range.
\<close>

definition extends :: "chunk list \<Rightarrow> bytes \<Rightarrow> chunk list \<Rightarrow> bool" where
  "extends cs bs ds \<longleftrightarrow> ck_view ds = ck_view cs @ bs \<and>
     (cs \<noteq> [] \<longrightarrow> ds \<noteq> [] \<and> ck_used (hd cs) \<le> ck_used (hd ds))"

lemma extends_refl: "extends cs [] cs"
  by (simp add: extends_def)

lemma extends_trans: "extends cs bs ds \<Longrightarrow> extends ds bs' es \<Longrightarrow> extends cs (bs @ bs') es"
  by (auto simp: extends_def)

lemma extends_snoc: "ck_data d = [] \<Longrightarrow> extends cs [] (cs @ [d])"
  by (auto simp: extends_def)

lemma extends_write: "cs \<noteq> [] \<Longrightarrow> extends cs bs (butlast cs @ [ck_write bs (last cs)])"
  by (cases cs rule: rev_cases) (auto simp: extends_def hd_append)

text \<open>Every reader of \<open>s\<close>, wherever it stands, has \<open>bs\<close> more to read in \<open>s'\<close>.\<close>

definition grows :: "chunkset \<Rightarrow> bytes \<Rightarrow> chunkset \<Rightarrow> bool" where
  "grows s bs s' \<longleftrightarrow> (\<forall>p cs. bodies s p = Some cs \<longrightarrow> (p = 0 \<or> cs \<noteq> []) \<longrightarrow>
     (\<exists>ds. bodies s' p = Some ds \<and> extends cs bs ds))"

lemma grows_refl: "grows s [] s"
  by (simp add: grows_def extends_refl)

lemma grows_trans: "grows s bs s' \<Longrightarrow> grows s' bs' s'' \<Longrightarrow> grows s (bs @ bs') s''"
  unfolding grows_def
proof (intro allI impI)
  fix p cs
  assume *: "\<forall>p cs. bodies s p = Some cs \<longrightarrow> p = 0 \<or> cs \<noteq> [] \<longrightarrow>
      (\<exists>ds. bodies s' p = Some ds \<and> extends cs bs ds)"
    "\<forall>p cs. bodies s' p = Some cs \<longrightarrow> p = 0 \<or> cs \<noteq> [] \<longrightarrow>
      (\<exists>ds. bodies s'' p = Some ds \<and> extends cs bs' ds)"
    "bodies s p = Some cs" "p = 0 \<or> cs \<noteq> []"
  from *(1,3,4) obtain ds where ds: "bodies s' p = Some ds" "extends cs bs ds" by blast
  with *(4) have "p = 0 \<or> ds \<noteq> []" by (auto simp: extends_def)
  with *(2) ds show "\<exists>ds. bodies s'' p = Some ds \<and> extends cs (bs @ bs') ds"
    by (blast intro: extends_trans)
qed

lemma bodies_live: "bodies s p = Some cs \<Longrightarrow> live s p"
  by (metis bodies_def cs_after_live option.map_disc_iff option.distinct(1))

lemma grows_append: "chain_inv s ps \<Longrightarrow> kRoundedSize \<le> n \<Longrightarrow> grows s [] (cs_append s n)"
  unfolding grows_def using append_chunk(3) bodies_live extends_snoc by (metis option.simps(9))

lemma RoundSize_ge: "kRoundedSize \<le> RoundSize n" "n \<le> RoundSize n"
  by (simp_all add: RoundSize_def)

lemma append_contiguous: "ic_contiguous (cs_append s n) = n" "cs_chunks (cs_append s n) \<noteq> []"
  by (simp_all add: cs_append_def ic_contiguous_def ck_available_def Let_def)

lemma contiguous_zero:
  "chain_inv s ps \<Longrightarrow> ic_contiguous s = 0 \<Longrightarrow> cs_chunks s = [] \<or> ck_data (last (cs_chunks s)) \<noteq> []"
  by (auto simp: chain_inv_def links_inv_def ic_contiguous_def ck_available_def ck_ok_def
      list_all_iff kRoundedSize_def dest!: last_in_set split: if_splits)

lemma commit_grows:
  assumes inv: "chain_inv s ps" and fits: "length bs \<le> ic_contiguous s" and ne: "cs_chunks s \<noteq> []"
  obtains s' where "ic_commit s bs = Some s'" "chain_inv s' ps" "grows s bs s'"
    "gap_free (cs_chunks s') = gap_free (cs_chunks s)" "cs_chunks s' \<noteq> []"
    "ic_contiguous s' = ic_contiguous s - length bs"
    "ck_data (last (cs_chunks s')) = ck_data (last (cs_chunks s)) @ bs"
proof (rule commit_bytes [OF inv fits])
  fix s'
  assume *: "ic_commit s bs = Some s'" "chain_inv s' ps"
    "gap_free (cs_chunks s') = gap_free (cs_chunks s)"
    "\<And>p cs. bodies s p = Some cs \<Longrightarrow> cs \<noteq> [] \<Longrightarrow>
       bodies s' p = Some (butlast cs @ [ck_write bs (last cs)])"
    "ic_contiguous s' = ic_contiguous s - length bs" "cs_chunks s' = [] \<longleftrightarrow> cs_chunks s = []"
    "cs_chunks s \<noteq> [] \<Longrightarrow> ck_data (last (cs_chunks s')) = ck_data (last (cs_chunks s)) @ bs"
  have "grows s bs s'"
    unfolding grows_def
  proof (intro allI impI)
    fix p cs
    assume cs: "bodies s p = Some cs" "p = 0 \<or> cs \<noteq> []"
    then have "cs \<noteq> []" using ne by (auto simp: bodies_map)
    with cs *(4) show "\<exists>ds. bodies s' p = Some ds \<and> extends cs bs ds"
      by (intro exI [of _ "butlast cs @ [ck_write bs (last cs)]"]) (simp add: extends_write)
  qed
  with * ne show thesis by (intro that) simp_all
qed

lemma add_loop:
  assumes "chain_inv s ps" "cs_chunks s \<noteq> []"
  shows "\<exists>s'. ic_add_loop s bs = Some s' \<and> chain_inv s' ps \<and> grows s bs s' \<and> cs_chunks s' \<noteq> [] \<and>
    (gap_free (cs_chunks s) \<longrightarrow> gap_free (cs_chunks s')) \<and>
    (bs \<noteq> [] \<or> ck_data (last (cs_chunks s)) \<noteq> [] \<longrightarrow> ck_data (last (cs_chunks s')) \<noteq> [])"
  using assms
proof (induction "if ic_contiguous s = 0 then Suc (length bs) else length bs" arbitrary: s bs
    rule: less_induct)
  case less
  let ?k = "min (length bs) (ic_contiguous s)"
  obtain s1 where s1: "ic_commit s (take ?k bs) = Some s1" "chain_inv s1 ps" "grows s (take ?k bs) s1"
    "gap_free (cs_chunks s1) = gap_free (cs_chunks s)" "cs_chunks s1 \<noteq> []"
    "ic_contiguous s1 = ic_contiguous s - ?k"
    "ck_data (last (cs_chunks s1)) = ck_data (last (cs_chunks s)) @ take ?k bs"
    using commit_grows [of s ps "take ?k bs"] less.prems by auto
  show ?case
  proof (cases "drop ?k bs = []")
    case True
    then have "take ?k bs = bs" by simp
    with s1 True show ?thesis by (auto simp: ic_add_loop.simps [of s])
  next
    case False
    let ?bs = "drop ?k bs"
    let ?s2 = "cs_append s1 (RoundSize (length ?bs))"
    have full: "ic_contiguous s1 = 0" "?k = ic_contiguous s" using False s1(6) by auto
    have s2: "chain_inv ?s2 ps" "gap_free (cs_chunks s) \<longrightarrow> gap_free (cs_chunks ?s2)" "grows s1 [] ?s2"
      using append_chunk(1,2) [OF s1(2) RoundSize_ge(1)] grows_append [OF s1(2) RoundSize_ge(1)]
        contiguous_zero [OF s1(2) full(1)] s1(4) by auto
    have pos: "0 < RoundSize (length ?bs)"
      using RoundSize_ge(1) [of "length ?bs"] by (simp add: kRoundedSize_def)
    have "\<exists>s'. ic_add_loop ?s2 ?bs = Some s' \<and> chain_inv s' ps \<and> grows ?s2 ?bs s' \<and> cs_chunks s' \<noteq> [] \<and>
      (gap_free (cs_chunks ?s2) \<longrightarrow> gap_free (cs_chunks s')) \<and>
      (?bs \<noteq> [] \<or> ck_data (last (cs_chunks ?s2)) \<noteq> [] \<longrightarrow> ck_data (last (cs_chunks s')) \<noteq> [])"
      using less.hyps [of ?s2 ?bs] s2 pos full append_contiguous by (cases "ic_contiguous s") auto
    then obtain s' where s': "ic_add_loop ?s2 ?bs = Some s'" "chain_inv s' ps" "grows ?s2 ?bs s'"
      "cs_chunks s' \<noteq> []" "gap_free (cs_chunks ?s2) \<longrightarrow> gap_free (cs_chunks s')"
      "ck_data (last (cs_chunks s')) \<noteq> []" using False by blast
    have "grows s bs s'"
      using grows_trans [OF grows_trans [OF s1(3) s2(3)] s'(3)] by simp
    with s' s1 s2 False show ?thesis by (auto simp: ic_add_loop.simps [of s] Let_def)
  qed
qed

section \<open>What the cursors read\<close>

lemma oc_chunks_bodies: "map_option (map ck_body) (oc_chunks s cur) = bodies s (oc_prev cur)"
  by (simp add: oc_chunks_def bodies_def)

lemma cur_ok_bodies:
  "cur_ok s cur \<longleftrightarrow> (\<exists>cs. bodies s (oc_prev cur) = Some cs \<and>
     (if cs = [] then oc_prev cur = 0 \<and> oc_offset cur = 0 else oc_offset cur \<le> ck_used (hd cs)))"
  using oc_chunks_bodies [of s cur]
  by (cases "oc_chunks s cur") (auto simp: cur_ok_def eq_commute [of _ "bodies s (oc_prev cur)"]
      split: list.split)

lemma unread_bodies:
  "unread s cur = (case bodies s (oc_prev cur) of None \<Rightarrow> [] | Some cs \<Rightarrow> drop (oc_offset cur) (ck_view cs))"
  using oc_chunks_bodies [of s cur]
  by (cases "oc_chunks s cur") (auto simp: unread_def ck_view_def o_def eq_commute [of _ "bodies s (oc_prev cur)"])

lemma bodies_same:
  assumes "bodies s' (oc_prev cur) = bodies s (oc_prev cur)"
  shows "cur_ok s' cur = cur_ok s cur" "unread s' cur = unread s cur"
  using assms by (simp_all add: cur_ok_bodies unread_bodies)

lemma grows_cursor:
  assumes "grows s bs s'" "cur_ok s cur"
  shows "cur_ok s' cur" "unread s' cur = unread s cur @ bs"
proof -
  obtain cs where cs: "bodies s (oc_prev cur) = Some cs"
    "if cs = [] then oc_prev cur = 0 \<and> oc_offset cur = 0 else oc_offset cur \<le> ck_used (hd cs)"
    using assms(2) unfolding cur_ok_bodies by blast
  then obtain ds where ds: "bodies s' (oc_prev cur) = Some ds" "extends cs bs ds"
    using assms(1) unfolding grows_def by (metis (full_types))
  with cs show "cur_ok s' cur" by (auto simp: cur_ok_bodies extends_def split: if_splits)
  have "oc_offset cur \<le> length (ck_view cs)"
    using cs(2) by (cases cs) auto
  then show "unread s' cur = unread s cur @ bs"
    using cs(1) ds by (simp add: unread_bodies extends_def)
qed

lemma buf_inv_grows:
  assumes "buf_inv s curs" "chain_inv s' (map oc_prev curs)" "grows s bs s'"
  shows "buf_inv s' curs"
  using assms grows_cursor(1) by (auto simp: buf_inv_def list_all_iff)

lemma buf_inv_cur_ok: "buf_inv s curs \<Longrightarrow> cur \<in> set curs \<Longrightarrow> cur_ok s cur"
  by (simp add: buf_inv_def list_all_iff)

lemma offsets_sum:
  "offsets_ok (c # cs) \<Longrightarrow>
    ck_offset (last (c # cs)) - ck_offset c + of_nat (ck_used (last (c # cs))) = of_nat (length (ck_view (c # cs)))"
proof (induction cs arbitrary: c)
  case (Cons d cs)
  from Cons.IH [of d] Cons.prems
  have "ck_offset (last (d # cs)) + of_nat (ck_used (last (d # cs))) =
      ck_offset d + of_nat (length (ck_view (d # cs)))"
    by (simp add: algebra_simps)
  with Cons.prems show ?case by (simp add: algebra_simps)
qed simp

lemma limit_irrelevant [simp]:
  "cur_ok s (cur\<lparr>oc_limited := l\<rparr>) = cur_ok s cur" "unread s (cur\<lparr>oc_limited := l\<rparr>) = unread s cur"
  by (simp_all add: cur_ok_def unread_def oc_chunks_def split: option.split list.split)

text \<open>The facts about one cursor that every proof below starts from.\<close>

lemma cursor_facts:
  assumes "buf_inv s (cur # others)"
  obtains cs where "oc_chunks s cur = Some cs" "bodies s (oc_prev cur) = Some (map ck_body cs)"
    "offsets_ok cs" "unread s cur = drop (oc_offset cur) (ck_view cs)"
    "if cs = [] then oc_prev cur = 0 \<and> oc_offset cur = 0 else oc_offset cur \<le> ck_used (hd cs)"
    "gap_free (cs_chunks s) \<Longrightarrow> gap_free cs"
proof -
  have ok: "cur_ok s cur" and inv: "chain_inv s (map oc_prev (cur # others))"
    using assms by (simp_all add: buf_inv_def)
  then obtain cs where cs: "oc_chunks s cur = Some cs"
    by (auto simp: cur_ok_def split: option.splits)
  then have "\<exists>n. cs = drop n (cs_chunks s)"
    by (auto simp: oc_chunks_def cs_after_def intro: exI [of _ 0] split: if_splits)
  then have "offsets_ok cs" "gap_free (cs_chunks s) \<Longrightarrow> gap_free cs"
    using inv by (auto simp: chain_inv_def links_inv_def offsets_ok_drop gap_free_drop)
  moreover have "if cs = [] then oc_prev cur = 0 \<and> oc_offset cur = 0 else oc_offset cur \<le> ck_used (hd cs)"
    using ok cs by (cases cs) (simp_all add: cur_ok_def)
  ultimately show thesis
    using cs oc_chunks_bodies [of s cur] by (intro that [of cs]) (simp_all add: unread_def ck_view_def)
qed

lemma left_size:
  assumes inv: "buf_inv s (cur # others)" and short: "length (unread s cur) < 2 ^ 32"
  shows "oc_left s cur = Some (case oc_limited cur of None \<Rightarrow> length (unread s cur)
           | Some l \<Rightarrow> min l (length (unread s cur)))"
proof (rule cursor_facts [OF inv])
  fix cs
  assume cs: "oc_chunks s cur = Some cs" "offsets_ok cs"
    "unread s cur = drop (oc_offset cur) (ck_view cs)"
    "if cs = [] then oc_prev cur = 0 \<and> oc_offset cur = 0 else oc_offset cur \<le> ck_used (hd cs)"
  show ?thesis
  proof (cases cs)
    case Nil
    then show ?thesis using cs by (simp add: oc_left_def split: option.splits)
  next
    case (Cons c rest)
    have off: "oc_offset cur \<le> length (ck_view cs)" using cs(4) Cons by simp
    have "(ck_offset (last cs) - ck_offset c) - of_nat (oc_offset cur) + of_nat (ck_used (last cs))
        = of_nat (length (ck_view cs)) - (of_nat (oc_offset cur) :: u32)"
      using offsets_sum [of c rest] cs(2) unfolding Cons by (simp add: algebra_simps)
    also have "\<dots> = of_nat (length (unread s cur))"
      using off by (simp add: cs(3) of_nat_diff)
    finally show ?thesis
      using cs(1) Cons short
      by (simp add: oc_left_def unat_of_nat take_bit_nat_eq_self del: last.simps split: option.splits)
  qed
qed

text \<open>
  The cursor \<open>cur\<close> has read \<open>n\<close> bytes and become \<open>cur'\<close>; nothing changed for the other cursors.
\<close>

definition advanced :: "chunkset \<Rightarrow> cursor \<Rightarrow> cursor list \<Rightarrow> nat \<Rightarrow> chunkset \<Rightarrow> cursor \<Rightarrow> bool" where
  "advanced s cur others n s' cur' \<longleftrightarrow>
     buf_inv s' (cur' # others) \<and> gap_free (cs_chunks s') \<and>
     unread s' cur' = drop n (unread s cur) \<and> oc_limited cur' = oc_limited cur \<and>
     (all_used (cs_chunks s) \<longrightarrow> all_used (cs_chunks s')) \<and>
     (\<forall>c \<in> set others. unread s' c = unread s c)"

lemma advanced_trans:
  assumes "advanced s cur others n s1 cur1" "advanced s1 cur1 others m s2 cur2"
  shows "advanced s cur others (n + m) s2 cur2"
  using assms by (simp add: advanced_def add.commute)

lemma advance_here:
  assumes inv: "buf_inv s (cur # others)" and gaps: "gap_free (cs_chunks s)"
    and here: "oc_current_contiguous s cur = Some h" and n: "n \<le> h"
  shows "advanced s cur others n s (cur\<lparr>oc_offset := oc_offset cur + n\<rparr>)"
proof (rule cursor_facts [OF inv])
  fix cs
  assume cs: "oc_chunks s cur = Some cs" "bodies s (oc_prev cur) = Some (map ck_body cs)"
    "unread s cur = drop (oc_offset cur) (ck_view cs)"
    "if cs = [] then oc_prev cur = 0 \<and> oc_offset cur = 0 else oc_offset cur \<le> ck_used (hd cs)"
  have "ck_view (map ck_body cs) = ck_view cs" by (simp add: ck_view_def o_def)
  then show ?thesis
    using inv gaps here n cs
    by (cases cs) (auto simp: advanced_def buf_inv_def cur_ok_bodies unread_bodies
        oc_current_contiguous_def algebra_simps)
qed

lemma advance_chunk:
  assumes inv: "buf_inv s (cur # others)" and gaps: "gap_free (cs_chunks s)"
    and cs: "oc_chunks s cur = Some (c # d # rest)"
  obtains s' cur' where "oc_move_next s cur = Some (s', cur')"
    "advanced s cur others (ck_used c - oc_offset cur) s' cur'"
    "bodies s' (oc_prev cur') = Some (map ck_body (d # rest))" "oc_offset cur' = 0"
proof -
  have chain: "cs_refcount s = int (length (cur # others))"
    "links_inv s (oc_prev cur # map oc_prev others)"
    using inv by (simp_all add: buf_inv_def chain_inv_def)
  have b: "bodies s (oc_prev cur) = Some (ck_body c # map ck_body (d # rest))"
    using oc_chunks_bodies [of s cur] cs by simp
  obtain q s' where move: "cs_unreference s (oc_prev cur) = Some (Some q, s')"
    "links_inv s' (q # map oc_prev others)" "cs_refcount s' = cs_refcount s"
    "bodies s' q = Some (map ck_body (d # rest))"
    "gap_free (cs_chunks s) \<Longrightarrow> gap_free (cs_chunks s')"
    "all_used (cs_chunks s) \<Longrightarrow> all_used (cs_chunks s')"
    "\<And>r. r \<in> set (map oc_prev others) \<Longrightarrow> bodies s' r = bodies s r"
    by (rule unreference_move [OF chain(2) b]) (rule that)
  let ?cur' = "cur\<lparr>oc_prev := q, oc_offset := 0\<rparr>"
  have same: "cur_ok s' o' = cur_ok s o'" "unread s' o' = unread s o'" if "o' \<in> set others" for o'
    by (rule bodies_same, rule move(7), use that in simp)+
  have off: "oc_offset cur \<le> ck_used c"
    using inv cs by (simp add: buf_inv_def cur_ok_def)
  have v: "ck_view (map ck_body rest) = ck_view rest" by (simp add: ck_view_def o_def)
  have inv': "buf_inv s' (?cur' # others)"
    using move chain inv same by (auto simp: buf_inv_def chain_inv_def list_all_iff cur_ok_bodies [of s' ?cur'])
  have "unread s' ?cur' = drop (ck_used c - oc_offset cur) (unread s cur)"
    using move(4) b off v by (simp add: unread_bodies)
  then show thesis
    using that [of s' ?cur'] move inv' same gaps by (simp add: oc_move_next_def advanced_def)
qed

lemma increment_loop:
  assumes "buf_inv s (cur # others)" "gap_free (cs_chunks s)" "n \<le> length (unread s cur)"
    "oc_chunks s cur = Some cs"
  shows "\<exists>s' cur'. oc_increment_loop s cur n = Some (s', cur') \<and> advanced s cur others n s' cur'"
  using assms
proof (induction "length cs" arbitrary: s cur n cs)
  case 0
  then have "n = 0" "oc_current_contiguous s cur = Some 0"
    by (auto simp: unread_def oc_current_contiguous_def)
  with advance_here [OF 0(2,3) this(2)] show ?case
    by (simp add: oc_increment_loop.simps [of s])
next
  case (Suc k)
  obtain c cs' where cs_eq: "cs = c # cs'" using Suc(2) by (cases cs) auto
  let ?h = "ck_used c - oc_offset cur"
  have h: "oc_current_contiguous s cur = Some ?h"
    using Suc.prems(4) cs_eq by (simp add: oc_current_contiguous_def)
  show ?case
  proof (cases "n \<le> ?h")
    case True
    with advance_here [OF Suc.prems(1,2) h] h show ?thesis
      by (auto simp: oc_increment_loop.simps [of s])
  next
    case False
    have off: "oc_offset cur \<le> ck_used c" "unread s cur = drop (oc_offset cur) (ck_data c @ ck_view cs')"
      using Suc.prems(1,4) cs_eq by (auto simp: buf_inv_def cur_ok_def unread_def ck_view_def)
    then obtain d rest where cs: "cs' = d # rest"
      using False Suc.prems(3) by (cases cs') auto
    obtain s1 cur1 where s1: "oc_move_next s cur = Some (s1, cur1)" "advanced s cur others ?h s1 cur1"
      "bodies s1 (oc_prev cur1) = Some (map ck_body (d # rest))" "oc_offset cur1 = 0"
      using advance_chunk [OF Suc.prems(1,2)] Suc.prems(4) cs_eq unfolding cs by blast
    obtain ds where ds: "oc_chunks s1 cur1 = Some ds" "map ck_body ds = map ck_body (d # rest)"
      using s1(3) oc_chunks_bodies [of s1 cur1] by (auto simp del: list.map)
    have rest: "n - ?h \<le> length (unread s1 cur1)"
      using s1(2) Suc.prems(3) by (simp add: advanced_def)
    have inv1: "buf_inv s1 (cur1 # others)" "gap_free (cs_chunks s1)"
      using s1(2) by (simp_all add: advanced_def)
    have here: "oc_current_contiguous s1 cur1 = Some (ck_used d)"
      using ds s1(4) by (cases ds) (auto simp: oc_current_contiguous_def dest: arg_cong [of _ _ ck_data])
    have "gap_free (d # rest)" 
      using cursor_facts [OF Suc.prems(1)] Suc.prems(2,4) cs_eq unfolding cs by (metis gap_free_tl list.sel(3) option.inject)
    then have pos: "ck_used d \<noteq> 0"
      using off Suc.prems(3) False unfolding cs by (cases rest) (auto simp: ck_view_def)
    have step: "oc_increment_loop s cur n = oc_increment_loop s1 cur1 (n - ?h)"
      using h False Suc.prems(4) cs_eq s1(1) here pos cs
      by (simp add: oc_increment_loop.simps [of s] Let_def)
    have IH: "\<exists>s' cur'. oc_increment_loop s1 cur1 (n - ?h) = Some (s', cur') \<and>
        advanced s1 cur1 others (n - ?h) s' cur'"
      using Suc.hyps(1) [OF _ inv1 rest ds(1)] Suc.hyps(2) ds(2) cs_eq cs
      by (metis length_map length_Cons nat.inject)
    then show ?thesis
      using step advanced_trans [OF s1(2)] False by fastforce
  qed
qed

text \<open>A limit leaves room for \<open>n\<close> more bytes. \<open>Increment\<close> never lowers the limit.\<close>

definition within_limit :: "cursor \<Rightarrow> nat \<Rightarrow> bool" where
  "within_limit cur n \<longleftrightarrow> (case oc_limited cur of None \<Rightarrow> True | Some l \<Rightarrow> n \<le> l)"

definition readable :: "chunkset \<Rightarrow> cursor \<Rightarrow> cursor list \<Rightarrow> bool" where
  "readable s cur others \<longleftrightarrow>
     buf_inv s (cur # others) \<and> gap_free (cs_chunks s) \<and> length (unread s cur) < 2 ^ 32"

lemma readable_advanced:
  "readable s cur others \<Longrightarrow> advanced s cur others n s' cur' \<Longrightarrow> readable s' cur' others"
  by (auto simp: readable_def advanced_def)

lemma within_limit_mono: "within_limit cur n \<Longrightarrow> m \<le> n \<Longrightarrow> within_limit cur m"
  by (auto simp: within_limit_def split: option.splits)

lemma within_limit_advanced: "advanced s cur others n s' cur' \<Longrightarrow> within_limit cur' m = within_limit cur m"
  by (simp add: advanced_def within_limit_def)

lemma increment_advances:
  assumes r: "readable s cur others" and n: "n \<le> length (unread s cur)" "within_limit cur n"
  shows "\<exists>s' cur'. oc_increment s cur n = Some (s', cur') \<and> advanced s cur others n s' cur'"
proof -
  have inv: "buf_inv s (cur # others)" "gap_free (cs_chunks s)" "length (unread s cur) < 2 ^ 32"
    using r by (simp_all add: readable_def)
  obtain l where "oc_left s cur = Some l" "n \<le> l"
    using left_size [OF inv(1,3)] n by (auto simp: within_limit_def split: option.splits)
  moreover obtain cs where "oc_chunks s cur = Some cs"
    using cursor_facts [OF inv(1)] by blast
  ultimately show ?thesis
    using increment_loop [OF inv(1,2) n(1)] by (auto simp: oc_increment_def)
qed

lemma contiguous_data:
  assumes "readable s cur others"
  obtains bs rest where "oc_data s cur = Some bs" "oc_contiguous s cur = Some (length bs)"
    "unread s cur = bs @ rest" "rest \<noteq> [] \<longrightarrow> bs \<noteq> []"
proof (rule cursor_facts [of s cur others])
  show "buf_inv s (cur # others)" using assms by (simp add: readable_def)
next
  fix cs
  assume cs: "oc_chunks s cur = Some cs" "unread s cur = drop (oc_offset cur) (ck_view cs)"
    "if cs = [] then oc_prev cur = 0 \<and> oc_offset cur = 0 else oc_offset cur \<le> ck_used (hd cs)"
    "gap_free (cs_chunks s) \<Longrightarrow> gap_free cs"
  then have gaps: "gap_free cs" using assms by (simp add: readable_def)
  show thesis
  proof (cases cs)
    case Nil
    then show thesis using cs that by (simp add: oc_data_def oc_contiguous_def)
  next
    case (Cons c ds)
    show thesis
    proof (cases "oc_offset cur < ck_used c")
      case True
      then show thesis using cs Cons
        by (intro that [of "drop (oc_offset cur) (ck_data c)" "ck_view ds"])
          (simp_all add: oc_data_def oc_contiguous_def)
    next
      case False
      then have off: "oc_offset cur = ck_used c" using cs(3) Cons by simp
      show thesis
      proof (cases ds)
        case Nil
        then show thesis using cs Cons off
          by (intro that [of "[]" "[]"]) (simp_all add: oc_data_def oc_contiguous_def)
      next
        fix d es
        assume ds: "ds = d # es"
        then have "es = [] \<or> ck_data d \<noteq> []" using gaps Cons by (cases es) auto
        then show thesis using cs Cons off ds
          by (intro that [of "ck_data d" "ck_view es"])
            (auto simp: oc_data_def oc_contiguous_def)
      qed
    qed
  qed
qed

lemma consume_loop:
  assumes "readable s cur others" "within_limit cur n"
  shows "\<exists>s' cur'. oc_consume_loop s cur n acc = Some (acc @ take n (unread s cur), s', cur') \<and>
    advanced s cur others n s' cur'"
  using assms
proof (induction n arbitrary: s cur acc rule: less_induct)
  case (less n)
  have inv: "buf_inv s (cur # others)" "gap_free (cs_chunks s)" "length (unread s cur) < 2 ^ 32"
    using less.prems(1) by (simp_all add: readable_def)
  have left: "oc_left s cur = Some (case oc_limited cur of None \<Rightarrow> length (unread s cur)
      | Some l \<Rightarrow> min l (length (unread s cur)))"
    by (rule left_size [OF inv(1,3)])
  show ?case
  proof (cases "n = 0 \<or> unread s cur = []")
    case True
    then have "advanced s cur others n s cur"
      using inv by (auto simp: advanced_def)
    then show ?thesis
      using True left by (auto simp: oc_consume_loop.simps [of s] split: option.splits)
  next
    case False
    obtain bs rest where bs: "oc_data s cur = Some bs" "oc_contiguous s cur = Some (length bs)"
      "unread s cur = bs @ rest" "rest \<noteq> [] \<longrightarrow> bs \<noteq> []"
      using contiguous_data [OF less.prems(1)] by blast
    let ?t = "min n (length bs)"
    have pos: "0 < ?t" using False bs by auto
    obtain s1 cur1 where s1: "oc_increment s cur ?t = Some (s1, cur1)" "advanced s cur others ?t s1 cur1"
      using increment_advances [OF less.prems(1) _ within_limit_mono [OF less.prems(2)], of ?t] bs(3)
      by (auto simp: min_le_iff_disj)
    have "\<exists>l. oc_left s cur = Some l \<and> l \<noteq> 0"
      using left False less.prems(2) by (auto simp: within_limit_def split: option.splits)
    then have step: "oc_consume_loop s cur n acc = oc_consume_loop s1 cur1 (n - ?t) (acc @ take ?t bs)"
      using False bs(1,2) s1(1) by (auto simp: oc_consume_loop.simps [of s] Let_def)
    have "within_limit cur1 (n - ?t)"
      using within_limit_mono [OF less.prems(2)] within_limit_advanced [OF s1(2)] by simp
    then obtain s2 cur2 where s2:
        "oc_consume_loop s1 cur1 (n - ?t) (acc @ take ?t bs) =
          Some ((acc @ take ?t bs) @ take (n - ?t) (unread s1 cur1), s2, cur2)"
        "advanced s1 cur1 others (n - ?t) s2 cur2"
      using less.IH [of "n - ?t" s1 cur1 "acc @ take ?t bs"] readable_advanced [OF less.prems(1) s1(2)] pos False by auto
    have "take ?t bs @ take (n - ?t) (unread s1 cur1) = take n (unread s cur)"
      using s1(2) bs(3) by (simp add: advanced_def min_def)
    with s2 step advanced_trans [OF s1(2) s2(2)] show ?thesis by auto
  qed
qed

section \<open>The operations on a whole buffer\<close>

lemma reserve_grows:
  assumes "buf_inv s curs"
  shows "buf_inv (ic_reserve s n) curs" "grows s [] (ic_reserve s n)"
    and "gap_free (cs_chunks s) \<Longrightarrow>
      n \<le> kRoundedSize \<or> cs_chunks s = [] \<or> ck_data (last (cs_chunks s)) \<noteq> [] \<Longrightarrow>
      gap_free (cs_chunks (ic_reserve s n))"
proof -
  have inv: "chain_inv s (map oc_prev curs)" using assms by (simp add: buf_inv_def)
  note append = append_chunk [OF inv RoundSize_ge(1) [of n]]
  show grow: "grows s [] (ic_reserve s n)"
    using grows_append [OF inv RoundSize_ge(1)] by (simp add: ic_reserve_def grows_refl)
  show "buf_inv (ic_reserve s n) curs"
    by (rule buf_inv_grows [OF assms _ grow]) (use inv append in \<open>simp add: ic_reserve_def\<close>)
  have "ck_data (last (cs_chunks s)) \<noteq> []" if "n \<le> kRoundedSize" "cs_chunks s \<noteq> []" "ic_contiguous s < n"
    using inv that by (auto simp: chain_inv_def links_inv_def ic_contiguous_def ck_available_def
        ck_ok_def list_all_iff dest!: last_in_set)
  then show "gap_free (cs_chunks s) \<Longrightarrow>
      n \<le> kRoundedSize \<or> cs_chunks s = [] \<or> ck_data (last (cs_chunks s)) \<noteq> [] \<Longrightarrow>
      gap_free (cs_chunks (ic_reserve s n))"
    using append(2) by (auto simp: ic_reserve_def)
qed

lemma add_grows:
  assumes inv: "buf_inv s curs"
  shows "\<exists>s'. ic_add s bs = Some s' \<and> buf_inv s' curs \<and> grows s bs s' \<and>
    (gap_free (cs_chunks s) \<and>
      (length bs \<le> kRoundedSize \<or> cs_chunks s = [] \<or> ck_data (last (cs_chunks s)) \<noteq> []) \<longrightarrow>
     gap_free (cs_chunks s')) \<and>
    (cs_chunks s = [] \<or> ck_data (last (cs_chunks s)) \<noteq> [] \<longrightarrow>
     cs_chunks s' = [] \<or> ck_data (last (cs_chunks s')) \<noteq> [])"
proof (cases "cs_chunks s = [] \<and> bs = []")
  case True
  then have "ic_add s bs = Some s"
    by (simp add: ic_add_def ic_reserve_def ic_add_loop.simps ic_commit_def)
  with inv True show ?thesis by (auto simp: grows_refl)
next
  case False
  note reserve = reserve_grows [OF inv, of "length bs"]
  have "cs_chunks (ic_reserve s (length bs)) \<noteq> []"
    using False by (auto simp: ic_reserve_def cs_append_def Let_def ic_contiguous_def)
  then obtain s' where s': "ic_add s bs = Some s'" "chain_inv s' (map oc_prev curs)"
    "grows (ic_reserve s (length bs)) bs s'"
    "gap_free (cs_chunks (ic_reserve s (length bs))) \<longrightarrow> gap_free (cs_chunks s')"
    "bs \<noteq> [] \<or> ck_data (last (cs_chunks (ic_reserve s (length bs)))) \<noteq> [] \<longrightarrow> ck_data (last (cs_chunks s')) \<noteq> []"
    using add_loop [of "ic_reserve s (length bs)" "map oc_prev curs" bs] reserve(1)
    by (auto simp: buf_inv_def ic_add_def)
  have grow: "grows s bs s'" using grows_trans [OF reserve(2) s'(3)] by simp
  have "bs = [] \<Longrightarrow> ic_reserve s (length bs) = s" by (simp add: ic_reserve_def)
  with s' reserve(3) buf_inv_grows [OF inv s'(2) grow] grow False show ?thesis by auto
qed

lemma copy_cursor:
  assumes inv: "buf_inv s curs" and cur: "cur \<in> set curs"
  obtains s' where "oc_copy s cur = Some (s', cur)" "buf_inv s' (cur # curs)"
    "\<And>c. unread s' c = unread s c" "gap_free (cs_chunks s') = gap_free (cs_chunks s)"
    "all_used (cs_chunks s') = all_used (cs_chunks s)"
proof -
  have chain: "chain_inv s (map oc_prev curs)" and p: "oc_prev cur \<in> set (map oc_prev curs)"
    using inv cur by (simp_all add: buf_inv_def)
  from reference_from [OF chain disjI2 [OF p]]
  obtain s' where s': "cs_reference_from s (oc_prev cur) = Some s'"
    "chain_inv s' (oc_prev cur # map oc_prev curs)"
    "gap_free (cs_chunks s') = gap_free (cs_chunks s)" "all_used (cs_chunks s') = all_used (cs_chunks s)"
    "\<And>r. bodies s' r = bodies s r"
    by metis
  have "cur_ok s' c = cur_ok s c" "unread s' c = unread s c" for c
    using bodies_same [of s' c s] s'(5) by blast+
  with s' inv cur show thesis
    by (intro that [of s']) (auto simp: oc_copy_def buf_inv_def list_all_iff)
qed

lemma destroy_cursor:
  assumes inv: "buf_inv s (cur # others)"
  obtains s' where "oc_destroy s cur = Some s'" "buf_inv s' others"
    "\<And>c. c \<in> set others \<Longrightarrow> unread s' c = unread s c"
    "gap_free (cs_chunks s) \<Longrightarrow> gap_free (cs_chunks s')" "all_used (cs_chunks s) \<Longrightarrow> all_used (cs_chunks s')"
proof -
  let ?s = "s\<lparr>cs_refcount := cs_refcount s - 1\<rparr>"
  have live: "live (s\<lparr>cs_refcount := n\<rparr>) = live s" for n by (rule ext) (simp add: live_def)
  have eq: "bodies ?s p = bodies s p" for p by (simp add: bodies_map)
  have links: "links_inv ?s (oc_prev cur # map oc_prev others)" and
    count: "cs_refcount ?s = int (length others)"
    using inv by (simp_all add: buf_inv_def chain_inv_def links_inv_def live)
  obtain cs where "bodies ?s (oc_prev cur) = Some cs"
    using cursor_facts [OF inv] unfolding eq by metis
  from unreference_chain [OF links this] obtain s' where
    s': "cs_unreference_chain ?s (Some (oc_prev cur)) = Some s'" "links_inv s' (map oc_prev others)"
      "cs_refcount s' = int (length others)" "gap_free (cs_chunks s) \<longrightarrow> gap_free (cs_chunks s')"
      "all_used (cs_chunks s) \<longrightarrow> all_used (cs_chunks s')"
      "\<forall>r \<in> set (map oc_prev others). bodies s' r = bodies s r"
    using count by (auto simp: eq)
  have "cur_ok s' c = cur_ok s c" "unread s' c = unread s c" if "c \<in> set others" for c
    by (rule bodies_same, use s'(6) that in simp)+
  with s' inv show thesis
    by (intro that [of s']) (auto simp: oc_destroy_def cs_unreference_from_def buf_inv_def
        chain_inv_def list_all_iff)
qed

lemma buf_inv_perm:
  assumes "mset curs = mset curs'" "buf_inv s curs"
  shows "buf_inv s curs'"
proof -
  have "mset (map oc_prev curs) = mset (map oc_prev curs')" using assms(1) by simp
  then show ?thesis
    using assms(2) chain_inv_perm mset_eq_setD [OF assms(1)] unfolding buf_inv_def list_all_iff
    by metis
qed

section \<open>Sequences of operations\<close>

text \<open>
  A buffer under use: its chunk set and the output cursors that exist. A \<open>Reserve\<close> is the call a
  caller makes before it writes through \<open>Data()\<close>.
\<close>

datatype fifo_op =
    Op_Reserve nat
  | Op_Add bytes
  | Op_Consume nat nat   \<comment> \<open>which cursor, how many bytes\<close>
  | Op_Copy nat
  | Op_Destroy nat

definition remove_nth :: "nat \<Rightarrow> 'a list \<Rightarrow> 'a list" where
  "remove_nth i xs = take i xs @ drop (Suc i) xs"

fun fifo_step :: "fifo_op \<Rightarrow> chunkset \<times> cursor list \<Rightarrow> (bytes \<times> chunkset \<times> cursor list) option" where
  "fifo_step (Op_Reserve n) (s, curs) = Some ([], ic_reserve s n, curs)"
| "fifo_step (Op_Add bs) (s, curs) = do { s \<leftarrow> ic_add s bs; Some ([], s, curs) }"
| "fifo_step (Op_Consume i n) (s, curs) = do {
     (bs, s, cur) \<leftarrow> oc_consume s (curs ! i) n; Some (bs, s, curs[i := cur]) }"
| "fifo_step (Op_Copy i) (s, curs) = do {
     (s, cur) \<leftarrow> oc_copy s (curs ! i); Some ([], s, curs @ [cur]) }"
| "fifo_step (Op_Destroy i) (s, curs) = do {
     s \<leftarrow> oc_destroy s (curs ! i); Some ([], s, remove_nth i curs) }"

fun fifo_run :: "fifo_op list \<Rightarrow> chunkset \<times> cursor list \<Rightarrow> (bytes list \<times> chunkset \<times> cursor list) option" where
  "fifo_run [] st = Some ([], st)"
| "fifo_run (a # as) st = do {
     (bs, st) \<leftarrow> fifo_step a st;
     (out, st) \<leftarrow> fifo_run as st;
     Some (bs # out, st) }"

text \<open>The specification: one queue of bytes per cursor.\<close>

fun queue_step :: "fifo_op \<Rightarrow> bytes list \<Rightarrow> bytes \<times> bytes list" where
  "queue_step (Op_Reserve n) qs = ([], qs)"
| "queue_step (Op_Add bs) qs = ([], map (\<lambda>q. q @ bs) qs)"
| "queue_step (Op_Consume i n) qs = (take n (qs ! i), qs[i := drop n (qs ! i)])"
| "queue_step (Op_Copy i) qs = ([], qs @ [qs ! i])"
| "queue_step (Op_Destroy i) qs = ([], remove_nth i qs)"

fun queue_run :: "fifo_op list \<Rightarrow> bytes list \<Rightarrow> bytes list \<times> bytes list" where
  "queue_run [] qs = ([], qs)"
| "queue_run (a # as) qs =
     (let (bs, qs) = queue_step a qs; (out, qs) = queue_run as qs in (bs # out, qs))"

text \<open>
  The operations a caller may do with \<open>k\<close> cursors alive: on a cursor that exists, reserving or adding
  at most the size of a chunk at a time.
\<close>

fun fifo_valid :: "nat \<Rightarrow> fifo_op list \<Rightarrow> bool" where
  "fifo_valid k [] \<longleftrightarrow> True"
| "fifo_valid k (Op_Reserve n # as) \<longleftrightarrow> n \<le> kRoundedSize \<and> fifo_valid k as"
| "fifo_valid k (Op_Add bs # as) \<longleftrightarrow> length bs \<le> kRoundedSize \<and> fifo_valid k as"
| "fifo_valid k (Op_Consume i n # as) \<longleftrightarrow> i < k \<and> fifo_valid k as"
| "fifo_valid k (Op_Copy i # as) \<longleftrightarrow> i < k \<and> fifo_valid (Suc k) as"
| "fifo_valid k (Op_Destroy i # as) \<longleftrightarrow> i < k \<and> fifo_valid (k - 1) as"

fun fifo_added :: "fifo_op list \<Rightarrow> nat" where
  "fifo_added [] = 0"
| "fifo_added (Op_Add bs # as) = length bs + fifo_added as"
| "fifo_added (_ # as) = fifo_added as"

definition fifo_inv :: "nat \<Rightarrow> chunkset \<times> cursor list \<Rightarrow> bool" where
  "fifo_inv m st \<longleftrightarrow> (case st of (s, curs) \<Rightarrow>
     buf_inv s curs \<and> gap_free (cs_chunks s) \<and>
     list_all (\<lambda>c. oc_limited c = None \<and> length (unread s c) \<le> m) curs)"

lemma mset_remove_nth: "i < length xs \<Longrightarrow> mset (xs ! i # remove_nth i xs) = mset xs"
  unfolding remove_nth_def by (metis add_mset_add_single id_take_nth_drop mset.simps(2) mset_append union_mset_add_mset_right)

lemma mset_update_nth: "i < length xs \<Longrightarrow> mset (x # remove_nth i xs) = mset (xs[i := x])"
  by (simp add: remove_nth_def upd_conv_take_nth_drop)

lemma set_remove_nth: "set (remove_nth i xs) \<subseteq> set xs"
  using set_take_subset [of i xs] set_drop_subset [of "Suc i" xs] by (auto simp: remove_nth_def)

lemma map_remove_nth: "map f (remove_nth i xs) = remove_nth i (map f xs)"
  by (simp add: remove_nth_def take_map drop_map)

lemma length_remove_nth: "i < length xs \<Longrightarrow> length (remove_nth i xs) = length xs - 1"
  by (simp add: remove_nth_def)

text \<open>Bringing the cursor an operation works on to the front of the list, and back.\<close>

lemma buf_inv_front:
  "i < length curs \<Longrightarrow> buf_inv s curs \<Longrightarrow> buf_inv s (curs ! i # remove_nth i curs)"
  by (rule buf_inv_perm [OF mset_remove_nth [symmetric]])

lemma buf_inv_back:
  "i < length curs \<Longrightarrow> buf_inv s (c # remove_nth i curs) \<Longrightarrow> buf_inv s (curs[i := c])"
  by (rule buf_inv_perm [OF mset_update_nth])

lemma nth_update_unread:
  assumes i: "i < length curs" and u: "\<And>c. c \<in> set (remove_nth i curs) \<Longrightarrow> unread s' c = unread s c"
  shows "map (unread s') (curs[i := cur]) = (map (unread s) curs)[i := unread s' cur]"
proof -
  have "curs[i := cur] = take i curs @ cur # drop (Suc i) curs"
    "(map (unread s) curs)[i := unread s' cur] =
      take i (map (unread s) curs) @ unread s' cur # drop (Suc i) (map (unread s) curs)"
    using i by (simp_all add: upd_conv_take_nth_drop)
  moreover have "map (unread s') (take i curs) = map (unread s) (take i curs)"
    "map (unread s') (drop (Suc i) curs) = map (unread s) (drop (Suc i) curs)"
    using u by (auto simp: remove_nth_def)
  ultimately show ?thesis by (simp add: take_map drop_map)
qed

abbreviation fifo_refines ::
    "nat \<Rightarrow> fifo_op \<Rightarrow> chunkset \<Rightarrow> cursor list \<Rightarrow> bool" where
  "fifo_refines m a s curs \<equiv> \<exists>s' curs'.
     fifo_step a (s, curs) = Some (fst (queue_step a (map (unread s) curs)), s', curs') \<and>
     map (unread s') curs' = snd (queue_step a (map (unread s) curs)) \<and>
     fifo_inv (m + fifo_added [a]) (s', curs')"

lemma fifo_reserve:
  assumes "fifo_inv m (s, curs)" "n \<le> kRoundedSize"
  shows "fifo_refines m (Op_Reserve n) s curs"
proof -
  have inv: "buf_inv s curs" "gap_free (cs_chunks s)" using assms(1) by (simp_all add: fifo_inv_def)
  have "unread (ic_reserve s n) c = unread s c" if "c \<in> set curs" for c
    using grows_cursor(2) [OF reserve_grows(2) [OF inv(1)] buf_inv_cur_ok [OF inv(1) that]] by simp
  with reserve_grows [OF inv(1)] inv assms show ?thesis
    by (auto simp: fifo_inv_def list_all_iff)
qed

lemma fifo_add:
  assumes "fifo_inv m (s, curs)" "length bs \<le> kRoundedSize"
  shows "fifo_refines m (Op_Add bs) s curs"
proof -
  have inv: "buf_inv s curs" "gap_free (cs_chunks s)" using assms(1) by (simp_all add: fifo_inv_def)
  obtain s' where s': "ic_add s bs = Some s'" "buf_inv s' curs" "grows s bs s'" "gap_free (cs_chunks s')"
    using add_grows [OF inv(1)] assms(2) inv(2) by blast
  have "unread s' c = unread s c @ bs" if "c \<in> set curs" for c
    using grows_cursor(2) [OF s'(3) buf_inv_cur_ok [OF inv(1) that]] .
  with s' assms show ?thesis by (auto simp: fifo_inv_def list_all_iff)
qed

lemma fifo_consume:
  assumes "fifo_inv m (s, curs)" "i < length curs" "m < 2 ^ 32"
  shows "fifo_refines m (Op_Consume i n) s curs"
proof -
  let ?rest = "remove_nth i curs"
  have cur: "oc_limited (curs ! i) = None" "length (unread s (curs ! i)) \<le> m"
    using assms(1,2) by (auto simp: fifo_inv_def list_all_length)
  have r: "readable s (curs ! i) ?rest"
    using assms cur buf_inv_front by (simp add: readable_def fifo_inv_def)
  obtain s' cur' where s': "oc_consume s (curs ! i) n = Some (take n (unread s (curs ! i)), s', cur')"
    "advanced s (curs ! i) ?rest n s' cur'"
    using consume_loop [OF r, of n "[]"] cur by (auto simp: within_limit_def oc_consume_def)
  have inv': "buf_inv s' (curs[i := cur'])" "gap_free (cs_chunks s')"
    using s'(2) buf_inv_back [OF assms(2)] by (simp_all add: advanced_def)
  have m: "map (unread s') (curs[i := cur']) =
      (map (unread s) curs)[i := drop n (unread s (curs ! i))]"
    using nth_update_unread [OF assms(2)] s'(2) by (simp add: advanced_def)
  have "list_all (\<lambda>q. length q \<le> m) (map (unread s') (curs[i := cur']))"
    unfolding m using assms(1) cur by (auto simp: fifo_inv_def list_all_iff dest!: set_update_subset_insert [THEN subsetD])
  moreover have "list_all (\<lambda>c. oc_limited c = None) (curs[i := cur'])"
    using assms(1) cur s'(2) by (auto simp: fifo_inv_def list_all_iff advanced_def dest!: set_update_subset_insert [THEN subsetD])
  ultimately have "fifo_inv m (s', curs[i := cur'])"
    using inv' by (auto simp: fifo_inv_def list_all_iff)
  with s'(1) m assms(2) show ?thesis by simp
qed

lemma fifo_copy:
  assumes "fifo_inv m (s, curs)" "i < length curs"
  shows "fifo_refines m (Op_Copy i) s curs"
proof -
  have inv: "buf_inv s curs" "curs ! i \<in> set curs" using assms by (simp_all add: fifo_inv_def)
  obtain s' where s': "oc_copy s (curs ! i) = Some (s', curs ! i)" "buf_inv s' (curs ! i # curs)"
    "\<And>c. unread s' c = unread s c" "gap_free (cs_chunks s') = gap_free (cs_chunks s)"
    by (rule copy_cursor [OF inv]) (rule that)
  have "buf_inv s' (curs @ [curs ! i])"
    by (rule buf_inv_perm [OF _ s'(2)]) simp
  with s' assms show ?thesis by (auto simp: fifo_inv_def list_all_iff)
qed

lemma fifo_destroy:
  assumes "fifo_inv m (s, curs)" "i < length curs"
  shows "fifo_refines m (Op_Destroy i) s curs"
proof -
  have inv: "buf_inv s (curs ! i # remove_nth i curs)"
    using assms buf_inv_front by (simp add: fifo_inv_def)
  obtain s' where s': "oc_destroy s (curs ! i) = Some s'" "buf_inv s' (remove_nth i curs)"
    "\<And>c. c \<in> set (remove_nth i curs) \<Longrightarrow> unread s' c = unread s c"
    "gap_free (cs_chunks s) \<Longrightarrow> gap_free (cs_chunks s')"
    by (rule destroy_cursor [OF inv]) (rule that)
  have "map (unread s') (remove_nth i curs) = remove_nth i (map (unread s) curs)"
    using s'(3) by (simp flip: map_remove_nth)
  moreover have "fifo_inv m (s', remove_nth i curs)"
    using s' assms(1) set_remove_nth [of i curs] by (auto simp: fifo_inv_def list_all_iff)
  ultimately show ?thesis using s'(1) by simp
qed

lemma fifo_step_refines:
  assumes "fifo_inv m (s, curs)" "fifo_valid (length curs) [a]" "m + fifo_added [a] < 2 ^ 32"
  shows "fifo_refines m a s curs"
proof (cases a)
  case (Op_Reserve n) then show ?thesis using fifo_reserve assms by (simp del: fifo_step.simps queue_step.simps)
next
  case (Op_Add n) then show ?thesis using fifo_add assms by (simp del: fifo_step.simps queue_step.simps)
next
  case (Op_Consume i n) then show ?thesis using fifo_consume assms by (simp del: fifo_step.simps queue_step.simps)
next
  case (Op_Copy i) then show ?thesis using fifo_copy assms by (simp del: fifo_step.simps queue_step.simps)
next
  case (Op_Destroy i) then show ?thesis using fifo_destroy assms by (simp del: fifo_step.simps queue_step.simps)
qed

lemma fifo_run_refines:
  assumes "fifo_inv m (s, curs)" "fifo_valid (length curs) as" "m + fifo_added as < 2 ^ 32"
  shows "\<exists>s' curs'. fifo_run as (s, curs) = Some (fst (queue_run as (map (unread s) curs)), s', curs') \<and>
     map (unread s') curs' = snd (queue_run as (map (unread s) curs)) \<and>
     fifo_inv (m + fifo_added as) (s', curs')"
  using assms
proof (induction as arbitrary: m s curs)
  case (Cons a as)
  have valid: "fifo_valid (length curs) [a]" "fifo_added (a # as) = fifo_added [a] + fifo_added as"
    using Cons.prems(2) by (cases a; simp)+
  obtain s1 curs1 where s1:
    "fifo_step a (s, curs) = Some (fst (queue_step a (map (unread s) curs)), s1, curs1)"
    "map (unread s1) curs1 = snd (queue_step a (map (unread s) curs))"
    "fifo_inv (m + fifo_added [a]) (s1, curs1)"
    using fifo_step_refines [OF Cons.prems(1) valid(1)] Cons.prems(3) valid(2) by auto
  have "length curs1 = length (snd (queue_step a (map (unread s) curs)))"
    using s1(2) by (metis length_map)
  then have "fifo_valid (length curs1) as"
    using Cons.prems(2) by (cases a) (simp_all add: length_remove_nth)
  from Cons.IH [OF s1(3) this] Cons.prems(3) valid(2) s1(1,2) show ?case
    by (auto simp: Let_def add.assoc split: prod.splits)
qed simp

lemma fifo_inv_new:
  "fifo_inv 0 (cs_new\<lparr>cs_refcount := 1, cs_placemark_ref := 2\<rparr>, [\<lparr>oc_prev = 0, oc_offset = 0, oc_limited = None\<rparr>])"
  by (simp add: fifo_inv_def buf_inv_def chain_inv_def links_inv_def live_def cs_new_def
      cur_ok_bodies bodies_map unread_bodies)

lemma Buffer_new_run:
  "Buffer_new = Some \<lparr>bf_chunks = cs_new\<lparr>cs_refcount := 1, cs_placemark_ref := 2\<rparr>,
     bf_output = \<lparr>oc_prev = 0, oc_offset = 0, oc_limited = None\<rparr>\<rparr>"
  by (simp add: Buffer_new_def oc_new_def cs_reference_from_def cs_new_def)

lemma unread_new: "unread (cs_new\<lparr>cs_refcount := 1, cs_placemark_ref := 2\<rparr>) \<lparr>oc_prev = 0, oc_offset = 0, oc_limited = None\<rparr> = []"
  by (simp add: unread_bodies bodies_map cs_new_def)

section \<open>Reading without consuming\<close>

lemma get_loop_zero [simp]: "oc_get_loop cs k 0 = []"
  by (cases cs) simp_all

lemma get_loop_take:
  "cs \<noteq> [] \<longrightarrow> k \<le> ck_used (hd cs) \<Longrightarrow>
    oc_get_loop cs k n = take n (drop k (ck_view cs))"
proof (induction cs k n rule: oc_get_loop.induct)
  case (2 c cs k n)
  then have "oc_get_loop cs 0 (n - min n (ck_used c - k)) = take (n - min n (ck_used c - k)) (ck_view cs)"
    by (cases "n = 0") simp_all
  with 2 show ?case by (auto simp: min_def Let_def)
qed simp

lemma get_peeks: "buf_inv s (cur # others) \<Longrightarrow> oc_get s cur n = Some (take n (unread s cur))"
  by (erule cursor_facts) (auto simp: oc_get_def get_loop_take split: list.split if_splits)

lemma iovec_prefix:
  assumes "readable s cur others" "oc_limited cur = None"
  obtains vect rest where "oc_iovec s cur = Some (vect, length (concat vect))"
    "length vect \<le> kIovecSize" "unread s cur = concat vect @ rest"
    "unread s cur \<noteq> [] \<longrightarrow> concat vect \<noteq> []" "length (cs_chunks s) \<le> kIovecSize \<longrightarrow> rest = []"
proof (rule cursor_facts [of s cur others])
  show "buf_inv s (cur # others)" using assms by (simp add: readable_def)
next
  fix cs
  assume cs: "oc_chunks s cur = Some cs" "unread s cur = drop (oc_offset cur) (ck_view cs)"
    "if cs = [] then oc_prev cur = 0 \<and> oc_offset cur = 0 else oc_offset cur \<le> ck_used (hd cs)"
    "gap_free (cs_chunks s) \<Longrightarrow> gap_free cs"
  then have gaps: "gap_free cs" using assms by (simp add: readable_def)
  have left: "oc_left s cur = Some (length (unread s cur))"
    using left_size [of s cur others] assms by (simp add: readable_def)
  show thesis
  proof (cases "unread s cur = []")
    case True
    then show thesis using left that [of "[]" "[]"] by (simp add: oc_iovec_def)
  next
    case False
    then obtain c ds where Cons: "cs = c # ds" using cs by (cases cs) auto
    let ?first = "if ck_used c - oc_offset cur \<noteq> 0 then [drop (oc_offset cur) (ck_data c)] else []"
    let ?vect = "?first @ map ck_data (take (kIovecSize - length ?first) ds)"
    let ?ys = "ck_view (drop (kIovecSize - length ?first) ds)"
    have ys: "ck_view ds = concat (map ck_data (take (kIovecSize - length ?first) ds)) @ ?ys"
      by (simp add: ck_view_def flip: concat_append map_append)
    have "length cs \<le> length (cs_chunks s)" using cs(1) by (auto simp: oc_chunks_def cs_after_def split: if_splits)
    then have all: "length (cs_chunks s) \<le> kIovecSize \<longrightarrow> ?ys = []" using Cons by (simp add: kIovecSize_def ck_view_def)
    have u: "unread s cur = concat ?first @ ck_view ds" using cs Cons by simp
    have "concat ?vect \<noteq> []"
    proof (cases "ck_used c - oc_offset cur = 0")
      case True
      then obtain d es where "ds = d # es" using u False by (cases ds) auto
      moreover from this have "ck_data d \<noteq> []" using gaps Cons u True False by (cases es) auto
      ultimately show ?thesis by (simp add: kIovecSize_def eval_nat_numeral)
    qed simp
    then show thesis
      using u ys left False cs(1) Cons all
      by (intro that [of ?vect ?ys])
        (auto simp: oc_iovec_def oc_current_contiguous_def Let_def kIovecSize_def length_concat)
  qed
qed

section \<open>Properties\<close>

text \<open>C5. Whatever a caller does with a fresh buffer and any number of output cursors, as long as
  it names cursors that exist, adds or reserves at most a chunk's size at a time and fewer than
  \<open>2 ^ 32\<close> bytes in all, no operation aborts, loops or touches freed memory, every \<open>Consume\<close> returns
  the bytes a queue per cursor would return, and what each cursor has left to read is its queue.\<close>

theorem buffer_refines_queues:
  assumes "fifo_valid 1 as" "fifo_added as < 2 ^ 32"
  shows "\<exists>b st. Buffer_new = Some b \<and>
    fifo_run as (bf_chunks b, [bf_output b]) = Some (fst (queue_run as [[]]), st) \<and>
    map (unread (fst st)) (snd st) = snd (queue_run as [[]])"
  using fifo_run_refines [OF fifo_inv_new, of as] assms
  by (auto simp: Buffer_new_run unread_new)

lemma buffer_refines_queues_witness:
  "\<exists>b st. Buffer_new = Some b \<and>
    fifo_run [Op_Add [1, 2, 3], Op_Copy 0, Op_Consume 0 2, Op_Reserve 1500, Op_Destroy 1, Op_Consume 0 5]
      (bf_chunks b, [bf_output b]) = Some ([[], [], [1, 2], [], [], [3]], st) \<and>
    map (unread (fst st)) (snd st) = [[]]"
proof -
  let ?ops = "[Op_Add [1, 2, 3], Op_Copy 0, Op_Consume 0 2, Op_Reserve 1500, Op_Destroy 1, Op_Consume 0 5]"
  have "fifo_valid 1 ?ops" "fifo_added ?ops < 2 ^ 32"
    by (simp_all add: kRoundedSize_def)
  moreover have "queue_run ?ops [[]] = ([[], [], [1, 2], [], [], [3]], [[]])"
    by (simp add: remove_nth_def)
  ultimately show ?thesis using buffer_refines_queues [of ?ops] by (simp only: fst_conv snd_conv)
qed

text \<open>\<open>InputCursor::Add\<close> returns whatever the size of the data, and every output cursor then has
  exactly these bytes more to read, after what it had.\<close>

theorem Add_appends_for_every_cursor:
  assumes "buf_inv s curs"
  shows "\<exists>s'. ic_add s bs = Some s' \<and> buf_inv s' curs \<and>
    (\<forall>c \<in> set curs. unread s' c = unread s c @ bs)"
  using add_grows [OF assms, of bs] grows_cursor(2) buf_inv_cur_ok [OF assms] by blast

definition sample_set :: chunkset where
  "sample_set = \<lparr>cs_refcount = 1, cs_placemark_ref = 1, cs_freed = 3, cs_chunks =
     [\<lparr>ck_data = [7, 8], ck_size = 16384, ck_offset = 0xfffffffe, ck_ref = 1\<rparr>,
      \<lparr>ck_data = [9, 10, 11], ck_size = 16384, ck_offset = 0, ck_ref = 1\<rparr>]\<rparr>"

definition sample_cursor :: cursor where
  "sample_cursor = \<lparr>oc_prev = 4, oc_offset = 1, oc_limited = None\<rparr>"

lemma sample_readable:
  "readable sample_set sample_cursor []" "unread sample_set sample_cursor = [10, 11]"
  "oc_limited sample_cursor = None"
  by (simp_all add: readable_def sample_set_def sample_cursor_def buf_inv_def chain_inv_def links_inv_def
      live_def cur_ok_bodies bodies_map unread_bodies less_Suc_eq ck_ok_def kRoundedSize_def ck_body_def)

lemma Add_appends_for_every_cursor_witness:
  "\<exists>s'. ic_add sample_set [1, 2] = Some s' \<and> unread s' sample_cursor = [10, 11, 1, 2]"
  using Add_appends_for_every_cursor [of sample_set "[sample_cursor]" "[1, 2]"] sample_readable
  by (auto simp: readable_def)

text \<open>C26. \<open>Consume\<close> returns the bytes asked for, or all there are, removes them for its own cursor and
  leaves every other cursor its data; it neither aborts nor loops, provided that no chunk in the
  middle of the chain is empty and that the request stays within the limit of a limited cursor
  (\<open>ContiguousSize\<close> does not know about the limit).\<close>

theorem Consume_takes_from_one_cursor:
  assumes "readable s cur others" "within_limit cur n"
  shows "\<exists>s' cur'. oc_consume s cur n = Some (take n (unread s cur), s', cur') \<and>
    buf_inv s' (cur' # others) \<and> unread s' cur' = drop n (unread s cur) \<and>
    (\<forall>c \<in> set others. unread s' c = unread s c)"
  using consume_loop [OF assms, of "[]"] by (auto simp: oc_consume_def advanced_def)

lemma Consume_takes_from_one_cursor_witness:
  "\<exists>s' cur'. oc_consume sample_set sample_cursor 1 = Some ([10], s', cur') \<and> unread s' cur' = [11]"
  using Consume_takes_from_one_cursor [OF sample_readable(1), of 1] sample_readable(2,3)
  by (auto simp: within_limit_def)

text \<open>\<open>GetIovec\<close> describes at most 16 stretches of memory, which hold the next bytes to read, in
  order, and at least one byte when there is one; its result is their total size.\<close>

theorem GetIovec_lists_next_bytes:
  assumes "readable s cur others" "oc_limited cur = None"
  shows "\<exists>vect rest. oc_iovec s cur = Some (vect, length (concat vect)) \<and>
    length vect \<le> kIovecSize \<and> unread s cur = concat vect @ rest \<and>
    (unread s cur \<noteq> [] \<longrightarrow> concat vect \<noteq> [])"
  using iovec_prefix [OF assms] by metis

lemma GetIovec_lists_next_bytes_witness:
  "\<exists>vect rest. oc_iovec sample_set sample_cursor = Some (vect, length (concat vect)) \<and>
    [10, 11] = concat vect @ rest \<and> vect \<noteq> []"
proof -
  obtain vect rest where "oc_iovec sample_set sample_cursor = Some (vect, length (concat vect))"
    "[10, 11] = concat vect @ rest" "concat vect \<noteq> []"
    using GetIovec_lists_next_bytes [OF sample_readable(1,3)] unfolding sample_readable(2) by blast
  then show ?thesis by (intro exI [of _ vect] exI [of _ rest]) auto
qed

definition gap_set :: chunkset where
  "gap_set = \<lparr>cs_refcount = 1, cs_placemark_ref = 2, cs_freed = 0, cs_chunks =
     [\<lparr>ck_data = [1], ck_size = 16384, ck_offset = 0, ck_ref = 1\<rparr>,
      \<lparr>ck_data = [], ck_size = 16384, ck_offset = 1, ck_ref = 1\<rparr>,
      \<lparr>ck_data = [2], ck_size = 20000, ck_offset = 1, ck_ref = 1\<rparr>]\<rparr>"

definition gap_cursor :: "nat \<Rightarrow> cursor" where
  "gap_cursor n = \<lparr>oc_prev = 0, oc_offset = n, oc_limited = None\<rparr>"

lemma gap_run:
  "fifo_run [Op_Add [1], Op_Reserve 16384, Op_Reserve 20000, Op_Add [2]]
     (bf_chunks (the Buffer_new), [bf_output (the Buffer_new)]) = Some ([[], [], [], []], gap_set, [gap_cursor 0])"
  by (simp add: Buffer_new_run cs_new_def ic_add_def ic_reserve_def ic_contiguous_def cs_append_def
      RoundSize_def kRoundedSize_def ic_add_loop.simps ic_commit_def ck_available_def ck_write_def
      gap_set_def gap_cursor_def Let_def)

lemma gap_reads:
  "oc_left gap_set (gap_cursor 1) = Some 1" "oc_contiguous gap_set (gap_cursor 1) = Some 0"
  "oc_data gap_set (gap_cursor 1) = Some []"
  "oc_increment gap_set (gap_cursor 1) 0 = Some (gap_set, gap_cursor 1)"
  by (simp_all add: oc_left_def oc_contiguous_def oc_data_def oc_increment_def oc_increment_loop.simps
      oc_current_contiguous_def oc_chunks_def cs_after_def gap_set_def gap_cursor_def)

lemma gap_stuck: "oc_consume_loop gap_set (gap_cursor 1) 1 acc = None"
proof -
  have "oc_consume_loop s cur n acc = Some r \<Longrightarrow> s = gap_set \<longrightarrow> cur = gap_cursor 1 \<longrightarrow> n \<noteq> 1"
    for s cur n acc r
    by (erule oc_consume_loop.raw_induct [rotated]) (fastforce simp: gap_reads [unfolded One_nat_def])
  then show ?thesis by (metis not_Some_eq)
qed

text \<open>Two reservations in a row can leave an empty chunk in the middle of the chain, for the first
  is not released when the second does not fit in it. A reader that has used up the chunk before the
  gap has data left and a contiguous size of 0: \<open>Consume\<close> never returns.\<close>

theorem Reserve_twice_hangs_Consume:
  "\<exists>s cur. fifo_run [Op_Add [1], Op_Reserve 16384, Op_Reserve 20000, Op_Add [2]]
       (bf_chunks (the Buffer_new), [bf_output (the Buffer_new)]) = Some ([[], [], [], []], s, [cur]) \<and>
     buf_inv s [cur] \<and> unread s cur = [1, 2] \<and> oc_consume s cur 2 = None"
proof (intro exI conjI, rule gap_run)
  show "buf_inv gap_set [gap_cursor 0]" "unread gap_set (gap_cursor 0) = [1, 2]"
    by (simp_all add: gap_set_def gap_cursor_def buf_inv_def chain_inv_def links_inv_def
      live_def cur_ok_bodies bodies_map unread_bodies less_Suc_eq ck_ok_def kRoundedSize_def ck_body_def)
  have "oc_consume_loop gap_set (gap_cursor 0) 2 [] = oc_consume_loop gap_set (gap_cursor 1) 1 [1]"
    unfolding oc_consume_loop.simps [of gap_set "gap_cursor 0"]
    by (simp add: oc_left_def oc_contiguous_def oc_data_def oc_increment_def oc_increment_loop.simps
      oc_current_contiguous_def oc_chunks_def cs_after_def gap_set_def gap_cursor_def Let_def)
  then show "oc_consume gap_set (gap_cursor 0) 2 = None"
    using gap_stuck by (simp add: oc_consume_def)
qed

end
