(* ===== verification/Serializers.thy ===== *)
theory Serializers
  imports Buffers
begin

text \<open>
  \<open>src/src/serializers.h\<close>: the overloads of \<open>EncodeToBuffer\<close> and \<open>DecodeFromBuffer\<close>. An encoder writes
  through an operation that appends bytes, a decoder reads through an operation that consumes them;
  both are arguments of the definitions, and are \<open>InputCursor::Add\<close> and \<open>OutputCursor::Consume\<close> of the
  buffer in the interpretations below, where the laws the two locales ask for are proved.

  A decoder returns 0 with the value, or a positive number: a hint of how many bytes are missing.
\<close>

section \<open>Encoders\<close>

type_synonym 's adder = "'s \<Rightarrow> bytes \<Rightarrow> 's option"

definition encode_u8 :: "'s adder \<Rightarrow> byte \<Rightarrow> 's \<Rightarrow> (bool \<times> 's) option" where
  "encode_u8 add num s = do { s \<leftarrow> add s [num]; Some (True, s) }"

definition encode_u16 :: "'s adder \<Rightarrow> u16 \<Rightarrow> 's \<Rightarrow> (bool \<times> 's) option" where
  "encode_u16 add num s = do { s \<leftarrow> add s (be16 num); Some (True, s) }"

definition encode_u32 :: "'s adder \<Rightarrow> u32 \<Rightarrow> 's \<Rightarrow> (bool \<times> 's) option" where
  "encode_u32 add num s = do { s \<leftarrow> add s (be32 num); Some (True, s) }"

text \<open>A signed 16-bit number has the bits of the unsigned one.\<close>

definition encode_s16 :: "'s adder \<Rightarrow> u16 \<Rightarrow> 's \<Rightarrow> (bool \<times> 's) option" where
  "encode_s16 add num s = encode_u16 add num s"

definition uint16_max :: nat where
  "uint16_max = 65535"

definition encode_string :: "'s adder \<Rightarrow> bytes \<Rightarrow> 's \<Rightarrow> (bool \<times> 's) option" where
  "encode_string add st s =
     (if uint16_max < length st then Some (False, s)
      else do {
        (_, s) \<leftarrow> encode_u16 add (of_nat (length st)) s;
        s \<leftarrow> add s st;
        Some (True, s)
      })"

text \<open>The encoder of a pair returns nothing; the results of the two halves are ignored.\<close>

definition encode_pair ::
    "('a \<Rightarrow> 's \<Rightarrow> (bool \<times> 's) option) \<Rightarrow> ('b \<Rightarrow> 's \<Rightarrow> (bool \<times> 's) option) \<Rightarrow> 'a \<times> 'b \<Rightarrow> 's \<Rightarrow> 's option" where
  "encode_pair enc1 enc2 p s = do {
     (_, s) \<leftarrow> enc1 (fst p) s;
     (_, s) \<leftarrow> enc2 (snd p) s;
     Some s
   }"

fun encode_elements :: "('a \<Rightarrow> 's \<Rightarrow> (bool \<times> 's) option) \<Rightarrow> 'a list \<Rightarrow> 's \<Rightarrow> 's option" where
  "encode_elements enc [] s = Some s"
| "encode_elements enc (x # xs) s = do { (_, s) \<leftarrow> enc x s; encode_elements enc xs s }"

definition encode_vector ::
    "'s adder \<Rightarrow> ('a \<Rightarrow> 's \<Rightarrow> (bool \<times> 's) option) \<Rightarrow> 'a list \<Rightarrow> 's \<Rightarrow> (bool \<times> 's) option" where
  "encode_vector add enc xs s =
     (if uint16_max < length xs then Some (False, s)
      else do {
        (_, s) \<leftarrow> encode_u16 add (of_nat (length xs)) s;
        s \<leftarrow> encode_elements enc xs s;
        Some (True, s)
      })"

section \<open>Decoders\<close>

type_synonym 's consumer = "'s \<Rightarrow> nat \<Rightarrow> (bytes \<times> 's) option"

text \<open>The result, the decoded value when the result is 0, and the source after the call.\<close>

type_synonym ('v, 's) decoded = "(nat \<times> 'v option \<times> 's) option"

definition decode_u8 :: "'s consumer \<Rightarrow> 's \<Rightarrow> (byte, 's) decoded" where
  "decode_u8 consume s = do {
     (bs, s) \<leftarrow> consume s 1;
     Some (1 - length bs, (case bs of [b] \<Rightarrow> Some b | _ \<Rightarrow> None), s)
   }"

definition decode_u16 :: "'s consumer \<Rightarrow> 's \<Rightarrow> (u16, 's) decoded" where
  "decode_u16 consume s = do {
     (bs, s) \<leftarrow> consume s 2;
     (if length bs < 2 then Some (2 - length bs, None, s)
      else Some (0, Some (of_be16 (bs ! 0) (bs ! 1)), s))
   }"

definition decode_s16 :: "'s consumer \<Rightarrow> 's \<Rightarrow> (u16, 's) decoded" where
  "decode_s16 consume s = decode_u16 consume s"

definition decode_u32 :: "'s consumer \<Rightarrow> 's \<Rightarrow> (u32, 's) decoded" where
  "decode_u32 consume s = do {
     (bs, s) \<leftarrow> consume s 4;
     (if length bs < 4 then Some (4 - length bs, None, s)
      else Some (0, Some (of_be32 (bs ! 0) (bs ! 1) (bs ! 2) (bs ! 3)), s))
   }"

text \<open>
  \<open>ConsumeString\<close> appends what there is and returns how many bytes were missing; the caller's string
  is empty. A part of a string is never used by a caller, so it is not kept here.
\<close>

definition decode_string :: "'s consumer \<Rightarrow> 's \<Rightarrow> (bytes, 's) decoded" where
  "decode_string consume s = do {
     (result, len, s) \<leftarrow> decode_u16 consume s;
     (case len of
        None \<Rightarrow> Some (result, None, s)
      | Some len \<Rightarrow> do {
          (bs, s) \<leftarrow> consume s (unat len);
          Some (unat len - length bs, (if length bs = unat len then Some bs else None), s)
        })
   }"

definition decode_pair ::
    "('s \<Rightarrow> ('a, 's) decoded) \<Rightarrow> ('s \<Rightarrow> ('b, 's) decoded) \<Rightarrow> 's \<Rightarrow> ('a \<times> 'b, 's) decoded" where
  "decode_pair dec1 dec2 s = do {
     (result, a, s) \<leftarrow> dec1 s;
     (case a of
        None \<Rightarrow> Some (result, None, s)
      | Some a \<Rightarrow> do {
          (result, b, s) \<leftarrow> dec2 s;
          Some (result, map_option (Pair a) b, s)
        })
   }"

text \<open>The loop over the elements: \<open>k = size - i\<close> of them are still to be read.\<close>

fun decode_elements :: "('s \<Rightarrow> ('a, 's) decoded) \<Rightarrow> nat \<Rightarrow> 'a list \<Rightarrow> 's \<Rightarrow> ('a list, 's) decoded" where
  "decode_elements dec 0 data s = Some (0, Some data, s)"
| "decode_elements dec (Suc k) data s = do {
     (result, a, s) \<leftarrow> dec s;
     (case a of
        None \<Rightarrow> Some (result + Suc k, None, s)
      | Some a \<Rightarrow> decode_elements dec k (data @ [a]) s)
   }"

definition decode_vector ::
    "'s consumer \<Rightarrow> ('s \<Rightarrow> ('a, 's) decoded) \<Rightarrow> 's \<Rightarrow> ('a list, 's) decoded" where
  "decode_vector consume dec s = do {
     (result, len, s) \<leftarrow> decode_u16 consume s;
     (case len of
        None \<Rightarrow> Some (result, None, s)
      | Some len \<Rightarrow> decode_elements dec (unat len) [] s)
   }"

section \<open>Copying one buffer into another\<close>

text \<open>
  \<open>EncodeToBuffer(OutputCursor*, InputCursor*)\<close>. The destination \<open>d\<close> and the source \<open>s\<close> are different
  chunk sets. The bytes are copied before the two cursors move.
\<close>

partial_function (option) encode_cursor_loop ::
    "chunkset \<Rightarrow> cursor \<Rightarrow> chunkset \<Rightarrow> (chunkset \<times> cursor \<times> chunkset) option" where
  "encode_cursor_loop s cur d = do {
     left \<leftarrow> oc_left s cur;
     (if left \<noteq> 0 then do {
        here \<leftarrow> oc_contiguous s cur;
        bs \<leftarrow> oc_data s cur;
        d \<leftarrow> ic_commit d (take here bs);
        (s, cur) \<leftarrow> oc_increment s cur here;
        encode_cursor_loop s cur d
      }
      else Some (s, cur, d))
   }"

definition encode_cursor ::
    "chunkset \<Rightarrow> cursor \<Rightarrow> chunkset \<Rightarrow> (bool \<times> chunkset \<times> cursor \<times> chunkset) option" where
  "encode_cursor s cur d = do {
     left \<leftarrow> oc_left s cur;
     (s, cur, d) \<leftarrow> encode_cursor_loop s cur (ic_reserve d left);
     Some (True, s, cur, d)
   }"

section \<open>What the encoders and decoders rely on\<close>

locale byte_source =
  fixes consume :: "'s \<Rightarrow> nat \<Rightarrow> (bytes \<times> 's) option"
    and contents :: "'s \<Rightarrow> bytes"
    and ok :: "'s \<Rightarrow> bool"
  assumes consume_takes: "ok s \<Longrightarrow>
    \<exists>s'. consume s n = Some (take n (contents s), s') \<and> contents s' = drop n (contents s) \<and> ok s'"

locale byte_sink =
  fixes add :: "'s \<Rightarrow> bytes \<Rightarrow> 's option"
    and contents :: "'s \<Rightarrow> bytes"
    and ok :: "'s \<Rightarrow> bool"
  assumes add_appends: "ok s \<Longrightarrow>
    \<exists>s'. add s bs = Some s' \<and> contents s' = contents s @ bs \<and> ok s'"

context byte_sink
begin

text \<open>\<open>enc\<close> writes \<open>w x\<close> for the value \<open>x\<close> and succeeds.\<close>

definition writes :: "('a \<Rightarrow> 's \<Rightarrow> (bool \<times> 's) option) \<Rightarrow> 'a \<Rightarrow> bytes \<Rightarrow> bool" where
  "writes enc x w \<longleftrightarrow> (\<forall>s. ok s \<longrightarrow>
     (\<exists>s'. enc x s = Some (True, s') \<and> contents s' = contents s @ w \<and> ok s'))"

lemma writes_numbers:
  "writes (encode_u8 add) b [b]" "writes (encode_u16 add) w (be16 w)" "writes (encode_u32 add) v (be32 v)"
  using add_appends by (force simp: writes_def encode_u8_def encode_u16_def encode_u32_def)+

lemma writes_string:
  assumes "length xs \<le> uint16_max"
  shows "writes (encode_string add) xs (be16 (of_nat (length xs)) @ xs)"
  unfolding writes_def
proof (intro allI impI)
  fix s assume "ok s"
  from add_appends [OF this, of "be16 (of_nat (length xs))"] obtain s1 where
    s1: "add s (be16 (of_nat (length xs))) = Some s1" "ok s1"
      "contents s1 = contents s @ be16 (of_nat (length xs))" by blast
  from add_appends [OF s1(2), of xs] obtain s2 where
    "add s1 xs = Some s2" "contents s2 = contents s1 @ xs" "ok s2" by blast
  with s1 assms show "\<exists>s'. encode_string add xs s = Some (True, s') \<and>
      contents s' = contents s @ be16 (of_nat (length xs)) @ xs \<and> ok s'"
    by (simp add: encode_string_def encode_u16_def)
qed

lemma elements_written:
  assumes "\<And>x. x \<in> set xs \<Longrightarrow> writes enc x (w x)" "ok s"
  shows "\<exists>s'. encode_elements enc xs s = Some s' \<and> contents s' = contents s @ concat (map w xs) \<and> ok s'"
  using assms
proof (induction xs arbitrary: s)
  case (Cons x xs)
  from Cons.prems(1) [of x] Cons.prems(2) obtain s1 where
    s1: "enc x s = Some (True, s1)" "contents s1 = contents s @ w x" "ok s1"
    by (auto simp: writes_def)
  from Cons.IH [OF Cons.prems(1) s1(3)] s1 show ?case by auto
qed simp

lemma writes_vector:
  assumes "length xs \<le> uint16_max" "\<And>x. x \<in> set xs \<Longrightarrow> writes enc x (w x)"
  shows "writes (encode_vector add enc) xs (be16 (of_nat (length xs)) @ concat (map w xs))"
  unfolding writes_def
proof (intro allI impI)
  fix s assume "ok s"
  from add_appends [OF this, of "be16 (of_nat (length xs))"] obtain s1 where
    s1: "add s (be16 (of_nat (length xs))) = Some s1" "ok s1"
      "contents s1 = contents s @ be16 (of_nat (length xs))" by blast
  from elements_written [OF assms(2) s1(2)] obtain s2 where
    "encode_elements enc xs s1 = Some s2" "contents s2 = contents s1 @ concat (map w xs)" "ok s2"
    by blast
  with s1 assms(1) show "\<exists>s'. encode_vector add enc xs s = Some (True, s') \<and>
      contents s' = contents s @ be16 (of_nat (length xs)) @ concat (map w xs) \<and> ok s'"
    by (simp add: encode_vector_def encode_u16_def)
qed

end

context byte_source
begin

text \<open>\<open>dec\<close> reads the value \<open>x\<close> off its encoding \<open>w\<close>.\<close>

definition reads :: "('s \<Rightarrow> ('a, 's) decoded) \<Rightarrow> 'a \<Rightarrow> bytes \<Rightarrow> bool" where
  "reads dec x w \<longleftrightarrow> (\<forall>s rest. ok s \<longrightarrow> contents s = w @ rest \<longrightarrow>
     (\<exists>s'. dec s = Some (0, Some x, s') \<and> contents s' = rest \<and> ok s'))"

text \<open>On a part of \<open>w\<close> it fails, with a hint that is at most what is missing.\<close>

definition hints :: "('s \<Rightarrow> ('a, 's) decoded) \<Rightarrow> bytes \<Rightarrow> bool" where
  "hints dec w \<longleftrightarrow> (\<forall>s q. ok s \<longrightarrow> w = contents s @ q \<longrightarrow> q \<noteq> [] \<longrightarrow>
     (\<exists>n s'. dec s = Some (n, None, s') \<and> 0 < n \<and> n \<le> length q \<and> contents s' = [] \<and> ok s'))"

lemma readsD: "reads dec x w \<Longrightarrow> ok s \<Longrightarrow> contents s = w @ rest \<Longrightarrow>
    \<exists>s'. dec s = Some (0, Some x, s') \<and> contents s' = rest \<and> ok s'"
  by (auto simp: reads_def)

lemma hintsD: "hints dec w \<Longrightarrow> ok s \<Longrightarrow> w = contents s @ q \<Longrightarrow> q \<noteq> [] \<Longrightarrow>
    \<exists>n s'. dec s = Some (n, None, s') \<and> 0 < n \<and> n \<le> length q \<and> contents s' = [] \<and> ok s'"
  by (auto simp: hints_def)

lemma consume_all_of: "ok s \<Longrightarrow> length (contents s) \<le> n \<Longrightarrow>
    \<exists>s'. consume s n = Some (contents s, s') \<and> contents s' = [] \<and> ok s'"
  using consume_takes [of s n] by simp

lemma consume_prefix: "ok s \<Longrightarrow> contents s = w @ rest \<Longrightarrow> length w = n \<Longrightarrow>
    \<exists>s'. consume s n = Some (w, s') \<and> contents s' = rest \<and> ok s'"
  using consume_takes [of s n] by simp

lemma reads_numbers:
  "reads (decode_u8 consume) b [b]" "reads (decode_u16 consume) w (be16 w)" "reads (decode_u32 consume) v (be32 v)"
  unfolding reads_def
proof (safe)
  fix s rest
  assume s: "ok s"
  show "contents s = [b] @ rest \<Longrightarrow> \<exists>s'. decode_u8 consume s = Some (0, Some b, s') \<and> contents s' = rest \<and> ok s'"
    using consume_prefix [OF s, of "[b]" rest 1] by (auto simp: decode_u8_def)
  show "contents s = be16 w @ rest \<Longrightarrow> \<exists>s'. decode_u16 consume s = Some (0, Some w, s') \<and> contents s' = rest \<and> ok s'"
    using consume_prefix [OF s, of "be16 w" rest 2] by (auto simp: decode_u16_def be16_def)
  show "contents s = be32 v @ rest \<Longrightarrow> \<exists>s'. decode_u32 consume s = Some (0, Some v, s') \<and> contents s' = rest \<and> ok s'"
    using consume_prefix [OF s, of "be32 v" rest 4] by (auto simp: decode_u32_def be32_def)
qed

lemma missing_length: "w = p @ q \<Longrightarrow> q \<noteq> [] \<Longrightarrow> length p < length w \<and> length q = length w - length p"
  by auto

lemma hints_numbers:
  "hints (decode_u8 consume) [b]" "hints (decode_u16 consume) (be16 w)" "hints (decode_u32 consume) (be32 v)"
  unfolding hints_def
proof (safe)
  fix s and q :: bytes
  assume s: "ok s" and q: "q \<noteq> []"
  show "[b] = contents s @ q \<Longrightarrow> \<exists>n s'. decode_u8 consume s = Some (n, None, s') \<and> 0 < n \<and> n \<le> length q \<and> contents s' = [] \<and> ok s'"
    using consume_all_of [OF s, of 1] q by (auto simp: decode_u8_def Cons_eq_append_conv)
  show "be16 w = contents s @ q \<Longrightarrow> \<exists>n s'. decode_u16 consume s = Some (n, None, s') \<and> 0 < n \<and> n \<le> length q \<and> contents s' = [] \<and> ok s'"
    using consume_all_of [OF s, of 2] by (auto simp: decode_u16_def dest!: missing_length [OF _ q])
  show "be32 v = contents s @ q \<Longrightarrow> \<exists>n s'. decode_u32 consume s = Some (n, None, s') \<and> 0 < n \<and> n \<le> length q \<and> contents s' = [] \<and> ok s'"
    using consume_all_of [OF s, of 4] by (auto simp: decode_u32_def dest!: missing_length [OF _ q])
qed

lemma unat_length_u16: "length xs \<le> uint16_max \<Longrightarrow> unat (of_nat (length xs) :: u16) = length xs"
  by (simp add: uint16_max_def unat_of_nat take_bit_nat_eq_self)

lemma reads_string:
  assumes "length xs \<le> uint16_max"
  shows "reads (decode_string consume) xs (be16 (of_nat (length xs)) @ xs)"
  unfolding reads_def
proof (intro allI impI)
  fix s rest assume s: "ok s" "contents s = (be16 (of_nat (length xs)) @ xs) @ rest"
  with readsD [OF reads_numbers(2) s(1), of "of_nat (length xs)" "xs @ rest"] obtain s1 where
    s1: "decode_u16 consume s = Some (0, Some (of_nat (length xs)), s1)" "contents s1 = xs @ rest" "ok s1"
    by auto
  from consume_prefix [OF s1(3,2) refl] s1(1) unat_length_u16 [OF assms]
  show "\<exists>s'. decode_string consume s = Some (0, Some xs, s') \<and> contents s' = rest \<and> ok s'"
    by (auto simp: decode_string_def)
qed

lemma hints_string:
  assumes "length xs \<le> uint16_max"
  shows "hints (decode_string consume) (be16 (of_nat (length xs)) @ xs)"
  unfolding hints_def
proof (intro allI impI)
  fix s and q :: bytes
  let ?n = "of_nat (length xs) :: u16"
  assume s: "ok s" "be16 ?n @ xs = contents s @ q" "q \<noteq> []"
  show "\<exists>n s'. decode_string consume s = Some (n, None, s') \<and> 0 < n \<and> n \<le> length q \<and> contents s' = [] \<and> ok s'"
  proof (cases "length (contents s) < 2")
    case True
    then obtain q' where q': "be16 ?n = contents s @ q'" "q = q' @ xs" "q' \<noteq> []"
      using append_split_short [OF s(2)] by auto
    from hintsD [OF hints_numbers(2) s(1) q'(1,3)] q'(2) show ?thesis
      by (auto simp: decode_string_def)
  next
    case False
    then obtain p where p: "contents s = be16 ?n @ p" "xs = p @ q"
      using append_split_long [OF s(2)] by auto
    with readsD [OF reads_numbers(2) s(1)] obtain s1 where
      s1: "decode_u16 consume s = Some (0, Some ?n, s1)" "contents s1 = p" "ok s1" by blast
    from consume_all_of [OF s1(3), of "length xs"] obtain s2 where
      "consume s1 (length xs) = Some (p, s2)" "contents s2 = []" "ok s2"
      using s1(2) p(2) by auto
    with s1 p(2) s(3) unat_length_u16 [OF assms] show ?thesis
      by (auto simp: decode_string_def)
  qed
qed

lemma reads_pair:
  assumes "reads dec1 a v" "reads dec2 b w"
  shows "reads (decode_pair dec1 dec2) (a, b) (v @ w)"
  unfolding reads_def
proof (intro allI impI)
  fix s rest assume s: "ok s" "contents s = (v @ w) @ rest"
  with readsD [OF assms(1) s(1), of "w @ rest"] obtain s1 where
    s1: "dec1 s = Some (0, Some a, s1)" "contents s1 = w @ rest" "ok s1" by auto
  from readsD [OF assms(2) s1(3,2)] s1(1)
  show "\<exists>s'. decode_pair dec1 dec2 s = Some (0, Some (a, b), s') \<and> contents s' = rest \<and> ok s'"
    by (auto simp: decode_pair_def)
qed

lemma hints_pair:
  assumes "reads dec1 a v" "hints dec1 v" "hints dec2 w"
  shows "hints (decode_pair dec1 dec2) (v @ w)"
  unfolding hints_def
proof (intro allI impI)
  fix s and q :: bytes
  assume s: "ok s" "v @ w = contents s @ q" "q \<noteq> []"
  show "\<exists>n s'. decode_pair dec1 dec2 s = Some (n, None, s') \<and> 0 < n \<and> n \<le> length q \<and> contents s' = [] \<and> ok s'"
  proof (cases "length (contents s) < length v")
    case True
    then obtain q' where q': "v = contents s @ q'" "q = q' @ w" "q' \<noteq> []"
      using append_split_short [OF s(2)] by auto
    from hintsD [OF assms(2) s(1) q'(1,3)] q'(2) show ?thesis
      by (auto simp: decode_pair_def)
  next
    case False
    then obtain p where p: "contents s = v @ p" "w = p @ q"
      using append_split_long [OF s(2)] by auto
    with readsD [OF assms(1) s(1)] obtain s1 where
      s1: "dec1 s = Some (0, Some a, s1)" "contents s1 = p" "ok s1" by blast
    from hintsD [OF assms(3) s1(3) _ s(3)] s1 p(2) show ?thesis
      by (auto simp: decode_pair_def)
  qed
qed

lemma elements_read:
  assumes "\<And>x. x \<in> set xs \<Longrightarrow> reads dec x (w x)" "ok s" "contents s = concat (map w xs) @ rest"
  shows "\<exists>s'. decode_elements dec (length xs) data s = Some (0, Some (data @ xs), s') \<and> contents s' = rest \<and> ok s'"
  using assms
proof (induction xs arbitrary: s data)
  case (Cons x xs)
  from readsD [OF Cons.prems(1) [of x] Cons.prems(2), of "concat (map w xs) @ rest"] Cons.prems(3) obtain s1 where
    s1: "dec s = Some (0, Some x, s1)" "contents s1 = concat (map w xs) @ rest" "ok s1" by auto
  from Cons.IH [OF Cons.prems(1) s1(3,2), of "data @ [x]"] s1(1) show ?case by simp
qed simp

lemma reads_vector:
  assumes "length xs \<le> uint16_max" "\<And>x. x \<in> set xs \<Longrightarrow> reads dec x (w x)"
  shows "reads (decode_vector consume dec) xs (be16 (of_nat (length xs)) @ concat (map w xs))"
  unfolding reads_def
proof (intro allI impI)
  fix s rest assume s: "ok s" "contents s = (be16 (of_nat (length xs)) @ concat (map w xs)) @ rest"
  with readsD [OF reads_numbers(2) s(1), of "of_nat (length xs)" "concat (map w xs) @ rest"] obtain s1 where
    s1: "decode_u16 consume s = Some (0, Some (of_nat (length xs)), s1)"
      "contents s1 = concat (map w xs) @ rest" "ok s1" by auto
  from elements_read [OF assms(2) s1(3,2), of "[]"] s1(1) unat_length_u16 [OF assms(1)]
  show "\<exists>s'. decode_vector consume dec s = Some (0, Some xs, s') \<and> contents s' = rest \<and> ok s'"
    by (auto simp: decode_vector_def)
qed

text \<open>The hint for a vector counts the elements on top of the hint for the next one.\<close>

lemma short_vector:
  assumes "\<And>x. x \<in> set xs \<Longrightarrow> reads dec x (w x)" "hints dec v" "ok s" "contents s = concat (map w xs) @ p"
    "v = p @ q" "q \<noteq> []"
  shows "\<exists>n s'. decode_elements dec (length xs + Suc k) data s = Some (n + Suc k, None, s') \<and>
    0 < n \<and> n \<le> length q"
  using assms
proof (induction xs arbitrary: s data)
  case Nil
  then have "contents s = p" by simp
  from hintsD [OF Nil(2,3) _ Nil(6)] Nil(5) this show ?case by auto
next
  case (Cons x xs)
  from readsD [OF Cons.prems(1) [of x] Cons.prems(3), of "concat (map w xs) @ p"] Cons.prems(4) obtain s1 where
    s1: "dec s = Some (0, Some x, s1)" "contents s1 = concat (map w xs) @ p" "ok s1" by auto
  from Cons.IH [OF Cons.prems(1,2) s1(3,2) Cons.prems(5,6)] s1(1) show ?case by simp
qed

end

section \<open>The buffer is such a source and such a sink\<close>

type_synonym reader = "chunkset \<times> cursor"

definition reader_consume :: "reader \<Rightarrow> nat \<Rightarrow> (bytes \<times> reader) option" where
  "reader_consume r n = oc_consume (fst r) (snd r) n"

definition reader_add :: "reader \<Rightarrow> bytes \<Rightarrow> reader option" where
  "reader_add r bs = do { s \<leftarrow> ic_add (fst r) bs; Some (s, snd r) }"

definition reader_contents :: "reader \<Rightarrow> bytes" where
  "reader_contents r = unread (fst r) (snd r)"

definition reader_ok :: "cursor list \<Rightarrow> reader \<Rightarrow> bool" where
  "reader_ok others r \<longleftrightarrow> readable (fst r) (snd r) others \<and> oc_limited (snd r) = None"

interpretation cursor_source: byte_source reader_consume reader_contents "reader_ok others" for others
proof
  fix r n
  assume "reader_ok others r"
  then have r: "readable (fst r) (snd r) others" "within_limit (snd r) n" "oc_limited (snd r) = None"
    by (simp_all add: reader_ok_def within_limit_def)
  from consume_loop [OF r(1,2), of "[]"] obtain s' cur' where
    "oc_consume (fst r) (snd r) n = Some (take n (reader_contents r), s', cur')"
    "advanced (fst r) (snd r) others n s' cur'"
    by (auto simp: oc_consume_def reader_contents_def)
  moreover from this(2) readable_advanced [OF r(1)] r(3) have
    "reader_ok others (s', cur')" "reader_contents (s', cur') = drop n (reader_contents r)"
    by (simp_all add: reader_ok_def reader_contents_def advanced_def)
  ultimately show "\<exists>s'. reader_consume r n = Some (take n (reader_contents r), s') \<and>
      reader_contents s' = drop n (reader_contents r) \<and> reader_ok others s'"
    by (auto simp: reader_consume_def)
qed

text \<open>The same when the other cursors are to find what they had: a copy of a cursor is read.\<close>

definition kept :: "cursor list \<Rightarrow> bytes list \<Rightarrow> reader \<Rightarrow> bool" where
  "kept others vs r \<longleftrightarrow> reader_ok others r \<and> map (unread (fst r)) others = vs"

lemma kept_alone [simp]: "kept [] [] = reader_ok []"
  by (rule ext) (simp add: kept_def)

lemma reader_ok_kept: "reader_ok others r \<longleftrightarrow> kept others (map (unread (fst r)) others) r"
  by (simp add: kept_def)

lemma kept_advanced:
  assumes "kept others vs (s, cur)" "advanced s cur others n s' cur'"
  shows "kept others vs (s', cur')" "reader_contents (s', cur') = drop n (reader_contents (s, cur))"
  using assms readable_advanced [OF _ assms(2)]
  by (auto simp: kept_def reader_ok_def advanced_def reader_contents_def)

interpretation kept_source: byte_source reader_consume reader_contents "kept others vs" for others vs
proof
  fix r n
  assume r: "kept others vs r"
  obtain s cur where eq: "r = (s, cur)" by fastforce
  from r have "readable s cur others" "within_limit cur n" by (simp_all add: eq kept_def reader_ok_def within_limit_def)
  from consume_loop [OF this, of "[]"] obtain s' cur' where
    s': "oc_consume s cur n = Some (take n (reader_contents r), s', cur')" "advanced s cur others n s' cur'"
    by (auto simp: oc_consume_def reader_contents_def eq)
  from kept_advanced [OF r [unfolded eq] s'(2)] s'(1)
  show "\<exists>s'. reader_consume r n = Some (take n (reader_contents r), s') \<and>
      reader_contents s' = drop n (reader_contents r) \<and> kept others vs s'"
    by (auto simp: reader_consume_def eq)
qed

text \<open>
  A buffer nobody reserved room in without using it: data of any size can then be added without
  leaving a gap.
\<close>

definition tidy :: "cursor list \<Rightarrow> reader \<Rightarrow> bool" where
  "tidy others r \<longleftrightarrow> buf_inv (fst r) (snd r # others) \<and> gap_free (cs_chunks (fst r)) \<and>
     (cs_chunks (fst r) = [] \<or> ck_data (last (cs_chunks (fst r))) \<noteq> []) \<and> oc_limited (snd r) = None"

lemma tidy_reader_ok: "tidy others r \<Longrightarrow> length (reader_contents r) < 2 ^ 32 \<Longrightarrow> reader_ok others r"
  by (simp add: tidy_def reader_ok_def readable_def reader_contents_def)

lemma tidy_all_used: "tidy others r \<longleftrightarrow> buf_inv (fst r) (snd r # others) \<and> all_used (cs_chunks (fst r)) \<and> oc_limited (snd r) = None"
  by (auto simp: tidy_def all_used_gap_free)

lemma tidy_advanced: "tidy others (s, cur) \<Longrightarrow> advanced s cur others n s' cur' \<Longrightarrow> tidy others (s', cur')"
  by (simp add: tidy_all_used advanced_def)

interpretation cursor_sink: byte_sink reader_add reader_contents "tidy others" for others
proof
  fix r and bs :: bytes
  assume tidy: "tidy others r"
  then have inv: "buf_inv (fst r) (snd r # others)" by (simp add: tidy_def)
  from add_grows [OF inv, of bs] obtain s' where
    s': "ic_add (fst r) bs = Some s'" "buf_inv s' (snd r # others)" "grows (fst r) bs s'"
      "gap_free (cs_chunks s')" "cs_chunks s' = [] \<or> ck_data (last (cs_chunks s')) \<noteq> []"
    using tidy by (auto simp: tidy_def)
  have "unread s' (snd r) = unread (fst r) (snd r) @ bs"
    by (rule grows_cursor(2) [OF s'(3)]) (use inv in \<open>simp add: buf_inv_def\<close>)
  with s' tidy show "\<exists>s'. reader_add r bs = Some s' \<and> reader_contents s' = reader_contents r @ bs \<and> tidy others s'"
    by (auto simp: reader_add_def reader_contents_def tidy_def)
qed

text \<open>Copying the rest of one buffer into another.\<close>

lemma copy_loop:
  assumes "readable s cur others" "oc_limited cur = None" "chain_inv d ps"
    "length (unread s cur) \<le> ic_contiguous d"
  shows "\<exists>s' cur' d'. encode_cursor_loop s cur d = Some (s', cur', d') \<and> unread s' cur' = [] \<and>
    buf_inv s' (cur' # others) \<and> chain_inv d' ps \<and> grows d (unread s cur) d'"
  using assms
proof (induction "length (unread s cur)" arbitrary: s cur d rule: less_induct)
  case less
  have inv: "buf_inv s (cur # others)" "length (unread s cur) < 2 ^ 32"
    using less.prems(1) by (simp_all add: readable_def)
  have left: "oc_left s cur = Some (length (unread s cur))"
    using left_size [OF inv] less.prems(2) by simp
  show ?case
  proof (cases "unread s cur = []")
    case True
    with left inv less.prems(3) show ?thesis
      by (simp add: encode_cursor_loop.simps [of s] grows_refl)
  next
    case False
    obtain bs rest where bs: "oc_data s cur = Some bs" "oc_contiguous s cur = Some (length bs)"
      "unread s cur = bs @ rest" "rest \<noteq> [] \<longrightarrow> bs \<noteq> []"
      using contiguous_data [OF less.prems(1)] by blast
    have room: "length bs \<le> ic_contiguous d" using less.prems(4) bs(3) by simp
    have ne: "cs_chunks d \<noteq> []" using room False bs(3,4) by (auto simp: ic_contiguous_def)
    obtain d1 where d1: "ic_commit d bs = Some d1" "chain_inv d1 ps" "grows d bs d1"
      "ic_contiguous d1 = ic_contiguous d - length bs"
      using commit_grows [OF less.prems(3) room ne] by metis
    obtain s1 cur1 where s1: "oc_increment s cur (length bs) = Some (s1, cur1)"
      "advanced s cur others (length bs) s1 cur1"
      using increment_advances [OF less.prems(1), of "length bs"] bs(3) less.prems(2)
      by (auto simp: within_limit_def)
    have u1: "unread s1 cur1 = rest" "oc_limited cur1 = None"
      using s1(2) bs(3) less.prems(2) by (simp_all add: advanced_def)
    have "\<exists>s' cur' d'. encode_cursor_loop s1 cur1 d1 = Some (s', cur', d') \<and> unread s' cur' = [] \<and>
        buf_inv s' (cur' # others) \<and> chain_inv d' ps \<and> grows d1 (unread s1 cur1) d'"
      using less.hyps [OF _ readable_advanced [OF less.prems(1) s1(2)] u1(2) d1(2)] u1(1) bs(3,4)
        d1(4) less.prems(4) False by auto
    then show ?thesis
      using left False bs(1-3) d1(1) s1(1) u1(1) grows_trans [OF d1(3)]
      by (fastforce simp: encode_cursor_loop.simps [of s])
  qed
qed

lemma reserve_room: "n \<le> ic_contiguous (ic_reserve s n)"
  by (simp add: ic_reserve_def append_contiguous RoundSize_ge)

section \<open>Properties\<close>

abbreviation string_wire :: "bytes \<Rightarrow> bytes" where
  "string_wire xs \<equiv> be16 (of_nat (length xs)) @ xs"


definition empty_reader :: reader where
  "empty_reader = (cs_new\<lparr>cs_refcount := 1, cs_placemark_ref := 2\<rparr>,
     \<lparr>oc_prev = 0, oc_offset = 0, oc_limited = None\<rparr>)"

lemma empty_reader_ok: "tidy [] empty_reader" "reader_contents empty_reader = []"
  using fifo_inv_new unread_new
  by (simp_all add: empty_reader_def tidy_def fifo_inv_def reader_contents_def cs_new_def)


text \<open>On a part of the encoding of a string, or of a string and a number, the decoder reports
  that data is missing, and the hint it returns is positive and no more than what is missing.\<close>

theorem decode_hints_are_lower_bounds:
  assumes "reader_ok others r" "length xs \<le> uint16_max" "q \<noteq> []"
  shows "(string_wire xs = reader_contents r @ q \<longrightarrow>
      (\<exists>n r'. decode_string reader_consume r = Some (n, None, r') \<and> 0 < n \<and> n \<le> length q)) \<and>
    (string_wire xs @ be32 v = reader_contents r @ q \<longrightarrow>
      (\<exists>n r'. decode_pair (decode_string reader_consume) (decode_u32 reader_consume) r = Some (n, None, r') \<and>
        0 < n \<and> n \<le> length q))"
  using cursor_source.hintsD [OF cursor_source.hints_string [OF assms(2)] assms(1) _ assms(3)]
    cursor_source.hintsD [OF cursor_source.hints_pair [OF cursor_source.reads_string [OF assms(2)]
        cursor_source.hints_string [OF assms(2)] cursor_source.hints_numbers(3)] assms(1) _ assms(3)]
  by blast

definition sample_reader :: reader where
  "sample_reader = (sample_set, sample_cursor)"

lemma sample_reader_ok: "reader_ok [] sample_reader" "reader_contents sample_reader = [10, 11]"
  using sample_readable by (simp_all add: sample_reader_def reader_ok_def reader_contents_def)

lemma decode_hints_are_lower_bounds_witness:
  "\<exists>n r'. decode_string reader_consume sample_reader = Some (n, None, r') \<and> 0 < n \<and> n \<le> 2571"
proof -
  have "string_wire (replicate 2571 0) = reader_contents sample_reader @ replicate 2571 0"
    by (simp add: sample_reader_ok be16_def)
  with decode_hints_are_lower_bounds [OF sample_reader_ok(1), of "replicate 2571 0" "replicate 2571 0"]
  show ?thesis by (simp add: uint16_max_def)
qed

text \<open>The hint for a vector is more than what is missing: for a vector of bytes of which some have
  not arrived, it is one more than their number.\<close>

theorem vector_hint_exceeds_missing:
  assumes "reader_ok others r" "reader_contents r = be16 n @ xs" "length xs < unat n"
  shows "\<exists>r'. decode_vector reader_consume (decode_u8 reader_consume) r =
    Some (Suc (unat n - length xs), None, r')"
proof -
  from cursor_source.readsD [OF cursor_source.reads_numbers(2) assms(1,2)] obtain r1 where
    r1: "decode_u16 reader_consume r = Some (0, Some n, r1)" "reader_contents r1 = xs" "reader_ok others r1"
    by blast
  define k where "k = unat n - length xs - 1"
  have "unat n = length xs + Suc k" using assms(3) by (simp add: k_def)
  moreover have "\<exists>n' r'. decode_elements (decode_u8 reader_consume) (length xs + Suc k) [] r1 =
      Some (n' + Suc k, None, r') \<and> 0 < n' \<and> n' \<le> length [0 :: byte]"
    by (rule cursor_source.short_vector [where w = "\<lambda>b. [b]" and v = "[0]" and p = "[]", OF
          cursor_source.reads_numbers(1) cursor_source.hints_numbers(1) r1(3)])
      (use r1(2) in simp_all)
  ultimately show ?thesis using r1(1) by (fastforce simp: decode_vector_def)
qed

lemma vector_hint_exceeds_missing_witness:
  "\<exists>r'. decode_vector reader_consume (decode_u8 reader_consume) sample_reader = Some (2572, None, r')"
  using vector_hint_exceeds_missing [OF sample_reader_ok(1), of 2571 "[]"]
  by (simp add: sample_reader_ok be16_def)

text \<open>Copying a buffer into another moves everything left in the first to the end of the second,
  for every reader of the second, when the cursor has no limit.\<close>

theorem EncodeToBuffer_moves_everything:
  assumes "readable s cur others" "oc_limited cur = None" "buf_inv d readers"
  shows "\<exists>s' cur' d'. encode_cursor s cur d = Some (True, s', cur', d') \<and> unread s' cur' = [] \<and>
    buf_inv s' (cur' # others) \<and> buf_inv d' readers \<and>
    (\<forall>c \<in> set readers. unread d' c = unread d c @ unread s cur)"
proof -
  let ?n = "length (unread s cur)"
  have left: "oc_left s cur = Some ?n"
    using left_size [of s cur others] assms(1,2) by (simp add: readable_def)
  note reserve = reserve_grows(1,2) [OF assms(3), of ?n]
  have chain: "chain_inv (ic_reserve d ?n) (map oc_prev readers)"
    using reserve(1) by (simp add: buf_inv_def)
  obtain s' cur' d' where copy: "encode_cursor_loop s cur (ic_reserve d ?n) = Some (s', cur', d')"
    "unread s' cur' = []" "buf_inv s' (cur' # others)" "chain_inv d' (map oc_prev readers)"
    "grows (ic_reserve d ?n) (unread s cur) d'"
    using copy_loop [OF assms(1,2) chain reserve_room] by blast
  have grow: "grows d (unread s cur) d'" using grows_trans [OF reserve(2) copy(5)] by simp
  have "buf_inv d' readers" by (rule buf_inv_grows [OF assms(3) copy(4) grow])
  moreover have "\<forall>c \<in> set readers. unread d' c = unread d c @ unread s cur"
    using grows_cursor(2) [OF grow] buf_inv_cur_ok [OF assms(3)] by blast
  ultimately show ?thesis using left copy(1-3) by (simp add: encode_cursor_def)
qed

lemma EncodeToBuffer_moves_everything_witness:
  "\<exists>s' cur' d'. encode_cursor sample_set sample_cursor sample_set = Some (True, s', cur', d') \<and>
    unread s' cur' = [] \<and> unread d' sample_cursor = [10, 11, 10, 11]"
  using EncodeToBuffer_moves_everything [OF sample_readable(1,3), of sample_set "[sample_cursor]"]
    sample_readable(1,2) by (auto simp: readable_def)

text \<open>With a limited cursor the same function aborts as soon as the limit falls inside a chunk: it
  copies and skips \<open>ContiguousSize()\<close> bytes, which does not take the limit into account.\<close>

theorem EncodeToBuffer_aborts_at_limit:
  assumes "readable s cur others" "oc_limited cur = Some l" "0 < l"
    "oc_contiguous s cur = Some h" "l < h"
  shows "encode_cursor s cur d = None"
proof -
  obtain bs rest where bs: "oc_data s cur = Some bs" "oc_contiguous s cur = Some (length bs)"
    "unread s cur = bs @ rest" using contiguous_data [OF assms(1)] by blast
  then have left: "oc_left s cur = Some l"
    using left_size [of s cur others] assms by (simp add: readable_def)
  then have "oc_increment s cur h = None" using assms(5) by (simp add: oc_increment_def)
  with left bs(1) assms(3,4) show ?thesis
    by (simp add: encode_cursor_def encode_cursor_loop.simps [of s] Option.bind_eq_None_conv)
qed

lemma EncodeToBuffer_aborts_at_limit_witness:
  "encode_cursor sample_set (sample_cursor\<lparr>oc_limited := Some 1\<rparr>) d = None"
proof (rule EncodeToBuffer_aborts_at_limit [of _ _ "[]" 1 2])
  show "readable sample_set (sample_cursor\<lparr>oc_limited := Some 1\<rparr>) []"
    using sample_readable(1)
    by (simp add: readable_def buf_inv_def)
  show "oc_contiguous sample_set (sample_cursor\<lparr>oc_limited := Some 1\<rparr>) = Some 2"
    by (simp add: oc_contiguous_def oc_chunks_def cs_after_def sample_set_def sample_cursor_def)
qed (simp_all add: sample_cursor_def)

end
