(* ===== verification/StdMap.thy ===== *)
theory StdMap
  imports Prelude "HOL-Library.List_Lexorder"
begin

text \<open>
  \<open>std::map\<close> as the program uses it: keys in ascending order, iteration in that order. A map is the
  list of its entries; the locale states what a client may rely on, and the interpretation shows that
  the operations on the list provide it.
\<close>

section \<open>The operations\<close>

type_synonym ('k, 'v) std_map = "('k \<times> 'v) list"

definition sm_find :: "('k, 'v) std_map \<Rightarrow> 'k \<Rightarrow> 'v option" where
  "sm_find m k = map_of m k"

text \<open>\<open>m[k] = v\<close>.\<close>

fun sm_set :: "'k::linorder \<Rightarrow> 'v \<Rightarrow> ('k, 'v) std_map \<Rightarrow> ('k, 'v) std_map" where
  "sm_set k v [] = [(k, v)]"
| "sm_set k v ((k', v') # m) =
     (if k < k' then (k, v) # (k', v') # m
      else if k = k' then (k, v) # m
      else (k', v') # sm_set k v m)"

definition sm_erase :: "'k \<Rightarrow> ('k, 'v) std_map \<Rightarrow> ('k, 'v) std_map" where
  "sm_erase k m = filter (\<lambda>e. fst e \<noteq> k) m"

definition sm_ok :: "('k::linorder, 'v) std_map \<Rightarrow> bool" where
  "sm_ok m \<longleftrightarrow> sorted_wrt (<) (map fst m)"

section \<open>The contract\<close>

locale map_contract =
  fixes empty :: 'm
    and find :: "'m \<Rightarrow> 'k \<Rightarrow> 'v option"
    and set_entry :: "'k \<Rightarrow> 'v \<Rightarrow> 'm \<Rightarrow> 'm"
    and erase :: "'k \<Rightarrow> 'm \<Rightarrow> 'm"
    and ok :: "'m \<Rightarrow> bool"
  assumes empty_ok: "ok empty" and find_empty: "find empty k = None"
    and set_ok: "ok m \<Longrightarrow> ok (set_entry k v m)"
    and find_set: "ok m \<Longrightarrow> find (set_entry k v m) = (find m)(k \<mapsto> v)"
    and erase_ok: "ok m \<Longrightarrow> ok (erase k m)"
    and find_erase: "ok m \<Longrightarrow> find (erase k m) = (find m)(k := None)"
begin

lemma find_set_same: "ok m \<Longrightarrow> find (set_entry k v m) k = Some v"
  by (simp add: find_set)

lemma find_set_other: "ok m \<Longrightarrow> k \<noteq> k' \<Longrightarrow> find (set_entry k v m) k' = find m k'"
  by (simp add: find_set)

lemma fold_set_ok: "ok m \<Longrightarrow> ok (fold (\<lambda>(k, v). set_entry k v) es m)"
  by (induction es arbitrary: m) (auto simp: set_ok split: prod.split)

lemma find_fold_set:
  "ok m \<Longrightarrow> find (fold (\<lambda>(k, v). set_entry k v) es m) = find m ++ map_of (rev es)"
proof (induction es arbitrary: m)
  case (Cons e es)
  obtain k v where e: "e = (k, v)" by (cases e)
  have "find m ++ map_of (rev es @ [(k, v)]) = (find m)(k \<mapsto> v) ++ map_of (rev es)"
    by (rule ext) (auto simp: map_add_def split: option.splits)
  with Cons.IH [OF set_ok [OF Cons.prems]] Cons.prems e find_set show ?case by (simp add: fun_upd_def)
qed simp

lemma find_fold_set_distinct:
  assumes "distinct (map fst es)"
  shows "find (fold (\<lambda>(k, v). set_entry k v) es empty) = map_of es"
proof -
  have "map_of (rev es) = map_of es"
    using assms by (subst map_of_inject_set) (simp_all flip: rev_map)
  moreover have "find empty = Map.empty" using find_empty by auto
  ultimately show ?thesis by (simp add: find_fold_set [OF empty_ok])
qed

end

section \<open>The list of entries fulfils it\<close>

lemma sm_ok_Cons: "sm_ok ((k, v) # m) \<longleftrightarrow> (\<forall>k' \<in> fst ` set m. k < k') \<and> sm_ok m"
  by (auto simp: sm_ok_def)

lemma sm_set_keys: "fst ` set (sm_set k v m) = insert k (fst ` set m)"
  by (induction k v m rule: sm_set.induct) auto

lemma sm_set_ok: "sm_ok m \<Longrightarrow> sm_ok (sm_set k v m)"
proof (induction k v m rule: sm_set.induct)
  case (2 k v k' v' m)
  then show ?case by (auto simp: sm_ok_Cons sm_set_keys not_less order.strict_trans)
qed (simp add: sm_ok_def)

lemma sm_find_set: "sm_find (sm_set k v m) = (sm_find m)(k \<mapsto> v)"
  by (induction k v m rule: sm_set.induct) (auto simp: sm_find_def fun_eq_iff)

lemma sm_erase_ok: "sm_ok m \<Longrightarrow> sm_ok (sm_erase k m)"
  unfolding sm_ok_def sm_erase_def by (induction m) auto

lemma sm_find_erase: "sm_find (sm_erase k m) = (sm_find m)(k := None)"
  by (induction m) (auto simp: sm_find_def sm_erase_def fun_eq_iff)

interpretation std_map: map_contract "[] :: ('k::linorder, 'v) std_map" sm_find sm_set sm_erase sm_ok
  by unfold_locales (simp_all add: sm_set_ok sm_find_set sm_erase_ok sm_find_erase, simp_all add: sm_ok_def sm_find_def)

text \<open>Two ordered maps with the same entries are the same.\<close>

lemma sm_ok_distinct: "sm_ok m \<Longrightarrow> distinct (map fst m)"
  by (auto simp: sm_ok_def strict_sorted_iff)

lemma sm_ok_eqI:
  assumes "sm_ok m" "sm_ok m'" "sm_find m = sm_find m'"
  shows "m = m'"
proof -
  have "set m = set m'"
    using assms map_of_inject_set [OF sm_ok_distinct sm_ok_distinct, of m m']
    by (simp add: sm_find_def [abs_def])
  moreover have "sorted (map fst m)" "sorted (map fst m')" "distinct (map fst m)" "distinct (map fst m')"
    using assms by (auto simp: sm_ok_def strict_sorted_iff)
  ultimately show ?thesis
    by (intro map_sorted_distinct_set_unique [where f = fst])
      (auto simp: inj_on_def distinct_map)
qed

end
