(* ===== verification/UserDb.thy ===== *)
theory UserDb
  imports StdMap Base64
begin

text \<open>
  \<open>src/src/userdb.cc\<close>: the file of users and their secrets, one \<open>name:base64(secret)\<close> line per user,
  read into a map when it is opened and written back by \<open>Commit\<close>.

  The object is \<open>fd_ \<ge> 0\<close> and the map; the contents of the file belong to the environment. What the
  kernel answers (whether \<open>open\<close> and the lock succeed, how \<open>read\<close> splits the file, what \<open>write\<close> accepts)
  are arguments.
\<close>

section \<open>Parsing\<close>

datatype parse_state = END_OF_RECORD | PARSING_USERNAME | PARSING_SECRET

record parser =
  pa_state :: parse_state
  pa_username :: bytes
  pa_secret :: bytes
  pa_users :: "(bytes, bytes) std_map"

definition ch_colon :: byte where "ch_colon = of_char (CHR '':'')"
definition ch_eol :: byte where "ch_eol = of_char (CHR ''\<newline>'')"

text \<open>\<open>Base64Decode\<close>'s result is not looked at: what it could decode becomes the secret.\<close>

definition store_user :: "parser \<Rightarrow> parser" where
  "store_user p = p\<lparr>pa_users := sm_set (pa_username p) (snd (Base64Decode (pa_secret p) [])) (pa_users p)\<rparr>"

text \<open>The part of \<open>PARSING_SECRET\<close>: up to the end of the line, or the rest of what was read.\<close>

definition parse_secret :: "parser \<Rightarrow> bytes \<Rightarrow> parser \<times> bytes" where
  "parse_secret p cursor =
     (if ch_eol \<notin> set cursor
      then (p\<lparr>pa_state := PARSING_SECRET, pa_secret := pa_secret p @ cursor\<rparr>, [])
      else ((store_user (p\<lparr>pa_state := END_OF_RECORD,
               pa_secret := pa_secret p @ takeWhile (\<lambda>c. c \<noteq> ch_eol) cursor\<rparr>))
              \<lparr>pa_secret := [], pa_username := []\<rparr>,
            tl (dropWhile (\<lambda>c. c \<noteq> ch_eol) cursor)))"

definition parse_switch :: "parser \<Rightarrow> bytes \<Rightarrow> parser \<times> bytes" where
  "parse_switch p cursor =
     (case pa_state p of
        PARSING_SECRET \<Rightarrow> parse_secret p cursor
      | _ \<Rightarrow>
          (if ch_colon \<notin> set cursor
           then (p\<lparr>pa_state := PARSING_USERNAME, pa_username := pa_username p @ cursor\<rparr>, [])
           else parse_secret
                  (p\<lparr>pa_username := pa_username p @ takeWhile (\<lambda>c. c \<noteq> ch_colon) cursor\<rparr>)
                  (tl (dropWhile (\<lambda>c. c \<noteq> ch_colon) cursor))))"

lemma parse_secret_shorter: "length (snd (parse_secret p cursor)) \<le> length cursor"
  using length_dropWhile_le [of "\<lambda>c. c \<noteq> ch_eol" cursor] by (auto simp: parse_secret_def)

lemma tl_dropWhile_shorter: "xs \<noteq> [] \<Longrightarrow> length (tl (dropWhile P xs)) < length xs"
  using length_dropWhile_le [of P xs] by (cases xs) auto

lemma parse_switch_shorter: "cursor \<noteq> [] \<Longrightarrow> length (snd (parse_switch p cursor)) < length cursor"
  using le_less_trans [OF parse_secret_shorter tl_dropWhile_shorter]
    tl_dropWhile_shorter [of cursor "\<lambda>c. c \<noteq> ch_eol"]
  by (auto simp: parse_switch_def parse_secret_def split: parse_state.split)

function parse_chunk :: "parser \<Rightarrow> bytes \<Rightarrow> parser" where
  "parse_chunk p cursor =
     (if cursor = [] then p
      else (case parse_switch p cursor of (p, cursor) \<Rightarrow> parse_chunk p cursor))"
  by pat_completeness auto
termination
proof (relation "measure (\<lambda>(p, cursor). length cursor)")
  fix p cursor p' cursor'
  assume "cursor \<noteq> []" "(p', cursor') = parse_switch p cursor"
  then show "((p', cursor'), p, cursor) \<in> measure (\<lambda>(p, cursor). length cursor)"
    using parse_switch_shorter [of cursor p] by (cases "parse_switch p cursor") simp
qed simp

declare parse_chunk.simps [simp del]

text \<open>What \<open>read\<close> returns: data, nothing with \<open>EAGAIN\<close>, or another error. The end of the list is the
  end of the file, and so is an empty read.\<close>

datatype read_result = Read_data bytes | Read_again | Read_error

fun parse_reads :: "parser \<Rightarrow> read_result list \<Rightarrow> parser" where
  "parse_reads p [] = p"
| "parse_reads p (Read_again # rs) = parse_reads p rs"
| "parse_reads p (Read_error # rs) = p"
| "parse_reads p (Read_data d # rs) = (if d = [] then p else parse_reads (parse_chunk p d) rs)"

definition parse_end :: "parser \<Rightarrow> bool \<times> (bytes, bytes) std_map" where
  "parse_end p =
     (case pa_state p of
        PARSING_SECRET \<Rightarrow> (True, pa_users (store_user p))
      | END_OF_RECORD \<Rightarrow> (True, pa_users p)
      | PARSING_USERNAME \<Rightarrow> (False, pa_users p))"

definition ParseFd ::
    "read_result list \<Rightarrow> (bytes, bytes) std_map \<Rightarrow> bool \<times> (bytes, bytes) std_map" where
  "ParseFd reads users = parse_end (parse_reads
     \<lparr>pa_state = END_OF_RECORD, pa_username = [], pa_secret = [], pa_users = users\<rparr> reads)"

section \<open>The database object\<close>

record udb =
  udb_open :: bool                      \<comment> \<open>\<open>fd_ \<ge> 0\<close>\<close>
  udb_users :: "(bytes, bytes) std_map"

definition udb_new :: udb where
  "udb_new = \<lparr>udb_open = False, udb_users = []\<rparr>"

definition udb_Close :: "udb \<Rightarrow> bool \<times> udb" where
  "udb_Close u = (True, \<lparr>udb_open = False, udb_users = []\<rparr>)"

text \<open>\<open>fcntl(F_SETLK)\<close>: the lock is ours, held by another process, or some other error.\<close>

datatype lock_result = Lock_ok | Lock_again | Lock_error

definition udb_Open :: "bool \<Rightarrow> lock_result \<Rightarrow> read_result list \<Rightarrow> udb \<Rightarrow> (bool \<times> udb) option" where
  "udb_Open opened lock reads u = do {
     fatal_unless (\<not> udb_open u);
     (if \<not> opened then Some (False, u)
      else
        let u = u\<lparr>udb_open := True\<rparr>
        in if lock = Lock_again then Some (False, u)
           else
             (case ParseFd reads (udb_users u) of
                (True, users) \<Rightarrow> Some (True, u\<lparr>udb_users := users\<rparr>)
              | (False, users) \<Rightarrow> Some (False, snd (udb_Close (u\<lparr>udb_users := users\<rparr>)))))
   }"

definition DelUser :: "bytes \<Rightarrow> udb \<Rightarrow> bool \<times> udb" where
  "DelUser username u =
     (if \<not> udb_open u then (False, u)
      else if sm_find (udb_users u) username = None then (False, u)
      else (True, u\<lparr>udb_users := sm_erase username (udb_users u)\<rparr>))"

definition SetUser :: "bytes \<Rightarrow> bytes \<Rightarrow> udb \<Rightarrow> bool \<times> udb" where
  "SetUser username secret u =
     (if \<not> udb_open u then (False, u)
      else if sm_find (udb_users u) username = None then (False, u)
      else (True, u\<lparr>udb_users := sm_set username secret (udb_users u)\<rparr>))"

definition AddUser :: "bytes \<Rightarrow> bytes \<Rightarrow> udb \<Rightarrow> bool \<times> udb" where
  "AddUser username secret u =
     (if \<not> udb_open u then (False, u)
      else if sm_find (udb_users u) username \<noteq> None then (False, u)
      else (True, u\<lparr>udb_users := sm_set username secret (udb_users u)\<rparr>))"

definition GetUser :: "bytes \<Rightarrow> udb \<Rightarrow> bool \<times> bytes option" where
  "GetUser username u =
     (if \<not> udb_open u then (False, None)
      else (case sm_find (udb_users u) username of
              None \<Rightarrow> (False, None)
            | Some secret \<Rightarrow> (True, Some secret)))"

text \<open>
  \<open>Commit\<close> truncates the file and writes every entry with four calls of \<open>write\<close>, whose results are
  ignored. \<open>wr file data\<close> is the file after \<open>write\<close>.
\<close>

fun commit_entries :: "(bytes \<Rightarrow> bytes \<Rightarrow> bytes) \<Rightarrow> (bytes, bytes) std_map \<Rightarrow> bytes \<Rightarrow> bytes" where
  "commit_entries wr [] file = file"
| "commit_entries wr ((name, secret) # es) file =
     commit_entries wr es
       (wr (wr (wr (wr file name) [ch_colon]) (Base64Encode secret [])) [ch_eol])"

definition Commit :: "(bytes \<Rightarrow> bytes \<Rightarrow> bytes) \<Rightarrow> udb \<Rightarrow> bytes \<Rightarrow> bool \<times> bytes" where
  "Commit wr u file =
     (if \<not> udb_open u then (False, file)
      else (True, commit_entries wr (udb_users u) []))"

definition ValidUsername :: "bytes \<Rightarrow> bool" where
  "ValidUsername username \<longleftrightarrow> \<not> (ch_colon \<in> set username \<or> ch_eol \<in> set username)"

section \<open>The parser reads a byte at a time\<close>

text \<open>
  Splitting the file differently makes no difference: the loop over the pieces is the fold of one
  automaton over the bytes.
\<close>

definition parse_byte :: "parser \<Rightarrow> byte \<Rightarrow> parser" where
  "parse_byte p c =
     (if pa_state p = PARSING_SECRET
      then (if c = ch_eol
            then (store_user (p\<lparr>pa_state := END_OF_RECORD\<rparr>))\<lparr>pa_secret := [], pa_username := []\<rparr>
            else p\<lparr>pa_secret := pa_secret p @ [c]\<rparr>)
      else (if c = ch_colon then p\<lparr>pa_state := PARSING_SECRET\<rparr>
            else p\<lparr>pa_state := PARSING_USERNAME, pa_username := pa_username p @ [c]\<rparr>))"

lemma split_at: "c \<in> set xs \<Longrightarrow> xs = takeWhile (\<lambda>d. d \<noteq> c) xs @ c # tl (dropWhile (\<lambda>d. d \<noteq> c) xs)"
  by (induction xs) auto

lemma bytes_of_secret:
  "pa_state p = PARSING_SECRET \<Longrightarrow> ch_eol \<notin> set xs \<Longrightarrow>
    foldl parse_byte p xs = p\<lparr>pa_secret := pa_secret p @ xs\<rparr>"
  by (induction xs arbitrary: p) (auto simp: parse_byte_def)

lemma bytes_of_username:
  "pa_state p \<noteq> PARSING_SECRET \<Longrightarrow> ch_colon \<notin> set xs \<Longrightarrow> xs \<noteq> [] \<Longrightarrow>
    foldl parse_byte p xs = p\<lparr>pa_state := PARSING_USERNAME, pa_username := pa_username p @ xs\<rparr>"
proof (induction xs arbitrary: p)
  case (Cons c xs)
  then show ?case by (cases "xs = []") (auto simp: parse_byte_def)
qed simp

lemma parse_secret_bytes:
  "foldl parse_byte (fst (parse_secret p cursor)) (snd (parse_secret p cursor)) =
    foldl parse_byte (p\<lparr>pa_state := PARSING_SECRET\<rparr>) cursor"
proof (cases "ch_eol \<in> set cursor")
  case True
  let ?pre = "takeWhile (\<lambda>d. d \<noteq> ch_eol) cursor" and ?post = "tl (dropWhile (\<lambda>d. d \<noteq> ch_eol) cursor)"
  have "ch_eol \<notin> set ?pre" by (auto dest: set_takeWhileD)
  then have "foldl parse_byte (p\<lparr>pa_state := PARSING_SECRET\<rparr>) (?pre @ ch_eol # ?post) =
      foldl parse_byte (fst (parse_secret p cursor)) ?post"
    using True by (simp add: bytes_of_secret parse_byte_def parse_secret_def store_user_def)
  with True show ?thesis
    by (subst (2) split_at [OF True]) (simp add: parse_secret_def)
next
  case False
  then show ?thesis by (simp add: parse_secret_def bytes_of_secret)
qed

lemma parse_switch_bytes:
  assumes "cursor \<noteq> []"
  shows "foldl parse_byte (fst (parse_switch p cursor)) (snd (parse_switch p cursor)) =
    foldl parse_byte p cursor"
proof (cases "pa_state p = PARSING_SECRET")
  case True
  then have same: "p\<lparr>pa_state := PARSING_SECRET\<rparr> = p" by simp
  show ?thesis using parse_secret_bytes [of p cursor] True unfolding same by (simp add: parse_switch_def)
next
  case state: False
  show ?thesis
  proof (cases "ch_colon \<in> set cursor")
    case True
    let ?pre = "takeWhile (\<lambda>d. d \<noteq> ch_colon) cursor" and ?post = "tl (dropWhile (\<lambda>d. d \<noteq> ch_colon) cursor)"
    let ?p = "p\<lparr>pa_username := pa_username p @ ?pre\<rparr>"
    have pre: "ch_colon \<notin> set ?pre" by (auto dest: set_takeWhileD)
    have "parse_byte (foldl parse_byte p ?pre) ch_colon = ?p\<lparr>pa_state := PARSING_SECRET\<rparr>"
      using bytes_of_username [OF state pre] state by (cases "?pre = []") (simp_all add: parse_byte_def)
    then have "foldl parse_byte p cursor = foldl parse_byte (?p\<lparr>pa_state := PARSING_SECRET\<rparr>) ?post"
      by (subst split_at [OF True]) simp
    also have "\<dots> = foldl parse_byte (fst (parse_secret ?p ?post)) (snd (parse_secret ?p ?post))"
      by (rule parse_secret_bytes [symmetric])
    finally show ?thesis
      using True state by (simp add: parse_switch_def split: parse_state.split)
  next
    case False
    with state assms show ?thesis
      by (simp add: parse_switch_def bytes_of_username split: parse_state.split)
  qed
qed

lemma parse_chunk_bytes: "parse_chunk p cursor = foldl parse_byte p cursor"
proof (induction p cursor rule: parse_chunk.induct)
  case (1 p cursor)
  show ?case
  proof (cases "cursor = []")
    case False
    obtain p' cursor' where eq: "parse_switch p cursor = (p', cursor')" by fastforce
    then have "parse_chunk p' cursor' = foldl parse_byte p' cursor'"
      by (intro 1 [OF False]) simp_all
    with parse_switch_bytes [OF False, of p] eq False show ?thesis
      by (simp add: parse_chunk.simps [of p])
  qed (simp add: parse_chunk.simps)
qed

section \<open>Reading back what was written\<close>

fun reads_ok :: "read_result list \<Rightarrow> bool" where
  "reads_ok [] \<longleftrightarrow> True"
| "reads_ok (Read_data d # rs) \<longleftrightarrow> d \<noteq> [] \<and> reads_ok rs"
| "reads_ok (Read_again # rs) \<longleftrightarrow> reads_ok rs"
| "reads_ok (Read_error # rs) \<longleftrightarrow> False"

fun read_bytes :: "read_result list \<Rightarrow> bytes" where
  "read_bytes [] = []"
| "read_bytes (Read_data d # rs) = d @ read_bytes rs"
| "read_bytes (_ # rs) = read_bytes rs"

definition parser_start :: "(bytes, bytes) std_map \<Rightarrow> parser" where
  "parser_start users = \<lparr>pa_state = END_OF_RECORD, pa_username = [], pa_secret = [], pa_users = users\<rparr>"

lemma parse_reads_bytes: "reads_ok rs \<Longrightarrow> parse_reads p rs = foldl parse_byte p (read_bytes rs)"
  by (induction p rs rule: parse_reads.induct) (simp_all add: parse_chunk_bytes)

lemma ParseFd_bytes:
  "reads_ok rs \<Longrightarrow> ParseFd rs users = parse_end (foldl parse_byte (parser_start users) (read_bytes rs))"
  by (simp add: ParseFd_def parse_reads_bytes parser_start_def)

definition user_line :: "bytes \<times> bytes \<Rightarrow> bytes" where
  "user_line e = fst e @ [ch_colon] @ Base64Encode (snd e) [] @ [ch_eol]"

lemma user_line_parsed:
  assumes "ValidUsername (fst e)"
  shows "foldl parse_byte (parser_start users) (user_line e) = parser_start (sm_set (fst e) (snd e) users)"
proof -
  have name: "foldl parse_byte (parser_start users) (fst e @ [ch_colon]) =
      (parser_start users)\<lparr>pa_state := PARSING_SECRET, pa_username := fst e\<rparr>"
    using assms bytes_of_username [of "parser_start users" "fst e"]
    by (cases "fst e = []") (simp_all add: parser_start_def ValidUsername_def parse_byte_def)
  have "ch_eol \<notin> set (Base64Encode (snd e) [])"
    using Base64Encode_clean(1) by (simp add: ch_eol_def)
  then have "foldl parse_byte (parser_start users) ((fst e @ [ch_colon]) @ Base64Encode (snd e) []) =
      (parser_start users)\<lparr>pa_state := PARSING_SECRET, pa_username := fst e,
        pa_secret := Base64Encode (snd e) []\<rparr>"
    by (subst foldl_append, subst name) (simp add: bytes_of_secret parser_start_def)
  then show ?thesis
    by (simp add: user_line_def parse_byte_def store_user_def Base64_roundtrip parser_start_def)
qed

lemma user_lines_parsed:
  "list_all (\<lambda>e. ValidUsername (fst e)) es \<Longrightarrow>
    foldl parse_byte (parser_start users) (concat (map user_line es)) =
      parser_start (fold (\<lambda>(k, v). sm_set k v) es users)"
  by (induction es arbitrary: users) (simp_all add: user_line_parsed split_beta)

lemma commit_entries_lines:
  assumes "\<And>old data. wr old data = old @ data"
  shows "commit_entries wr es old = old @ concat (map user_line es)"
  by (induction es arbitrary: old) (auto simp: assms user_line_def)

lemma sm_rebuild:
  fixes es :: "(bytes, bytes) std_map"
  assumes "sm_ok es"
  shows "fold (\<lambda>(k, v). sm_set k v) es [] = es"
proof (rule sm_ok_eqI)
  show "sm_ok (fold (\<lambda>(k, v). sm_set k v) es [])"
    by (rule std_map.fold_set_ok [OF std_map.empty_ok])
  show "sm_find (fold (\<lambda>(k, v). sm_set k v) es []) = sm_find es"
    using std_map.find_fold_set_distinct [OF sm_ok_distinct [OF assms]] by (simp add: sm_find_def [abs_def])
qed (rule assms)

text \<open>A file with a line for each entry is read back as those entries.\<close>

lemma user_file_parsed:
  assumes "sm_ok es" "list_all (\<lambda>e. ValidUsername (fst e)) es" "reads_ok rs" "read_bytes rs = concat (map user_line es)"
  shows "ParseFd rs [] = (True, es)"
  using user_lines_parsed [OF assms(2), of "[]"] sm_rebuild [OF assms(1)] assms(3,4)
  by (simp add: ParseFd_bytes parse_end_def parser_start_def)

section \<open>Properties\<close>



text \<open>C21. If every \<open>write\<close> accepts its data, \<open>Commit\<close> of a database whose user names are valid leaves a
  file from which \<open>ParseFd\<close> rebuilds exactly the same database.\<close>

theorem Commit_then_ParseFd:
  assumes "udb_open u" "sm_ok (udb_users u)" "list_all (\<lambda>e. ValidUsername (fst e)) (udb_users u)"
    "\<And>file data. wr file data = file @ data" "reads_ok rs" "read_bytes rs = snd (Commit wr u old)"
  shows "fst (Commit wr u old) \<and> ParseFd rs [] = (True, udb_users u)"
proof -
  have "snd (Commit wr u old) = concat (map user_line (udb_users u))"
    using assms(1) commit_entries_lines [OF assms(4)] by (simp add: Commit_def)
  with user_file_parsed [OF assms(2,3,5)] assms(1,6) show ?thesis by (simp add: Commit_def)
qed

lemma Commit_then_ParseFd_witness:
  "\<exists>file. Commit (@) \<lparr>udb_open = True, udb_users = [([97], [1, 2]), ([98], [])]\<rparr> [7] = (True, file) \<and>
    ParseFd [Read_data file] [] = (True, [([97], [1, 2]), ([98], [])])"
proof -
  let ?u = "\<lparr>udb_open = True, udb_users = [([97], [1, 2]), ([98], [])]\<rparr> :: udb"
  let ?file = "snd (Commit (@) ?u [7])"
  have "sm_ok (udb_users ?u)" "list_all (\<lambda>e. ValidUsername (fst e)) (udb_users ?u)"
    by (simp_all add: sm_ok_def ValidUsername_def ch_colon_def ch_eol_def)
  moreover have "reads_ok [Read_data ?file]" "read_bytes [Read_data ?file] = ?file"
    by (simp_all add: Commit_def)
  ultimately have "fst (Commit (@) ?u [7]) \<and> ParseFd [Read_data ?file] [] = (True, udb_users ?u)"
    by (intro Commit_then_ParseFd [where u = ?u]) simp_all
  then show ?thesis by (intro exI [of _ ?file]) (simp add: prod_eq_iff)
qed

text \<open>C36. On an open database the four operations are those of a map, report whether they applied,
  change nothing when they did not, and keep the entries in order.\<close>

theorem user_operations_are_map_operations:
  assumes "udb_open u" "sm_ok (udb_users u)"
  shows "GetUser name u = (sm_find (udb_users u) name \<noteq> None, sm_find (udb_users u) name) \<and>
    (case AddUser name secret u of (r, u') \<Rightarrow>
       sm_ok (udb_users u') \<and> r = (sm_find (udb_users u) name = None) \<and>
       sm_find (udb_users u') = (if r then (sm_find (udb_users u))(name \<mapsto> secret) else sm_find (udb_users u))) \<and>
    (case SetUser name secret u of (r, u') \<Rightarrow>
       sm_ok (udb_users u') \<and> r = (sm_find (udb_users u) name \<noteq> None) \<and>
       sm_find (udb_users u') = (if r then (sm_find (udb_users u))(name \<mapsto> secret) else sm_find (udb_users u))) \<and>
    (case DelUser name u of (r, u') \<Rightarrow>
       sm_ok (udb_users u') \<and> r = (sm_find (udb_users u) name \<noteq> None) \<and>
       sm_find (udb_users u') = (sm_find (udb_users u))(name := None))"
  using assms
  by (simp add: GetUser_def AddUser_def SetUser_def DelUser_def std_map.set_ok std_map.erase_ok
      std_map.find_set std_map.find_erase fun_upd_idem split: option.split)

lemma user_operations_are_map_operations_witness:
  "GetUser [97] \<lparr>udb_open = True, udb_users = [([97], [1])]\<rparr> = (True, Some [1])"
  using user_operations_are_map_operations [of "\<lparr>udb_open = True, udb_users = [([97], [1])]\<rparr>" "[97]"]
  by (simp add: sm_ok_def sm_find_def)

text \<open>When another process holds the lock, \<open>Open\<close> fails but leaves the descriptor open and the map
  empty: a \<open>Commit\<close> that follows truncates the file under the other process and succeeds.\<close>

theorem Open_without_lock_then_Commit_empties:
  "\<exists>u. udb_Open True Lock_again reads udb_new = Some (False, u) \<and> Commit wr u file = (True, [])"
  by (simp add: udb_Open_def udb_new_def Commit_def Let_def)

end
