(* ===== verification/Text.thy ===== *)
theory Text
  imports Prelude
begin

text \<open>
  Numbers as text: \<open>ToString\<close> and \<open>FromString\<close> of \<open>src/src/conversions.h\<close> at the types the program uses
  them with, and \<open>strtol\<close> in base ten.
\<close>

definition ch_digit :: "nat \<Rightarrow> byte" where
  "ch_digit d = of_nat (48 + d)"

definition is_digit :: "byte \<Rightarrow> bool" where
  "is_digit c \<longleftrightarrow> 48 \<le> c \<and> c \<le> 57"

definition digit_value :: "byte \<Rightarrow> nat" where
  "digit_value c = unat c - 48"

definition is_space_char :: "byte \<Rightarrow> bool" where
  "is_space_char c \<longleftrightarrow> c = 32 \<or> 9 \<le> c \<and> c \<le> 13"

section \<open>Printing\<close>

text \<open>\<open>stringstream << n\<close> for an unsigned number.\<close>

fun ToString_nat :: "nat \<Rightarrow> bytes" where
  "ToString_nat n = (if n < 10 then [ch_digit n] else ToString_nat (n div 10) @ [ch_digit (n mod 10)])"

declare ToString_nat.simps [simp del]

text \<open>\<open>%d\<close>, and \<open>ostream << n\<close> for a signed number.\<close>

definition decimal :: "int \<Rightarrow> bytes" where
  "decimal i = (if i < 0 then str ''-'' @ ToString_nat (nat (- i)) else ToString_nat (nat i))"

section \<open>Parsing\<close>

definition digits_value :: "bytes \<Rightarrow> nat" where
  "digits_value ds = foldl (\<lambda>v c. 10 * v + digit_value c) 0 ds"

text \<open>White space, then an optional sign, then digits: the sign, the digits and what follows them.\<close>

definition scan_number :: "bytes \<Rightarrow> bool \<times> bytes \<times> bytes" where
  "scan_number s =
     (let s = dropWhile is_space_char s;
          neg = (case s of c # _ \<Rightarrow> c = of_char (CHR ''-'') | [] \<Rightarrow> False);
          s = (case s of c # s' \<Rightarrow> if c = of_char (CHR ''-'') \<or> c = of_char (CHR ''+'') then s' else s | [] \<Rightarrow> [])
      in (neg, takeWhile is_digit s, dropWhile is_digit s))"

text \<open>
  \<open>strtol(value, &endptr, 10)\<close>: the value, held to the range of a 64-bit \<open>long\<close>, and the text at
  \<open>endptr\<close>, which is the whole text when there is no number.
\<close>

definition strtol10 :: "bytes \<Rightarrow> int \<times> bytes" where
  "strtol10 s =
     (case scan_number s of (neg, ds, rest) \<Rightarrow>
        if ds = [] then (0, s)
        else (let v = int (digits_value ds) in
              ((if neg then max (- (2 ^ 63)) (- v) else min (2 ^ 63 - 1) v), rest)))"

text \<open>
  \<open>FromString(s, &port)\<close> for a \<open>uint16_t\<close>: the extraction fails without a digit and on overflow; a
  minus sign negates in the unsigned type. What follows the number is not looked at.
\<close>

definition FromString_u16 :: "bytes \<Rightarrow> u16 option" where
  "FromString_u16 s =
     (case scan_number s of (neg, ds, rest) \<Rightarrow>
        if ds = [] \<or> 65535 < digits_value ds then None
        else Some (if neg then - of_nat (digits_value ds) else of_nat (digits_value ds)))"

section \<open>A printed number is read back\<close>

lemma digit_facts:
  assumes "d < 10"
  shows "is_digit (ch_digit d)" "digit_value (ch_digit d) = d" "\<not> is_space_char (ch_digit d)"
    "ch_digit d \<noteq> of_char (CHR ''-'')" "ch_digit d \<noteq> of_char (CHR ''+'')" "ch_digit d \<noteq> of_char (CHR ''/'')"
    "ch_digit d \<noteq> 0"
proof -
  have u: "unat (ch_digit d) = 48 + d"
    using assms unfolding ch_digit_def unat_of_nat by simp
  then show "digit_value (ch_digit d) = d" by (simp add: digit_value_def)
  show "is_digit (ch_digit d)" "\<not> is_space_char (ch_digit d)"
    using assms u by (auto simp: is_digit_def is_space_char_def word_le_nat_alt word_unat_eq_iff)
  show "ch_digit d \<noteq> of_char (CHR ''-'')" "ch_digit d \<noteq> of_char (CHR ''+'')" "ch_digit d \<noteq> of_char (CHR ''/'')"
    "ch_digit d \<noteq> 0"
    using u by (auto simp: word_unat_eq_iff)
qed

lemma ToString_digits: "\<exists>d. d < 10 \<and> hd (ToString_nat n) = ch_digit d" "ToString_nat n \<noteq> []"
  "list_all is_digit (ToString_nat n)"
proof -
  show "\<exists>d. d < 10 \<and> hd (ToString_nat n) = ch_digit d"
  proof (induction n rule: ToString_nat.induct)
    case (1 n)
    then show ?case
      by (cases "n < 10") (auto simp: ToString_nat.simps [of n] hd_append ToString_nat.simps [of "n div 10"])
  qed
  show "ToString_nat n \<noteq> []" by (simp add: ToString_nat.simps)
  show "list_all is_digit (ToString_nat n)"
    by (induction n rule: ToString_nat.induct) (simp add: ToString_nat.simps digit_facts)
qed

lemma digits_value_snoc: "digits_value (ds @ [c]) = 10 * digits_value ds + digit_value c"
  by (simp add: digits_value_def)

lemma digits_value_ToString: "digits_value (ToString_nat n) = n"
proof (induction n rule: ToString_nat.induct)
  case (1 n)
  show ?case
  proof (cases "n < 10")
    case True
    then show ?thesis
      using digits_value_snoc [of "[]"] by (simp add: ToString_nat.simps digit_facts) (simp add: digits_value_def)
  next
    case False
    with 1 show ?thesis
      by (simp add: ToString_nat.simps [of n] digits_value_snoc digit_facts)
  qed
qed

lemma scan_ToString:
  assumes "rest = [] \<or> \<not> is_digit (hd rest)"
  shows "scan_number (ToString_nat n @ rest) = (False, ToString_nat n, rest)"
proof -
  obtain c cs where eq: "ToString_nat n = c # cs" using ToString_digits(2) by (cases "ToString_nat n") auto
  then obtain d where d: "d < 10" "c = ch_digit d" using ToString_digits(1) [of n] by auto
  have all: "list_all is_digit (c # cs)" using ToString_digits(3) [of n] eq by simp
  then have "takeWhile is_digit ((c # cs) @ rest) = c # cs" "dropWhile is_digit ((c # cs) @ rest) = rest"
    using assms by (cases rest; auto simp: list_all_iff takeWhile_append dropWhile_append)+
  then show ?thesis
    using d digit_facts [OF d(1)] by (simp add: scan_number_def eq Let_def)
qed

lemma strtol10_ToString:
  assumes "n < 2 ^ 63" "rest = [] \<or> \<not> is_digit (hd rest)"
  shows "strtol10 (ToString_nat n @ rest) = (int n, rest)"
  using assms by (simp add: strtol10_def scan_ToString ToString_digits digits_value_ToString Let_def)

lemma unat_u16_less: "unat (p :: u16) < 65536"
proof -
  have "unat p < 2 ^ LENGTH(16)" by (rule unsigned_less)
  then show ?thesis by simp
qed

lemma FromString_u16_ToString: "FromString_u16 (ToString_nat (unat p)) = Some p"
  using scan_ToString [of "[]" "unat p"] unat_u16_less [of p]
  by (simp add: FromString_u16_def ToString_digits digits_value_ToString)

lemma ToString_no: "\<not> is_digit c \<Longrightarrow> c \<notin> set (ToString_nat n)"
  using ToString_digits(3) [of n] by (auto simp: list_all_iff)

lemma not_digits:
  "\<not> is_digit (of_char (CHR ''/''))" "\<not> is_digit (of_char (CHR '':''))"
  "\<not> is_digit (of_char (CHR '']''))" "\<not> is_digit (of_char (CHR ''[''))"
  by (simp_all add: is_digit_def)

end
