(* ===== verification/IpAddresses.thy ===== *)
theory IpAddresses
  imports Text
begin

text \<open>
  \<open>src/src/ip-addresses.h\<close> and \<open>.cc\<close>: addresses of both families, the arithmetic on them, and ranges of
  addresses in CIDR notation. An address holds the numbers \<open>ntohl\<close> gives for its 32-bit parts.

  \<open>inet_pton\<close> and \<open>inet_ntop\<close> are library functions: the parameters \<open>pton4\<close>, \<open>pton6\<close> and \<open>ntop\<close>.
\<close>

section \<open>Addresses\<close>

datatype ip_address =
    IPv4Address u32
  | IPv6Address u32 u32 u32 u32

datatype sa_family = AF_INET | AF_INET6 | AF_LOCAL | AF_OTHER

fun ip_Family :: "ip_address \<Rightarrow> sa_family" where
  "ip_Family (IPv4Address a) = AF_INET"
| "ip_Family (IPv6Address a b c d) = AF_INET6"

text \<open>The number of bits.\<close>

fun ip_Length :: "ip_address \<Rightarrow> int" where
  "ip_Length (IPv4Address a) = 32"
| "ip_Length (IPv6Address a b c d) = 128"

text \<open>The loop over the parts of an IPv6 address, the last one first.\<close>

fun increment_parts :: "u32 list \<Rightarrow> u32 \<Rightarrow> u32 list" where
  "increment_parts [] amount = []"
| "increment_parts (p # ps) amount =
     (let newvalue = p + amount
      in if newvalue \<ge> p then newvalue # ps else newvalue # increment_parts ps 1)"

fun ip_Increment :: "ip_address \<Rightarrow> u32 \<Rightarrow> ip_address" where
  "ip_Increment (IPv4Address a) amount = IPv4Address (a + amount)"
| "ip_Increment (IPv6Address a b c d) amount =
     (case increment_parts [d, c, b, a] amount of
        [d', c', b', a'] \<Rightarrow> IPv6Address a' b' c' d'
      | _ \<Rightarrow> IPv6Address a b c d)"

definition network_mask :: "nat \<Rightarrow> u32" where
  "network_mask len = NOT (drop_bit len 0xffffffff)"

definition truncate_parts :: "u32 list \<Rightarrow> nat \<Rightarrow> u32 list" where
  "truncate_parts ps len =
     (let offset = len div 32
      in take offset ps @ [ps ! offset AND network_mask (len mod 32)] @ replicate (4 - offset - 1) 0)"

fun ip_Truncate :: "ip_address \<Rightarrow> nat \<Rightarrow> ip_address" where
  "ip_Truncate (IPv4Address a) len =
     (if len = 32 then IPv4Address a else IPv4Address (a AND network_mask len))"
| "ip_Truncate (IPv6Address a b c d) len =
     (if len = 128 then IPv6Address a b c d
      else (case truncate_parts [a, b, c, d] len of
              [a', b', c', d'] \<Rightarrow> IPv6Address a' b' c' d'
            | _ \<Rightarrow> IPv6Address a b c d))"

text \<open>The 32-bit difference, unless its sign shows that it overflowed.\<close>

definition part_difference :: "u32 \<Rightarrow> u32 \<Rightarrow> int option" where
  "part_difference addr1 addr2 =
     (let difference = sint (addr2 - addr1)
      in if addr2 > addr1 \<and> difference < 0 \<or> addr2 < addr1 \<and> difference > 0
         then None else Some difference)"

text \<open>\<open>Difference\<close> of two IPv6 addresses fails when \<open>memcmp\<close> of the upper 96 bits returns 0.\<close>

fun ip_Difference :: "ip_address \<Rightarrow> ip_address \<Rightarrow> int option" where
  "ip_Difference (IPv4Address a) (IPv4Address b) = part_difference a b"
| "ip_Difference (IPv6Address a0 a1 a2 a3) (IPv6Address b0 b1 b2 b3) =
     (if (b0, b1, b2) = (a0, a1, a2) then None else part_difference a3 b3)"
| "ip_Difference _ _ = None"

definition ip_Parse :: "(bytes \<Rightarrow> ip_address option) \<Rightarrow> (bytes \<Rightarrow> ip_address option) \<Rightarrow> bytes \<Rightarrow> ip_address option" where
  "ip_Parse pton4 pton6 s = (case pton4 s of Some a \<Rightarrow> Some a | None \<Rightarrow> pton6 s)"

text \<open>
  The other \<open>Parse\<close> takes a socket address and its length. A socket address is its family and the
  address in it.
\<close>

definition ip_Parse_sockaddr :: "sa_family \<Rightarrow> u32 \<Rightarrow> u32 \<times> u32 \<times> u32 \<times> u32 \<Rightarrow> nat \<Rightarrow> ip_address option" where
  "ip_Parse_sockaddr family addr4 addr6 socklen =
     (if socklen < 16 then None
      else if family = AF_INET then (if socklen < 16 then None else Some (IPv4Address addr4))
      else if family = AF_INET6 then
        (if socklen < 28 then None
         else Some (case addr6 of (a, b, c, d) \<Rightarrow> IPv6Address a b c d))
      else None)"

section \<open>Ranges\<close>

record ip_range =
  rg_address :: "ip_address option"
  rg_cidr :: u16
  rg_size :: u32

definition IPRange_new :: ip_range where
  "IPRange_new = \<lparr>rg_address = None, rg_cidr = 0, rg_size = 0\<rparr>"

text \<open>The first and the last address of a range are not counted.\<close>

definition range_size :: "nat \<Rightarrow> u32" where
  "range_size bits = (let size = push_bit bits 1 in if size \<ge> 2 then size - 2 else 0)"

text \<open>\<open>1 << bits\<close> is undefined for 32 bits.\<close>

definition IPRange_set :: "ip_address \<Rightarrow> int \<Rightarrow> ip_range \<Rightarrow> (bool \<times> ip_range) option" where
  "IPRange_set address cidr r =
     (let r = r\<lparr>rg_address := Some address\<rparr>
      in if cidr < 0 \<or> cidr > ip_Length address then Some (False, r)
         else
           let bits = (if ip_Length address - cidr > 32 then 32 else nat (ip_Length address - cidr));
               r = r\<lparr>rg_address := Some (ip_Truncate address (nat cidr)), rg_cidr := of_int cidr\<rparr>
           in if bits \<ge> 32 then None else Some (True, r\<lparr>rg_size := range_size bits\<rparr>))"

text \<open>The text after the slash; \<open>None\<close> when there is no slash.\<close>

definition split_slash :: "bytes \<Rightarrow> bytes \<times> bytes option" where
  "split_slash s =
     (let slash = of_char (CHR ''/'')
      in if slash \<in> set s
         then (takeWhile (\<lambda>c. c \<noteq> slash) s, Some (tl (dropWhile (\<lambda>c. c \<noteq> slash) s)))
         else (s, None))"

definition int_of_long :: "int \<Rightarrow> int" where
  "int_of_long v = signed_take_bit 31 v"

definition IPRange_Parse ::
    "(bytes \<Rightarrow> ip_address option) \<Rightarrow> (bytes \<Rightarrow> ip_address option) \<Rightarrow> bytes \<Rightarrow> ip_range \<Rightarrow> (bool \<times> ip_range) option" where
  "IPRange_Parse pton4 pton6 text r =
     (let (address, value) = split_slash text
      in case ip_Parse pton4 pton6 address of
           None \<Rightarrow> Some (False, r)
         | Some ip \<Rightarrow>
             (case value of
                None \<Rightarrow> IPRange_set ip (ip_Length ip) r
              | Some value \<Rightarrow>
                  (if value = [] then Some (False, r)
                   else (case strtol10 value of (cidr, endptr) \<Rightarrow>
                     (if endptr \<noteq> [] \<and> hd endptr \<noteq> 0 then Some (False, r)
                      else IPRange_set ip (int_of_long cidr) r)))))"

definition IPRange_AsString :: "(ip_address \<Rightarrow> bytes) \<Rightarrow> ip_range \<Rightarrow> bytes" where
  "IPRange_AsString ntop r =
     (case rg_address r of
        None \<Rightarrow> str ''not-initialized''
      | Some a \<Rightarrow> ntop a @ [of_char (CHR ''/'')] @ ToString_nat (unat (rg_cidr r)))"

definition IPRange_Size :: "ip_range \<Rightarrow> int" where
  "IPRange_Size r = sint (rg_size r)"

definition IPRange_IsInitialized :: "ip_range \<Rightarrow> bool" where
  "IPRange_IsInitialized r \<longleftrightarrow> rg_address r \<noteq> None"

text \<open>
  In the comparisons of \<open>delta\<close>, an \<open>int\<close>, with \<open>size_\<close>, a \<open>uint32_t\<close>, \<open>delta\<close> is converted; it is not
  negative there. A range without address is not asked for its members: the pointer is not checked.
\<close>

definition IPRange_IsOverlapping :: "ip_range \<Rightarrow> ip_range \<Rightarrow> bool" where
  "IPRange_IsOverlapping r other =
     (case (rg_address r, rg_address other) of
        (Some a, Some b) \<Rightarrow>
          (if ip_Family b \<noteq> ip_Family a then False
           else (case ip_Difference a b of
                   None \<Rightarrow> False
                 | Some delta \<Rightarrow>
                     delta \<ge> 0 \<and> delta \<le> uint (rg_size r) \<or>
                     delta < 0 \<and> 0 - delta \<le> uint (rg_size other)))
      | _ \<Rightarrow> False)"

definition IPRange_IsIncluded :: "ip_range \<Rightarrow> ip_address \<Rightarrow> bool option" where
  "IPRange_IsIncluded r address =
     (case rg_address r of
        None \<Rightarrow> None
      | Some a \<Rightarrow> Some
          (case ip_Difference a address of
             None \<Rightarrow> False
           | Some delta \<Rightarrow> \<not> (delta < 0 \<or> delta \<ge> uint (rg_size r))))"

definition IPRange_GetAddressIndex :: "ip_range \<Rightarrow> int \<Rightarrow> ip_address option option" where
  "IPRange_GetAddressIndex r index =
     (if index < 0 \<or> index \<ge> uint (rg_size r) then Some None
      else (case rg_address r of
              None \<Rightarrow> None
            | Some a \<Rightarrow> Some (Some (ip_Increment a (of_int (index + 1))))))"

definition IPRange_GetIndexAddress :: "ip_range \<Rightarrow> ip_address \<Rightarrow> int option option" where
  "IPRange_GetIndexAddress r address =
     (case rg_address r of
        None \<Rightarrow> None
      | Some a \<Rightarrow> Some
          (case ip_Difference a address of
             None \<Rightarrow> None
           | Some difference \<Rightarrow>
               (if difference \<le> 0 \<or> difference \<ge> IPRange_Size r then None
                else Some (difference - 1))))"

definition IPRange_Swap :: "ip_range \<Rightarrow> ip_range \<Rightarrow> ip_range \<times> ip_range" where
  "IPRange_Swap r other = (other, r)"

section \<open>Differences\<close>

lemma uint_less_32: "uint (w :: u32) < 4294967296"
proof -
  have "uint w < 2 ^ LENGTH(32)" by (rule unsigned_less)
  then show ?thesis by simp
qed

lemma sint_cases: "sint (w :: u32) = (if uint w < 2147483648 then uint w else uint w - 4294967296)"
proof -
  have "sint w = take_bit 32 (uint w + 2147483648) - 2147483648"
    by (simp add: sint_uint signed_take_bit_eq_take_bit_shift)
  moreover have "(uint w + 2147483648) mod 4294967296 = (uint w + 2147483648 - 4294967296) mod 4294967296"
    by (rule minus_mod_self2 [symmetric])
  ultimately show ?thesis using uint_less_32 [of w] unsigned_greater_eq [of w]
    by (cases "uint w < 2147483648") (simp_all add: take_bit_eq_mod)
qed

lemma part_difference_exact:
  "part_difference a b =
    (let d = uint b - uint a in if - 2147483648 \<le> d \<and> d < 2147483648 then Some d else None)"
proof -
  define x y where xy: "x = uint a" "y = uint b"
  have b: "0 \<le> x" "x < 4294967296" "0 \<le> y" "y < 4294967296"
    using uint_less_32 [of a] uint_less_32 [of b] by (simp_all add: xy)
  have d: "uint (b - a) = (if x \<le> y then y - x else y - x + 4294967296)"
    by (simp add: uint_sub_if_size word_size xy)
  have "a < b \<longleftrightarrow> x < y" "b < a \<longleftrightarrow> y < x" by (simp_all add: word_less_def xy)
  then show ?thesis
    using b unfolding part_difference_def Let_def sint_cases d xy [symmetric] by auto
qed

section \<open>IPv4 networks\<close>

text \<open>The addresses from \<open>base\<close> on that share all but the last \<open>bits\<close> bits.\<close>

definition v4_range :: "ip_range \<Rightarrow> u32 \<Rightarrow> nat \<Rightarrow> bool" where
  "v4_range r base bits \<longleftrightarrow>
     rg_address r = Some (IPv4Address base) \<and> bits \<le> 31 \<and> uint base mod 2 ^ bits = 0 \<and>
     rg_size r = of_int (max 0 (2 ^ bits - 2))"

lemma network_masks: "list_all (\<lambda>len. network_mask len = NOT (mask (32 - len))) [0..<33]"
  by code_simp

lemma network_mask_mask: "len \<le> 32 \<Longrightarrow> network_mask len = NOT (mask (32 - len))"
  using network_masks by (auto simp: list_all_iff)

lemma div_mult_below: "0 < m \<Longrightarrow> (x :: int) div m * m \<le> x"
  using pos_mod_sign [of m x] by (simp flip: minus_mod_eq_div_mult)

lemma uint_network:
  assumes "len \<le> 32"
  shows "uint (a AND network_mask len) = uint a div 2 ^ (32 - len) * 2 ^ (32 - len)"
proof -
  let ?k = "32 - len"
  have "a AND network_mask len = push_bit ?k (drop_bit ?k a)"
    unfolding network_mask_mask [OF assms] by (rule bit_word_eqI) (auto simp: bit_simps)
  moreover have "uint (drop_bit ?k a) = uint a div 2 ^ ?k"
    by (simp only: unsigned_drop_bit_eq) (simp add: drop_bit_eq_div take_bit_int_eq_self uint_less_32)
  ultimately have "uint (a AND network_mask len) = take_bit LENGTH(32) (push_bit ?k (uint a div 2 ^ ?k))"
    by (simp only: unsigned_push_bit_eq)
  also have "\<dots> = take_bit 32 (uint a div 2 ^ ?k * 2 ^ ?k)"
    by (simp add: push_bit_eq_mult)
  also have "\<dots> = uint a div 2 ^ ?k * 2 ^ ?k"
  proof (rule take_bit_int_eq_self)
    show "uint a div 2 ^ ?k * 2 ^ ?k < 2 ^ 32"
      using uint_less_32 [of a] div_mult_below [of "2 ^ ?k" "uint a"] by simp
  qed (simp add: pos_imp_zdiv_nonneg_iff)
  finally show ?thesis .
qed

lemma v4_range_end:
  assumes "v4_range r base bits"
  shows "uint base + 2 ^ bits \<le> 4294967296"
proof -
  have "(2 :: int) ^ bits dvd 4294967296"
    using le_imp_power_dvd [of bits 32 "2 :: int"] assms by (simp add: v4_range_def)
  then have "(2 :: int) ^ bits dvd 4294967296 - uint base"
    using assms by (auto simp: v4_range_def mod_eq_0_iff_dvd)
  moreover have "0 < 4294967296 - uint base" using uint_less_32 [of base] by simp
  ultimately show ?thesis using zdvd_imp_le by fastforce
qed

lemma power_le_31: "bits \<le> 31 \<Longrightarrow> (2 :: int) ^ bits \<le> 2147483648"
  using power_increasing [of bits 31 "2 :: int"] by simp

lemma v4_range_size:
  assumes "v4_range r base bits"
  shows "uint (rg_size r) = max 0 (2 ^ bits - 2)" "IPRange_Size r = max 0 (2 ^ bits - 2)"
proof -
  have small: "(2 :: int) ^ bits \<le> 2147483648" using assms power_le_31 by (simp add: v4_range_def)
  show size: "uint (rg_size r) = max 0 (2 ^ bits - 2)"
    using assms small by (simp add: v4_range_def word_of_int_2p_len uint_word_of_int_eq take_bit_int_eq_self)
  show "IPRange_Size r = max 0 (2 ^ bits - 2)"
    using size small by (simp add: IPRange_Size_def sint_cases)
qed

text \<open>Parsing sets up such a range.\<close>

lemma range_sizes: "list_all (\<lambda>k. range_size k = of_int (max 0 (2 ^ k - 2))) [0..<32]"
  by code_simp

lemma IPRange_set_v4:
  assumes "1 \<le> cidr" "cidr \<le> 32"
  shows "\<exists>r'. IPRange_set (IPv4Address a) (int cidr) r = Some (True, r') \<and>
    v4_range r' (a AND network_mask cidr) (32 - cidr) \<and> rg_cidr r' = of_nat cidr"
proof -
  let ?bits = "32 - cidr"
  have bits: "?bits \<le> 31" using assms(1) by simp
  have "range_size ?bits = of_int (max 0 (2 ^ ?bits - 2))"
    using range_sizes bits by (auto simp: list_all_iff)
  moreover have "nat (int cidr) = cidr" "nat (32 - int cidr) = ?bits" by simp_all
  moreover have "a AND network_mask 32 = a"
    by (simp add: network_mask_mask)
  ultimately show ?thesis
    using assms bits uint_network [OF assms(2), of a]
    by (simp add: IPRange_set_def Let_def v4_range_def)
qed

text \<open>The address with a given index.\<close>

lemma v4_address_index:
  assumes r: "v4_range r base bits" and i: "0 \<le> i" "i < 2 ^ bits - 2"
  obtains w where "IPRange_GetAddressIndex r i = Some (Some (IPv4Address w))" "uint w = uint base + i + 1"
    "ip_Difference (IPv4Address base) (IPv4Address w) = Some (i + 1)"
proof -
  have small: "(2 :: int) ^ bits \<le> 2147483648" using r power_le_31 by (simp add: v4_range_def)
  have fits: "uint base + i + 1 < 4294967296" using v4_range_end [OF r] i by simp
  have "base + word_of_int (i + 1) = word_of_int (uint base + i + 1)" by simp
  then have "uint (base + word_of_int (i + 1)) = take_bit 32 (uint base + i + 1)"
    by (simp only: uint_word_of_int_eq) simp
  also have "\<dots> = uint base + i + 1"
    using fits i by (intro take_bit_int_eq_self) simp_all
  finally have w: "uint (base + word_of_int (i + 1)) = uint base + i + 1" .
  then have "ip_Difference (IPv4Address base) (IPv4Address (base + word_of_int (i + 1))) = Some (i + 1)"
    using i small by (simp add: part_difference_exact Let_def)
  moreover have "IPRange_GetAddressIndex r i = Some (Some (IPv4Address (base + word_of_int (i + 1))))"
    using r i v4_range_size(1) [OF r] by (simp add: IPRange_GetAddressIndex_def v4_range_def)
  ultimately show thesis using that w by blast
qed

lemma v4_index_address:
  assumes r: "v4_range r base bits" and i: "0 \<le> i" "i < 2 ^ bits - 2"
    and w: "ip_Difference (IPv4Address base) (IPv4Address w) = Some (i + 1)"
  shows "IPRange_GetIndexAddress r (IPv4Address w) = Some (if i = 2 ^ bits - 3 then None else Some i)"
  using r i w v4_range_size(2) [OF r] by (simp add: IPRange_GetIndexAddress_def v4_range_def)

section \<open>IPv6 arithmetic\<close>

definition v6_value :: "u32 \<Rightarrow> u32 \<Rightarrow> u32 \<Rightarrow> u32 \<Rightarrow> int" where
  "v6_value a b c d = ((uint a * 2 ^ 32 + uint b) * 2 ^ 32 + uint c) * 2 ^ 32 + uint d"

fun parts_value :: "u32 list \<Rightarrow> int" where
  "parts_value [] = 0"
| "parts_value (p # ps) = uint p + 4294967296 * parts_value ps"

lemma parts_bounds: "0 \<le> parts_value ps" "parts_value ps < 4294967296 ^ length ps"
proof -
  show "0 \<le> parts_value ps" by (induction ps) simp_all
  show "parts_value ps < 4294967296 ^ length ps"
  proof (induction ps)
    case (Cons p ps)
    then have "parts_value ps + 1 \<le> 4294967296 ^ length ps" by simp
    then have "4294967296 * (parts_value ps + 1) \<le> 4294967296 * 4294967296 ^ length ps" by simp
    with uint_less_32 [of p] show ?case by simp
  qed simp
qed

lemma carry_iff: "uint (p + q) = (if p + q < p then uint p + uint q - 4294967296 else uint p + uint q)" for p q :: u32
proof -
  define x y where xy: "x = uint p" "y = uint q"
  have b: "0 \<le> x" "x < 4294967296" "0 \<le> y" "y < 4294967296"
    using uint_less_32 [of p] uint_less_32 [of q] by (simp_all add: xy)
  have "uint (p + q) = (if x + y < 4294967296 then x + y else x + y - 4294967296)"
  proof (cases "x + y < 4294967296")
    case False
    have "(x + y) mod 4294967296 = (x + y - 4294967296) mod 4294967296"
      by (rule minus_mod_self2 [symmetric])
    also have "\<dots> = x + y - 4294967296" using False b by (intro mod_pos_pos_trivial) simp_all
    finally show ?thesis using False by (simp add: uint_word_ariths flip: xy)
  qed (use b in \<open>simp add: uint_word_ariths xy\<close>)
  with b show ?thesis by (auto simp: word_less_def xy [symmetric])
qed

lemma increment_parts_value:
  "length (increment_parts ps amount) = length ps \<and>
   (\<exists>carry. parts_value (increment_parts ps amount) = parts_value ps + uint amount - carry * 4294967296 ^ length ps) "
  if "ps \<noteq> []" for ps amount
  using that
proof (induction ps amount rule: increment_parts.induct)
  case (2 p ps amount)
  show ?case
  proof (cases "p + amount < p")
    case False
    then show ?thesis using carry_iff [of p amount]
      by (auto simp: Let_def intro!: exI [of _ 0])
  next
    case True
    show ?thesis
    proof (cases "ps = []")
      case True
      with \<open>p + amount < p\<close> show ?thesis using carry_iff [of p amount]
        by (auto simp: Let_def intro!: exI [of _ 1])
    next
      case False
      with 2 True obtain carry where IH: "length (increment_parts ps 1) = length ps"
        "parts_value (increment_parts ps 1) = parts_value ps + 1 - carry * 4294967296 ^ length ps"
        by (auto simp: Let_def not_le)
      have step: "increment_parts (p # ps) amount = (p + amount) # increment_parts ps 1"
        using True by (auto simp: Let_def dest: leD)
      have "parts_value (increment_parts (p # ps) amount) =
          parts_value (p # ps) + uint amount - carry * 4294967296 ^ length (p # ps)"
        using step IH(2) carry_iff [of p amount] True by (simp add: algebra_simps)
      then show ?thesis using step IH(1) by auto
    qed
  qed
qed simp

lemma ip_Increment_v6:
  obtains a' b' c' d' where "ip_Increment (IPv6Address a b c d) amount = IPv6Address a' b' c' d'"
    "v6_value a' b' c' d' = (v6_value a b c d + uint amount) mod 2 ^ 128"
proof -
  obtain carry where *: "length (increment_parts [d, c, b, a] amount) = 4"
    "parts_value (increment_parts [d, c, b, a] amount) =
      parts_value [d, c, b, a] + uint amount - carry * 4294967296 ^ 4"
    using increment_parts_value [of "[d, c, b, a]" amount] by auto
  obtain d' c' b' a' where eq: "increment_parts [d, c, b, a] amount = [d', c', b', a']"
    using *(1) by (auto simp: length_Suc_conv eval_nat_numeral simp del: increment_parts.simps)
  have v: "parts_value [z, y, x, w] = v6_value w x y z" for w x y z
    by (simp add: v6_value_def)
  have "v6_value a' b' c' d' = v6_value a b c d + uint amount - carry * 2 ^ 128"
    using *(2) unfolding eq v by simp
  moreover have "0 \<le> v6_value a' b' c' d'" "v6_value a' b' c' d' < 2 ^ 128"
    using parts_bounds [of "[d', c', b', a']"] unfolding v by simp_all
  ultimately have "v6_value a' b' c' d' = (v6_value a b c d + uint amount) mod 2 ^ 128"
    by (metis add_diff_cancel_right' diff_add_cancel mod_mult_self1 mod_pos_pos_trivial)
  then show thesis using that eq by simp
qed

section \<open>Properties\<close>

text \<open>A range parsed from an IPv4 address and a prefix length from 1 to 32 starts at the network
  address, counts \<open>2 ^ (32 - cidr) - 2\<close> addresses (none for the two longest prefixes), and maps the
  index \<open>i\<close> to the address \<open>i + 1\<close> after the network address, which never leaves the network.\<close>

theorem IPv4_range_indexes:
  assumes "1 \<le> cidr" "cidr \<le> 32" "0 \<le> i" "i < 2 ^ (32 - cidr) - 2"
  shows "\<exists>r base w. IPRange_set (IPv4Address a) (int cidr) r0 = Some (True, r) \<and>
    rg_address r = Some (IPv4Address base) \<and>
    uint base = uint a div 2 ^ (32 - cidr) * 2 ^ (32 - cidr) \<and>
    IPRange_Size r = 2 ^ (32 - cidr) - 2 \<and>
    IPRange_GetAddressIndex r i = Some (Some (IPv4Address w)) \<and> uint w = uint base + i + 1 \<and>
    uint w < uint base + 2 ^ (32 - cidr) - 1"
proof -
  obtain r where r: "IPRange_set (IPv4Address a) (int cidr) r0 = Some (True, r)"
    "v4_range r (a AND network_mask cidr) (32 - cidr)"
    using IPRange_set_v4 [OF assms(1,2)] by blast
  obtain w where "IPRange_GetAddressIndex r i = Some (Some (IPv4Address w))"
    "uint w = uint (a AND network_mask cidr) + i + 1"
    by (rule v4_address_index [OF r(2) assms(3,4)])
  with r v4_range_size(2) [OF r(2)] uint_network [OF assms(2), of a] assms(3,4) show ?thesis
    by (intro exI [of _ r] exI [of _ "a AND network_mask cidr"] exI [of _ w])
      (simp add: v4_range_def)
qed

lemma IPv4_range_indexes_witness:
  "\<exists>r w. IPRange_set (IPv4Address 0xc0a80105) 24 IPRange_new = Some (True, r) \<and>
    IPRange_GetAddressIndex r 253 = Some (Some (IPv4Address w)) \<and> uint w = 3232236030"
  using IPv4_range_indexes [of 24 253 "0xc0a80105" IPRange_new] by auto

text \<open>\<open>GetIndexAddress\<close> undoes \<open>GetAddressIndex\<close> for every index of an IPv4 range but the last: the
  address that has the last index is rejected.\<close>

theorem GetIndexAddress_rejects_the_last:
  assumes "v4_range r base bits" "0 \<le> i" "i < 2 ^ bits - 2"
  shows "\<exists>w. IPRange_GetAddressIndex r i = Some (Some w) \<and>
    IPRange_GetIndexAddress r w = Some (if i = 2 ^ bits - 3 then None else Some i)"
proof -
  obtain w where "IPRange_GetAddressIndex r i = Some (Some (IPv4Address w))"
    "ip_Difference (IPv4Address base) (IPv4Address w) = Some (i + 1)"
    by (rule v4_address_index [OF assms])
  with v4_index_address [OF assms] show ?thesis by blast
qed

lemma GetIndexAddress_rejects_the_last_witness:
  "\<exists>w. IPRange_GetAddressIndex \<lparr>rg_address = Some (IPv4Address 0x0a000000), rg_cidr = 30, rg_size = 2\<rparr> 1 = Some (Some w) \<and>
    IPRange_GetIndexAddress \<lparr>rg_address = Some (IPv4Address 0x0a000000), rg_cidr = 30, rg_size = 2\<rparr> w = Some None"
  using GetIndexAddress_rejects_the_last [of "\<lparr>rg_address = Some (IPv4Address 0x0a000000), rg_cidr = 30, rg_size = 2\<rparr>"
      "0x0a000000" 2 1]
  by (auto simp: v4_range_def)

text \<open>C39. \<open>IPv6Address::Increment\<close> is addition modulo \<open>2 ^ 128\<close>.\<close>

theorem IPv6_Increment_is_addition:
  "\<exists>a' b' c' d'. ip_Increment (IPv6Address a b c d) amount = IPv6Address a' b' c' d' \<and>
    v6_value a' b' c' d' = (v6_value a b c d + uint amount) mod 2 ^ 128"
  by (rule ip_Increment_v6 [of a b c d amount]) blast

text \<open>The comparison of the upper 96 bits is inverted: \<open>Difference\<close> fails for two IPv6 addresses that
  share them, whatever their distance, and answers for two that do not, from their last 32 bits alone.
  So no address handed out from an IPv6 range is recognised as an address of it.\<close>

theorem IPv6_Difference_is_inverted:
  "ip_Difference (IPv6Address a b c d) (IPv6Address a b c d') = None \<and>
   ((a, b, c) \<noteq> (a', b', c') \<longrightarrow>
      ip_Difference (IPv6Address a b c d) (IPv6Address a' b' c' d) = Some 0) \<and>
   (rg_address r = Some (IPv6Address a b c d) \<longrightarrow>
      IPRange_IsIncluded r (IPv6Address a b c d') = Some False \<and>
      IPRange_GetIndexAddress r (IPv6Address a b c d') = Some None)"
  by (auto simp: part_difference_exact IPRange_IsIncluded_def IPRange_GetIndexAddress_def)

lemma IPv6_Difference_is_inverted_witness:
  "ip_Difference (IPv6Address 1 2 3 4) (IPv6Address 5 2 3 4) = Some 0"
  using IPv6_Difference_is_inverted [of 1 2 3 4 4 5 2 3 IPRange_new] by simp

text \<open>Two IPv4 ranges are reported as overlapping exactly when their networks share an address,
  except when one of them is the single last address of the other.\<close>

theorem IPv4_IsOverlapping:
  assumes "v4_range r base bits" "v4_range r' base' bits'"
  shows "IPRange_IsOverlapping r r' \<longleftrightarrow>
    {uint base ..< uint base + 2 ^ bits} \<inter> {uint base' ..< uint base' + 2 ^ bits'} \<noteq> {} \<and>
    \<not> (bits \<noteq> 0 \<and> uint base' = uint base + 2 ^ bits - 1) \<and>
    \<not> (bits' \<noteq> 0 \<and> uint base = uint base' + 2 ^ bits' - 1)"
proof -
  define x y where xy: "x = uint base" "y = uint base'"
  have pow: "(1 :: int) \<le> 2 ^ bits" "(1 :: int) \<le> 2 ^ bits'" "(2 :: int) ^ bits \<le> 2147483648"
    "(2 :: int) ^ bits' \<le> 2147483648"
    using assms power_le_31 by (simp_all add: v4_range_def)
  have nonzero: "k \<noteq> 0 \<longleftrightarrow> (2 :: int) \<le> 2 ^ k" for k :: nat
    by (cases k) simp_all
  have code: "IPRange_IsOverlapping r r' \<longleftrightarrow>
      - 2147483648 \<le> y - x \<and> y - x < 2147483648 \<and>
      (y - x \<ge> 0 \<and> y - x \<le> max 0 (2 ^ bits - 2) \<or> y - x < 0 \<and> x - y \<le> max 0 (2 ^ bits' - 2))"
    using assms v4_range_size(1) [OF assms(1)] v4_range_size(1) [OF assms(2)]
    by (auto simp: IPRange_IsOverlapping_def v4_range_def part_difference_exact Let_def xy)
  have share: "{x ..< x + m} \<inter> {y ..< y + n} \<noteq> {} \<longleftrightarrow> x \<le> y \<and> y < x + m \<or> y < x \<and> x < y + n"
    if "1 \<le> m" "1 \<le> n" for m n
    using that by (auto simp: set_eq_iff intro!: exI [of _ "max x y"])
  define m n where mn: "m = (2 :: int) ^ bits" "n = (2 :: int) ^ bits'"
  show ?thesis
    using pow share [OF pow(1,2)]
    unfolding code xy [symmetric] nonzero mn [symmetric] by (simp add: max_def) linarith
qed

lemma IPv4_IsOverlapping_witness:
  "\<not> IPRange_IsOverlapping \<lparr>rg_address = Some (IPv4Address 0x0a000000), rg_cidr = 24, rg_size = 254\<rparr>
       \<lparr>rg_address = Some (IPv4Address 0x0a0000ff), rg_cidr = 32, rg_size = 0\<rparr>"
  using IPv4_IsOverlapping [of "\<lparr>rg_address = Some (IPv4Address 0x0a000000), rg_cidr = 24, rg_size = 254\<rparr>" "0x0a000000" 8
      "\<lparr>rg_address = Some (IPv4Address 0x0a0000ff), rg_cidr = 32, rg_size = 0\<rparr>" "0x0a0000ff" 0]
  by (simp add: v4_range_def)



end
