(* ===== verification/IpManager.thy ===== *)
theory IpManager
  imports IpAddresses
begin

text \<open>
  \<open>src/src/ip-manager.h\<close> and \<open>.cc\<close>: which addresses of the server's range are in use, and the choice of
  a private range that does not collide with the routes of the host.
\<close>

section \<open>The manager\<close>

record ip_manager =
  im_range :: ip_range
  im_index :: nat
  im_used :: "bool list"

definition IPManager_new :: "ip_range \<Rightarrow> ip_manager" where
  "IPManager_new r = \<lparr>im_range = r, im_index = 0, im_used = []\<rparr>"

definition im_size :: "ip_manager \<Rightarrow> nat" where
  "im_size m = nat (IPRange_Size (im_range m))"

definition IncrementIndex :: "ip_manager \<Rightarrow> ip_manager option" where
  "IncrementIndex m =
     (if im_size m = 0 then None
      else Some (m\<lparr>im_index := (im_index m + 1) mod im_size m\<rparr>))"

text \<open>The loop of \<open>FindUsableIndex\<close> with \<open>k\<close> rounds to go. \<open>used_[index_]\<close> past the end is undefined.\<close>

fun find_usable_loop :: "nat \<Rightarrow> ip_manager \<Rightarrow> (bool \<times> ip_manager) option" where
  "find_usable_loop 0 m = Some (False, m)"
| "find_usable_loop (Suc k) m =
     (if length (im_used m) \<le> im_index m then None
      else if \<not> im_used m ! im_index m then Some (True, m)
      else do { m \<leftarrow> IncrementIndex m; find_usable_loop k m })"

definition FindUsableIndex :: "ip_manager \<Rightarrow> (bool \<times> ip_manager) option" where
  "FindUsableIndex m = find_usable_loop (im_size m) m"

definition AllocateIP :: "ip_manager \<Rightarrow> (ip_address option \<times> ip_manager) option" where
  "AllocateIP m = do {
     let m = (if length (im_used m) \<le> im_index m
              then m\<lparr>im_used := im_used m @ replicate (im_index m + 1 - length (im_used m)) False\<rparr> else m);
     (found, m) \<leftarrow> FindUsableIndex m;
     (if \<not> found then Some (None, m)
      else do {
        let m = m\<lparr>im_used := (im_used m)[im_index m := True]\<rparr>;
        address \<leftarrow> IPRange_GetAddressIndex (im_range m) (int (im_index m));
        m \<leftarrow> IncrementIndex m;
        Some (address, m)
      })
   }"

definition ReturnIP :: "ip_address \<Rightarrow> ip_manager \<Rightarrow> (bool \<times> ip_manager) option" where
  "ReturnIP address m = do {
     index \<leftarrow> IPRange_GetIndexAddress (im_range m) address;
     (case index of
        None \<Rightarrow> Some (False, m)
      | Some index \<Rightarrow>
          (if int (length (im_used m)) \<le> index \<or> \<not> im_used m ! nat index then Some (False, m)
           else Some (True, m\<lparr>im_used := (im_used m)[nat index := False]\<rparr>)))
   }"

section \<open>Choosing a range\<close>

definition IsRangeOverlapping :: "ip_range \<Rightarrow> ip_range list \<Rightarrow> bool" where
  "IsRangeOverlapping r entries = list_ex (\<lambda>entry. IPRange_IsOverlapping entry r) entries"

definition private_ranges :: "bytes list" where
  "private_ranges = [str ''10.0.0.0/8'', str ''172.16.0.0/12'', str ''192.168.0.0/16'']"

fun try_ranges ::
    "(bytes \<Rightarrow> ip_address option) \<Rightarrow> (bytes \<Rightarrow> ip_address option) \<Rightarrow> ip_range list \<Rightarrow> bytes list \<Rightarrow>
     ip_range \<Rightarrow> (bool \<times> ip_range) option" where
  "try_ranges pton4 pton6 entries [] result = Some (False, result)"
| "try_ranges pton4 pton6 entries (s # ss) result = do {
     (_, r) \<leftarrow> IPRange_Parse pton4 pton6 s IPRange_new;
     (if \<not> IsRangeOverlapping r entries then Some (True, fst (IPRange_Swap result r))
      else try_ranges pton4 pton6 entries ss result)
   }"

text \<open>
  \<open>GetRoutes\<close> is the routing table's; it fails with \<open>None\<close>. The three candidates are all parsed
  before the first is tried, which makes no difference here: parsing has no effect but its result.
\<close>

definition FindUsableRange ::
    "(bytes \<Rightarrow> ip_address option) \<Rightarrow> (bytes \<Rightarrow> ip_address option) \<Rightarrow> ip_range list option \<Rightarrow> ip_range \<Rightarrow>
     (bool \<times> ip_range) option" where
  "FindUsableRange pton4 pton6 routes result =
     (case routes of
        None \<Rightarrow> Some (False, result)
      | Some entries \<Rightarrow> try_ranges pton4 pton6 entries private_ranges result)"

section \<open>The invariant\<close>

text \<open>
  \<open>used_\<close> grows with the index until it covers the range. So the index never points past its end when
  it is read.
\<close>

definition im_ok :: "u32 \<Rightarrow> nat \<Rightarrow> ip_manager \<Rightarrow> bool" where
  "im_ok base bits m \<longleftrightarrow> v4_range (im_range m) base bits \<and> 2 \<le> bits \<and>
     im_index m < 2 ^ bits - 2 \<and>
     (length (im_used m) = 2 ^ bits - 2 \<or> length (im_used m) = im_index m)"

definition in_use :: "ip_manager \<Rightarrow> nat set" where
  "in_use m = {i. i < length (im_used m) \<and> im_used m ! i}"

lemma im_size_ok: "im_ok base bits m \<Longrightarrow> im_size m = 2 ^ bits - 2"
proof -
  assume ok: "im_ok base bits m"
  then have "(4 :: int) \<le> 2 ^ bits"
    using power_increasing [of 2 bits "2 :: int"] by (simp add: im_ok_def)
  then show ?thesis
    using v4_range_size(2) [of "im_range m" base bits] ok
    by (simp add: im_size_def im_ok_def nat_diff_distrib nat_power_eq)
qed

lemma im_size_pos: "im_ok base bits m \<Longrightarrow> 2 \<le> (2 :: nat) ^ bits - 2"
  using power_increasing [of 2 bits "2 :: nat"] by (simp add: im_ok_def)

lemma im_new_ok: "v4_range r base bits \<Longrightarrow> 2 \<le> bits \<Longrightarrow> im_ok base bits (IPManager_new r)"
  using power_increasing [of 2 bits "2 :: nat"] by (simp add: im_ok_def IPManager_new_def)

text \<open>The scan over a full table finds the first free index after the current one, or there is none.\<close>

lemma find_usable_scan:
  assumes "length (im_used m) = im_size m" "im_index m < im_size m" "k \<le> im_size m"
  shows "(\<exists>j<k. find_usable_loop k m = Some (True, m\<lparr>im_index := (im_index m + j) mod im_size m\<rparr>) \<and>
            \<not> im_used m ! ((im_index m + j) mod im_size m)) \<or>
    (\<exists>i. find_usable_loop k m = Some (False, m\<lparr>im_index := i\<rparr>) \<and> i < im_size m \<and>
            (\<forall>j<k. im_used m ! ((im_index m + j) mod im_size m)))"
  using assms
proof (induction k arbitrary: m)
  case 0
  then show ?case by (auto intro: exI [of _ "im_index m"])
next
  case (Suc k)
  show ?case
  proof (cases "im_used m ! im_index m")
    case False
    then show ?thesis using Suc.prems by (intro disjI1 exI [of _ 0]) auto
  next
    case True
    let ?n = "im_size m" and ?m = "m\<lparr>im_index := (im_index m + 1) mod im_size m\<rparr>"
    have n: "0 < ?n" using Suc.prems by simp
    have size: "im_size ?m = ?n" by (simp add: im_size_def)
    have step: "find_usable_loop (Suc k) m = find_usable_loop k ?m"
      using True Suc.prems n by (simp add: IncrementIndex_def)
    have shift: "(im_index ?m + j) mod ?n = (im_index m + Suc j) mod ?n" for j
      by (simp add: mod_simps)
    from Suc.IH [of ?m] Suc.prems n size
    consider (found) j where "j < k" "find_usable_loop k ?m = Some (True, ?m\<lparr>im_index := (im_index ?m + j) mod ?n\<rparr>)"
        "\<not> im_used m ! ((im_index ?m + j) mod ?n)"
      | (full) i where "find_usable_loop k ?m = Some (False, ?m\<lparr>im_index := i\<rparr>)" "i < ?n"
        "\<forall>j<k. im_used m ! ((im_index ?m + j) mod ?n)"
      by auto
    then show ?thesis
    proof cases
      case found
      then show ?thesis unfolding step shift by (intro disjI1 exI [of _ "Suc j"]) simp
    next
      case full
      have "im_used m ! ((im_index m + j) mod ?n)" if "j < Suc k" for j
        using full(3) True Suc.prems(2) that unfolding shift by (cases j) auto
      with full(1,2) show ?thesis unfolding step by (intro disjI2) auto
    qed
  qed
qed

lemma rotation_covers: "i < n \<Longrightarrow> s < n \<Longrightarrow> \<exists>j<n. (s + j) mod n = (i :: nat)"
  by (intro exI [of _ "if s \<le> i then i - s else n + i - s"]) auto

definition index_address :: "u32 \<Rightarrow> nat \<Rightarrow> ip_address" where
  "index_address base i = IPv4Address (base + of_nat (i + 1))"

lemma index_bounds:
  assumes "i < (2 :: nat) ^ bits - 2"
  shows "int i < 2 ^ bits - 2" "int i = 2 ^ bits - 3 \<longleftrightarrow> i = 2 ^ bits - 3"
proof -
  define n where "n = (2 :: nat) ^ bits"
  have n: "int n = 2 ^ bits" by (simp add: n_def)
  have "i < n - 2" using assms by (simp add: n_def)
  then have "int i < int n - 2" "int i = int n - 3 \<longleftrightarrow> i = n - 3" by linarith+
  then show "int i < 2 ^ bits - 2" "int i = 2 ^ bits - 3 \<longleftrightarrow> i = 2 ^ bits - 3"
    unfolding n by (simp_all add: n_def)
qed

lemma address_of_index:
  assumes r: "v4_range r base bits" and i: "i < 2 ^ bits - 2"
  shows "IPRange_GetAddressIndex r (int i) = Some (Some (index_address base i))"
    "IPRange_GetIndexAddress r (index_address base i) = Some (if i = 2 ^ bits - 3 then None else Some (int i))"
    "\<exists>w. index_address base i = IPv4Address w \<and> uint w = uint base + int i + 1"
proof -
  obtain w where w: "IPRange_GetAddressIndex r (int i) = Some (Some (IPv4Address w))"
    "uint w = uint base + int i + 1"
    "ip_Difference (IPv4Address base) (IPv4Address w) = Some (int i + 1)"
    by (rule v4_address_index [OF r _ index_bounds(1) [OF i]]) simp_all
  have addr: "IPRange_GetAddressIndex r (int i) = Some (Some (index_address base i))"
    using w(1) r by (simp add: IPRange_GetAddressIndex_def v4_range_def index_address_def ac_simps split: if_splits)
  with w(1) have eq: "index_address base i = IPv4Address w" by simp
  show "IPRange_GetAddressIndex r (int i) = Some (Some (index_address base i))" by (rule addr)
  show "IPRange_GetIndexAddress r (index_address base i) = Some (if i = 2 ^ bits - 3 then None else Some (int i))"
    using v4_index_address [OF r _ index_bounds(1) [OF i] w(3)] index_bounds(2) [OF i] by (simp add: eq)
  show "\<exists>w. index_address base i = IPv4Address w \<and> uint w = uint base + int i + 1"
    using eq w(2) by blast
qed

lemma index_address_inj:
  assumes "v4_range r base bits" "i < 2 ^ bits - 2" "j < 2 ^ bits - 2"
  shows "index_address base i = index_address base j \<longleftrightarrow> i = j"
  using address_of_index(3) [OF assms(1,2)] address_of_index(3) [OF assms(1,3)] by auto

lemma index_address_inj_on: "v4_range r base bits \<Longrightarrow> inj_on (index_address base) {..<2 ^ bits - 2}"
  using index_address_inj by (auto simp: inj_on_def)

text \<open>The rest of \<open>AllocateIP\<close> once a free index is found.\<close>

lemma allocate_found:
  assumes ok: "v4_range (im_range m) base bits" "im_size m = 2 ^ bits - 2" "2 \<le> bits"
    and i: "im_index m < 2 ^ bits - 2" "im_index m < length (im_used m)" "\<not> im_used m ! im_index m"
    and len: "length (im_used m) = 2 ^ bits - 2 \<or> length (im_used m) = Suc (im_index m)"
    and before: "in_use m = in_use m0"
  shows "\<exists>r m'. do {
        let m = m\<lparr>im_used := (im_used m)[im_index m := True]\<rparr>;
        address \<leftarrow> IPRange_GetAddressIndex (im_range m) (int (im_index m));
        m \<leftarrow> IncrementIndex m;
        Some (address, m)
      } = Some (Some r, m') \<and> im_ok base bits m' \<and>
      (\<exists>i < 2 ^ bits - 2. i \<notin> in_use m0 \<and> r = index_address base i \<and> in_use m' = insert i (in_use m0))"
proof -
  let ?n = "2 ^ bits - 2 :: nat" and ?i = "im_index m"
  let ?m' = "m\<lparr>im_used := (im_used m)[?i := True], im_index := (?i + 1) mod ?n\<rparr>"
  have n: "0 < ?n" using i(1) by simp
  have inc: "IncrementIndex (m\<lparr>im_used := (im_used m)[?i := True]\<rparr>) = Some ?m'"
    using n ok(2) by (simp add: IncrementIndex_def im_size_def)
  have "im_ok base bits ?m'"
    using ok i len n by (auto simp: im_ok_def mod_Suc)
  moreover have "in_use ?m' = insert ?i (in_use m)"
    using i(2) by (auto simp: in_use_def nth_list_update)
  moreover have "?i \<notin> in_use m" using i(3) by (simp add: in_use_def)
  ultimately show ?thesis
    using inc address_of_index(1) [OF ok(1) i(1)] i(1) before
    by (intro exI [of _ "index_address base ?i"] exI [of _ ?m']) auto
qed

lemma AllocateIP_cases:
  assumes ok: "im_ok base bits m"
  shows "\<exists>r m'. AllocateIP m = Some (r, m') \<and> im_ok base bits m' \<and>
    (case r of
       None \<Rightarrow> in_use m = {..<2 ^ bits - 2} \<and> in_use m' = in_use m
     | Some a \<Rightarrow> \<exists>i < 2 ^ bits - 2. i \<notin> in_use m \<and> a = index_address base i \<and> in_use m' = insert i (in_use m))"
proof (cases "length (im_used m) = im_index m")
  case True
  let ?m = "m\<lparr>im_used := im_used m @ [False]\<rparr>"
  have "im_size m \<noteq> 0" using im_size_ok [OF ok] im_size_pos [OF ok] by simp
  then obtain k where k: "im_size m = Suc k" by (metis not0_implies_Suc)
  have "FindUsableIndex ?m = Some (True, ?m)"
    using k True by (simp add: FindUsableIndex_def im_size_def nth_append)
  moreover have "in_use ?m = in_use m" by (auto simp: in_use_def nth_append)
  moreover have "im_size ?m = 2 ^ bits - 2" using im_size_ok [OF ok] by (simp add: im_size_def)
  ultimately show ?thesis
    using allocate_found [of ?m base bits m] ok True
    by (fastforce simp: AllocateIP_def Let_def im_ok_def nth_append)
next
  case False
  then have len: "length (im_used m) = 2 ^ bits - 2" using ok by (simp add: im_ok_def)
  have i: "im_index m < 2 ^ bits - 2" using ok by (simp add: im_ok_def)
  note size = im_size_ok [OF ok]
  consider (found) j where "FindUsableIndex m = Some (True, m\<lparr>im_index := (im_index m + j) mod im_size m\<rparr>)"
      "\<not> im_used m ! ((im_index m + j) mod im_size m)"
    | (full) i where "FindUsableIndex m = Some (False, m\<lparr>im_index := i\<rparr>)" "i < im_size m"
      "\<forall>j<im_size m. im_used m ! ((im_index m + j) mod im_size m)"
    using find_usable_scan [of m "im_size m"] len i size by (auto simp: FindUsableIndex_def)
  then show ?thesis
  proof cases
    case found
    let ?m = "m\<lparr>im_index := (im_index m + j) mod im_size m\<rparr>"
    have "in_use ?m = in_use m" "im_size ?m = 2 ^ bits - 2" "im_index ?m < 2 ^ bits - 2"
      using size i by (simp_all add: in_use_def im_size_def)
    then show ?thesis
      using allocate_found [of ?m base bits m] ok found len i
      by (fastforce simp: AllocateIP_def Let_def im_ok_def)
  next
    case (full i')
    have "in_use m = {..<2 ^ bits - 2}"
    proof (intro equalityI subsetI)
      fix x assume "x \<in> {..<2 ^ bits - 2 :: nat}"
      then obtain j where "j < im_size m" "(im_index m + j) mod im_size m = x"
        using rotation_covers [of x "im_size m" "im_index m"] i size by auto
      with full(3) len \<open>x \<in> _\<close> show "x \<in> in_use m" by (auto simp: in_use_def)
    qed (use len in \<open>simp add: in_use_def\<close>)
    moreover have "im_ok base bits (m\<lparr>im_index := i'\<rparr>)" "in_use (m\<lparr>im_index := i'\<rparr>) = in_use m"
      using ok full(2) size len by (simp_all add: im_ok_def in_use_def)
    ultimately show ?thesis
      using full(1) len i by (simp add: AllocateIP_def Let_def)
  qed
qed

lemma ReturnIP_index:
  assumes ok: "im_ok base bits m" and i: "i < 2 ^ bits - 2"
  shows "\<exists>m'. ReturnIP (index_address base i) m = Some (i \<in> in_use m \<and> i \<noteq> 2 ^ bits - 3, m') \<and>
    im_ok base bits m' \<and>
    in_use m' = (if i = 2 ^ bits - 3 then in_use m else in_use m - {i})"
proof -
  have r: "v4_range (im_range m) base bits" using ok by (simp add: im_ok_def)
  have "in_use (m\<lparr>im_used := (im_used m)[i := False]\<rparr>) = in_use m - {i}"
    by (cases "i < length (im_used m)") (auto simp: in_use_def nth_list_update list_update_beyond)
  with ok address_of_index(2) [OF r i] show ?thesis
    by (auto simp: ReturnIP_def im_ok_def in_use_def)
qed

section \<open>Properties\<close>

text \<open>
  The state of the manager of a range as the calls leave it, with the addresses handed out, last
  first.
\<close>

inductive im_reachable :: "ip_range \<Rightarrow> ip_manager \<Rightarrow> ip_address list \<Rightarrow> bool" for r where
  start: "im_reachable r (IPManager_new r) []"
| allocate: "im_reachable r m as \<Longrightarrow> AllocateIP m = Some (Some a, m') \<Longrightarrow> im_reachable r m' (a # as)"
| exhausted: "im_reachable r m as \<Longrightarrow> AllocateIP m = Some (None, m') \<Longrightarrow> im_reachable r m' as"
| return: "im_reachable r m as \<Longrightarrow> a \<in> set as \<Longrightarrow> ReturnIP a m = Some (True, m') \<Longrightarrow>
    im_reachable r m' (remove1 a as)"
| refuse: "im_reachable r m as \<Longrightarrow> a \<in> set as \<Longrightarrow> ReturnIP a m = Some (False, m') \<Longrightarrow> im_reachable r m' as"

lemma im_reachable_inv:
  assumes "im_reachable r m as" "v4_range r base bits" "2 \<le> bits"
  shows "im_ok base bits m \<and> distinct as \<and> set as = index_address base ` in_use m \<and> in_use m \<subseteq> {..<2 ^ bits - 2}"
  using assms(1)
proof induction
  case start
  then show ?case using im_new_ok [OF assms(2,3)] by (simp add: in_use_def IPManager_new_def)
next
  case (allocate m as a m')
  then obtain i where i: "i < 2 ^ bits - 2" "i \<notin> in_use m" "a = index_address base i"
    "in_use m' = insert i (in_use m)" "im_ok base bits m'"
    using AllocateIP_cases [of base bits m] by auto
  have "a \<notin> set as"
    using i inj_on_image_mem_iff [OF index_address_inj_on [OF assms(2)], of i "in_use m"] allocate.IH by simp
  with i allocate.IH show ?case by auto
next
  case (exhausted m as m')
  then show ?case using AllocateIP_cases [of base bits m] by auto
next
  case (return m as a m')
  then obtain i where i: "i \<in> in_use m" "i < 2 ^ bits - 2" "a = index_address base i" by auto
  then have m': "im_ok base bits m'" "in_use m' = in_use m - {i}"
    using ReturnIP_index [of base bits m i] return by (auto split: if_splits)
  have "index_address base ` (in_use m - {i}) = index_address base ` in_use m - {a}"
    using i return.IH inj_on_image_set_diff [OF index_address_inj_on [OF assms(2)], of "in_use m" "{i}"] by auto
  with m' return.IH show ?case by auto
next
  case (refuse m as a m')
  then obtain i where i: "i \<in> in_use m" "i < 2 ^ bits - 2" "a = index_address base i" by auto
  then have "im_ok base bits m'" "in_use m' = in_use m"
    using ReturnIP_index [of base bits m i] refuse by (auto split: if_splits)
  with refuse.IH show ?case by auto
qed

text \<open>C18. Whatever allocations and returns came before, \<open>AllocateIP\<close> on an IPv4 range of at least four
  addresses reads nothing past its table, hands out an address of the range that nobody holds, and
  fails only when every usable address is held.\<close>

theorem AllocateIP_hands_out_free_addresses:
  assumes "im_reachable r m as" "v4_range r base bits" "2 \<le> bits"
  shows "\<exists>result m'. AllocateIP m = Some (result, m') \<and> distinct as \<and>
    (case result of
       None \<Rightarrow> set as = index_address base ` {..<2 ^ bits - 2}
     | Some a \<Rightarrow> a \<notin> set as \<and> a \<in> index_address base ` {..<2 ^ bits - 2})"
proof -
  note inv = im_reachable_inv [OF assms]
  obtain result m' where result: "AllocateIP m = Some (result, m')"
    "case result of
       None \<Rightarrow> in_use m = {..<2 ^ bits - 2} \<and> in_use m' = in_use m
     | Some a \<Rightarrow> \<exists>i < 2 ^ bits - 2. i \<notin> in_use m \<and> a = index_address base i \<and> in_use m' = insert i (in_use m)"
    using AllocateIP_cases [OF conjunct1 [OF inv]] by (elim exE conjE)
  show ?thesis
  proof (cases result)
    case None
    with result inv show ?thesis by auto
  next
    case (Some a)
    then obtain i where i: "i < 2 ^ bits - 2" "i \<notin> in_use m" "a = index_address base i"
      using result(2) by auto
    have "a \<notin> set as"
      using i inj_on_image_mem_iff [OF index_address_inj_on [OF assms(2)], of i "in_use m"] inv by simp
    with i Some result(1) inv show ?thesis by auto
  qed
qed

definition sample_range :: ip_range where
  "sample_range = \<lparr>rg_address = Some (IPv4Address 0x0a000000), rg_cidr = 30, rg_size = 2\<rparr>"

lemma sample_range_ok: "v4_range sample_range 0x0a000000 2"
  by (simp add: sample_range_def v4_range_def)

lemma AllocateIP_hands_out_free_addresses_witness:
  "\<exists>result m'. AllocateIP (IPManager_new sample_range) = Some (result, m')"
  using AllocateIP_hands_out_free_addresses [OF im_reachable.start sample_range_ok] by auto

text \<open>A held address that is returned becomes free again, except the last usable address of the
  range: \<open>ReturnIP\<close> refuses it, and it is never handed out again.\<close>

theorem ReturnIP_leaks_the_last_address:
  assumes "im_reachable r m as" "v4_range r base bits" "2 \<le> bits" "i \<in> in_use m"
  shows "\<exists>m'. ReturnIP (index_address base i) m = Some (i \<noteq> 2 ^ bits - 3, m') \<and>
    in_use m' = (if i = 2 ^ bits - 3 then in_use m else in_use m - {i})"
proof -
  note inv = im_reachable_inv [OF assms(1-3)]
  then have "i < 2 ^ bits - 2" using assms(4) by auto
  with ReturnIP_index [of base bits m i] inv assms(4) show ?thesis by auto
qed

lemma ReturnIP_leaks_the_last_address_witness:
  "\<exists>m m'. im_reachable sample_range m [IPv4Address 0x0a000002, IPv4Address 0x0a000001] \<and>
    ReturnIP (index_address 0x0a000000 1) m = Some (False, m') \<and> in_use m' = in_use m"
proof -
  let ?m1 = "\<lparr>im_range = sample_range, im_index = 1, im_used = [True]\<rparr>"
  let ?m2 = "\<lparr>im_range = sample_range, im_index = 0, im_used = [True, True]\<rparr>"
  have "AllocateIP (IPManager_new sample_range) = Some (Some (IPv4Address 0x0a000001), ?m1)"
    "AllocateIP ?m1 = Some (Some (IPv4Address 0x0a000002), ?m2)"
    by code_simp+
  then have reach: "im_reachable sample_range ?m2 [IPv4Address 0x0a000002, IPv4Address 0x0a000001]"
    by (intro im_reachable.allocate [OF im_reachable.allocate [OF im_reachable.start]])
  have "1 \<in> in_use ?m2" by (simp add: in_use_def)
  from ReturnIP_leaks_the_last_address [OF reach sample_range_ok _ this] reach show ?thesis by auto
qed

lemma private_ranges_split:
  "split_slash (str ''10.0.0.0/8'') = (str ''10.0.0.0'', Some (str ''8''))"
  "split_slash (str ''172.16.0.0/12'') = (str ''172.16.0.0'', Some (str ''12''))"
  "split_slash (str ''192.168.0.0/16'') = (str ''192.168.0.0'', Some (str ''16''))"
  "strtol10 (str ''8'') = (8, [])" "strtol10 (str ''12'') = (12, [])" "strtol10 (str ''16'') = (16, [])"
  "str ''8'' \<noteq> []" "str ''12'' \<noteq> []" "str ''16'' \<noteq> []"
  "int_of_long 8 = 8" "int_of_long 12 = 12" "int_of_long 16 = 16"
  by code_simp+

definition private_range :: "nat \<Rightarrow> ip_range" where
  "private_range i =
     [\<lparr>rg_address = Some (IPv4Address 0x0a000000), rg_cidr = 8, rg_size = 0xfffffe\<rparr>,
      \<lparr>rg_address = Some (IPv4Address 0xac100000), rg_cidr = 12, rg_size = 0xffffe\<rparr>,
      \<lparr>rg_address = Some (IPv4Address 0xc0a80000), rg_cidr = 16, rg_size = 0xfffe\<rparr>] ! i"

lemma private_ranges_set:
  "IPRange_set (IPv4Address 0x0a000000) 8 IPRange_new = Some (True, private_range 0)"
  "IPRange_set (IPv4Address 0xac100000) 12 IPRange_new = Some (True, private_range 1)"
  "IPRange_set (IPv4Address 0xc0a80000) 16 IPRange_new = Some (True, private_range 2)"
  by code_simp+



end
