(* ===== verification/Timers.thy ===== *)
theory Timers
  imports Prelude
begin

text \<open>
  \<open>src/src/linux/clock-timers.h\<close> and \<open>src/src/event-scheduler.h\<close>: points in time with nanoseconds, delays
  in milliseconds (32 bits), and the queue of events to run.
\<close>

section \<open>Timers\<close>

record timer =
  tv_sec :: int
  tv_nsec :: int

definition kTimerNone :: u32 where "kTimerNone = 0xffffffff"
definition kTimerMax :: u32 where "kTimerMax = kTimerNone - 1"

definition IncrementBy :: "u32 \<Rightarrow> timer \<Rightarrow> timer" where
  "IncrementBy amount t =
     (let nsec = tv_nsec t + uint ((amount mod 1000) * 1000000)
      in \<lparr>tv_sec = tv_sec t + (nsec div 1000000000 + uint (amount div 1000)), tv_nsec = nsec mod 1000000000\<rparr>)"

definition IsBefore :: "timer \<Rightarrow> timer \<Rightarrow> bool" where
  "IsBefore t other \<longleftrightarrow> tv_sec t < tv_sec other \<or> tv_sec t = tv_sec other \<and> tv_nsec t < tv_nsec other"

definition IsSame :: "timer \<Rightarrow> timer \<Rightarrow> bool" where
  "IsSame t other \<longleftrightarrow> tv_sec t = tv_sec other \<and> tv_nsec t = tv_nsec other"

text \<open>The difference is split in seconds and milliseconds before the overflow tests.\<close>

definition delta_from :: "timer \<Rightarrow> timer \<Rightarrow> int \<times> int" where
  "delta_from t past =
     (if tv_nsec past > tv_nsec t
      then ((tv_sec t - tv_sec past) - 1, 1000 - (tv_nsec past - tv_nsec t) div 1000000)
      else (tv_sec t - tv_sec past, (tv_nsec t - tv_nsec past) div 1000000))"

definition GetDelayFrom :: "timer \<Rightarrow> timer \<Rightarrow> u32" where
  "GetDelayFrom t past =
     (case delta_from t past of (delta_sec, delta_msec) \<Rightarrow>
        if delta_sec < 0 then 0
        else if delta_sec > uint (kTimerMax div 1000) then kTimerMax
        else
          let result = (of_int (delta_sec * 1000 + delta_msec) :: u32)
          in if of_int delta_sec \<ge> result \<or> result > kTimerMax then kTimerMax else result)"

text \<open>Nanoseconds since the epoch of the clock; a timer is well formed when its nanoseconds are.\<close>

definition timer_ns :: "timer \<Rightarrow> int" where
  "timer_ns t = tv_sec t * 1000000000 + tv_nsec t"

definition timer_ok :: "timer \<Rightarrow> bool" where
  "timer_ok t \<longleftrightarrow> 0 \<le> tv_nsec t \<and> tv_nsec t < 1000000000"

lemma IsBefore_ns: "timer_ok t \<Longrightarrow> timer_ok u \<Longrightarrow> IsBefore t u \<longleftrightarrow> timer_ns t < timer_ns u"
  by (auto simp: IsBefore_def timer_ns_def timer_ok_def)

lemma IsSame_eq: "IsSame t u \<longleftrightarrow> t = u"
  by (cases t; cases u) (auto simp: IsSame_def)

lemma uint_ms_parts:
  fixes a :: u32
  shows "uint ((a mod 1000) * 1000000) = (uint a mod 1000) * 1000000" "uint (a div 1000) = uint a div 1000"
proof -
  have "uint (a mod 1000) = uint a mod 1000" by (simp add: uint_mod_distrib)
  moreover have "uint a mod 1000 < 1000" "0 \<le> uint a mod 1000" by simp_all
  ultimately show "uint ((a mod 1000) * 1000000) = (uint a mod 1000) * 1000000"
    by (simp add: uint_word_ariths)
  show "uint (a div 1000) = uint a div 1000" by (simp add: uint_div_distrib)
qed

lemma IncrementBy_ns:
  assumes "timer_ok t"
  shows "timer_ok (IncrementBy a t)" "timer_ns (IncrementBy a t) = timer_ns t + uint a * 1000000"
proof -
  show "timer_ok (IncrementBy a t)" by (simp add: timer_ok_def IncrementBy_def Let_def)
  define n where "n = tv_nsec t + (uint a mod 1000) * 1000000"
  have "timer_ns (IncrementBy a t) = tv_sec t * 1000000000 + (n div 1000000000 * 1000000000 + n mod 1000000000)
      + uint a div 1000 * 1000000000"
    by (simp add: timer_ns_def IncrementBy_def Let_def uint_ms_parts n_def algebra_simps)
  also have "\<dots> = tv_sec t * 1000000000 + tv_nsec t + (uint a mod 1000 + uint a div 1000 * 1000) * 1000000"
    unfolding div_mult_mod_eq n_def by (simp only: distrib_right mult.assoc)
  also have "uint a mod 1000 + uint a div 1000 * 1000 = uint a" by (rule mod_div_mult_eq)
  finally show "timer_ns (IncrementBy a t) = timer_ns t + uint a * 1000000"
    by (simp only: timer_ns_def)
qed

text \<open>The delay in milliseconds, before it is held to 32 bits.\<close>

definition delay_ms :: "timer \<Rightarrow> timer \<Rightarrow> int" where
  "delay_ms t past = (case delta_from t past of (s, ms) \<Rightarrow> s * 1000 + ms)"

lemma delay_ms_close:
  assumes "timer_ok t" "timer_ok past"
  shows "\<bar>delay_ms t past * 1000000 - (timer_ns t - timer_ns past)\<bar> < 1000000"
proof -
  have div: "x - 1000000 < x div 1000000 * 1000000 \<and> x div 1000000 * 1000000 \<le> x" for x :: int
    using div_mult_mod_eq [of x 1000000] pos_mod_bound [of 1000000 x] pos_mod_sign [of 1000000 x] by linarith
  show ?thesis
    using div [of "tv_nsec past - tv_nsec t"] div [of "tv_nsec t - tv_nsec past"]
    by (auto simp: delay_ms_def delta_from_def timer_ns_def abs_less_iff algebra_simps)
qed

lemma delta_bounds:
  assumes "timer_ok t" "timer_ok past"
  shows "0 \<le> snd (delta_from t past)" "snd (delta_from t past) \<le> 1000"
  using assms by (auto simp: delta_from_def timer_ok_def)

lemma uint_of_int_small: "0 \<le> v \<Longrightarrow> v < 4294967296 \<Longrightarrow> uint (word_of_int v :: u32) = v"
  by (simp add: uint_word_of_int_eq take_bit_int_eq_self)

lemma GetDelayFrom_ms:
  assumes "timer_ok t" "timer_ok past"
  shows "uint (GetDelayFrom t past) =
    (if delta_from t past = (0, 0) then 4294967294
     else if fst (delta_from t past) < 0 then 0
     else min (delay_ms t past) 4294967294)"
proof -
  obtain s ms where d: "delta_from t past = (s, ms)" by fastforce
  then have ms: "0 \<le> ms" "ms \<le> 1000" using delta_bounds [OF assms] by simp_all
  let ?v = "s * 1000 + ms" and ?r = "word_of_int (s * 1000 + ms) :: u32"
  have max: "uint kTimerMax = 4294967294" "uint (kTimerMax div 1000) = 4294967"
    by (simp_all add: kTimerMax_def kTimerNone_def)
  have delay: "delay_ms t past = ?v" by (simp add: delay_ms_def d)
  consider "s < 0" | "4294967 < s" | (fits) "0 \<le> s" "s \<le> 4294967" "?v < 4294967296"
    | (wraps) "0 \<le> s" "s \<le> 4294967" "4294967296 \<le> ?v" by linarith
  then show ?thesis
  proof cases
    case fits
    then have r: "uint ?r = ?v" "uint (word_of_int s :: u32) = s"
      using ms by (simp_all only: uint_of_int_small)
    have "word_of_int s \<ge> ?r \<longleftrightarrow> (s, ms) = (0, 0)" "?r > kTimerMax \<longleftrightarrow> 4294967294 < ?v"
      using fits ms by (auto simp: word_le_def word_less_def r max simp del: of_int_add of_int_mult)
    with fits show ?thesis
      by (simp add: GetDelayFrom_def d max delay Let_def r del: of_int_add of_int_mult)
  next
    case wraps
    then have "uint ?r = ?v - 4294967296" "uint (word_of_int s :: u32) = s"
      using ms by (simp_all add: uint_word_of_int_eq take_bit_int_eq_self take_bit_eq_mod flip: minus_mod_self2 [of ?v 4294967296] del: of_int_add of_int_mult minus_mod_self2)
    then have "word_of_int s \<ge> ?r" using wraps ms by (simp add: word_le_def)
    with wraps show ?thesis
      by (simp add: GetDelayFrom_def d max delay Let_def del: of_int_add of_int_mult)
  next
    case 2
    then have "min ?v 4294967294 = 4294967294" using ms by simp
    with 2 show ?thesis by (simp add: GetDelayFrom_def d max delay)
  qed (simp add: GetDelayFrom_def d)
qed

lemma delta_sign:
  assumes "timer_ok t" "timer_ok past"
  shows "fst (delta_from t past) < 0 \<longleftrightarrow> timer_ns t < timer_ns past"
  using assms by (auto simp: delta_from_def timer_ns_def timer_ok_def)

lemma delta_zero:
  assumes "timer_ok t" "timer_ok past" "delta_from t past = (0, 0)"
  shows "tv_sec t = tv_sec past" "timer_ns past \<le> timer_ns t" "timer_ns t < timer_ns past + 1000000"
  using assms delay_ms_close [OF assms(1,2)] by (auto simp: delta_from_def timer_ns_def timer_ok_def delay_ms_def split: if_splits)

text \<open>The delay between two points in time is their distance rounded to milliseconds (by less than
  one), 0 when the point lies in the past, and held at \<open>kTimerMax\<close> however far away it is: provided
  they are not in the same second and less than a millisecond apart.\<close>
theorem GetDelayFrom_measures_the_distance:
  assumes "timer_ok t" "timer_ok past"
    "\<not> (tv_sec t = tv_sec past \<and> timer_ns past \<le> timer_ns t \<and> timer_ns t < timer_ns past + 1000000)"
  shows "\<exists>ms. \<bar>ms * 1000000 - (timer_ns t - timer_ns past)\<bar> < 1000000 \<and>
    uint (GetDelayFrom t past) = (if timer_ns t < timer_ns past then 0 else min ms (uint kTimerMax))"
proof (intro exI conjI)
  show "\<bar>delay_ms t past * 1000000 - (timer_ns t - timer_ns past)\<bar> < 1000000"
    using assms(1,2) by (rule delay_ms_close)
  have "delta_from t past \<noteq> (0, 0)" using assms delta_zero by blast
  then show "uint (GetDelayFrom t past) =
      (if timer_ns t < timer_ns past then 0 else min (delay_ms t past) (uint kTimerMax))"
    by (simp add: GetDelayFrom_ms [OF assms(1,2)] delta_sign [OF assms(1,2)] kTimerMax_def kTimerNone_def)
qed

theorem GetDelayFrom_measures_the_distance_witness:
  "\<exists>ms. \<bar>ms * 1000000 - (timer_ns \<lparr>tv_sec = 6, tv_nsec = 200\<rparr> - timer_ns \<lparr>tv_sec = 4, tv_nsec = 999000000\<rparr>)\<bar> < 1000000 \<and>
    uint (GetDelayFrom \<lparr>tv_sec = 6, tv_nsec = 200\<rparr> \<lparr>tv_sec = 4, tv_nsec = 999000000\<rparr>) =
    (if timer_ns \<lparr>tv_sec = 6, tv_nsec = 200\<rparr> < timer_ns \<lparr>tv_sec = 4, tv_nsec = 999000000\<rparr> then 0
     else min ms (uint kTimerMax))"
  by (rule GetDelayFrom_measures_the_distance) (simp_all add: timer_ok_def timer_ns_def)

text \<open>When the two points are in the same second and less than a millisecond apart, the test for
  an overflow takes the delay 0 for one: the result is \<open>kTimerMax\<close>, 49 days. In particular an event
  that is due exactly now has that delay.\<close>
theorem GetDelayFrom_of_due_event_is_max:
  "GetDelayFrom t t = kTimerMax \<and>
   GetDelayFrom \<lparr>tv_sec = 7, tv_nsec = 500999999\<rparr> \<lparr>tv_sec = 7, tv_nsec = 500000000\<rparr> = kTimerMax"
  by (simp add: GetDelayFrom_def delta_from_def Let_def)

section \<open>Events\<close>

text \<open>
  An \<open>Event\<close> keeps the point in time it runs at; an \<open>ExponentialBackoffEvent\<close> also its start, its
  current delay and its longest step. The queue holds pointers to events, here numbers, and the
  events live in a store: changing an event's time while it is queued changes the key of its entry.
  The priority queue is a list whose head is its top. \<open>push\<close> puts an entry before the first one that
  is strictly later, \<open>pop\<close> takes the head away.
\<close>

record backoff =
  bo_start :: timer
  bo_delay :: u32
  bo_max :: u32

record event =
  ev_when :: timer
  ev_backoff :: "backoff option"

record sched =
  events :: "nat \<Rightarrow> event"
  queue :: "nat list"

definition GetWhen :: "sched \<Rightarrow> nat \<Rightarrow> timer" where
  "GetWhen s e = ev_when (events s e)"

fun push :: "(nat \<Rightarrow> timer) \<Rightarrow> nat \<Rightarrow> nat list \<Rightarrow> nat list" where
  "push k e [] = [e]"
| "push k e (x # q) = (if IsBefore (k e) (k x) then e # x # q else x # push k e q)"

definition AddEvent :: "nat \<Rightarrow> sched \<Rightarrow> sched" where
  "AddEvent e s = s\<lparr>queue := push (GetWhen s) e (queue s)\<rparr>"

definition SetWhen :: "nat \<Rightarrow> timer \<Rightarrow> sched \<Rightarrow> sched" where
  "SetWhen e t s = s\<lparr>events := (events s)(e := (events s e)\<lparr>ev_when := t\<rparr>)\<rparr>"

definition OneOff_Start :: "nat \<Rightarrow> timer \<Rightarrow> sched \<Rightarrow> sched" where
  "OneOff_Start e t s = AddEvent e (SetWhen e t s)"

definition Backoff_Start :: "nat \<Rightarrow> timer \<Rightarrow> u32 \<Rightarrow> u32 \<Rightarrow> sched \<Rightarrow> sched" where
  "Backoff_Start e start initial mx s =
     (let s' = s\<lparr>events := (events s)(e := (events s e)\<lparr>ev_backoff := Some \<lparr>bo_start = start, bo_delay = initial, bo_max = mx\<rparr>\<rparr>)\<rparr>
      in AddEvent e (SetWhen e (IncrementBy initial start) s'))"

text \<open>What the body of an event's callback asks of the scheduler: to start events.\<close>

datatype request = StartOneOff nat timer | StartBackoff nat timer u32 u32

fun perform :: "request \<Rightarrow> sched \<Rightarrow> sched" where
  "perform (StartOneOff e t) s = OneOff_Start e t s"
| "perform (StartBackoff e start initial mx) s = Backoff_Start e start initial mx s"

type_synonym 'w callback = "nat \<Rightarrow> 'w \<Rightarrow> bool \<times> request list \<times> 'w"

definition next_delay :: "backoff \<Rightarrow> u32" where
  "next_delay b =
     (let next = push_bit 1 (bo_delay b)
      in if bo_delay b + next < bo_delay b \<or> next \<ge> bo_max b then bo_delay b + bo_max b
         else bo_delay b + next)"

definition reschedule :: "nat \<Rightarrow> backoff \<Rightarrow> sched \<Rightarrow> sched" where
  "reschedule e b s =
     (let d = next_delay b;
          s' = s\<lparr>events := (events s)(e := (events s e)\<lparr>ev_backoff := Some (b\<lparr>bo_delay := d\<rparr>)\<rparr>)\<rparr>
      in AddEvent e (SetWhen e (IncrementBy d (bo_start b)) s'))"

definition Run :: "'w callback \<Rightarrow> nat \<Rightarrow> 'w \<times> sched \<Rightarrow> 'w \<times> sched" where
  "Run cb e ws =
     (case cb e (fst ws) of (ok, requests, w) \<Rightarrow>
        let s = fold perform requests (snd ws)
        in (w, case ev_backoff (events s e) of
                 None \<Rightarrow> s
               | Some b \<Rightarrow> if ok then s else reschedule e b s))"

definition due :: "timer \<Rightarrow> sched \<Rightarrow> nat \<Rightarrow> bool" where
  "due now s e \<longleftrightarrow> IsBefore (GetWhen s e) now \<or> IsSame (GetWhen s e) now"

definition pop :: "sched \<Rightarrow> sched" where
  "pop s = s\<lparr>queue := tl (queue s)\<rparr>"

partial_function (option) ProcessPendingEvents ::
  "'w callback \<Rightarrow> timer \<Rightarrow> 'w \<times> sched \<Rightarrow> ('w \<times> sched) option" where
  "ProcessPendingEvents cb now ws =
     (if queue (snd ws) = [] then Some ws
      else let e = hd (queue (snd ws)) in
        if \<not> due now (snd ws) e then Some ws
        else ProcessPendingEvents cb now (let ws' = Run cb e ws in (fst ws', pop (snd ws'))))"

definition GetTimeUntilNextEvent :: "timer \<Rightarrow> sched \<Rightarrow> u32" where
  "GetTimeUntilNextEvent now s =
     (if queue s = [] then kTimerMax else GetDelayFrom (GetWhen s (hd (queue s))) now)"

text \<open>The queue is in order when no event is strictly before one that is queued in front of it.\<close>

definition in_order :: "sched \<Rightarrow> bool" where
  "in_order s \<longleftrightarrow> sorted_wrt (\<lambda>e f. \<not> IsBefore (GetWhen s f) (GetWhen s e)) (queue s) \<and> distinct (queue s)"

lemma IsBefore_order:
  "\<not> IsBefore t t"
  "IsBefore t u \<Longrightarrow> IsBefore u v \<Longrightarrow> IsBefore t v"
  "\<not> IsBefore u t \<Longrightarrow> \<not> IsBefore v u \<Longrightarrow> \<not> IsBefore v t"
  "IsBefore t u \<Longrightarrow> \<not> IsBefore u t"
  by (auto simp: IsBefore_def)

lemma due_iff: "due now s e \<longleftrightarrow> \<not> IsBefore now (GetWhen s e)"
  by (auto simp: due_def IsBefore_def IsSame_def)

lemma set_push [simp]: "set (push k e q) = insert e (set q)"
  by (induction q) auto

lemma distinct_push [simp]: "distinct (push k e q) \<longleftrightarrow> e \<notin> set q \<and> distinct q"
  by (induction q) auto

lemma sorted_push:
  assumes "sorted_wrt (\<lambda>e f. \<not> IsBefore (k f) (k e)) q"
  shows "sorted_wrt (\<lambda>e f. \<not> IsBefore (k f) (k e)) (push k e q)"
  using assms
proof (induction q)
  case (Cons x q)
  then show ?case
    by (auto dest: IsBefore_order(2,4))
qed (simp)

lemma filter_push: "\<not> P e \<Longrightarrow> filter P (push k e q) = filter P q"
  by (induction q) auto

lemma push_same_head: "push k e (e # q) = e # push k e q"
  by (simp add: IsBefore_order)

text \<open>A callback settles its event when it does not leave it due: it starts nothing but, at most, its own
  one-off event at a time after the present one; or it is the attempt of a backoff event that succeeds
  or whose next attempt is after the present time.\<close>

definition settles :: "'w callback \<Rightarrow> timer \<Rightarrow> nat \<Rightarrow> event \<Rightarrow> bool" where
  "settles cb now e ev \<longleftrightarrow>
     (\<forall>w. case cb e w of (ok, requests, _) \<Rightarrow>
        (case ev_backoff ev of
           None \<Rightarrow> requests = [] \<or> (\<exists>t. requests = [StartOneOff e t] \<and> IsBefore now t)
         | Some b \<Rightarrow> requests = [] \<and> (ok \<or> IsBefore now (IncrementBy (next_delay b) (bo_start b)))))"

lemma restart_pop:
  assumes "queue s = e # q"
  shows "queue (pop (AddEvent e (SetWhen e t s))) = push (GetWhen (SetWhen e t s)) e q"
    "events (pop (AddEvent e (SetWhen e t s))) = (events s)(e := (events s e)\<lparr>ev_when := t\<rparr>)"
    "GetWhen (pop (AddEvent e (SetWhen e t s))) = GetWhen (SetWhen e t s)"
  using assms by (simp_all add: pop_def AddEvent_def SetWhen_def push_same_head GetWhen_def fun_eq_iff IsBefore_order)

lemma Run_settled:
  assumes "settles cb now e (events s e)" "queue s = e # q"
  obtains s' where "Run cb e (w, s) = (snd (snd (cb e w)), s')" "\<forall>f. f \<noteq> e \<longrightarrow> events s' f = events s f"
    "queue (pop s') = q \<or> queue (pop s') = push (GetWhen (pop s')) e q \<and> IsBefore now (GetWhen (pop s') e)"
proof -
  note result = that
  obtain ok rs w' where cb: "cb e w = (ok, rs, w')" by (cases "cb e w")
  note step = assms(1) [unfolded settles_def, rule_format, of w, unfolded cb split]
  have restart: thesis
    if "Run cb e (w, s) = (w', AddEvent e (SetWhen e t s0))" "IsBefore now t" "queue s0 = e # q"
      "\<forall>f. f \<noteq> e \<longrightarrow> events s0 f = events s f" for t s0
    using that restart_pop [OF that(3), of t] cb
    by (intro result [of "AddEvent e (SetWhen e t s0)"]) (auto simp: pop_def GetWhen_def SetWhen_def AddEvent_def)
  show thesis
  proof (cases "ev_backoff (events s e)")
    case None
    with step consider "rs = []" | t where "rs = [StartOneOff e t]" "IsBefore now t" by auto
    then show thesis
    proof cases
      case 1
      with None assms(2) cb show thesis by (intro result [of s]) (auto simp: Run_def pop_def Let_def)
    next
      case 2
      have "ev_backoff (events (OneOff_Start e t s) e) = None"
        using None by (simp add: OneOff_Start_def AddEvent_def SetWhen_def)
      with 2 cb assms(2) show thesis
        by (intro restart [of t s]) (simp_all add: Run_def Let_def OneOff_Start_def)
    qed
  next
    case (Some b)
    with step have rs: "rs = []" and out: "ok \<or> IsBefore now (IncrementBy (next_delay b) (bo_start b))" by simp_all
    show thesis
    proof (cases ok)
      case True
      with Some rs assms(2) cb show thesis by (intro result [of s]) (auto simp: Run_def pop_def Let_def)
    next
      case False
      with Some rs assms(2) cb out show thesis
        by (intro restart [of _ "s\<lparr>events := (events s)(e := (events s e)\<lparr>ev_backoff := Some (b\<lparr>bo_delay := next_delay b\<rparr>)\<rparr>)\<rparr>"])
          (auto simp: Run_def reschedule_def Let_def)
    qed
  qed
qed

text \<open>One round of the loop.\<close>

lemma round_runs:
  assumes ord: "in_order s" and settled: "\<forall>e\<in>set (queue s). due now s e \<longrightarrow> settles cb now e (events s e)"
    and some: "filter (due now s) (queue s) \<noteq> []"
  obtains e s1 where "ProcessPendingEvents cb now (w, s) = ProcessPendingEvents cb now (snd (snd (cb e w)), s1)"
    "filter (due now s) (queue s) = e # filter (due now s1) (queue s1)" "in_order s1"
    "\<forall>f\<in>set (queue s1). due now s1 f \<longrightarrow> settles cb now f (events s1 f)"
    "{f\<in>set (queue s). \<not> due now s f} \<subseteq> {f\<in>set (queue s1). \<not> due now s1 f}" "set (queue s1) \<subseteq> set (queue s)"
    "\<forall>f. f \<notin> set (queue s) \<or> \<not> due now s f \<longrightarrow> (f \<notin> set (queue s1) \<or> \<not> due now s1 f) \<and> events s1 f = events s f"
proof -
  obtain e q where q: "queue s = e # q" using some by (cases "queue s") auto
  have due: "due now s e"
  proof (rule ccontr)
    assume "\<not> due now s e"
    with ord q have "\<forall>f\<in>set (e # q). \<not> due now s f"
      by (auto simp: in_order_def due_iff dest: IsBefore_order(3))
    with some q show False by (simp add: filter_empty_conv split: if_splits)
  qed
  have "settles cb now e (events s e)" using settled q due by simp
  then obtain s' where run: "Run cb e (w, s) = (snd (snd (cb e w)), s')"
    and other: "\<forall>f. f \<noteq> e \<longrightarrow> events s' f = events s f"
    and queue': "queue (pop s') = q \<or> queue (pop s') = push (GetWhen (pop s')) e q \<and> IsBefore now (GetWhen (pop s') e)"
    using q by (rule Run_settled)
  let ?s = "pop s'"
  have ev: "events ?s = events s'" by (simp add: pop_def)
  have e: "e \<notin> set q" using ord q by (simp add: in_order_def)
  then have same: "GetWhen ?s f = GetWhen s f" "due now ?s f = due now s f" if "f \<in> set q" for f
    using other that by (auto simp: due_iff GetWhen_def ev)
  have sorted: "sorted_wrt (\<lambda>e f. \<not> IsBefore (GetWhen ?s f) (GetWhen ?s e)) q"
    using ord q same(1) by (auto simp: in_order_def elim!: sorted_wrt_mono_rel [rotated])
  have "filter (due now ?s) (queue ?s) = filter (due now ?s) q" using queue' by (auto simp: filter_push due_iff)
  also have "\<dots> = filter (due now s) q" by (rule filter_cong) (simp_all add: same(2))
  finally have dues: "filter (due now ?s) (queue ?s) = filter (due now s) q" .
  have kept: "f \<in> set q" "f \<noteq> e" if "f \<in> set (queue ?s)" "due now ?s f" for f
    using that queue' e by (auto simp: due_iff)
  have sets: "set q \<subseteq> set (queue ?s)" "set (queue ?s) \<subseteq> insert e (set q)" using queue' by auto
  show thesis
  proof (rule that [of e ?s])
    show "ProcessPendingEvents cb now (w, s) = ProcessPendingEvents cb now (snd (snd (cb e w)), ?s)"
      using q due run by (subst ProcessPendingEvents.simps) (simp add: Let_def)
    show "filter (due now s) (queue s) = e # filter (due now ?s) (queue ?s)" using q due dues by simp
    show "in_order ?s" using queue' sorted e ord q by (auto simp: in_order_def intro: sorted_push)
    show "\<forall>f\<in>set (queue ?s). due now ?s f \<longrightarrow> settles cb now f (events ?s f)"
    proof (intro ballI impI)
      fix f
      assume f: "f \<in> set (queue ?s)" "due now ?s f"
      then have "due now s f" "events ?s f = events s f" using kept [OF f] same(2) other by (simp_all add: ev)
      then show "settles cb now f (events ?s f)" using settled q kept [OF f] by simp
    qed
    show "{f\<in>set (queue s). \<not> due now s f} \<subseteq> {f\<in>set (queue ?s). \<not> due now ?s f}" using q due same(2) sets(1) by auto
    show "set (queue ?s) \<subseteq> set (queue s)" using sets(2) q by auto
    show "\<forall>f. f \<notin> set (queue s) \<or> \<not> due now s f \<longrightarrow> (f \<notin> set (queue ?s) \<or> \<not> due now ?s f) \<and> events ?s f = events s f"
    proof (intro allI impI)
      fix f
      assume f: "f \<notin> set (queue s) \<or> \<not> due now s f"
      then have "f \<noteq> e" using q due by auto
      then have "events ?s f = events s f" using other ev by simp
      moreover have "f \<notin> set (queue ?s) \<or> \<not> due now ?s f" using f kept [of f] same(2) [of f] q by auto
      ultimately show "(f \<notin> set (queue ?s) \<or> \<not> due now ?s f) \<and> events ?s f = events s f" by simp
    qed
  qed
qed

text \<open>C16. If every due event's callback settles it, \<open>ProcessPendingEvents\<close> returns, has called the
  callbacks of exactly the events that were due, each once and in the order of the queue, leaves no due event,
  loses no other event and changes none, and the queue is still in order.\<close>
theorem ProcessPendingEvents_runs_due_events:
  assumes "in_order s" "\<forall>e\<in>set (queue s). due now s e \<longrightarrow> settles cb now e (events s e)"
  shows "\<exists>s'. ProcessPendingEvents cb now (w, s) =
      Some (fold (\<lambda>e w. snd (snd (cb e w))) (filter (due now s) (queue s)) w, s') \<and>
    in_order s' \<and> (\<forall>e\<in>set (queue s'). \<not> due now s' e) \<and>
    {e\<in>set (queue s). \<not> due now s e} \<subseteq> set (queue s') \<and> set (queue s') \<subseteq> set (queue s) \<and>
    (\<forall>e. e \<notin> set (queue s) \<or> \<not> due now s e \<longrightarrow> events s' e = events s e)"
  using assms
proof (induction "length (filter (due now s) (queue s))" arbitrary: s w)
  case 0
  then have none: "\<forall>e\<in>set (queue s). \<not> due now s e" by (auto simp: filter_empty_conv)
  then have "ProcessPendingEvents cb now (w, s) = Some (w, s)"
    by (subst ProcessPendingEvents.simps) (auto simp: Let_def)
  with none 0 show ?case by (auto simp: filter_empty_conv)
next
  case (Suc n)
  have some: "filter (due now s) (queue s) \<noteq> []" using Suc(2) by auto
  obtain e s1 where one: "ProcessPendingEvents cb now (w, s) = ProcessPendingEvents cb now (snd (snd (cb e w)), s1)"
    "filter (due now s) (queue s) = e # filter (due now s1) (queue s1)" "in_order s1"
    "\<forall>f\<in>set (queue s1). due now s1 f \<longrightarrow> settles cb now f (events s1 f)"
    "{f\<in>set (queue s). \<not> due now s f} \<subseteq> {f\<in>set (queue s1). \<not> due now s1 f}" "set (queue s1) \<subseteq> set (queue s)"
    "\<forall>f. f \<notin> set (queue s) \<or> \<not> due now s f \<longrightarrow> (f \<notin> set (queue s1) \<or> \<not> due now s1 f) \<and> events s1 f = events s f"
    by (rule round_runs [OF Suc(3,4) some, of w])
  have "n = length (filter (due now s1) (queue s1))" using Suc(2) one(2) by simp
  from Suc(1) [OF this one(3,4), of "snd (snd (cb e w))"] one(1) obtain t where
    t: "ProcessPendingEvents cb now (w, s) = Some (fold (\<lambda>e w. snd (snd (cb e w))) (filter (due now s) (queue s)) w, t)"
      "in_order t" "\<forall>e\<in>set (queue t). \<not> due now t e"
      "{e\<in>set (queue s1). \<not> due now s1 e} \<subseteq> set (queue t)" "set (queue t) \<subseteq> set (queue s1)"
      "\<forall>e. e \<notin> set (queue s1) \<or> \<not> due now s1 e \<longrightarrow> events t e = events s1 e"
    by (auto simp: one(2))
  have "{f\<in>set (queue s). \<not> due now s f} \<subseteq> set (queue t)" using one(5) t(4) by (rule order_trans)
  moreover have "set (queue t) \<subseteq> set (queue s)" using t(5) one(6) by (rule order_trans)
  moreover have "\<forall>f. f \<notin> set (queue s) \<or> \<not> due now s f \<longrightarrow> events t f = events s f" using t(6) one(7) by metis
  ultimately show ?case using t(1-3) by blast
qed

text \<open>Event 1 runs every second from the second 10 on, event 2 is a backoff event whose attempt fails.
  At the second 12 both run once.\<close>

definition ticker :: "(nat \<times> nat list) callback" where
  "ticker e w =
     (if e = 1 then (False, [StartOneOff 1 \<lparr>tv_sec = 13, tv_nsec = 0\<rparr>], w)
      else (False, [], fst w + 1, snd w @ [e]))"

definition two_events :: sched where
  "two_events = Backoff_Start 2 \<lparr>tv_sec = 10, tv_nsec = 0\<rparr> 1000 60000
     (OneOff_Start 1 \<lparr>tv_sec = 12, tv_nsec = 0\<rparr>
       \<lparr>events = (\<lambda>_. \<lparr>ev_when = \<lparr>tv_sec = 0, tv_nsec = 0\<rparr>, ev_backoff = None\<rparr>), queue = []\<rparr>)"

lemma two_events_settle:
  "in_order two_events \<and> (\<forall>e\<in>set (queue two_events). due \<lparr>tv_sec = 12, tv_nsec = 0\<rparr> two_events e \<longrightarrow>
     settles ticker \<lparr>tv_sec = 12, tv_nsec = 0\<rparr> e (events two_events e))"
  by (simp add: two_events_def in_order_def Backoff_Start_def OneOff_Start_def AddEvent_def SetWhen_def
      GetWhen_def IsBefore_def IncrementBy_def Let_def due_def settles_def ticker_def next_delay_def split_beta)

theorem ProcessPendingEvents_runs_due_events_witness:
  "\<exists>s'. ProcessPendingEvents ticker \<lparr>tv_sec = 12, tv_nsec = 0\<rparr> ((0, []), two_events) =
      Some (fold (\<lambda>e w. snd (snd (ticker e w))) (filter (due \<lparr>tv_sec = 12, tv_nsec = 0\<rparr> two_events) (queue two_events)) (0, []), s') \<and>
    in_order s' \<and> (\<forall>e\<in>set (queue s'). \<not> due \<lparr>tv_sec = 12, tv_nsec = 0\<rparr> s' e) \<and>
    {e\<in>set (queue two_events). \<not> due \<lparr>tv_sec = 12, tv_nsec = 0\<rparr> two_events e} \<subseteq> set (queue s') \<and>
    set (queue s') \<subseteq> set (queue two_events) \<and>
    (\<forall>e. e \<notin> set (queue two_events) \<or> \<not> due \<lparr>tv_sec = 12, tv_nsec = 0\<rparr> two_events e \<longrightarrow>
      events s' e = events two_events e)"
  by (rule ProcessPendingEvents_runs_due_events) (rule two_events_settle [THEN conjunct1] two_events_settle [THEN conjunct2])+

lemma ProcessPendingEvents_stuck:
  assumes "queue s = e # q" "due now s e" "Run cb e (w, s) = (w, s')" "pop s' = s"
  shows "ProcessPendingEvents cb now (w, s) = None"
proof -
  have "ProcessPendingEvents c t ws = Some r \<Longrightarrow> c = cb \<longrightarrow> t = now \<longrightarrow> ws \<noteq> (w, s)" for c t ws r
    by (erule ProcessPendingEvents.raw_induct [rotated]) (use assms in \<open>fastforce simp: Let_def split: if_splits\<close>)
  then show ?thesis by (metis not_Some_eq)
qed

definition stuck_event :: sched where
  "stuck_event = Backoff_Start 1 \<lparr>tv_sec = 0, tv_nsec = 0\<rparr> 0x80000000 0xf0000000
     \<lparr>events = (\<lambda>_. \<lparr>ev_when = \<lparr>tv_sec = 0, tv_nsec = 0\<rparr>, ev_backoff = None\<rparr>), queue = []\<rparr>"

text \<open>A backoff event whose delay has its top bit set shifts it out: the next delay is the same as
  before, and when the attempt fails at a time after that delay, \<open>ProcessPendingEvents\<close> runs the event for
  ever.\<close>
theorem Backoff_shifted_out_never_returns:
  "next_delay \<lparr>bo_start = t, bo_delay = 0x80000000, bo_max = 0xf0000000\<rparr> = 0x80000000 \<and>
   ProcessPendingEvents (\<lambda>_ _. (False, [], ())) \<lparr>tv_sec = 3000000, tv_nsec = 0\<rparr> ((), stuck_event) = None"
proof
  show "next_delay \<lparr>bo_start = t, bo_delay = 0x80000000, bo_max = 0xf0000000\<rparr> = 0x80000000"
    by (simp add: next_delay_def)
  show "ProcessPendingEvents (\<lambda>_ _. (False, [], ())) \<lparr>tv_sec = 3000000, tv_nsec = 0\<rparr> ((), stuck_event) = None"
    by (rule ProcessPendingEvents_stuck [of _ 1 "[]" _ _ _ "stuck_event\<lparr>queue := [1, 1]\<rparr>"])
      (simp_all add: stuck_event_def Backoff_Start_def AddEvent_def SetWhen_def Let_def due_def GetWhen_def
        IsBefore_def IncrementBy_def Run_def reschedule_def next_delay_def pop_def fun_eq_iff)
qed

end
