(* ===== verification/Keys.thy ===== *)
theory Keys
  imports Hashing
begin

text \<open>
  \<open>src/src/static-key.h\<close> and \<open>src/src/connection-key.h\<close>: blobs of bytes used as keys, their equality and
  hash functors, and the \<open>unordered_map\<close> (with the helpers of \<open>src/src/stl-helpers.h\<close>) they index.

  A key's buffer is its \<open>SIZE\<close> bytes; the ones above \<open>size_\<close> are whatever was in memory. A handler
  pointer is a 64 bit number, kept in memory with its least significant byte first.
\<close>

section \<open>Keys\<close>

record dynamic_key =
  dk_buffer :: bytes
  dk_size :: u16

definition dk_new :: "bytes \<Rightarrow> dynamic_key" where
  "dk_new memory = \<lparr>dk_buffer = memory, dk_size = 0\<rparr>"

definition dk_Add :: "nat \<Rightarrow> bytes \<Rightarrow> u16 \<Rightarrow> 'a dynamic_key_scheme \<Rightarrow> 'a dynamic_key_scheme option" where
  "dk_Add SIZE data sz k = do {
     fatal_unless (unat (dk_size k) + unat sz \<le> SIZE \<and> unat (dk_size k) + unat sz \<ge> unat (dk_size k));
     Some (k\<lparr>dk_buffer := take (unat (dk_size k)) (dk_buffer k) @ take (unat sz) data @
                            drop (unat (dk_size k) + unat sz) (dk_buffer k),
              dk_size := dk_size k + sz\<rparr>)
   }"

definition dk_content :: "'a dynamic_key_scheme \<Rightarrow> bytes" where
  "dk_content k = take (unat (dk_size k)) (dk_buffer k)"

definition dk_equal :: "'a dynamic_key_scheme \<Rightarrow> 'b dynamic_key_scheme \<Rightarrow> bool" where
  "dk_equal k l = (if dk_size k \<noteq> dk_size l then False
     else take (unat (dk_size l)) (dk_buffer k) = take (unat (dk_size l)) (dk_buffer l))"

definition dk_hash :: "'a dynamic_key_scheme \<Rightarrow> u64" where
  "dk_hash k = DefaultHash (take (unat (dk_size k)) (dk_buffer k)) 0"

text \<open>A \<open>StaticKey\<close> is always full.\<close>

type_synonym static_key = bytes

definition sk_Add :: "nat \<Rightarrow> bytes \<Rightarrow> static_key" where
  "sk_Add SIZE data = take SIZE data"

definition sk_equal :: "nat \<Rightarrow> static_key \<Rightarrow> static_key \<Rightarrow> bool" where
  "sk_equal SIZE k l = (take SIZE k = take SIZE l)"

definition sk_hash :: "nat \<Rightarrow> static_key \<Rightarrow> u64" where
  "sk_hash SIZE k = DefaultHash (take SIZE k) 0"

text \<open>The key of a connection: up to 20 bytes and the object that made it.\<close>

definition kConnectionKeySize :: nat where
  "kConnectionKeySize = 20"

record connection_key = dynamic_key +
  cn_handler :: u64

definition cn_new :: "bytes \<Rightarrow> u64 \<Rightarrow> connection_key" where
  "cn_new memory handler = \<lparr>dk_buffer = memory, dk_size = 0, cn_handler = handler\<rparr>"

definition pointer_bytes :: "u64 \<Rightarrow> bytes" where
  "pointer_bytes p = map (\<lambda>i. ucast (drop_bit (8 * i) p)) [0..<8]"

definition cn_equal :: "connection_key \<Rightarrow> connection_key \<Rightarrow> bool" where
  "cn_equal k l = (if cn_handler k \<noteq> cn_handler l then False else dk_equal k l)"

definition cn_hash :: "connection_key \<Rightarrow> u64" where
  "cn_hash k = DefaultHash (pointer_bytes (cn_handler k)) (dk_hash k)"

section \<open>\<open>unordered_map\<close>\<close>

text \<open>
  A map is the list of its buckets, an entry goes to the bucket its hash selects, and within it the
  first entry with an equal key counts. \<open>um_find\<close> is \<open>StlMapGet\<close>: \<open>None\<close> for the null pointer.
\<close>

type_synonym ('k, 'v) unordered_map = "('k \<times> 'v) list list"

definition um_new :: "nat \<Rightarrow> ('k, 'v) unordered_map" where
  "um_new n = replicate n []"

definition bucket :: "('k \<Rightarrow> u64) \<Rightarrow> ('k, 'v) unordered_map \<Rightarrow> 'k \<Rightarrow> nat" where
  "bucket h m k = unat (h k) mod length m"

definition um_find :: "('k \<Rightarrow> 'k \<Rightarrow> bool) \<Rightarrow> ('k \<Rightarrow> u64) \<Rightarrow> ('k, 'v) unordered_map \<Rightarrow> 'k \<Rightarrow> 'v option" where
  "um_find eq h m k = map_option snd (List.find (\<lambda>e. eq (fst e) k) (m ! bucket h m k))"

fun set_entry :: "('k \<Rightarrow> 'k \<Rightarrow> bool) \<Rightarrow> 'k \<Rightarrow> 'v \<Rightarrow> ('k \<times> 'v) list \<Rightarrow> ('k \<times> 'v) list" where
  "set_entry eq k v [] = [(k, v)]"
| "set_entry eq k v (e # es) = (if eq (fst e) k then (fst e, v) # es else e # set_entry eq k v es)"

definition um_set :: "('k \<Rightarrow> 'k \<Rightarrow> bool) \<Rightarrow> ('k \<Rightarrow> u64) \<Rightarrow> 'k \<Rightarrow> 'v \<Rightarrow> ('k, 'v) unordered_map \<Rightarrow> ('k, 'v) unordered_map" where
  "um_set eq h k v m = m[bucket h m k := set_entry eq k v (m ! bucket h m k)]"

definition um_erase :: "('k \<Rightarrow> 'k \<Rightarrow> bool) \<Rightarrow> ('k \<Rightarrow> u64) \<Rightarrow> 'k \<Rightarrow> ('k, 'v) unordered_map \<Rightarrow> ('k, 'v) unordered_map" where
  "um_erase eq h k m = m[bucket h m k := filter (\<lambda>e. \<not> eq (fst e) k) (m ! bucket h m k)]"

definition StlMapHas :: "('k \<Rightarrow> 'k \<Rightarrow> bool) \<Rightarrow> ('k \<Rightarrow> u64) \<Rightarrow> ('k, 'v) unordered_map \<Rightarrow> 'k \<Rightarrow> bool" where
  "StlMapHas eq h m k = (um_find eq h m k \<noteq> None)"

section \<open>What the map needs of its keys\<close>

text \<open>Equality is an equivalence and equal keys have the same hash.\<close>

locale hash_key =
  fixes eq :: "'k \<Rightarrow> 'k \<Rightarrow> bool" and h :: "'k \<Rightarrow> u64"
  assumes eq_refl: "eq k k"
    and eq_sym: "eq k l \<Longrightarrow> eq l k"
    and eq_trans: "eq k l \<Longrightarrow> eq l j \<Longrightarrow> eq k j"
    and hash_eq: "eq k l \<Longrightarrow> h k = h l"
begin

lemma eq_comm: "eq k l \<longleftrightarrow> eq l k"
  by (blast intro: eq_sym)

lemma eq_class: "eq k l \<Longrightarrow> eq j k \<longleftrightarrow> eq j l"
  by (blast intro: eq_sym eq_trans)

lemma bucket_bound: "m \<noteq> [] \<Longrightarrow> bucket h m k < length m"
  by (simp add: bucket_def)

lemma find_set_entry:
  shows "map_option snd (List.find (\<lambda>e. eq (fst e) j) (set_entry eq k v es)) =
    (if eq k j then Some v else map_option snd (List.find (\<lambda>e. eq (fst e) j) es))"
proof (induction es)
  case (Cons e es)
  show ?case
  proof (cases "eq (fst e) k")
    case True
    then have "eq (fst e) j \<longleftrightarrow> eq k j" using eq_comm eq_class by metis
    with True show ?thesis by simp
  next
    case False
    have "\<not> eq (fst e) j" if "eq k j" using that False eq_class by blast
    with False Cons show ?thesis by simp
  qed
qed simp

lemma find_set:
  assumes "m \<noteq> []"
  shows "um_find eq h (um_set eq h k v m) j = (if eq k j then Some v else um_find eq h m j)"
proof (cases "bucket h m j = bucket h m k")
  case True
  then have "um_find eq h (um_set eq h k v m) j =
      map_option snd (List.find (\<lambda>e. eq (fst e) j) (set_entry eq k v (m ! bucket h m k)))"
    using bucket_bound [OF assms, of k] by (simp add: um_find_def um_set_def bucket_def)
  with True show ?thesis unfolding find_set_entry by (simp add: um_find_def)
next
  case False
  then have "\<not> eq k j" using hash_eq [of k j] by (auto simp: bucket_def)
  with False show ?thesis by (simp add: um_find_def um_set_def bucket_def)
qed

lemma find_filter:
  "List.find (\<lambda>e. eq (fst e) j) (filter (\<lambda>e. \<not> eq (fst e) k) es) =
    (if eq k j then None else List.find (\<lambda>e. eq (fst e) j) es)"
proof (induction es)
  case (Cons e es)
  have "eq (fst e) k \<Longrightarrow> eq (fst e) j \<Longrightarrow> eq k j" using eq_comm eq_class by metis
  moreover have "eq k j \<Longrightarrow> eq (fst e) j \<Longrightarrow> eq (fst e) k" using eq_class by blast
  ultimately show ?case using Cons by auto
qed simp

lemma find_erase:
  assumes "m \<noteq> []"
  shows "um_find eq h (um_erase eq h k m) j = (if eq k j then None else um_find eq h m j)"
proof (cases "bucket h m j = bucket h m k")
  case True
  then have "um_find eq h (um_erase eq h k m) j =
      map_option snd (List.find (\<lambda>e. eq (fst e) j) (filter (\<lambda>e. \<not> eq (fst e) k) (m ! bucket h m k)))"
    using bucket_bound [OF assms, of k] by (simp add: um_find_def um_erase_def bucket_def)
  with True show ?thesis unfolding find_filter by (simp add: um_find_def)
next
  case False
  then have "\<not> eq k j" using hash_eq [of k j] by (auto simp: bucket_def)
  with False show ?thesis by (simp add: um_find_def um_erase_def bucket_def)
qed

lemma find_equal: "eq k j \<Longrightarrow> um_find eq h m k = um_find eq h m j"
  by (simp add: um_find_def bucket_def hash_eq eq_class cong: if_cong)

lemma find_new: "0 < n \<Longrightarrow> um_find eq h (um_new n) k = None"
  by (simp add: um_find_def um_new_def bucket_def)

end

lemma um_keeps_buckets [simp]:
  "um_set eq h k v m = [] \<longleftrightarrow> m = []" "um_erase eq h k m = [] \<longleftrightarrow> m = []" "um_new n = [] \<longleftrightarrow> n = 0"
  by (simp_all add: um_set_def um_erase_def um_new_def)

interpretation dynamic: hash_key "dk_equal :: dynamic_key \<Rightarrow> dynamic_key \<Rightarrow> bool" dk_hash
  by unfold_locales (auto simp: dk_equal_def dk_hash_def split: if_splits)

interpretation static: hash_key "sk_equal SIZE" "sk_hash SIZE" for SIZE
  by unfold_locales (auto simp: sk_equal_def sk_hash_def)

interpretation connection: hash_key cn_equal cn_hash
  by unfold_locales (auto simp: cn_equal_def cn_hash_def dk_equal_def dk_hash_def split: if_splits)

section \<open>Properties\<close>

definition dk_ok :: "nat \<Rightarrow> 'a dynamic_key_scheme \<Rightarrow> bool" where
  "dk_ok SIZE k \<longleftrightarrow> length (dk_buffer k) = SIZE \<and> unat (dk_size k) \<le> SIZE"

lemma dk_Add_fits:
  assumes "dk_ok SIZE k" "SIZE < 65536" "length data = unat sz"
  shows "dk_Add SIZE data sz k =
    (if length (dk_content k) + length data \<le> SIZE
     then Some (k\<lparr>dk_buffer := dk_content k @ data @ drop (length (dk_content k) + length data) (dk_buffer k),
                  dk_size := dk_size k + sz\<rparr>) else None)"
  using assms by (auto simp: dk_Add_def dk_ok_def dk_content_def)

lemma dk_Add_content:
  assumes "dk_ok SIZE k" "SIZE < 65536" "length data = unat sz" "dk_Add SIZE data sz k = Some k'"
  shows "dk_ok SIZE k'" "dk_content k' = dk_content k @ data"
    "dynamic_key.more k' = dynamic_key.more k"
proof -
  have len: "length (dk_content k) = unat (dk_size k)" using assms(1) by (simp add: dk_content_def dk_ok_def)
  have fits: "unat (dk_size k) + unat sz \<le> SIZE"
    and k': "k' = k\<lparr>dk_buffer := dk_content k @ data @ drop (length (dk_content k) + length data) (dk_buffer k),
                  dk_size := dk_size k + sz\<rparr>"
    using assms(3,4) len unfolding dk_Add_fits [OF assms(1-3)] by (simp_all split: if_splits)
  have sum: "unat (dk_size k + sz) = unat (dk_size k) + unat sz"
    using fits assms(2) by (simp add: unat_word_ariths)
  show "dk_ok SIZE k'" using fits assms(1,3) sum len by (simp add: k' dk_ok_def)
  show "dk_content k' = dk_content k @ data" using assms(3) sum len unfolding dk_content_def [of k'] by (simp add: k')
  show "dynamic_key.more k' = dynamic_key.more k" by (simp add: k')
qed

lemma cn_equal_content:
  assumes "dk_ok kConnectionKeySize k" "dk_ok kConnectionKeySize l"
  shows "cn_equal k l \<longleftrightarrow> cn_handler k = cn_handler l \<and> dk_content k = dk_content l"
proof -
  have "length (dk_content k) = unat (dk_size k)" "length (dk_content l) = unat (dk_size l)"
    using assms by (simp_all add: dk_content_def dk_ok_def)
  then show ?thesis by (auto simp: cn_equal_def dk_equal_def dk_content_def word_unat_eq_iff dest: arg_cong [of _ _ length])
qed

lemma dk_Add_to_new:
  assumes "dk_Add 20 data sz (cn_new memory handler) = Some k" "length memory = 20" "length data = unat sz"
  shows "dk_ok kConnectionKeySize k \<and> dk_content k = data \<and> cn_handler k = handler"
proof -
  have ok: "dk_ok 20 (cn_new memory handler)" using assms(2) by (simp add: dk_ok_def cn_new_def)
  have "cn_handler k = handler" using assms(1) by (auto simp: dk_Add_def cn_new_def split: bind_splits)
  then show ?thesis
    using dk_Add_content [OF ok _ assms(3,1)]
    by (simp add: kConnectionKeySize_def dk_content_def cn_new_def)
qed

text \<open>C34. The sessions are found by what was added to the key and by its handler, and by nothing else:
  neither stale bytes of the buffers nor the hash matter, and other entries are not affected.\<close>
theorem sessions_are_found_by_content:
  assumes "m \<noteq> []"
    "dk_Add 20 data sz (cn_new memory handler) = Some k" "length memory = 20" "length data = unat sz"
    "dk_Add 20 data' sz' (cn_new memory' handler') = Some k'" "length memory' = 20" "length data' = unat sz'"
  shows "um_find cn_equal cn_hash (um_set cn_equal cn_hash k session m) k' =
      (if handler = handler' \<and> data = data' then Some session else um_find cn_equal cn_hash m k') \<and>
    um_find cn_equal cn_hash (um_erase cn_equal cn_hash k m) k' =
      (if handler = handler' \<and> data = data' then None else um_find cn_equal cn_hash m k')"
proof -
  have "cn_equal k k' \<longleftrightarrow> handler = handler' \<and> data = data'"
    using dk_Add_to_new [OF assms(2-4)] dk_Add_to_new [OF assms(5-7)] by (simp add: cn_equal_content)
  then show ?thesis
    using assms(1) by (simp add: connection.find_set connection.find_erase)
qed

theorem sessions_are_found_by_content_witness:
  "um_find cn_equal cn_hash (um_set cn_equal cn_hash
      (the (dk_Add 20 [1, 2] 2 (cn_new (replicate 20 9) 4096))) ''session'' (um_new 8))
     (the (dk_Add 20 [1, 2] 2 (cn_new (replicate 20 0) 4096))) = Some ''session''"
  using sessions_are_found_by_content [of "um_new 8" "[1, 2]" 2 "replicate 20 9" 4096
      "the (dk_Add 20 [1, 2] 2 (cn_new (replicate 20 9) 4096))" "[1, 2]" 2 "replicate 20 0" 4096
      "the (dk_Add 20 [1, 2] 2 (cn_new (replicate 20 0) 4096))" "''session''"]
  by (simp add: dk_Add_def cn_new_def)

end
