(* ===== verification/Sockaddr.thy ===== *)
theory Sockaddr
  imports Keys Text
begin

text \<open>
  \<open>src/src/sockaddr.h\<close> and \<open>.cc\<close>: socket addresses. An object holds the bytes of its C structure:
  \<open>sockaddr_in\<close> (16 bytes), \<open>sockaddr_in6\<close> (28) or \<open>sockaddr_un\<close> (110), in the layout of Linux on a
  little-endian machine: the family in two bytes, then for the internet families the port in
  network order.

  The parameters are \<open>inet_pton\<close> (\<open>pton4\<close> and \<open>pton6\<close>, with the bytes of the parsed address), \<open>inet_ntop\<close>
  (\<open>ntop4\<close> and \<open>ntop6\<close>, with its text) and the indeterminate bytes of an object or buffer before it
  is filled (\<open>memory\<close>).
\<close>

section \<open>The classes\<close>

datatype sockaddr = IPv4Sockaddr bytes | IPv6Sockaddr bytes | LocalSockaddr bytes

definition family_bytes :: "byte \<Rightarrow> bytes" where
  "family_bytes family = [family, 0]"

definition af_inet :: byte where "af_inet = 2"
definition af_inet6 :: byte where "af_inet6 = 10"
definition af_local :: byte where "af_local = 1"

fun sa_Data :: "sockaddr \<Rightarrow> bytes" where
  "sa_Data (IPv4Sockaddr bs) = bs"
| "sa_Data (IPv6Sockaddr bs) = bs"
| "sa_Data (LocalSockaddr bs) = bs"

fun sa_Size :: "sockaddr \<Rightarrow> nat" where
  "sa_Size (IPv4Sockaddr bs) = 16"
| "sa_Size (IPv6Sockaddr bs) = 28"
| "sa_Size (LocalSockaddr bs) = 110"

definition sa_Family :: "sockaddr \<Rightarrow> bytes" where
  "sa_Family a = take 2 (sa_Data a)"

text \<open>The constructors from an address and a port set no other byte of the structure.\<close>

definition IPv4_new :: "bytes \<Rightarrow> bytes \<Rightarrow> u16 \<Rightarrow> sockaddr" where
  "IPv4_new memory inaddr port = IPv4Sockaddr (family_bytes af_inet @ be16 port @ inaddr @ drop 8 memory)"

definition IPv6_new :: "bytes \<Rightarrow> bytes \<Rightarrow> u16 \<Rightarrow> sockaddr" where
  "IPv6_new memory inaddr port =
     IPv6Sockaddr (family_bytes af_inet6 @ be16 port @ take 4 (drop 4 memory) @ inaddr @ drop 24 memory)"

fun sa_Endpoint :: "sockaddr \<Rightarrow> bytes" where
  "sa_Endpoint (IPv4Sockaddr bs) = take 4 (drop 4 bs)"
| "sa_Endpoint (IPv6Sockaddr bs) = take 16 (drop 8 bs)"
| "sa_Endpoint (LocalSockaddr bs) = takeWhile (\<lambda>c. c \<noteq> 0) (drop 2 bs)"

definition sa_Port :: "sockaddr \<Rightarrow> u16" where
  "sa_Port a = of_be16 (sa_Data a ! 2) (sa_Data a ! 3)"

section \<open>From the kernel's structures\<close>

definition IPv4_Parse_raw :: "bytes \<Rightarrow> nat \<Rightarrow> sockaddr option" where
  "IPv4_Parse_raw raw sz =
     (if take 2 raw \<noteq> family_bytes af_inet \<or> sz \<noteq> 16 then None else Some (IPv4Sockaddr (take sz raw)))"

definition IPv6_Parse_raw :: "bytes \<Rightarrow> nat \<Rightarrow> sockaddr option" where
  "IPv6_Parse_raw raw sz =
     (if take 2 raw \<noteq> family_bytes af_inet6 \<or> sz \<noteq> 28 then None else Some (IPv6Sockaddr (take sz raw)))"

definition Sockaddr_Parse_raw :: "bytes \<Rightarrow> nat \<Rightarrow> sockaddr option" where
  "Sockaddr_Parse_raw raw sz =
     (case IPv4_Parse_raw raw sz of Some a \<Rightarrow> Some a
      | None \<Rightarrow> (case IPv6_Parse_raw raw sz of Some a \<Rightarrow> Some a | None \<Rightarrow> None))"

section \<open>From and to text\<close>

definition ch_open :: byte where "ch_open = of_char (CHR ''['')"
definition ch_closed :: byte where "ch_closed = of_char (CHR '']'')"
definition ch_port :: byte where "ch_port = of_char (CHR '':'')"

text \<open>\<open>rfind\<close>: the text before and after the last occurrence.\<close>

definition rfind :: "byte \<Rightarrow> bytes \<Rightarrow> (bytes \<times> bytes) option" where
  "rfind c s =
     (if c \<in> set s
      then Some (rev (tl (dropWhile (\<lambda>d. d \<noteq> c) (rev s))), rev (takeWhile (\<lambda>d. d \<noteq> c) (rev s)))
      else None)"

definition IPv4_Parse :: "(bytes \<Rightarrow> bytes option) \<Rightarrow> bytes \<Rightarrow> bytes \<Rightarrow> u16 \<Rightarrow> sockaddr option" where
  "IPv4_Parse pton4 memory address port =
     (case rfind ch_port address of
        None \<Rightarrow> do { inaddr \<leftarrow> pton4 address; Some (IPv4_new memory inaddr port) }
      | Some (host, after) \<Rightarrow> do {
          port \<leftarrow> FromString_u16 after;
          inaddr \<leftarrow> pton4 host;
          Some (IPv4_new memory inaddr port)
        })"

text \<open>The host and what gives the port, \<open>None\<close> where the default applies.\<close>

definition IPv6_split :: "bytes \<Rightarrow> bytes \<times> bytes option" where
  "IPv6_split address =
     (if address \<noteq> [] \<and> hd address = ch_open
      then (case rfind ch_closed address of
              None \<Rightarrow> ([], None)
            | Some (before, after) \<Rightarrow>
                (drop 1 before, if after \<noteq> [] \<and> hd after = ch_port then Some (tl after) else None))
      else (address, None))"

definition IPv6_Parse :: "(bytes \<Rightarrow> bytes option) \<Rightarrow> bytes \<Rightarrow> bytes \<Rightarrow> u16 \<Rightarrow> sockaddr option" where
  "IPv6_Parse pton6 memory address port =
     (case IPv6_split address of (ip, after) \<Rightarrow> do {
        port \<leftarrow> (case after of None \<Rightarrow> Some port | Some digits \<Rightarrow> FromString_u16 digits);
        inaddr \<leftarrow> pton6 ip;
        Some (IPv6_new memory inaddr port)
      })"

definition Sockaddr_Parse ::
    "(bytes \<Rightarrow> bytes option) \<Rightarrow> (bytes \<Rightarrow> bytes option) \<Rightarrow> bytes \<Rightarrow> bytes \<Rightarrow> u16 \<Rightarrow> sockaddr option" where
  "Sockaddr_Parse pton4 pton6 memory address port =
     (case IPv4_Parse pton4 memory address port of Some a \<Rightarrow> Some a
      | None \<Rightarrow> (case IPv6_Parse pton6 memory address port of Some a \<Rightarrow> Some a | None \<Rightarrow> None))"

definition Local_new_cstring :: "bytes \<Rightarrow> sockaddr" where
  "Local_new_cstring path =
     (let field = take 108 (path @ replicate 108 0)
      in LocalSockaddr (family_bytes af_local @ field[107 := 0]))"

definition Local_new :: "bytes \<Rightarrow> bytes \<Rightarrow> sockaddr" where
  "Local_new memory path =
     (let len = min 107 (length path)
      in LocalSockaddr (family_bytes af_local @ take len path @ 0 # drop (2 + len + 1) memory))"

definition Local_Parse :: "bytes \<Rightarrow> sockaddr option" where
  "Local_Parse path = (if length path \<ge> 108 then None else Some (Local_new_cstring path))"

text \<open>\<open>inet_ntop\<close> gets the size of the structure, not of the buffer. When the text and its terminator are
  longer it fails, and the buffer's indeterminate bytes up to the first 0 are printed.\<close>

definition inet_ntop :: "bytes \<Rightarrow> nat \<Rightarrow> bytes \<Rightarrow> bytes" where
  "inet_ntop shown sz memory =
     (if length shown + 1 \<le> sz then shown else takeWhile (\<lambda>c. c \<noteq> 0) memory)"

fun sa_AsString :: "(bytes \<Rightarrow> bytes) \<Rightarrow> (bytes \<Rightarrow> bytes) \<Rightarrow> bytes \<Rightarrow> sockaddr \<Rightarrow> bytes" where
  "sa_AsString ntop4 ntop6 memory (IPv4Sockaddr bs) =
     inet_ntop (ntop4 (sa_Endpoint (IPv4Sockaddr bs))) (sa_Size (IPv4Sockaddr bs)) memory
       @ [ch_port] @ ToString_nat (unat (sa_Port (IPv4Sockaddr bs)))"
| "sa_AsString ntop4 ntop6 memory (IPv6Sockaddr bs) =
     [ch_open] @ inet_ntop (ntop6 (sa_Endpoint (IPv6Sockaddr bs))) (sa_Size (IPv6Sockaddr bs)) memory
       @ [ch_closed] @ [ch_port] @ ToString_nat (unat (sa_Port (IPv6Sockaddr bs)))"
| "sa_AsString ntop4 ntop6 memory (LocalSockaddr bs) = sa_Endpoint (LocalSockaddr bs)"

section \<open>The functors\<close>

definition sa_equal :: "sockaddr \<Rightarrow> sockaddr \<Rightarrow> bool" where
  "sa_equal a b =
     (if sa_Family a \<noteq> sa_Family b then False
      else if sa_Size a \<noteq> sa_Size b then False
      else take (sa_Size b) (sa_Data a) = take (sa_Size b) (sa_Data b))"

definition sa_hash :: "sockaddr \<Rightarrow> u64" where
  "sa_hash a = DefaultHash (take (sa_Size a) (sa_Data a)) 0"

interpretation address: hash_key sa_equal sa_hash
  by unfold_locales (auto simp: sa_equal_def sa_hash_def split: if_splits)

section \<open>Properties\<close>

lemma rfind_last: "c \<notin> set after \<Longrightarrow> rfind c (before @ c # after) = Some (before, after)"
  using until_first [of c "rev after" "rev before"] by (simp add: rfind_def)

lemma rfind_none: "c \<notin> set s \<Longrightarrow> rfind c s = None"
  by (simp add: rfind_def)

lemma sa_new_parts:
  assumes "length inaddr = 4" "length inaddr6 = 16" "length memory = 28"
  shows "sa_Endpoint (IPv4_new (take 16 memory) inaddr port) = inaddr" "sa_Port (IPv4_new (take 16 memory) inaddr port) = port"
    "sa_Endpoint (IPv6_new memory inaddr6 port) = inaddr6" "sa_Port (IPv6_new memory inaddr6 port) = port"
  using assms
  by (simp_all add: IPv4_new_def IPv6_new_def sa_Port_def family_bytes_def be16_def)

lemma ch_facts:
  "\<not> is_digit ch_port" "\<not> is_digit ch_open" "\<not> is_digit ch_closed" "ch_port \<noteq> ch_open" "ch_port \<noteq> ch_closed"
  "ch_open \<noteq> ch_closed"
  by (simp_all add: ch_port_def ch_open_def ch_closed_def is_digit_def)

text \<open>C35. The text of an internet address is parsed back to an address of the same family with the same
  endpoint and port, whatever the default port and the padding: when \<open>inet_pton\<close> reads what
  \<open>inet_ntop\<close> prints for it, no text of that kind contains the delimiters, and an IPv6 text has at most
  27 characters.\<close>
theorem Sockaddr_printed_and_parsed:
  assumes "length inaddr = 4" "pton4 (ntop4 inaddr) = Some inaddr" "length (ntop4 inaddr) < 16"
    "length inaddr6 = 16" "pton6 (ntop6 inaddr6) = Some inaddr6" "length (ntop6 inaddr6) < 28"
    "ch_closed \<notin> set (ntop6 inaddr6)" "pton4 (ch_open # ntop6 inaddr6 @ [ch_closed]) = None"
    "length memory = 28" "length memory' = 28"
  shows "(\<exists>a. Sockaddr_Parse pton4 pton6 memory' (sa_AsString ntop4 ntop6 buffer (IPv4_new (take 16 memory) inaddr port)) other =
        Some (IPv4Sockaddr a) \<and> sa_Endpoint (IPv4Sockaddr a) = inaddr \<and> sa_Port (IPv4Sockaddr a) = port) \<and>
    (\<exists>a. Sockaddr_Parse pton4 pton6 memory' (sa_AsString ntop4 ntop6 buffer (IPv6_new memory inaddr6 port)) other =
        Some (IPv6Sockaddr a) \<and> sa_Endpoint (IPv6Sockaddr a) = inaddr6 \<and> sa_Port (IPv6Sockaddr a) = port)"
proof (intro conjI)
  let ?digits = "ToString_nat (unat port)"
  have port: "ch_port \<notin> set ?digits" "ch_closed \<notin> set (ch_port # ?digits)"
    using ToString_no ch_facts by auto
  note parts = sa_new_parts [OF assms(1,4)]
  obtain b4 where b4: "IPv4_new (take 16 memory) inaddr port = IPv4Sockaddr b4" by (simp add: IPv4_new_def)
  have shown4: "sa_AsString ntop4 ntop6 buffer (IPv4_new (take 16 memory) inaddr port) = ntop4 inaddr @ ch_port # ?digits"
    using parts(1,2) [OF assms(9), of port] assms(3) by (simp add: b4 inet_ntop_def)
  have "Sockaddr_Parse pton4 pton6 memory' (ntop4 inaddr @ ch_port # ?digits) other = Some (IPv4_new memory' inaddr port)"
    using assms(2) rfind_last [OF port(1)] by (simp add: Sockaddr_Parse_def IPv4_Parse_def FromString_u16_ToString)
  then show "\<exists>a. Sockaddr_Parse pton4 pton6 memory' (sa_AsString ntop4 ntop6 buffer (IPv4_new (take 16 memory) inaddr port)) other =
        Some (IPv4Sockaddr a) \<and> sa_Endpoint (IPv4Sockaddr a) = inaddr \<and> sa_Port (IPv4Sockaddr a) = port"
    unfolding shown4 using assms(1) by (simp add: IPv4_new_def sa_Port_def family_bytes_def be16_def)
  obtain b6 where b6: "IPv6_new memory inaddr6 port = IPv6Sockaddr b6" by (simp add: IPv6_new_def)
  let ?host = "ch_open # ntop6 inaddr6"
  have shown6: "sa_AsString ntop4 ntop6 buffer (IPv6_new memory inaddr6 port) = (?host @ [ch_closed]) @ ch_port # ?digits"
    using parts(3,4) [OF assms(9), of port] assms(6) by (simp add: b6 inet_ntop_def)
  have "IPv4_Parse pton4 memory' ((?host @ [ch_closed]) @ ch_port # ?digits) other = None"
    using assms(8) by (simp add: IPv4_Parse_def rfind_last [OF port(1)] FromString_u16_ToString del: append.simps append_assoc)
      (simp add: assms(8))
  moreover have "IPv6_split ((?host @ [ch_closed]) @ ch_port # ?digits) = (ntop6 inaddr6, Some ?digits)"
    using rfind_last [OF port(2), of ?host] by (simp add: IPv6_split_def)
  ultimately have "Sockaddr_Parse pton4 pton6 memory' ((?host @ [ch_closed]) @ ch_port # ?digits) other =
      Some (IPv6_new memory' inaddr6 port)"
    using assms(5) by (simp add: Sockaddr_Parse_def IPv6_Parse_def FromString_u16_ToString)
  then show "\<exists>a. Sockaddr_Parse pton4 pton6 memory' (sa_AsString ntop4 ntop6 buffer (IPv6_new memory inaddr6 port)) other =
        Some (IPv6Sockaddr a) \<and> sa_Endpoint (IPv6Sockaddr a) = inaddr6 \<and> sa_Port (IPv6Sockaddr a) = port"
    unfolding shown6 using sa_new_parts(3,4) [OF assms(1,4,10), of port] by (simp add: IPv6_new_def)
qed

theorem Sockaddr_printed_and_parsed_witness:
  "\<exists>a. Sockaddr_Parse (\<lambda>s. if s = str ''10.0.0.1'' then Some [10, 0, 0, 1] else None)
      (\<lambda>s. if s = str ''::1'' then Some (replicate 15 0 @ [1]) else None) (replicate 28 0)
      (sa_AsString (\<lambda>_. str ''10.0.0.1'') (\<lambda>_. str ''::1'') [] (IPv6_new (replicate 28 7) (replicate 15 0 @ [1]) 1194)) 80 =
    Some (IPv6Sockaddr a) \<and> sa_Endpoint (IPv6Sockaddr a) = replicate 15 0 @ [1] \<and> sa_Port (IPv6Sockaddr a) = 1194"
  by (rule Sockaddr_printed_and_parsed [of "[10, 0, 0, 1]" _ "\<lambda>_. str ''10.0.0.1''", THEN conjunct2])
    (simp_all add: ch_closed_def ch_open_def)

text \<open>Two objects made from the same address and port can be different keys: the functors compare and hash the
  padding, which the constructor does not set. And the longest IPv6 texts do not fit in the size
  that \<open>AsString\<close> gives to \<open>inet_ntop\<close>: what was in memory is printed.\<close>
theorem same_endpoint_unequal_keys:
  "\<not> sa_equal (IPv4_new (replicate 16 0) [10, 0, 0, 1] 1194) (IPv4_new (replicate 16 1) [10, 0, 0, 1] 1194)"
  by (simp add: sa_equal_def sa_Family_def IPv4_new_def family_bytes_def be16_def)

theorem long_IPv6_text_is_not_printed:
  "sa_AsString ntop4 (\<lambda>_. str ''2001:db8:1111:2222:3333:4444:5555:6666'') (str ''garbage'' @ [0])
     (IPv6_new (replicate 28 0) (replicate 16 0) 1194) = str ''[garbage]:1194''"
  by (simp add: IPv6_new_def inet_ntop_def family_bytes_def be16_def sa_Port_def of_be16_def ch_open_def ch_closed_def
      ch_port_def ToString_nat.simps ch_digit_def)

end
