(* ===== verification/Prng.thy ===== *)
theory Prng
  imports Prelude
begin

text \<open>
  \<open>src/src/prng.h\<close> and \<open>.cc\<close>: the generator over RC4, and what the base class derives from \<open>Get\<close>.

  RC4 and the system's random bytes belong to OpenSSL: \<open>rc4_set_key\<close>, \<open>rc4\<close> (the output and the new key
  state) and \<open>rand_bytes\<close> (\<open>None\<close> for a failure) are the fields of a record of parameters. The system's
  entropy is a list of seeds still to come.
\<close>

section \<open>The RC4 generator\<close>

record 'k rc4_lib =
  rc4_set_key :: "bytes \<Rightarrow> 'k"
  rc4 :: "'k \<Rightarrow> bytes \<Rightarrow> bytes \<times> 'k"

record 'k prng =
  pr_reseed :: u32
  pr_key :: 'k
  pr_entropy :: "bytes option list"    \<comment> \<open>what \<open>RAND_bytes\<close> will answer\<close>

definition kSeedSize :: nat where "kSeedSize = 20"
definition kReSeedBytes :: u32 where "kReSeedBytes = push_bit 20 1"

text \<open>The constructor leaves the key as it finds it.\<close>

definition Rc4Prng_new :: "'k \<Rightarrow> bytes option list \<Rightarrow> 'k prng" where
  "Rc4Prng_new memory entropy = \<lparr>pr_reseed = 0, pr_key = memory, pr_entropy = entropy\<rparr>"

text \<open>The first 13 blocks of output are thrown away.\<close>


function discard :: "'k rc4_lib \<Rightarrow> nat \<Rightarrow> bytes \<Rightarrow> 'k \<Rightarrow> 'k" where
  "discard lib i buffer key =
     (if 256 < i then key
      else (case rc4 lib key buffer of (buffer, key) \<Rightarrow> discard lib (i + kSeedSize) buffer key))"
  by pat_completeness auto
termination
  by (relation "measure (\<lambda>(lib, i, buffer, key). 257 - i)") (auto simp: kSeedSize_def)

declare discard.simps [simp del]

definition Seed :: "'k rc4_lib \<Rightarrow> 'k prng \<Rightarrow> 'k prng option" where
  "Seed lib p =
     (case pr_entropy p of
        Some buffer # entropy \<Rightarrow>
          Some (p\<lparr>pr_key := discard lib 0 buffer (rc4_set_key lib buffer), pr_reseed := kReSeedBytes, pr_entropy := entropy\<rparr>)
      | _ \<Rightarrow> None)"

definition Get :: "'k rc4_lib \<Rightarrow> bytes \<Rightarrow> 'k prng \<Rightarrow> (bytes \<times> 'k prng) option" where
  "Get lib buffer p = do {
     p \<leftarrow> (if pr_reseed p \<le> 0 then Seed lib p else Some p);
     (case rc4 lib (pr_key p) buffer of (buffer, key) \<Rightarrow>
        Some (buffer, p\<lparr>pr_key := key, pr_reseed := pr_reseed p - of_nat (length buffer)\<rparr>))
   }"

section \<open>What the base class derives\<close>

text \<open>An \<open>int\<close> is the four bytes of its object, least significant first. \<open>memory\<close> is what they were.\<close>

definition le32 :: "bytes \<Rightarrow> u32" where
  "le32 bs = word_rcat (rev bs)"

definition GetInt :: "'k rc4_lib \<Rightarrow> bytes \<Rightarrow> 'k prng \<Rightarrow> (u32 \<times> 'k prng) option" where
  "GetInt lib memory p = do { (bs, p) \<leftarrow> Get lib memory p; Some (le32 bs, p) }"

definition le64 :: "bytes \<Rightarrow> u64" where
  "le64 bs = word_rcat (rev bs)"

definition GetLongInt :: "'k rc4_lib \<Rightarrow> bytes \<Rightarrow> 'k prng \<Rightarrow> (u64 \<times> 'k prng) option" where
  "GetLongInt lib memory p = do { (bs, p) \<leftarrow> Get lib memory p; Some (le64 bs, p) }"

text \<open>The remainder of the unsigned number, in the range of \<open>int\<close> arithmetic.\<close>

definition GetIntRange :: "'k rc4_lib \<Rightarrow> bytes \<Rightarrow> int \<Rightarrow> int \<Rightarrow> 'k prng \<Rightarrow> (int \<times> 'k prng) option" where
  "GetIntRange lib memory mn mx p = do {
     (n, p) \<leftarrow> GetInt lib memory p;
     Some (uint (n mod word_of_int ((mx - mn) + 1)) + mn, p)
   }"

fun fill_zeros :: "'k rc4_lib \<Rightarrow> bytes \<Rightarrow> bytes \<Rightarrow> 'k prng \<Rightarrow> (bytes \<times> 'k prng) option" where
  "fill_zeros lib memory [] p = Some ([], p)"
| "fill_zeros lib memory (b # bs) p =
     (if b \<noteq> 0 then do { (bs, p) \<leftarrow> fill_zeros lib memory bs p; Some (b # bs, p) }
      else do {
        (n, p) \<leftarrow> GetIntRange lib memory 1 255 p;
        (bs, p) \<leftarrow> fill_zeros lib memory bs p;
        Some (word_of_int n # bs, p)
      })"

definition GetZeroTerminated :: "'k rc4_lib \<Rightarrow> bytes \<Rightarrow> bytes \<Rightarrow> 'k prng \<Rightarrow> (bytes \<times> 'k prng) option" where
  "GetZeroTerminated lib memory buffer p = do {
     fatal_unless (length buffer \<noteq> 0);
     (bs, p) \<leftarrow> Get lib (butlast buffer) p;
     (bs, p) \<leftarrow> fill_zeros lib memory bs p;
     Some (bs @ [0], p)
   }"

section \<open>Properties\<close>

text \<open>RC4 turns as many bytes into as many.\<close>

definition rc4_documented :: "'k rc4_lib \<Rightarrow> bool" where
  "rc4_documented lib \<longleftrightarrow> (\<forall>k bs. length (fst (rc4 lib k bs)) = length bs)"

text \<open>There is entropy when no request for it fails.\<close>

definition entropic :: "nat \<Rightarrow> 'k prng \<Rightarrow> bool" where
  "entropic n p \<longleftrightarrow> n \<le> length (pr_entropy p) \<and> list_all (\<lambda>e. e \<noteq> None) (pr_entropy p)"

lemma Get_returns:
  assumes "rc4_documented lib" "entropic (Suc n) p"
  shows "\<exists>bs p'. Get lib buffer p = Some (bs, p') \<and> length bs = length buffer \<and> entropic n p'"
proof -
  obtain seed rest where e: "pr_entropy p = Some seed # rest" "n \<le> length rest" "list_all (\<lambda>e. e \<noteq> None) rest"
    using assms(2) by (cases "pr_entropy p") (auto simp: entropic_def)
  have len: "length (fst (rc4 lib k buffer)) = length buffer" for k
    using assms(1) by (simp add: rc4_documented_def)
  show ?thesis
  proof (cases "pr_reseed p = 0")
    case True
    with e len show ?thesis
      by (auto simp: Get_def Seed_def entropic_def split: prod.split)
        (metis fst_conv)
  next
    case False
    with e len assms(2) show ?thesis
      by (auto simp: Get_def entropic_def split: prod.split) (metis fst_conv)
  qed
qed

lemma GetIntRange_bounds:
  assumes "GetIntRange lib memory mn mx p = Some (n, p')" "0 \<le> mx - mn" "mx - mn < 2 ^ 31"
  shows "mn \<le> n \<and> n \<le> mx"
proof -
  have "uint (word_of_int ((mx - mn) + 1) :: u32) = (mx - mn) + 1"
    using assms(2,3) by (simp add: uint_word_of_int_eq take_bit_int_eq_self del: of_int_add of_int_diff)
  then have "0 \<le> uint (r mod word_of_int ((mx - mn) + 1) :: u32) \<and> uint (r mod word_of_int ((mx - mn) + 1) :: u32) < (mx - mn) + 1" for r
    using assms(2) by (simp add: uint_mod_distrib pos_mod_bound del: of_int_add of_int_diff) (smt (verit) pos_mod_bound)
  then show ?thesis
    using assms(1) unfolding GetIntRange_def by (auto split: bind_splits prod.splits) (smt (verit))+
qed

lemma fill_zeros_none_left:
  assumes "fill_zeros lib memory bs p = Some (cs, p')"
  shows "length cs = length bs \<and> 0 \<notin> set cs"
  using assms
proof (induction bs arbitrary: p cs p')
  case (Cons b bs)
  show ?case
  proof (cases "b = 0")
    case False
    with Cons show ?thesis by (fastforce split: bind_splits prod.splits)
  next
    case True
    with Cons.prems obtain n q ds q' where
      "GetIntRange lib memory 1 255 p = Some (n, q)" and ds: "fill_zeros lib memory bs q = Some (ds, q')" "cs = word_of_int n # ds"
      by (auto split: bind_splits prod.splits)
    then have "1 \<le> n \<and> n \<le> 255" using GetIntRange_bounds [of lib memory 1 255 p n q] by simp
    then have "uint (word_of_int n :: byte) \<noteq> 0" by (simp add: uint_word_of_int_eq take_bit_int_eq_self)
    then have "(word_of_int n :: byte) \<noteq> 0" by auto
    with ds Cons.IH [OF ds(1)] show ?thesis by simp
  qed
qed simp

lemma fill_zeros_returns:
  assumes "rc4_documented lib" "entropic (length bs) p"
  shows "fill_zeros lib memory bs p \<noteq> None"
  using assms(2)
proof (induction bs arbitrary: p)
  case (Cons b bs)
  obtain cs q where q: "Get lib memory p = Some (cs, q)" "entropic (length bs) q"
    using Get_returns [OF assms(1), of "length bs" p memory] Cons.prems by auto
  have "entropic (length bs) p" using Cons.prems by (simp add: entropic_def)
  with Cons.IH [OF this] Cons.IH [OF q(2)] q(1) show ?case
    by (auto simp: GetIntRange_def GetInt_def split: bind_splits prod.splits)
qed simp

text \<open>A zero terminated random string of \<open>n\<close> bytes has its only zero at its end, and is delivered
  whenever there is entropy enough.\<close>
theorem GetZeroTerminated_has_one_zero:
  assumes "rc4_documented lib" "buffer \<noteq> []" "entropic (length buffer) p"
  shows "\<exists>bs p'. GetZeroTerminated lib memory buffer p = Some (bs @ [0], p') \<and> length bs + 1 = length buffer \<and> 0 \<notin> set bs"
proof -
  obtain bs q where q: "Get lib (butlast buffer) p = Some (bs, q)" "length bs = length (butlast buffer)"
    "entropic (length bs) q"
    using Get_returns [OF assms(1), of "length buffer - 1" p "butlast buffer"] assms(2,3) by auto
  obtain cs r where "fill_zeros lib memory bs q = Some (cs, r)"
    using fill_zeros_returns [OF assms(1) q(3)] by (metis not_Some_eq surj_pair)
  with q assms(2) fill_zeros_none_left [OF this] show ?thesis
    by (simp add: GetZeroTerminated_def)
qed

definition toy_rc4 :: "byte rc4_lib" where
  "toy_rc4 = \<lparr>rc4_set_key = (\<lambda>bs. hd bs), rc4 = (\<lambda>k bs. (map (\<lambda>b. b XOR k) bs, k + of_nat (length bs)))\<rparr>"

theorem GetZeroTerminated_has_one_zero_witness:
  "\<exists>bs p'. GetZeroTerminated toy_rc4 [1, 2, 3, 4] [9, 8, 7] (Rc4Prng_new 0 (replicate 3 (Some [5]))) = Some (bs @ [0], p') \<and>
    length bs + 1 = length [9, 8, 7 :: byte] \<and> 0 \<notin> set bs"
  by (rule GetZeroTerminated_has_one_zero)
    (simp_all add: rc4_documented_def toy_rc4_def entropic_def Rc4Prng_new_def numeral_3_eq_3)

text \<open>The counter of bytes until the next seed is unsigned and its test \<open><= 0\<close> means 0: a request
  that is longer than what is left makes it wrap around, and no new seed is taken.\<close>
theorem reseed_counter_wraps:
  assumes "rc4_documented lib" "pr_reseed p = 8" "length buffer = 20"
  shows "\<exists>bs p'. Get lib buffer p = Some (bs, p') \<and> pr_reseed p' = 4294967284 \<and> pr_entropy p' = pr_entropy p"
proof -
  obtain bs k where "rc4 lib (pr_key p) buffer = (bs, k)" "length bs = length buffer"
    using assms(1) unfolding rc4_documented_def by (metis prod.collapse)
  with assms(2,3) show ?thesis by (simp add: Get_def)
qed

theorem reseed_counter_wraps_witness:
  "\<exists>bs p'. Get toy_rc4 (replicate 20 0) \<lparr>pr_reseed = 8, pr_key = 1, pr_entropy = []\<rparr> = Some (bs, p') \<and>
    pr_reseed p' = 4294967284"
  using reseed_counter_wraps [of toy_rc4 "\<lparr>pr_reseed = 8, pr_key = 1, pr_entropy = []\<rparr>" "replicate 20 0"]
  by (auto simp: rc4_documented_def toy_rc4_def)

end
