(* ===== verification/Password.thy ===== *)
theory Password
  imports Prng
begin

text \<open>
  \<open>src/src/password.h\<close> and \<open>.cc\<close>: the buffers passwords and secrets are kept in, and the key that is
  derived from a password.

  \<open>hmac\<close> is OpenSSL's HMAC with SHA-1, a parameter: the code of a message under a key. A buffer holds
  all its 4096 bytes, the ones above \<open>used_\<close> too.
\<close>

section \<open>Buffers\<close>

record static_buffer =
  sb_data :: bytes
  sb_used :: int

definition kStaticBufferSize :: nat where "kStaticBufferSize = 4096"

definition sb_new :: "bytes \<Rightarrow> static_buffer" where
  "sb_new memory = \<lparr>sb_data = memory, sb_used = 0\<rparr>"

definition sb_Resize :: "int \<Rightarrow> static_buffer \<Rightarrow> static_buffer" where
  "sb_Resize used b = b\<lparr>sb_used := min (int kStaticBufferSize) used\<rparr>"

text \<open>The constructor from data copies the buffer's size, not the data's: \<open>data\<close> is what can be read at the
  pointer.\<close>

definition sb_new_from :: "bytes \<Rightarrow> bytes \<Rightarrow> int \<Rightarrow> static_buffer option" where
  "sb_new_from memory data sz =
     (let b = sb_Resize sz (sb_new memory)
      in if length data < kStaticBufferSize then None
         else Some (b\<lparr>sb_data := take kStaticBufferSize data\<rparr>))"

definition sb_AsString :: "static_buffer \<Rightarrow> bytes option" where
  "sb_AsString b =
     (if sb_used b < 1 then None
      else if sb_data b ! nat (sb_used b - 1) = 0 then Some (take (nat (sb_used b - 1)) (sb_data b))
      else Some (take (nat (sb_used b)) (sb_data b)))"

text \<open>\<open>memcmp\<close> over the whole size.\<close>

definition sb_SameAs :: "static_buffer \<Rightarrow> static_buffer \<Rightarrow> bool" where
  "sb_SameAs b c \<longleftrightarrow> take kStaticBufferSize (sb_data b) = take kStaticBufferSize (sb_data c)"

definition sb_Shred :: "static_buffer \<Rightarrow> static_buffer" where
  "sb_Shred b = b\<lparr>sb_data := replicate kStaticBufferSize 0\<rparr>"

text \<open>What a password counts for: its first \<open>used_\<close> bytes.\<close>

definition sb_content :: "static_buffer \<Rightarrow> bytes" where
  "sb_content b = take (nat (sb_used b)) (sb_data b)"

section \<open>Deriving a key\<close>

definition ComputeSalt :: "'k rc4_lib \<Rightarrow> bytes \<Rightarrow> 'k prng \<Rightarrow> (bytes \<times> 'k prng) option" where
  "ComputeSalt lib salt p = Get lib salt p"

definition kPbkdfRounds :: nat where "kPbkdfRounds = 200003"

definition kSHA1Length :: nat where "kSHA1Length = 20"

text \<open>\<open>key[k] ^= hash[k]\<close> for the first \<open>cplen\<close> bytes, here the length of \<open>key\<close>.\<close>

definition xor_bytes :: "bytes \<Rightarrow> bytes \<Rightarrow> bytes" where
  "xor_bytes key hash = map (\<lambda>(a, b). a XOR b) (zip key hash)"

fun pbkdf_rounds :: "(bytes \<Rightarrow> bytes \<Rightarrow> bytes) \<Rightarrow> bytes \<Rightarrow> nat \<Rightarrow> bytes \<Rightarrow> bytes \<Rightarrow> bytes" where
  "pbkdf_rounds hmac pwd 0 hash key = key"
| "pbkdf_rounds hmac pwd (Suc j) hash key =
     (let hash = hmac pwd hash in pbkdf_rounds hmac pwd j hash (xor_bytes key hash))"

definition pbkdf_block :: "(bytes \<Rightarrow> bytes \<Rightarrow> bytes) \<Rightarrow> nat \<Rightarrow> bytes \<Rightarrow> bytes \<Rightarrow> nat \<Rightarrow> nat \<Rightarrow> bytes" where
  "pbkdf_block hmac c pwd salt i cplen =
     (let hash = hmac pwd (salt @ be32 (of_nat i))
      in pbkdf_rounds hmac pwd (c - 1) hash (take cplen hash))"

function pbkdf_loop :: "(bytes \<Rightarrow> bytes \<Rightarrow> bytes) \<Rightarrow> nat \<Rightarrow> bytes \<Rightarrow> bytes \<Rightarrow> nat \<Rightarrow> nat \<Rightarrow> bytes" where
  "pbkdf_loop hmac c pwd salt i keylen =
     (if keylen = 0 then []
      else let cplen = min kSHA1Length keylen
           in pbkdf_block hmac c pwd salt i cplen @ pbkdf_loop hmac c pwd salt (i + 1) (keylen - cplen))"
  by pat_completeness auto
termination
  by (relation "measure (\<lambda>(hmac, c, pwd, salt, i, keylen). keylen)") (auto simp: kSHA1Length_def)

declare pbkdf_loop.simps [simp del]

definition ComputeKey :: "(bytes \<Rightarrow> bytes \<Rightarrow> bytes) \<Rightarrow> bytes \<Rightarrow> nat \<Rightarrow> static_buffer \<Rightarrow> bytes" where
  "ComputeKey hmac salt keylen pwd = pbkdf_loop hmac kPbkdfRounds (sb_content pwd) salt 1 keylen"

section \<open>It is PBKDF2\<close>

text \<open>
  The function of RFC 2898: \<open>U 1\<close> is the code of the salt and the block number, each further one that
  of its predecessor, a block is the sum of the first \<open>c\<close> of them, and the key is a prefix of the
  blocks 1, 2 and so on.
\<close>

fun pbkdf2_U :: "(bytes \<Rightarrow> bytes \<Rightarrow> bytes) \<Rightarrow> bytes \<Rightarrow> bytes \<Rightarrow> nat \<Rightarrow> nat \<Rightarrow> bytes" where
  "pbkdf2_U hmac pwd salt i 0 = hmac pwd (salt @ be32 (of_nat i))"
| "pbkdf2_U hmac pwd salt i (Suc j) = hmac pwd (pbkdf2_U hmac pwd salt i j)"

definition pbkdf2_F :: "(bytes \<Rightarrow> bytes \<Rightarrow> bytes) \<Rightarrow> bytes \<Rightarrow> bytes \<Rightarrow> nat \<Rightarrow> nat \<Rightarrow> bytes" where
  "pbkdf2_F hmac pwd salt c i =
     fold (\<lambda>j acc. xor_bytes acc (pbkdf2_U hmac pwd salt i j)) [1..<c] (pbkdf2_U hmac pwd salt i 0)"

definition pbkdf2 :: "(bytes \<Rightarrow> bytes \<Rightarrow> bytes) \<Rightarrow> bytes \<Rightarrow> bytes \<Rightarrow> nat \<Rightarrow> nat \<Rightarrow> bytes" where
  "pbkdf2 hmac pwd salt c keylen =
     take keylen (concat (map (pbkdf2_F hmac pwd salt c) [1..<1 + (keylen + 19) div 20]))"

lemma length_xor_bytes [simp]: "length (xor_bytes key hash) = min (length key) (length hash)"
  by (simp add: xor_bytes_def)

lemma take_xor_bytes: "take n (xor_bytes key hash) = xor_bytes (take n key) hash"
proof (induction key arbitrary: n hash)
  case (Cons a key)
  then show ?case by (cases n; cases hash) (auto simp: xor_bytes_def)
qed (simp add: xor_bytes_def)

lemma pbkdf_rounds_sum:
  "pbkdf_rounds hmac pwd n (pbkdf2_U hmac pwd salt i j) key =
    fold (\<lambda>j acc. xor_bytes acc (pbkdf2_U hmac pwd salt i j)) [Suc j..<Suc (j + n)] key"
proof (induction n arbitrary: j key)
  case (Suc n)
  have "[Suc j..<Suc (j + Suc n)] = Suc j # [Suc (Suc j)..<Suc (Suc j + n)]"
    by (simp add: upt_conv_Cons del: upt_Suc)
  with Suc [of "Suc j"] show ?case by (simp add: Let_def del: upt_Suc)
qed simp

lemma fold_take_xor:
  "fold (\<lambda>j acc. xor_bytes acc (U j)) js (take n key) = take n (fold (\<lambda>j acc. xor_bytes acc (U j)) js key)"
  by (induction js arbitrary: key) (simp_all add: take_xor_bytes [symmetric])

lemma pbkdf_block_F:
  "0 < c \<Longrightarrow> pbkdf_block hmac c pwd salt i cplen = take cplen (pbkdf2_F hmac pwd salt c i)"
  using pbkdf_rounds_sum [of hmac pwd "c - 1" salt i 0]
  by (simp add: pbkdf_block_def pbkdf2_F_def fold_take_xor Let_def)

lemma length_pbkdf2_F:
  assumes "\<And>k m. length (hmac k m) = 20"
  shows "length (pbkdf2_F hmac pwd salt c i) = 20"
proof -
  have U: "length (pbkdf2_U hmac pwd salt i j) = 20" for j
    using assms by (cases j) simp_all
  have "length acc = 20 \<Longrightarrow> length (fold (\<lambda>j acc. xor_bytes acc (pbkdf2_U hmac pwd salt i j)) js acc) = 20" for js acc
    by (induction js arbitrary: acc) (simp_all add: U)
  then show ?thesis unfolding pbkdf2_F_def using U [of 0] .
qed

lemma pbkdf_loop_blocks:
  assumes len: "\<And>k m. length (hmac k m) = 20" and c: "0 < c"
  shows "pbkdf_loop hmac c pwd salt i keylen =
    take keylen (concat (map (pbkdf2_F hmac pwd salt c) [i..<i + (keylen + 19) div 20]))"
proof (induction keylen arbitrary: i rule: less_induct)
  case (less keylen)
  let ?F = "pbkdf2_F hmac pwd salt c"
  show ?case
  proof (cases "keylen \<le> 20")
    case True
    show ?thesis
    proof (cases "keylen = 0")
      case False
      then have "(keylen + 19) div 20 = 1" using True by simp
      with True False show ?thesis
        by (simp add: pbkdf_loop.simps [of _ _ _ _ _ keylen] pbkdf_loop.simps [of _ _ _ _ _ 0]
            Let_def kSHA1Length_def pbkdf_block_F [OF c] min_def)
    qed (simp add: pbkdf_loop.simps)
  next
    case False
    then have blocks: "(keylen + 19) div 20 = Suc ((keylen - 20 + 19) div 20)" by simp
    have "[i..<i + (keylen + 19) div 20] = i # [i + 1..<(i + 1) + (keylen - 20 + 19) div 20]"
      unfolding blocks by (simp add: upt_conv_Cons)
    moreover have "take keylen (?F i @ xs) = ?F i @ take (keylen - 20) xs" for xs
      using False length_pbkdf2_F [OF len] by simp
    ultimately show ?thesis
      using less [of "keylen - 20" "i + 1"] False length_pbkdf2_F [OF len]
      by (simp add: pbkdf_loop.simps [of _ _ _ _ _ keylen] Let_def kSHA1Length_def pbkdf_block_F [OF c])
  qed
qed

lemma ComputeKey_length:
  assumes "\<And>k m. length (hmac k m) = 20"
  shows "length (ComputeKey hmac salt keylen pwd) = keylen"
proof -
  let ?F = "pbkdf2_F hmac (sb_content pwd) salt 200003"
  have "length (concat (map ?F is)) = 20 * length is" for "is" :: "nat list"
    by (induction "is") (simp_all add: length_pbkdf2_F [OF assms])
  moreover have "keylen \<le> 20 * ((keylen + 19) div 20)" by linarith
  ultimately show ?thesis
    using pbkdf_loop_blocks [OF assms, of 200003] by (simp add: ComputeKey_def kPbkdfRounds_def)
qed

text \<open>C17. \<open>ComputeKey\<close> is PBKDF2 of RFC 2898 with 200003 rounds, for any key length, given that the HMAC has
  20 bytes: although the code sums only the part of each block that it needs.\<close>
theorem ComputeKey_is_PBKDF2:
  assumes "\<And>k m. length (hmac k m) = 20"
  shows "ComputeKey hmac salt keylen pwd = pbkdf2 hmac (sb_content pwd) salt 200003 keylen"
  using pbkdf_loop_blocks [OF assms, of 200003] by (simp add: ComputeKey_def pbkdf2_def kPbkdfRounds_def)

theorem ComputeKey_is_PBKDF2_witness:
  "ComputeKey (\<lambda>k m. take 20 (m @ replicate 20 1)) [1, 2, 3] 16 (sb_new (replicate 4096 0)) =
    pbkdf2 (\<lambda>k m. take 20 (m @ replicate 20 1)) (sb_content (sb_new (replicate 4096 0))) [1, 2, 3] 200003 16"
  by (rule ComputeKey_is_PBKDF2) simp

text \<open>Two buffers with the same content are not the same when memory above the content differs, and the
  constructor from a short string reads beyond it.\<close>
theorem SameAs_compares_garbage:
  assumes "length memory = 4096" "length memory' = 4096" "drop (length pwd) memory \<noteq> drop (length pwd) memory'"
    "length pwd \<le> 4096"
  shows "\<not> sb_SameAs \<lparr>sb_data = pwd @ drop (length pwd) memory, sb_used = int (length pwd)\<rparr>
      \<lparr>sb_data = pwd @ drop (length pwd) memory', sb_used = int (length pwd)\<rparr>"
    and "length pwd < 4096 \<Longrightarrow> sb_new_from memory pwd (int (length pwd)) = None"
  using assms by (simp_all add: sb_SameAs_def kStaticBufferSize_def sb_new_from_def)

end
