(* ===== verification/BigNumber.thy ===== *)
theory BigNumber
  imports Serializers Password
begin

text \<open>
  \<open>src/src/openssl-helpers.h\<close> and \<open>.cc\<close>: big numbers, their encoding in a buffer, and digests.

  OpenSSL itself is a record of parameters with the names of its functions. A result \<open>None\<close> stands for
  the error return, on which \<open>LOG_FATAL\<close> aborts the process; \<open>bn_documented\<close> states what its manual
  promises. A \<open>Digest\<close> is the digest of what was given to its \<open>Update\<close>s, one after the other.
\<close>

section \<open>OpenSSL\<close>

record bn_lib =
  BN_mod_exp :: "nat \<Rightarrow> nat \<Rightarrow> nat \<Rightarrow> nat option"
  BN_mod_mul :: "nat \<Rightarrow> nat \<Rightarrow> nat \<Rightarrow> nat option"
  BN_mod_add :: "nat \<Rightarrow> nat \<Rightarrow> nat \<Rightarrow> nat option"
  BN_mod_sub :: "nat \<Rightarrow> nat \<Rightarrow> nat \<Rightarrow> nat option"
  BN_mod :: "nat \<Rightarrow> nat \<Rightarrow> nat option"
  BN_num_bytes :: "nat \<Rightarrow> nat"
  BN_bn2bin :: "nat \<Rightarrow> bytes"
  BN_bin2bn :: "bytes \<Rightarrow> nat"
  BN_hex2bn :: "bytes \<Rightarrow> nat \<times> nat"    \<comment> \<open>the number of digits read and their value\<close>
  EVP_sha1 :: "bytes \<Rightarrow> bytes"

definition hex_digit :: "byte \<Rightarrow> nat" where
  "hex_digit c = (if c \<le> 57 then unat c - 48 else unat c - 55)"

definition is_hex :: "byte \<Rightarrow> bool" where
  "is_hex c \<longleftrightarrow> 48 \<le> c \<and> c \<le> 57 \<or> 65 \<le> c \<and> c \<le> 70"

definition hex_value :: "bytes \<Rightarrow> nat" where
  "hex_value ds = foldl (\<lambda>v c. 16 * v + hex_digit c) 0 ds"

definition bn_documented :: "bn_lib \<Rightarrow> bool" where
  "bn_documented lib \<longleftrightarrow>
     (\<forall>a b m. 0 < m \<longrightarrow>
        BN_mod_exp lib a b m = Some (a ^ b mod m) \<and> BN_mod_mul lib a b m = Some (a * b mod m) \<and>
        BN_mod_add lib a b m = Some ((a + b) mod m) \<and>
        BN_mod_sub lib a b m = Some (nat ((int a - int b) mod int m)) \<and> BN_mod lib a m = Some (a mod m)) \<and>
     (\<forall>a. length (BN_bn2bin lib a) = BN_num_bytes lib a \<and> BN_bin2bn lib (BN_bn2bin lib a) = a) \<and>
     (\<forall>a n. a < 256 ^ n \<longrightarrow> BN_num_bytes lib a \<le> n) \<and>
     (\<forall>bs. BN_bin2bn lib bs < 256 ^ length bs) \<and>
     (\<forall>ds. list_all is_hex ds \<longrightarrow> BN_hex2bn lib ds = (length ds, hex_value ds)) \<and>
     (\<forall>m. length (EVP_sha1 lib m) = 20)"

lemma bn_documentedD:
  assumes "bn_documented lib"
  shows "0 < m \<Longrightarrow> BN_mod_exp lib a b m = Some (a ^ b mod m)" "0 < m \<Longrightarrow> BN_mod_mul lib a b m = Some (a * b mod m)"
    "0 < m \<Longrightarrow> BN_mod_add lib a b m = Some ((a + b) mod m)"
    "0 < m \<Longrightarrow> BN_mod_sub lib a b m = Some (nat ((int a - int b) mod int m))"
    "0 < m \<Longrightarrow> BN_mod lib a m = Some (a mod m)"
    "length (BN_bn2bin lib a) = BN_num_bytes lib a" "BN_bin2bn lib (BN_bn2bin lib a) = a"
    "a < 256 ^ n \<Longrightarrow> BN_num_bytes lib a \<le> n" "BN_bin2bn lib bs < 256 ^ length bs"
    "list_all is_hex bs \<Longrightarrow> BN_hex2bn lib bs = (length bs, hex_value bs)" "length (EVP_sha1 lib bs) = 20"
  using assms unfolding bn_documented_def by blast+

section \<open>The wrappers\<close>

definition ModExp :: "bn_lib \<Rightarrow> nat \<Rightarrow> nat \<Rightarrow> nat \<Rightarrow> nat option" where
  "ModExp lib base e m = BN_mod_exp lib base e m"

definition ModSub :: "bn_lib \<Rightarrow> nat \<Rightarrow> nat \<Rightarrow> nat \<Rightarrow> nat option" where
  "ModSub lib base sub m = BN_mod_sub lib base sub m"

definition ModMul :: "bn_lib \<Rightarrow> nat \<Rightarrow> nat \<Rightarrow> nat \<Rightarrow> nat option" where
  "ModMul lib base mul m = BN_mod_mul lib base mul m"

definition ModAdd :: "bn_lib \<Rightarrow> nat \<Rightarrow> nat \<Rightarrow> nat \<Rightarrow> nat option" where
  "ModAdd lib base add m = BN_mod_add lib base add m"

definition IsDivisibleBy :: "bn_lib \<Rightarrow> nat \<Rightarrow> nat \<Rightarrow> bool option" where
  "IsDivisibleBy lib number divisor = do { result \<leftarrow> BN_mod lib number divisor; Some (result = 0) }"

definition SetFromBinary :: "bn_lib \<Rightarrow> bytes \<Rightarrow> nat" where
  "SetFromBinary lib v = BN_bin2bn lib v"

definition SetFromHex :: "bn_lib \<Rightarrow> bytes \<Rightarrow> bool \<times> nat" where
  "SetFromHex lib v = (case BN_hex2bn lib v of (n, a) \<Rightarrow> (n = length v, a))"

text \<open>\<open>bits\<close> bits, in whole bytes, from the generator; the string is zero before.\<close>

definition SetFromRandom :: "bn_lib \<Rightarrow> 'k rc4_lib \<Rightarrow> nat \<Rightarrow> 'k prng \<Rightarrow> (nat \<times> 'k prng) option" where
  "SetFromRandom lib rl bits p = do {
     (buffer, p) \<leftarrow> Get rl (replicate (bits div 8) 0) p;
     Some (SetFromBinary lib buffer, p)
   }"

definition ExportAsBinary :: "bn_lib \<Rightarrow> nat \<Rightarrow> bytes" where
  "ExportAsBinary lib a = BN_bn2bin lib a"

definition ExportAsBinary_buffer :: "bn_lib \<Rightarrow> nat \<Rightarrow> static_buffer \<Rightarrow> static_buffer option" where
  "ExportAsBinary_buffer lib a b = do {
     let b = sb_Resize (int (BN_num_bytes lib a)) b;
     fatal_unless (kStaticBufferSize \<ge> BN_num_bytes lib a);
     Some (b\<lparr>sb_data := BN_bn2bin lib a @ drop (BN_num_bytes lib a) (sb_data b)\<rparr>)
   }"

definition Digest_SHA1 :: "bn_lib \<Rightarrow> bytes list \<Rightarrow> bytes" where
  "Digest_SHA1 lib updates = EVP_sha1 lib (concat updates)"

section \<open>In a buffer\<close>

text \<open>\<open>Reserve\<close>, a write to \<open>Data()\<close> and \<open>Increment\<close>: how code that fills memory itself appends to a buffer.\<close>

definition reader_fill :: "reader \<Rightarrow> nat \<Rightarrow> bytes \<Rightarrow> reader option" where
  "reader_fill r n bs = do { s \<leftarrow> ic_commit (ic_reserve (fst r) n) bs; Some (s, snd r) }"

definition encode_bn :: "bn_lib \<Rightarrow> nat \<Rightarrow> reader \<Rightarrow> (bool \<times> reader) option" where
  "encode_bn lib bn r =
     (let sz = BN_num_bytes lib bn
      in if uint16_max < sz then Some (False, r)
         else do {
           (_, r) \<leftarrow> encode_u16 reader_add (of_nat sz) r;
           r \<leftarrow> reader_fill r sz (BN_bn2bin lib bn);
           Some (True, r)
         })"

definition decode_bn :: "bn_lib \<Rightarrow> reader \<Rightarrow> (nat, reader) decoded" where
  "decode_bn lib r = do {
     (missing, sz, r) \<leftarrow> decode_u16 reader_consume r;
     (case sz of
        None \<Rightarrow> Some (missing, None, r)
      | Some sz \<Rightarrow> do {
          contiguous \<leftarrow> oc_contiguous (fst r) (snd r);
          (if contiguous \<ge> unat sz then do {
             bs \<leftarrow> oc_data (fst r) (snd r);
             r \<leftarrow> oc_increment (fst r) (snd r) (unat sz);
             Some (0, Some (BN_bin2bn lib (take (unat sz) bs)), r)
           }
           else do {
             left \<leftarrow> oc_left (fst r) (snd r);
             (if left < unat sz then Some (unat sz - left, None, r)
              else do {
                (temp, r) \<leftarrow> reader_consume r (unat sz);
                Some (0, Some (SetFromBinary lib temp), r)
              })
           })
        })
   }"

section \<open>Round trip\<close>

lemma reader_fill_appends:
  assumes "tidy others r" "length bs = n"
  shows "\<exists>r'. reader_fill r n bs = Some r' \<and> reader_contents r' = reader_contents r @ bs \<and> tidy others r'"
proof (cases "bs = []")
  case True
  with assms show ?thesis by (auto simp: reader_fill_def ic_commit_def ic_reserve_def)
next
  case False
  have tidy: "buf_inv (fst r) (snd r # others)" "gap_free (cs_chunks (fst r))"
    "cs_chunks (fst r) = [] \<or> ck_data (last (cs_chunks (fst r))) \<noteq> []" "oc_limited (snd r) = None"
    using assms(1) by (simp_all add: tidy_def)
  note reserve = reserve_grows [OF tidy(1), of n]
  have room: "length bs \<le> ic_contiguous (ic_reserve (fst r) n)" using reserve_room assms(2) by simp
  have ne: "cs_chunks (ic_reserve (fst r) n) \<noteq> []"
    using room False by (auto simp: ic_contiguous_def)
  have chain: "chain_inv (ic_reserve (fst r) n) (map oc_prev (snd r # others))"
    using reserve(1) by (simp add: buf_inv_def)
  from commit_grows [OF chain room ne] obtain s where
    s: "ic_commit (ic_reserve (fst r) n) bs = Some s" "chain_inv s (map oc_prev (snd r # others))"
      "grows (ic_reserve (fst r) n) bs s" "gap_free (cs_chunks s) = gap_free (cs_chunks (ic_reserve (fst r) n))"
      "ck_data (last (cs_chunks s)) = ck_data (last (cs_chunks (ic_reserve (fst r) n))) @ bs"
    by metis
  have grow: "grows (fst r) bs s" using grows_trans [OF reserve(2) s(3)] by simp
  have inv: "buf_inv s (snd r # others)" by (rule buf_inv_grows [OF tidy(1) s(2) grow])
  have "gap_free (cs_chunks s)" "ck_data (last (cs_chunks s)) \<noteq> []"
    using s(4,5) reserve(3) tidy(2,3) False by auto
  with inv tidy(4) have "tidy others (s, snd r)" by (simp add: tidy_def)
  moreover have "unread s (snd r) = unread (fst r) (snd r) @ bs"
    by (rule grows_cursor(2) [OF grow]) (use tidy(1) in \<open>simp add: buf_inv_def\<close>)
  ultimately show ?thesis using s(1) by (auto simp: reader_fill_def reader_contents_def)
qed

definition bn_wire :: "bn_lib \<Rightarrow> nat \<Rightarrow> bytes" where
  "bn_wire lib a = be16 (of_nat (BN_num_bytes lib a)) @ BN_bn2bin lib a"

lemma encode_u16_writes:
  assumes "tidy others r"
  shows "\<exists>r'. encode_u16 reader_add n r = Some (True, r') \<and> reader_contents r' = reader_contents r @ be16 n \<and> tidy others r'"
  using cursor_sink.writes_numbers(2) assms unfolding cursor_sink.writes_def by blast

lemma encode_string_writes:
  assumes "tidy others r" "length xs \<le> uint16_max"
  shows "\<exists>r'. encode_string reader_add xs r = Some (True, r') \<and>
    reader_contents r' = reader_contents r @ be16 (of_nat (length xs)) @ xs \<and> tidy others r'"
  using cursor_sink.writes_string [OF assms(2)] assms(1) unfolding cursor_sink.writes_def by blast

lemma decode_u16_reads:
  assumes "kept others vs r" "reader_contents r = be16 n @ rest"
  shows "\<exists>r'. decode_u16 reader_consume r = Some (0, Some n, r') \<and> reader_contents r' = rest \<and> kept others vs r'"
  using kept_source.readsD [OF kept_source.reads_numbers(2) assms] .

lemma decode_string_reads:
  assumes "kept others vs r" "reader_contents r = (be16 (of_nat (length xs)) @ xs) @ rest" "length xs \<le> uint16_max"
  shows "\<exists>r'. decode_string reader_consume r = Some (0, Some xs, r') \<and> reader_contents r' = rest \<and> kept others vs r'"
  using kept_source.readsD [OF kept_source.reads_string [OF assms(3)] assms(1,2)] .

lemma encode_bn_writes:
  assumes "bn_documented lib" "tidy others r" "BN_num_bytes lib a \<le> uint16_max"
  shows "\<exists>r'. encode_bn lib a r = Some (True, r') \<and> reader_contents r' = reader_contents r @ bn_wire lib a \<and> tidy others r'"
proof -
  have len: "length (BN_bn2bin lib a) = BN_num_bytes lib a" using assms(1) by (simp add: bn_documented_def)
  obtain r1 where r1: "encode_u16 reader_add (of_nat (BN_num_bytes lib a)) r = Some (True, r1)"
    "reader_contents r1 = reader_contents r @ be16 (of_nat (BN_num_bytes lib a))" "tidy others r1"
    using encode_u16_writes [OF assms(2)] by blast
  from reader_fill_appends [OF this(3) len] r1 assms(3) show ?thesis
    by (auto simp: encode_bn_def bn_wire_def)
qed

lemma decode_bn_reads:
  assumes "bn_documented lib" "kept others vs r" "reader_contents r = bn_wire lib a @ rest" "BN_num_bytes lib a \<le> uint16_max"
  shows "\<exists>r'. decode_bn lib r = Some (0, Some a, r') \<and> reader_contents r' = rest \<and> kept others vs r'"
proof -
  let ?n = "BN_num_bytes lib a" and ?bin = "BN_bn2bin lib a"
  have bin: "length ?bin = ?n" "BN_bin2bn lib ?bin = a" using assms(1) by (simp_all add: bn_documented_def)
  have n: "unat (of_nat ?n :: u16) = ?n" using assms(4) by (simp add: unat_of_nat take_bit_nat_eq_self uint16_max_def)
  obtain r1 where r1: "decode_u16 reader_consume r = Some (0, Some (of_nat ?n), r1)"
    "reader_contents r1 = ?bin @ rest" "kept others vs r1"
    using decode_u16_reads [OF assms(2), of "of_nat ?n" "?bin @ rest"] assms(3) by (auto simp: bn_wire_def)
  have readable: "readable (fst r1) (snd r1) others" "oc_limited (snd r1) = None"
    using r1(3) by (simp_all add: kept_def reader_ok_def)
  obtain bs more where bs: "oc_data (fst r1) (snd r1) = Some bs" "oc_contiguous (fst r1) (snd r1) = Some (length bs)"
    "?bin @ rest = bs @ more"
    using contiguous_data [OF readable(1)] r1(2) unfolding reader_contents_def by metis
  have left: "oc_left (fst r1) (snd r1) = Some (length (?bin @ rest))"
    using left_size [of "fst r1" "snd r1" others] readable r1(2) by (simp add: readable_def reader_contents_def)
  show ?thesis
  proof (cases "?n \<le> length bs")
    case True
    then have "take ?n bs = ?bin" using bs(3) bin(1) by (metis append_eq_append_conv_if take_append take_all append_take_drop_id append_eq_conv_conj take_take min_absorb1)
    moreover obtain s2 cur2 where "oc_increment (fst r1) (snd r1) ?n = Some (s2, cur2)" "advanced (fst r1) (snd r1) others ?n s2 cur2"
      using increment_advances [OF readable(1), of ?n] readable(2) bin(1) r1(2) by (auto simp: within_limit_def reader_contents_def)
    moreover from this(2) kept_advanced [of others vs "fst r1" "snd r1"] r1(2,3) bin(1) have
      "reader_contents (s2, cur2) = rest" "kept others vs (s2, cur2)" by simp_all
    ultimately show ?thesis using True r1(1) bs(1,2) n bin by (simp add: decode_bn_def)
  next
    case False
    from kept_source.consume_prefix [OF r1(3,2) bin(1)] False r1(1) bs(2) left n bin show ?thesis
      by (fastforce simp: decode_bn_def SetFromBinary_def)
  qed
qed

lemma bn_crosses:
  assumes "bn_documented lib" "tidy others r" "reader_contents r = []" "BN_num_bytes lib a \<le> 65535"
  shows "\<exists>r1 r2. encode_bn lib a r = Some (True, r1) \<and> decode_bn lib r1 = Some (0, Some a, r2) \<and> reader_contents r2 = []"
proof -
  have n: "BN_num_bytes lib a \<le> uint16_max" using assms(4) by (simp add: uint16_max_def)
  obtain r1 where r1: "encode_bn lib a r = Some (True, r1)" "reader_contents r1 = bn_wire lib a" "tidy others r1"
    using encode_bn_writes [OF assms(1,2) n] assms(3) by auto
  have "length (bn_wire lib a) = 2 + BN_num_bytes lib a" using assms(1) by (simp add: bn_wire_def bn_documented_def)
  then have "reader_ok others r1" using r1 assms(4) by (intro tidy_reader_ok) auto
  from decode_bn_reads [OF assms(1) this [unfolded reader_ok_kept], of a "[]"] r1 n show ?thesis by auto
qed


section \<open>The documentation can be met\<close>

fun nat_bin :: "nat \<Rightarrow> bytes" where
  "nat_bin n = (if n = 0 then [] else nat_bin (n div 256) @ [of_nat (n mod 256)])"

declare nat_bin.simps [simp del]

definition bin_nat :: "bytes \<Rightarrow> nat" where
  "bin_nat bs = foldl (\<lambda>v b. 256 * v + unat b) 0 bs"

definition concrete_bn :: bn_lib where
  "concrete_bn = \<lparr>
     BN_mod_exp = (\<lambda>a b m. if m = 0 then None else Some (a ^ b mod m)),
     BN_mod_mul = (\<lambda>a b m. if m = 0 then None else Some (a * b mod m)),
     BN_mod_add = (\<lambda>a b m. if m = 0 then None else Some ((a + b) mod m)),
     BN_mod_sub = (\<lambda>a b m. if m = 0 then None else Some (nat ((int a - int b) mod int m))),
     BN_mod = (\<lambda>a m. if m = 0 then None else Some (a mod m)),
     BN_num_bytes = (\<lambda>a. length (nat_bin a)), BN_bn2bin = nat_bin, BN_bin2bn = bin_nat,
     BN_hex2bn = (\<lambda>ds. (length (takeWhile is_hex ds), hex_value (takeWhile is_hex ds))),
     EVP_sha1 = (\<lambda>m. replicate 19 0 @ [1])\<rparr>"

lemma bin_nat_snoc: "bin_nat (bs @ [b]) = 256 * bin_nat bs + unat b"
  by (simp add: bin_nat_def)

lemma bin_nat_bin: "bin_nat (nat_bin n) = n"
proof (induction n rule: nat_bin.induct)
  case (1 n)
  show ?case
  proof (cases "n = 0")
    case False
    have "unat (of_nat (n mod 256) :: byte) = n mod 256" by (simp add: unat_of_nat)
    with 1 False show ?thesis by (simp add: nat_bin.simps [of n] bin_nat_snoc)
  qed (simp add: nat_bin.simps bin_nat_def)
qed

lemma bin_nat_less: "bin_nat bs < 256 ^ length bs"
proof (induction bs rule: rev_induct)
  case (snoc b bs)
  have "unat b < 256" using unsigned_less [of b] by simp
  with snoc show ?case by (simp add: bin_nat_snoc)
qed (simp add: bin_nat_def)

lemma length_nat_bin: "n < 256 ^ k \<Longrightarrow> length (nat_bin n) \<le> k"
proof (induction k arbitrary: n)
  case (Suc k)
  then have "n div 256 < 256 ^ k" by (simp add: div_less_iff_less_mult mult.commute)
  with Suc.IH show ?case by (simp add: nat_bin.simps [of n])
qed (simp add: nat_bin.simps)

lemma concrete_bn_documented: "bn_documented concrete_bn"
  unfolding bn_documented_def
proof (intro conjI allI impI)
  fix ds :: bytes
  assume "list_all is_hex ds"
  then have "takeWhile is_hex ds = ds" by (simp add: takeWhile_eq_all_conv list_all_iff)
  then show "BN_hex2bn concrete_bn ds = (length ds, hex_value ds)"
    by (simp add: concrete_bn_def del: takeWhile_eq_all_conv)
qed (simp_all add: concrete_bn_def bin_nat_bin bin_nat_less length_nat_bin)


end
