(* ===== verification/SrpPrimes.thy ===== *)
theory SrpPrimes
  imports BigNumber
begin

text \<open>
  The table of primes of \<open>src/src/srp-common.cc\<close> and its accessors. The cache of \<open>SecurePrimes\<close> is left out:
  a prime is converted at each use.
\<close>

section \<open>The primes\<close>

record prime =
  pm_name :: bytes
  pm_generator :: nat
  pm_value :: bytes

definition kValidPrimes :: "prime list" where
  "kValidPrimes = [
     \<lparr>pm_name = str ''1024'', pm_generator = 2, pm_value =
        str ''EEAF0AB9ADB38DD69C33F80AFA8FC5E86072618775FF3C0B9EA2314C'' @
        str ''9C256576D674DF7496EA81D3383B4813D692C6E0E0D5D8E250B98BE4'' @
        str ''8E495C1D6089DAD15DC7D7B46154D6B6CE8EF4AD69B15D4982559B29'' @
        str ''7BCF1885C529F566660E57EC68EDBC3C05726CC02FD4CBF4976EAA9A'' @
        str ''FD5138FE8376435B9FC61D2FC0EB06E3''\<rparr>,
     \<lparr>pm_name = str ''1536'', pm_generator = 2, pm_value =
        str ''9DEF3CAFB939277AB1F12A8617A47BBBDBA51DF499AC4C80BEEEA961'' @
        str ''4B19CC4D5F4F5F556E27CBDE51C6A94BE4607A291558903BA0D0F843'' @
        str ''80B655BB9A22E8DCDF028A7CEC67F0D08134B1C8B97989149B609E0B'' @
        str ''E3BAB63D47548381DBC5B1FC764E3F4B53DD9DA1158BFD3E2B9C8CF5'' @
        str ''6EDF019539349627DB2FD53D24B7C48665772E437D6C7F8CE442734A'' @
        str ''F7CCB7AE837C264AE3A9BEB87F8A2FE9B8B5292E5A021FFF5E91479E'' @
        str ''8CE7A28C2442C6F315180F93499A234DCF76E3FED135F9BB''\<rparr>,
     \<lparr>pm_name = str ''2048'', pm_generator = 2, pm_value =
        str ''AC6BDB41324A9A9BF166DE5E1389582FAF72B6651987EE07FC319294'' @
        str ''3DB56050A37329CBB4A099ED8193E0757767A13DD52312AB4B03310D'' @
        str ''CD7F48A9DA04FD50E8083969EDB767B0CF6095179A163AB3661A05FB'' @
        str ''D5FAAAE82918A9962F0B93B855F97993EC975EEAA80D740ADBF4FF74'' @
        str ''7359D041D5C33EA71D281E446B14773BCA97B43A23FB801676BD207A'' @
        str ''436C6481F1D2B9078717461A5B9D32E688F87748544523B524B0D57D'' @
        str ''5EA77A2775D2ECFA032CFBDBF52FB3786160279004E57AE6AF874E73'' @
        str ''03CE53299CCC041C7BC308D82A5698F3A8D0C38271AE35F8E9DBFBB6'' @
        str ''94B5C803D89F7AE435DE236D525F54759B65E372FCD68EF20FA7111F'' @
        str ''9E4AFF73''\<rparr>,
     \<lparr>pm_name = str ''3072'', pm_generator = 5, pm_value =
        str ''FFFFFFFFFFFFFFFFC90FDAA22168C234C4C6628B80DC1CD129024E08'' @
        str ''8A67CC74020BBEA63B139B22514A08798E3404DDEF9519B3CD3A431B'' @
        str ''302B0A6DF25F14374FE1356D6D51C245E485B576625E7EC6F44C42E9'' @
        str ''A637ED6B0BFF5CB6F406B7EDEE386BFB5A899FA5AE9F24117C4B1FE6'' @
        str ''49286651ECE45B3DC2007CB8A163BF0598DA48361C55D39A69163FA8'' @
        str ''FD24CF5F83655D23DCA3AD961C62F356208552BB9ED529077096966D'' @
        str ''670C354E4ABC9804F1746C08CA18217C32905E462E36CE3BE39E772C'' @
        str ''180E86039B2783A2EC07A28FB5C55DF06F4C52C9DE2BCBF695581718'' @
        str ''3995497CEA956AE515D2261898FA051015728E5A8AAAC42DAD33170D'' @
        str ''04507A33A85521ABDF1CBA64ECFB850458DBEF0A8AEA71575D060C7D'' @
        str ''B3970F85A6E1E4C7ABF5AE8CDB0933D71E8C94E04A25619DCEE3D226'' @
        str ''1AD2EE6BF12FFA06D98A0864D87602733EC86A64521F2B18177B200C'' @
        str ''BBE117577A615D6C770988C0BAD946E208E24FA074E5AB3143DB5BFC'' @
        str ''E0FD108E4B82D120A93AD2CAFFFFFFFFFFFFFFFF''\<rparr>,
     \<lparr>pm_name = str ''4096'', pm_generator = 5, pm_value =
        str ''FFFFFFFFFFFFFFFFC90FDAA22168C234C4C6628B80DC1CD129024E08'' @
        str ''8A67CC74020BBEA63B139B22514A08798E3404DDEF9519B3CD3A431B'' @
        str ''302B0A6DF25F14374FE1356D6D51C245E485B576625E7EC6F44C42E9'' @
        str ''A637ED6B0BFF5CB6F406B7EDEE386BFB5A899FA5AE9F24117C4B1FE6'' @
        str ''49286651ECE45B3DC2007CB8A163BF0598DA48361C55D39A69163FA8'' @
        str ''FD24CF5F83655D23DCA3AD961C62F356208552BB9ED529077096966D'' @
        str ''670C354E4ABC9804F1746C08CA18217C32905E462E36CE3BE39E772C'' @
        str ''180E86039B2783A2EC07A28FB5C55DF06F4C52C9DE2BCBF695581718'' @
        str ''3995497CEA956AE515D2261898FA051015728E5A8AAAC42DAD33170D'' @
        str ''04507A33A85521ABDF1CBA64ECFB850458DBEF0A8AEA71575D060C7D'' @
        str ''B3970F85A6E1E4C7ABF5AE8CDB0933D71E8C94E04A25619DCEE3D226'' @
        str ''1AD2EE6BF12FFA06D98A0864D87602733EC86A64521F2B18177B200C'' @
        str ''BBE117577A615D6C770988C0BAD946E208E24FA074E5AB3143DB5BFC'' @
        str ''E0FD108E4B82D120A92108011A723C12A787E6D788719A10BDBA5B26'' @
        str ''99C327186AF4E23C1A946834B6150BDA2583E9CA2AD44CE8DBBBC2DB'' @
        str ''04DE8EF92E8EFC141FBECAA6287C59474E6BC05D99B2964FA090C3A2'' @
        str ''233BA186515BE7ED1F612970CEE2D7AFB81BDD762170481CD0069127'' @
        str ''D5B05AA993B4EA988D8FDDC186FFB7DC90A6C08F4DF435C934063199'' @
        str ''FFFFFFFFFFFFFFFF''\<rparr>,
     \<lparr>pm_name = str ''6144'', pm_generator = 5, pm_value =
        str ''FFFFFFFFFFFFFFFFC90FDAA22168C234C4C6628B80DC1CD129024E08'' @
        str ''8A67CC74020BBEA63B139B22514A08798E3404DDEF9519B3CD3A431B'' @
        str ''302B0A6DF25F14374FE1356D6D51C245E485B576625E7EC6F44C42E9'' @
        str ''A637ED6B0BFF5CB6F406B7EDEE386BFB5A899FA5AE9F24117C4B1FE6'' @
        str ''49286651ECE45B3DC2007CB8A163BF0598DA48361C55D39A69163FA8'' @
        str ''FD24CF5F83655D23DCA3AD961C62F356208552BB9ED529077096966D'' @
        str ''670C354E4ABC9804F1746C08CA18217C32905E462E36CE3BE39E772C'' @
        str ''180E86039B2783A2EC07A28FB5C55DF06F4C52C9DE2BCBF695581718'' @
        str ''3995497CEA956AE515D2261898FA051015728E5A8AAAC42DAD33170D'' @
        str ''04507A33A85521ABDF1CBA64ECFB850458DBEF0A8AEA71575D060C7D'' @
        str ''B3970F85A6E1E4C7ABF5AE8CDB0933D71E8C94E04A25619DCEE3D226'' @
        str ''1AD2EE6BF12FFA06D98A0864D87602733EC86A64521F2B18177B200C'' @
        str ''BBE117577A615D6C770988C0BAD946E208E24FA074E5AB3143DB5BFC'' @
        str ''E0FD108E4B82D120A92108011A723C12A787E6D788719A10BDBA5B26'' @
        str ''99C327186AF4E23C1A946834B6150BDA2583E9CA2AD44CE8DBBBC2DB'' @
        str ''04DE8EF92E8EFC141FBECAA6287C59474E6BC05D99B2964FA090C3A2'' @
        str ''233BA186515BE7ED1F612970CEE2D7AFB81BDD762170481CD0069127'' @
        str ''D5B05AA993B4EA988D8FDDC186FFB7DC90A6C08F4DF435C934028492'' @
        str ''36C3FAB4D27C7026C1D4DCB2602646DEC9751E763DBA37BDF8FF9406'' @
        str ''AD9E530EE5DB382F413001AEB06A53ED9027D831179727B0865A8918'' @
        str ''DA3EDBEBCF9B14ED44CE6CBACED4BB1BDB7F1447E6CC254B33205151'' @
        str ''2BD7AF426FB8F401378CD2BF5983CA01C64B92ECF032EA15D1721D03'' @
        str ''F482D7CE6E74FEF6D55E702F46980C82B5A84031900B1C9E59E7C97F'' @
        str ''BEC7E8F323A97A7E36CC88BE0F1D45B7FF585AC54BD407B22B4154AA'' @
        str ''CC8F6D7EBF48E1D814CC5ED20F8037E0A79715EEF29BE32806A1D58B'' @
        str ''B7C5DA76F550AA3D8A1FBFF0EB19CCB1A313D55CDA56C9EC2EF29632'' @
        str ''387FE8D76E3C0468043E8F663F4860EE12BF2D5B0B7474D6E694F91E'' @
        str ''6DCC4024FFFFFFFFFFFFFFFF''\<rparr>,
     \<lparr>pm_name = str ''8192'', pm_generator = 19, pm_value =
        str ''FFFFFFFFFFFFFFFFC90FDAA22168C234C4C6628B80DC1CD129024E08'' @
        str ''8A67CC74020BBEA63B139B22514A08798E3404DDEF9519B3CD3A431B'' @
        str ''302B0A6DF25F14374FE1356D6D51C245E485B576625E7EC6F44C42E9'' @
        str ''A637ED6B0BFF5CB6F406B7EDEE386BFB5A899FA5AE9F24117C4B1FE6'' @
        str ''49286651ECE45B3DC2007CB8A163BF0598DA48361C55D39A69163FA8'' @
        str ''FD24CF5F83655D23DCA3AD961C62F356208552BB9ED529077096966D'' @
        str ''670C354E4ABC9804F1746C08CA18217C32905E462E36CE3BE39E772C'' @
        str ''180E86039B2783A2EC07A28FB5C55DF06F4C52C9DE2BCBF695581718'' @
        str ''3995497CEA956AE515D2261898FA051015728E5A8AAAC42DAD33170D'' @
        str ''04507A33A85521ABDF1CBA64ECFB850458DBEF0A8AEA71575D060C7D'' @
        str ''B3970F85A6E1E4C7ABF5AE8CDB0933D71E8C94E04A25619DCEE3D226'' @
        str ''1AD2EE6BF12FFA06D98A0864D87602733EC86A64521F2B18177B200C'' @
        str ''BBE117577A615D6C770988C0BAD946E208E24FA074E5AB3143DB5BFC'' @
        str ''E0FD108E4B82D120A92108011A723C12A787E6D788719A10BDBA5B26'' @
        str ''99C327186AF4E23C1A946834B6150BDA2583E9CA2AD44CE8DBBBC2DB'' @
        str ''04DE8EF92E8EFC141FBECAA6287C59474E6BC05D99B2964FA090C3A2'' @
        str ''233BA186515BE7ED1F612970CEE2D7AFB81BDD762170481CD0069127'' @
        str ''D5B05AA993B4EA988D8FDDC186FFB7DC90A6C08F4DF435C934028492'' @
        str ''36C3FAB4D27C7026C1D4DCB2602646DEC9751E763DBA37BDF8FF9406'' @
        str ''AD9E530EE5DB382F413001AEB06A53ED9027D831179727B0865A8918'' @
        str ''DA3EDBEBCF9B14ED44CE6CBACED4BB1BDB7F1447E6CC254B33205151'' @
        str ''2BD7AF426FB8F401378CD2BF5983CA01C64B92ECF032EA15D1721D03'' @
        str ''F482D7CE6E74FEF6D55E702F46980C82B5A84031900B1C9E59E7C97F'' @
        str ''BEC7E8F323A97A7E36CC88BE0F1D45B7FF585AC54BD407B22B4154AA'' @
        str ''CC8F6D7EBF48E1D814CC5ED20F8037E0A79715EEF29BE32806A1D58B'' @
        str ''B7C5DA76F550AA3D8A1FBFF0EB19CCB1A313D55CDA56C9EC2EF29632'' @
        str ''387FE8D76E3C0468043E8F663F4860EE12BF2D5B0B7474D6E694F91E'' @
        str ''6DBE115974A3926F12FEE5E438777CB6A932DF8CD8BEC4D073B931BA'' @
        str ''3BC832B68D9DD300741FA7BF8AFC47ED2576F6936BA424663AAB639C'' @
        str ''5AE4F5683423B4742BF1C978238F16CBE39D652DE3FDB8BEFC848AD9'' @
        str ''22222E04A4037C0713EB57A81A23F0C73473FC646CEA306B4BCBC886'' @
        str ''2F8385DDFA9D4B7FA2C087E879683303ED5BDD3A062B3CF5B3A278A6'' @
        str ''6D2A13F83F44F82DDF310EE074AB6A364597E899A0255DC164F31CC5'' @
        str ''0846851DF9AB48195DED7EA1B1D510BD7EE74D73FAF36BC31ECFA268'' @
        str ''359046F4EB879F924009438B481C6CD7889A002ED5EE382BC9190DA6'' @
        str ''FC026E479558E4475677E9AA9E3050E2765694DFC81F56E880B96E71'' @
        str ''60C980DD98EDD3DFFFFFFFFFFFFFFFFF''\<rparr>]"

definition ValidIndex :: "int \<Rightarrow> bool" where
  "ValidIndex i = (if i < 0 \<or> nat i \<ge> length kValidPrimes then False else True)"

definition GetPrime :: "bn_lib \<Rightarrow> int \<Rightarrow> nat option" where
  "GetPrime lib i = do {
     fatal_unless (ValidIndex i);
     (case SetFromHex lib (pm_value (kValidPrimes ! nat i)) of (ok, n) \<Rightarrow> do { fatal_unless ok; Some n })
   }"

definition GetGenerator :: "int \<Rightarrow> nat option" where
  "GetGenerator i = do { fatal_unless (ValidIndex i); Some (pm_generator (kValidPrimes ! nat i)) }"

section \<open>The numbers\<close>

lemma hex_value_Cons: "hex_value (d # ds) = hex_digit d * 16 ^ length ds + hex_value ds"
proof -
  have "foldl (\<lambda>v c. 16 * v + hex_digit c) v ds = v * 16 ^ length ds + hex_value ds" for v
    unfolding hex_value_def
  proof (induction ds arbitrary: v)
    case (Cons e ds)
    from Cons [of "16 * v + hex_digit e"] Cons [of "hex_digit e"] show ?case by (simp add: algebra_simps)
  qed simp
  from this [of "hex_digit d"] show ?thesis by (simp add: hex_value_def)
qed

lemma hex_value_less: "list_all is_hex ds \<Longrightarrow> hex_value ds < 16 ^ length ds"
proof (induction ds)
  case (Cons d ds)
  have "hex_digit d \<le> 15" using Cons.prems by (auto simp: is_hex_def hex_digit_def word_le_nat_alt)
  then have "hex_digit d * 16 ^ length ds \<le> 15 * 16 ^ length ds" by simp
  moreover have "hex_value ds < 16 ^ length ds" using Cons by simp
  ultimately have "hex_digit d * 16 ^ length ds + hex_value ds < 16 * 16 ^ length ds" by linarith
  then show ?case by (simp add: hex_value_Cons)
qed (simp add: hex_value_def)

text \<open>The digits of the table are upper case hexadecimal digits.\<close>

fun hex_char :: "char \<Rightarrow> bool" where
  "hex_char (Char b0 b1 b2 b3 b4 b5 b6 b7) \<longleftrightarrow>
     \<not> b7 \<and> (\<not> b6 \<and> b5 \<and> b4 \<and> \<not> (b3 \<and> (b2 \<or> b1)) \<or>
             b6 \<and> \<not> b5 \<and> \<not> b4 \<and> \<not> b3 \<and> (b0 \<or> b1 \<or> b2) \<and> \<not> (b0 \<and> b1 \<and> b2))"

lemma hex_char_is_hex: "hex_char c \<Longrightarrow> is_hex (of_char c)"
proof (cases c)
  fix b0 b1 b2 b3 b4 b5 b6 b7
  assume "hex_char c" and c: "c = Char b0 b1 b2 b3 b4 b5 b6 b7"
  then show ?thesis
    unfolding c hex_char.simps
    by (cases b0; cases b1; cases b2; cases b3; cases b4; cases b5; cases b6; cases b7; simp add: is_hex_def)
qed

lemma hex_string: "list_all hex_char s \<Longrightarrow> list_all is_hex (str s)"
  by (induction s) (simp_all add: hex_char_is_hex)

lemma primes_digits: "list_all (\<lambda>p. list_all is_hex (pm_value p)) kValidPrimes"
  by (simp add: kValidPrimes_def hex_string del: str_simps)

lemma primes_lengths:
  "list_all (\<lambda>p. 256 \<le> length (pm_value p) \<and> length (pm_value p) \<le> 2048 \<and> 1 \<le> hex_digit (hd (pm_value p)) \<and>
     2 \<le> pm_generator p \<and> pm_generator p < 256) kValidPrimes"
  by (simp add: kValidPrimes_def hex_digit_def)

text \<open>No prime has more than 8192 bits.\<close>

definition prime_limit :: nat where
  "prime_limit = 256 ^ 1024"

lemma GetPrime_bounds:
  assumes "bn_documented lib" "ValidIndex i"
  obtains N where "GetPrime lib i = Some N" "2 ^ 1000 < N" "N < prime_limit"
proof -
  let ?p = "kValidPrimes ! nat i" and ?v = "pm_value (kValidPrimes ! nat i)"
  have "nat i < length kValidPrimes" using assms(2) by (simp add: ValidIndex_def split: if_splits)
  then have p: "list_all is_hex ?v" "256 \<le> length ?v" "length ?v \<le> 2048" "1 \<le> hex_digit (hd ?v)"
    using primes_digits primes_lengths unfolding list_all_length by blast+
  have "GetPrime lib i = Some (hex_value ?v)"
    using assms p(1) by (simp add: GetPrime_def SetFromHex_def bn_documented_def)
  moreover have "2 ^ 1000 < hex_value ?v"
  proof -
    obtain d ds where v: "?v = d # ds" using p(2) by (cases ?v) auto
    have "(2 :: nat) ^ 1000 < 16 ^ 255" by simp
    also have "\<dots> \<le> 16 ^ length ds" using p(2) v by (intro power_increasing) simp_all
    also have "\<dots> \<le> hex_value ?v"
    proof -
      have "1 * 16 ^ length ds \<le> hex_digit d * 16 ^ length ds" using p(4) v by (intro mult_le_mono1) simp
      then show ?thesis unfolding v hex_value_Cons by linarith
    qed
    finally show ?thesis .
  qed
  moreover have "hex_value ?v < prime_limit"
  proof -
    have "hex_value ?v < 16 ^ length ?v" by (rule hex_value_less [OF p(1)])
    also have "(16 :: nat) ^ length ?v \<le> 16 ^ (2 * 1024)" using p(3) by (intro power_increasing) simp_all
    also have "\<dots> = (16 ^ 2) ^ 1024" by (rule power_mult)
    also have "(16 :: nat) ^ 2 = 256" by simp
    also have "256 ^ 1024 = prime_limit" by (simp only: prime_limit_def)
    finally show ?thesis .
  qed
  ultimately show thesis by (rule that)
qed

end
