(* ===== verification/Srp.thy ===== *)
theory Srp
  imports SrpPrimes
begin

text \<open>
  The SRP-6a key exchange of RFC 5054: the stored secret of
  \<open>src/src/srp-passwd.cc\<close>, and the two sides of \<open>src/src/srp-client.cc\<close> and \<open>src/src/srp-server.cc\<close>. Messages are
  written to and read from buffers. A number that is never read before it is set is in the records from
  the start.
\<close>

section \<open>The secret\<close>

record srp_secret =
  sr_index :: int
  sr_salt :: bytes
  sr_x :: nat
  sr_v :: nat

definition kSaltLen :: nat where "kSaltLen = 16"

definition SrpSecret_new :: "int \<Rightarrow> srp_secret option" where
  "SrpSecret_new index = do {
     fatal_unless (index = -1 \<or> ValidIndex index);
     Some \<lparr>sr_index = index, sr_salt = [], sr_x = 0, sr_v = 0\<rparr>
   }"

definition FromPassword ::
    "bn_lib \<Rightarrow> bytes \<Rightarrow> bytes \<Rightarrow> int \<Rightarrow> static_buffer \<Rightarrow> srp_secret \<Rightarrow> (bool \<times> srp_secret) option" where
  "FromPassword lib username salt index pwd s = do {
     let s = s\<lparr>sr_salt := salt, sr_index := index\<rparr>;
     let hash = Digest_SHA1 lib [username, str '':'', sb_content pwd];
     let hash = Digest_SHA1 lib [sr_salt s, hash];
     let s = s\<lparr>sr_x := SetFromBinary lib hash\<rparr>;
     n \<leftarrow> GetPrime lib index;
     g \<leftarrow> GetGenerator index;
     v \<leftarrow> ModExp lib g (sr_x s) n;
     Some (True, s\<lparr>sr_v := v\<rparr>)
   }"

definition FromPassword_new_salt ::
    "bn_lib \<Rightarrow> 'k rc4_lib \<Rightarrow> bytes \<Rightarrow> static_buffer \<Rightarrow> 'k prng \<Rightarrow> srp_secret \<Rightarrow> (bool \<times> srp_secret \<times> 'k prng) option" where
  "FromPassword_new_salt lib rl username pwd p s = do {
     (salt, p) \<leftarrow> Get rl (replicate kSaltLen 0) p;
     (ok, s) \<leftarrow> FromPassword lib username salt (sr_index s) pwd s;
     Some (ok, s, p)
   }"

text \<open>\<open>fresh\<close> is the buffer that is constructed for the conversion.\<close>

definition ToSecret :: "bn_lib \<Rightarrow> reader \<Rightarrow> srp_secret \<Rightarrow> bytes option" where
  "ToSecret lib fresh s = do {
     (_, r) \<leftarrow> encode_u16 reader_add (word_of_int (sr_index s)) fresh;
     (_, r) \<leftarrow> encode_string reader_add (sr_salt s) r;
     (_, r) \<leftarrow> encode_bn lib (sr_v s) r;
     left \<leftarrow> oc_left (fst r) (snd r);
     (secret, r) \<leftarrow> reader_consume r left;
     Some secret
   }"

text \<open>The index is decoded into the lower half of the \<open>int\<close>.\<close>

definition lower_half :: "int \<Rightarrow> u16 \<Rightarrow> int" where
  "lower_half index n = sint ((word_of_int index AND 0xffff0000) OR ucast n :: u32)"

definition FromSecret :: "bn_lib \<Rightarrow> reader \<Rightarrow> bytes \<Rightarrow> srp_secret \<Rightarrow> (bool \<times> srp_secret) option" where
  "FromSecret lib fresh secret s = do {
     r \<leftarrow> reader_add fresh secret;
     (missing, index, r) \<leftarrow> decode_u16 reader_consume r;
     (case index of
        None \<Rightarrow> Some (False, s)
      | Some index \<Rightarrow> do {
          let s = s\<lparr>sr_index := lower_half (sr_index s) index\<rparr>;
          (missing, salt, r) \<leftarrow> decode_string reader_consume r;
          (case salt of
             None \<Rightarrow> Some (False, s)
           | Some salt \<Rightarrow> do {
               let s = s\<lparr>sr_salt := salt\<rparr>;
               (missing, v, r) \<leftarrow> decode_bn lib r;
               (case v of
                  None \<Rightarrow> Some (False, s)
                | Some v \<Rightarrow>
                    (let s = s\<lparr>sr_v := v\<rparr>
                     in if length (sr_salt s) < 4 then Some (False, s)
                        else if \<not> ValidIndex (sr_index s) then Some (False, s)
                        else Some (True, s)))
             })
        })
   }"

definition PadToN :: "bytes \<Rightarrow> bytes \<Rightarrow> bytes" where
  "PadToN N topad = (if length N > length topad then replicate (length N - length topad) 0 @ topad else topad)"

definition CalculateU :: "bn_lib \<Rightarrow> nat \<Rightarrow> nat \<Rightarrow> nat \<Rightarrow> nat" where
  "CalculateU lib N A B =
     (let Nstr = ExportAsBinary lib N;
          Astr = PadToN Nstr (ExportAsBinary lib A);
          Bstr = PadToN Nstr (ExportAsBinary lib B)
      in SetFromBinary lib (Digest_SHA1 lib [Astr, Bstr]))"

definition CalculateK :: "bn_lib \<Rightarrow> nat \<Rightarrow> nat \<Rightarrow> nat" where
  "CalculateK lib N g =
     (let Nstr = ExportAsBinary lib N;
          gstr = PadToN Nstr (ExportAsBinary lib g)
      in SetFromBinary lib (Digest_SHA1 lib [Nstr, gstr]))"

section \<open>The private exponent\<close>

text \<open>The loops both sides draw their exponent with: not zero, and no power that is divisible by the prime.\<close>

partial_function (option) draw_nonzero :: "bn_lib \<Rightarrow> 'k rc4_lib \<Rightarrow> nat \<Rightarrow> 'k prng \<Rightarrow> (nat \<times> 'k prng) option" where
  "draw_nonzero lib rl bits p = do {
     (a, p) \<leftarrow> SetFromRandom lib rl bits p;
     (if a = 0 then draw_nonzero lib rl bits p else Some (a, p))
   }"

partial_function (option) draw_exponent ::
    "bn_lib \<Rightarrow> 'k rc4_lib \<Rightarrow> nat \<Rightarrow> nat \<Rightarrow> nat \<Rightarrow> 'k prng \<Rightarrow> (nat \<times> nat \<times> 'k prng) option" where
  "draw_exponent lib rl bits g N p = do {
     (a, p) \<leftarrow> draw_nonzero lib rl bits p;
     A \<leftarrow> ModExp lib g a N;
     divisible \<leftarrow> IsDivisibleBy lib A N;
     (if divisible then draw_exponent lib rl bits g N p else Some (a, A, p))
   }"

section \<open>The client\<close>

definition kALength :: nat where "kALength = 384"

record srp_client =
  sc_secret :: srp_secret
  sc_username :: bytes
  sc_index :: int
  sc_salt :: bytes
  sc_A :: nat
  sc_B :: nat
  sc_a :: nat

definition SrpClient_new :: "bytes \<Rightarrow> srp_client option" where
  "SrpClient_new username = do {
     secret \<leftarrow> SrpSecret_new (-1);
     Some \<lparr>sc_secret = secret, sc_username = username, sc_index = 0, sc_salt = [], sc_A = 0, sc_B = 0, sc_a = 0\<rparr>
   }"

definition FillClientHello :: "reader \<Rightarrow> srp_client \<Rightarrow> reader option" where
  "FillClientHello r c = do { (_, r) \<leftarrow> encode_string reader_add (sc_username c) r; Some r }"

text \<open>The number of missing bytes, -1 for an invalid message, 0 when it is complete.\<close>

definition ParseServerHello :: "reader \<Rightarrow> srp_client \<Rightarrow> (int \<times> reader \<times> srp_client) option" where
  "ParseServerHello r c = do {
     (missing, index, r) \<leftarrow> decode_u16 reader_consume r;
     (case index of
        None \<Rightarrow> Some (int missing, r, c)
      | Some index \<Rightarrow> do {
          (missing, salt, r) \<leftarrow> decode_string reader_consume r;
          (case salt of
             None \<Rightarrow> Some (int missing, r, c)
           | Some salt \<Rightarrow>
               (if \<not> ValidIndex (uint index) then Some (-1, r, c)
                else if length salt < 8 then Some (-1, r, c)
                else Some (0, r, c\<lparr>sc_salt := salt, sc_index := uint index\<rparr>)))
        })
   }"

definition FillClientPublicKey ::
    "bn_lib \<Rightarrow> 'k rc4_lib \<Rightarrow> 'k prng \<Rightarrow> reader \<Rightarrow> srp_client \<Rightarrow> (bool \<times> 'k prng \<times> reader \<times> srp_client) option" where
  "FillClientPublicKey lib rl p r c = do {
     g \<leftarrow> GetGenerator (sc_index c);
     N \<leftarrow> GetPrime lib (sc_index c);
     (a, A, p) \<leftarrow> draw_exponent lib rl kALength g N p;
     (_, r) \<leftarrow> encode_bn lib A r;
     Some (True, p, r, c\<lparr>sc_a := a, sc_A := A\<rparr>)
   }"

definition ParseServerPublicKey :: "bn_lib \<Rightarrow> reader \<Rightarrow> srp_client \<Rightarrow> (int \<times> reader \<times> srp_client) option" where
  "ParseServerPublicKey lib r c = do {
     (missing, B, r) \<leftarrow> decode_bn lib r;
     (case B of
        None \<Rightarrow> Some (int missing, r, c)
      | Some B \<Rightarrow> do {
          let c = c\<lparr>sc_B := B\<rparr>;
          N \<leftarrow> GetPrime lib (sc_index c);
          divisible \<leftarrow> IsDivisibleBy lib (sc_B c) N;
          (if divisible then Some (-1, r, c) else Some (0, r, c))
        })
   }"

definition client_GetPrivateKey ::
    "bn_lib \<Rightarrow> static_buffer \<Rightarrow> static_buffer \<Rightarrow> srp_client \<Rightarrow> (bool \<times> static_buffer \<times> srp_client) option" where
  "client_GetPrivateKey lib pwd key c = do {
     g \<leftarrow> GetGenerator (sc_index c);
     N \<leftarrow> GetPrime lib (sc_index c);
     (_, secret) \<leftarrow> FromPassword lib (sc_username c) (sc_salt c) (sc_index c) pwd (sc_secret c);
     let k = CalculateK lib N g;
     let u = CalculateU lib N (sc_A c) (sc_B c);
     kmul \<leftarrow> ModMul lib k (sr_v secret) N;
     bsub \<leftarrow> ModSub lib (sc_B c) kmul N;
     umul \<leftarrow> ModMul lib u (sr_x secret) N;
     aadd \<leftarrow> ModAdd lib (sc_a c) umul N;
     ps \<leftarrow> ModExp lib bsub aadd N;
     key \<leftarrow> ExportAsBinary_buffer lib ps key;
     Some (True, key, c\<lparr>sc_secret := secret\<rparr>)
   }"

section \<open>The server\<close>

definition kBLength :: nat where "kBLength = 384"

record srp_server =
  ss_A :: nat
  ss_B :: nat
  ss_b :: nat
  ss_secret :: srp_secret
  ss_username :: bytes

definition SrpServer_new :: "srp_server option" where
  "SrpServer_new = do {
     secret \<leftarrow> SrpSecret_new 0;
     Some \<lparr>ss_A = 0, ss_B = 0, ss_b = 0, ss_secret = secret, ss_username = []\<rparr>
   }"

definition ParseClientHello :: "reader \<Rightarrow> (int \<times> bytes option \<times> reader) option" where
  "ParseClientHello r = do {
     (missing, username, r) \<leftarrow> decode_string reader_consume r;
     Some (int missing, username, r)
   }"

definition InitSession :: "bn_lib \<Rightarrow> reader \<Rightarrow> bytes \<Rightarrow> bytes \<Rightarrow> srp_server \<Rightarrow> (bool \<times> srp_server) option" where
  "InitSession lib fresh username secretstr s = do {
     let s = s\<lparr>ss_username := username\<rparr>;
     (ok, secret) \<leftarrow> FromSecret lib fresh secretstr (ss_secret s);
     Some (ok, s\<lparr>ss_secret := secret\<rparr>)
   }"

definition FillServerHello :: "reader \<Rightarrow> srp_server \<Rightarrow> (bool \<times> reader) option" where
  "FillServerHello r s = do {
     (_, r) \<leftarrow> encode_u16 reader_add (word_of_int (sr_index (ss_secret s))) r;
     (_, r) \<leftarrow> encode_string reader_add (sr_salt (ss_secret s)) r;
     Some (True, r)
   }"

definition FillServerPublicKey ::
    "bn_lib \<Rightarrow> 'k rc4_lib \<Rightarrow> 'k prng \<Rightarrow> reader \<Rightarrow> srp_server \<Rightarrow> (bool \<times> 'k prng \<times> reader \<times> srp_server) option" where
  "FillServerPublicKey lib rl p r s = do {
     g \<leftarrow> GetGenerator (sr_index (ss_secret s));
     N \<leftarrow> GetPrime lib (sr_index (ss_secret s));
     let k = CalculateK lib N g;
     (b, B, p) \<leftarrow> draw_exponent lib rl kBLength g N p;
     kv \<leftarrow> ModMul lib k (sr_v (ss_secret s)) N;
     B \<leftarrow> ModAdd lib B kv N;
     (_, r) \<leftarrow> encode_bn lib B r;
     Some (True, p, r, s\<lparr>ss_b := b, ss_B := B\<rparr>)
   }"

definition ParseClientPublicKey :: "bn_lib \<Rightarrow> reader \<Rightarrow> srp_server \<Rightarrow> (int \<times> reader \<times> srp_server) option" where
  "ParseClientPublicKey lib r s = do {
     (missing, A, r) \<leftarrow> decode_bn lib r;
     (case A of
        None \<Rightarrow> Some (int missing, r, s)
      | Some A \<Rightarrow> do {
          let s = s\<lparr>ss_A := A\<rparr>;
          N \<leftarrow> GetPrime lib (sr_index (ss_secret s));
          divisible \<leftarrow> IsDivisibleBy lib (ss_A s) N;
          (if divisible then Some (-1, r, s) else Some (0, r, s))
        })
   }"

definition server_GetPrivateKey :: "bn_lib \<Rightarrow> static_buffer \<Rightarrow> srp_server \<Rightarrow> (bool \<times> static_buffer) option" where
  "server_GetPrivateKey lib key s = do {
     N \<leftarrow> GetPrime lib (sr_index (ss_secret s));
     let u = CalculateU lib N (ss_A s) (ss_B s);
     vu \<leftarrow> ModExp lib (sr_v (ss_secret s)) u N;
     avu \<leftarrow> ModMul lib (ss_A s) vu N;
     ps \<leftarrow> ModExp lib avu (ss_b s) N;
     key \<leftarrow> ExportAsBinary_buffer lib ps key;
     Some (True, key)
   }"

section \<open>The arithmetic of the exchange\<close>

text \<open>Both sides compute \<open>g\<close> to the power of \<open>b (a + u x)\<close>.\<close>

lemma srp_arithmetic:
  fixes g x a b u k N :: nat
  assumes "0 < N" "a + u * x < N"
  defines "v \<equiv> g ^ x mod N" and "A \<equiv> g ^ a mod N"
  defines "B \<equiv> (g ^ b mod N + k * v mod N) mod N"
  shows "nat ((int B - int (k * v mod N)) mod int N) ^ ((a + u * x mod N) mod N) mod N = g ^ (b * (a + u * x)) mod N"
    and "(A * (v ^ u mod N) mod N) ^ b mod N = g ^ (b * (a + u * x)) mod N"
proof -
  have "(int B - int (k * v mod N)) mod int N = int (g ^ b mod N)"
    by (simp add: B_def zmod_int mod_diff_left_eq mod_mod_trivial flip: of_nat_mod)
  then have "nat ((int B - int (k * v mod N)) mod int N) = g ^ b mod N" by simp
  moreover have "u * x mod N = u * x" "(a + u * x) mod N = a + u * x" using assms(2) by simp_all
  ultimately show "nat ((int B - int (k * v mod N)) mod int N) ^ ((a + u * x mod N) mod N) mod N = g ^ (b * (a + u * x)) mod N"
    by (simp add: power_mod power_mult)
  have "A * (v ^ u mod N) mod N = g ^ a * (g ^ x) ^ u mod N"
    by (simp add: A_def v_def mod_mult_left_eq mod_mult_right_eq power_mod)
  then have "(A * (v ^ u mod N) mod N) ^ b mod N = (g ^ a * (g ^ x) ^ u mod N) ^ b mod N" by simp
  also have "\<dots> = (g ^ a * (g ^ x) ^ u) ^ b mod N" by (rule power_mod)
  also have "(g ^ a * (g ^ x) ^ u) ^ b = g ^ (b * (a + u * x))"
    by (simp add: power_mult [symmetric] power_add [symmetric] mult.commute algebra_simps)
  finally show "(A * (v ^ u mod N) mod N) ^ b mod N = g ^ (b * (a + u * x)) mod N" .
qed

end
