(* ===== verification/SrpExchange.thy ===== *)
theory SrpExchange
  imports Srp
begin

text \<open>
  Both sides of the key exchange together: the messages of one side are read by the other, and at the end
  they hold the same key.
\<close>

section \<open>The exchange\<close>

text \<open>
  The order of the messages is the one of the authenticators (\<open>src/src/srp-client-authenticator.cc\<close> and
  \<open>src/src/srp-server-authenticator.cc\<close>), each in a buffer of its own; where they report an error, or abort,
  the exchange has no result.
\<close>

definition srp_exchange ::
    "bn_lib \<Rightarrow> 'k rc4_lib \<Rightarrow> 'k prng \<Rightarrow> 'k prng \<Rightarrow> reader \<Rightarrow> bytes \<Rightarrow> bytes \<Rightarrow> static_buffer \<Rightarrow> bytes \<Rightarrow>
     (static_buffer \<times> static_buffer) option" where
  "srp_exchange lib rl cp sp fresh memory username pwd stored = do {
     c \<leftarrow> SrpClient_new username;
     m \<leftarrow> FillClientHello fresh c;
     (result, name, _) \<leftarrow> ParseClientHello m;
     fatal_unless (result = 0);
     name \<leftarrow> name;
     s \<leftarrow> SrpServer_new;
     (ok, s) \<leftarrow> InitSession lib fresh name stored s;
     fatal_unless ok;
     (_, m) \<leftarrow> FillServerHello fresh s;
     (result, _, c) \<leftarrow> ParseServerHello m c;
     fatal_unless (result = 0);
     (_, _, m, c) \<leftarrow> FillClientPublicKey lib rl cp fresh c;
     (result, _, s) \<leftarrow> ParseClientPublicKey lib m s;
     fatal_unless (result = 0);
     (_, _, m, s) \<leftarrow> FillServerPublicKey lib rl sp fresh s;
     (_, server_key) \<leftarrow> server_GetPrivateKey lib (sb_new memory) s;
     (result, _, c) \<leftarrow> ParseServerPublicKey lib m c;
     fatal_unless (result = 0);
     (_, client_key, _) \<leftarrow> client_GetPrivateKey lib pwd (sb_new memory) c;
     Some (client_key, server_key)
   }"

section \<open>The steps\<close>

definition fresh_reader :: "reader \<Rightarrow> bool" where
  "fresh_reader r \<longleftrightarrow> tidy [] r \<and> reader_contents r = []"

lemma fresh_readerD: "fresh_reader r \<Longrightarrow> tidy [] r" "fresh_reader r \<Longrightarrow> reader_contents r = []"
  by (simp_all add: fresh_reader_def)

lemma fresh_kept:
  "tidy [] r \<Longrightarrow> length (reader_contents r) < 2 ^ 32 \<Longrightarrow> kept [] [] r"
  using tidy_reader_ok by simp

lemma number_string_written:
  assumes "tidy others r" "length xs \<le> 65535"
  obtains r1 r2 where "encode_u16 reader_add n r = Some (True, r1)" "encode_string reader_add xs r1 = Some (True, r2)"
    "reader_contents r2 = reader_contents r @ be16 n @ be16 (of_nat (length xs)) @ xs" "tidy others r2"
proof -
  have xs: "length xs \<le> uint16_max" using assms(2) by (simp add: uint16_max_def)
  obtain r1 where r1: "encode_u16 reader_add n r = Some (True, r1)" "reader_contents r1 = reader_contents r @ be16 n" "tidy others r1"
    using encode_u16_writes [OF assms(1)] by blast
  from encode_string_writes [OF this(3) xs] r1 show thesis by (auto intro: that)
qed

lemma number_string_read:
  assumes "kept others vs r" "reader_contents r = be16 n @ be16 (of_nat (length xs)) @ xs @ rest" "length xs \<le> 65535"
  obtains r1 r2 where "decode_u16 reader_consume r = Some (0, Some n, r1)" "decode_string reader_consume r1 = Some (0, Some xs, r2)"
    "reader_contents r2 = rest" "kept others vs r2"
proof -
  obtain r1 where r1: "decode_u16 reader_consume r = Some (0, Some n, r1)"
    "reader_contents r1 = (be16 (of_nat (length xs)) @ xs) @ rest" "kept others vs r1"
    using decode_u16_reads [OF assms(1), of n] assms(2) by auto
  from decode_string_reads [OF this(3,2)] r1 assms(3) show thesis by (auto intro: that simp: uint16_max_def)
qed

lemma bn_short: "bn_documented lib \<Longrightarrow> a < prime_limit \<Longrightarrow> BN_num_bytes lib a \<le> 1024"
  using bn_documentedD(8) unfolding prime_limit_def by blast

lemma bn_wire_length: "bn_documented lib \<Longrightarrow> length (bn_wire lib a) = 2 + BN_num_bytes lib a"
  using bn_documentedD(6) by (simp add: bn_wire_def)

lemma bn_written:
  assumes "bn_documented lib" "tidy others r" "a < prime_limit"
  shows "\<exists>r'. encode_bn lib a r = Some (True, r') \<and> reader_contents r' = reader_contents r @ bn_wire lib a \<and> tidy others r'"
  using encode_bn_writes [OF assms(1,2), of a] bn_short [OF assms(1,3)] by (simp add: uint16_max_def)

lemma bn_read:
  assumes "bn_documented lib" "kept others vs r" "reader_contents r = bn_wire lib a @ rest" "a < prime_limit"
  shows "\<exists>r'. decode_bn lib r = Some (0, Some a, r') \<and> reader_contents r' = rest \<and> kept others vs r'"
  using decode_bn_reads [OF assms(1-3)] bn_short [OF assms(1,4)] by (simp add: uint16_max_def)

lemma index_words:
  assumes "ValidIndex i"
  shows "uint (word_of_int i :: u16) = i" "lower_half 0 (word_of_int i) = i"
proof -
  have i: "0 \<le> i" "i < 7" using assms by (auto simp: ValidIndex_def kValidPrimes_def split: if_splits)
  then show "uint (word_of_int i :: u16) = i" by (simp add: uint_word_of_int_eq take_bit_int_eq_self)
  have "i = 0 \<or> i = 1 \<or> i = 2 \<or> i = 3 \<or> i = 4 \<or> i = 5 \<or> i = 6" using i by linarith
  then show "lower_half 0 (word_of_int i) = i" by (elim disjE) (simp_all add: lower_half_def)
qed

text \<open>What \<open>ToSecret\<close> writes, \<open>FromSecret\<close> reads back, in a session that was constructed with the index 0.\<close>

lemma secret_restored:
  assumes "bn_documented lib" "fresh_reader fresh" "ValidIndex (sr_index s)" "sr_v s < prime_limit"
    "4 \<le> length (sr_salt s)" "length (sr_salt s) \<le> 65535" "sr_index s0 = 0"
  obtains stored s' where "ToSecret lib fresh s = Some stored" "FromSecret lib fresh stored s0 = Some (True, s')"
    "sr_index s' = sr_index s" "sr_salt s' = sr_salt s" "sr_v s' = sr_v s"
proof -
  let ?n = "BN_num_bytes lib (sr_v s)" and ?salt = "sr_salt s" and ?i = "word_of_int (sr_index s) :: u16"
  have n: "?n \<le> 1024" using bn_documentedD(8) [OF assms(1)] assms(4) unfolding prime_limit_def by blast
  then have nm: "?n \<le> uint16_max" by (simp add: uint16_max_def)
  obtain r1 r2 where r: "encode_u16 reader_add ?i fresh = Some (True, r1)" "encode_string reader_add ?salt r1 = Some (True, r2)"
    "reader_contents r2 = be16 ?i @ be16 (of_nat (length ?salt)) @ ?salt" "tidy [] r2"
    using number_string_written [OF fresh_readerD(1) [OF assms(2)] assms(6)] fresh_readerD(2) [OF assms(2)]
    by (metis append_Nil)
  obtain r3 where r3: "encode_bn lib (sr_v s) r2 = Some (True, r3)" "reader_contents r3 = reader_contents r2 @ bn_wire lib (sr_v s)"
    "tidy [] r3"
    using encode_bn_writes [OF assms(1) r(4) nm] by blast
  let ?wire = "be16 ?i @ be16 (of_nat (length ?salt)) @ ?salt @ bn_wire lib (sr_v s)"
  have wire: "reader_contents r3 = ?wire" using r3(2) r(3) by simp
  have "length (bn_wire lib (sr_v s)) = 2 + ?n" using bn_documentedD(6) [OF assms(1)] by (simp add: bn_wire_def)
  then have short: "length ?wire < 2 ^ 32" using assms(6) n by simp
  then have ok3: "reader_ok [] r3" using r3(3) wire by (intro tidy_reader_ok) simp_all
  have left: "oc_left (fst r3) (snd r3) = Some (length ?wire)"
    using left_size [of "fst r3" "snd r3" "[]"] ok3 short wire
    by (simp add: reader_ok_def readable_def reader_contents_def)
  obtain r4 where r4: "reader_consume r3 (length ?wire) = Some (?wire, r4)"
    using cursor_source.consume_all_of [OF ok3, of "length ?wire"] wire by auto
  have stored: "ToSecret lib fresh s = Some ?wire"
    using r(1,2) r3(1) left r4 by (simp add: ToSecret_def)
  obtain q0 where q0: "reader_add fresh ?wire = Some q0" "reader_contents q0 = ?wire" "tidy [] q0"
    using cursor_sink.add_appends [of "[]" fresh ?wire] assms(2) unfolding fresh_reader_def by auto
  then have "kept [] [] q0" using short by (intro fresh_kept) simp_all
  then obtain q1 q2 where q: "decode_u16 reader_consume q0 = Some (0, Some ?i, q1)"
    "decode_string reader_consume q1 = Some (0, Some ?salt, q2)" "reader_contents q2 = bn_wire lib (sr_v s)" "kept [] [] q2"
    using number_string_read [OF _ q0(2) assms(6)] by metis
  obtain q3 where q3: "decode_bn lib q2 = Some (0, Some (sr_v s), q3)"
    using decode_bn_reads [OF assms(1) q(4) _ nm, of "[]"] q(3) by auto
  have restored: "FromSecret lib fresh ?wire s0 =
      Some (True, s0\<lparr>sr_index := sr_index s, sr_salt := ?salt, sr_v := sr_v s\<rparr>)"
    using q0(1) q(1,2) q3 assms(3,5,7) index_words(2) [OF assms(3)] by (simp add: FromSecret_def Let_def)
  show thesis by (rule that [OF stored restored]) simp_all
qed

text \<open>A first draw that is neither zero nor gives a multiple of the prime ends both loops.\<close>

lemma draw_exponent_first:
  assumes "bn_documented lib" "Get rl (replicate (bits div 8) 0) p = Some (bs, p')" "0 < N"
    "BN_bin2bn lib bs \<noteq> 0" "\<not> N dvd g ^ BN_bin2bn lib bs"
  shows "draw_exponent lib rl bits g N p = Some (BN_bin2bn lib bs, g ^ BN_bin2bn lib bs mod N, p')"
proof -
  have "draw_nonzero lib rl bits p = Some (BN_bin2bn lib bs, p')"
    using assms(2,4) by (simp add: draw_nonzero.simps SetFromRandom_def SetFromBinary_def)
  then show ?thesis
    using assms(3,5) bn_documentedD(1,5) [OF assms(1,3)]
    by (simp add: draw_exponent.simps ModExp_def IsDivisibleBy_def dvd_eq_mod_eq_0)
qed

text \<open>What a password gives.\<close>

definition srp_x :: "bn_lib \<Rightarrow> bytes \<Rightarrow> bytes \<Rightarrow> static_buffer \<Rightarrow> nat" where
  "srp_x lib username salt pwd =
     BN_bin2bn lib (EVP_sha1 lib (salt @ EVP_sha1 lib (username @ str '':'' @ sb_content pwd)))"

lemma FromPassword_values:
  assumes "bn_documented lib" "GetPrime lib index = Some N" "GetGenerator index = Some g" "0 < N"
  shows "FromPassword lib username salt index pwd s = Some (True,
    s\<lparr>sr_salt := salt, sr_index := index, sr_x := srp_x lib username salt pwd, sr_v := g ^ srp_x lib username salt pwd mod N\<rparr>)"
  using assms(2,3) bn_documentedD(1) [OF assms(1,4)]
  by (simp add: FromPassword_def Let_def Digest_SHA1_def SetFromBinary_def srp_x_def ModExp_def)

lemma sha1_number_less: "bn_documented lib \<Longrightarrow> BN_bin2bn lib (EVP_sha1 lib m) < 2 ^ 160"
  using bn_documentedD(9) [of lib "EVP_sha1 lib m"] bn_documentedD(11) [of lib m] by simp

lemma exponent_fits:
  assumes "bn_documented lib" "length abytes = 48" "(2 :: nat) ^ 1000 < N"
  shows "BN_bin2bn lib abytes + BN_bin2bn lib (EVP_sha1 lib m) * BN_bin2bn lib (EVP_sha1 lib m') < N"
proof -
  have "BN_bin2bn lib abytes < 2 ^ 384" using bn_documentedD(9) [OF assms(1), of abytes] assms(2) by simp
  moreover have "BN_bin2bn lib (EVP_sha1 lib m) * BN_bin2bn lib (EVP_sha1 lib m') \<le> 2 ^ 160 * 2 ^ 160"
    using sha1_number_less [OF assms(1)] by (intro mult_le_mono) (simp_all add: less_imp_le)
  moreover have "(2 :: nat) ^ 384 + 2 ^ 160 * 2 ^ 160 \<le> 2 ^ 1000" by simp
  ultimately show ?thesis using assms(3) by linarith
qed

text \<open>The key as the buffer of a side holds it.\<close>

lemma key_exported:
  assumes "bn_documented lib" "ps < prime_limit"
  obtains key where "ExportAsBinary_buffer lib ps (sb_new memory) = Some key" "sb_content key = BN_bn2bin lib ps"
proof -
  have "BN_num_bytes lib ps \<le> 1024"
    using bn_documentedD(8) [OF assms(1)] assms(2) unfolding prime_limit_def by blast
  then show thesis
    using bn_documentedD(6) [OF assms(1), of ps]
    by (intro that [of "\<lparr>sb_data = BN_bn2bin lib ps @ drop (BN_num_bytes lib ps) memory, sb_used = int (BN_num_bytes lib ps)\<rparr>"])
      (simp_all add: ExportAsBinary_buffer_def kStaticBufferSize_def sb_Resize_def sb_new_def sb_content_def Let_def)
qed

section \<open>Both sides agree\<close>

text \<open>
  The draws of one side: its generator delivers 48 bytes, and the number they are is an exponent the loop
  accepts.
\<close>

definition draws :: "bn_lib \<Rightarrow> 'k rc4_lib \<Rightarrow> nat \<Rightarrow> nat \<Rightarrow> 'k prng \<Rightarrow> nat \<Rightarrow> bool" where
  "draws lib rl g N p a \<longleftrightarrow> (\<exists>bs p'. Get rl (replicate 48 0) p = Some (bs, p') \<and> length bs = 48 \<and>
     BN_bin2bn lib bs = a \<and> a \<noteq> 0 \<and> \<not> N dvd g ^ a)"

lemma draws_exponent:
  assumes "bn_documented lib" "draws lib rl g N p a" "0 < N" "bits = 384"
  obtains p' where "draw_exponent lib rl bits g N p = Some (a, g ^ a mod N, p')"
  using assms draw_exponent_first [OF assms(1), of rl bits p] unfolding draws_def by fastforce

text \<open>Each message: what its writer appends to a buffer, and that its reader takes just that.\<close>

lemma FillClientHello_writes:
  assumes "tidy others r" "length (sc_username c) \<le> 65535"
  obtains m where "FillClientHello r c = Some m" "reader_contents m = reader_contents r @ string_wire (sc_username c)" "tidy others m"
proof -
  have "length (sc_username c) \<le> uint16_max" using assms(2) by (simp add: uint16_max_def)
  from encode_string_writes [OF assms(1) this] show thesis by (auto intro: that simp: FillClientHello_def)
qed

lemma ParseClientHello_reads:
  assumes "kept others vs r" "reader_contents r = string_wire username @ rest" "length username \<le> 65535"
  shows "\<exists>r'. ParseClientHello r = Some (0, Some username, r') \<and>
    reader_contents r' = rest \<and> kept others vs r'"
  using decode_string_reads [OF assms(1,2)] assms(3) by (auto simp: ParseClientHello_def uint16_max_def)

definition hello_wire :: "srp_secret \<Rightarrow> bytes" where
  "hello_wire secret = be16 (word_of_int (sr_index secret)) @ string_wire (sr_salt secret)"

lemma FillServerHello_writes:
  assumes "tidy others r" "length (sr_salt (ss_secret s)) \<le> 65535"
  obtains m where "FillServerHello r s = Some (True, m)" "reader_contents m = reader_contents r @ hello_wire (ss_secret s)" "tidy others m"
  using number_string_written [OF assms, of "word_of_int (sr_index (ss_secret s))"]
  by (metis (no_types, lifting) FillServerHello_def bind.bind_lunit case_prod_conv hello_wire_def that)

lemma ParseServerHello_reads:
  assumes "kept others vs r" "reader_contents r = hello_wire secret @ rest" "ValidIndex (sr_index secret)"
    "8 \<le> length (sr_salt secret)" "length (sr_salt secret) \<le> 65535"
  shows "\<exists>r'. ParseServerHello r c = Some (0, r', c\<lparr>sc_salt := sr_salt secret, sc_index := sr_index secret\<rparr>) \<and>
    reader_contents r' = rest \<and> kept others vs r'"
proof -
  have "reader_contents r = be16 (word_of_int (sr_index secret)) @ be16 (of_nat (length (sr_salt secret))) @ sr_salt secret @ rest"
    using assms(2) by (simp add: hello_wire_def)
  from number_string_read [OF assms(1) this assms(5)] obtain r1 r2 where
    "decode_u16 reader_consume r = Some (0, Some (word_of_int (sr_index secret)), r1)"
    "decode_string reader_consume r1 = Some (0, Some (sr_salt secret), r2)" "reader_contents r2 = rest" "kept others vs r2"
    by metis
  then show ?thesis using assms(3,4) index_words(1) [OF assms(3)] by (cases r2) (simp add: ParseServerHello_def)
qed

lemma FillClientPublicKey_writes:
  assumes "bn_documented lib" "tidy others r" "GetPrime lib (sc_index c) = Some N" "GetGenerator (sc_index c) = Some g"
    "draw_exponent lib rl kALength g N p = Some (a, A, p')" "A < prime_limit"
  obtains m where "FillClientPublicKey lib rl p r c = Some (True, p', m, c\<lparr>sc_a := a, sc_A := A\<rparr>)"
    "reader_contents m = reader_contents r @ bn_wire lib A" "tidy others m"
  using bn_written [OF assms(1,2,6)] assms(3-5) by (auto intro: that simp: FillClientPublicKey_def)

lemma ParseClientPublicKey_reads:
  assumes "bn_documented lib" "kept others vs r" "reader_contents r = bn_wire lib A @ rest" "A < prime_limit"
    "GetPrime lib (sr_index (ss_secret s)) = Some N" "0 < N" "\<not> N dvd A"
  shows "\<exists>r'. ParseClientPublicKey lib r s = Some (0, r', s\<lparr>ss_A := A\<rparr>) \<and>
    reader_contents r' = rest \<and> kept others vs r'"
  using bn_read [OF assms(1-4)] assms(5,7) bn_documentedD(5) [OF assms(1,6)]
  by (auto simp: ParseClientPublicKey_def IsDivisibleBy_def dvd_eq_mod_eq_0 Let_def)

lemma FillServerPublicKey_writes:
  assumes "bn_documented lib" "tidy others r" "GetPrime lib (sr_index (ss_secret s)) = Some N" "GetGenerator (sr_index (ss_secret s)) = Some g"
    "0 < N" "N < prime_limit" "draw_exponent lib rl kBLength g N p = Some (b, C, p')"
  defines "B \<equiv> (C + CalculateK lib N g * sr_v (ss_secret s) mod N) mod N"
  obtains m where "FillServerPublicKey lib rl p r s = Some (True, p', m, s\<lparr>ss_b := b, ss_B := B\<rparr>)"
    "reader_contents m = reader_contents r @ bn_wire lib B" "tidy others m"
proof -
  have "B < prime_limit" using assms(5,6) mod_less_divisor [OF assms(5)] unfolding B_def by (meson less_trans)
  from bn_written [OF assms(1,2) this] show thesis
    using assms(3,4,7) bn_documentedD(2,3) [OF assms(1,5)]
    by (auto intro: that simp: FillServerPublicKey_def ModMul_def ModAdd_def Let_def B_def)
qed

lemma ParseServerPublicKey_reads:
  assumes "bn_documented lib" "kept others vs r" "reader_contents r = bn_wire lib B @ rest" "B < prime_limit"
    "GetPrime lib (sc_index c) = Some N" "0 < N" "\<not> N dvd B"
  shows "\<exists>r'. ParseServerPublicKey lib r c = Some (0, r', c\<lparr>sc_B := B\<rparr>) \<and>
    reader_contents r' = rest \<and> kept others vs r'"
  using bn_read [OF assms(1-4)] assms(5,7) bn_documentedD(5) [OF assms(1,6)]
  by (auto simp: ParseServerPublicKey_def IsDivisibleBy_def dvd_eq_mod_eq_0 Let_def)

text \<open>A message that was written into a fresh buffer can be read.\<close>

lemma fresh_message:
  assumes "fresh_reader r" "reader_contents m = reader_contents r @ w" "tidy [] m" "length w < 2 ^ 32"
  shows "kept [] [] m" "reader_contents m = w"
  using assms fresh_kept [of m] by (simp_all add: fresh_reader_def)

lemma server_key_computed:
  assumes "bn_documented lib" "0 < N" "GetPrime lib (sr_index (ss_secret s)) = Some N"
    "ss_A s = g ^ a mod N" "sr_v (ss_secret s) = g ^ x mod N" "a + CalculateU lib N (ss_A s) (ss_B s) * x < N"
  shows "server_GetPrivateKey lib key s =
    do { key \<leftarrow> ExportAsBinary_buffer lib (g ^ (ss_b s * (a + CalculateU lib N (ss_A s) (ss_B s) * x)) mod N) key; Some (True, key) }"
  using srp_arithmetic(2) [OF assms(2,6), of g "ss_b s"] bn_documentedD(1,2) [OF assms(1,2)] assms(3,5)
  by (simp add: server_GetPrivateKey_def ModExp_def ModMul_def Let_def assms(4))

lemma client_key_computed:
  assumes "bn_documented lib" "0 < N" "GetPrime lib (sc_index c) = Some N" "GetGenerator (sc_index c) = Some g"
    "x = srp_x lib (sc_username c) (sc_salt c) pwd"
    "sc_B c = (g ^ b mod N + CalculateK lib N g * (g ^ x mod N) mod N) mod N"
    "sc_a c + CalculateU lib N (sc_A c) (sc_B c) * x < N"
  shows "map_option (\<lambda>r. fst (snd r)) (client_GetPrivateKey lib pwd key c) =
    ExportAsBinary_buffer lib (g ^ (b * (sc_a c + CalculateU lib N (sc_A c) (sc_B c) * x)) mod N) key"
proof -
  let ?u = "CalculateU lib N (sc_A c) (sc_B c)"
  have "client_GetPrivateKey lib pwd key c = do {
      key \<leftarrow> ExportAsBinary_buffer lib
        (nat ((int (sc_B c) - int (CalculateK lib N g * (g ^ x mod N) mod N)) mod int N) ^ ((sc_a c + ?u * x mod N) mod N) mod N) key;
      Some (True, key, c\<lparr>sc_secret := snd (the (FromPassword lib (sc_username c) (sc_salt c) (sc_index c) pwd (sc_secret c)))\<rparr>) }"
    using bn_documentedD(1-4) [OF assms(1,2)] assms(3,4)
    by (simp add: client_GetPrivateKey_def FromPassword_values [OF assms(1,3,4,2)] ModExp_def ModMul_def ModSub_def ModAdd_def
        Let_def assms(5))
  also have "nat ((int (sc_B c) - int (CalculateK lib N g * (g ^ x mod N) mod N)) mod int N) ^ ((sc_a c + ?u * x mod N) mod N) mod N
      = g ^ (b * (sc_a c + ?u * x)) mod N"
    unfolding assms(6) using srp_arithmetic(1) [OF assms(2,7) [unfolded assms(6)]] .
  finally show ?thesis by (auto split: bind_splits option.splits)
qed

text \<open>The first half of the exchange: the client has the salt and the index of the secret that the server restored.\<close>

lemma hellos_exchanged:
  assumes lib: "bn_documented lib" and fresh: "fresh_reader fresh" and user: "length username \<le> 65535"
    and sec: "ToSecret lib fresh secret = Some stored" "ValidIndex (sr_index secret)" "sr_v secret < prime_limit"
      "8 \<le> length (sr_salt secret)" "length (sr_salt secret) \<le> 65535"
  obtains c1 s1 m1 r1 s2 m2 r2 c2 where "SrpClient_new username = Some c1" "SrpServer_new = Some s1" "FillClientHello fresh c1 = Some m1"
    "ParseClientHello m1 = Some (0, Some username, r1)" "InitSession lib fresh username stored s1 = Some (True, s2)"
    "FillServerHello fresh s2 = Some (True, m2)" "ParseServerHello m2 c1 = Some (0, r2, c2)"
    "sc_username c2 = username" "sc_salt c2 = sr_salt secret" "sc_index c2 = sr_index secret"
    "sr_index (ss_secret s2) = sr_index secret" "sr_v (ss_secret s2) = sr_v secret"
proof -
  define s1 where "s1 = \<lparr>ss_A = 0, ss_B = 0, ss_b = 0, ss_secret = \<lparr>sr_index = 0, sr_salt = [], sr_x = 0, sr_v = 0\<rparr>, ss_username = []\<rparr>"
  define c1 where "c1 = \<lparr>sc_secret = \<lparr>sr_index = -1, sr_salt = [], sr_x = 0, sr_v = 0\<rparr>, sc_username = username,
    sc_index = 0, sc_salt = [], sc_A = 0, sc_B = 0, sc_a = 0\<rparr>"
  have c1: "SrpClient_new username = Some c1" by (simp add: SrpClient_new_def SrpSecret_new_def c1_def)
  have s1: "SrpServer_new = Some s1"
    by (simp add: SrpServer_new_def SrpSecret_new_def s1_def ValidIndex_def kValidPrimes_def)
  obtain m1 where m1: "FillClientHello fresh c1 = Some m1" "reader_contents m1 = reader_contents fresh @ string_wire username" "tidy [] m1"
    by (rule FillClientHello_writes [OF fresh_readerD(1) [OF fresh], of c1]) (use user in \<open>simp_all add: c1_def\<close>)
  obtain r1 where r1: "ParseClientHello m1 = Some (0, Some username, r1)"
    using ParseClientHello_reads [of "[]" "[]" m1 username "[]"] fresh_message [OF fresh m1(2,3)] user by auto
  obtain sec' where restored: "FromSecret lib fresh stored (ss_secret s1) = Some (True, sec')"
    "sr_index sec' = sr_index secret" "sr_salt sec' = sr_salt secret" "sr_v sec' = sr_v secret"
    by (rule secret_restored [OF lib fresh, of secret "ss_secret s1"]) (use sec in \<open>simp_all add: s1_def\<close>)
  define s2 where "s2 = s1\<lparr>ss_username := username, ss_secret := sec'\<rparr>"
  have s2: "InitSession lib fresh username stored s1 = Some (True, s2)"
    using restored(1) by (simp add: InitSession_def s2_def s1_def Let_def)
  define c2 where "c2 = c1\<lparr>sc_salt := sr_salt secret, sc_index := sr_index secret\<rparr>"
  obtain m2 where m2: "FillServerHello fresh s2 = Some (True, m2)" "reader_contents m2 = reader_contents fresh @ hello_wire sec'" "tidy [] m2"
    by (rule FillServerHello_writes [OF fresh_readerD(1) [OF fresh], of s2]) (use restored sec in \<open>simp_all add: s2_def\<close>)
  have "length (hello_wire sec') < 2 ^ 32" using restored sec by (simp add: hello_wire_def)
  then obtain r2 where r2: "ParseServerHello m2 c1 = Some (0, r2, c2)"
    using ParseServerHello_reads [of "[]" "[]" m2 sec' "[]" c1] fresh_message [OF fresh m2(2,3)] restored sec by (auto simp: c2_def)
  show thesis by (rule that [OF c1 s1 m1(1) r1 s2 m2(1) r2]) (simp_all add: c2_def c1_def s2_def restored)
qed

text \<open>The second half: each side has the public key of the other.\<close>

lemma public_keys_exchanged:
  fixes lib :: bn_lib and v b :: nat
  defines "B \<equiv> \<lambda>N g. (g ^ b mod N + CalculateK lib N g * v mod N) mod N"
  assumes lib: "bn_documented lib" and fresh: "fresh_reader fresh"
    and at: "GetPrime lib (sc_index c) = Some N" "GetGenerator (sc_index c) = Some g" "sr_index (ss_secret s) = sc_index c" "sr_v (ss_secret s) = v"
    and N: "0 < N" "N < prime_limit" and draws: "draws lib rl g N cp a" "draws lib rl g N sp b" and key: "\<not> N dvd g ^ b + CalculateK lib N g * v"
  obtains cp' m3 r3 sp' m4 r4 where "FillClientPublicKey lib rl cp fresh c = Some (True, cp', m3, c\<lparr>sc_a := a, sc_A := g ^ a mod N\<rparr>)"
    "ParseClientPublicKey lib m3 s = Some (0, r3, s\<lparr>ss_A := g ^ a mod N\<rparr>)"
    "FillServerPublicKey lib rl sp fresh (s\<lparr>ss_A := g ^ a mod N\<rparr>) = Some (True, sp', m4, s\<lparr>ss_A := g ^ a mod N, ss_b := b, ss_B := B N g\<rparr>)"
    "ParseServerPublicKey lib m4 (c\<lparr>sc_a := a, sc_A := g ^ a mod N\<rparr>) = Some (0, r4, c\<lparr>sc_a := a, sc_A := g ^ a mod N, sc_B := B N g\<rparr>)"
proof -
  let ?A = "g ^ a mod N" and ?B = "B N g"
  have small: "n mod N < prime_limit" "length (bn_wire lib (n mod N)) < 2 ^ 32" for n
  proof -
    show "n mod N < prime_limit" using N(2) mod_less_divisor [OF N(1), of n] by linarith
    from bn_short [OF lib this] show "length (bn_wire lib (n mod N)) < 2 ^ 32" by (simp add: bn_wire_length [OF lib])
  qed
  obtain cp' where cp': "draw_exponent lib rl kALength g N cp = Some (a, ?A, cp')"
    using draws_exponent [OF lib draws(1) N(1)] by (metis kALength_def)
  obtain m3 where m3: "FillClientPublicKey lib rl cp fresh c = Some (True, cp', m3, c\<lparr>sc_a := a, sc_A := ?A\<rparr>)"
    "reader_contents m3 = reader_contents fresh @ bn_wire lib ?A" "tidy [] m3"
    by (rule FillClientPublicKey_writes [OF lib fresh_readerD(1) [OF fresh] at(1,2) cp' small(1)])
  have "GetPrime lib (sr_index (ss_secret s)) = Some N" "\<not> N dvd ?A" using at draws(1) by (auto simp: draws_def dvd_mod_iff)
  then obtain r3 where r3: "ParseClientPublicKey lib m3 s = Some (0, r3, s\<lparr>ss_A := ?A\<rparr>)"
    using ParseClientPublicKey_reads [OF lib, of "[]" "[]" m3 ?A "[]" s N] fresh_message [OF fresh m3(2,3) small(2)] small(1) N(1) by auto
  let ?c = "c\<lparr>sc_a := a, sc_A := ?A\<rparr>" and ?s = "s\<lparr>ss_A := ?A\<rparr>"
  have at3: "GetPrime lib (sc_index ?c) = Some N" "GetPrime lib (sr_index (ss_secret ?s)) = Some N"
    "GetGenerator (sr_index (ss_secret ?s)) = Some g" "sr_v (ss_secret ?s) = v" using at by simp_all
  obtain sp' where sp': "draw_exponent lib rl kBLength g N sp = Some (b, g ^ b mod N, sp')"
    using draws_exponent [OF lib draws(2) N(1)] by (metis kBLength_def)
  obtain m4 where m4: "FillServerPublicKey lib rl sp fresh ?s = Some (True, sp', m4, ?s\<lparr>ss_b := b, ss_B := ?B\<rparr>)"
    "reader_contents m4 = reader_contents fresh @ bn_wire lib ?B" "tidy [] m4"
    using FillServerPublicKey_writes [OF lib fresh_readerD(1) [OF fresh] at3(2,3) N sp'] unfolding at3(4) B_def by metis
  have "\<not> N dvd ?B" using key by (simp add: B_def mod_add_eq dvd_eq_mod_eq_0)
  moreover have "length (bn_wire lib ?B) < 2 ^ 32" "?B < prime_limit" unfolding B_def by (rule small)+
  ultimately obtain r4 where r4: "ParseServerPublicKey lib m4 ?c = Some (0, r4, ?c\<lparr>sc_B := ?B\<rparr>)"
    using ParseServerPublicKey_reads [OF lib, of "[]" "[]" m4 ?B "[]" ?c N] fresh_message [OF fresh m4(2,3)] at3(1) N(1) by (auto simp: B_def)
  show thesis using that [OF m3(1) r3 _ r4] m4(1) by simp
qed

text \<open>C1. When the stored secret was made from the same user name and password, the exchange runs to its end
  without an error or an abort, and both sides hold the same key: the one SRP-6a defines, \<open>g\<close> to the power
  of \<open>b (a + u x)\<close>. It is supposed that the first numbers drawn are accepted and that the server's public key is
  not a multiple of the prime; OpenSSL does what its manual says.\<close>
theorem srp_exchange_agrees:
  assumes lib: "bn_documented lib" and fresh: "fresh_reader fresh"
    and prime: "GetPrime lib index = Some N" "GetGenerator index = Some g"
    and user: "length username \<le> 65535" "8 \<le> length salt" "length salt \<le> 65535"
    and secret: "FromPassword lib username salt index pwd s0 = Some (True, secret)" "ToSecret lib fresh secret = Some stored"
    and draws: "draws lib rl g N cp a" "draws lib rl g N sp b"
    and key: "\<not> N dvd g ^ b + CalculateK lib N g * sr_v secret"
  shows "\<exists>client_key server_key.
    srp_exchange lib rl cp sp fresh memory username pwd stored = Some (client_key, server_key) \<and>
    sb_content client_key = sb_content server_key \<and>
    sb_content client_key = BN_bn2bin lib (g ^ (b * (a +
      CalculateU lib N (g ^ a mod N) ((g ^ b mod N + CalculateK lib N g * sr_v secret mod N) mod N) *
      srp_x lib username salt pwd)) mod N)"
proof -
  have valid: "ValidIndex index" using prime(2) by (simp add: GetGenerator_def split: bind_splits)
  have N: "2 ^ 1000 < N" "N < prime_limit" using GetPrime_bounds [OF lib valid] prime(1) by auto
  then have N0: "0 < N" by linarith
  let ?x = "srp_x lib username salt pwd" and ?k = "CalculateK lib N g"
  let ?v = "g ^ ?x mod N"
  have sec: "secret = s0\<lparr>sr_salt := salt, sr_index := index, sr_x := ?x, sr_v := ?v\<rparr>"
    using FromPassword_values [OF lib prime N0, of username salt pwd s0] secret(1) by simp
  let ?A = "g ^ a mod N" and ?B = "(g ^ b mod N + ?k * ?v mod N) mod N"
  let ?u = "CalculateU lib N ?A ?B"
  define e where "e = b * (a + ?u * ?x)"
  have small: "n mod N < prime_limit" for n using N(2) mod_less_divisor [OF N0, of n] by linarith
  obtain c1 s1 m1 r1 s2 m2 r2 c2 where hello: "SrpClient_new username = Some c1" "SrpServer_new = Some s1" "FillClientHello fresh c1 = Some m1"
    "ParseClientHello m1 = Some (0, Some username, r1)" "InitSession lib fresh username stored s1 = Some (True, s2)"
    "FillServerHello fresh s2 = Some (True, m2)" "ParseServerHello m2 c1 = Some (0, r2, c2)"
    "sc_username c2 = username" "sc_salt c2 = salt" "sc_index c2 = index" "sr_index (ss_secret s2) = index" "sr_v (ss_secret s2) = ?v"
    by (rule hellos_exchanged [OF lib fresh user(1) secret(2)]) (use valid small user in \<open>simp_all add: sec\<close>)
  have at: "GetPrime lib (sc_index c2) = Some N" "GetGenerator (sc_index c2) = Some g" "sr_index (ss_secret s2) = sc_index c2"
    using prime hello(10,11) by simp_all
  have nd: "\<not> N dvd g ^ b + ?k * ?v" using key by (simp add: sec)
  obtain cp' m3 r3 sp' m4 r4 where public: "FillClientPublicKey lib rl cp fresh c2 = Some (True, cp', m3, c2\<lparr>sc_a := a, sc_A := ?A\<rparr>)"
    "ParseClientPublicKey lib m3 s2 = Some (0, r3, s2\<lparr>ss_A := ?A\<rparr>)"
    "FillServerPublicKey lib rl sp fresh (s2\<lparr>ss_A := ?A\<rparr>) = Some (True, sp', m4, s2\<lparr>ss_A := ?A, ss_b := b, ss_B := ?B\<rparr>)"
    "ParseServerPublicKey lib m4 (c2\<lparr>sc_a := a, sc_A := ?A\<rparr>) = Some (0, r4, c2\<lparr>sc_a := a, sc_A := ?A, sc_B := ?B\<rparr>)"
    by (rule public_keys_exchanged [OF lib fresh at hello(12) N0 N(2) draws nd])
  obtain ckey where k: "ExportAsBinary_buffer lib (g ^ e mod N) (sb_new memory) = Some ckey" "sb_content ckey = BN_bn2bin lib (g ^ e mod N)"
    using key_exported [OF lib small] by metis
  have fits: "a + ?u * ?x < N"
    using draws(1) exponent_fits [OF lib _ N(1)]
    unfolding draws_def CalculateU_def srp_x_def SetFromBinary_def Digest_SHA1_def Let_def by blast
  have server: "server_GetPrivateKey lib (sb_new memory) (s2\<lparr>ss_A := ?A, ss_b := b, ss_B := ?B\<rparr>) = Some (True, ckey)"
    using server_key_computed [OF lib N0, of "s2\<lparr>ss_A := ?A, ss_b := b, ss_B := ?B\<rparr>" g a ?x "sb_new memory"] k(1) fits at hello(12)
    by (simp add: e_def)
  have "map_option (\<lambda>r. fst (snd r)) (client_GetPrivateKey lib pwd (sb_new memory) (c2\<lparr>sc_a := a, sc_A := ?A, sc_B := ?B\<rparr>)) = Some ckey"
    using client_key_computed [OF lib N0, of "c2\<lparr>sc_a := a, sc_A := ?A, sc_B := ?B\<rparr>" g ?x pwd b "sb_new memory"] k(1) fits at hello(8,9)
    by (simp add: e_def)
  then obtain ok c3 where client: "client_GetPrivateKey lib pwd (sb_new memory) (c2\<lparr>sc_a := a, sc_A := ?A, sc_B := ?B\<rparr>) = Some (ok, ckey, c3)"
    by auto
  have "srp_exchange lib rl cp sp fresh memory username pwd stored = Some (ckey, ckey)"
    by (simp add: srp_exchange_def hello(1-7) public server client)
  with k(2) show ?thesis by (simp add: sec e_def)
qed

text \<open>A run with numbers that can be computed: every random number and every digest is 1.\<close>

definition one_rc4 :: "unit rc4_lib" where
  "one_rc4 = \<lparr>rc4_set_key = (\<lambda>_. ()), rc4 = (\<lambda>k bs. (if bs = [] then [] else replicate (length bs - 1) 0 @ [1], ()))\<rparr>"

definition one_prng :: "unit prng" where
  "one_prng = \<lparr>pr_reseed = 1000, pr_key = (), pr_entropy = []\<rparr>"

definition bobs_password :: static_buffer where
  "bobs_password = \<lparr>sb_data = str ''secret'', sb_used = 6\<rparr>"

definition bobs_secret :: "srp_secret option" where
  "bobs_secret = map_option snd (FromPassword concrete_bn (str ''bob'') (str ''salty123'') 0 bobs_password
     \<lparr>sr_index = 0, sr_salt = [], sr_x = 0, sr_v = 0\<rparr>)"

lemma bin_nat_one: "bin_nat (replicate n 0 @ [1]) = 1"
proof -
  have "bin_nat (replicate n 0) = 0" by (induction n) (simp_all add: bin_nat_def)
  then show ?thesis by (simp add: bin_nat_snoc)
qed

lemma one_draws:
  assumes "2 ^ 1000 < N" "Get one_rc4 (replicate 48 0) p = Some (bs, p')"
  shows "draws concrete_bn one_rc4 2 N p 1"
proof -
  have "\<not> N dvd 2" using assms(1) by (auto dest!: dvd_imp_le)
  moreover have "bs = replicate 47 0 @ [1]"
    using assms(2) by (auto simp: Get_def one_rc4_def split: bind_splits if_splits)
  ultimately show ?thesis
    using bin_nat_one [of 47] assms(2) by (simp add: draws_def concrete_bn_def)
qed

text \<open>Bob, whose secret was made with the first of the primes.\<close>

lemma bob_registered:
  obtains N secret stored where "GetPrime concrete_bn 0 = Some N" "GetGenerator 0 = Some 2" "2 ^ 1000 < N"
    "FromPassword concrete_bn (str ''bob'') (str ''salty123'') 0 bobs_password \<lparr>sr_index = 0, sr_salt = [], sr_x = 0, sr_v = 0\<rparr> = Some (True, secret)"
    "bobs_secret = Some secret" "ToSecret concrete_bn empty_reader secret = Some stored"
    "\<not> N dvd 2 ^ 1 + CalculateK concrete_bn N 2 * sr_v secret"
proof -
  let ?s0 = "\<lparr>sr_index = 0, sr_salt = [], sr_x = 0, sr_v = 0\<rparr>"
  have valid: "ValidIndex 0" by (simp add: ValidIndex_def kValidPrimes_def)
  then obtain N where N: "GetPrime concrete_bn 0 = Some N" "2 ^ 1000 < N" "N < prime_limit"
    by (rule GetPrime_bounds [OF concrete_bn_documented])
  have g: "GetGenerator 0 = Some 2" using valid by (simp add: GetGenerator_def kValidPrimes_def)
  have N0: "0 < N" using N(2) by linarith
  have sha: "BN_bin2bn concrete_bn (EVP_sha1 concrete_bn m) = 1" for m
    using bin_nat_one [of 19] by (simp add: concrete_bn_def)
  have N4: "4 < N" by (rule less_trans [OF _ N(2)]) simp
  then have two: "2 mod N = 2" by simp
  define secret where "secret = ?s0\<lparr>sr_salt := str ''salty123'', sr_x := 1, sr_v := 2\<rparr>"
  have secret: "FromPassword concrete_bn (str ''bob'') (str ''salty123'') 0 bobs_password ?s0 = Some (True, secret)"
    using FromPassword_values [OF concrete_bn_documented N(1) g N0] two by (simp add: srp_x_def sha secret_def)
  have fresh: "fresh_reader empty_reader" using empty_reader_ok by (simp add: fresh_reader_def)
  have lim: "sr_v secret < prime_limit" using N(3) N4 unfolding secret_def by simp
  obtain stored where stored: "ToSecret concrete_bn empty_reader secret = Some stored"
    by (rule secret_restored [OF concrete_bn_documented fresh _ lim, of ?s0]) (use valid in \<open>simp_all add: secret_def\<close>)
  have "CalculateK concrete_bn N 2 = 1" by (simp add: CalculateK_def Let_def SetFromBinary_def Digest_SHA1_def sha)
  then have "\<not> N dvd 2 ^ 1 + CalculateK concrete_bn N 2 * sr_v secret"
    using N4 by (auto simp: secret_def dest!: dvd_imp_le)
  with N(1,2) g secret stored show thesis by (intro that) (simp_all add: bobs_secret_def)
qed

theorem srp_exchange_agrees_witness:
  "\<exists>client_key server_key. srp_exchange concrete_bn one_rc4 one_prng one_prng empty_reader [] (str ''bob'') bobs_password
      (the (ToSecret concrete_bn empty_reader (the bobs_secret))) = Some (client_key, server_key) \<and>
    sb_content client_key = sb_content server_key"
proof -
  obtain N secret stored where bob: "GetPrime concrete_bn 0 = Some N" "GetGenerator 0 = Some 2" "2 ^ 1000 < N"
    "FromPassword concrete_bn (str ''bob'') (str ''salty123'') 0 bobs_password \<lparr>sr_index = 0, sr_salt = [], sr_x = 0, sr_v = 0\<rparr> = Some (True, secret)"
    "bobs_secret = Some secret" "ToSecret concrete_bn empty_reader secret = Some stored"
    "\<not> N dvd 2 ^ 1 + CalculateK concrete_bn N 2 * sr_v secret" by (rule bob_registered)
  have fresh: "fresh_reader empty_reader" using empty_reader_ok by (simp add: fresh_reader_def)
  have draws: "draws concrete_bn one_rc4 2 N one_prng 1"
    by (rule one_draws [OF bob(3)]) (simp add: Get_def one_prng_def one_rc4_def)
  have user: "length (str ''bob'') \<le> 65535" "8 \<le> length (str ''salty123'')" "length (str ''salty123'') \<le> 65535"
    by simp_all
  have "the (ToSecret concrete_bn empty_reader (the bobs_secret)) = stored" unfolding bob(5) option.sel bob(6) ..
  then show ?thesis
    using srp_exchange_agrees [OF concrete_bn_documented fresh bob(1,2) user bob(4,6) draws draws bob(7), of "[]"]
    by (elim exE conjE) (intro exI conjI, simp only:, assumption)
qed

end
