(* ===== verification/Protectors.thy ===== *)
theory Protectors
  imports BigNumber
begin

text \<open>
  \<open>src/src/protector.h\<close>, \<open>openssl-protector.h\<close>, \<open>.cc\<close>, \<open>aes-session-protector.h\<close>, \<open>.cc\<close> and
  \<open>scramble-session-protector.h\<close>, \<open>.cc\<close>: how the packets of a session are encrypted and decrypted.

  The cipher contexts of OpenSSL are the parameter \<open>'x\<close>, their operations the fields of \<open>evp_lib\<close>, one
  such record per cipher; \<open>None\<close> is the error return. An output buffer is its chunk set. Where the code
  writes at \<open>Data()\<close> and then calls \<open>Increment\<close>, \<open>ic_commit\<close> stands for both and has no result when
  there was no room. \<open>stale\<close> is what the memory written to held before: RC4 reads it.
\<close>

section \<open>The ciphers\<close>

record 'x evp_lib =
  EVP_CIPHER_key_length :: nat
  EVP_CIPHER_iv_length :: nat
  EVP_CIPHER_block_size :: u32
  EVP_EncryptInit_ex :: "'x \<Rightarrow> bytes \<Rightarrow> bytes \<Rightarrow> 'x option"
  EVP_DecryptInit_ex :: "'x \<Rightarrow> bytes \<Rightarrow> bytes \<Rightarrow> 'x option"
  EVP_CIPHER_CTX_set_padding :: "bool \<Rightarrow> 'x \<Rightarrow> 'x"
  EVP_EncryptUpdate :: "'x \<Rightarrow> bytes \<Rightarrow> (bytes \<times> 'x) option"
  EVP_EncryptFinal_ex :: "'x \<Rightarrow> (bytes \<times> 'x) option"
  EVP_DecryptUpdate :: "'x \<Rightarrow> bytes \<Rightarrow> (bytes \<times> 'x) option"
  EVP_DecryptFinal_ex :: "'x \<Rightarrow> (bytes \<times> 'x) option"
  EVP_CIPHER_CTX_cleanup :: "'x \<Rightarrow> 'x"
  ctx_buf_len :: "'x \<Rightarrow> u32"

datatype StartOptions = NoPadding | AutoPadding

datatype Result = SUCCEEDED | MORE_DATA_REQUIRED | CORRUPTED_DATA

section \<open>The encoder\<close>

definition Encoder_Start :: "'x evp_lib \<Rightarrow> bytes \<Rightarrow> bytes \<Rightarrow> StartOptions \<Rightarrow> 'x \<Rightarrow> bool \<times> 'x" where
  "Encoder_Start lib key iv options x =
     (case EVP_EncryptInit_ex lib x key iv of
        None \<Rightarrow> (False, x)
      | Some x \<Rightarrow> (True, EVP_CIPHER_CTX_set_padding lib (options = AutoPadding) x))"

partial_function (option) encrypt_loop ::
    "'x evp_lib \<Rightarrow> reader \<Rightarrow> chunkset \<Rightarrow> 'x \<Rightarrow> (bool \<times> reader \<times> chunkset \<times> 'x) option" where
  "encrypt_loop lib r d x = do {
     left \<leftarrow> oc_left (fst r) (snd r);
     (if left \<noteq> 0 then do {
        here \<leftarrow> oc_contiguous (fst r) (snd r);
        bs \<leftarrow> oc_data (fst r) (snd r);
        (case EVP_EncryptUpdate lib x (take here bs) of
           None \<Rightarrow> Some (False, r, d, x)
         | Some (out, x) \<Rightarrow> do {
             r \<leftarrow> oc_increment (fst r) (snd r) here;
             d \<leftarrow> ic_commit d out;
             encrypt_loop lib r d x
           })
      }
      else Some (True, r, d, x))
   }"

text \<open>Sizes are \<open>unsigned int\<close>: the room reserved is computed modulo \<open>2 ^ 32\<close>.\<close>

definition room_for :: "'x evp_lib \<Rightarrow> nat \<Rightarrow> nat" where
  "room_for lib left = unat (of_nat left + EVP_CIPHER_block_size lib)"

definition Encoder_Continue ::
    "'x evp_lib \<Rightarrow> reader \<Rightarrow> chunkset \<Rightarrow> 'x \<Rightarrow> (bool \<times> reader \<times> chunkset \<times> 'x) option" where
  "Encoder_Continue lib r d x = do {
     left \<leftarrow> oc_left (fst r) (snd r);
     encrypt_loop lib r (ic_reserve d (room_for lib left)) x
   }"

definition Encoder_End :: "'x evp_lib \<Rightarrow> chunkset \<Rightarrow> 'x \<Rightarrow> (bool \<times> chunkset \<times> 'x) option" where
  "Encoder_End lib d x =
     (case EVP_EncryptFinal_ex lib x of
        None \<Rightarrow> Some (False, d, x)
      | Some (out, x) \<Rightarrow> do {
          d \<leftarrow> ic_commit d out;
          Some (True, d, EVP_CIPHER_CTX_cleanup lib x)
        })"

section \<open>The decoder\<close>

definition Decoder_Start :: "'x evp_lib \<Rightarrow> bytes \<Rightarrow> bytes \<Rightarrow> StartOptions \<Rightarrow> 'x \<Rightarrow> Result \<times> 'x" where
  "Decoder_Start lib key iv options x =
     (case EVP_DecryptInit_ex lib x key iv of
        None \<Rightarrow> (CORRUPTED_DATA, x)
      | Some x \<Rightarrow> (SUCCEEDED, EVP_CIPHER_CTX_set_padding lib (options = AutoPadding) x))"

definition round_up :: "'x evp_lib \<Rightarrow> u32 \<Rightarrow> u32" where
  "round_up lib until =
     (until + EVP_CIPHER_block_size lib - 1) AND NOT (EVP_CIPHER_block_size lib - 1)"

text \<open>A failure of \<open>EVP_DecryptUpdate\<close> is fatal. The sizes OpenSSL is given are ints: a chunk has less than 2 GB.\<close>

partial_function (option) decrypt_loop ::
    "'x evp_lib \<Rightarrow> u32 \<Rightarrow> u32 \<Rightarrow> reader \<Rightarrow> chunkset \<Rightarrow> 'x \<Rightarrow> (Result \<times> reader \<times> chunkset \<times> 'x) option" where
  "decrypt_loop lib until decoded r d x = do {
     left \<leftarrow> oc_left (fst r) (snd r);
     (if left = 0 \<or> (until \<noteq> 0 \<and> until \<le> decoded) then Some (SUCCEEDED, r, d, x)
      else do {
        here \<leftarrow> oc_contiguous (fst r) (snd r);
        bs \<leftarrow> oc_data (fst r) (snd r);
        let todecode = (if until \<noteq> 0 then min (unat (until - decoded)) here else here);
        (out, x) \<leftarrow> EVP_DecryptUpdate lib x (take todecode bs);
        r \<leftarrow> oc_increment (fst r) (snd r) todecode;
        d \<leftarrow> ic_commit d out;
        decrypt_loop lib until (decoded + of_nat (length out)) r d x
      })
   }"

definition Decoder_Continue ::
    "'x evp_lib \<Rightarrow> u32 \<Rightarrow> reader \<Rightarrow> chunkset \<Rightarrow> 'x \<Rightarrow> (Result \<times> reader \<times> chunkset \<times> 'x) option" where
  "Decoder_Continue lib until r d x = do {
     fatal_unless (EVP_CIPHER_block_size lib AND (EVP_CIPHER_block_size lib - 1) = 0);
     left \<leftarrow> oc_left (fst r) (snd r);
     decrypt_loop lib (round_up lib until) (ctx_buf_len lib x) r (ic_reserve d (room_for lib left)) x
   }"

definition Decoder_End :: "'x evp_lib \<Rightarrow> chunkset \<Rightarrow> 'x \<Rightarrow> (Result \<times> chunkset \<times> 'x) option" where
  "Decoder_End lib d x = do {
     (out, x) \<leftarrow> EVP_DecryptFinal_ex lib x;
     d \<leftarrow> ic_commit d out;
     Some (SUCCEEDED, d, EVP_CIPHER_CTX_cleanup lib x)
   }"

section \<open>Padding\<close>

text \<open>\<open>datasize\<close> is an int, and is converted to unsigned by the remainder. The result keeps eight bits.\<close>

definition pad_for :: "'x evp_lib \<Rightarrow> u32 \<Rightarrow> byte" where
  "pad_for lib datasize = ucast (EVP_CIPHER_block_size lib - datasize mod EVP_CIPHER_block_size lib)"

definition RemovePadding :: "'x evp_lib \<Rightarrow> reader \<Rightarrow> u32 \<Rightarrow> (Result \<times> byte \<times> reader) option" where
  "RemovePadding lib r datasize = do {
     let pad = pad_for lib datasize;
     left \<leftarrow> oc_left (fst r) (snd r);
     (if left < unat pad then Some (MORE_DATA_REQUIRED, pad, r)
      else do {
        r \<leftarrow> oc_increment (fst r) (snd r) (unat pad);
        Some (SUCCEEDED, pad, r)
      })
   }"

definition AddPadding ::
    "'x evp_lib \<Rightarrow> 'k rc4_lib \<Rightarrow> bytes \<Rightarrow> 'k prng \<Rightarrow> chunkset \<Rightarrow> u32 \<Rightarrow> 'x \<Rightarrow>
     (bool \<times> 'k prng \<times> chunkset \<times> 'x) option" where
  "AddPadding lib rl stale p d datasize x =
     (let pad = pad_for lib datasize
      in if pad = 0 then Some (True, p, d, x)
         else do {
           temp \<leftarrow> Buffer_new;
           let s = ic_reserve (bf_chunks temp) (unat pad);
           (bs, p) \<leftarrow> Get rl (take (unat pad) stale) p;
           s \<leftarrow> ic_commit s bs;
           (ok, _, d, x) \<leftarrow> Encoder_Continue lib (s, bf_output temp) d x;
           Some (ok, p, d, x)
         })"

section \<open>AES\<close>

definition kKeyLengthInBytes :: nat where
  "kKeyLengthInBytes = 256 div 8"

record aes_session_key =
  ak_salt :: bytes
  ak_key :: bytes

definition SendSalt ::
    "'k rc4_lib \<Rightarrow> 'k prng \<Rightarrow> reader \<Rightarrow> aes_session_key \<Rightarrow> ('k prng \<times> reader \<times> aes_session_key) option" where
  "SendSalt rl p r k = do {
     (salt, p) \<leftarrow> ComputeSalt rl (take kKeyLengthInBytes (ak_salt k)) p;
     r \<leftarrow> reader_add r salt;
     Some (p, r, k\<lparr>ak_salt := salt\<rparr>)
   }"

text \<open>A salt that is cut short has been taken out of the buffer all the same.\<close>

definition RecvSalt :: "reader \<Rightarrow> aes_session_key \<Rightarrow> (nat \<times> reader \<times> aes_session_key) option" where
  "RecvSalt r k = do {
     (bs, r) \<leftarrow> reader_consume r kKeyLengthInBytes;
     let k = k\<lparr>ak_salt := bs @ drop (length bs) (ak_salt k)\<rparr>;
     Some (kKeyLengthInBytes - length bs, r, k)
   }"

definition SetupKey :: "(bytes \<Rightarrow> bytes \<Rightarrow> bytes) \<Rightarrow> static_buffer \<Rightarrow> aes_session_key \<Rightarrow> aes_session_key" where
  "SetupKey hmac secret k = k\<lparr>ak_key := ComputeKey hmac (ak_salt k) kKeyLengthInBytes secret\<rparr>"

text \<open>The constructors keep the key they are given, once its length is known to fit the cipher.\<close>

definition AesSessionProtector_new :: "'x evp_lib \<Rightarrow> aes_session_key \<Rightarrow> bytes option" where
  "AesSessionProtector_new lib k = do {
     fatal_unless (EVP_CIPHER_key_length lib = kKeyLengthInBytes);
     Some (take kKeyLengthInBytes (ak_key k))
   }"

definition AesEncoder_Start ::
    "'x evp_lib \<Rightarrow> 'k rc4_lib \<Rightarrow> bytes \<Rightarrow> bytes \<Rightarrow> 'k prng \<Rightarrow> chunkset \<Rightarrow> StartOptions \<Rightarrow> 'x \<Rightarrow>
     (bool \<times> 'k prng \<times> chunkset \<times> 'x) option" where
  "AesEncoder_Start lib rl stale key p d options x = do {
     let d = ic_reserve d (EVP_CIPHER_iv_length lib);
     (iv, p) \<leftarrow> Get rl (take (EVP_CIPHER_iv_length lib) stale) p;
     d \<leftarrow> ic_commit d iv;
     let (ok, x) = Encoder_Start lib key iv options x;
     Some (ok, p, d, x)
   }"

definition AesDecoder_Start ::
    "'x evp_lib \<Rightarrow> bytes \<Rightarrow> reader \<Rightarrow> StartOptions \<Rightarrow> 'x \<Rightarrow> (Result \<times> reader \<times> 'x) option" where
  "AesDecoder_Start lib key r options x = do {
     (iv, r) \<leftarrow> reader_consume r (EVP_CIPHER_iv_length lib);
     (if length iv < EVP_CIPHER_iv_length lib then Some (MORE_DATA_REQUIRED, r, x)
      else do {
        let (result, x) = Decoder_Start lib key iv options x;
        Some (result, r, x)
      })
   }"

section \<open>Scrambling\<close>

definition ScrambleEncoder_Start ::
    "'x evp_lib \<Rightarrow> 'k rc4_lib \<Rightarrow> bytes \<Rightarrow> 'k prng \<Rightarrow> chunkset \<Rightarrow> StartOptions \<Rightarrow> 'x \<Rightarrow>
     (bool \<times> 'k prng \<times> chunkset \<times> 'x) option" where
  "ScrambleEncoder_Start lib rl stale p d options x = do {
     let d = ic_reserve d (EVP_CIPHER_key_length lib);
     (key, p) \<leftarrow> Get rl (take (EVP_CIPHER_key_length lib) stale) p;
     d \<leftarrow> ic_commit d key;
     fatal_unless (EVP_CIPHER_iv_length lib \<le> EVP_CIPHER_key_length lib);
     let (ok, x) = Encoder_Start lib key key options x;
     Some (ok, p, d, x)
   }"

definition ScrambleDecoder_Start ::
    "'x evp_lib \<Rightarrow> reader \<Rightarrow> StartOptions \<Rightarrow> 'x \<Rightarrow> (Result \<times> reader \<times> 'x) option" where
  "ScrambleDecoder_Start lib r options x = do {
     (key, r) \<leftarrow> reader_consume r (EVP_CIPHER_key_length lib);
     (if length key < EVP_CIPHER_key_length lib then Some (MORE_DATA_REQUIRED, r, x)
      else do {
        let (result, x) = Decoder_Start lib key key options x;
        Some (result, r, x)
      })
   }"

section \<open>The protectors of a session\<close>

text \<open>The virtual \<open>Start\<close>: which class the object has, with the cipher of each.\<close>

record 'x openssl =
  kAES_256_CBC :: "'x evp_lib"
  kBF_CBC :: "'x evp_lib"

datatype protector_kind = AesSession bytes | ScrambleSession

record 'x protector =
  pt_kind :: protector_kind
  pt_ctx :: 'x

fun pt_cipher :: "'x openssl \<Rightarrow> protector_kind \<Rightarrow> 'x evp_lib" where
  "pt_cipher ssl (AesSession key) = kAES_256_CBC ssl"
| "pt_cipher ssl ScrambleSession = kBF_CBC ssl"

definition encoder_Start ::
    "'x openssl \<Rightarrow> 'k rc4_lib \<Rightarrow> bytes \<Rightarrow> 'k prng \<Rightarrow> chunkset \<Rightarrow> StartOptions \<Rightarrow> 'x protector \<Rightarrow>
     (bool \<times> 'k prng \<times> chunkset \<times> 'x protector) option" where
  "encoder_Start ssl rl stale p d options pt = do {
     (ok, p, d, x) \<leftarrow> (case pt_kind pt of
        AesSession key \<Rightarrow> AesEncoder_Start (kAES_256_CBC ssl) rl stale key p d options (pt_ctx pt)
      | ScrambleSession \<Rightarrow> ScrambleEncoder_Start (kBF_CBC ssl) rl stale p d options (pt_ctx pt));
     Some (ok, p, d, pt\<lparr>pt_ctx := x\<rparr>)
   }"

definition decoder_Start ::
    "'x openssl \<Rightarrow> reader \<Rightarrow> StartOptions \<Rightarrow> 'x protector \<Rightarrow> (Result \<times> reader \<times> 'x protector) option" where
  "decoder_Start ssl r options pt = do {
     (result, r, x) \<leftarrow> (case pt_kind pt of
        AesSession key \<Rightarrow> AesDecoder_Start (kAES_256_CBC ssl) key r options (pt_ctx pt)
      | ScrambleSession \<Rightarrow> ScrambleDecoder_Start (kBF_CBC ssl) r options (pt_ctx pt));
     Some (result, r, pt\<lparr>pt_ctx := x\<rparr>)
   }"

text \<open>\<open>Encode\<close> and \<open>Decode\<close>: a whole message, padded by OpenSSL.\<close>

definition Encode ::
    "'x openssl \<Rightarrow> 'k rc4_lib \<Rightarrow> bytes \<Rightarrow> 'k prng \<Rightarrow> reader \<Rightarrow> chunkset \<Rightarrow> 'x protector \<Rightarrow>
     (bool \<times> 'k prng \<times> reader \<times> chunkset \<times> 'x protector) option" where
  "Encode ssl rl stale p r d pt = do {
     (ok, p, d, pt) \<leftarrow> encoder_Start ssl rl stale p d AutoPadding pt;
     (if \<not> ok then Some (False, p, r, d, pt)
      else do {
        (ok, r, d, x) \<leftarrow> Encoder_Continue (pt_cipher ssl (pt_kind pt)) r d (pt_ctx pt);
        (if \<not> ok then Some (False, p, r, d, pt\<lparr>pt_ctx := x\<rparr>)
         else do {
           (ok, d, x) \<leftarrow> Encoder_End (pt_cipher ssl (pt_kind pt)) d x;
           Some (ok, p, r, d, pt\<lparr>pt_ctx := x\<rparr>)
         })
      })
   }"

definition Decode ::
    "'x openssl \<Rightarrow> reader \<Rightarrow> chunkset \<Rightarrow> 'x protector \<Rightarrow> (Result \<times> reader \<times> chunkset \<times> 'x protector) option" where
  "Decode ssl r d pt = do {
     (result, r, pt) \<leftarrow> decoder_Start ssl r AutoPadding pt;
     (if result \<noteq> SUCCEEDED then Some (result, r, d, pt)
      else do {
        (result, r, d, x) \<leftarrow> Decoder_Continue (pt_cipher ssl (pt_kind pt)) 0 r d (pt_ctx pt);
        (if result \<noteq> SUCCEEDED then Some (result, r, d, pt\<lparr>pt_ctx := x\<rparr>)
         else do {
           (result, d, x) \<leftarrow> Decoder_End (pt_cipher ssl (pt_kind pt)) d x;
           Some (result, r, d, pt\<lparr>pt_ctx := x\<rparr>)
         })
      })
   }"

section \<open>What OpenSSL promises\<close>

text \<open>
  A message may be given to \<open>Update\<close> in any number of pieces: the outputs, with the one of \<open>Final\<close>, are the
  message's encryption, which with padding is longer than the message by at most a block. Decryption
  is its inverse. The manual says so of \<open>EVP_EncryptUpdate\<close> and the others.
\<close>

fun evp_updates :: "('x \<Rightarrow> bytes \<Rightarrow> (bytes \<times> 'x) option) \<Rightarrow> 'x \<Rightarrow> bytes list \<Rightarrow> (bytes \<times> 'x) option" where
  "evp_updates up x [] = Some ([], x)"
| "evp_updates up x (c # cs) = do {
     (out, x) \<leftarrow> up x c;
     (outs, x) \<leftarrow> evp_updates up x cs;
     Some (out @ outs, x)
   }"

definition evp_message ::
    "('x \<Rightarrow> bytes \<Rightarrow> (bytes \<times> 'x) option) \<Rightarrow> ('x \<Rightarrow> (bytes \<times> 'x) option) \<Rightarrow> 'x \<Rightarrow> bytes list \<Rightarrow> bytes option" where
  "evp_message up final x cs = do {
     (out, x) \<leftarrow> evp_updates up x cs;
     (rest, _) \<leftarrow> final x;
     Some (out @ rest)
   }"

definition evp_documented :: "'x evp_lib \<Rightarrow> (bytes \<Rightarrow> bytes \<Rightarrow> bytes \<Rightarrow> bytes) \<Rightarrow> bool" where
  "evp_documented lib cipher \<longleftrightarrow>
     (let block = EVP_CIPHER_block_size lib; ivlen = EVP_CIPHER_iv_length lib
      in 0 < block \<and> block \<le> 32 \<and> block AND (block - 1) = 0 \<and>
        (\<forall>x key iv. length key = EVP_CIPHER_key_length lib \<and> ivlen \<le> length iv \<longrightarrow>
          (\<exists>x0. EVP_EncryptInit_ex lib x key iv = Some x0 \<and>
            (\<forall>cs. evp_message (EVP_EncryptUpdate lib) (EVP_EncryptFinal_ex lib) (EVP_CIPHER_CTX_set_padding lib True x0) cs =
               Some (cipher key (take ivlen iv) (concat cs)))) \<and>
          (\<exists>x0. EVP_DecryptInit_ex lib x key iv = Some x0 \<and>
            (\<forall>cs m. concat cs = cipher key (take ivlen iv) m \<longrightarrow>
               evp_message (EVP_DecryptUpdate lib) (EVP_DecryptFinal_ex lib) (EVP_CIPHER_CTX_set_padding lib True x0) cs = Some m))) \<and>
        (\<forall>key iv m. length m < length (cipher key iv m) \<and> length (cipher key iv m) \<le> length m + unat block))"

lemma evp_documentedD:
  assumes "evp_documented lib cipher"
  shows "0 < EVP_CIPHER_block_size lib" "EVP_CIPHER_block_size lib \<le> 32"
    "EVP_CIPHER_block_size lib AND (EVP_CIPHER_block_size lib - 1) = 0"
    "length m < length (cipher key iv m)" "length (cipher key iv m) \<le> length m + unat (EVP_CIPHER_block_size lib)"
  using assms by (simp_all add: evp_documented_def Let_def)

lemma evp_encrypts:
  assumes "evp_documented lib cipher" "length key = EVP_CIPHER_key_length lib" "EVP_CIPHER_iv_length lib \<le> length iv"
  obtains x0 where "EVP_EncryptInit_ex lib x key iv = Some x0"
    "\<And>cs. evp_message (EVP_EncryptUpdate lib) (EVP_EncryptFinal_ex lib) (EVP_CIPHER_CTX_set_padding lib True x0) cs =
      Some (cipher key (take (EVP_CIPHER_iv_length lib) iv) (concat cs))"
  using assms unfolding evp_documented_def Let_def by metis

lemma evp_decrypts:
  assumes "evp_documented lib cipher" "length key = EVP_CIPHER_key_length lib" "EVP_CIPHER_iv_length lib \<le> length iv"
  obtains x0 where "EVP_DecryptInit_ex lib x key iv = Some x0"
    "\<And>cs m. concat cs = cipher key (take (EVP_CIPHER_iv_length lib) iv) m \<Longrightarrow>
      evp_message (EVP_DecryptUpdate lib) (EVP_DecryptFinal_ex lib) (EVP_CIPHER_CTX_set_padding lib True x0) cs = Some m"
  using assms unfolding evp_documented_def Let_def by metis

section \<open>The loops over the chunks\<close>

text \<open>\<open>bs\<close> was written to the memory of the last chunk, which had room for it.\<close>

definition filled :: "ptr list \<Rightarrow> chunkset \<Rightarrow> bytes \<Rightarrow> chunkset \<Rightarrow> bool" where
  "filled ps d bs d' \<longleftrightarrow> chain_inv d' ps \<and> grows d bs d' \<and> gap_free (cs_chunks d') = gap_free (cs_chunks d) \<and>
     cs_chunks d' \<noteq> [] \<and> ic_contiguous d' = ic_contiguous d - length bs \<and>
     ck_data (last (cs_chunks d')) = ck_data (last (cs_chunks d)) @ bs"

lemma filled_refl: "chain_inv d ps \<Longrightarrow> cs_chunks d \<noteq> [] \<Longrightarrow> filled ps d [] d"
  by (simp add: filled_def grows_refl)

lemma filled_trans: "filled ps d bs d' \<Longrightarrow> filled ps d' bs' d'' \<Longrightarrow> filled ps d (bs @ bs') d''"
  using grows_trans by (auto simp: filled_def)

lemma commit_fills:
  assumes "chain_inv d ps" "cs_chunks d \<noteq> []" "length bs \<le> ic_contiguous d"
  obtains d' where "ic_commit d bs = Some d'" "filled ps d bs d'"
proof -
  obtain d' where "ic_commit d bs = Some d'" "chain_inv d' ps" "grows d bs d'"
    "gap_free (cs_chunks d') = gap_free (cs_chunks d)" "cs_chunks d' \<noteq> []"
    "ic_contiguous d' = ic_contiguous d - length bs"
    "ck_data (last (cs_chunks d')) = ck_data (last (cs_chunks d)) @ bs"
    using commit_grows [OF assms(1,3,2)] by metis
  then show thesis by (auto intro: that simp: filled_def)
qed

text \<open>A loop that feeds what is left to read, one contiguous stretch after the other, to \<open>up\<close>.\<close>

locale chunk_loop =
  fixes loop :: "reader \<Rightarrow> chunkset \<Rightarrow> 'y \<Rightarrow> ('r \<times> reader \<times> chunkset \<times> 'x) option"
    and up :: "'y \<Rightarrow> bytes \<Rightarrow> (bytes \<times> 'y) option"
    and success :: 'r
    and ctx :: "'y \<Rightarrow> 'x"
  assumes loop_stop: "oc_left (fst r) (snd r) = Some 0 \<Longrightarrow> loop r d y = Some (success, r, d, ctx y)"
    and loop_step: "oc_left (fst r) (snd r) = Some (Suc n) \<Longrightarrow> oc_contiguous (fst r) (snd r) = Some (length bs) \<Longrightarrow>
      oc_data (fst r) (snd r) = Some bs \<Longrightarrow> up y bs = Some (out, y') \<Longrightarrow>
      oc_increment (fst r) (snd r) (length bs) = Some r' \<Longrightarrow> ic_commit d out = Some d' \<Longrightarrow> loop r d y = loop r' d' y'"
begin

lemma loop_runs:
  assumes "readable s cur others" "oc_limited cur = None"
  shows "\<exists>cs s' cur'. concat cs = unread s cur \<and> advanced s cur others (length (unread s cur)) s' cur' \<and>
    (\<forall>d y out y' ps. evp_updates up y cs = Some (out, y') \<and> chain_inv d ps \<and> cs_chunks d \<noteq> [] \<and>
       length out \<le> ic_contiguous d \<longrightarrow>
      (\<exists>d'. loop (s, cur) d y = Some (success, (s', cur'), d', ctx y') \<and> filled ps d out d'))"
  using assms
proof (induction "length (unread s cur)" arbitrary: s cur rule: less_induct)
  case less
  have left: "oc_left s cur = Some (length (unread s cur))"
    using left_size [of s cur others] less.prems by (simp add: readable_def)
  show ?case
  proof (cases "unread s cur = []")
    case True
    have "advanced s cur others 0 s cur" using less.prems(1) by (simp add: advanced_def readable_def)
    with True show ?thesis
      using loop_stop [of "(s, cur)"] left
      by (intro exI [of _ "[]"] exI [of _ s] exI [of _ cur]) (auto intro: filled_refl)
  next
    case False
    obtain bs rest where bs: "oc_data s cur = Some bs" "oc_contiguous s cur = Some (length bs)"
      "unread s cur = bs @ rest" "rest \<noteq> [] \<longrightarrow> bs \<noteq> []"
      using contiguous_data [OF less.prems(1)] by blast
    obtain s1 cur1 where s1: "oc_increment s cur (length bs) = Some (s1, cur1)"
      "advanced s cur others (length bs) s1 cur1"
      using increment_advances [OF less.prems(1), of "length bs"] bs(3) less.prems(2)
      by (auto simp: within_limit_def)
    have u1: "unread s1 cur1 = rest" "oc_limited cur1 = None"
      using s1(2) bs(3) less.prems(2) by (simp_all add: advanced_def)
    obtain cs s' cur' where rest: "concat cs = rest" "advanced s1 cur1 others (length rest) s' cur'"
      "\<And>d y out y' ps. evp_updates up y cs = Some (out, y') \<Longrightarrow> chain_inv d ps \<Longrightarrow> cs_chunks d \<noteq> [] \<Longrightarrow>
         length out \<le> ic_contiguous d \<Longrightarrow>
         \<exists>d'. loop (s1, cur1) d y = Some (success, (s', cur'), d', ctx y') \<and> filled ps d out d'"
      using less.hyps [OF _ readable_advanced [OF less.prems(1) s1(2)] u1(2)] u1(1) bs(3,4) False
      by (metis append_Nil length_append length_greater_0_conv less_add_same_cancel2)
    have "\<exists>d'. loop (s, cur) d y = Some (success, (s', cur'), d', ctx y') \<and> filled ps d out d'"
      if run: "evp_updates up y (bs # cs) = Some (out, y')" and d: "chain_inv d ps" "cs_chunks d \<noteq> []"
        "length out \<le> ic_contiguous d" for d y out y' ps
    proof -
      obtain out1 y1 outs where step: "up y bs = Some (out1, y1)" "evp_updates up y1 cs = Some (outs, y')" "out = out1 @ outs"
        using run by (auto split: bind_splits prod.splits)
      obtain d1 where d1: "ic_commit d out1 = Some d1" "filled ps d out1 d1"
        using commit_fills [OF d(1,2), of out1] d(3) step(3) by auto
      have "loop (s, cur) d y = loop (s1, cur1) d1 y1"
        using loop_step [of "(s, cur)" "length (unread s cur) - 1" bs y out1 y1 "(s1, cur1)" d d1] left bs(1,2) step(1) s1(1) d1(1) False
        by simp
      moreover have "chain_inv d1 ps" "cs_chunks d1 \<noteq> []" "length outs \<le> ic_contiguous d1"
        using d1(2) d(3) step(3) by (auto simp: filled_def)
      then obtain d' where "loop (s1, cur1) d1 y1 = Some (success, (s', cur'), d', ctx y')" "filled ps d1 outs d'"
        using rest(3) [OF step(2)] by blast
      ultimately show ?thesis using filled_trans [OF d1(2)] step(3) by auto
    qed
    moreover have "advanced s cur others (length (unread s cur)) s' cur'"
      using advanced_trans [OF s1(2) rest(2)] bs(3) by simp
    ultimately show ?thesis using rest(1) bs(3)
      by (intro exI [of _ "bs # cs"] exI [of _ s'] exI [of _ cur']) auto
  qed
qed

end

interpretation encryption: chunk_loop "encrypt_loop lib" "EVP_EncryptUpdate lib" True "\<lambda>x. x" for lib
  by unfold_locales (simp_all add: encrypt_loop.simps)

text \<open>Decryption without a bound counts what it decoded, to no effect.\<close>

interpretation decryption: chunk_loop "\<lambda>r d (decoded, x). decrypt_loop lib 0 decoded r d x"
  "\<lambda>(decoded, x) bs. do { (out, x) \<leftarrow> EVP_DecryptUpdate lib x bs; Some (out, decoded + of_nat (length out), x) }"
  SUCCEEDED snd for lib
proof unfold_locales
  fix r and d :: chunkset and y :: "u32 \<times> 'a"
  assume "oc_left (fst r) (snd r) = Some 0"
  then show "(case y of (decoded, x) \<Rightarrow> decrypt_loop lib 0 decoded r d x) = Some (SUCCEEDED, r, d, snd y)"
    by (simp add: decrypt_loop.simps [of _ _ _ r] split: prod.split)
next
  fix r r' n bs out d d' and y y' :: "u32 \<times> 'a"
  assume "oc_left (fst r) (snd r) = Some (Suc n)" "oc_contiguous (fst r) (snd r) = Some (length bs)"
    "oc_data (fst r) (snd r) = Some bs" "oc_increment (fst r) (snd r) (length bs) = Some r'" "ic_commit d out = Some d'"
    "(case y of (decoded, x) \<Rightarrow> \<lambda>bs. do { (out, x) \<leftarrow> EVP_DecryptUpdate lib x bs; Some (out, decoded + of_nat (length out), x) }) bs =
      Some (out, y')"
  then show "(case y of (decoded, x) \<Rightarrow> decrypt_loop lib 0 decoded r d x) =
      (case y' of (decoded, x) \<Rightarrow> decrypt_loop lib 0 decoded r' d' x)"
    by (cases y) (auto simp: decrypt_loop.simps [of _ _ _ r] split: bind_splits prod.splits)
qed

section \<open>Whole messages\<close>

definition out_ok :: "cursor list \<Rightarrow> chunkset \<Rightarrow> bool" where
  "out_ok curs d \<longleftrightarrow> buf_inv d curs \<and> gap_free (cs_chunks d) \<and> (cs_chunks d = [] \<or> ck_data (last (cs_chunks d)) \<noteq> [])"

definition written :: "cursor list \<Rightarrow> chunkset \<Rightarrow> bytes \<Rightarrow> chunkset \<Rightarrow> bool" where
  "written curs d bs d' \<longleftrightarrow> buf_inv d' curs \<and> gap_free (cs_chunks d') \<and> grows d bs d' \<and> (bs \<noteq> [] \<longrightarrow> out_ok curs d')"

lemma written_trans: "written curs d bs d' \<Longrightarrow> written curs d' bs' d'' \<Longrightarrow> bs' \<noteq> [] \<Longrightarrow> written curs d (bs @ bs') d''"
  using grows_trans [of d bs d' bs' d''] by (auto simp: written_def)

lemma reserved:
  assumes "out_ok curs d" "0 < n"
  shows "chain_inv (ic_reserve d n) (map oc_prev curs)" "cs_chunks (ic_reserve d n) \<noteq> []" "n \<le> ic_contiguous (ic_reserve d n)"
    "filled (map oc_prev curs) (ic_reserve d n) bs d' \<Longrightarrow> written curs d bs d'"
proof -
  have d: "buf_inv d curs" "gap_free (cs_chunks d)" "cs_chunks d = [] \<or> ck_data (last (cs_chunks d)) \<noteq> []"
    using assms(1) by (simp_all add: out_ok_def)
  note reserve = reserve_grows [OF d(1), of n]
  show "chain_inv (ic_reserve d n) (map oc_prev curs)" using reserve(1) by (simp add: buf_inv_def)
  show room: "n \<le> ic_contiguous (ic_reserve d n)" by (rule reserve_room)
  show "cs_chunks (ic_reserve d n) \<noteq> []" using room assms(2) by (auto simp: ic_contiguous_def)
  assume fill: "filled (map oc_prev curs) (ic_reserve d n) bs d'"
  then have "grows d bs d'" using grows_trans [OF reserve(2)] by (auto simp: filled_def)
  moreover have "buf_inv d' curs" by (rule buf_inv_grows [OF d(1) _ calculation]) (use fill in \<open>simp add: filled_def\<close>)
  ultimately show "written curs d bs d'" using fill reserve(3) d(2,3) by (auto simp: written_def filled_def out_ok_def)
qed

lemma reserve_and_fill:
  assumes "out_ok curs d" "0 < length bs"
  shows "\<exists>d'. ic_commit (ic_reserve d (length bs)) bs = Some d' \<and> written curs d bs d'"
  using commit_fills [OF reserved(1-3) [OF assms]] reserved(4) [OF assms] by metis

text \<open>What the documentation says of the two ciphers, and the message of each class.\<close>

definition ssl_documented :: "'x openssl \<Rightarrow> (bytes \<Rightarrow> bytes \<Rightarrow> bytes \<Rightarrow> bytes) \<Rightarrow> (bytes \<Rightarrow> bytes \<Rightarrow> bytes \<Rightarrow> bytes) \<Rightarrow> bool" where
  "ssl_documented ssl aes bf \<longleftrightarrow>
     evp_documented (kAES_256_CBC ssl) aes \<and> evp_documented (kBF_CBC ssl) bf \<and>
     EVP_CIPHER_key_length (kAES_256_CBC ssl) = kKeyLengthInBytes \<and> 0 < EVP_CIPHER_iv_length (kAES_256_CBC ssl) \<and>
     0 < EVP_CIPHER_iv_length (kBF_CBC ssl) \<and> EVP_CIPHER_iv_length (kBF_CBC ssl) \<le> EVP_CIPHER_key_length (kBF_CBC ssl)"

fun kind_ok :: "protector_kind \<Rightarrow> bool" where
  "kind_ok (AesSession key) \<longleftrightarrow> length key = kKeyLengthInBytes"
| "kind_ok ScrambleSession \<longleftrightarrow> True"

fun prefix_length :: "'x openssl \<Rightarrow> protector_kind \<Rightarrow> nat" where
  "prefix_length ssl (AesSession key) = EVP_CIPHER_iv_length (kAES_256_CBC ssl)"
| "prefix_length ssl ScrambleSession = EVP_CIPHER_key_length (kBF_CBC ssl)"

fun sealed :: "'x openssl \<Rightarrow> (bytes \<Rightarrow> bytes \<Rightarrow> bytes \<Rightarrow> bytes) \<Rightarrow> (bytes \<Rightarrow> bytes \<Rightarrow> bytes \<Rightarrow> bytes) \<Rightarrow>
    protector_kind \<Rightarrow> bytes \<Rightarrow> bytes \<Rightarrow> bytes" where
  "sealed ssl aes bf (AesSession key) prefix m = aes key prefix m"
| "sealed ssl aes bf ScrambleSession prefix m = bf prefix (take (EVP_CIPHER_iv_length (kBF_CBC ssl)) prefix) m"

lemma ssl_documentedD:
  assumes "ssl_documented ssl aes bf"
  shows "0 < EVP_CIPHER_block_size (pt_cipher ssl k)" "EVP_CIPHER_block_size (pt_cipher ssl k) \<le> 32"
    "EVP_CIPHER_block_size (pt_cipher ssl k) AND (EVP_CIPHER_block_size (pt_cipher ssl k) - 1) = 0"
    "length m < length (sealed ssl aes bf k prefix m)"
    "length (sealed ssl aes bf k prefix m) \<le> length m + unat (EVP_CIPHER_block_size (pt_cipher ssl k))"
    "0 < prefix_length ssl k"
  using assms by (cases k; auto simp: ssl_documented_def evp_documentedD)+

text \<open>A context that encrypts, or decrypts, one message.\<close>

abbreviation encrypting where
  "encrypting lib x f \<equiv> \<forall>cs. evp_message (EVP_EncryptUpdate lib) (EVP_EncryptFinal_ex lib) x cs = Some (f (concat cs))"

abbreviation decrypting where
  "decrypting lib x f \<equiv> \<forall>cs m. concat cs = f m \<longrightarrow> evp_message (EVP_DecryptUpdate lib) (EVP_DecryptFinal_ex lib) x cs = Some m"

lemma encoder_starts:
  assumes "ssl_documented ssl aes bf" "rc4_documented rl" "entropic (Suc n) p" "kind_ok (pt_kind pt)"
    "prefix_length ssl (pt_kind pt) \<le> length stale" "out_ok curs d"
  shows "\<exists>p' d' x prefix. encoder_Start ssl rl stale p d AutoPadding pt = Some (True, p', d', pt\<lparr>pt_ctx := x\<rparr>) \<and>
    length prefix = prefix_length ssl (pt_kind pt) \<and> written curs d prefix d' \<and> entropic n p' \<and>
    encrypting (pt_cipher ssl (pt_kind pt)) x (sealed ssl aes bf (pt_kind pt) prefix)"
proof -
  let ?n = "prefix_length ssl (pt_kind pt)"
  obtain prefix p' where prefix: "Get rl (take ?n stale) p = Some (prefix, p')" "length prefix = ?n" "entropic n p'"
    using Get_returns [OF assms(2,3), of "take ?n stale"] assms(5) by auto
  then obtain d' where d': "ic_commit (ic_reserve d ?n) prefix = Some d'" "written curs d prefix d'"
    using reserve_and_fill [OF assms(6), of prefix] ssl_documentedD(6) [OF assms(1)] by auto
  note doc = assms(1) [unfolded ssl_documented_def]
  show ?thesis
  proof (cases "pt_kind pt")
    case (AesSession key)
    obtain x0 where x0: "EVP_EncryptInit_ex (kAES_256_CBC ssl) (pt_ctx pt) key prefix = Some x0"
      "\<And>cs. evp_message (EVP_EncryptUpdate (kAES_256_CBC ssl)) (EVP_EncryptFinal_ex (kAES_256_CBC ssl))
        (EVP_CIPHER_CTX_set_padding (kAES_256_CBC ssl) True x0) cs = Some (aes key (take ?n prefix) (concat cs))"
      using evp_encrypts [of "kAES_256_CBC ssl" aes key prefix] doc assms(4) prefix(2) AesSession by (metis kind_ok.simps(1) order_refl prefix_length.simps(1))
    then show ?thesis using AesSession prefix d'
      by (auto simp: encoder_Start_def AesEncoder_Start_def Encoder_Start_def)
  next
    case ScrambleSession
    obtain x0 where x0: "EVP_EncryptInit_ex (kBF_CBC ssl) (pt_ctx pt) prefix prefix = Some x0"
      "\<And>cs. evp_message (EVP_EncryptUpdate (kBF_CBC ssl)) (EVP_EncryptFinal_ex (kBF_CBC ssl))
        (EVP_CIPHER_CTX_set_padding (kBF_CBC ssl) True x0) cs =
        Some (bf prefix (take (EVP_CIPHER_iv_length (kBF_CBC ssl)) prefix) (concat cs))"
      using evp_encrypts [of "kBF_CBC ssl" bf prefix prefix] doc prefix(2) ScrambleSession by (metis prefix_length.simps(2))
    then show ?thesis using ScrambleSession prefix d' doc
      by (auto simp: encoder_Start_def ScrambleEncoder_Start_def Encoder_Start_def)
  qed
qed

lemma decoder_starts:
  assumes "ssl_documented ssl aes bf" "kind_ok (pt_kind pt)" "reader_ok others r"
    "reader_contents r = prefix @ rest" "length prefix = prefix_length ssl (pt_kind pt)"
  shows "\<exists>r' x. decoder_Start ssl r AutoPadding pt = Some (SUCCEEDED, r', pt\<lparr>pt_ctx := x\<rparr>) \<and>
    reader_ok others r' \<and> reader_contents r' = rest \<and>
    decrypting (pt_cipher ssl (pt_kind pt)) x (sealed ssl aes bf (pt_kind pt) prefix)"
proof -
  let ?n = "prefix_length ssl (pt_kind pt)"
  obtain r' where r': "reader_consume r ?n = Some (prefix, r')" "reader_contents r' = rest" "reader_ok others r'"
    using cursor_source.consume_takes [OF assms(3), of ?n] assms(4,5) by auto
  note doc = assms(1) [unfolded ssl_documented_def]
  show ?thesis
  proof (cases "pt_kind pt")
    case (AesSession key)
    obtain x0 where x0: "EVP_DecryptInit_ex (kAES_256_CBC ssl) (pt_ctx pt) key prefix = Some x0"
      "\<And>cs m. concat cs = aes key (take ?n prefix) m \<Longrightarrow> evp_message (EVP_DecryptUpdate (kAES_256_CBC ssl)) (EVP_DecryptFinal_ex (kAES_256_CBC ssl))
        (EVP_CIPHER_CTX_set_padding (kAES_256_CBC ssl) True x0) cs = Some m"
      using evp_decrypts [of "kAES_256_CBC ssl" aes key prefix] doc assms(2,5) AesSession by (metis kind_ok.simps(1) order_refl prefix_length.simps(1))
    then show ?thesis using AesSession r' assms(5)
      by (auto simp: decoder_Start_def AesDecoder_Start_def Decoder_Start_def)
  next
    case ScrambleSession
    obtain x0 where x0: "EVP_DecryptInit_ex (kBF_CBC ssl) (pt_ctx pt) prefix prefix = Some x0"
      "\<And>cs m. concat cs = bf prefix (take (EVP_CIPHER_iv_length (kBF_CBC ssl)) prefix) m \<Longrightarrow>
        evp_message (EVP_DecryptUpdate (kBF_CBC ssl)) (EVP_DecryptFinal_ex (kBF_CBC ssl))
        (EVP_CIPHER_CTX_set_padding (kBF_CBC ssl) True x0) cs = Some m"
      using evp_decrypts [of "kBF_CBC ssl" bf prefix prefix] doc assms(5) ScrambleSession by (metis prefix_length.simps(2))
    then show ?thesis using ScrambleSession r' assms(5)
      by (auto simp: decoder_Start_def ScrambleDecoder_Start_def Decoder_Start_def)
  qed
qed

lemma messageE:
  assumes "evp_message up final x cs = Some m"
  obtains out x1 rest x2 where "evp_updates up x cs = Some (out, x1)" "final x1 = Some (rest, x2)" "m = out @ rest"
  using assms by (auto simp: evp_message_def split: bind_splits prod.splits)

lemma room_for_left:
  assumes "EVP_CIPHER_block_size lib \<le> 32" "n + 32 < 2 ^ 32"
  shows "room_for lib n = n + unat (EVP_CIPHER_block_size lib)"
proof -
  have "unat (EVP_CIPHER_block_size lib) \<le> 32" using assms(1) by (simp add: word_le_nat_alt)
  moreover have "unat (of_nat n :: u32) = n" using assms(2) by (simp add: unat_of_nat take_bit_nat_eq_self)
  ultimately show ?thesis using assms(2) by (simp add: room_for_def unat_add_lem [THEN iffD1])
qed

lemma Encode_writes:
  assumes "ssl_documented ssl aes bf" "rc4_documented rl" "entropic (Suc n) p" "kind_ok (pt_kind pt)"
    "prefix_length ssl (pt_kind pt) \<le> length stale" "out_ok curs d"
    "readable s cur others" "oc_limited cur = None" "length (unread s cur) + 32 < 2 ^ 32"
  shows "\<exists>p' s' cur' d' x prefix. Encode ssl rl stale p (s, cur) d pt = Some (True, p', (s', cur'), d', pt\<lparr>pt_ctx := x\<rparr>) \<and>
    length prefix = prefix_length ssl (pt_kind pt) \<and> advanced s cur others (length (unread s cur)) s' cur' \<and>
    written curs d (prefix @ sealed ssl aes bf (pt_kind pt) prefix (unread s cur)) d' \<and> entropic n p'"
proof -
  let ?k = "pt_kind pt" and ?lib = "pt_cipher ssl (pt_kind pt)" and ?m = "unread s cur"
  obtain p1 d1 x1 prefix where start: "encoder_Start ssl rl stale p d AutoPadding pt = Some (True, p1, d1, pt\<lparr>pt_ctx := x1\<rparr>)"
    "length prefix = prefix_length ssl ?k" "written curs d prefix d1" "entropic n p1"
    "encrypting ?lib x1 (sealed ssl aes bf ?k prefix)"
    using encoder_starts [OF assms(1-6)] by blast
  note doc = ssl_documentedD [OF assms(1), where k = "pt_kind pt"]
  have d1: "out_ok curs d1" using start(2,3) doc(6) by (auto simp: written_def)
  have room: "room_for ?lib (length ?m) = length ?m + unat (EVP_CIPHER_block_size ?lib)"
    by (rule room_for_left [OF doc(2) assms(9)])
  then have pos: "0 < room_for ?lib (length ?m)" using doc(1) by (simp add: word_less_nat_alt)
  note reserve = reserved [OF d1 pos]
  obtain cs s' cur' where loop: "concat cs = ?m" "advanced s cur others (length ?m) s' cur'"
    "\<And>d y out y' ps. evp_updates (EVP_EncryptUpdate ?lib) y cs = Some (out, y') \<Longrightarrow> chain_inv d ps \<Longrightarrow> cs_chunks d \<noteq> [] \<Longrightarrow>
       length out \<le> ic_contiguous d \<Longrightarrow> \<exists>d'. encrypt_loop ?lib (s, cur) d y = Some (True, (s', cur'), d', y') \<and> filled ps d out d'"
    using encryption.loop_runs [OF assms(7,8), of ?lib] by blast
  have "evp_message (EVP_EncryptUpdate ?lib) (EVP_EncryptFinal_ex ?lib) x1 cs = Some (sealed ssl aes bf ?k prefix ?m)"
    using start(5) loop(1) by simp
  then obtain out x2 rest x3 where msg: "evp_updates (EVP_EncryptUpdate ?lib) x1 cs = Some (out, x2)"
    "EVP_EncryptFinal_ex ?lib x2 = Some (rest, x3)" "sealed ssl aes bf ?k prefix ?m = out @ rest"
    by (rule messageE)
  have fits: "length (out @ rest) \<le> ic_contiguous (ic_reserve d1 (room_for ?lib (length ?m)))"
    using doc(5) [of prefix ?m] msg(3) reserve(3) room by simp
  obtain d2 where d2: "encrypt_loop ?lib (s, cur) (ic_reserve d1 (room_for ?lib (length ?m))) x1 = Some (True, (s', cur'), d2, x2)"
    "filled (map oc_prev curs) (ic_reserve d1 (room_for ?lib (length ?m))) out d2"
    using loop(3) [OF msg(1) reserve(1,2)] fits by auto
  have "chain_inv d2 (map oc_prev curs)" "cs_chunks d2 \<noteq> []" "length rest \<le> ic_contiguous d2"
    using d2(2) fits by (auto simp: filled_def)
  from commit_fills [OF this] obtain d3 where d3: "ic_commit d2 rest = Some d3" "filled (map oc_prev curs) d2 rest d3"
    by metis
  have "written curs d1 (out @ rest) d3" using reserve(4) filled_trans [OF d2(2) d3(2)] .
  then have "written curs d (prefix @ out @ rest) d3"
    using written_trans [OF start(3)] doc(4) [of ?m prefix] msg(3) by fastforce
  moreover have "oc_left s cur = Some (length ?m)"
    using left_size [of s cur others] assms(7,8) by (simp add: readable_def)
  ultimately show ?thesis using start(1,2,4) loop(2) msg(2,3) d2(1) d3(1)
    by (fastforce simp: Encode_def Encoder_Continue_def Encoder_End_def)
qed

text \<open>An encoded message takes at most two chunks more.\<close>

lemma commit_chunk_count: "ic_commit d bs = Some d' \<Longrightarrow> length (cs_chunks d') = length (cs_chunks d)"
  by (auto simp: ic_commit_def ic_contiguous_def split: if_splits bind_splits)

lemma reserve_chunk_count: "length (cs_chunks (ic_reserve d n)) \<le> Suc (length (cs_chunks d))"
  by (simp add: ic_reserve_def cs_append_def Let_def)

lemma encrypt_loop_chunk_count:
  assumes "encrypt_loop lib r d x = Some q"
  shows "length (cs_chunks (fst (snd (snd q)))) = length (cs_chunks d)"
  by (rule encrypt_loop.raw_induct [where xa = "(((lib, r), d), x)", unfolded prod.case, OF _ assms])
    (auto split: bind_splits if_splits option.splits prod.splits dest: commit_chunk_count)

lemma Encode_chunk_count:
  assumes "Encode ssl rl stale p r d pt = Some (ok, p', r', d', pt')"
  shows "length (cs_chunks d') \<le> length (cs_chunks d) + 2"
proof -
  have start: "length (cs_chunks d1) \<le> Suc (length (cs_chunks d))" if "encoder_Start ssl rl stale p d AutoPadding pt = Some (b, q, d1, pt1)" for b q d1 pt1
    using that reserve_chunk_count [of d]
    by (auto simp: encoder_Start_def AesEncoder_Start_def ScrambleEncoder_Start_def Let_def dest!: commit_chunk_count
          split: bind_splits protector_kind.splits prod.splits)
  have continue: "length (cs_chunks d2) \<le> Suc (length (cs_chunks d1))" if "Encoder_Continue lib r d1 x = Some (b, r2, d2, x2)" for lib d1 x b r2 d2 x2
    using that reserve_chunk_count [of d1] by (fastforce simp: Encoder_Continue_def dest!: encrypt_loop_chunk_count split: bind_splits)
  have finish: "length (cs_chunks d3) = length (cs_chunks d2)" if "Encoder_End lib d2 x = Some (b, d3, x3)" for lib d2 x b d3 x3
    using that by (auto simp: Encoder_End_def dest!: commit_chunk_count split: bind_splits option.splits prod.splits)
  show ?thesis using assms unfolding Encode_def
    by (auto dest!: start continue finish split: bind_splits if_splits)
qed
lemma counting_updates:
  assumes "evp_updates up x cs = Some (out, x')"
  shows "\<exists>n' :: u32. evp_updates (\<lambda>(n, x) bs. do { (out, x) \<leftarrow> up x bs; Some (out, n + of_nat (length out), x) }) (n, x) cs =
    Some (out, n', x')"
  using assms
proof (induction cs arbitrary: n x out)
  case (Cons c cs)
  then obtain out1 x1 outs where step: "up x c = Some (out1, x1)" "evp_updates up x1 cs = Some (outs, x')" "out = out1 @ outs"
    by (auto split: bind_splits prod.splits)
  from Cons.IH [OF step(2), of "n + of_nat (length out1)"] step(1,3) show ?case by auto
qed simp

lemma Decode_writes:
  assumes "ssl_documented ssl aes bf" "kind_ok (pt_kind pt)" "out_ok curs d" "reader_ok others r"
    "reader_contents r = prefix @ sealed ssl aes bf (pt_kind pt) prefix m" "length prefix = prefix_length ssl (pt_kind pt)"
    "length m + 64 < 2 ^ 32"
  shows "\<exists>r' d' x. Decode ssl r d pt = Some (SUCCEEDED, r', d', pt\<lparr>pt_ctx := x\<rparr>) \<and>
    reader_ok others r' \<and> reader_contents r' = [] \<and> written curs d m d'"
proof -
  let ?k = "pt_kind pt" and ?lib = "pt_cipher ssl (pt_kind pt)" and ?c = "sealed ssl aes bf (pt_kind pt) prefix m"
  note doc = ssl_documentedD [OF assms(1), where k = "pt_kind pt"]
  obtain r1 x1 where start: "decoder_Start ssl r AutoPadding pt = Some (SUCCEEDED, r1, pt\<lparr>pt_ctx := x1\<rparr>)"
    "reader_ok others r1" "reader_contents r1 = ?c" "decrypting ?lib x1 (sealed ssl aes bf ?k prefix)"
    using decoder_starts [OF assms(1,2,4,5,6)] by blast
  obtain s cur where r1: "r1 = (s, cur)" by fastforce
  have src: "readable s cur others" "oc_limited cur = None" "unread s cur = ?c"
    using start(2,3) r1 by (simp_all add: reader_ok_def reader_contents_def)
  have "length ?c + 32 < 2 ^ 32" using doc(2) doc(5) [of prefix m] assms(7) by (simp add: word_le_nat_alt)
  from room_for_left [OF doc(2) this]
  have room: "room_for ?lib (length ?c) = length ?c + unat (EVP_CIPHER_block_size ?lib)" .
  then have pos: "0 < room_for ?lib (length ?c)" using doc(1) by (simp add: word_less_nat_alt)
  note reserve = reserved [OF assms(3) pos]
  obtain cs s' cur' where loop: "concat cs = ?c" "advanced s cur others (length ?c) s' cur'"
    "\<And>d y out y' ps. evp_updates (\<lambda>(decoded, x) bs. do { (out, x) \<leftarrow> EVP_DecryptUpdate ?lib x bs; Some (out, decoded + of_nat (length out), x) })
         y cs = Some (out, y') \<Longrightarrow> chain_inv d ps \<Longrightarrow> cs_chunks d \<noteq> [] \<Longrightarrow> length out \<le> ic_contiguous d \<Longrightarrow>
       \<exists>d'. (case y of (decoded, x) \<Rightarrow> decrypt_loop ?lib 0 decoded (s, cur) d x) = Some (SUCCEEDED, (s', cur'), d', snd y') \<and> filled ps d out d'"
    using decryption.loop_runs [OF src(1,2), of ?lib] unfolding src(3) by blast
  have "evp_message (EVP_DecryptUpdate ?lib) (EVP_DecryptFinal_ex ?lib) x1 cs = Some m"
    using start(4) loop(1) by simp
  then obtain out x2 rest x3 where msg: "evp_updates (EVP_DecryptUpdate ?lib) x1 cs = Some (out, x2)"
    "EVP_DecryptFinal_ex ?lib x2 = Some (rest, x3)" "m = out @ rest"
    by (rule messageE)
  have fits: "length (out @ rest) \<le> ic_contiguous (ic_reserve d (room_for ?lib (length ?c)))"
    using doc(4) [of m prefix] msg(3) reserve(3) room by simp
  obtain n' where "evp_updates (\<lambda>(decoded, x) bs. do { (out, x) \<leftarrow> EVP_DecryptUpdate ?lib x bs; Some (out, decoded + of_nat (length out), x) })
       (ctx_buf_len ?lib x1, x1) cs = Some (out, n', x2)" using counting_updates [OF msg(1)] by blast
  from loop(3) [OF this reserve(1,2)] fits obtain d2 where
    d2: "decrypt_loop ?lib 0 (ctx_buf_len ?lib x1) (s, cur) (ic_reserve d (room_for ?lib (length ?c))) x1 = Some (SUCCEEDED, (s', cur'), d2, x2)"
    "filled (map oc_prev curs) (ic_reserve d (room_for ?lib (length ?c))) out d2" by auto
  have "chain_inv d2 (map oc_prev curs)" "cs_chunks d2 \<noteq> []" "length rest \<le> ic_contiguous d2"
    using d2(2) fits by (auto simp: filled_def)
  from commit_fills [OF this] obtain d3 where d3: "ic_commit d2 rest = Some d3" "filled (map oc_prev curs) d2 rest d3"
    by metis
  have "written curs d m d3" using reserve(4) filled_trans [OF d2(2) d3(2)] msg(3) by simp
  moreover have "oc_left s cur = Some (length ?c)"
    using left_size [of s cur others] src by (simp add: readable_def)
  moreover have "round_up ?lib 0 = 0" by (simp add: round_up_def)
  moreover have "reader_ok others (s', cur')" "reader_contents (s', cur') = []"
    using readable_advanced [OF src(1) loop(2)] loop(2) src(2,3) by (simp_all add: advanced_def reader_ok_def reader_contents_def)
  ultimately show ?thesis using start(1) r1 msg(2) d2(1) d3(1) doc(3)
    by (auto simp: Decode_def Decoder_Continue_def Decoder_End_def)
qed

section \<open>Properties\<close>

lemma out_ok_tidy: "tidy others r \<longleftrightarrow> out_ok (snd r # others) (fst r) \<and> oc_limited (snd r) = None"
  by (auto simp: tidy_def out_ok_def)

lemma written_unread: "written curs d bs d' \<Longrightarrow> buf_inv d curs \<Longrightarrow> c \<in> set curs \<Longrightarrow> unread d' c = unread d c @ bs"
  by (auto simp: written_def intro: grows_cursor(2) buf_inv_cur_ok)

lemma written_tidy:
  assumes "tidy others r" "written (snd r # others) (fst r) bs d'" "bs \<noteq> []"
  shows "tidy others (d', snd r)" "reader_contents (d', snd r) = reader_contents r @ bs"
  using assms written_unread [OF assms(2), of "snd r"] by (auto simp: out_ok_tidy written_def out_ok_def reader_contents_def)


text \<open>A stand-in for OpenSSL that keeps its promises: it puts a byte behind each message.\<close>

definition trailer_evp :: "nat \<Rightarrow> bytes evp_lib" where
  "trailer_evp n = \<lparr>EVP_CIPHER_key_length = n, EVP_CIPHER_iv_length = 16, EVP_CIPHER_block_size = 1,
     EVP_EncryptInit_ex = (\<lambda>x key iv. Some []), EVP_DecryptInit_ex = (\<lambda>x key iv. Some []),
     EVP_CIPHER_CTX_set_padding = (\<lambda>b x. x),
     EVP_EncryptUpdate = (\<lambda>x bs. Some (bs, x)), EVP_EncryptFinal_ex = (\<lambda>x. Some ([0], x)),
     EVP_DecryptUpdate = (\<lambda>x bs. Some (butlast (x @ bs), if x @ bs = [] then [] else [last (x @ bs)])),
     EVP_DecryptFinal_ex = (\<lambda>x. Some ([], [])), EVP_CIPHER_CTX_cleanup = (\<lambda>x. []), ctx_buf_len = (\<lambda>x. 0)\<rparr>"

definition trailer_ssl :: "bytes openssl" where
  "trailer_ssl = \<lparr>kAES_256_CBC = trailer_evp 32, kBF_CBC = trailer_evp 16\<rparr>"

lemma trailer_updates:
  "evp_updates (EVP_EncryptUpdate (trailer_evp n)) x cs = Some (concat cs, x)"
  "evp_updates (EVP_DecryptUpdate (trailer_evp n)) y cs =
    (if cs = [] then Some ([], y) else if y @ concat cs = [] then Some ([], [])
     else Some (butlast (y @ concat cs), [last (y @ concat cs)]))"
proof -
  show "evp_updates (EVP_EncryptUpdate (trailer_evp n)) x cs = Some (concat cs, x)"
    by (induction cs) (simp_all add: trailer_evp_def)
  show "evp_updates (EVP_DecryptUpdate (trailer_evp n)) y cs =
    (if cs = [] then Some ([], y) else if y @ concat cs = [] then Some ([], [])
     else Some (butlast (y @ concat cs), [last (y @ concat cs)]))"
    by (induction cs arbitrary: y) (auto simp: trailer_evp_def butlast_append last_append snoc_eq_iff_butlast)
qed

lemma trailer_documented: "evp_documented (trailer_evp n) (\<lambda>key iv m. m @ [0])"
proof -
  have "evp_message (EVP_DecryptUpdate (trailer_evp n)) (EVP_DecryptFinal_ex (trailer_evp n)) [] cs = Some m"
    if "concat cs = m @ [0]" for cs m
    using that by (auto simp: evp_message_def trailer_updates) (simp add: trailer_evp_def)
  moreover have "evp_message (EVP_EncryptUpdate (trailer_evp n)) (EVP_EncryptFinal_ex (trailer_evp n)) [] cs = Some (concat cs @ [0])" for cs
    by (simp add: evp_message_def trailer_updates) (simp add: trailer_evp_def)
  ultimately show ?thesis by (simp add: evp_documented_def Let_def) (simp add: trailer_evp_def)
qed

lemma trailer_ssl_documented: "ssl_documented trailer_ssl (\<lambda>key iv m. m @ [0]) (\<lambda>key iv m. m @ [0])"
  by (simp add: ssl_documented_def trailer_ssl_def trailer_documented) (simp add: trailer_evp_def kKeyLengthInBytes_def)




text \<open>What \<open>AddPadding\<close> encrypts is as long as that.\<close>

lemma AddPadding_encrypts:
  assumes "rc4_documented rl" "entropic (Suc n) p" "0 < pad_for lib datasize" "255 \<le> length stale"
  shows "\<exists>p' padding s cur. length padding = unat (pad_for lib datasize) \<and> readable s cur [] \<and> oc_limited cur = None \<and>
    unread s cur = padding \<and> entropic n p' \<and>
    AddPadding lib rl stale p d datasize x = do { (ok, _, d, x) \<leftarrow> Encoder_Continue lib (s, cur) d x; Some (ok, p', d, x) }"
proof -
  let ?n = "unat (pad_for lib datasize)" and ?s = "cs_new\<lparr>cs_refcount := 1, cs_placemark_ref := 2\<rparr>"
    and ?cur = "\<lparr>oc_prev = 0, oc_offset = 0, oc_limited = None\<rparr>"
  have n: "?n < 256" using unsigned_less [of "pad_for lib datasize"] by simp
  obtain padding p' where padding: "Get rl (take ?n stale) p = Some (padding, p')" "length padding = ?n" "entropic n p'"
    using Get_returns [OF assms(1,2), of "take ?n stale"] assms(4) n by auto
  have "0 < ?n" using assms(3) by (simp add: word_less_nat_alt)
  have fresh: "tidy [] (?s, ?cur)" "reader_contents (?s, ?cur) = []"
    using fifo_inv_new by (simp_all add: tidy_def fifo_inv_def reader_contents_def unread_new cs_new_def)
  from reserve_and_fill [of "[?cur]" ?s padding] fresh(1) padding(2) \<open>0 < ?n\<close> obtain s' where
    s': "ic_commit (ic_reserve ?s ?n) padding = Some s'" "written [?cur] ?s padding s'" by (auto simp: out_ok_tidy)
  note delivered = written_tidy [OF fresh(1), of padding s']
  have "padding \<noteq> []" using padding(2) \<open>0 < ?n\<close> by auto
  then have "tidy [] (s', ?cur)" "reader_contents (s', ?cur) = padding"
    using delivered s'(2) fresh(2) by simp_all
  then have "readable s' ?cur []" "unread s' ?cur = padding"
    using padding(2) n by (auto simp: tidy_def readable_def reader_contents_def)
  moreover have "pad_for lib datasize \<noteq> 0" using assms(3) by auto
  ultimately show ?thesis using padding s'(1)
    by (intro exI [of _ p'] exI [of _ padding] exI [of _ s'] exI [of _ ?cur]) (simp add: AddPadding_def Buffer_new_run)
qed

text \<open>C31. Once the salt has crossed the wire both sides compute the same key from the same secret, and
  the key fits the cipher: the constructors of the encoder and the decoder accept it.\<close>

theorem salt_gives_both_the_same_key:
  assumes "rc4_documented rl" "entropic 1 p" "kKeyLengthInBytes \<le> length (ak_salt k)" "tidy [] wire" "reader_contents wire = []"
    "length (ak_salt k') = kKeyLengthInBytes" "sb_content secret = sb_content secret'"
    "\<And>pwd m. length (hmac pwd m) = kSHA1Length" "EVP_CIPHER_key_length lib = kKeyLengthInBytes"
  shows "\<exists>p' w k1 r k2 key. SendSalt rl p wire k = Some (p', w, k1) \<and> RecvSalt w k' = Some (0, r, k2) \<and>
    reader_contents r = [] \<and> length key = kKeyLengthInBytes \<and>
    AesSessionProtector_new lib (SetupKey hmac secret k1) = Some key \<and>
    AesSessionProtector_new lib (SetupKey hmac secret' k2) = Some key"
proof -
  obtain salt p' where salt: "ComputeSalt rl (take kKeyLengthInBytes (ak_salt k)) p = Some (salt, p')" "length salt = kKeyLengthInBytes"
    using Get_returns [OF assms(1), of 0 p "take kKeyLengthInBytes (ak_salt k)"] assms(2,3) by (auto simp: ComputeSalt_def)
  obtain w where w: "reader_add wire salt = Some w" "reader_contents w = salt" "tidy [] w"
    using cursor_sink.add_appends [OF assms(4), of salt] assms(5) by auto
  have "reader_ok [] w" using w salt(2) by (intro tidy_reader_ok) (auto simp: kKeyLengthInBytes_def)
  from cursor_source.consume_takes [OF this, of kKeyLengthInBytes] w(2) salt(2) obtain r where
    r: "reader_consume w kKeyLengthInBytes = Some (salt, r)" "reader_contents r = []" by auto
  let ?key = "ComputeKey hmac salt kKeyLengthInBytes secret"
  have "length ?key = kKeyLengthInBytes" using assms(8) by (simp add: ComputeKey_length kSHA1Length_def)
  moreover have "ComputeKey hmac salt kKeyLengthInBytes secret' = ?key" using assms(7) by (simp add: ComputeKey_def)
  ultimately show ?thesis using salt w(1) r assms(6,9)
    by (cases r) (simp add: SendSalt_def RecvSalt_def AesSessionProtector_new_def SetupKey_def)
qed

theorem salt_gives_both_the_same_key_witness:
  "\<exists>p' w k1 r k2 key. SendSalt toy_rc4 (Rc4Prng_new 0 [Some [5]]) empty_reader \<lparr>ak_salt = replicate 32 0, ak_key = []\<rparr> = Some (p', w, k1) \<and>
    RecvSalt w \<lparr>ak_salt = replicate 32 7, ak_key = []\<rparr> = Some (0, r, k2) \<and>
    AesSessionProtector_new (trailer_evp 32) (SetupKey (\<lambda>k m. take 20 (m @ replicate 20 1)) (sb_new (replicate 4096 0)) k1) = Some key \<and>
    AesSessionProtector_new (trailer_evp 32) (SetupKey (\<lambda>k m. take 20 (m @ replicate 20 1)) (sb_new (replicate 4096 1)) k2) = Some key"
proof -
  have rl: "rc4_documented toy_rc4" "entropic 1 (Rc4Prng_new (0 :: byte) [Some [5]])"
    by (simp_all add: rc4_documented_def toy_rc4_def entropic_def Rc4Prng_new_def)
  from salt_gives_both_the_same_key [OF rl _ empty_reader_ok, of "\<lparr>ak_salt = replicate 32 0, ak_key = []\<rparr>"
      "\<lparr>ak_salt = replicate 32 7, ak_key = []\<rparr>" "sb_new (replicate 4096 0)" "sb_new (replicate 4096 1)"
      "\<lambda>k m. take 20 (m @ replicate 20 1)" "trailer_evp 32"]
  show ?thesis by (fastforce simp: kKeyLengthInBytes_def sb_content_def sb_new_def trailer_evp_def kSHA1Length_def)
qed

end
