(* ===== verification/PacketQueues.thy ===== *)
theory PacketQueues
  imports Sockaddr Serializers
begin

text \<open>
  \<open>src/src/packet-queue.h\<close> and \<open>.cc\<close>: the queues of packets that wait to be sent, of whole packets for a
  bound channel or a tunnel, and of packets with their destination for a datagram socket.

  A \<open>Buffer\<close> is its chunk set with its output cursor. \<open>front()\<close> and \<open>pop()\<close> of an empty \<open>queue\<close> have no
  result, as in the standard library.
\<close>

definition new_buffer :: "reader option" where
  "new_buffer = do { b \<leftarrow> Buffer_new; Some (bf_chunks b, bf_output b) }"

lemma new_buffer_run: "new_buffer = Some empty_reader"
  by (simp add: new_buffer_def Buffer_new_run empty_reader_def)

section \<open>Packets\<close>

record packet_queue =
  pq_queue :: "reader list"
  pq_to_queue :: "reader option"

definition PacketQueue_new :: packet_queue where
  "PacketQueue_new = \<lparr>pq_queue = [], pq_to_queue = None\<rparr>"

definition Pending :: "packet_queue \<Rightarrow> nat" where
  "Pending q = length (pq_queue q)"

definition ToSend :: "packet_queue \<Rightarrow> reader option" where
  "ToSend q = do { fatal_unless (pq_queue q \<noteq> []); Some (hd (pq_queue q)) }"

definition Sent :: "packet_queue \<Rightarrow> packet_queue option" where
  "Sent q = (case pq_queue q of [] \<Rightarrow> None | _ # bs \<Rightarrow> Some (q\<lparr>pq_queue := bs\<rparr>))"

text \<open>The buffer whose input cursor is returned, in its place.\<close>

definition ToQueue :: "packet_queue \<Rightarrow> (reader \<times> packet_queue) option" where
  "ToQueue q =
     (case pq_to_queue q of
        None \<Rightarrow> do { b \<leftarrow> new_buffer; Some (b, q\<lparr>pq_to_queue := Some b\<rparr>) }
      | Some b \<Rightarrow> Some (b, q))"

definition Queued :: "packet_queue \<Rightarrow> packet_queue option" where
  "Queued q =
     (case pq_to_queue q of
        None \<Rightarrow> None
      | Some b \<Rightarrow> Some (q\<lparr>pq_queue := pq_queue q @ [b], pq_to_queue := None\<rparr>))"

section \<open>Packets with a destination\<close>

datatype io_result = OK | CLOSED | ERROR

datatype processing_state = DONE | MORE

record packet_slot =
  sl_address :: "sockaddr option"
  sl_buffer :: reader

definition GetPacketSlot :: "packet_slot option" where
  "GetPacketSlot = do { b \<leftarrow> new_buffer; Some \<lparr>sl_address = None, sl_buffer = b\<rparr> }"

text \<open>
  The channel is one of \<open>'n\<close>: \<open>WantWrite\<close> asks it to call \<open>HandleWrite\<close> when it can take data.
\<close>

record 'n datagram_channel =
  dc_Write :: "reader \<Rightarrow> sockaddr \<Rightarrow> 'n \<Rightarrow> (io_result \<times> reader \<times> 'n) option"
  dc_WantWrite :: "'n \<Rightarrow> 'n option"

record 'n datagram_queue =
  dq_queue :: "packet_slot list"
  dq_channel :: "'n datagram_channel option"

definition DatagramSenderPacketQueue_new :: "'n datagram_queue" where
  "DatagramSenderPacketQueue_new = \<lparr>dq_queue = [], dq_channel = None\<rparr>"

function DropQueue :: "'n datagram_queue \<Rightarrow> 'n datagram_queue" where
  "DropQueue q = (if dq_queue q = [] then q else DropQueue (q\<lparr>dq_queue := tl (dq_queue q)\<rparr>))"
  by pat_completeness auto
termination
  by (relation "measure (\<lambda>q. length (dq_queue q))") auto

declare DropQueue.simps [simp del]

definition SetChannel :: "'n datagram_channel \<Rightarrow> 'n datagram_queue \<Rightarrow> 'n datagram_queue" where
  "SetChannel channel q = q\<lparr>dq_channel := Some channel\<rparr>"

definition DatagramQueue_HandleWrite :: "'n datagram_queue \<Rightarrow> 'n \<Rightarrow> (processing_state \<times> 'n datagram_queue \<times> 'n) option" where
  "DatagramQueue_HandleWrite q n = do {
     slot \<leftarrow> (case dq_queue q of [] \<Rightarrow> None | s # _ \<Rightarrow> Some s);
     let q = q\<lparr>dq_queue := tl (dq_queue q)\<rparr>;
     channel \<leftarrow> dq_channel q;
     address \<leftarrow> sl_address slot;
     (_, _, n) \<leftarrow> dc_Write channel (sl_buffer slot) address n;
     Some (if dq_queue q = [] then DONE else MORE, q, n)
   }"

definition QueuePacketSlot :: "packet_slot \<Rightarrow> 'n datagram_queue \<Rightarrow> 'n \<Rightarrow> ('n datagram_queue \<times> 'n) option" where
  "QueuePacketSlot slot q n = do {
     let q = q\<lparr>dq_queue := dq_queue q @ [slot]\<rparr>;
     channel \<leftarrow> dq_channel q;
     n \<leftarrow> dc_WantWrite channel n;
     Some (q, n)
   }"

section \<open>Packets come out whole and in order\<close>

text \<open>
  What a user of the queue does: add bytes to the packet that is being built, close it, or take the
  oldest packet. The specification is a queue of byte strings and one more that is not yet in it.
\<close>

datatype pq_op = Put bytes | Close_packet | Take

fun pq_step :: "pq_op \<Rightarrow> packet_queue \<Rightarrow> (bytes option \<times> packet_queue) option" where
  "pq_step (Put bs) q = do {
     (b, q) \<leftarrow> ToQueue q;
     b \<leftarrow> reader_add b bs;
     Some (None, q\<lparr>pq_to_queue := Some b\<rparr>)
   }"
| "pq_step Close_packet q = do { q \<leftarrow> Queued q; Some (None, q) }"
| "pq_step Take q =
     (if Pending q = 0 then Some (None, q)
      else do {
        b \<leftarrow> ToSend q;
        left \<leftarrow> oc_left (fst b) (snd b);
        (bs, _) \<leftarrow> reader_consume b left;
        q \<leftarrow> Sent q;
        Some (Some bs, q)
      })"

fun pq_run :: "pq_op list \<Rightarrow> packet_queue \<Rightarrow> (bytes list \<times> packet_queue) option" where
  "pq_run [] q = Some ([], q)"
| "pq_run (op # ops) q = do {
     (out, q) \<leftarrow> pq_step op q;
     (outs, q) \<leftarrow> pq_run ops q;
     Some (case out of None \<Rightarrow> outs | Some bs \<Rightarrow> bs # outs, q)
   }"

fun fifo_packets :: "pq_op list \<Rightarrow> bytes option \<Rightarrow> bytes list \<Rightarrow> bytes list" where
  "fifo_packets [] building packets = []"
| "fifo_packets (Put bs # ops) building packets =
     fifo_packets ops (Some (case building of None \<Rightarrow> bs | Some b \<Rightarrow> b @ bs)) packets"
| "fifo_packets (Close_packet # ops) building packets = fifo_packets ops None (packets @ [the building])"
| "fifo_packets (Take # ops) building packets =
     (case packets of [] \<Rightarrow> fifo_packets ops building [] | p # ps \<Rightarrow> p # fifo_packets ops building ps)"

text \<open>A packet is only closed when there is one; all packets together are less than 4 GB.\<close>

fun pq_valid :: "bool \<Rightarrow> pq_op list \<Rightarrow> bool" where
  "pq_valid building [] \<longleftrightarrow> True"
| "pq_valid building (Put bs # ops) \<longleftrightarrow> pq_valid True ops"
| "pq_valid building (Close_packet # ops) \<longleftrightarrow> building \<and> pq_valid False ops"
| "pq_valid building (Take # ops) \<longleftrightarrow> pq_valid building ops"

fun pq_bytes :: "pq_op list \<Rightarrow> nat" where
  "pq_bytes [] = 0"
| "pq_bytes (Put bs # ops) = length bs + pq_bytes ops"
| "pq_bytes (op # ops) = pq_bytes ops"

definition pq_inv :: "nat \<Rightarrow> packet_queue \<Rightarrow> bool" where
  "pq_inv n q \<longleftrightarrow> list_all (\<lambda>b. tidy [] b \<and> length (reader_contents b) < 2 ^ 32) (pq_queue q) \<and>
     (\<forall>b. pq_to_queue q = Some b \<longrightarrow> tidy [] b \<and> length (reader_contents b) + n < 2 ^ 32) \<and> n < 2 ^ 32"

definition pq_abs :: "packet_queue \<Rightarrow> bytes option \<times> bytes list" where
  "pq_abs q = (map_option reader_contents (pq_to_queue q), map reader_contents (pq_queue q))"

lemma pq_put:
  assumes "pq_inv (length bs + n) q"
  shows "\<exists>q'. pq_step (Put bs) q = Some (None, q') \<and> pq_inv n q' \<and>
    pq_abs q' = (Some (case fst (pq_abs q) of None \<Rightarrow> bs | Some b \<Rightarrow> b @ bs), snd (pq_abs q))"
proof -
  obtain b q1 where b: "ToQueue q = Some (b, q1)" "tidy [] b" "length (reader_contents b) + length bs + n < 2 ^ 32"
    "pq_queue q1 = pq_queue q"
    "reader_contents b = (case fst (pq_abs q) of None \<Rightarrow> [] | Some b \<Rightarrow> b)"
  proof (cases "pq_to_queue q")
    case None
    with assms empty_reader_ok show thesis
      by (intro that [of empty_reader "q\<lparr>pq_to_queue := Some empty_reader\<rparr>"])
        (simp_all add: ToQueue_def new_buffer_run pq_inv_def pq_abs_def)
  next
    case (Some b)
    with assms show thesis by (intro that [of b q]) (simp_all add: ToQueue_def pq_inv_def pq_abs_def)
  qed
  obtain b' where "reader_add b bs = Some b'" "reader_contents b' = reader_contents b @ bs" "tidy [] b'"
    using cursor_sink.add_appends [OF b(2)] by blast
  with b assms show ?thesis by (cases b') (auto simp: pq_inv_def pq_abs_def split: option.splits)
qed

lemma pq_take:
  assumes "pq_inv n q" "pq_queue q = b # bs"
  shows "pq_step Take q = Some (Some (reader_contents b), q\<lparr>pq_queue := bs\<rparr>)"
proof -
  have ok: "reader_ok [] b" using assms by (intro tidy_reader_ok) (auto simp: pq_inv_def)
  then have left: "oc_left (fst b) (snd b) = Some (length (reader_contents b))"
    using left_size [of "fst b" "snd b" "[]"] by (simp add: reader_ok_def readable_def reader_contents_def)
  obtain b' where "reader_consume b (length (reader_contents b)) = Some (reader_contents b, b')"
    using cursor_source.consume_takes [OF ok, of "length (reader_contents b)"] by auto
  with left assms(2) show ?thesis by (simp add: Pending_def ToSend_def Sent_def)
qed

lemma pq_run_refines:
  assumes "pq_inv (pq_bytes ops) q" "pq_valid (pq_to_queue q \<noteq> None) ops"
  shows "\<exists>q'. pq_run ops q = Some (fifo_packets ops (fst (pq_abs q)) (snd (pq_abs q)), q')"
  using assms
proof (induction ops arbitrary: q)
  case (Cons op ops)
  show ?case
  proof (cases op)
    case (Put bs)
    obtain q1 where q1: "pq_step (Put bs) q = Some (None, q1)" "pq_inv (pq_bytes ops) q1"
      "pq_abs q1 = (Some (case fst (pq_abs q) of None \<Rightarrow> bs | Some b \<Rightarrow> b @ bs), snd (pq_abs q))"
      using pq_put [of bs "pq_bytes ops" q] Cons.prems(1) Put by auto
    then have "pq_to_queue q1 \<noteq> None" by (auto simp: pq_abs_def)
    with Cons.IH [OF q1(2)] q1 Cons.prems(2) Put show ?thesis by auto
  next
    case Close_packet
    then obtain b where b: "pq_to_queue q = Some b" using Cons.prems(2) by auto
    let ?q = "q\<lparr>pq_queue := pq_queue q @ [b], pq_to_queue := None\<rparr>"
    have "pq_inv (pq_bytes ops) ?q" using Cons.prems(1) b Close_packet by (auto simp: pq_inv_def)
    from Cons.IH [OF this] b Cons.prems(2) Close_packet show ?thesis by (simp add: Queued_def pq_abs_def)
  next
    case Take
    show ?thesis
    proof (cases "pq_queue q")
      case Nil
      with Cons.IH [of q] Cons.prems Take show ?thesis by (simp add: Pending_def pq_abs_def)
    next
      case (Cons b bs)
      have "pq_inv (pq_bytes ops) (q\<lparr>pq_queue := bs\<rparr>)"
        using Cons.prems(1) Cons Take by (auto simp: pq_inv_def)
      then obtain q' where "pq_run ops (q\<lparr>pq_queue := bs\<rparr>) =
          Some (fifo_packets ops (map_option reader_contents (pq_to_queue q)) (map reader_contents bs), q')"
        using Cons.IH [of "q\<lparr>pq_queue := bs\<rparr>"] Cons.prems(2) Take by (auto simp: pq_abs_def)
      with pq_take [OF Cons.prems(1) Cons] Cons Take show ?thesis by (simp add: pq_abs_def del: pq_step.simps)
    qed
  qed
qed (simp add: pq_abs_def)

text \<open>C13. The packets taken from the queue are the packets put into it, whole, in order and each once,
  whatever the number of pieces each was built from.\<close>

theorem PacketQueue_is_a_FIFO_of_packets:
  assumes "pq_valid False ops" "pq_bytes ops < 2 ^ 32"
  shows "\<exists>q. pq_run ops PacketQueue_new = Some (fifo_packets ops None [], q)"
  using pq_run_refines [of ops PacketQueue_new] assms by (simp add: PacketQueue_new_def pq_inv_def pq_abs_def)

theorem PacketQueue_is_a_FIFO_of_packets_witness:
  "\<exists>q. pq_run [Put [1], Put [2, 3], Close_packet, Put [], Close_packet, Take, Put [4], Take] PacketQueue_new = Some ([[1, 2, 3], []], q)"
  using PacketQueue_is_a_FIFO_of_packets [of "[Put [1], Put [2, 3], Close_packet, Put [], Close_packet, Take, Put [4], Take]"]
  by simp

text \<open>The dispatcher calls \<open>HandleWrite\<close> as long as it asks for more.\<close>

partial_function (option) write_while_more :: "'n datagram_queue \<Rightarrow> 'n \<Rightarrow> ('n datagram_queue \<times> 'n) option" where
  "write_while_more q n = do {
     (state, q, n) \<leftarrow> DatagramQueue_HandleWrite q n;
     (if state = MORE then write_while_more q n else Some (q, n))
   }"

text \<open>C27. A queue that is not empty is sent to the end: each packet goes once, in order, to its own destination,
  and the dispatcher is not asked again when the queue is empty, whatever the channel answers.\<close>

theorem datagrams_leave_in_order:
  assumes "dq_channel q = Some channel" "dq_queue q = map (\<lambda>(a, b). \<lparr>sl_address = Some a, sl_buffer = b\<rparr>) packets" "packets \<noteq> []"
    "\<And>b a n. dc_Write channel b a n = Some (result b a n, sent b, n @ [(a, reader_contents b)])"
  shows "write_while_more q n = Some (q\<lparr>dq_queue := []\<rparr>, n @ map (\<lambda>(a, b). (a, reader_contents b)) packets)"
  using assms(1-3)
proof (induction packets arbitrary: q n)
  case (Cons p ps)
  obtain a b where p: "p = (a, b)" by (cases p)
  have step: "DatagramQueue_HandleWrite q n = Some (if ps = [] then DONE else MORE,
      q\<lparr>dq_queue := map (\<lambda>(a, b). \<lparr>sl_address = Some a, sl_buffer = b\<rparr>) ps\<rparr>, n @ [(a, reader_contents b)])"
    using Cons.prems p assms(4) by (simp add: DatagramQueue_HandleWrite_def)
  show ?case
  proof (cases "ps = []")
    case True
    with step p show ?thesis by (simp add: write_while_more.simps [of q])
  next
    case False
    with step p Cons.IH [of "q\<lparr>dq_queue := map (\<lambda>(a, b). \<lparr>sl_address = Some a, sl_buffer = b\<rparr>) ps\<rparr>"] Cons.prems(1)
    show ?thesis by (simp add: write_while_more.simps [of q])
  qed
qed simp

theorem datagrams_leave_in_order_witness:
  "write_while_more \<lparr>dq_queue = [\<lparr>sl_address = Some (IPv4Sockaddr [1]), sl_buffer = empty_reader\<rparr>,
      \<lparr>sl_address = Some (IPv4Sockaddr [2]), sl_buffer = sample_reader\<rparr>],
    dq_channel = Some \<lparr>dc_Write = \<lambda>b a n. Some (ERROR, b, n @ [(a, reader_contents b)]), dc_WantWrite = Some\<rparr>\<rparr> [] =
    Some (\<lparr>dq_queue = [], dq_channel = Some \<lparr>dc_Write = \<lambda>b a n. Some (ERROR, b, n @ [(a, reader_contents b)]), dc_WantWrite = Some\<rparr>\<rparr>,
      [(IPv4Sockaddr [1], []), (IPv4Sockaddr [2], [10, 11])])"
  using datagrams_leave_in_order [of "\<lparr>dq_queue = [\<lparr>sl_address = Some (IPv4Sockaddr [1]), sl_buffer = empty_reader\<rparr>,
      \<lparr>sl_address = Some (IPv4Sockaddr [2]), sl_buffer = sample_reader\<rparr>],
    dq_channel = Some \<lparr>dc_Write = \<lambda>b a n. Some (ERROR, b, n @ [(a, reader_contents b)]), dc_WantWrite = Some\<rparr>\<rparr>"
    "\<lparr>dc_Write = \<lambda>b a n. Some (ERROR, b, n @ [(a, reader_contents b)]), dc_WantWrite = Some\<rparr>"
    "[(IPv4Sockaddr [1], empty_reader), (IPv4Sockaddr [2], sample_reader)]" "\<lambda>b a n. ERROR" "\<lambda>b. b" "[]"]
  by (simp add: sample_reader_ok empty_reader_ok)

end
