(* ===== verification/Dispatcher.thy ===== *)
theory Dispatcher
  imports Prelude
begin

text \<open>
  \<open>src/src/linux/epoll-dispatcher.h\<close> and \<open>.cc\<close>: which file descriptors the program waits for, and the
  loop that calls their handlers; \<open>DeleteLater\<close> and \<open>Holder\<close> of \<open>src/src/stl-helpers.h\<close>.

  The \<open>EpollEvent\<close> objects live in a heap, where a pointer is a number. The kernel is the list of what
  \<open>epoll_ctl\<close> will answer and the interest list its calls have built: for each descriptor the events and
  the pointer it was given. Handlers are pointers to functions of the program, of any type \<open>'h\<close>.
\<close>

section \<open>State\<close>

definition EV_NONE :: u32 where "EV_NONE = 0"
definition EV_READ :: u32 where "EV_READ = push_bit 0 1"
definition EV_WRITE :: u32 where "EV_WRITE = push_bit 1 1"

text \<open>The constants of \<open><sys/epoll.h>\<close>.\<close>

definition EPOLLIN :: u32 where "EPOLLIN = 1"
definition EPOLLPRI :: u32 where "EPOLLPRI = 2"
definition EPOLLOUT :: u32 where "EPOLLOUT = 4"
definition EPOLLERR :: u32 where "EPOLLERR = 8"
definition EPOLLHUP :: u32 where "EPOLLHUP = 16"

lemmas epoll_constants = EV_NONE_def EV_READ_def EV_WRITE_def EPOLLIN_def EPOLLPRI_def EPOLLOUT_def EPOLLERR_def EPOLLHUP_def

record 'h epoll_event =
  ev_fd :: int
  ev_deleted :: bool
  ev_read :: "'h option"
  ev_write :: "'h option"
  ev_events :: u32

record 'h dispatcher =
  dp_poll_fd :: int
  dp_heap :: "'h epoll_event list"        \<comment> \<open>the objects, a pointer is an index\<close>
  dp_fd_events :: "int \<Rightarrow> nat option"
  dp_deletions :: "nat list"
  dp_interest :: "int \<Rightarrow> (u32 \<times> nat) option"
  dp_ctl :: "bool list"                   \<comment> \<open>what \<open>epoll_ctl\<close> will answer\<close>

definition Dispatcher_new :: "bool list \<Rightarrow> 'h dispatcher" where
  "Dispatcher_new answers = \<lparr>dp_poll_fd = -1, dp_heap = [], dp_fd_events = (\<lambda>_. None), dp_deletions = [],
     dp_interest = (\<lambda>_. None), dp_ctl = answers\<rparr>"

definition Dispatcher_Init :: "int \<Rightarrow> 'h dispatcher \<Rightarrow> bool \<times> 'h dispatcher" where
  "Dispatcher_Init epoll_create d = (0 \<le> epoll_create, d\<lparr>dp_poll_fd := epoll_create\<rparr>)"

text \<open>\<open>epoll_ctl\<close>: a change of the interest list, when it is successful.\<close>

definition epoll_ctl :: "int \<Rightarrow> (u32 \<times> nat) option \<Rightarrow> 'h dispatcher \<Rightarrow> bool \<times> 'h dispatcher" where
  "epoll_ctl fd entry d =
     (case dp_ctl d of
        True # answers \<Rightarrow> (True, d\<lparr>dp_interest := (dp_interest d)(fd := entry), dp_ctl := answers\<rparr>)
      | _ # answers \<Rightarrow> (False, d\<lparr>dp_ctl := answers\<rparr>)
      | [] \<Rightarrow> (False, d))"

section \<open>Operations\<close>

definition AddFd :: "int \<Rightarrow> u32 \<Rightarrow> 'h option \<Rightarrow> 'h option \<Rightarrow> 'h dispatcher \<Rightarrow> (bool \<times> 'h dispatcher) option" where
  "AddFd fd events readh writeh d = do {
     fatal_unless (0 \<le> dp_poll_fd d);
     let e = (if events AND EV_READ \<noteq> 0 then EPOLLIN else 0);
     let e = (if events AND EV_WRITE \<noteq> 0 then e OR EPOLLOUT else e);
     let p = length (dp_heap d);
     let data = \<lparr>ev_fd = fd, ev_deleted = False, ev_read = readh, ev_write = writeh, ev_events = e\<rparr>;
     let d = d\<lparr>dp_heap := dp_heap d @ [data]\<rparr>;
     let (ok, d) = epoll_ctl fd (Some (e, p)) d;
     (if \<not> ok then Some (False, d)
      else Some (True, d\<lparr>dp_fd_events := (dp_fd_events d)(fd := Some p)\<rparr>))
   }"

text \<open>The object of a failed \<open>AddFd\<close> is freed by its \<open>auto_ptr\<close>; here it stays in the heap, where nothing refers to it.\<close>

definition DeleteLater :: "nat \<Rightarrow> 'h dispatcher \<Rightarrow> 'h dispatcher" where
  "DeleteLater p d = d\<lparr>dp_deletions := dp_deletions d @ [p]\<rparr>"

definition DelFd :: "int \<Rightarrow> 'h dispatcher \<Rightarrow> (bool \<times> 'h dispatcher) option" where
  "DelFd fd d = do {
     fatal_unless (0 \<le> dp_poll_fd d);
     (case dp_fd_events d fd of
        None \<Rightarrow> Some (True, d)
      | Some p \<Rightarrow>
          (let d = d\<lparr>dp_heap := (dp_heap d)[p := (dp_heap d ! p)\<lparr>ev_deleted := True\<rparr>]\<rparr>;
               d = d\<lparr>dp_fd_events := (dp_fd_events d)(fd := None)\<rparr>;
               d = DeleteLater p d
           in Some (epoll_ctl fd None d)))
   }"

definition GetFd :: "int \<Rightarrow> 'h dispatcher \<Rightarrow> (bool \<times> 'h dispatcher) option" where
  "GetFd fd d = None"

definition changed_event :: "u32 \<Rightarrow> u32 \<Rightarrow> 'h option \<Rightarrow> 'h option \<Rightarrow> 'h epoll_event \<Rightarrow> 'h epoll_event" where
  "changed_event on clear readh writeh data =
     (let data = (if on AND EV_READ \<noteq> 0 then data\<lparr>ev_read := readh, ev_events := ev_events data OR EPOLLIN\<rparr> else data);
          data = (if on AND EV_WRITE \<noteq> 0 then data\<lparr>ev_write := writeh, ev_events := ev_events data OR EPOLLOUT\<rparr> else data);
          data = (if clear AND EV_READ \<noteq> 0 then data\<lparr>ev_events := ev_events data AND NOT EPOLLIN\<rparr> else data)
      in if clear AND EV_WRITE \<noteq> 0 then data\<lparr>ev_events := ev_events data AND NOT EPOLLOUT\<rparr> else data)"

definition ModFd ::
    "int \<Rightarrow> u32 \<Rightarrow> u32 \<Rightarrow> nat \<Rightarrow> 'h option \<Rightarrow> 'h option \<Rightarrow> 'h dispatcher \<Rightarrow> (bool \<times> 'h dispatcher) option" where
  "ModFd fd on clear p readh writeh d = do {
     fatal_unless (0 \<le> dp_poll_fd d);
     let events = ev_events (dp_heap d ! p);
     let data = changed_event on clear readh writeh (dp_heap d ! p);
     let d = d\<lparr>dp_heap := (dp_heap d)[p := data]\<rparr>;
     (if events = ev_events data then Some (True, d)
      else (let (ok, d) = epoll_ctl fd (Some (ev_events data, p)) d
            in if \<not> ok then Some (False, d\<lparr>dp_heap := (dp_heap d)[p := data\<lparr>ev_events := events\<rparr>]\<rparr>)
               else Some (True, d)))
   }"

definition SetFd ::
    "int \<Rightarrow> u32 \<Rightarrow> u32 \<Rightarrow> 'h option \<Rightarrow> 'h option \<Rightarrow> 'h dispatcher \<Rightarrow> (bool \<times> 'h dispatcher) option" where
  "SetFd fd on clear readh writeh d = do {
     fatal_unless (0 \<le> dp_poll_fd d);
     (case dp_fd_events d fd of
        None \<Rightarrow> AddFd fd on readh writeh d
      | Some p \<Rightarrow> ModFd fd on clear p readh writeh d)
   }"

section \<open>The loop\<close>

text \<open>
  \<open>delete *it\<close> runs the destructor of the \<open>Holder\<close>, which is empty: \<open>TypedHolder::Delete\<close>, which would free
  the object, is never called. So all that happens at the start of a round is that the list is cleared.
\<close>

definition run_deletions :: "'h dispatcher \<Rightarrow> 'h dispatcher" where
  "run_deletions d = d\<lparr>dp_deletions := []\<rparr>"

text \<open>
  A handler changes the state \<open>'s\<close> of the whole program, of which the dispatcher is a part. A pointer to
  a handler that is null is called like any other.
\<close>

definition handle_event ::
    "('s \<Rightarrow> 'h dispatcher) \<Rightarrow> ('h \<Rightarrow> 's \<Rightarrow> 's option) \<Rightarrow> u32 \<times> nat \<Rightarrow> 's \<Rightarrow> 's option" where
  "handle_event dispatcher_of call e s =
     (case e of (events, p) \<Rightarrow>
        (if ev_deleted (dp_heap (dispatcher_of s) ! p) then Some s
         else do {
           s \<leftarrow> (if events AND (EPOLLIN OR EPOLLPRI OR EPOLLERR OR EPOLLHUP) \<noteq> 0
                then do { h \<leftarrow> ev_read (dp_heap (dispatcher_of s) ! p); call h s } else Some s);
           (if events AND EPOLLOUT \<noteq> 0
            then do { h \<leftarrow> ev_write (dp_heap (dispatcher_of s) ! p); call h s } else Some s)
         }))"

fun handle_events ::
    "('s \<Rightarrow> 'h dispatcher) \<Rightarrow> ('h \<Rightarrow> 's \<Rightarrow> 's option) \<Rightarrow> (u32 \<times> nat) list \<Rightarrow> 's \<Rightarrow> 's option" where
  "handle_events dispatcher_of call [] s = Some s"
| "handle_events dispatcher_of call (e # es) s = do {
     s \<leftarrow> handle_event dispatcher_of call e s;
     handle_events dispatcher_of call es s
   }"

text \<open>One round of \<open>Start\<close>, given what \<open>epoll_wait\<close> returns (\<open>None\<close> for its error) and what the scheduler does.\<close>

definition dispatch_round ::
    "('s \<Rightarrow> 'h dispatcher) \<Rightarrow> (('h dispatcher \<Rightarrow> 'h dispatcher) \<Rightarrow> 's \<Rightarrow> 's) \<Rightarrow> ('h \<Rightarrow> 's \<Rightarrow> 's option) \<Rightarrow>
     ('s \<Rightarrow> 's option) \<Rightarrow> (u32 \<times> nat) list option \<Rightarrow> 's \<Rightarrow> 's option" where
  "dispatch_round dispatcher_of update call scheduled found s = do {
     fatal_unless (0 \<le> dp_poll_fd (dispatcher_of s));
     let s = update run_deletions s;
     (case found of
        None \<Rightarrow> Some s
      | Some events \<Rightarrow> do { s \<leftarrow> scheduled s; handle_events dispatcher_of call events s })
   }"

section \<open>The invariant\<close>

text \<open>
  Each descriptor of the table has an object of its own that is not deleted, and the kernel waits for
  exactly the events the object says. An object that a deletion is pending for is not in the table.
\<close>

definition dispatcher_inv :: "'h dispatcher \<Rightarrow> bool" where
  "dispatcher_inv d \<longleftrightarrow>
     (\<forall>fd p. dp_fd_events d fd = Some p \<longrightarrow> p < length (dp_heap d) \<and> \<not> ev_deleted (dp_heap d ! p) \<and>
        ev_fd (dp_heap d ! p) = fd \<and> dp_interest d fd = Some (ev_events (dp_heap d ! p), p)) \<and>
     list_all (\<lambda>p. p < length (dp_heap d) \<and> ev_deleted (dp_heap d ! p)) (dp_deletions d)"

lemma dispatcher_inv_new: "dispatcher_inv (Dispatcher_new answers)"
  by (simp add: dispatcher_inv_def Dispatcher_new_def)

lemma dispatcher_invD:
  assumes "dispatcher_inv d" "dp_fd_events d fd = Some p"
  shows "p < length (dp_heap d)" "\<not> ev_deleted (dp_heap d ! p)" "ev_fd (dp_heap d ! p) = fd"
    "dp_interest d fd = Some (ev_events (dp_heap d ! p), p)"
  using assms by (simp_all add: dispatcher_inv_def)

lemma epoll_ctl_result:
  assumes "epoll_ctl fd entry d = (ok, d')"
  shows "dp_heap d' = dp_heap d" "dp_fd_events d' = dp_fd_events d" "dp_deletions d' = dp_deletions d"
    "dp_poll_fd d' = dp_poll_fd d" "dp_interest d' = (if ok then (dp_interest d)(fd := entry) else dp_interest d)"
  using assms by (auto simp: epoll_ctl_def split: list.splits bool.splits)

lemma changed_event_keeps [simp]:
  "ev_fd (changed_event on clear readh writeh e) = ev_fd e"
  "ev_deleted (changed_event on clear readh writeh e) = ev_deleted e"
  by (simp_all add: changed_event_def Let_def)

lemma own_object:
  assumes "dispatcher_inv d" "dp_fd_events d fd = Some p" "dp_fd_events d fd' = Some p'" "fd' \<noteq> fd"
  shows "p' \<noteq> p"
  using dispatcher_invD(3) [OF assms(1)] assms(2-4) by metis

lemma AddFd_inv:
  assumes inv: "dispatcher_inv d" and add: "AddFd fd events readh writeh d = Some (ok, d')"
  shows "dispatcher_inv d'" "dp_poll_fd d' = dp_poll_fd d"
proof -
  obtain e d1 where d1: "epoll_ctl fd (Some (e, length (dp_heap d)))
      (d\<lparr>dp_heap := dp_heap d @ [\<lparr>ev_fd = fd, ev_deleted = False, ev_read = readh, ev_write = writeh, ev_events = e\<rparr>]\<rparr>) = (ok, d1)"
    "d' = (if ok then d1\<lparr>dp_fd_events := (dp_fd_events d1)(fd := Some (length (dp_heap d)))\<rparr> else d1)"
    using add by (auto simp: AddFd_def Let_def split: bind_splits prod.splits if_splits)
  with inv show "dispatcher_inv d'"
    by (auto simp: dispatcher_inv_def epoll_ctl_result [OF d1(1)] nth_append list_all_iff intro: less_SucI)
  show "dp_poll_fd d' = dp_poll_fd d" using d1 by (simp add: epoll_ctl_result [OF d1(1)])
qed

lemma DelFd_known:
  assumes "DelFd fd d = Some (ok, d')" "dp_fd_events d fd = Some p"
  shows "epoll_ctl fd None (d\<lparr>dp_heap := (dp_heap d)[p := (dp_heap d ! p)\<lparr>ev_deleted := True\<rparr>],
    dp_fd_events := (dp_fd_events d)(fd := None), dp_deletions := dp_deletions d @ [p]\<rparr>) = (ok, d')"
  using assms by (auto simp: DelFd_def DeleteLater_def Let_def split: bind_splits)

lemma ModFd_cases:
  assumes "ModFd fd on clear p readh writeh d = Some (ok, d')"
  obtains (same) data where "data = changed_event on clear readh writeh (dp_heap d ! p)"
      "ev_events data = ev_events (dp_heap d ! p)" "d' = d\<lparr>dp_heap := (dp_heap d)[p := data]\<rparr>"
    | (ctl) data d1 where "data = changed_event on clear readh writeh (dp_heap d ! p)"
      "epoll_ctl fd (Some (ev_events data, p)) (d\<lparr>dp_heap := (dp_heap d)[p := data]\<rparr>) = (ok, d1)"
      "d' = (if ok then d1 else d1\<lparr>dp_heap := (dp_heap d1)[p := data\<lparr>ev_events := ev_events (dp_heap d ! p)\<rparr>]\<rparr>)"
  using assms by (auto simp: ModFd_def Let_def split: bind_splits prod.splits if_splits)

lemma DelFd_inv:
  assumes inv: "dispatcher_inv d" and del: "DelFd fd d = Some (ok, d')"
  shows "dispatcher_inv d'" "dp_poll_fd d' = dp_poll_fd d" "dp_fd_events d' = (dp_fd_events d)(fd := None)"
proof -
  show "dispatcher_inv d'"
  proof (cases "dp_fd_events d fd")
    case None
    with del inv show ?thesis by (auto simp: DelFd_def split: bind_splits)
  next
    case (Some p)
    show ?thesis using inv Some own_object [OF inv Some]
      by (auto simp: dispatcher_inv_def epoll_ctl_result [OF DelFd_known [OF del Some]] nth_list_update list_all_iff)
  qed
  show "dp_poll_fd d' = dp_poll_fd d" "dp_fd_events d' = (dp_fd_events d)(fd := None)"
    using del by (auto simp: DelFd_def DeleteLater_def epoll_ctl_def Let_def split: bind_splits option.splits list.splits bool.splits)
qed

lemma ModFd_inv:
  assumes inv: "dispatcher_inv d" and p: "dp_fd_events d fd = Some p"
    and change: "ModFd fd on clear p readh writeh d = Some (ok, d')"
  shows "dispatcher_inv d'" "dp_poll_fd d' = dp_poll_fd d" "dp_fd_events d' = dp_fd_events d"
proof -
  have facts: "p < length (dp_heap d)" "\<not> ev_deleted (dp_heap d ! p)" "ev_fd (dp_heap d ! p) = fd"
    using dispatcher_invD [OF inv p] by simp_all
  have "dispatcher_inv d' \<and> dp_poll_fd d' = dp_poll_fd d \<and> dp_fd_events d' = dp_fd_events d"
    using change
  proof (cases rule: ModFd_cases)
    case same
    with inv p facts own_object [OF inv p] show ?thesis
      by (auto simp: dispatcher_inv_def nth_list_update list_all_iff)
  next
    case ctl
    from inv p facts own_object [OF inv p] show ?thesis
      by (auto simp: dispatcher_inv_def ctl(1,3) epoll_ctl_result [OF ctl(2)] nth_list_update list_all_iff)
  qed
  then show "dispatcher_inv d'" "dp_poll_fd d' = dp_poll_fd d" "dp_fd_events d' = dp_fd_events d" by simp_all
qed

lemma SetFd_inv:
  assumes "dispatcher_inv d" "SetFd fd on clear readh writeh d = Some (ok, d')"
  shows "dispatcher_inv d'" "dp_poll_fd d' = dp_poll_fd d"
  using assms AddFd_inv [OF assms(1)] ModFd_inv [OF assms(1)]
  by (auto simp: SetFd_def split: bind_splits option.splits)

section \<open>What the program can do\<close>

inductive dispatcher_step :: "'h dispatcher \<Rightarrow> 'h dispatcher \<Rightarrow> bool" where
  add: "AddFd fd events readh writeh d = Some (ok, d') \<Longrightarrow> dispatcher_step d d'"
| change: "SetFd fd on clear readh writeh d = Some (ok, d') \<Longrightarrow> dispatcher_step d d'"
| remove: "DelFd fd d = Some (ok, d') \<Longrightarrow> dispatcher_step d d'"
| round: "dispatcher_step d (run_deletions d)"

inductive dispatcher_runs :: "'h dispatcher \<Rightarrow> 'h dispatcher \<Rightarrow> bool" where
  stop: "dispatcher_runs d d"
| go: "dispatcher_runs d d' \<Longrightarrow> dispatcher_step d' d'' \<Longrightarrow> dispatcher_runs d d''"

lemma dispatcher_step_inv: "dispatcher_step d d' \<Longrightarrow> dispatcher_inv d \<Longrightarrow> dispatcher_inv d'"
proof (induction rule: dispatcher_step.induct)
  case (round d)
  then show ?case by (simp add: run_deletions_def dispatcher_inv_def)
qed (blast intro: AddFd_inv(1) SetFd_inv(1) DelFd_inv(1))+

lemma dispatcher_runs_inv: "dispatcher_runs d d' \<Longrightarrow> dispatcher_inv d \<Longrightarrow> dispatcher_inv d'"
  by (induction rule: dispatcher_runs.induct) (auto intro: dispatcher_step_inv)

definition event_deleted :: "'h dispatcher \<Rightarrow> nat \<Rightarrow> bool" where
  "event_deleted d p \<longleftrightarrow> p < length (dp_heap d) \<and> ev_deleted (dp_heap d ! p)"

lemma AddFd_deleted:
  assumes "AddFd fd events readh writeh d = Some (ok, d')" "event_deleted d p"
  shows "event_deleted d' p"
  using assms
  by (auto simp: AddFd_def event_deleted_def epoll_ctl_def Let_def nth_append split: bind_splits list.splits bool.splits)

lemma ModFd_deleted:
  assumes "ModFd fd on clear q readh writeh d = Some (ok, d')" "event_deleted d p"
  shows "event_deleted d' p"
  using assms(1)
proof (cases rule: ModFd_cases)
  case same
  with assms(2) show ?thesis by (cases "q = p") (auto simp: event_deleted_def)
next
  case ctl
  from assms(2) show ?thesis by (cases "q = p") (auto simp: event_deleted_def ctl(1,3) epoll_ctl_result [OF ctl(2)])
qed

lemma DelFd_deletes:
  assumes "DelFd fd d = Some (ok, d')"
  shows "event_deleted d p \<Longrightarrow> event_deleted d' p"
    and "dispatcher_inv d \<Longrightarrow> dp_fd_events d fd = Some p \<Longrightarrow> event_deleted d' p"
proof -
  show "event_deleted d' p" if "event_deleted d p"
  proof (cases "dp_fd_events d fd")
    case None
    with assms that show ?thesis by (auto simp: DelFd_def split: bind_splits)
  next
    case (Some q)
    with that show ?thesis
      by (cases "q = p") (auto simp: event_deleted_def epoll_ctl_result [OF DelFd_known [OF assms Some]])
  qed
  show "event_deleted d' p" if "dispatcher_inv d" "dp_fd_events d fd = Some p"
    using dispatcher_invD(1) [OF that] by (simp add: event_deleted_def epoll_ctl_result [OF DelFd_known [OF assms that(2)]])
qed

lemma dispatcher_step_deleted: "dispatcher_step d d' \<Longrightarrow> event_deleted d p \<Longrightarrow> event_deleted d' p"
proof (induction rule: dispatcher_step.induct)
  case (change fd on clear readh writeh d ok d')
  then show ?case
    by (auto simp: SetFd_def split: bind_splits option.splits intro: AddFd_deleted ModFd_deleted)
next
  case (round d)
  then show ?case by (simp add: run_deletions_def event_deleted_def)
qed (blast intro: AddFd_deleted DelFd_deletes(1))+

lemma dispatcher_runs_deleted: "dispatcher_runs d d' \<Longrightarrow> event_deleted d p \<Longrightarrow> event_deleted d' p"
  by (induction rule: dispatcher_runs.induct) (auto intro: dispatcher_step_deleted)

section \<open>Properties\<close>

text \<open>C9. Whatever the program does with the dispatcher and whatever the kernel answers, every descriptor of
  the table has a live object of its own, and the kernel waits for exactly the events the object says.\<close>

theorem dispatcher_and_kernel_agree:
  assumes "dispatcher_runs (snd (Dispatcher_Init fd0 (Dispatcher_new answers))) d" "dp_fd_events d fd = Some p"
  shows "p < length (dp_heap d) \<and> \<not> ev_deleted (dp_heap d ! p) \<and> ev_fd (dp_heap d ! p) = fd \<and>
    dp_interest d fd = Some (ev_events (dp_heap d ! p), p)"
proof -
  have "dispatcher_inv (snd (Dispatcher_Init fd0 (Dispatcher_new answers)))"
    using dispatcher_inv_new by (simp add: dispatcher_inv_def Dispatcher_Init_def)
  from dispatcher_runs_inv [OF assms(1) this] assms(2) show ?thesis by (simp add: dispatcher_inv_def)
qed

theorem dispatcher_and_kernel_agree_witness:
  "dp_interest (snd (the (AddFd 7 EV_READ (Some ()) None (snd (Dispatcher_Init 3 (Dispatcher_new [True])))))) 7 = Some (EPOLLIN, 0)"
proof -
  let ?d = "snd (Dispatcher_Init 3 (Dispatcher_new [True]))" let ?d' = "snd (the (AddFd 7 EV_READ (Some ()) None ?d))"
  have add: "AddFd 7 EV_READ (Some ()) None ?d = Some (True, ?d')" "dp_fd_events ?d' 7 = Some 0"
    "ev_events (dp_heap ?d' ! 0) = EPOLLIN"
    by (simp_all add: AddFd_def Dispatcher_Init_def Dispatcher_new_def epoll_ctl_def epoll_constants Let_def)
  then have "dispatcher_runs ?d ?d'" by (blast intro: dispatcher_runs.intros dispatcher_step.add)
  from dispatcher_and_kernel_agree [OF this add(2)] add(3) show ?thesis by simp
qed

text \<open>C28. Once a descriptor has been removed, no event the kernel had already reported for it is delivered,
  in this round or any other, although its object still exists.\<close>

theorem no_event_after_DelFd:
  assumes "dispatcher_runs (snd (Dispatcher_Init fd0 (Dispatcher_new answers))) d" "dp_fd_events d fd = Some p"
    "DelFd fd d = Some (ok, d')" "dispatcher_runs d' (dispatcher_of s)"
  shows "handle_event dispatcher_of call (events, p) s = Some s"
proof -
  have "dispatcher_inv (snd (Dispatcher_Init fd0 (Dispatcher_new answers)))"
    using dispatcher_inv_new by (simp add: dispatcher_inv_def Dispatcher_Init_def)
  from DelFd_deletes(2) [OF assms(3) dispatcher_runs_inv [OF assms(1) this] assms(2)]
  have "event_deleted (dispatcher_of s) p" by (rule dispatcher_runs_deleted [OF assms(4)])
  then show ?thesis by (simp add: handle_event_def event_deleted_def)
qed

lemma one_reader:
  "AddFd 7 EV_READ (Some ()) None (snd (Dispatcher_Init 3 (Dispatcher_new [True, True]))) = Some (True,
    \<lparr>dp_poll_fd = 3, dp_heap = [\<lparr>ev_fd = 7, ev_deleted = False, ev_read = Some (), ev_write = None, ev_events = 1\<rparr>],
      dp_fd_events = [7 \<mapsto> 0], dp_deletions = [], dp_interest = [7 \<mapsto> (1, 0)], dp_ctl = [True]\<rparr>)"
  by (simp add: AddFd_def Dispatcher_Init_def Dispatcher_new_def epoll_ctl_def epoll_constants Let_def)

theorem no_event_after_DelFd_witness:
  "\<exists>d d'. AddFd 7 EV_READ (Some ()) None (snd (Dispatcher_Init 3 (Dispatcher_new [True, True]))) = Some (True, d) \<and>
    DelFd 7 d = Some (True, d') \<and> handle_event (\<lambda>d. d) (\<lambda>h d. None) (EPOLLIN, 0) d' = Some d'"
proof -
  let ?d = "snd (the (AddFd 7 EV_READ (Some ()) None (snd (Dispatcher_Init 3 (Dispatcher_new [True, True])))))"
  let ?d' = "snd (the (DelFd 7 ?d))"
  have runs: "dispatcher_runs (snd (Dispatcher_Init 3 (Dispatcher_new [True, True]))) ?d"
    using one_reader by (simp, blast intro: dispatcher_runs.intros dispatcher_step.add)
  have table: "dp_fd_events ?d 7 = Some 0" by (simp add: one_reader)
  have del: "DelFd 7 ?d = Some (True, ?d')" by (simp add: one_reader DelFd_def DeleteLater_def epoll_ctl_def)
  show ?thesis
  proof (intro exI conjI)
    show "AddFd 7 EV_READ (Some ()) None (snd (Dispatcher_Init 3 (Dispatcher_new [True, True]))) = Some (True, ?d)"
      by (simp add: one_reader)
    show "DelFd 7 ?d = Some (True, ?d')" by (rule del)
    show "handle_event (\<lambda>d. d) (\<lambda>h d. None) (EPOLLIN, 0) ?d' = Some ?d'"
      by (rule no_event_after_DelFd [where dispatcher_of = "\<lambda>d. d", OF runs table del]) (rule dispatcher_runs.stop)
  qed
qed

text \<open>But the handlers of one event are not checked one by one: after a read handler that removed the
  descriptor its write handler is still called, and a hang-up calls a read handler that was never set.\<close>

lemma write_handler_runs_after_removal:
  assumes "\<not> ev_deleted (dp_heap (dispatcher_of s) ! p)" "ev_read (dp_heap (dispatcher_of s) ! p) = Some h" "call h s = Some s'"
    "ev_write (dp_heap (dispatcher_of s') ! p) = Some w" "ev_deleted (dp_heap (dispatcher_of s') ! p)"
  shows "handle_event dispatcher_of call (EPOLLIN OR EPOLLOUT, p) s = call w s'"
  using assms by (simp add: handle_event_def epoll_constants)

lemma hangup_calls_null:
  assumes "\<not> ev_deleted (dp_heap (dispatcher_of s) ! p)" "ev_read (dp_heap (dispatcher_of s) ! p) = None"
  shows "handle_event dispatcher_of call (EPOLLHUP, p) s = None"
  using assms by (simp add: handle_event_def epoll_constants)

end
