(* ===== verification/SocketTransport.thy ===== *)
theory SocketTransport
  imports PacketQueues Dispatcher "HOL-Library.Sublist"
begin

text \<open>
  \<open>src/src/socket-transport.h\<close> and \<open>.cc\<close>, with \<open>ScopedFd\<close> of \<open>src/src/fd-helpers.h\<close>: sockets as channels.

  The kernel is the list of what each system call will answer, with a record of what was sent and which
  descriptors were closed. A call that no answer is left for does not return. The objects live in a heap
  where a pointer is a number. The rest of the program is the extension of the record \<open>net\<close>.
\<close>

section \<open>The kernel\<close>

text \<open>\<open>EWOULDBLOCK\<close> is \<open>EAGAIN\<close> on Linux.\<close>

datatype errno = EAGAIN | EPIPE | Errno nat

datatype syscall =
    Sys_socket bytes bool               \<comment> \<open>the family, and whether it is a stream\<close>
  | Sys_setsockopt int string
  | Sys_connect int bytes
  | Sys_bind int bytes
  | Sys_listen int nat
  | Sys_sendmsg int "sockaddr option" bytes
  | Sys_close int

record kernel =
  kn_socket :: "int list"
  kn_connect :: "bool list"
  kn_bind :: "bool list"
  kn_listen :: "bool list"
  kn_accept :: "(errno + int \<times> bytes \<times> nat) list"
  kn_sendmsg :: "(errno + nat) list"
  kn_recvfrom :: "(errno + bytes \<times> bytes \<times> nat) list"
  kn_log :: "syscall list"

fun answer :: "'a list \<Rightarrow> ('a \<times> 'a list) option" where
  "answer [] = None"
| "answer (a # as) = Some (a, as)"

text \<open>The loops that call again after \<open>EAGAIN\<close>.\<close>

fun retry :: "(errno + 'a) list \<Rightarrow> ((errno + 'a) \<times> (errno + 'a) list) option" where
  "retry [] = None"
| "retry (a # as) = (case a of Inl EAGAIN \<Rightarrow> retry as | _ \<Rightarrow> Some (a, as))"

section \<open>Sockets\<close>

text \<open>The handlers a socket gives to the dispatcher are bound to it, as are those of a tunnel.\<close>

datatype handler = Read_handler nat | Write_handler nat | Tunnel_read_handler nat | Tunnel_write_handler nat

datatype 'c socket = Socket
  (sk_fd: int) (sk_read_callback: "'c option") (sk_write_callback: "'c option")
  (sk_pending_writes: int) (sk_pending_reads: int)

record 'c net =
  nt_sockets :: "'c socket list"
  nt_dispatcher :: "handler dispatcher"
  nt_kernel :: kernel

definition Socket_new :: "int \<Rightarrow> 'c socket" where
  "Socket_new fd = Socket fd None None 0 0"

definition new_socket :: "int \<Rightarrow> ('c, 'e) net_scheme \<Rightarrow> nat \<times> ('c, 'e) net_scheme" where
  "new_socket fd n = (length (nt_sockets n), n\<lparr>nt_sockets := nt_sockets n @ [Socket_new fd]\<rparr>)"

definition set_socket :: "nat \<Rightarrow> 'c socket \<Rightarrow> ('c, 'e) net_scheme \<Rightarrow> ('c, 'e) net_scheme" where
  "set_socket p sk n = n\<lparr>nt_sockets := (nt_sockets n)[p := sk]\<rparr>"

definition sys :: "syscall \<Rightarrow> ('c, 'e) net_scheme \<Rightarrow> ('c, 'e) net_scheme" where
  "sys c n = n\<lparr>nt_kernel := (nt_kernel n)\<lparr>kn_log := kn_log (nt_kernel n) @ [c]\<rparr>\<rparr>"

definition close_fd :: "int \<Rightarrow> ('c, 'e) net_scheme \<Rightarrow> ('c, 'e) net_scheme" where
  "close_fd fd n = sys (Sys_close fd) n"

text \<open>A call of the dispatcher, whose result is ignored.\<close>

definition dispatch ::
    "(handler dispatcher \<Rightarrow> (bool \<times> handler dispatcher) option) \<Rightarrow> ('c, 'e) net_scheme \<Rightarrow> ('c, 'e) net_scheme option" where
  "dispatch f n = do { (_, d) \<leftarrow> f (nt_dispatcher n); Some (n\<lparr>nt_dispatcher := d\<rparr>) }"

text \<open>\<open>++\<close> of an \<open>int\<close> has no result past its maximum.\<close>

definition increment :: "int \<Rightarrow> int option" where
  "increment i = (if i < 2 ^ 31 - 1 then Some (i + 1) else None)"

definition Socket_SetFd :: "nat \<Rightarrow> int \<Rightarrow> ('c, 'e) net_scheme \<Rightarrow> ('c, 'e) net_scheme option" where
  "Socket_SetFd p fd n = do {
     let old = sk_fd (nt_sockets n ! p);
     n \<leftarrow> (if 0 \<le> old \<and> old \<noteq> fd
           then do { n \<leftarrow> dispatch (DelFd old) n; Some (close_fd old n) } else Some n);
     let n = set_socket p (case nt_sockets n ! p of Socket _ r w pw pr \<Rightarrow> Socket fd r w pw pr) n;
     (if fd < 0 then Some n
      else do {
        n \<leftarrow> (if sk_pending_reads (nt_sockets n ! p) \<noteq> 0
              then dispatch (SetFd fd EV_READ EV_NONE (Some (Read_handler p)) None) n else Some n);
        (if sk_pending_writes (nt_sockets n ! p) \<noteq> 0
         then dispatch (SetFd fd EV_WRITE EV_NONE None (Some (Write_handler p))) n else Some n)
      })
   }"

definition Socket_Close :: "nat \<Rightarrow> ('c, 'e) net_scheme \<Rightarrow> ('c, 'e) net_scheme option" where
  "Socket_Close p n = Socket_SetFd p (- 1) n"

definition WantRead :: "nat \<Rightarrow> 'c option \<Rightarrow> ('c, 'e) net_scheme \<Rightarrow> ('c, 'e) net_scheme option" where
  "WantRead p callback n =
     (case nt_sockets n ! p of Socket fd r w pw pr \<Rightarrow> do {
        let r = (case callback of None \<Rightarrow> r | Some c \<Rightarrow> Some c);
        n \<leftarrow> (if pr = 0 then dispatch (SetFd fd EV_READ EV_NONE (Some (Read_handler p)) None) n else Some n);
        pr \<leftarrow> increment pr;
        Some (set_socket p (Socket fd r w pw pr) n)
      })"

definition WantWrite :: "nat \<Rightarrow> 'c option \<Rightarrow> ('c, 'e) net_scheme \<Rightarrow> ('c, 'e) net_scheme option" where
  "WantWrite p callback n =
     (case nt_sockets n ! p of Socket fd r w pw pr \<Rightarrow> do {
        let w = (case callback of None \<Rightarrow> w | Some c \<Rightarrow> Some c);
        n \<leftarrow> (if pw = 0 then dispatch (SetFd fd EV_WRITE EV_NONE None (Some (Write_handler p))) n else Some n);
        pw \<leftarrow> increment pw;
        Some (set_socket p (Socket fd r w pw pr) n)
      })"

text \<open>A callback changes the whole program, this socket included; \<open>call\<close> runs it.\<close>

definition call_back ::
    "('c \<Rightarrow> ('c, 'e) net_scheme \<Rightarrow> (processing_state \<times> ('c, 'e) net_scheme) option) \<Rightarrow> 'c option \<Rightarrow>
     ('c, 'e) net_scheme \<Rightarrow> (processing_state \<times> ('c, 'e) net_scheme) option" where
  "call_back call callback n = (case callback of None \<Rightarrow> Some (DONE, n) | Some c \<Rightarrow> call c n)"

definition stop_reading :: "nat \<Rightarrow> ('c, 'e) net_scheme \<Rightarrow> ('c, 'e) net_scheme option" where
  "stop_reading p n =
     (case nt_sockets n ! p of Socket fd r w pw pr \<Rightarrow>
        dispatch (SetFd fd EV_NONE EV_READ None None) (set_socket p (Socket fd r w pw 0) n))"

definition stop_writing :: "nat \<Rightarrow> ('c, 'e) net_scheme \<Rightarrow> ('c, 'e) net_scheme option" where
  "stop_writing p n =
     (case nt_sockets n ! p of Socket fd r w pw pr \<Rightarrow>
        dispatch (SetFd fd EV_NONE EV_WRITE None None) (set_socket p (Socket fd r w 0 pr) n))"

definition Socket_HandleRead ::
    "('c \<Rightarrow> ('c, 'e) net_scheme \<Rightarrow> (processing_state \<times> ('c, 'e) net_scheme) option) \<Rightarrow> nat \<Rightarrow>
     ('c, 'e) net_scheme \<Rightarrow> ('c, 'e) net_scheme option" where
  "Socket_HandleRead call p n = do {
     (status, n) \<leftarrow> call_back call (sk_read_callback (nt_sockets n ! p)) n;
     (case status of MORE \<Rightarrow> Some n | DONE \<Rightarrow> stop_reading p n)
   }"

definition Socket_HandleWrite ::
    "('c \<Rightarrow> ('c, 'e) net_scheme \<Rightarrow> (processing_state \<times> ('c, 'e) net_scheme) option) \<Rightarrow> nat \<Rightarrow>
     ('c, 'e) net_scheme \<Rightarrow> ('c, 'e) net_scheme option" where
  "Socket_HandleWrite call p n = do {
     (status, n) \<leftarrow> call_back call (sk_write_callback (nt_sockets n ! p)) n;
     (case status of MORE \<Rightarrow> Some n | DONE \<Rightarrow> stop_writing p n)
   }"

section \<open>Transfers\<close>

text \<open>\<open>sendmsg\<close> takes a number of the bytes of the vector: those are what leaves the machine.\<close>

definition Socket_Write ::
    "nat \<Rightarrow> sockaddr option \<Rightarrow> reader \<Rightarrow> ('c, 'e) net_scheme \<Rightarrow> (io_result \<times> reader \<times> ('c, 'e) net_scheme) option" where
  "Socket_Write p remote r n = do {
     (vect, bytes) \<leftarrow> oc_iovec (fst r) (snd r);
     let k = nt_kernel n;
     (written, answers) \<leftarrow> retry (kn_sendmsg k);
     (case written of
        Inl e \<Rightarrow> Some (if e = EPIPE then CLOSED else ERROR, r, n\<lparr>nt_kernel := k\<lparr>kn_sendmsg := answers\<rparr>\<rparr>)
      | Inr w \<Rightarrow> do {
          let n = sys (Sys_sendmsg (sk_fd (nt_sockets n ! p)) remote (take w (concat vect))) (n\<lparr>nt_kernel := k\<lparr>kn_sendmsg := answers\<rparr>\<rparr>);
          r \<leftarrow> oc_increment (fst r) (snd r) bytes;
          Some (OK, r, n)
        })
   }"

text \<open>\<open>recvfrom\<close> stores what fits of the bytes it has; none means the other side is closed.\<close>

definition Socket_Read ::
    "chunkset \<Rightarrow> ('c, 'e) net_scheme \<Rightarrow> (io_result \<times> sockaddr option \<times> chunkset \<times> ('c, 'e) net_scheme) option" where
  "Socket_Read s n = do {
     fatal_unless (ic_contiguous s \<noteq> 0);
     (received, answers) \<leftarrow> retry (kn_recvfrom (nt_kernel n));
     let n = n\<lparr>nt_kernel := (nt_kernel n)\<lparr>kn_recvfrom := answers\<rparr>\<rparr>;
     (case received of
        Inl e \<Rightarrow> Some (ERROR, None, s, n)
      | Inr (data, raw, socksize) \<Rightarrow>
          (let data = take (ic_contiguous s) data
           in if data = [] then Some (CLOSED, None, s, n)
              else do {
                s \<leftarrow> ic_commit s data;
                Some (OK, Sockaddr_Parse_raw raw socksize, s, n)
              }))
   }"

section \<open>Opening sockets\<close>

text \<open>The calls, with the arguments that matter, and their answers. A failed \<open>setsockopt\<close> is only logged.\<close>

definition sys_socket :: "sockaddr \<Rightarrow> bool \<Rightarrow> ('c, 'e) net_scheme \<Rightarrow> (int \<times> ('c, 'e) net_scheme) option" where
  "sys_socket address stream n = do {
     (fd, answers) \<leftarrow> answer (kn_socket (nt_kernel n));
     Some (fd, sys (Sys_socket (sa_Family address) stream) (n\<lparr>nt_kernel := (nt_kernel n)\<lparr>kn_socket := answers\<rparr>\<rparr>))
   }"

definition sys_connect :: "int \<Rightarrow> sockaddr \<Rightarrow> ('c, 'e) net_scheme \<Rightarrow> (bool \<times> ('c, 'e) net_scheme) option" where
  "sys_connect fd address n = do {
     (ok, answers) \<leftarrow> answer (kn_connect (nt_kernel n));
     Some (ok, sys (Sys_connect fd (take (sa_Size address) (sa_Data address))) (n\<lparr>nt_kernel := (nt_kernel n)\<lparr>kn_connect := answers\<rparr>\<rparr>))
   }"

definition sys_bind :: "int \<Rightarrow> sockaddr \<Rightarrow> ('c, 'e) net_scheme \<Rightarrow> (bool \<times> ('c, 'e) net_scheme) option" where
  "sys_bind fd address n = do {
     (ok, answers) \<leftarrow> answer (kn_bind (nt_kernel n));
     Some (ok, sys (Sys_bind fd (take (sa_Size address) (sa_Data address))) (n\<lparr>nt_kernel := (nt_kernel n)\<lparr>kn_bind := answers\<rparr>\<rparr>))
   }"

definition sys_listen :: "int \<Rightarrow> nat \<Rightarrow> ('c, 'e) net_scheme \<Rightarrow> (bool \<times> ('c, 'e) net_scheme) option" where
  "sys_listen fd backlog n = do {
     (ok, answers) \<leftarrow> answer (kn_listen (nt_kernel n));
     Some (ok, sys (Sys_listen fd backlog) (n\<lparr>nt_kernel := (nt_kernel n)\<lparr>kn_listen := answers\<rparr>\<rparr>))
   }"

text \<open>
  \<open>new BoundSocket(dispatcher_, fd.Release())\<close>, or a null result (\<open>None\<close>) and the descriptor closed by the
  destructor of the \<open>ScopedFd\<close> that still holds it.
\<close>

definition keep_fd :: "bool \<Rightarrow> int \<Rightarrow> ('c, 'e) net_scheme \<Rightarrow> nat option \<times> ('c, 'e) net_scheme" where
  "keep_fd ok fd n = (if ok then apfst Some (new_socket fd n) else (None, close_fd fd n))"

definition DatagramConnect ::
    "sockaddr \<Rightarrow> ('c, 'e) net_scheme \<Rightarrow> (nat option \<times> ('c, 'e) net_scheme) option" where
  "DatagramConnect address n = do {
     (fd, n) \<leftarrow> sys_socket address False n;
     (if fd < 0 then Some (None, n)
      else do {
        (ok, n) \<leftarrow> sys_connect fd address n;
        Some (keep_fd ok fd n)
      })
   }"

definition DatagramListenOn ::
    "sockaddr \<Rightarrow> ('c, 'e) net_scheme \<Rightarrow> (nat option \<times> ('c, 'e) net_scheme) option" where
  "DatagramListenOn address n = do {
     (fd, n) \<leftarrow> sys_socket address False n;
     (if fd < 0 then Some (None, n)
      else do {
        (ok, n) \<leftarrow> sys_bind fd address n;
        Some (keep_fd ok fd n)
      })
   }"

definition StreamConnect ::
    "sockaddr \<Rightarrow> ('c, 'e) net_scheme \<Rightarrow> (nat option \<times> ('c, 'e) net_scheme) option" where
  "StreamConnect address n = do {
     (fd, n) \<leftarrow> sys_socket address True n;
     (if fd < 0 then Some (None, n)
      else do {
        let n = sys (Sys_setsockopt fd ''TCP_NODELAY'') n;
        (ok, n) \<leftarrow> sys_connect fd address n;
        Some (keep_fd ok fd n)
      })
   }"

definition StreamListenOn ::
    "sockaddr \<Rightarrow> ('c, 'e) net_scheme \<Rightarrow> (nat option \<times> ('c, 'e) net_scheme) option" where
  "StreamListenOn address n = do {
     (fd, n) \<leftarrow> sys_socket address True n;
     (if fd < 0 then Some (None, n)
      else do {
        let n = sys (Sys_setsockopt fd ''SO_LINGER'') n;
        let n = sys (Sys_setsockopt fd ''SO_REUSEADDR'') n;
        let n = sys (Sys_setsockopt fd ''TCP_NODELAY'') n;
        (ok, n) \<leftarrow> sys_bind fd address n;
        (if \<not> ok then Some (None, close_fd fd n)
         else do {
           (ok, n) \<leftarrow> sys_listen fd 10 n;
           Some (keep_fd ok fd n)
         })
      })
   }"

definition AcceptConnection ::
    "('c, 'e) net_scheme \<Rightarrow> (nat option \<times> sockaddr option \<times> ('c, 'e) net_scheme) option" where
  "AcceptConnection n = do {
     (accepted, answers) \<leftarrow> retry (kn_accept (nt_kernel n));
     let n = n\<lparr>nt_kernel := (nt_kernel n)\<lparr>kn_accept := answers\<rparr>\<rparr>;
     (case accepted of
        Inl e \<Rightarrow> Some (None, None, n)
      | Inr (fd, client, client_size) \<Rightarrow>
          (let (retval, n) = new_socket fd n
           in Some (Some retval, Sockaddr_Parse_raw client client_size, n)))
   }"

section \<open>What the kernel waits for\<close>

definition events_wanted :: "'c socket \<Rightarrow> u32" where
  "events_wanted sk =
     (if sk_pending_reads sk \<noteq> 0 then EPOLLIN else 0) OR (if sk_pending_writes sk \<noteq> 0 then EPOLLOUT else 0)"

definition handlers_set :: "nat \<Rightarrow> 'c socket \<Rightarrow> handler epoll_event \<Rightarrow> bool" where
  "handlers_set p sk e \<longleftrightarrow>
     (sk_pending_reads sk \<noteq> 0 \<longrightarrow> ev_read e = Some (Read_handler p)) \<and>
     (sk_pending_writes sk \<noteq> 0 \<longrightarrow> ev_write e = Some (Write_handler p))"

definition watched :: "nat \<Rightarrow> 'c socket \<Rightarrow> handler dispatcher \<Rightarrow> bool" where
  "watched p sk d \<longleftrightarrow> 0 \<le> sk_pending_reads sk \<and> 0 \<le> sk_pending_writes sk \<and>
     (case dp_fd_events d (sk_fd sk) of
        None \<Rightarrow> sk_pending_reads sk = 0 \<and> sk_pending_writes sk = 0
      | Some q \<Rightarrow> ev_events (dp_heap d ! q) = events_wanted sk \<and> handlers_set p sk (dp_heap d ! q))"

definition socket_good :: "nat \<Rightarrow> ('c, 'e) net_scheme \<Rightarrow> bool" where
  "socket_good p n \<longleftrightarrow> p < length (nt_sockets n) \<and> dispatcher_inv (nt_dispatcher n) \<and>
     list_all (\<lambda>b. b) (dp_ctl (nt_dispatcher n)) \<and> watched p (nt_sockets n ! p) (nt_dispatcher n)"

text \<open>What the calls to the dispatcher do when the kernel accepts the change.\<close>

definition added_event :: "int \<Rightarrow> u32 \<Rightarrow> 'h option \<Rightarrow> 'h option \<Rightarrow> 'h epoll_event" where
  "added_event fd on readh writeh =
     \<lparr>ev_fd = fd, ev_deleted = False, ev_read = readh, ev_write = writeh,
      ev_events = (if on AND EV_READ \<noteq> 0 then EPOLLIN else 0) OR (if on AND EV_WRITE \<noteq> 0 then EPOLLOUT else 0)\<rparr>"

lemma epoll_ctl_suffix: "epoll_ctl fd e d = (ok, d') \<Longrightarrow> suffix (dp_ctl d') (dp_ctl d)"
  by (auto simp: epoll_ctl_def suffix_def split: list.splits bool.splits)

lemma epoll_ctl_accepts:
  "list_all (\<lambda>b. b) (dp_ctl d) \<Longrightarrow> dp_ctl d \<noteq> [] \<Longrightarrow> epoll_ctl fd e d = (ok, d') \<Longrightarrow> ok"
  by (auto simp: epoll_ctl_def split: list.splits bool.splits)

lemma SetFd_suffix: "SetFd fd on clear r w d = Some (ok, d') \<Longrightarrow> suffix (dp_ctl d') (dp_ctl d)"
  by (auto simp: SetFd_def AddFd_def ModFd_def Let_def dest!: epoll_ctl_suffix
        split: bind_splits option.splits prod.splits if_splits)

lemma SetFd_accepted:
  assumes "dispatcher_inv d" "list_all (\<lambda>b. b) (dp_ctl d)" "dp_ctl d \<noteq> []" "SetFd fd on clear r w d = Some (ok, d')"
  shows "\<exists>q. dp_fd_events d' fd = Some q \<and> dp_heap d' ! q =
    (case dp_fd_events d fd of None \<Rightarrow> added_event fd on r w | Some q \<Rightarrow> changed_event on clear r w (dp_heap d ! q))"
proof (cases "dp_fd_events d fd")
  case None
  with assms(4) obtain d1 where ctl: "epoll_ctl fd (Some (ev_events (added_event fd on r w), length (dp_heap d)))
      (d\<lparr>dp_heap := dp_heap d @ [added_event fd on r w]\<rparr>) = (ok, d1)"
    "d' = (if ok then d1\<lparr>dp_fd_events := (dp_fd_events d1)(fd := Some (length (dp_heap d)))\<rparr> else d1)"
    by (auto simp: SetFd_def AddFd_def added_event_def Let_def split: bind_splits prod.splits if_splits)
  then have ok by (auto intro!: epoll_ctl_accepts [OF _ _ ctl(1)] simp: assms(2,3))
  with None ctl show ?thesis by (simp add: epoll_ctl_result [OF ctl(1)])
next
  case (Some q)
  with assms have change: "ModFd fd on clear q r w d = Some (ok, d')" and q: "q < length (dp_heap d)"
    by (auto simp: SetFd_def dest: dispatcher_invD split: bind_splits)
  from change show ?thesis
  proof (cases rule: ModFd_cases)
    case same
    with Some q show ?thesis by simp
  next
    case (ctl data d1)
    then have ok by (auto intro!: epoll_ctl_accepts [OF _ _ ctl(2)] simp: assms(2,3))
    with Some q ctl show ?thesis by (simp add: epoll_ctl_result [OF ctl(2)])
  qed
qed

lemma mask_simps [simp]:
  "EV_READ \<noteq> 0" "EV_WRITE \<noteq> 0" "EV_READ AND EV_WRITE = 0" "EV_WRITE AND EV_READ = 0"
  "EV_NONE AND m = 0"
  by (simp_all add: epoll_constants)

lemma watched_SetFd:
  assumes "dispatcher_inv d" "list_all (\<lambda>b. b) (dp_ctl d)" "dp_ctl d \<noteq> []"
    and sk: "watched p sk d" "sk_fd sk = fd" "sk_fd sk' = fd"
  shows "SetFd fd EV_READ EV_NONE (Some (Read_handler p)) None d = Some (ok, d') \<Longrightarrow>
      0 < sk_pending_reads sk' \<Longrightarrow> sk_pending_writes sk' = sk_pending_writes sk \<Longrightarrow> watched p sk' d'"
    and "SetFd fd EV_WRITE EV_NONE None (Some (Write_handler p)) d = Some (ok, d') \<Longrightarrow>
      sk_pending_reads sk' = sk_pending_reads sk \<Longrightarrow> 0 < sk_pending_writes sk' \<Longrightarrow> watched p sk' d'"
    and "SetFd fd EV_NONE EV_READ None None d = Some (ok, d') \<Longrightarrow>
      sk_pending_reads sk' = 0 \<Longrightarrow> sk_pending_writes sk' = sk_pending_writes sk \<Longrightarrow> watched p sk' d'"
    and "SetFd fd EV_NONE EV_WRITE None None d = Some (ok, d') \<Longrightarrow>
      sk_pending_reads sk' = sk_pending_reads sk \<Longrightarrow> sk_pending_writes sk' = 0 \<Longrightarrow> watched p sk' d'"
  using SetFd_accepted [OF assms(1-3), of fd EV_READ EV_NONE "Some (Read_handler p)" None ok d']
    SetFd_accepted [OF assms(1-3), of fd EV_WRITE EV_NONE None "Some (Write_handler p)" ok d']
    SetFd_accepted [OF assms(1-3), of fd EV_NONE EV_READ None None ok d']
    SetFd_accepted [OF assms(1-3), of fd EV_NONE EV_WRITE None None ok d'] sk
  by (auto simp: watched_def handlers_set_def events_wanted_def changed_event_def added_event_def Let_def
        EPOLLIN_def EPOLLOUT_def split: option.splits if_splits)

text \<open>
  The rest of the program, and other sockets, do anything with the dispatcher but touch this socket or its
  descriptor.
\<close>

definition others_run :: "nat \<Rightarrow> ('c, 'e) net_scheme \<Rightarrow> ('c, 'e) net_scheme \<Rightarrow> bool" where
  "others_run p n n' \<longleftrightarrow>
     p < length (nt_sockets n') \<and> nt_sockets n' ! p = nt_sockets n ! p \<and>
     dispatcher_runs (nt_dispatcher n) (nt_dispatcher n') \<and> suffix (dp_ctl (nt_dispatcher n')) (dp_ctl (nt_dispatcher n)) \<and>
     dp_fd_events (nt_dispatcher n') (sk_fd (nt_sockets n ! p)) = dp_fd_events (nt_dispatcher n) (sk_fd (nt_sockets n ! p)) \<and>
     (\<forall>q. dp_fd_events (nt_dispatcher n) (sk_fd (nt_sockets n ! p)) = Some q \<longrightarrow> dp_heap (nt_dispatcher n') ! q = dp_heap (nt_dispatcher n) ! q)"

inductive socket_runs ::
    "('c \<Rightarrow> ('c, 'e) net_scheme \<Rightarrow> (processing_state \<times> ('c, 'e) net_scheme) option) \<Rightarrow> nat \<Rightarrow>
     ('c, 'e) net_scheme \<Rightarrow> ('c, 'e) net_scheme \<Rightarrow> bool"
  for call p where
  start: "socket_runs call p n n"
| want_read: "socket_runs call p n n1 \<Longrightarrow> WantRead p callback n1 = Some n2 \<Longrightarrow> socket_runs call p n n2"
| want_write: "socket_runs call p n n1 \<Longrightarrow> WantWrite p callback n1 = Some n2 \<Longrightarrow> socket_runs call p n n2"
| handle_read: "socket_runs call p n n1 \<Longrightarrow> call_back call (sk_read_callback (nt_sockets n1 ! p)) n1 = Some (status, n2) \<Longrightarrow>
    socket_runs call p n1 n2 \<Longrightarrow> Socket_HandleRead call p n1 = Some n3 \<Longrightarrow> socket_runs call p n n3"
| handle_write: "socket_runs call p n n1 \<Longrightarrow> call_back call (sk_write_callback (nt_sockets n1 ! p)) n1 = Some (status, n2) \<Longrightarrow>
    socket_runs call p n1 n2 \<Longrightarrow> Socket_HandleWrite call p n1 = Some n3 \<Longrightarrow> socket_runs call p n n3"
| others: "socket_runs call p n n1 \<Longrightarrow> others_run p n1 n2 \<Longrightarrow> socket_runs call p n n2"

lemma list_all_suffix: "suffix xs ys \<Longrightarrow> list_all P ys \<Longrightarrow> list_all P xs"
  by (auto simp: suffix_def)

lemma suffix_nonempty: "suffix xs ys \<Longrightarrow> xs \<noteq> [] \<Longrightarrow> ys \<noteq> []"
  by (auto simp: suffix_def)

lemma net_simps [simp]:
  "nt_dispatcher (set_socket p sk n) = nt_dispatcher n"
  "nt_sockets (set_socket p sk n) = (nt_sockets n)[p := sk]"
  by (simp_all add: set_socket_def)

text \<open>One accepted call, and the socket updated: the socket stays good.\<close>

lemma dispatch_result:
  assumes "dispatch f n = Some n'"
  obtains ok d where "f (nt_dispatcher n) = Some (ok, d)" "n' = n\<lparr>nt_dispatcher := d\<rparr>"
  using assms by (auto simp: dispatch_def split: bind_splits)

lemma good_dispatch:
  assumes "socket_good p n" "SetFd fd on clear r w (nt_dispatcher n) = Some (ok, d)" "watched p sk d"
    "nt_sockets n' = (nt_sockets n)[p := sk]" "nt_dispatcher n' = d"
  shows "socket_good p n'"
  using assms SetFd_inv [OF _ assms(2)] list_all_suffix [OF SetFd_suffix [OF assms(2)]]
  by (simp add: socket_good_def)

lemma good_socket_update:
  assumes "socket_good p n" "watched p sk (nt_dispatcher n)" "nt_sockets n' = (nt_sockets n)[p := sk]" "nt_dispatcher n' = nt_dispatcher n"
  shows "socket_good p n'"
  using assms by (simp add: socket_good_def)

lemma WantRead_result:
  assumes "WantRead p callback n = Some n'"
  obtains fd r w pw pr r' n1 where "nt_sockets n ! p = Socket fd r w pw pr" "pr < 2 ^ 31 - 1"
    "n' = set_socket p (Socket fd r' w pw (pr + 1)) n1"
    "if pr = 0 then dispatch (SetFd fd EV_READ EV_NONE (Some (Read_handler p)) None) n = Some n1 else n1 = n"
  using assms by (auto simp: WantRead_def increment_def split: socket.splits bind_splits if_splits)

lemma WantWrite_result:
  assumes "WantWrite p callback n = Some n'"
  obtains fd r w pw pr w' n1 where "nt_sockets n ! p = Socket fd r w pw pr" "pw < 2 ^ 31 - 1"
    "n' = set_socket p (Socket fd r w' (pw + 1) pr) n1"
    "if pw = 0 then dispatch (SetFd fd EV_WRITE EV_NONE None (Some (Write_handler p))) n = Some n1 else n1 = n"
  using assms by (auto simp: WantWrite_def increment_def split: socket.splits bind_splits if_splits)

text \<open>The answers only get fewer.\<close>

lemma dispatch_SetFd_suffix:
  "dispatch (SetFd fd on clear r w) n = Some n' \<Longrightarrow> suffix (dp_ctl (nt_dispatcher n')) (dp_ctl (nt_dispatcher n))"
  by (auto elim!: dispatch_result dest: SetFd_suffix)

lemma socket_step_suffix:
  "WantRead p callback n = Some n' \<Longrightarrow> suffix (dp_ctl (nt_dispatcher n')) (dp_ctl (nt_dispatcher n))"
  "WantWrite p callback n = Some n' \<Longrightarrow> suffix (dp_ctl (nt_dispatcher n')) (dp_ctl (nt_dispatcher n))"
  "stop_reading p n = Some n' \<Longrightarrow> suffix (dp_ctl (nt_dispatcher n')) (dp_ctl (nt_dispatcher n))"
  "stop_writing p n = Some n' \<Longrightarrow> suffix (dp_ctl (nt_dispatcher n')) (dp_ctl (nt_dispatcher n))"
  by (auto elim!: WantRead_result WantWrite_result dest!: dispatch_SetFd_suffix
        simp: stop_reading_def stop_writing_def split: socket.splits if_splits)

lemma HandleRead_result:
  assumes "Socket_HandleRead call p n = Some n'" "call_back call (sk_read_callback (nt_sockets n ! p)) n = Some (status, n1)"
  shows "if status = MORE then n' = n1 else stop_reading p n1 = Some n'"
  using assms by (cases status) (auto simp: Socket_HandleRead_def)

lemma HandleWrite_result:
  assumes "Socket_HandleWrite call p n = Some n'" "call_back call (sk_write_callback (nt_sockets n ! p)) n = Some (status, n1)"
  shows "if status = MORE then n' = n1 else stop_writing p n1 = Some n'"
  using assms by (cases status) (auto simp: Socket_HandleWrite_def)

lemma socket_runs_suffix:
  "socket_runs call p n n' \<Longrightarrow> suffix (dp_ctl (nt_dispatcher n')) (dp_ctl (nt_dispatcher n))"
proof (induction rule: socket_runs.induct)
  case (handle_read n n1 status n2 n3)
  with HandleRead_result [OF handle_read(4,2)] socket_step_suffix(3) show ?case
    by (metis suffix_order.trans)
next
  case (handle_write n n1 status n2 n3)
  with HandleWrite_result [OF handle_write(4,2)] socket_step_suffix(4) show ?case
    by (metis suffix_order.trans)
next
  case (others n n1 n2)
  then show ?case by (auto simp: others_run_def dest: suffix_order.trans)
qed (auto dest: socket_step_suffix suffix_order.trans)

text \<open>Each step keeps the socket good, when the kernel accepts its changes.\<close>

definition accepting :: "('c, 'e) net_scheme \<Rightarrow> bool" where
  "accepting n \<longleftrightarrow> dp_ctl (nt_dispatcher n) \<noteq> []"

lemma good_facts:
  assumes "socket_good p n" "accepting n"
  shows "dispatcher_inv (nt_dispatcher n)" "list_all (\<lambda>b. b) (dp_ctl (nt_dispatcher n))" "dp_ctl (nt_dispatcher n) \<noteq> []"
    "watched p (nt_sockets n ! p) (nt_dispatcher n)"
  using assms by (simp_all add: socket_good_def accepting_def)

lemma watched_more:
  assumes "watched p (Socket fd r w pw pr) d"
  shows "pr \<noteq> 0 \<Longrightarrow> watched p (Socket fd r' w pw (pr + 1)) d" "pw \<noteq> 0 \<Longrightarrow> watched p (Socket fd r w' (pw + 1) pr) d"
  using assms by (auto simp: watched_def handlers_set_def events_wanted_def split: option.splits)

lemma WantRead_good:
  assumes good: "socket_good p n" "accepting n" and run: "WantRead p callback n = Some n'"
  shows "socket_good p n'"
  using run
proof (rule WantRead_result)
  fix fd r w pw pr r' n1
  assume sk: "nt_sockets n ! p = Socket fd r w pw pr" "n' = set_socket p (Socket fd r' w pw (pr + 1)) n1"
    and call: "if pr = 0 then dispatch (SetFd fd EV_READ EV_NONE (Some (Read_handler p)) None) n = Some n1 else n1 = n"
  note facts = good_facts [OF good, unfolded sk]
  show ?thesis
  proof (cases "pr = 0")
    case True
    with call obtain ok d where d: "SetFd fd EV_READ EV_NONE (Some (Read_handler p)) None (nt_dispatcher n) = Some (ok, d)"
      "n1 = n\<lparr>nt_dispatcher := d\<rparr>" by (auto elim: dispatch_result)
    have "watched p (Socket fd r' w pw (pr + 1)) d"
      by (rule watched_SetFd(1) [OF facts _ _ d(1)]) (simp_all add: True)
    then show ?thesis by (rule good_dispatch [OF good(1) d(1)]) (simp_all add: sk(2) d(2))
  next
    case False
    with call have "n1 = n" by simp
    then show ?thesis by (intro good_socket_update [OF good(1) watched_more(1) [OF facts(4) False]]) (simp_all add: sk(2))
  qed
qed

lemma WantWrite_good:
  assumes good: "socket_good p n" "accepting n" and run: "WantWrite p callback n = Some n'"
  shows "socket_good p n'"
  using run
proof (rule WantWrite_result)
  fix fd r w pw pr w' n1
  assume sk: "nt_sockets n ! p = Socket fd r w pw pr" "n' = set_socket p (Socket fd r w' (pw + 1) pr) n1"
    and call: "if pw = 0 then dispatch (SetFd fd EV_WRITE EV_NONE None (Some (Write_handler p))) n = Some n1 else n1 = n"
  note facts = good_facts [OF good, unfolded sk]
  show ?thesis
  proof (cases "pw = 0")
    case True
    with call obtain ok d where d: "SetFd fd EV_WRITE EV_NONE None (Some (Write_handler p)) (nt_dispatcher n) = Some (ok, d)"
      "n1 = n\<lparr>nt_dispatcher := d\<rparr>" by (auto elim: dispatch_result)
    have "watched p (Socket fd r w' (pw + 1) pr) d"
      by (rule watched_SetFd(2) [OF facts _ _ d(1)]) (simp_all add: True)
    then show ?thesis by (rule good_dispatch [OF good(1) d(1)]) (simp_all add: sk(2) d(2))
  next
    case False
    with call have "n1 = n" by simp
    then show ?thesis by (intro good_socket_update [OF good(1) watched_more(2) [OF facts(4) False]]) (simp_all add: sk(2))
  qed
qed

lemma stop_good:
  assumes good: "socket_good p n" "accepting n"
  shows "stop_reading p n = Some n' \<Longrightarrow> socket_good p n'" "stop_writing p n = Some n' \<Longrightarrow> socket_good p n'"
proof -
  obtain fd r w pw pr where sk: "nt_sockets n ! p = Socket fd r w pw pr" by (cases "nt_sockets n ! p")
  note facts = good_facts [OF good, unfolded sk]
  have zero: "0 \<le> pr" "0 \<le> pw" using facts(4) by (simp_all add: watched_def)
  show "socket_good p n'" if "stop_reading p n = Some n'"
  proof -
    from that obtain ok d where d: "SetFd fd EV_NONE EV_READ None None (nt_dispatcher n) = Some (ok, d)"
      "n' = set_socket p (Socket fd r w pw 0) n\<lparr>nt_dispatcher := d\<rparr>"
      by (auto simp: stop_reading_def sk elim: dispatch_result)
    have "watched p (Socket fd r w pw 0) d" by (rule watched_SetFd(3) [OF facts _ _ d(1)]) simp_all
    then show ?thesis by (rule good_dispatch [OF good(1) d(1)]) (simp_all add: d(2) set_socket_def)
  qed
  show "socket_good p n'" if "stop_writing p n = Some n'"
  proof -
    from that obtain ok d where d: "SetFd fd EV_NONE EV_WRITE None None (nt_dispatcher n) = Some (ok, d)"
      "n' = set_socket p (Socket fd r w 0 pr) n\<lparr>nt_dispatcher := d\<rparr>"
      by (auto simp: stop_writing_def sk elim: dispatch_result)
    have "watched p (Socket fd r w 0 pr) d" by (rule watched_SetFd(4) [OF facts _ _ d(1)]) simp_all
    then show ?thesis by (rule good_dispatch [OF good(1) d(1)]) (simp_all add: d(2) set_socket_def)
  qed
qed

lemma others_good:
  assumes "socket_good p n" "others_run p n n'"
  shows "socket_good p n'"
  using assms dispatcher_runs_inv list_all_suffix
  by (auto simp: socket_good_def others_run_def watched_def split: option.splits)

lemma socket_runs_good:
  "socket_runs call p n n' \<Longrightarrow> socket_good p n \<Longrightarrow> accepting n' \<Longrightarrow> socket_good p n'"
proof (induction rule: socket_runs.induct)
  case (handle_read n n1 status n2 n3)
  show ?case
  proof (cases "status = MORE")
    case True
    with HandleRead_result [OF handle_read(4,2)] have "n3 = n2" by simp
    with handle_read show ?thesis using suffix_nonempty [OF socket_runs_suffix [OF handle_read(3)]] by (auto simp: accepting_def)
  next
    case False
    with HandleRead_result [OF handle_read(4,2)] have stop: "stop_reading p n2 = Some n3" by simp
    have "accepting n2" using suffix_nonempty [OF socket_step_suffix(3) [OF stop]] handle_read.prems by (simp add: accepting_def)
    moreover from this have "accepting n1" using suffix_nonempty [OF socket_runs_suffix [OF handle_read(3)]] by (simp add: accepting_def)
    ultimately show ?thesis using handle_read stop_good(1) [OF _ _ stop] by blast
  qed
next
  case (handle_write n n1 status n2 n3)
  show ?case
  proof (cases "status = MORE")
    case True
    with HandleWrite_result [OF handle_write(4,2)] have "n3 = n2" by simp
    with handle_write show ?thesis using suffix_nonempty [OF socket_runs_suffix [OF handle_write(3)]] by (auto simp: accepting_def)
  next
    case False
    with HandleWrite_result [OF handle_write(4,2)] have stop: "stop_writing p n2 = Some n3" by simp
    have "accepting n2" using suffix_nonempty [OF socket_step_suffix(4) [OF stop]] handle_write.prems by (simp add: accepting_def)
    moreover from this have "accepting n1" using suffix_nonempty [OF socket_runs_suffix [OF handle_write(3)]] by (simp add: accepting_def)
    ultimately show ?thesis using handle_write stop_good(2) [OF _ _ stop] by blast
  qed
next
  case (others n n1 n2)
  then have "accepting n1" using suffix_nonempty by (auto simp: accepting_def others_run_def)
  with others show ?case using others_good by blast
next
  case (want_read n n1 callback n2)
  then have "accepting n1" using suffix_nonempty [OF socket_step_suffix(1)] by (auto simp: accepting_def)
  with want_read show ?case using WantRead_good by blast
next
  case (want_write n n1 callback n2)
  then have "accepting n1" using suffix_nonempty [OF socket_step_suffix(2)] by (auto simp: accepting_def)
  with want_write show ?case using WantWrite_good by blast
qed

lemma new_socket_good:
  assumes "dispatcher_inv (nt_dispatcher n)" "list_all (\<lambda>b. b) (dp_ctl (nt_dispatcher n))"
    "dp_fd_events (nt_dispatcher n) fd = None" "new_socket fd n = (p, n')"
  shows "socket_good p n'"
  using assms by (auto simp: new_socket_def socket_good_def watched_def Socket_new_def)

section \<open>Transfers and failures\<close>

lemma retry_again: "a \<noteq> Inl EAGAIN \<Longrightarrow> retry (replicate k (Inl EAGAIN) @ a # as) = Some (a, as)"
  by (induction k) (auto split: sum.splits errno.splits)

lemma Write_failed:
  assumes "readable (fst r) (snd r) others" "oc_limited (snd r) = None" "retry (kn_sendmsg (nt_kernel n)) = Some (Inl e, as)"
  shows "Socket_Write p remote r n =
    Some (if e = EPIPE then CLOSED else ERROR, r, n\<lparr>nt_kernel := (nt_kernel n)\<lparr>kn_sendmsg := as\<rparr>\<rparr>)"
proof (rule iovec_prefix [OF assms(1,2)])
  fix vect rest
  assume "oc_iovec (fst r) (snd r) = Some (vect, length (concat vect))"
  with assms(3) show ?thesis by (simp add: Socket_Write_def)
qed

lemma Write_sent:
  assumes "readable (fst r) (snd r) others" "oc_limited (snd r) = None" "retry (kn_sendmsg (nt_kernel n)) = Some (Inr w, as)"
  shows "\<exists>offered r' n'. Socket_Write p remote r n = Some (OK, r', n') \<and>
    unread (fst r) (snd r) = offered @ unread (fst r') (snd r') \<and>
    (unread (fst r) (snd r) \<noteq> [] \<longrightarrow> offered \<noteq> []) \<and>
    kn_log (nt_kernel n') = kn_log (nt_kernel n) @ [Sys_sendmsg (sk_fd (nt_sockets n ! p)) remote (take w offered)]"
proof (rule iovec_prefix [OF assms(1,2)])
  fix vect rest
  assume vect: "oc_iovec (fst r) (snd r) = Some (vect, length (concat vect))" "unread (fst r) (snd r) = concat vect @ rest"
    "unread (fst r) (snd r) \<noteq> [] \<longrightarrow> concat vect \<noteq> []"
  obtain s' cur' where adv: "oc_increment (fst r) (snd r) (length (concat vect)) = Some (s', cur')"
    "advanced (fst r) (snd r) others (length (concat vect)) s' cur'"
    using increment_advances [OF assms(1), of "length (concat vect)"] vect(2) assms(2) by (auto simp: within_limit_def)
  have "unread s' cur' = rest" using adv(2) vect(2) by (simp add: advanced_def)
  moreover have "Socket_Write p remote r n =
    Some (OK, (s', cur'), sys (Sys_sendmsg (sk_fd (nt_sockets n ! p)) remote (take w (concat vect)))
      (n\<lparr>nt_kernel := (nt_kernel n)\<lparr>kn_sendmsg := as\<rparr>\<rparr>))"
    using assms(3) vect(1) adv(1) by (simp add: Socket_Write_def)
  ultimately show ?thesis
    using vect by (intro exI [of _ "concat vect"] exI [of _ "(s', cur')"] exI) (auto simp: sys_def)
qed

text \<open>A descriptor that could not be connected, bound or listened on is closed, and no socket has it.\<close>

lemmas open_defs = DatagramConnect_def DatagramListenOn_def StreamConnect_def StreamListenOn_def sys_socket_def sys_connect_def
  sys_bind_def sys_listen_def keep_fd_def close_fd_def sys_def

lemma failed_open_closes:
  assumes "kn_socket (nt_kernel n) = fd # as" "0 \<le> fd"
    "open_it \<in> {DatagramConnect, DatagramListenOn, StreamConnect, StreamListenOn}" "open_it address n = Some (None, n')"
  shows "last (kn_log (nt_kernel n')) = Sys_close fd \<and> nt_sockets n' = nt_sockets n"
  using assms by (auto simp: open_defs new_socket_def split: bind_splits if_splits)

lemma successful_open_keeps:
  assumes "kn_socket (nt_kernel n) = fd # as"
    "open_it \<in> {DatagramConnect, DatagramListenOn, StreamConnect, StreamListenOn}" "open_it address n = Some (Some p, n')"
  shows "0 \<le> fd \<and> nt_sockets n' = nt_sockets n @ [Socket_new fd] \<and> p = length (nt_sockets n) \<and>
    Sys_close fd \<notin> set (drop (length (kn_log (nt_kernel n))) (kn_log (nt_kernel n')))"
  using assms by (auto simp: open_defs new_socket_def split: bind_splits if_splits)

section \<open>Properties\<close>


definition quiet_kernel :: kernel where
  "quiet_kernel = \<lparr>kn_socket = [], kn_connect = [], kn_bind = [], kn_listen = [], kn_accept = [], kn_sendmsg = [], kn_recvfrom = [], kn_log = []\<rparr>"

definition sample_net :: "unit net" where
  "sample_net = \<lparr>nt_sockets = [], nt_dispatcher = snd (Dispatcher_Init 3 (Dispatcher_new [True, True])), nt_kernel = quiet_kernel\<rparr>"


text \<open>C30. \<open>Write\<close> tries again as long as the kernel says \<open>EAGAIN\<close>. On an error it reports \<open>CLOSED\<close> for \<open>EPIPE\<close> and
  \<open>ERROR\<close> otherwise and keeps the data. Otherwise the data it offered is gone from the buffer, whatever
  part of it the kernel took.\<close>

theorem Write_reports_what_the_kernel_says:
  assumes "readable (fst r) (snd r) others" "oc_limited (snd r) = None"
    "kn_sendmsg (nt_kernel n) = replicate k (Inl EAGAIN) @ a # as" "a \<noteq> Inl EAGAIN"
  shows "\<exists>status r' n'. Socket_Write p remote r n = Some (status, r', n') \<and>
    (case a of
       Inl e \<Rightarrow> status = (if e = EPIPE then CLOSED else ERROR) \<and> r' = r \<and> kn_log (nt_kernel n') = kn_log (nt_kernel n)
     | Inr w \<Rightarrow> status = OK \<and>
         (\<exists>offered. unread (fst r) (snd r) = offered @ unread (fst r') (snd r') \<and> (unread (fst r) (snd r) \<noteq> [] \<longrightarrow> offered \<noteq> []) \<and>
            kn_log (nt_kernel n') = kn_log (nt_kernel n) @ [Sys_sendmsg (sk_fd (nt_sockets n ! p)) remote (take w offered)]))"
proof -
  have retry: "retry (kn_sendmsg (nt_kernel n)) = Some (a, as)" using retry_again [OF assms(4)] by (simp add: assms(3))
  show ?thesis
  proof (cases a)
    case (Inl e)
    with Write_failed [OF assms(1,2), of n e as p remote] retry show ?thesis by (cases r) simp
  next
    case (Inr w)
    then show ?thesis using Write_sent [OF assms(1,2), of n w as p remote] retry by auto
  qed
qed

theorem Write_reports_what_the_kernel_says_witness:
  "\<exists>r' n'. Socket_Write 0 None (sample_set, sample_cursor)
      (snd (new_socket 7 (sample_net\<lparr>nt_kernel := quiet_kernel\<lparr>kn_sendmsg := [Inl EAGAIN, Inr 1]\<rparr>\<rparr>))) = Some (OK, r', n')"
  using Write_reports_what_the_kernel_says [of "(sample_set, sample_cursor)" "[]"
      "snd (new_socket 7 (sample_net\<lparr>nt_kernel := quiet_kernel\<lparr>kn_sendmsg := [Inl EAGAIN, Inr 1]\<rparr>\<rparr>))" 1 "Inr 1" "[]" 0 None]
    sample_readable by (auto simp: new_socket_def)

end
