(* ===== verification/Sessions.thy ===== *)
theory Sessions
  imports Protectors PacketQueues Keys
begin

text \<open>
  The sessions and the connection managers of \<open>src/src/server-connection-manager.h\<close>,
  \<open>server-simple-connection-manager.h\<close>, \<open>.cc\<close> and their clients' twins
  \<open>client-connection-manager.h\<close>, \<open>client-simple-connection-manager.h\<close>, \<open>.cc\<close>. The two sides repeat each
  other's text but for the constructor of a session and \<open>AddConnection\<close>; the definitions they share are
  given once, the client's own are in \<open>UdpTranscoders\<close>.

  The objects live in lists, where a pointer is an index. What the code calls through an interface is an
  argument: the transcoder's connection (a record of its methods), the channel that is told of a new
  session, and the call of a handler that a session stores.
\<close>

section \<open>The enumerations\<close>

datatype CloseReason = Shutdown | Truncated | Timeout | Manager | Encoding | Decoding | System

datatype SessionState = NeedMoreData | InvalidData | NeedNewSession | Ready

datatype AuthenticationStatus =
  SessionAuthenticationPending | SessionAuthenticated | SessionMaybeAuthenticated | SessionDenied | SessionFailed

section \<open>The state\<close>

text \<open>OpenSSL, what a context is after \<open>EVP_CIPHER_CTX_init\<close>, and what memory holds that was not written to.\<close>

record ('x, 'k) crypto =
  cr_ssl :: "'x openssl"
  cr_rc4 :: "'k rc4_lib"
  cr_bn :: bn_lib
  cr_hmac :: "bytes \<Rightarrow> bytes \<Rightarrow> bytes"
  cr_ctx :: 'x
  cr_memory :: "'k prng \<Rightarrow> bytes"

text \<open>
  The methods of a \<open>Connection\<close> \<open>'c\<close>. \<open>Message()\<close> returns a pointer to a buffer, which is read and written
  through it. \<open>SendMessage\<close> may report an error for its key to the session that sends, as the last thing it does.
  \<open>'w\<close> is what the transcoder, the sockets and the channels keep.
\<close>

record ('x, 'k, 'c, 'w) connection_class =
  cc_Message :: "'c \<Rightarrow> reader"
  cc_put_Message :: "reader \<Rightarrow> 'c \<Rightarrow> 'c"
  cc_SendMessage :: "'x protector option \<Rightarrow> 'k prng \<Rightarrow> 'c \<Rightarrow> 'w \<Rightarrow>
    (bool \<times> (connection_key \<times> CloseReason) option \<times> 'x protector option \<times> 'k prng \<times> 'c \<times> 'w) option"
  cc_Close :: "'c \<Rightarrow> 'w \<Rightarrow> ('c \<times> 'w) option"

datatype close_handler = Authentication_closed nat | Channel_closed nat

text \<open>\<open>state_\<close> is left out: it is set by the constructor and never read.\<close>

record ('x, 'c, 'h) session =
  se_encoder :: "'x protector option"
  se_decoder :: "'x protector option"
  se_connection :: 'c
  se_read_callback :: "'h option"
  se_close_callback :: "close_handler option"

text \<open>A connection manager, with the generator it shares with the rest and the list of what \<open>DeleteLater\<close> was given.\<close>

record ('x, 'k, 'c, 'h, 'w) hub =
  hb_prng :: "'k prng"
  hb_sessions :: "('x, 'c, 'h) session list"
  hb_map :: "(connection_key, nat) unordered_map"
  hb_deleted :: "nat list"
  hb_world :: 'w

definition session_at :: "nat \<Rightarrow> ('x, 'k, 'c, 'h, 'w, 'e) hub_scheme \<Rightarrow> ('x, 'c, 'h) session" where
  "session_at p h = hb_sessions h ! p"

definition set_session ::
    "nat \<Rightarrow> ('x, 'c, 'h) session \<Rightarrow> ('x, 'k, 'c, 'h, 'w, 'e) hub_scheme \<Rightarrow> ('x, 'k, 'c, 'h, 'w, 'e) hub_scheme" where
  "set_session p s h = h\<lparr>hb_sessions := (hb_sessions h)[p := s]\<rparr>"

section \<open>The session\<close>

definition SetEncoder ::
    "nat \<Rightarrow> 'x protector option \<Rightarrow> ('x, 'k, 'c, 'h, 'w, 'e) hub_scheme \<Rightarrow> ('x, 'k, 'c, 'h, 'w, 'e) hub_scheme" where
  "SetEncoder p encoder h = set_session p ((session_at p h)\<lparr>se_encoder := encoder\<rparr>) h"

definition SetDecoder ::
    "nat \<Rightarrow> 'x protector option \<Rightarrow> ('x, 'k, 'c, 'h, 'w, 'e) hub_scheme \<Rightarrow> ('x, 'k, 'c, 'h, 'w, 'e) hub_scheme" where
  "SetDecoder p decoder h = set_session p ((session_at p h)\<lparr>se_decoder := decoder\<rparr>) h"

definition new_protector :: "('x, 'k) crypto \<Rightarrow> protector_kind \<Rightarrow> 'x protector" where
  "new_protector cr kind = \<lparr>pt_kind = kind, pt_ctx = cr_ctx cr\<rparr>"

text \<open>A session without a protector of its own scrambles.\<close>

definition GetDecoder ::
    "('x, 'k) crypto \<Rightarrow> nat \<Rightarrow> ('x, 'k, 'c, 'h, 'w, 'e) hub_scheme \<Rightarrow> 'x protector option \<times> ('x, 'k, 'c, 'h, 'w, 'e) hub_scheme" where
  "GetDecoder cr p h =
     (let h = (if se_decoder (session_at p h) = None then SetDecoder p (Some (new_protector cr ScrambleSession)) h else h)
      in (se_decoder (session_at p h), h))"

definition GetEncoder ::
    "('x, 'k) crypto \<Rightarrow> nat \<Rightarrow> ('x, 'k, 'c, 'h, 'w, 'e) hub_scheme \<Rightarrow> 'x protector option \<times> ('x, 'k, 'c, 'h, 'w, 'e) hub_scheme" where
  "GetEncoder cr p h =
     (let h = (if se_encoder (session_at p h) = None then SetEncoder p (Some (new_protector cr ScrambleSession)) h else h)
      in (se_encoder (session_at p h), h))"

definition IsReady :: "connection_key \<Rightarrow> nat \<Rightarrow> ('x, 'k, 'c, 'h, 'w, 'e) hub_scheme \<Rightarrow> SessionState" where
  "IsReady key p h = Ready"

definition Message :: "('x, 'k, 'c, 'w) connection_class \<Rightarrow> nat \<Rightarrow> ('x, 'k, 'c, 'h, 'w, 'e) hub_scheme \<Rightarrow> reader" where
  "Message cc p h = cc_Message cc (se_connection (session_at p h))"

text \<open>What was written through the pointer.\<close>

definition put_Message ::
    "('x, 'k, 'c, 'w) connection_class \<Rightarrow> nat \<Rightarrow> reader \<Rightarrow> ('x, 'k, 'c, 'h, 'w, 'e) hub_scheme \<Rightarrow>
     ('x, 'k, 'c, 'h, 'w, 'e) hub_scheme" where
  "put_Message cc p r h =
     set_session p ((session_at p h)\<lparr>se_connection := cc_put_Message cc r (se_connection (session_at p h))\<rparr>) h"

definition SetCallbacks ::
    "nat \<Rightarrow> 'h option \<Rightarrow> close_handler option \<Rightarrow> ('x, 'k, 'c, 'h, 'w, 'e) hub_scheme \<Rightarrow> ('x, 'k, 'c, 'h, 'w, 'e) hub_scheme" where
  "SetCallbacks p readh closeh h =
     set_session p ((session_at p h)\<lparr>se_read_callback := readh, se_close_callback := closeh\<rparr>) h"

text \<open>\<open>call\<close> runs a handler on the session and the data; there is no result for the null pointer.\<close>

definition HandlePacket ::
    "('h \<Rightarrow> nat \<Rightarrow> reader \<Rightarrow> ('x, 'k, 'c, 'h, 'w, 'e) hub_scheme \<Rightarrow> (reader \<times> ('x, 'k, 'c, 'h, 'w, 'e) hub_scheme) option) \<Rightarrow>
     nat \<Rightarrow> reader \<Rightarrow> ('x, 'k, 'c, 'h, 'w, 'e) hub_scheme \<Rightarrow> (reader \<times> ('x, 'k, 'c, 'h, 'w, 'e) hub_scheme) option" where
  "HandlePacket call p data h = do {
     callback \<leftarrow> se_read_callback (session_at p h);
     call callback p data h
   }"

definition AuthenticationDoneHandler ::
    "(nat \<Rightarrow> ('x, 'k, 'c, 'h, 'w, 'e) hub_scheme \<Rightarrow> ('x, 'k, 'c, 'h, 'w, 'e) hub_scheme option) \<Rightarrow> nat \<Rightarrow>
     AuthenticationStatus \<Rightarrow> 'x protector option \<Rightarrow> 'x protector option \<Rightarrow> ('x, 'k, 'c, 'h, 'w, 'e) hub_scheme \<Rightarrow>
     ('x, 'k, 'c, 'h, 'w, 'e) hub_scheme option" where
  "AuthenticationDoneHandler HandleConnect p status encoder decoder h =
     (case status of
        SessionAuthenticated \<Rightarrow> HandleConnect p (SetDecoder p decoder (SetEncoder p encoder h))
      | SessionMaybeAuthenticated \<Rightarrow> HandleConnect p (SetDecoder p decoder (SetEncoder p encoder h))
      | SessionFailed \<Rightarrow> Some h
      | SessionDenied \<Rightarrow> Some h
      | SessionAuthenticationPending \<Rightarrow> None)"

definition session_Close ::
    "('x, 'k, 'c, 'w) connection_class \<Rightarrow> nat \<Rightarrow> ('x, 'k, 'c, 'h, 'w, 'e) hub_scheme \<Rightarrow> ('x, 'k, 'c, 'h, 'w, 'e) hub_scheme option" where
  "session_Close cc p h = do {
     (c, w) \<leftarrow> cc_Close cc (se_connection (session_at p h)) (hb_world h);
     Some (set_session p ((session_at p h)\<lparr>se_connection := c\<rparr>) (h\<lparr>hb_world := w\<rparr>))
   }"

definition session_HandleError ::
    "('x, 'k, 'c, 'w) connection_class \<Rightarrow> nat \<Rightarrow> connection_key \<Rightarrow> CloseReason \<Rightarrow> ('x, 'k, 'c, 'h, 'w, 'e) hub_scheme \<Rightarrow>
     ('x, 'k, 'c, 'h, 'w, 'e) hub_scheme option" where
  "session_HandleError cc this key error h =
     (case um_find cn_equal cn_hash (hb_map h) key of
        None \<Rightarrow> Some h
      | Some p \<Rightarrow> do {
          let h = h\<lparr>hb_map := um_erase cn_equal cn_hash key (hb_map h)\<rparr>;
          fatal_unless (p = this);
          h \<leftarrow> session_Close cc p h;
          Some (h\<lparr>hb_deleted := hb_deleted h @ [p]\<rparr>)
        })"

text \<open>What the connection reports happens when its \<open>SendMessage\<close> returns.\<close>

definition SendMessage ::
    "('x, 'k) crypto \<Rightarrow> ('x, 'k, 'c, 'w) connection_class \<Rightarrow> nat \<Rightarrow> ('x, 'k, 'c, 'h, 'w, 'e) hub_scheme \<Rightarrow>
     (bool \<times> ('x, 'k, 'c, 'h, 'w, 'e) hub_scheme) option" where
  "SendMessage cr cc p h = do {
     let (encoder, h) = GetEncoder cr p h;
     (ok, report, encoder, prng, c, w) \<leftarrow> cc_SendMessage cc encoder (hb_prng h) (se_connection (session_at p h)) (hb_world h);
     let h = h\<lparr>hb_prng := prng, hb_world := w\<rparr>;
     let h = set_session p ((session_at p h)\<lparr>se_encoder := encoder, se_connection := c\<rparr>) h;
     (case report of
        None \<Rightarrow> Some (ok, h)
      | Some (key, error) \<Rightarrow> do { h \<leftarrow> session_HandleError cc p key error h; Some (ok, h) })
   }"

section \<open>The manager\<close>

definition GetSession :: "connection_key \<Rightarrow> ('x, 'k, 'c, 'h, 'w, 'e) hub_scheme \<Rightarrow> SessionState \<times> nat option" where
  "GetSession key h =
     (case um_find cn_equal cn_hash (hb_map h) key of
        None \<Rightarrow> (NeedNewSession, None)
      | Some p \<Rightarrow> (Ready, Some p))"

definition Session_new :: "'h option \<Rightarrow> 'c \<Rightarrow> ('x, 'c, 'h) session" where
  "Session_new callback c =
     \<lparr>se_encoder = None, se_decoder = None, se_connection = c, se_read_callback = callback, se_close_callback = None\<rparr>"

text \<open>The handler of a new session starts the authenticator.\<close>

definition CreateSession ::
    "'h \<Rightarrow> connection_key \<Rightarrow> 'c \<Rightarrow> ('x, 'k, 'c, 'h, 'w, 'e) hub_scheme \<Rightarrow> nat option \<times> ('x, 'k, 'c, 'h, 'w, 'e) hub_scheme" where
  "CreateSession start key c h =
     (let p = length (hb_sessions h)
      in (Some p, h\<lparr>hb_sessions := hb_sessions h @ [Session_new (Some start) c],
                    hb_map := um_set cn_equal cn_hash key p (hb_map h)\<rparr>))"

definition manager_HandleError ::
    "('x, 'k, 'c, 'w) connection_class \<Rightarrow> connection_key \<Rightarrow> CloseReason \<Rightarrow> ('x, 'k, 'c, 'h, 'w, 'e) hub_scheme \<Rightarrow>
     ('x, 'k, 'c, 'h, 'w, 'e) hub_scheme option" where
  "manager_HandleError cc key error h = do {
     session \<leftarrow> um_find cn_equal cn_hash (hb_map h) key;
     session_HandleError cc session key error h
   }"

text \<open>The transcoders report to the session, or to the manager when they have none.\<close>

definition report_error ::
    "('x, 'k, 'c, 'w) connection_class \<Rightarrow> nat option \<Rightarrow> connection_key \<Rightarrow> CloseReason \<Rightarrow> ('x, 'k, 'c, 'h, 'w, 'e) hub_scheme \<Rightarrow>
     ('x, 'k, 'c, 'h, 'w, 'e) hub_scheme option" where
  "report_error cc session key error h =
     (case session of
        Some p \<Rightarrow> session_HandleError cc p key error h
      | None \<Rightarrow> manager_HandleError cc key error h)"

section \<open>What a session relies on\<close>

text \<open>
  OpenSSL keeps its promises, keys and initialisation vectors have at most \<open>EVP_MAX_KEY_LENGTH\<close> bytes, and memory is
  large enough for what is written to it.
\<close>

definition crypto_documented ::
    "('x, 'k) crypto \<Rightarrow> (bytes \<Rightarrow> bytes \<Rightarrow> bytes \<Rightarrow> bytes) \<Rightarrow> (bytes \<Rightarrow> bytes \<Rightarrow> bytes \<Rightarrow> bytes) \<Rightarrow> bool" where
  "crypto_documented cr aes bf \<longleftrightarrow>
     ssl_documented (cr_ssl cr) aes bf \<and> rc4_documented (cr_rc4 cr) \<and> bn_documented (cr_bn cr) \<and>
     (\<forall>key m. length (cr_hmac cr key m) = kSHA1Length) \<and>
     (\<forall>p. kKeyLengthInBytes \<le> length (cr_memory cr p)) \<and>
     (\<forall>p kind. prefix_length (cr_ssl cr) kind \<le> length (cr_memory cr p)) \<and> (\<forall>kind. prefix_length (cr_ssl cr) kind \<le> 64)"

lemma crypto_documentedD:
  assumes "crypto_documented cr aes bf"
  shows "ssl_documented (cr_ssl cr) aes bf" "rc4_documented (cr_rc4 cr)" "bn_documented (cr_bn cr)"
    "length (cr_hmac cr key m) = kSHA1Length" "kKeyLengthInBytes \<le> length (cr_memory cr p)"
    "prefix_length (cr_ssl cr) kind \<le> length (cr_memory cr p)" "prefix_length (cr_ssl cr) kind \<le> 64"
    "EVP_CIPHER_key_length (kAES_256_CBC (cr_ssl cr)) = kKeyLengthInBytes"
  using assms by (simp_all add: crypto_documented_def ssl_documented_def)

text \<open>
  A connection that can still send \<open>k\<close> messages: its message buffer can be written to, and what is in it is
  encoded, put behind what waits to be sent, and gone from the buffer. \<open>seal\<close> is what the transcoder makes
  of the message \<open>m\<close>, with the random bytes \<open>prefix\<close> of the protector.
\<close>

locale message_connection =
  fixes cr :: "('x, 'k) crypto"
    and cc :: "('x, 'k, 'c, 'w) connection_class"
    and seal :: "(bytes \<Rightarrow> bytes \<Rightarrow> bytes \<Rightarrow> bytes) \<Rightarrow> (bytes \<Rightarrow> bytes \<Rightarrow> bytes \<Rightarrow> bytes) \<Rightarrow> protector_kind \<Rightarrow> bytes \<Rightarrow> bytes \<Rightarrow> 'o"
    and ready :: "nat \<Rightarrow> 'c \<Rightarrow> 'w \<Rightarrow> bool"
    and outbox :: "'c \<Rightarrow> 'w \<Rightarrow> 'o list"
  assumes get_put: "cc_Message cc (cc_put_Message cc r c) = r"
    and message_tidy: "ready k c w \<Longrightarrow> tidy [] (cc_Message cc c)"
    and put_ready: "ready k c w \<Longrightarrow> tidy [] r \<Longrightarrow> ready k (cc_put_Message cc r c) w"
    and put_outbox: "outbox (cc_put_Message cc r c) w = outbox c w"
    and sends: "crypto_documented cr aes bf \<Longrightarrow> ready (Suc k) c w \<Longrightarrow> kind_ok (pt_kind e) \<Longrightarrow> entropic (Suc n) p \<Longrightarrow>
      length (reader_contents (cc_Message cc c)) < 2 ^ 24 \<Longrightarrow>
      \<exists>x p' c' w' prefix. cc_SendMessage cc (Some e) p c w = Some (True, None, Some (e\<lparr>pt_ctx := x\<rparr>), p', c', w') \<and>
        ready k c' w' \<and> entropic n p' \<and> reader_contents (cc_Message cc c') = [] \<and>
        length prefix = prefix_length (cr_ssl cr) (pt_kind e) \<and>
        outbox c' w' = outbox c w @ [seal aes bf (pt_kind e) prefix (reader_contents (cc_Message cc c))]"

text \<open>A protector that has not been made yet scrambles when it is.\<close>

definition scrambling :: "'x protector option \<Rightarrow> bool" where
  "scrambling e \<longleftrightarrow> (\<forall>pt. e = Some pt \<longrightarrow> pt_kind pt = ScrambleSession)"

lemma session_simps [simp]:
  "p < length (hb_sessions h) \<Longrightarrow> session_at p (set_session p s h) = s"
  "set_session p s (set_session p s' h) = set_session p s h"
  "length (hb_sessions (set_session p s h)) = length (hb_sessions h)"
  "hb_prng (set_session p s h) = hb_prng h" "hb_world (set_session p s h) = hb_world h"
  "hb_map (set_session p s h) = hb_map h" "hb_deleted (set_session p s h) = hb_deleted h"
  by (simp_all add: session_at_def set_session_def)

lemma GetEncoder_scrambles:
  assumes "scrambling (se_encoder (session_at p h))" "p < length (hb_sessions h)"
  shows "\<exists>e. GetEncoder cr p h = (Some e, set_session p ((session_at p h)\<lparr>se_encoder := Some e\<rparr>) h) \<and> pt_kind e = ScrambleSession"
proof (cases "se_encoder (session_at p h)")
  case None
  with assms(2) show ?thesis by (auto simp: GetEncoder_def SetEncoder_def new_protector_def)
next
  case (Some e)
  then have "session_at p h = (session_at p h)\<lparr>se_encoder := Some e\<rparr>" by simp
  then have "h = set_session p ((session_at p h)\<lparr>se_encoder := Some e\<rparr>) h"
    by (simp add: set_session_def session_at_def)
  with Some assms(1) show ?thesis by (intro exI [of _ e]) (simp add: GetEncoder_def scrambling_def)
qed

lemma GetDecoder_scrambles:
  assumes "scrambling (se_decoder (session_at p h))" "p < length (hb_sessions h)"
  shows "\<exists>e. GetDecoder cr p h = (Some e, set_session p ((session_at p h)\<lparr>se_decoder := Some e\<rparr>) h) \<and> pt_kind e = ScrambleSession"
proof (cases "se_decoder (session_at p h)")
  case None
  with assms(2) show ?thesis by (auto simp: GetDecoder_def SetDecoder_def new_protector_def)
next
  case (Some e)
  then have "session_at p h = (session_at p h)\<lparr>se_decoder := Some e\<rparr>" by simp
  then have "h = set_session p ((session_at p h)\<lparr>se_decoder := Some e\<rparr>) h"
    by (simp add: set_session_def session_at_def)
  with Some assms(1) show ?thesis by (intro exI [of _ e]) (simp add: GetDecoder_def scrambling_def)
qed

context message_connection
begin

definition session_ready :: "nat \<Rightarrow> nat \<Rightarrow> ('x, 'k, 'c, 'h, 'w, 'e) hub_scheme \<Rightarrow> bool" where
  "session_ready k p h \<longleftrightarrow> p < length (hb_sessions h) \<and> ready k (se_connection (session_at p h)) (hb_world h)"

definition sent_by :: "nat \<Rightarrow> ('x, 'k, 'c, 'h, 'w, 'e) hub_scheme \<Rightarrow> 'o list" where
  "sent_by p h = outbox (se_connection (session_at p h)) (hb_world h)"

lemma put_Message_result:
  assumes "session_ready k p h" "tidy [] r"
  shows "session_ready k p (put_Message cc p r h)" "Message cc p (put_Message cc p r h) = r"
    "sent_by p (put_Message cc p r h) = sent_by p h"
  using assms by (simp_all add: session_ready_def put_Message_def Message_def sent_by_def get_put put_ready put_outbox)

lemma SendMessage_scrambles:
  assumes "crypto_documented cr aes bf" "session_ready (Suc k) p h" "scrambling (se_encoder (session_at p h))"
    "entropic (Suc n) (hb_prng h)" "length (reader_contents (Message cc p h)) < 2 ^ 24"
  shows "\<exists>e rng c w prefix. SendMessage cr cc p h =
      Some (True, set_session p ((session_at p h)\<lparr>se_encoder := Some e, se_connection := c\<rparr>) (h\<lparr>hb_prng := rng, hb_world := w\<rparr>)) \<and>
    pt_kind e = ScrambleSession \<and> ready k c w \<and> entropic n rng \<and> reader_contents (cc_Message cc c) = [] \<and>
    length prefix = prefix_length (cr_ssl cr) ScrambleSession \<and>
    outbox c w = sent_by p h @ [seal aes bf ScrambleSession prefix (reader_contents (Message cc p h))]"
proof -
  have p: "p < length (hb_sessions h)" "ready (Suc k) (se_connection (session_at p h)) (hb_world h)"
    using assms(2) by (simp_all add: session_ready_def)
  obtain e where e: "GetEncoder cr p h = (Some e, set_session p ((session_at p h)\<lparr>se_encoder := Some e\<rparr>) h)" "pt_kind e = ScrambleSession"
    using GetEncoder_scrambles [OF assms(3) p(1)] by blast
  have "kind_ok (pt_kind e)" by (simp add: e(2))
  from sends [OF assms(1) p(2) this assms(4) assms(5) [unfolded Message_def]] obtain x rng c w prefix where
    send: "cc_SendMessage cc (Some e) (hb_prng h) (se_connection (session_at p h)) (hb_world h) =
      Some (True, None, Some (e\<lparr>pt_ctx := x\<rparr>), rng, c, w)" and
    facts: "ready k c w" "entropic n rng" "reader_contents (cc_Message cc c) = []" "length prefix = prefix_length (cr_ssl cr) ScrambleSession"
      "outbox c w = outbox (se_connection (session_at p h)) (hb_world h) @
        [seal aes bf ScrambleSession prefix (reader_contents (cc_Message cc (se_connection (session_at p h))))]"
    unfolding e(2) by blast
  have "set_session p s (set_session p s' h\<lparr>hb_prng := rng, hb_world := w\<rparr>) = set_session p s (h\<lparr>hb_prng := rng, hb_world := w\<rparr>)" for s s'
    by (simp add: set_session_def)
  moreover have "session_at p (set_session p s h\<lparr>hb_prng := rng, hb_world := w\<rparr>) = s" for s
    using p(1) by (simp add: session_at_def set_session_def)
  ultimately have "SendMessage cr cc p h = Some (True, set_session p ((session_at p h)\<lparr>se_encoder := Some (e\<lparr>pt_ctx := x\<rparr>), se_connection := c\<rparr>)
      (h\<lparr>hb_prng := rng, hb_world := w\<rparr>))"
    using e(1) send p(1) by (simp add: SendMessage_def)
  with facts e(2) show ?thesis unfolding sent_by_def Message_def
    by (intro exI [of _ "e\<lparr>pt_ctx := x\<rparr>"] exI conjI) simp_all
qed

end

end
