(* ===== verification/Authenticators.thy ===== *)
theory Authenticators
  imports Sessions SrpExchange UserDb
begin

text \<open>
  \<open>src/src/srp-server-authenticator.h\<close>, \<open>.cc\<close> and \<open>src/src/srp-client-authenticator.h\<close>, \<open>.cc\<close>: the two sides of
  the login, as handlers that a session calls with the data of each message.

  A handler parses a copy of the cursor it is given, and moves that cursor only when it has accepted
  the message. \<open>LOG_FATAL\<close> ends the program: there is no result.
\<close>

section \<open>Copied cursors\<close>

text \<open>\<open>cursor->Increment(cursor->LeftSize() - parsed.LeftSize())\<close>\<close>

definition skip_parsed :: "cursor \<Rightarrow> reader \<Rightarrow> (chunkset \<times> cursor) option" where
  "skip_parsed cur r = do {
     left \<leftarrow> oc_left (fst r) cur;
     parsed_left \<leftarrow> oc_left (fst r) (snd r);
     oc_increment (fst r) cur (left - parsed_left)
   }"

section \<open>The server\<close>

text \<open>The handlers a session of the server can have; a channel's are of type \<open>'h\<close>.\<close>

datatype 'h server_handler = Start_authenticator | Parse_public_key nat | Channel_reads 'h

record server_auth =
  au_srps :: srp_server
  au_username :: bytes

text \<open>
  The program's state has the \<open>AuthenticationSession\<close> objects, the database of users, and what the system
  will answer when that is opened: whether there is a file, its lock and its contents.
\<close>

record ('x, 'k, 'c, 'h, 'w) server = "('x, 'k, 'c, 'h server_handler, 'w) hub" +
  sv_auths :: "server_auth list"
  sv_userdb :: udb
  sv_opens :: "(bool \<times> lock_result \<times> read_result list) list"

text \<open>\<open>UserDbSession\<close>: opened when it is constructed, whatever \<open>Open\<close> returns, and closed at the end of its scope.\<close>

definition UserDbSession_open :: "('x, 'k, 'c, 'h, 'w) server \<Rightarrow> ('x, 'k, 'c, 'h, 'w) server option" where
  "UserDbSession_open sv =
     (case sv_opens sv of
        [] \<Rightarrow> None
      | (opened, lock, reads) # rest \<Rightarrow> do {
          (_, u) \<leftarrow> udb_Open opened lock reads (sv_userdb sv);
          Some (sv\<lparr>sv_userdb := u, sv_opens := rest\<rparr>)
        })"

definition UserDbSession_close :: "('x, 'k, 'c, 'h, 'w) server \<Rightarrow> ('x, 'k, 'c, 'h, 'w) server" where
  "UserDbSession_close sv = sv\<lparr>sv_userdb := snd (udb_Close (sv_userdb sv))\<rparr>"

definition new_auth :: "('x, 'k, 'c, 'h, 'w) server \<Rightarrow> (nat \<times> ('x, 'k, 'c, 'h, 'w) server) option" where
  "new_auth sv = do {
     srps \<leftarrow> SrpServer_new;
     Some (length (sv_auths sv), sv\<lparr>sv_auths := sv_auths sv @ [\<lparr>au_srps = srps, au_username = []\<rparr>]\<rparr>)
   }"

definition set_auth :: "nat \<Rightarrow> server_auth \<Rightarrow> ('x, 'k, 'c, 'h, 'w) server \<Rightarrow> ('x, 'k, 'c, 'h, 'w) server" where
  "set_auth a au sv = sv\<lparr>sv_auths := (sv_auths sv)[a := au]\<rparr>"

text \<open>\<open>AuthenticationSession::StartAuthentication\<close> of the object \<open>a\<close>, for the session \<open>p\<close>.\<close>

definition AuthenticationSession_Start ::
    "('x, 'k) crypto \<Rightarrow> ('x, 'k, 'c, 'w) connection_class \<Rightarrow> nat \<Rightarrow> nat \<Rightarrow> reader \<Rightarrow> ('x, 'k, 'c, 'h, 'w) server \<Rightarrow>
     (reader \<times> ('x, 'k, 'c, 'h, 'w) server) option" where
  "AuthenticationSession_Start cr cc a p cursor sv = do {
     parsed \<leftarrow> oc_copy (fst cursor) (snd cursor);
     (result, name, parsed) \<leftarrow> ParseClientHello parsed;
     fatal_unless (\<not> result < 0);
     fatal_unless (\<not> 0 < result);
     name \<leftarrow> name;
     let sv = set_auth a ((sv_auths sv ! a)\<lparr>au_username := name\<rparr>) sv;
     sv \<leftarrow> UserDbSession_open sv;
     let (found, encodedpassword) = GetUser name (sv_userdb sv);
     fatal_unless found;
     encodedpassword \<leftarrow> encodedpassword;
     fresh \<leftarrow> new_buffer;
     (ok, srps) \<leftarrow> InitSession (cr_bn cr) fresh name encodedpassword (au_srps (sv_auths sv ! a));
     let sv = set_auth a ((sv_auths sv ! a)\<lparr>au_srps := srps\<rparr>) sv;
     fatal_unless ok;
     (ok, message) \<leftarrow> FillServerHello (Message cc p sv) srps;
     let sv = put_Message cc p message sv;
     fatal_unless ok;
     (sent, sv) \<leftarrow> SendMessage cr cc p sv;
     (if \<not> sent then do {
        s \<leftarrow> oc_destroy (fst parsed) (snd parsed);
        Some ((s, snd cursor), UserDbSession_close sv)
      }
      else do {
        (s, cur) \<leftarrow> skip_parsed (snd cursor) parsed;
        let sv = SetCallbacks p (Some (Parse_public_key a)) (Some (Authentication_closed a)) sv;
        s \<leftarrow> oc_destroy s (snd parsed);
        Some ((s, cur), UserDbSession_close sv)
      })
   }"

definition StartAuthentication ::
    "('x, 'k) crypto \<Rightarrow> ('x, 'k, 'c, 'w) connection_class \<Rightarrow> nat \<Rightarrow> reader \<Rightarrow> ('x, 'k, 'c, 'h, 'w) server \<Rightarrow>
     (reader \<times> ('x, 'k, 'c, 'h, 'w) server) option" where
  "StartAuthentication cr cc p cursor sv = do {
     (a, sv) \<leftarrow> new_auth sv;
     AuthenticationSession_Start cr cc a p cursor sv
   }"

text \<open>The keys of a session: the salt and the key are whatever was in memory until they are set.\<close>

definition new_aes_key :: "('x, 'k) crypto \<Rightarrow> 'k prng \<Rightarrow> aes_session_key" where
  "new_aes_key cr p = \<lparr>ak_salt = take kKeyLengthInBytes (cr_memory cr p), ak_key = take kKeyLengthInBytes (cr_memory cr p)\<rparr>"

definition new_aes_protector :: "('x, 'k) crypto \<Rightarrow> aes_session_key \<Rightarrow> 'x protector option" where
  "new_aes_protector cr aeskey = do {
     key \<leftarrow> AesSessionProtector_new (kAES_256_CBC (cr_ssl cr)) aeskey;
     Some (new_protector cr (AesSession key))
   }"

definition ParsePublicKeyCallback ::
    "('x, 'k) crypto \<Rightarrow> ('x, 'k, 'c, 'w) connection_class \<Rightarrow>
     (nat \<Rightarrow> ('x, 'k, 'c, 'h, 'w) server \<Rightarrow> ('x, 'k, 'c, 'h, 'w) server option) \<Rightarrow> nat \<Rightarrow>
     nat \<Rightarrow> reader \<Rightarrow> ('x, 'k, 'c, 'h, 'w) server \<Rightarrow> (reader \<times> ('x, 'k, 'c, 'h, 'w) server) option" where
  "ParsePublicKeyCallback cr cc HandleConnect a p cursor sv = do {
     parsed \<leftarrow> oc_copy (fst cursor) (snd cursor);
     (result, parsed, srps) \<leftarrow> ParseClientPublicKey (cr_bn cr) parsed (au_srps (sv_auths sv ! a));
     let sv = set_auth a ((sv_auths sv ! a)\<lparr>au_srps := srps\<rparr>) sv;
     fatal_unless (\<not> result < 0);
     (if 0 < result then do {
        s \<leftarrow> oc_destroy (fst parsed) (snd parsed);
        Some ((s, snd cursor), sv)
      }
      else do {
        (ok, prng, message, srps) \<leftarrow> FillServerPublicKey (cr_bn cr) (cr_rc4 cr) (hb_prng sv) (Message cc p sv) srps;
        let sv = put_Message cc p message (set_auth a ((sv_auths sv ! a)\<lparr>au_srps := srps\<rparr>) (sv\<lparr>hb_prng := prng\<rparr>));
        fatal_unless ok;
        (_, secret) \<leftarrow> server_GetPrivateKey (cr_bn cr) (sb_new (cr_memory cr (hb_prng sv))) srps;
        let aeskey = new_aes_key cr (hb_prng sv);
        (prng, message, aeskey) \<leftarrow> SendSalt (cr_rc4 cr) (hb_prng sv) (Message cc p sv) aeskey;
        let sv = put_Message cc p message (sv\<lparr>hb_prng := prng\<rparr>);
        (sent, sv) \<leftarrow> SendMessage cr cc p sv;
        (if \<not> sent then do {
           s \<leftarrow> oc_destroy (fst parsed) (snd parsed);
           Some ((s, snd cursor), sv)
         }
         else do {
           (s, cur) \<leftarrow> skip_parsed (snd cursor) parsed;
           let aeskey = SetupKey (cr_hmac cr) secret aeskey;
           encoder \<leftarrow> new_aes_protector cr aeskey;
           decoder \<leftarrow> new_aes_protector cr aeskey;
           sv \<leftarrow> AuthenticationDoneHandler HandleConnect p SessionMaybeAuthenticated (Some encoder) (Some decoder) sv;
           s \<leftarrow> oc_destroy s (snd parsed);
           Some ((s, cur), sv)
         })
      })
   }"

text \<open>A channel: what it does with a new session, and the handlers it sets for the data.\<close>

record ('h, 's) channel =
  ch_HandleConnect :: "nat \<Rightarrow> 's \<Rightarrow> 's option"
  ch_Read :: "'h \<Rightarrow> nat \<Rightarrow> reader \<Rightarrow> 's \<Rightarrow> (reader \<times> 's) option"

fun call_server ::
    "('x, 'k) crypto \<Rightarrow> ('x, 'k, 'c, 'w) connection_class \<Rightarrow> ('h, ('x, 'k, 'c, 'h, 'w) server) channel \<Rightarrow> 'h server_handler \<Rightarrow>
     nat \<Rightarrow> reader \<Rightarrow> ('x, 'k, 'c, 'h, 'w) server \<Rightarrow> (reader \<times> ('x, 'k, 'c, 'h, 'w) server) option" where
  "call_server cr cc ch Start_authenticator p cursor sv = StartAuthentication cr cc p cursor sv"
| "call_server cr cc ch (Parse_public_key a) p cursor sv = ParsePublicKeyCallback cr cc (ch_HandleConnect ch) a p cursor sv"
| "call_server cr cc ch (Channel_reads h) p cursor sv = ch_Read ch h p cursor sv"

section \<open>The client\<close>

datatype 'h client_handler = Hello_callback nat | Public_key_callback nat | Client_channel_reads 'h

datatype chatter_type = kUserName | kPassword

text \<open>
  \<open>UserChatter\<close> asks the user: what \<open>Get\<close> will put into the buffer, nothing when it fails. The
  \<open>AuthenticationSession\<close> objects of the client are their SRP sessions.
\<close>

record ('x, 'k, 'c, 'h, 'w) client = "('x, 'k, 'c, 'h client_handler, 'w) hub" +
  cl_auths :: "srp_client list"
  cl_chatter :: "chatter_type \<Rightarrow> static_buffer option"

definition set_client_auth :: "nat \<Rightarrow> srp_client \<Rightarrow> ('x, 'k, 'c, 'h, 'w) client \<Rightarrow> ('x, 'k, 'c, 'h, 'w) client" where
  "set_client_auth a au cl = cl\<lparr>cl_auths := (cl_auths cl)[a := au]\<rparr>"

definition client_AuthenticationSession ::
    "('x, 'k) crypto \<Rightarrow> ('x, 'k, 'c, 'w) connection_class \<Rightarrow> bytes \<Rightarrow> nat \<Rightarrow> ('x, 'k, 'c, 'h, 'w) client \<Rightarrow>
     ('x, 'k, 'c, 'h, 'w) client option" where
  "client_AuthenticationSession cr cc username p cl = do {
     session \<leftarrow> SrpClient_new username;
     let a = length (cl_auths cl);
     let cl = cl\<lparr>cl_auths := cl_auths cl @ [session]\<rparr>;
     message \<leftarrow> FillClientHello (Message cc p cl) session;
     let cl = put_Message cc p message cl;
     let cl = SetCallbacks p (Some (Hello_callback a)) None cl;
     (_, cl) \<leftarrow> SendMessage cr cc p cl;
     Some cl
   }"

definition client_StartAuthentication ::
    "('x, 'k) crypto \<Rightarrow> ('x, 'k, 'c, 'w) connection_class \<Rightarrow> nat \<Rightarrow> ('x, 'k, 'c, 'h, 'w) client \<Rightarrow>
     (bool \<times> ('x, 'k, 'c, 'h, 'w) client) option" where
  "client_StartAuthentication cr cc p cl =
     (case cl_chatter cl kUserName of
        None \<Rightarrow> Some (False, cl)
      | Some username \<Rightarrow> do {
          cl \<leftarrow> client_AuthenticationSession cr cc (sb_content username) p cl;
          Some (True, cl)
        })"

definition HelloCallback ::
    "('x, 'k) crypto \<Rightarrow> ('x, 'k, 'c, 'w) connection_class \<Rightarrow> nat \<Rightarrow> nat \<Rightarrow> reader \<Rightarrow> ('x, 'k, 'c, 'h, 'w) client \<Rightarrow>
     (reader \<times> ('x, 'k, 'c, 'h, 'w) client) option" where
  "HelloCallback cr cc a p cursor cl = do {
     parsed \<leftarrow> oc_copy (fst cursor) (snd cursor);
     (missing, parsed, session) \<leftarrow> ParseServerHello parsed (cl_auths cl ! a);
     let cl = set_client_auth a session cl;
     fatal_unless (\<not> missing < 0);
     (if 0 < missing then do {
        s \<leftarrow> oc_destroy (fst parsed) (snd parsed);
        Some ((s, snd cursor), cl)
      }
      else do {
        (s, cur) \<leftarrow> skip_parsed (snd cursor) parsed;
        (_, prng, message, session) \<leftarrow> FillClientPublicKey (cr_bn cr) (cr_rc4 cr) (hb_prng cl) (Message cc p cl) session;
        let cl = put_Message cc p message (set_client_auth a session (cl\<lparr>hb_prng := prng\<rparr>));
        let cl = SetCallbacks p (Some (Public_key_callback a)) None cl;
        (_, cl) \<leftarrow> SendMessage cr cc p cl;
        s \<leftarrow> oc_destroy s (snd parsed);
        Some ((s, cur), cl)
      })
   }"

definition PublicKeyCallback ::
    "('x, 'k) crypto \<Rightarrow> ('x, 'k, 'c, 'w) connection_class \<Rightarrow>
     (nat \<Rightarrow> ('x, 'k, 'c, 'h, 'w) client \<Rightarrow> ('x, 'k, 'c, 'h, 'w) client option) \<Rightarrow> nat \<Rightarrow>
     nat \<Rightarrow> reader \<Rightarrow> ('x, 'k, 'c, 'h, 'w) client \<Rightarrow> (reader \<times> ('x, 'k, 'c, 'h, 'w) client) option" where
  "PublicKeyCallback cr cc HandleSession a p cursor cl = do {
     parsed \<leftarrow> oc_copy (fst cursor) (snd cursor);
     (result, parsed, session) \<leftarrow> ParseServerPublicKey (cr_bn cr) parsed (cl_auths cl ! a);
     let cl = set_client_auth a session cl;
     fatal_unless (\<not> result < 0);
     (if 0 < result then do {
        s \<leftarrow> oc_destroy (fst parsed) (snd parsed);
        Some ((s, snd cursor), cl)
      }
      else do {
        password \<leftarrow> cl_chatter cl kPassword;
        (ok, key, session) \<leftarrow> client_GetPrivateKey (cr_bn cr) password (sb_new (cr_memory cr (hb_prng cl))) session;
        let cl = set_client_auth a session cl;
        fatal_unless ok;
        let aeskey = new_aes_key cr (hb_prng cl);
        (missing, parsed, aeskey) \<leftarrow> RecvSalt parsed aeskey;
        fatal_unless (missing = 0);
        (s, cur) \<leftarrow> skip_parsed (snd cursor) parsed;
        let aeskey = SetupKey (cr_hmac cr) key aeskey;
        encoder \<leftarrow> new_aes_protector cr aeskey;
        decoder \<leftarrow> new_aes_protector cr aeskey;
        cl \<leftarrow> AuthenticationDoneHandler HandleSession p SessionMaybeAuthenticated (Some encoder) (Some decoder) cl;
        s \<leftarrow> oc_destroy s (snd parsed);
        Some ((s, cur), cl)
      })
   }"

fun call_client ::
    "('x, 'k) crypto \<Rightarrow> ('x, 'k, 'c, 'w) connection_class \<Rightarrow> ('h, ('x, 'k, 'c, 'h, 'w) client) channel \<Rightarrow> 'h client_handler \<Rightarrow>
     nat \<Rightarrow> reader \<Rightarrow> ('x, 'k, 'c, 'h, 'w) client \<Rightarrow> (reader \<times> ('x, 'k, 'c, 'h, 'w) client) option" where
  "call_client cr cc ch (Hello_callback a) p cursor cl = HelloCallback cr cc a p cursor cl"
| "call_client cr cc ch (Public_key_callback a) p cursor cl = PublicKeyCallback cr cc (ch_HandleConnect ch) a p cursor cl"
| "call_client cr cc ch (Client_channel_reads h) p cursor cl = ch_Read ch h p cursor cl"

end
