(* ===== verification/UdpTranscoders.thy ===== *)
theory UdpTranscoders
  imports Authenticators
begin

text \<open>
  \<open>src/src/server-udp-transcoder.h\<close>, \<open>.cc\<close> and \<open>src/src/client-udp-transcoder.h\<close>, \<open>.cc\<close>: a message of a session is
  one datagram, the encoder's output and nothing else.

  The sockets are reached through the interfaces of \<open>src/src/transport.h\<close>, records of their methods over
  the state \<open>'n\<close> they change; \<open>WantRead\<close> and \<open>WantWrite\<close> have the transcoder's handler already.
\<close>

definition kMaxPacketSize :: nat where "kMaxPacketSize = 8192"

section \<open>The server\<close>

record 'n datagram_socket = "'n datagram_channel" +
  ds_Read :: "chunkset \<Rightarrow> 'n \<Rightarrow> (io_result \<times> sockaddr option \<times> chunkset \<times> 'n) option"
  ds_WantRead :: "'n \<Rightarrow> 'n option"

record udp_connection =
  uc_address :: "sockaddr option"
  uc_buffer :: reader
  uc_slot :: packet_slot

record 'n udp_server =
  us_queue :: "'n datagram_queue"
  us_socket :: "'n datagram_socket option"
  us_net :: 'n

text \<open>\<open>Start\<close>: \<open>listen\<close> is the transport's \<open>DatagramListenOn\<close> of the address.\<close>

definition UdpServer_Start ::
    "('n \<Rightarrow> ('n datagram_socket option \<times> 'n) option) \<Rightarrow> 'n udp_server \<Rightarrow> (bool \<times> 'n udp_server) option" where
  "UdpServer_Start listen u = do {
     (socket, n) \<leftarrow> listen (us_net u);
     let u = u\<lparr>us_socket := socket, us_net := n\<rparr>;
     (case socket of
        None \<Rightarrow> Some (False, u)
      | Some socket \<Rightarrow> do {
          let u = u\<lparr>us_queue := SetChannel (datagram_channel.truncate socket) (us_queue u)\<rparr>;
          n \<leftarrow> ds_WantRead socket (us_net u);
          Some (True, u\<lparr>us_net := n\<rparr>)
        })
   }"

definition udp_Connection_new :: "sockaddr option \<Rightarrow> udp_connection option" where
  "udp_Connection_new address = do {
     buffer \<leftarrow> new_buffer;
     slot \<leftarrow> GetPacketSlot;
     Some \<lparr>uc_address = address, uc_buffer = buffer, uc_slot = slot\<rparr>
   }"

definition udp_Message :: "udp_connection \<Rightarrow> reader" where
  "udp_Message c = uc_buffer c"

definition udp_Header :: "udp_connection \<Rightarrow> reader" where
  "udp_Header c = sl_buffer (uc_slot c)"

definition udp_Close :: "udp_connection \<Rightarrow> 'w \<Rightarrow> (udp_connection \<times> 'w) option" where
  "udp_Close c w = Some (c, w)"

text \<open>
  \<open>Encode\<close> of the message into a buffer, or its copy when there is no encoder; the message's reader, the
  output and the rest that changes.
\<close>

definition encode_message ::
    "('x, 'k) crypto \<Rightarrow> 'x protector option \<Rightarrow> 'k prng \<Rightarrow> reader \<Rightarrow> reader \<Rightarrow>
     (bool \<times> 'x protector option \<times> 'k prng \<times> reader \<times> reader) option" where
  "encode_message cr encoder prng message out =
     (case encoder of
        Some e \<Rightarrow> do {
          (ok, prng, message, s, e) \<leftarrow> Encode (cr_ssl cr) (cr_rc4 cr) (cr_memory cr prng) prng message (fst out) e;
          Some (ok, Some e, prng, message, (s, snd out))
        }
      | None \<Rightarrow> do {
          (_, s, cur, d) \<leftarrow> encode_cursor (fst message) (snd message) (fst out);
          Some (True, None, prng, (s, cur), (d, snd out))
        })"

definition udp_SendMessage ::
    "('x, 'k) crypto \<Rightarrow> 'x protector option \<Rightarrow> 'k prng \<Rightarrow> udp_connection \<Rightarrow> 'n udp_server \<Rightarrow>
     (bool \<times> (connection_key \<times> CloseReason) option \<times> 'x protector option \<times> 'k prng \<times> udp_connection \<times> 'n udp_server) option" where
  "udp_SendMessage cr encoder prng c u = do {
     (ok, encoder, prng, message, out) \<leftarrow> encode_message cr encoder prng (uc_buffer c) (sl_buffer (uc_slot c));
     let c = c\<lparr>uc_buffer := message, uc_slot := (uc_slot c)\<lparr>sl_buffer := out\<rparr>\<rparr>;
     (if \<not> ok then Some (False, None, encoder, prng, c, u)
      else do {
        let slot = (uc_slot c)\<lparr>sl_address := uc_address c\<rparr>;
        (q, n) \<leftarrow> QueuePacketSlot slot (us_queue u) (us_net u);
        slot \<leftarrow> GetPacketSlot;
        Some (True, None, encoder, prng, c\<lparr>uc_slot := slot\<rparr>, u\<lparr>us_queue := q, us_net := n\<rparr>)
      })
   }"

definition udp_class :: "('x, 'k) crypto \<Rightarrow> ('x, 'k, udp_connection, 'n udp_server) connection_class" where
  "udp_class cr = \<lparr>cc_Message = udp_Message, cc_put_Message = (\<lambda>r c. c\<lparr>uc_buffer := r\<rparr>),
     cc_SendMessage = udp_SendMessage cr, cc_Close = udp_Close\<rparr>"

text \<open>A packet that was read from \<open>address\<close>. \<open>memory\<close> is what the key's buffer held, \<open>this\<close> the transcoder's address.\<close>

definition udp_HandlePacket ::
    "('x, 'k) crypto \<Rightarrow> ('h server_handler \<Rightarrow> nat \<Rightarrow> reader \<Rightarrow> ('x, 'k, udp_connection, 'h, 'n udp_server) server \<Rightarrow>
       (reader \<times> ('x, 'k, udp_connection, 'h, 'n udp_server) server) option) \<Rightarrow>
     connection_key \<Rightarrow> sockaddr option \<Rightarrow> reader \<Rightarrow> ('x, 'k, udp_connection, 'h, 'n udp_server) server \<Rightarrow>
     ('x, 'k, udp_connection, 'h, 'n udp_server) server option" where
  "udp_HandlePacket cr call key address packet sv = do {
     let (state, session) = GetSession key sv;
     (session, sv) \<leftarrow> (if state = NeedNewSession then do {
          connection \<leftarrow> udp_Connection_new address;
          Some (CreateSession Start_authenticator key connection sv)
        } else Some (session, sv));
     (case session of
        None \<Rightarrow> report_error (udp_class cr) None key Manager sv
      | Some p \<Rightarrow>
          (let state = (if state = NeedNewSession \<or> state = Ready then IsReady key p sv else state)
           in if state \<noteq> Ready then report_error (udp_class cr) session key Manager sv
              else do {
                let (decoder, sv) = GetDecoder cr p sv;
                decoder \<leftarrow> decoder;
                decoded \<leftarrow> new_buffer;
                (result, packet, d, decoder) \<leftarrow> Decode (cr_ssl cr) packet (fst decoded) decoder;
                let sv = SetDecoder p (Some decoder) sv;
                (if result \<noteq> SUCCEEDED then report_error (udp_class cr) session key Decoding sv
                 else do {
                   (_, sv) \<leftarrow> HandlePacket call p (d, snd decoded) sv;
                   Some sv
                 })
              }))
   }"

definition udp_HandleRead ::
    "('x, 'k) crypto \<Rightarrow> ('h, ('x, 'k, udp_connection, 'h, 'n udp_server) server) channel \<Rightarrow> bytes \<Rightarrow> u64 \<Rightarrow>
     ('x, 'k, udp_connection, 'h, 'n udp_server) server \<Rightarrow>
     (processing_state \<times> ('x, 'k, udp_connection, 'h, 'n udp_server) server) option" where
  "udp_HandleRead cr ch memory this sv = do {
     packet \<leftarrow> new_buffer;
     socket \<leftarrow> us_socket (hb_world sv);
     (status, address, s, n) \<leftarrow> ds_Read socket (ic_reserve (fst packet) kMaxPacketSize) (us_net (hb_world sv));
     let sv = sv\<lparr>hb_world := (hb_world sv)\<lparr>us_net := n\<rparr>\<rparr>;
     (if status \<noteq> OK then Some (MORE, sv)
      else do {
        sender \<leftarrow> address;
        key \<leftarrow> dk_Add kConnectionKeySize (sa_Data sender) (of_nat (sa_Size sender)) (cn_new memory this);
        sv \<leftarrow> udp_HandlePacket cr (call_server cr (udp_class cr) ch) key address (s, snd packet) sv;
        Some (MORE, sv)
      })
   }"

text \<open>What the write handler of the queue does.\<close>

definition udp_HandleWrite ::
    "('x, 'k, udp_connection, 'h, 'n udp_server) server \<Rightarrow>
     (processing_state \<times> ('x, 'k, udp_connection, 'h, 'n udp_server) server) option" where
  "udp_HandleWrite sv = do {
     (status, q, n) \<leftarrow> DatagramQueue_HandleWrite (us_queue (hb_world sv)) (us_net (hb_world sv));
     Some (status, sv\<lparr>hb_world := (hb_world sv)\<lparr>us_queue := q, us_net := n\<rparr>\<rparr>)
   }"

section \<open>The client\<close>

record 'n bound_channel =
  bc_Read :: "chunkset \<Rightarrow> 'n \<Rightarrow> (io_result \<times> chunkset \<times> 'n) option"
  bc_Write :: "reader \<Rightarrow> 'n \<Rightarrow> (io_result \<times> reader \<times> 'n) option"
  bc_WantRead :: "'n \<Rightarrow> 'n option"
  bc_WantWrite :: "'n \<Rightarrow> 'n option"

record 'n udp_client_connection =
  uk_key :: connection_key
  uk_socket :: "'n bound_channel"
  uk_queue :: packet_queue
  uk_buffer :: reader

text \<open>\<open>this\<close> is the address of the new connection, and \<open>connect\<close> the transport's \<open>DatagramConnect\<close>.\<close>

definition udp_client_Connection_new ::
    "bytes \<Rightarrow> u64 \<Rightarrow> 'n bound_channel \<Rightarrow> 'n \<Rightarrow> ('n udp_client_connection \<times> 'n) option" where
  "udp_client_Connection_new memory this socket n = do {
     buffer \<leftarrow> new_buffer;
     n \<leftarrow> bc_WantRead socket n;
     Some (\<lparr>uk_key = cn_new memory this, uk_socket = socket, uk_queue = PacketQueue_new, uk_buffer = buffer\<rparr>, n)
   }"

definition udp_Connect ::
    "(sockaddr \<Rightarrow> 'n \<Rightarrow> ('n bound_channel option \<times> 'n) option) \<Rightarrow> bytes \<Rightarrow> u64 \<Rightarrow> sockaddr \<Rightarrow> 'n \<Rightarrow>
     ('n udp_client_connection option \<times> 'n) option" where
  "udp_Connect connect memory this address n = do {
     (socket, n) \<leftarrow> connect address n;
     (case socket of
        None \<Rightarrow> Some (None, n)
      | Some socket \<Rightarrow> do {
          (c, n) \<leftarrow> udp_client_Connection_new memory this socket n;
          Some (Some c, n)
        })
   }"

definition udp_client_GetKey :: "'n udp_client_connection \<Rightarrow> connection_key" where
  "udp_client_GetKey c = uk_key c"

definition udp_client_Message :: "'n udp_client_connection \<Rightarrow> reader" where
  "udp_client_Message c = uk_buffer c"

definition udp_client_Header :: "'n udp_client_connection \<Rightarrow> (reader \<times> 'n udp_client_connection) option" where
  "udp_client_Header c = do { (b, q) \<leftarrow> ToQueue (uk_queue c); Some (b, c\<lparr>uk_queue := q\<rparr>) }"

definition udp_client_Close :: "'n udp_client_connection \<Rightarrow> 'n \<Rightarrow> ('n udp_client_connection \<times> 'n) option" where
  "udp_client_Close c n = Some (c, n)"

definition udp_client_SendMessage ::
    "('x, 'k) crypto \<Rightarrow> 'x protector option \<Rightarrow> 'k prng \<Rightarrow> 'n udp_client_connection \<Rightarrow> 'n \<Rightarrow>
     (bool \<times> (connection_key \<times> CloseReason) option \<times> 'x protector option \<times> 'k prng \<times> 'n udp_client_connection \<times> 'n) option" where
  "udp_client_SendMessage cr encoder prng c n = do {
     (b, q) \<leftarrow> ToQueue (uk_queue c);
     (ok, encoder, prng, message, b) \<leftarrow> encode_message cr encoder prng (uk_buffer c) b;
     let q = q\<lparr>pq_to_queue := Some b\<rparr>;
     let c = c\<lparr>uk_buffer := message, uk_queue := q\<rparr>;
     (if \<not> ok then Some (False, None, encoder, prng, c, n)
      else do {
        q \<leftarrow> Queued q;
        n \<leftarrow> bc_WantWrite (uk_socket c) n;
        Some (True, None, encoder, prng, c\<lparr>uk_queue := q\<rparr>, n)
      })
   }"

definition udp_client_class :: "('x, 'k) crypto \<Rightarrow> ('x, 'k, 'n udp_client_connection, 'n) connection_class" where
  "udp_client_class cr = \<lparr>cc_Message = udp_client_Message, cc_put_Message = (\<lambda>r c. c\<lparr>uk_buffer := r\<rparr>),
     cc_SendMessage = udp_client_SendMessage cr, cc_Close = udp_client_Close\<rparr>"

text \<open>The handlers of the connection of the session \<open>p\<close>.\<close>

definition udp_client_HandleWrite ::
    "nat \<Rightarrow> ('x, 'k, 'n udp_client_connection, 'h, 'n) client \<Rightarrow>
     (processing_state \<times> ('x, 'k, 'n udp_client_connection, 'h, 'n) client) option" where
  "udp_client_HandleWrite p cl = do {
     let c = se_connection (session_at p cl);
     b \<leftarrow> ToSend (uk_queue c);
     (_, _, n) \<leftarrow> bc_Write (uk_socket c) b (hb_world cl);
     q \<leftarrow> Sent (uk_queue c);
     let cl = set_session p ((session_at p cl)\<lparr>se_connection := c\<lparr>uk_queue := q\<rparr>\<rparr>) (cl\<lparr>hb_world := n\<rparr>);
     Some (if Pending q = 0 then DONE else MORE, cl)
   }"

text \<open>A client has no session but the ones it made: \<open>CreateSession\<close> returns the null pointer.\<close>

definition client_CreateSession ::
    "connection_key \<Rightarrow> 'c \<Rightarrow> ('x, 'k, 'c, 'h, 'w) client \<Rightarrow> nat option \<times> ('x, 'k, 'c, 'h, 'w) client" where
  "client_CreateSession key c cl = (None, cl)"

definition udp_client_HandlePacket ::
    "('x, 'k) crypto \<Rightarrow> ('h client_handler \<Rightarrow> nat \<Rightarrow> reader \<Rightarrow> ('x, 'k, 'n udp_client_connection, 'h, 'n) client \<Rightarrow>
       (reader \<times> ('x, 'k, 'n udp_client_connection, 'h, 'n) client) option) \<Rightarrow>
     'n udp_client_connection \<Rightarrow> reader \<Rightarrow> ('x, 'k, 'n udp_client_connection, 'h, 'n) client \<Rightarrow>
     ('x, 'k, 'n udp_client_connection, 'h, 'n) client option" where
  "udp_client_HandlePacket cr call c packet cl = do {
     let key = udp_client_GetKey c;
     let (state, session) = GetSession key cl;
     let (session, cl) = (if state = NeedNewSession then client_CreateSession key c cl else (session, cl));
     (case session of
        None \<Rightarrow> report_error (udp_client_class cr) None key Manager cl
      | Some p \<Rightarrow>
          (let state = (if state = NeedNewSession \<or> state = Ready then IsReady key p cl else state)
           in if state \<noteq> Ready then report_error (udp_client_class cr) session key Manager cl
              else do {
                let (decoder, cl) = GetDecoder cr p cl;
                decoder \<leftarrow> decoder;
                decoded \<leftarrow> new_buffer;
                (result, packet, d, decoder) \<leftarrow> Decode (cr_ssl cr) packet (fst decoded) decoder;
                let cl = SetDecoder p (Some decoder) cl;
                (if result \<noteq> SUCCEEDED then report_error (udp_client_class cr) session key Truncated cl
                 else do {
                   (_, cl) \<leftarrow> HandlePacket call p (d, snd decoded) cl;
                   Some cl
                 })
              }))
   }"

definition udp_client_HandleRead ::
    "('x, 'k) crypto \<Rightarrow> ('h, ('x, 'k, 'n udp_client_connection, 'h, 'n) client) channel \<Rightarrow> nat \<Rightarrow>
     ('x, 'k, 'n udp_client_connection, 'h, 'n) client \<Rightarrow>
     (processing_state \<times> ('x, 'k, 'n udp_client_connection, 'h, 'n) client) option" where
  "udp_client_HandleRead cr ch p cl = do {
     packet \<leftarrow> new_buffer;
     let c = se_connection (session_at p cl);
     (status, s, n) \<leftarrow> bc_Read (uk_socket c) (ic_reserve (fst packet) kMaxPacketSize) (hb_world cl);
     let cl = cl\<lparr>hb_world := n\<rparr>;
     (if status \<noteq> OK then Some (MORE, cl)
      else do {
        cl \<leftarrow> udp_client_HandlePacket cr (call_client cr (udp_client_class cr) ch) c (s, snd packet) cl;
        Some (MORE, cl)
      })
   }"

section \<open>The client's manager\<close>

text \<open>
  \<open>AddConnection\<close>: a connection that could not be made is used all the same, which has no result. A
  session is in the map once its constructor, which starts the authenticator, is done.
\<close>

definition ClientSession_new ::
    "('x, 'k) crypto \<Rightarrow> ('x, 'k, 'c, 'w) connection_class \<Rightarrow> 'c \<Rightarrow> ('x, 'k, 'c, 'h, 'w) client \<Rightarrow>
     (nat \<times> ('x, 'k, 'c, 'h, 'w) client) option" where
  "ClientSession_new cr cc c cl = do {
     let p = length (hb_sessions cl);
     let cl = cl\<lparr>hb_sessions := hb_sessions cl @ [Session_new None c]\<rparr>;
     (_, cl) \<leftarrow> client_StartAuthentication cr cc p cl;
     Some (p, cl)
   }"

definition AddConnection ::
    "('x, 'k) crypto \<Rightarrow> ('x, 'k, 'c, 'w) connection_class \<Rightarrow> (bytes \<Rightarrow> sockaddr option) \<Rightarrow>
     (sockaddr \<Rightarrow> 'w \<Rightarrow> ('c option \<times> 'w) option) \<Rightarrow> ('c \<Rightarrow> connection_key) \<Rightarrow> bytes \<Rightarrow>
     ('x, 'k, 'c, 'h, 'w) client \<Rightarrow> ('x, 'k, 'c, 'h, 'w) client option" where
  "AddConnection cr cc parse Connect GetKey destination cl =
     (case parse destination of
        None \<Rightarrow> Some cl
      | Some address \<Rightarrow> do {
          (connection, w) \<leftarrow> Connect address (hb_world cl);
          let cl = cl\<lparr>hb_world := w\<rparr>;
          c \<leftarrow> connection;
          (p, cl) \<leftarrow> ClientSession_new cr cc c cl;
          Some (cl\<lparr>hb_map := um_set cn_equal cn_hash (GetKey (se_connection (session_at p cl))) p (hb_map cl)\<rparr>)
        })"

section \<open>What the transcoders rely on\<close>

text \<open>
  A datagram socket that can be used \<open>k\<close> more times: what waits to be read, and what was written, each with the
  other side's address. It sends a packet in one piece when its bytes lie in few enough chunks.
\<close>

definition sendable :: "reader \<Rightarrow> bool" where
  "sendable r \<longleftrightarrow> reader_ok [] r \<and> length (cs_chunks (fst r)) \<le> kIovecSize \<and> reader_contents r \<noteq> []"

definition room_to_read :: "chunkset \<Rightarrow> bytes \<Rightarrow> bool" where
  "room_to_read s bs \<longleftrightarrow> bs \<noteq> [] \<and> length bs \<le> ic_contiguous s"

locale datagram_net =
  fixes sock :: "'n datagram_socket"
    and usable :: "nat \<Rightarrow> 'n \<Rightarrow> bool"
    and inbox :: "'n \<Rightarrow> (sockaddr \<times> bytes) list"
    and sent :: "'n \<Rightarrow> (sockaddr \<times> bytes) list"
  assumes write_wanted: "usable (Suc k) n \<Longrightarrow> \<exists>n'. dc_WantWrite sock n = Some n' \<and> usable k n' \<and> inbox n' = inbox n \<and> sent n' = sent n"
    and packet_read: "usable (Suc k) n \<Longrightarrow> inbox n = (a, bs) # rest \<Longrightarrow> room_to_read s bs \<Longrightarrow>
      \<exists>s' n'. ds_Read sock s n = Some (OK, Some a, s', n') \<and> ic_commit s bs = Some s' \<and> usable k n' \<and> inbox n' = rest \<and> sent n' = sent n"
    and packet_written: "usable (Suc k) n \<Longrightarrow> sendable r \<Longrightarrow>
      \<exists>r' n'. dc_Write sock r a n = Some (OK, r', n') \<and> usable k n' \<and> inbox n' = inbox n \<and> sent n' = sent n @ [(a, reader_contents r)]"

locale bound_net =
  fixes sock :: "'n bound_channel"
    and usable :: "nat \<Rightarrow> 'n \<Rightarrow> bool"
    and inbox :: "'n \<Rightarrow> bytes list"
    and sent :: "'n \<Rightarrow> bytes list"
  assumes write_wanted: "usable (Suc k) n \<Longrightarrow> \<exists>n'. bc_WantWrite sock n = Some n' \<and> usable k n' \<and> inbox n' = inbox n \<and> sent n' = sent n"
    and packet_read: "usable (Suc k) n \<Longrightarrow> inbox n = bs # rest \<Longrightarrow> room_to_read s bs \<Longrightarrow>
      \<exists>s' n'. bc_Read sock s n = Some (OK, s', n') \<and> ic_commit s bs = Some s' \<and> usable k n' \<and> inbox n' = rest \<and> sent n' = sent n"
    and packet_written: "usable (Suc k) n \<Longrightarrow> sendable r \<Longrightarrow>
      \<exists>r' n'. bc_Write sock r n = Some (OK, r', n') \<and> usable k n' \<and> inbox n' = inbox n \<and> sent n' = sent n @ [reader_contents r]"

text \<open>The packet a protector makes of a message.\<close>

definition packet_of ::
    "('x, 'k) crypto \<Rightarrow> (bytes \<Rightarrow> bytes \<Rightarrow> bytes \<Rightarrow> bytes) \<Rightarrow> (bytes \<Rightarrow> bytes \<Rightarrow> bytes \<Rightarrow> bytes) \<Rightarrow> protector_kind \<Rightarrow> bytes \<Rightarrow> bytes \<Rightarrow> bytes" where
  "packet_of cr aes bf kind prefix m = prefix @ sealed (cr_ssl cr) aes bf kind prefix m"

lemma packet_of_length:
  assumes "ssl_documented (cr_ssl cr) aes bf"
  shows "packet_of cr aes bf kind prefix m \<noteq> []" "length (packet_of cr aes bf kind prefix m) \<le> length prefix + length m + 32"
proof -
  have "unat (EVP_CIPHER_block_size (pt_cipher (cr_ssl cr) kind)) \<le> 32"
    using ssl_documentedD(2) [OF assms, of kind] by (simp add: word_le_nat_alt)
  then show "packet_of cr aes bf kind prefix m \<noteq> []" "length (packet_of cr aes bf kind prefix m) \<le> length prefix + length m + 32"
    using ssl_documentedD(4,5) [OF assms, where k = kind and prefix = prefix and m = m] by (auto simp: packet_of_def)
qed

text \<open>A message buffer is encoded into an empty one.\<close>

lemma encode_message_writes:
  assumes "crypto_documented cr aes bf" "kind_ok (pt_kind e)" "entropic (Suc n) p" "tidy [] message" "length (reader_contents message) < 2 ^ 24"
  obtains x p' message' out' prefix where "encode_message cr (Some e) p message empty_reader = Some (True, Some (e\<lparr>pt_ctx := x\<rparr>), p', message', out')"
    "entropic n p'" "tidy [] message'" "reader_contents message' = []" "length prefix = prefix_length (cr_ssl cr) (pt_kind e)"
    "reader_contents out' = packet_of cr aes bf (pt_kind e) prefix (reader_contents message)" "sendable out'"
proof -
  note doc = crypto_documentedD [OF assms(1)]
  obtain s cur where m: "message = (s, cur)" by fastforce
  have src: "readable s cur []" "oc_limited cur = None" "length (unread s cur) + 32 < 2 ^ 32"
    using assms(4,5) tidy_reader_ok [OF assms(4)] by (simp_all add: m reader_ok_def reader_contents_def)
  have out: "out_ok [snd empty_reader] (fst empty_reader)" using empty_reader_ok(1) by (simp add: out_ok_tidy)
  let ?w = "\<lambda>prefix. packet_of cr aes bf (pt_kind e) prefix (unread s cur)"
  obtain p' s' cur' d x prefix where enc: "Encode (cr_ssl cr) (cr_rc4 cr) (cr_memory cr p) p (s, cur) (fst empty_reader) e =
      Some (True, p', (s', cur'), d, e\<lparr>pt_ctx := x\<rparr>)" "length prefix = prefix_length (cr_ssl cr) (pt_kind e)"
    "advanced s cur [] (length (unread s cur)) s' cur'" "written [snd empty_reader] (fst empty_reader) (?w prefix) d" "entropic n p'"
    using Encode_writes [OF doc(1,2) assms(3,2) doc(6) out src] unfolding packet_of_def by blast
  note len = packet_of_length [OF doc(1), of "pt_kind e" prefix "unread s cur"]
  note sent = written_tidy [OF empty_reader_ok(1) enc(4) len(1)]
  have "length (?w prefix) < 2 ^ 32" using len(2) doc(7) [of "pt_kind e"] enc(2) assms(5) by (simp add: m reader_contents_def)
  then have "reader_ok [] (d, snd empty_reader)" using sent empty_reader_ok(2) by (intro tidy_reader_ok) simp_all
  moreover have "length (cs_chunks d) \<le> kIovecSize"
    using Encode_chunk_count [OF enc(1)] by (simp add: kIovecSize_def empty_reader_def cs_new_def)
  ultimately have "sendable (d, snd empty_reader)" using sent(2) empty_reader_ok(2) len(1) by (simp add: sendable_def)
  moreover have "tidy [] (s', cur')" by (rule tidy_advanced [OF assms(4) [unfolded m] enc(3)])
  moreover have "reader_contents (s', cur') = []" using enc(3) by (simp add: advanced_def reader_contents_def)
  ultimately show thesis
    using enc(1,2,5) sent(2) empty_reader_ok(2)
    by (intro that [of x p' "(s', cur')" "(d, snd empty_reader)" prefix])
      (simp_all add: encode_message_def m reader_contents_def)
qed

section \<open>Their connections are what a session relies on\<close>

context datagram_net
begin

text \<open>The queue sends to \<open>peer\<close>, all that waits in it can be sent, and \<open>ib\<close> and \<open>st\<close> are what was not read yet and was sent.\<close>

definition udp_ready ::
    "sockaddr \<Rightarrow> (sockaddr \<times> bytes) list \<Rightarrow> (sockaddr \<times> bytes) list \<Rightarrow> nat \<Rightarrow> udp_connection \<Rightarrow> 'n udp_server \<Rightarrow> bool" where
  "udp_ready peer ib st k c u \<longleftrightarrow> usable k (us_net u) \<and> inbox (us_net u) = ib \<and> sent (us_net u) = st \<and>
     us_socket u = Some sock \<and> dq_channel (us_queue u) = Some (datagram_channel.truncate sock) \<and>
     uc_address c = Some peer \<and> tidy [] (uc_buffer c) \<and> sl_buffer (uc_slot c) = empty_reader \<and>
     list_all (\<lambda>slot. sl_address slot \<noteq> None \<and> sendable (sl_buffer slot)) (dq_queue (us_queue u))"

definition udp_waiting :: "udp_connection \<Rightarrow> 'n udp_server \<Rightarrow> (sockaddr \<times> bytes) list" where
  "udp_waiting c u = map (\<lambda>slot. (the (sl_address slot), reader_contents (sl_buffer slot))) (dq_queue (us_queue u))"

end

sublocale datagram_net \<subseteq> udp: message_connection cr "udp_class cr"
    "\<lambda>aes bf kind prefix m. (peer, packet_of cr aes bf kind prefix m)" "udp_ready peer ib st" udp_waiting for cr peer ib st
proof
  fix r c
  show "cc_Message (udp_class cr) (cc_put_Message (udp_class cr) r c) = r" by (simp add: udp_class_def udp_Message_def)
next
  fix k c and w :: "'n udp_server"
  show "udp_ready peer ib st k c w \<Longrightarrow> tidy [] (cc_Message (udp_class cr) c)" by (simp add: udp_class_def udp_Message_def udp_ready_def)
next
  fix k c and w :: "'n udp_server" and r
  show "udp_ready peer ib st k c w \<Longrightarrow> tidy [] r \<Longrightarrow> udp_ready peer ib st k (cc_put_Message (udp_class cr) r c) w"
    by (simp add: udp_class_def udp_ready_def)
  show "udp_waiting (cc_put_Message (udp_class cr) r c) w = udp_waiting c w" by (simp add: udp_waiting_def)
next
  fix aes bf k c and w :: "'n udp_server" and e :: "'a protector" and n and p :: "'b prng"
  assume cr: "crypto_documented cr aes bf" and ready: "udp_ready peer ib st (Suc k) c w" and e: "kind_ok (pt_kind e)" "entropic (Suc n) p"
    and m: "length (reader_contents (cc_Message (udp_class cr) c)) < 2 ^ 24"
  note parts = ready [unfolded udp_ready_def]
  have "tidy [] (uc_buffer c)" "length (reader_contents (uc_buffer c)) < 2 ^ 24"
    using parts m by (simp_all add: udp_class_def udp_Message_def)
  then obtain x p' message' out' prefix where enc:
    "encode_message cr (Some e) p (uc_buffer c) empty_reader = Some (True, Some (e\<lparr>pt_ctx := x\<rparr>), p', message', out')"
    "entropic n p'" "tidy [] message'" "reader_contents message' = []" "length prefix = prefix_length (cr_ssl cr) (pt_kind e)"
    "reader_contents out' = packet_of cr aes bf (pt_kind e) prefix (reader_contents (uc_buffer c))" "sendable out'"
    using encode_message_writes [OF cr e] by blast
  obtain n' where want: "dc_WantWrite sock (us_net w) = Some n'" "usable k n'" "inbox n' = inbox (us_net w)" "sent n' = sent (us_net w)"
    using write_wanted [of k "us_net w"] parts by blast
  let ?slot = "(uc_slot c)\<lparr>sl_buffer := out', sl_address := Some peer\<rparr>"
  let ?c = "c\<lparr>uc_buffer := message', uc_slot := \<lparr>sl_address = None, sl_buffer = empty_reader\<rparr>\<rparr>"
  let ?w = "w\<lparr>us_queue := (us_queue w)\<lparr>dq_queue := dq_queue (us_queue w) @ [?slot]\<rparr>, us_net := n'\<rparr>"
  have "cc_SendMessage (udp_class cr) (Some e) p c w = Some (True, None, Some (e\<lparr>pt_ctx := x\<rparr>), p', ?c, ?w)"
    using parts enc(1) want(1)
    by (simp add: udp_class_def udp_SendMessage_def QueuePacketSlot_def GetPacketSlot_def new_buffer_run datagram_channel.truncate_def Let_def)
  moreover have "udp_ready peer ib st k ?c ?w" using parts enc(3,7) want(2-4) by (simp add: udp_ready_def)
  moreover have "udp_waiting ?c ?w = udp_waiting c w @ [(peer, packet_of cr aes bf (pt_kind e) prefix (reader_contents (cc_Message (udp_class cr) c)))]"
    using enc(6) by (simp add: udp_waiting_def udp_class_def udp_Message_def)
  moreover have "reader_contents (cc_Message (udp_class cr) ?c) = []" using enc(4) by (simp add: udp_class_def udp_Message_def)
  ultimately show "\<exists>x p' c' w' prefix. cc_SendMessage (udp_class cr) (Some e) p c w = Some (True, None, Some (e\<lparr>pt_ctx := x\<rparr>), p', c', w') \<and>
      udp_ready peer ib st k c' w' \<and> entropic n p' \<and> reader_contents (cc_Message (udp_class cr) c') = [] \<and>
      length prefix = prefix_length (cr_ssl cr) (pt_kind e) \<and>
      udp_waiting c' w' = udp_waiting c w @ [(peer, packet_of cr aes bf (pt_kind e) prefix (reader_contents (cc_Message (udp_class cr) c)))]"
    using enc(2,5) by blast
qed

context bound_net
begin

definition udp_client_ready ::
    "connection_key \<Rightarrow> bytes list \<Rightarrow> bytes list \<Rightarrow> nat \<Rightarrow> 'n udp_client_connection \<Rightarrow> 'n \<Rightarrow> bool" where
  "udp_client_ready key ib st k c n \<longleftrightarrow> usable k n \<and> inbox n = ib \<and> sent n = st \<and> uk_key c = key \<and> uk_socket c = sock \<and> tidy [] (uk_buffer c) \<and> pq_to_queue (uk_queue c) = None \<and>
     list_all sendable (pq_queue (uk_queue c))"

definition udp_client_waiting :: "'n udp_client_connection \<Rightarrow> 'n \<Rightarrow> bytes list" where
  "udp_client_waiting c n = map reader_contents (pq_queue (uk_queue c))"

end

sublocale bound_net \<subseteq> udp: message_connection cr "udp_client_class cr" "packet_of cr" "udp_client_ready key ib st" udp_client_waiting for cr key ib st
proof
  fix r c
  show "cc_Message (udp_client_class cr) (cc_put_Message (udp_client_class cr) r c) = r"
    by (simp add: udp_client_class_def udp_client_Message_def)
next
  fix k c w
  show "udp_client_ready key ib st k c w \<Longrightarrow> tidy [] (cc_Message (udp_client_class cr) c)"
    by (simp add: udp_client_class_def udp_client_Message_def udp_client_ready_def)
next
  fix k c w r
  show "udp_client_ready key ib st k c w \<Longrightarrow> tidy [] r \<Longrightarrow> udp_client_ready key ib st k (cc_put_Message (udp_client_class cr) r c) w"
    by (simp add: udp_client_class_def udp_client_ready_def)
  show "udp_client_waiting (cc_put_Message (udp_client_class cr) r c) w = udp_client_waiting c w"
    by (simp add: udp_client_waiting_def udp_client_class_def)
next
  fix aes bf k c w and e :: "'a protector" and n and p :: "'b prng"
  assume cr: "crypto_documented cr aes bf" and ready: "udp_client_ready key ib st (Suc k) c w" and e: "kind_ok (pt_kind e)" "entropic (Suc n) p"
    and m: "length (reader_contents (cc_Message (udp_client_class cr) c)) < 2 ^ 24"
  note parts = ready [unfolded udp_client_ready_def]
  have "tidy [] (uk_buffer c)" "length (reader_contents (uk_buffer c)) < 2 ^ 24"
    using parts m by (simp_all add: udp_client_class_def udp_client_Message_def)
  then obtain x p' message' out' prefix where enc:
    "encode_message cr (Some e) p (uk_buffer c) empty_reader = Some (True, Some (e\<lparr>pt_ctx := x\<rparr>), p', message', out')"
    "entropic n p'" "tidy [] message'" "reader_contents message' = []" "length prefix = prefix_length (cr_ssl cr) (pt_kind e)"
    "reader_contents out' = packet_of cr aes bf (pt_kind e) prefix (reader_contents (uk_buffer c))" "sendable out'"
    using encode_message_writes [OF cr e] by blast
  obtain n' where want: "bc_WantWrite sock w = Some n'" "usable k n'" "inbox n' = inbox w" "sent n' = sent w"
    using write_wanted [of k w] parts by blast
  let ?c = "c\<lparr>uk_buffer := message', uk_queue := (uk_queue c)\<lparr>pq_to_queue := None, pq_queue := pq_queue (uk_queue c) @ [out']\<rparr>\<rparr>"
  have "cc_SendMessage (udp_client_class cr) (Some e) p c w = Some (True, None, Some (e\<lparr>pt_ctx := x\<rparr>), p', ?c, n')"
    using parts enc(1) want(1)
    by (simp add: udp_client_class_def udp_client_SendMessage_def ToQueue_def Queued_def new_buffer_run Let_def)
  moreover have "udp_client_ready key ib st k ?c n'" using parts enc(3,7) want(2-4) by (simp add: udp_client_ready_def)
  moreover have "udp_client_waiting ?c n' = udp_client_waiting c w @ [packet_of cr aes bf (pt_kind e) prefix (reader_contents (cc_Message (udp_client_class cr) c))]"
    using enc(6) by (simp add: udp_client_waiting_def udp_client_class_def udp_client_Message_def)
  moreover have "reader_contents (cc_Message (udp_client_class cr) ?c) = []" using enc(4) by (simp add: udp_client_class_def udp_client_Message_def)
  ultimately show "\<exists>x p' c' w' prefix. cc_SendMessage (udp_client_class cr) (Some e) p c w = Some (True, None, Some (e\<lparr>pt_ctx := x\<rparr>), p', c', w') \<and>
      udp_client_ready key ib st k c' w' \<and> entropic n p' \<and> reader_contents (cc_Message (udp_client_class cr) c') = [] \<and>
      length prefix = prefix_length (cr_ssl cr) (pt_kind e) \<and>
      udp_client_waiting c' w' = udp_client_waiting c w @ [packet_of cr aes bf (pt_kind e) prefix (reader_contents (cc_Message (udp_client_class cr) c))]"
    using enc(2,5) by blast
qed

end
