(* ===== verification/LoginSteps.thy ===== *)
theory LoginSteps
  imports Authenticators
begin

text \<open>
  What each handler of the two authenticators does with the message it waits for: it accepts it, takes
  just its bytes, and sends the next one.
\<close>

section \<open>A parsed copy\<close>

lemma kept_copy:
  assumes "kept others vs (s, cur)"
  obtains s1 where "oc_copy s cur = Some (s1, cur)" "kept (cur # others) (unread s cur # vs) (s1, cur)"
    "reader_contents (s1, cur) = unread s cur"
proof -
  have r: "buf_inv s (cur # others)" "gap_free (cs_chunks s)" "length (unread s cur) < 2 ^ 32" "oc_limited cur = None"
    "map (unread s) others = vs"
    using assms by (simp_all add: kept_def reader_ok_def readable_def)
  obtain s1 where "oc_copy s cur = Some (s1, cur)" "buf_inv s1 (cur # cur # others)" "\<And>c. unread s1 c = unread s c"
    "gap_free (cs_chunks s1) = gap_free (cs_chunks s)"
    by (rule copy_cursor [OF r(1), of cur]) (rule list.set_intros, rule that)
  moreover from this(3) r(5) have "map (unread s1) others = vs" by (simp cong: map_cong)
  ultimately show thesis using r by (intro that [of s1]) (simp_all add: kept_def reader_ok_def readable_def reader_contents_def)
qed

lemma skip_copied:
  assumes "kept (cur # others) ((w @ rest) # vs) (s1, parsed)" "reader_contents (s1, parsed) = rest" "oc_limited cur = None"
    "length (w @ rest) < 2 ^ 32"
  obtains s2 cur2 s3 where "skip_parsed cur (s1, parsed) = Some (s2, cur2)" "oc_destroy s2 parsed = Some s3"
    "kept others vs (s3, cur2)" "reader_contents (s3, cur2) = rest"
proof -
  have r: "buf_inv s1 (parsed # cur # others)" "gap_free (cs_chunks s1)" "unread s1 parsed = rest" "unread s1 cur = w @ rest"
    "oc_limited parsed = None" "map (unread s1) others = vs"
    using assms by (simp_all add: kept_def reader_ok_def readable_def reader_contents_def)
  have perm: "buf_inv s1 (cur # parsed # others)" by (rule buf_inv_perm [OF _ r(1)]) simp
  then have readable: "readable s1 cur (parsed # others)" using r assms(4) by (simp add: readable_def)
  have left: "oc_left s1 cur = Some (length w + length rest)" "oc_left s1 parsed = Some (length rest)"
    using left_size [OF perm] left_size [OF r(1)] r assms(3,4) by simp_all
  obtain s2 cur2 where s2: "oc_increment s1 cur (length w) = Some (s2, cur2)" "advanced s1 cur (parsed # others) (length w) s2 cur2"
    using increment_advances [OF readable, of "length w"] r(4) assms(3) by (auto simp: within_limit_def)
  have "buf_inv s2 (cur2 # parsed # others)" using s2(2) by (simp add: advanced_def)
  then have inv: "buf_inv s2 (parsed # cur2 # others)" by (rule buf_inv_perm [rotated]) simp
  obtain s3 where s3: "oc_destroy s2 parsed = Some s3" "buf_inv s3 (cur2 # others)"
    "\<And>c. c \<in> set (cur2 # others) \<Longrightarrow> unread s3 c = unread s2 c" "gap_free (cs_chunks s2) \<Longrightarrow> gap_free (cs_chunks s3)"
    by (rule destroy_cursor [OF inv]) (rule that)
  have "kept others vs (s3, cur2)" "reader_contents (s3, cur2) = rest"
    using s3(2-4) s2(2) r assms(3,4) by (auto simp: kept_def reader_ok_def readable_def advanced_def reader_contents_def)
  with left s2(1) s3(1) show thesis by (intro that [of s2 cur2 s3]) (simp_all add: skip_parsed_def)
qed

text \<open>A handler's parser reads \<open>w\<close> off the copy; then the cursor itself is moved past \<open>w\<close>.\<close>

lemma parsed_copy:
  assumes cursor: "kept others vs cursor" "reader_contents cursor = w @ rest"
    and parse: "\<And>r. kept (snd cursor # others) ((w @ rest) # vs) r \<Longrightarrow> reader_contents r = w @ rest \<Longrightarrow>
      \<exists>r'. P r r' \<and> reader_contents r' = rest \<and> kept (snd cursor # others) ((w @ rest) # vs) r'"
  obtains r parsed s2 cur2 s3 where "oc_copy (fst cursor) (snd cursor) = Some r" "P r parsed"
    "skip_parsed (snd cursor) parsed = Some (s2, cur2)" "oc_destroy s2 (snd parsed) = Some s3"
    "kept others vs (s3, cur2)" "reader_contents (s3, cur2) = rest"
proof -
  obtain s cur where eq: "cursor = (s, cur)" by fastforce
  have u: "unread s cur = w @ rest" using cursor(2) by (simp add: eq reader_contents_def)
  obtain s1 where copy: "oc_copy s cur = Some (s1, cur)" "kept (cur # others) ((w @ rest) # vs) (s1, cur)"
    "reader_contents (s1, cur) = w @ rest"
    using kept_copy [OF cursor(1) [unfolded eq]] unfolding u by blast
  obtain s2 parsed where parsed: "P (s1, cur) (s2, parsed)" "reader_contents (s2, parsed) = rest" "kept (cur # others) ((w @ rest) # vs) (s2, parsed)"
    using parse [of "(s1, cur)"] copy(2,3) by (auto simp: eq)
  have "oc_limited cur = None" "length (w @ rest) < 2 ^ 32"
    using cursor(1) u by (simp_all add: eq kept_def reader_ok_def readable_def)
  from skip_copied [OF parsed(3,2) this] obtain s3 cur3 s4 where
    "skip_parsed cur (s2, parsed) = Some (s3, cur3)" "oc_destroy s3 parsed = Some s4" "kept others vs (s4, cur3)" "reader_contents (s4, cur3) = rest"
    by blast
  with copy(1) parsed(1) show thesis by (intro that [of "(s1, cur)" "(s2, parsed)" s3 cur3 s4]) (simp_all add: eq)
qed

section \<open>The server\<close>

lemma put_simps [simp]:
  "hb_prng (put_Message cc p r h) = hb_prng h" "hb_map (put_Message cc p r h) = hb_map h"
  "hb_world (put_Message cc p r h) = hb_world h" "length (hb_sessions (put_Message cc p r h)) = length (hb_sessions h)"
  "p < length (hb_sessions h) \<Longrightarrow> session_at p (put_Message cc p r h) =
     (session_at p h)\<lparr>se_connection := cc_put_Message cc r (se_connection (session_at p h))\<rparr>"
  by (simp_all add: put_Message_def)

text \<open>The changes that leave the sessions alone.\<close>

lemma server_simps [simp]:
  "sv_auths (set_session p s sv) = sv_auths sv" "sv_userdb (set_session p s sv) = sv_userdb sv"
  "sv_auths (put_Message cc p r sv) = sv_auths sv" "sv_userdb (put_Message cc p r sv) = sv_userdb sv"
  "hb_sessions (set_auth a au sv) = hb_sessions sv" "hb_prng (set_auth a au sv) = hb_prng sv" "hb_world (set_auth a au sv) = hb_world sv"
  "hb_map (set_auth a au sv) = hb_map sv" "sv_userdb (set_auth a au sv) = sv_userdb sv" "sv_auths (set_auth a au sv) = (sv_auths sv)[a := au]"
  "hb_sessions (UserDbSession_close sv) = hb_sessions sv" "hb_prng (UserDbSession_close sv) = hb_prng sv"
  "hb_world (UserDbSession_close sv) = hb_world sv" "hb_map (UserDbSession_close sv) = hb_map sv"
  "sv_auths (UserDbSession_close sv) = sv_auths sv"
  by (simp_all add: set_session_def put_Message_def set_auth_def UserDbSession_close_def)

lemma session_at_simps [simp]:
  "session_at p (set_auth a au sv) = session_at p sv" "session_at p (UserDbSession_close sv) = session_at p sv"
  "session_at p (h\<lparr>hb_prng := rng\<rparr>) = session_at p h" "session_at p (h\<lparr>hb_world := w\<rparr>) = session_at p h"
  "session_at p (sv\<lparr>sv_userdb := u\<rparr>) = session_at p sv" "session_at p (sv\<lparr>sv_opens := opens\<rparr>) = session_at p sv"
  "session_at p (sv\<lparr>sv_auths := aus\<rparr>) = session_at p sv"
  by (simp_all add: session_at_def)

lemma client_simps [simp]:
  "cl_auths (set_session p s cl) = cl_auths cl" "cl_chatter (set_session p s cl) = cl_chatter cl"
  "cl_auths (put_Message cc p r cl) = cl_auths cl" "cl_chatter (put_Message cc p r cl) = cl_chatter cl"
  "hb_sessions (set_client_auth a au cl) = hb_sessions cl" "hb_prng (set_client_auth a au cl) = hb_prng cl"
  "hb_world (set_client_auth a au cl) = hb_world cl" "hb_map (set_client_auth a au cl) = hb_map cl"
  "cl_chatter (set_client_auth a au cl) = cl_chatter cl" "cl_auths (set_client_auth a au cl) = (cl_auths cl)[a := au]"
  "session_at p (set_client_auth a au cl) = session_at p cl" "session_at p (cl\<lparr>cl_auths := aus\<rparr>) = session_at p cl"
  by (simp_all add: set_session_def put_Message_def set_client_auth_def session_at_def)

text \<open>The database, when it is opened next, has the user with this secret.\<close>

definition on_file :: "bytes \<Rightarrow> bytes \<Rightarrow> ('x, 'k, 'c, 'h, 'w) server \<Rightarrow> bool" where
  "on_file username stored sv \<longleftrightarrow>
     (\<exists>u opens. UserDbSession_open sv = Some (sv\<lparr>sv_userdb := u, sv_opens := opens\<rparr>) \<and> GetUser username u = (True, Some stored))"

lemma on_file_opened:
  assumes "UserDbSession_open sv = Some (sv\<lparr>sv_userdb := u, sv_opens := opens\<rparr>)"
    "sv_userdb sv' = sv_userdb sv" "sv_opens sv' = sv_opens sv"
  shows "UserDbSession_open sv' = Some (sv'\<lparr>sv_userdb := u, sv_opens := opens\<rparr>)"
proof (cases "sv_opens sv")
  case (Cons e es)
  obtain b l r where e: "e = (b, l, r)" by (cases e)
  with assms(1) Cons obtain ok where "udb_Open b l r (sv_userdb sv) = Some (ok, u)" "es = opens"
    by (cases sv) (auto simp: UserDbSession_open_def split: bind_splits)
  with assms(2,3) Cons e show ?thesis by (simp add: UserDbSession_open_def)
qed (use assms(1) in \<open>simp add: UserDbSession_open_def\<close>)

lemma on_file_cong:
  "sv_userdb sv' = sv_userdb sv \<Longrightarrow> sv_opens sv' = sv_opens sv \<Longrightarrow> on_file username stored sv \<Longrightarrow> on_file username stored sv'"
  using on_file_opened unfolding on_file_def by blast

text \<open>A draw takes from the entropy at most once.\<close>

lemma draws_entropic:
  assumes "bn_documented lib" "rc4_documented rl" "draws lib rl g N p a" "0 < N" "bits = 384" "entropic (Suc n) p"
  obtains p' where "draw_exponent lib rl bits g N p = Some (a, g ^ a mod N, p')" "entropic n p'"
proof -
  obtain bs p' where get: "Get rl (replicate 48 0) p = Some (bs, p')" "BN_bin2bn lib bs = a" "a \<noteq> 0" "\<not> N dvd g ^ a"
    using assms(3) by (auto simp: draws_def)
  then have "entropic n p'" using Get_returns [OF assms(2,6), of "replicate 48 0"] by auto
  moreover have "draw_exponent lib rl bits g N p = Some (a, g ^ a mod N, p')"
    using draw_exponent_first [OF assms(1), of rl bits p bs p' N g] get assms(4,5) by simp
  ultimately show thesis by (rule that [rotated])
qed

context message_connection
begin

text \<open>A session in the middle of a login: both directions are scrambled and no message is being written.\<close>

definition talking :: "nat \<Rightarrow> nat \<Rightarrow> nat \<Rightarrow> ('x, 'k, 'c, 'h, 'w, 'e) hub_scheme \<Rightarrow> bool" where
  "talking k n p h \<longleftrightarrow> session_ready k p h \<and> scrambling (se_encoder (session_at p h)) \<and> scrambling (se_decoder (session_at p h)) \<and>
     reader_contents (Message cc p h) = [] \<and> entropic n (hb_prng h)"

lemma talking_message_tidy: "talking k n p h \<Longrightarrow> tidy [] (Message cc p h)"
  using message_tidy by (auto simp: talking_def session_ready_def Message_def)

text \<open>A message \<open>w\<close> that was written into the session's buffer is sent.\<close>

lemma message_sent:
  assumes "crypto_documented cr aes bf" "session_ready (Suc k) p h" "scrambling (se_encoder (session_at p h))"
    "scrambling (se_decoder (session_at p h))" "entropic (Suc n) (hb_prng h)" "reader_contents (Message cc p h) = m" "length m < 2 ^ 24"
  obtains e rng c w prefix where "SendMessage cr cc p h =
      Some (True, set_session p ((session_at p h)\<lparr>se_encoder := Some e, se_connection := c\<rparr>) (h\<lparr>hb_prng := rng, hb_world := w\<rparr>))"
    "\<And>h'. p < length (hb_sessions h') \<Longrightarrow> hb_prng h' = rng \<Longrightarrow> hb_world h' = w \<Longrightarrow> se_connection (session_at p h') = c \<Longrightarrow>
      se_encoder (session_at p h') = Some e \<Longrightarrow> se_decoder (session_at p h') = se_decoder (session_at p h) \<Longrightarrow>
      talking k n p h' \<and> sent_by p h' = sent_by p h @ [seal aes bf ScrambleSession prefix m]"
    "length prefix = prefix_length (cr_ssl cr) ScrambleSession"
proof -
  have "length (reader_contents (Message cc p h)) < 2 ^ 24" using assms(6,7) by simp
  from SendMessage_scrambles [OF assms(1-3,5) this] obtain e rng c w prefix where
    send: "SendMessage cr cc p h =
      Some (True, set_session p ((session_at p h)\<lparr>se_encoder := Some e, se_connection := c\<rparr>) (h\<lparr>hb_prng := rng, hb_world := w\<rparr>))"
    "pt_kind e = ScrambleSession" "ready k c w" "entropic n rng" "reader_contents (cc_Message cc c) = []"
    "length prefix = prefix_length (cr_ssl cr) ScrambleSession"
    "outbox c w = sent_by p h @ [seal aes bf ScrambleSession prefix (reader_contents (Message cc p h))]" by metis
  show thesis
  proof (rule that [OF send(1) _ send(6)])
    fix h' :: "('x, 'k, 'c, 'd, 'w, 'e) hub_scheme"
    assume h': "p < length (hb_sessions h')" "hb_prng h' = rng" "hb_world h' = w" "se_connection (session_at p h') = c"
      "se_encoder (session_at p h') = Some e" "se_decoder (session_at p h') = se_decoder (session_at p h)"
    with send assms(4,6) show "talking k n p h' \<and> sent_by p h' = sent_by p h @ [seal aes bf ScrambleSession prefix m]"
      by (simp add: talking_def session_ready_def sent_by_def Message_def scrambling_def)
  qed
qed

text \<open>The user's name arrives: the server answers with the parameters of the user's secret.\<close>

lemma server_answers_hello:
  fixes sv :: "('x, 'k, 'c, 'h, 'w) server"
  assumes cr: "crypto_documented cr aes bf" and talk: "talking (Suc k) (Suc n) p sv"
    and msg: "kept others vs cursor" "reader_contents cursor = string_wire username @ rest" "length username \<le> 65535"
    and user: "on_file username stored sv"
    and secret: "FromSecret (cr_bn cr) empty_reader stored \<lparr>sr_index = 0, sr_salt = [], sr_x = 0, sr_v = 0\<rparr> = Some (True, secret)"
      "length (sr_salt secret) \<le> 65535"
  obtains cursor' sv' prefix where "StartAuthentication cr cc p cursor sv = Some (cursor', sv')"
    "kept others vs cursor'" "reader_contents cursor' = rest" "talking k n p sv'"
    "sent_by p sv' = sent_by p sv @ [seal aes bf ScrambleSession prefix (hello_wire secret)]"
    "length prefix = prefix_length (cr_ssl cr) ScrambleSession"
    "se_read_callback (session_at p sv') = Some (Parse_public_key (length (sv_auths sv)))" "hb_map sv' = hb_map sv"
    "length (sv_auths sv) < length (sv_auths sv')" "ss_secret (au_srps (sv_auths sv' ! length (sv_auths sv))) = secret"
    "length (hb_sessions sv') = length (hb_sessions sv)"
proof -
  note parts = talk [unfolded talking_def]
  then have p: "p < length (hb_sessions sv)" by (simp add: session_ready_def)
  let ?a = "length (sv_auths sv)"
  define srps0 where "srps0 = \<lparr>ss_A = 0, ss_B = 0, ss_b = 0, ss_secret = \<lparr>sr_index = 0, sr_salt = [], sr_x = 0, sr_v = 0\<rparr>, ss_username = []\<rparr>"
  have srps0: "SrpServer_new = Some srps0"
    by (simp add: SrpServer_new_def SrpSecret_new_def srps0_def ValidIndex_def kValidPrimes_def)
  define srps where "srps = srps0\<lparr>ss_username := username, ss_secret := secret\<rparr>"
  have init: "InitSession (cr_bn cr) empty_reader username stored srps0 = Some (True, srps)"
    using secret(1) by (simp add: InitSession_def srps0_def srps_def Let_def)
  obtain r parsed s3 cur3 s4 where parse: "oc_copy (fst cursor) (snd cursor) = Some r"
    "ParseClientHello r = Some (0, Some username, parsed)"
    and skip: "skip_parsed (snd cursor) parsed = Some (s3, cur3)" "oc_destroy s3 (snd parsed) = Some s4"
    "kept others vs (s4, cur3)" "reader_contents (s4, cur3) = rest"
    by (rule parsed_copy [OF msg(1,2), where P = "\<lambda>r r'. ParseClientHello r = Some (0, Some username, r')"])
      (erule (1) ParseClientHello_reads [OF _ _ msg(3)])
  obtain ud opens where ud: "UserDbSession_open sv = Some (sv\<lparr>sv_userdb := ud, sv_opens := opens\<rparr>)" "GetUser username ud = (True, Some stored)"
    using user by (auto simp: on_file_def)
  define sv1 where "sv1 = set_auth ?a \<lparr>au_srps = srps0, au_username = username\<rparr> (sv\<lparr>sv_auths := sv_auths sv @ [\<lparr>au_srps = srps0, au_username = []\<rparr>]\<rparr>)"
  have open1: "UserDbSession_open sv1 = Some (sv1\<lparr>sv_userdb := ud, sv_opens := opens\<rparr>)"
    by (rule on_file_opened [OF ud(1)]) (simp_all add: sv1_def set_auth_def)
  define sv2 where "sv2 = set_auth ?a \<lparr>au_srps = srps, au_username = username\<rparr> (sv1\<lparr>sv_userdb := ud, sv_opens := opens\<rparr>)"
  have sv2: "session_at p sv2 = session_at p sv" "hb_prng sv2 = hb_prng sv" "hb_world sv2 = hb_world sv" "hb_map sv2 = hb_map sv"
    "length (hb_sessions sv2) = length (hb_sessions sv)" "sv_auths sv2 ! ?a = \<lparr>au_srps = srps, au_username = username\<rparr>"
    "length (sv_auths sv2) = Suc ?a"
    by (simp_all add: sv2_def sv1_def)
  have same: "Message cc p sv2 = Message cc p sv" "session_ready k p sv2 = session_ready k p sv" "sent_by p sv2 = sent_by p sv" for k
    using sv2 by (simp_all add: Message_def session_ready_def sent_by_def)
  obtain m where m: "FillServerHello (Message cc p sv2) srps = Some (True, m)"
    "reader_contents m = reader_contents (Message cc p sv2) @ hello_wire secret" "tidy [] m"
    using FillServerHello_writes [of "[]" "Message cc p sv2" srps] talking_message_tidy [OF talk] secret(2) same(1)
    by (auto simp: srps_def)
  let ?sv3 = "put_Message cc p m sv2"
  note put = put_Message_result [OF _ m(3), of "Suc k" p sv2]
  have ready3: "session_ready (Suc k) p ?sv3" "scrambling (se_encoder (session_at p ?sv3))" "scrambling (se_decoder (session_at p ?sv3))"
    "entropic (Suc n) (hb_prng ?sv3)" "reader_contents (Message cc p ?sv3) = hello_wire secret"
    using parts put sv2 same p m(2) by simp_all
  have "length (hello_wire secret) < 2 ^ 24" using secret(2) by (simp add: hello_wire_def)
  then obtain e rng c w prefix where send: "SendMessage cr cc p ?sv3 =
      Some (True, set_session p ((session_at p ?sv3)\<lparr>se_encoder := Some e, se_connection := c\<rparr>) (?sv3\<lparr>hb_prng := rng, hb_world := w\<rparr>))"
    "\<And>h' :: ('x, 'k, 'c, 'h, 'w) server. p < length (hb_sessions h') \<Longrightarrow> hb_prng h' = rng \<Longrightarrow> hb_world h' = w \<Longrightarrow> se_connection (session_at p h') = c \<Longrightarrow>
      se_encoder (session_at p h') = Some e \<Longrightarrow> se_decoder (session_at p h') = se_decoder (session_at p ?sv3) \<Longrightarrow>
      talking k n p h' \<and> sent_by p h' = sent_by p ?sv3 @ [seal aes bf ScrambleSession prefix (hello_wire secret)]"
    "length prefix = prefix_length (cr_ssl cr) ScrambleSession"
    using message_sent [OF cr ready3] by metis
  let ?sv4 = "set_session p ((session_at p ?sv3)\<lparr>se_encoder := Some e, se_connection := c\<rparr>) (?sv3\<lparr>hb_prng := rng, hb_world := w\<rparr>)"
  let ?sv5 = "UserDbSession_close (SetCallbacks p (Some (Parse_public_key ?a)) (Some (Authentication_closed ?a)) ?sv4)"
  have run: "StartAuthentication cr cc p cursor sv = Some ((s4, cur3), ?sv5)"
    using open1 m(1) send(1)
    by (simp add: StartAuthentication_def new_auth_def AuthenticationSession_Start_def new_buffer_run srps0 parse
        ud(2) init skip(1,2) sv1_def sv2_def Let_def)
  show thesis
    by (rule that [OF run skip(3,4)])
      (use send(2) [of ?sv5] send(3) p sv2 same put parts in \<open>simp_all add: SetCallbacks_def srps_def\<close>)
qed

text \<open>
  The client's public key arrives: the server sends its own and a salt, computes the key, and gives the
  session to the channel with an encoder and a decoder for it.
\<close>

lemma server_answers_key:
  fixes sv :: "('x, 'k, 'c, 'h, 'w) server"
  assumes cr: "crypto_documented cr aes bf" and talk: "talking (Suc k) (Suc (Suc (Suc n))) p sv"
    and msg: "kept others vs cursor" "reader_contents cursor = bn_wire (cr_bn cr) A @ rest"
    and au: "j < length (sv_auths sv)" "ss_secret (au_srps (sv_auths sv ! j)) = secret"
    and prime: "GetPrime (cr_bn cr) (sr_index secret) = Some N" "GetGenerator (sr_index secret) = Some g" "0 < N" "N < prime_limit"
    and A: "A = g ^ a mod N" "\<not> N dvd A" and v: "sr_v secret = g ^ x mod N"
    and b: "draws (cr_bn cr) (cr_rc4 cr) g N (hb_prng sv) b"
    and B: "B = (g ^ b mod N + CalculateK (cr_bn cr) N g * sr_v secret mod N) mod N"
    and fits: "a + CalculateU (cr_bn cr) N A B * x < N"
  obtains cursor' sv' prefix salt secretbuf e where
    "\<And>HandleConnect. ParsePublicKeyCallback cr cc HandleConnect j p cursor sv = map_option (Pair cursor') (HandleConnect p sv')"
    "kept others vs cursor'" "reader_contents cursor' = rest" "session_ready k p sv'" "entropic n (hb_prng sv')"
    "reader_contents (Message cc p sv') = []"
    "sent_by p sv' = sent_by p sv @ [seal aes bf ScrambleSession prefix (bn_wire (cr_bn cr) B @ salt)]"
    "length prefix = prefix_length (cr_ssl cr) ScrambleSession" "length salt = kKeyLengthInBytes" "hb_map sv' = hb_map sv"
    "sb_content secretbuf = BN_bn2bin (cr_bn cr) (g ^ (b * (a + CalculateU (cr_bn cr) N A B * x)) mod N)"
    "e = new_protector cr (AesSession (ComputeKey (cr_hmac cr) salt kKeyLengthInBytes secretbuf))"
    "se_encoder (session_at p sv') = Some e" "se_decoder (session_at p sv') = Some e"
    "length (hb_sessions sv') = length (hb_sessions sv)"
proof -
  let ?lib = "cr_bn cr"
  note doc = crypto_documentedD [OF cr]
  note parts = talk [unfolded talking_def]
  then have p: "p < length (hb_sessions sv)" by (simp add: session_ready_def)
  have Alim: "A < prime_limit" using prime(3,4) mod_less_divisor [OF prime(3), of "g ^ a"] A(1) by linarith
  let ?srps = "au_srps (sv_auths sv ! j)"
  have P: "GetPrime ?lib (sr_index (ss_secret ?srps)) = Some N" "GetGenerator (sr_index (ss_secret ?srps)) = Some g"
    using prime(1,2) au(2) by simp_all
  obtain r parsed s3 cur3 s4 where parse: "oc_copy (fst cursor) (snd cursor) = Some r"
    "ParseClientPublicKey ?lib r ?srps = Some (0, parsed, ?srps\<lparr>ss_A := A\<rparr>)"
    and skip: "skip_parsed (snd cursor) parsed = Some (s3, cur3)" "oc_destroy s3 (snd parsed) = Some s4"
    "kept others vs (s4, cur3)" "reader_contents (s4, cur3) = rest"
    by (rule parsed_copy [OF msg(1,2), where P = "\<lambda>r r'. ParseClientPublicKey ?lib r ?srps = Some (0, r', ?srps\<lparr>ss_A := A\<rparr>)"])
      (erule (1) ParseClientPublicKey_reads [OF doc(3) _ _ Alim P(1) prime(3) A(2)])
  define srps1 where "srps1 = ?srps\<lparr>ss_A := A\<rparr>"
  define sv1 where "sv1 = set_auth j ((sv_auths sv ! j)\<lparr>au_srps := srps1\<rparr>) sv"
  have sv1: "session_at p sv1 = session_at p sv" "hb_prng sv1 = hb_prng sv" "hb_world sv1 = hb_world sv" "hb_map sv1 = hb_map sv"
    "hb_sessions sv1 = hb_sessions sv" "sv_auths sv1 ! j = (sv_auths sv ! j)\<lparr>au_srps := srps1\<rparr>"
    using au(1) by (simp_all add: sv1_def)
  have same: "Message cc p sv1 = Message cc p sv" "session_ready i p sv1 = session_ready i p sv" "sent_by p sv1 = sent_by p sv" for i
    using sv1 by (simp_all add: Message_def session_ready_def sent_by_def)
  obtain rng1 where rng1: "draw_exponent ?lib (cr_rc4 cr) kBLength g N (hb_prng sv) = Some (b, g ^ b mod N, rng1)" "entropic (Suc (Suc n)) rng1"
    using draws_entropic [OF doc(3,2) b prime(3), of kBLength "Suc (Suc n)"] parts by (auto simp: kBLength_def)
  have P1: "GetPrime ?lib (sr_index (ss_secret srps1)) = Some N" "GetGenerator (sr_index (ss_secret srps1)) = Some g"
    "sr_v (ss_secret srps1) = sr_v secret"
    using P au(2) by (simp_all add: srps1_def)
  define srps2 where "srps2 = srps1\<lparr>ss_b := b, ss_B := B\<rparr>"
  obtain m where m: "FillServerPublicKey ?lib (cr_rc4 cr) (hb_prng sv) (Message cc p sv1) srps1 = Some (True, rng1, m, srps2)"
    "reader_contents m = bn_wire ?lib B" "tidy [] m"
    using FillServerPublicKey_writes [OF doc(3) talking_message_tidy [OF talk] P1(1,2) prime(3,4) rng1(1)] parts P1(3)
    unfolding same(1) srps2_def B by (metis append_Nil)
  let ?sv2 = "put_Message cc p m (set_auth j ((sv_auths sv ! j)\<lparr>au_srps := srps2\<rparr>) (sv1\<lparr>hb_prng := rng1\<rparr>))"
  let ?mem = "cr_memory cr rng1"
  have powlim: "g ^ (b * (a + CalculateU ?lib N A B * x)) mod N < prime_limit"
    using prime(3,4) by (meson less_trans mod_less_divisor)
  obtain secretbuf where buf: "ExportAsBinary_buffer ?lib (g ^ (b * (a + CalculateU ?lib N A B * x)) mod N) (sb_new ?mem) = Some secretbuf"
    "sb_content secretbuf = BN_bn2bin ?lib (g ^ (b * (a + CalculateU ?lib N A B * x)) mod N)"
    using key_exported [OF doc(3) powlim, of ?mem] by metis
  have secretkey: "server_GetPrivateKey ?lib (sb_new ?mem) srps2 = Some (True, secretbuf)"
    using server_key_computed [OF doc(3) prime(3), of srps2 g a x "sb_new ?mem"] P1 buf(1) fits A(1) v
    by (simp add: srps2_def srps1_def)
  obtain salt rng2 where salt: "ComputeSalt (cr_rc4 cr) (take kKeyLengthInBytes ?mem) rng1 = Some (salt, rng2)"
    "length salt = kKeyLengthInBytes" "entropic (Suc n) rng2"
    using Get_returns [OF doc(2) rng1(2), of "take kKeyLengthInBytes ?mem"] doc(5) [of rng1] by (auto simp: ComputeSalt_def)
  obtain m2 where m2: "reader_add m salt = Some m2" "reader_contents m2 = bn_wire ?lib B @ salt" "tidy [] m2"
    using cursor_sink.add_appends [OF m(3), of salt] m(2) by auto
  have sendsalt: "SendSalt (cr_rc4 cr) rng1 m (new_aes_key cr rng1) = Some (rng2, m2, (new_aes_key cr rng1)\<lparr>ak_salt := salt\<rparr>)"
    using salt(1) m2(1) by (simp add: SendSalt_def new_aes_key_def)
  define sv2 where "sv2 = ?sv2"
  have ready2: "session_ready (Suc k) p sv2" "Message cc p sv2 = m" "sent_by p sv2 = sent_by p sv" "hb_map sv2 = hb_map sv"
    "se_encoder (session_at p sv2) = se_encoder (session_at p sv)" "se_decoder (session_at p sv2) = se_decoder (session_at p sv)"
    "length (hb_sessions sv2) = length (hb_sessions sv)" "hb_prng sv2 = rng1"
    using put_Message_result [of "Suc k" p "set_auth j ((sv_auths sv ! j)\<lparr>au_srps := srps2\<rparr>) (sv1\<lparr>hb_prng := rng1\<rparr>)" m] parts m(3) sv1 p
    by (simp_all add: sv2_def session_ready_def sent_by_def)
  let ?sv3 = "put_Message cc p m2 (sv2\<lparr>hb_prng := rng2\<rparr>)"
  have ready3: "session_ready (Suc k) p ?sv3" "scrambling (se_encoder (session_at p ?sv3))" "scrambling (se_decoder (session_at p ?sv3))"
    "entropic (Suc n) (hb_prng ?sv3)" "reader_contents (Message cc p ?sv3) = bn_wire ?lib B @ salt"
    "sent_by p ?sv3 = sent_by p sv" "hb_map ?sv3 = hb_map sv" "length (hb_sessions ?sv3) = length (hb_sessions sv)"
    using put_Message_result [of "Suc k" p "sv2\<lparr>hb_prng := rng2\<rparr>" m2] parts m2 ready2 p salt(3)
    by (simp_all add: session_ready_def sent_by_def)
  have "B < prime_limit" unfolding B using prime(3,4) by (meson less_trans mod_less_divisor)
  then have "length (bn_wire ?lib B @ salt) < 2 ^ 24"
    using bn_short [OF doc(3)] bn_wire_length [OF doc(3)] salt(2) by (fastforce simp: kKeyLengthInBytes_def)
  then obtain e rng c w prefix where send: "SendMessage cr cc p ?sv3 =
      Some (True, set_session p ((session_at p ?sv3)\<lparr>se_encoder := Some e, se_connection := c\<rparr>) (?sv3\<lparr>hb_prng := rng, hb_world := w\<rparr>))"
    "\<And>h' :: ('x, 'k, 'c, 'h, 'w) server. p < length (hb_sessions h') \<Longrightarrow> hb_prng h' = rng \<Longrightarrow> hb_world h' = w \<Longrightarrow> se_connection (session_at p h') = c \<Longrightarrow>
      se_encoder (session_at p h') = Some e \<Longrightarrow> se_decoder (session_at p h') = se_decoder (session_at p ?sv3) \<Longrightarrow>
      talking k n p h' \<and> sent_by p h' = sent_by p ?sv3 @ [seal aes bf ScrambleSession prefix (bn_wire ?lib B @ salt)]"
    "length prefix = prefix_length (cr_ssl cr) ScrambleSession"
    using message_sent [OF cr ready3(1-5)] by metis
  let ?sv4 = "set_session p ((session_at p ?sv3)\<lparr>se_encoder := Some e, se_connection := c\<rparr>) (?sv3\<lparr>hb_prng := rng, hb_world := w\<rparr>)"
  let ?key = "ComputeKey (cr_hmac cr) salt kKeyLengthInBytes secretbuf"
  let ?e = "new_protector cr (AesSession ?key)"
  let ?sv5 = "SetDecoder p (Some ?e) (SetEncoder p (Some ?e) ?sv4)"
  have "length ?key = kKeyLengthInBytes" using doc(4) by (simp add: ComputeKey_length kSHA1Length_def)
  then have protector: "new_aes_protector cr (SetupKey (cr_hmac cr) secretbuf ((new_aes_key cr rng1)\<lparr>ak_salt := salt\<rparr>)) = Some ?e"
    using doc(8) by (simp add: new_aes_protector_def AesSessionProtector_new_def SetupKey_def)
  note ready4 = send(2) [of ?sv4]
  have run: "ParsePublicKeyCallback cr cc HandleConnect j p cursor sv = map_option (Pair (s4, cur3)) (HandleConnect p ?sv5)" for HandleConnect
    using m(1) send(1) skip(1,2) ready2(2,8) au(1)
    by (cases "HandleConnect p ?sv5")
      (simp_all add: ParsePublicKeyCallback_def parse srps1_def [symmetric] sv1_def [symmetric] sv1(2) sv2_def [symmetric] secretkey sendsalt
        protector AuthenticationDoneHandler_def Let_def)
  show thesis
    by (rule that [OF run skip(3,4)])
      (use ready4 send(3) salt(2) buf(2) p ready3 ready2 in
        \<open>simp_all add: talking_def session_ready_def sent_by_def Message_def SetDecoder_def SetEncoder_def\<close>)
qed

end

section \<open>The client\<close>

context message_connection
begin

lemma client_says_hello:
  fixes cl :: "('x, 'k, 'c, 'h, 'w) client"
  assumes cr: "crypto_documented cr aes bf" and talk: "talking (Suc k) (Suc n) p cl"
    and name: "cl_chatter cl kUserName = Some name" "length (sb_content name) \<le> 65535"
  obtains cl' prefix where "client_StartAuthentication cr cc p cl = Some (True, cl')" "talking k n p cl'"
    "sent_by p cl' = sent_by p cl @ [seal aes bf ScrambleSession prefix (string_wire (sb_content name))]"
    "length prefix = prefix_length (cr_ssl cr) ScrambleSession"
    "se_read_callback (session_at p cl') = Some (Hello_callback (length (cl_auths cl)))" "hb_map cl' = hb_map cl"
    "cl_chatter cl' = cl_chatter cl" "length (hb_sessions cl') = length (hb_sessions cl)"
    "length (cl_auths cl) < length (cl_auths cl')" "sc_username (cl_auths cl' ! length (cl_auths cl)) = sb_content name"
proof -
  note parts = talk [unfolded talking_def]
  then have p: "p < length (hb_sessions cl)" by (simp add: session_ready_def)
  obtain c1 where c1: "SrpClient_new (sb_content name) = Some c1" "sc_username c1 = sb_content name"
    by (simp add: SrpClient_new_def SrpSecret_new_def)
  let ?cl1 = "cl\<lparr>cl_auths := cl_auths cl @ [c1]\<rparr>"
  obtain m where m: "FillClientHello (Message cc p cl) c1 = Some m" "reader_contents m = string_wire (sb_content name)" "tidy [] m"
    using FillClientHello_writes [OF talking_message_tidy [OF talk], of c1] parts name(2) c1(2) by auto
  let ?cl2 = "SetCallbacks p (Some (Hello_callback (length (cl_auths cl)))) None (put_Message cc p m ?cl1)"
  note put = put_Message_result [of "Suc k" p ?cl1 m]
  have same: "Message cc p ?cl1 = Message cc p cl" "session_ready i p ?cl1 = session_ready i p cl" "sent_by p ?cl1 = sent_by p cl" for i
    by (simp_all add: Message_def session_ready_def sent_by_def)
  have ready2: "session_ready (Suc k) p ?cl2" "scrambling (se_encoder (session_at p ?cl2))" "scrambling (se_decoder (session_at p ?cl2))"
    "entropic (Suc n) (hb_prng ?cl2)" "reader_contents (Message cc p ?cl2) = string_wire (sb_content name)" "sent_by p ?cl2 = sent_by p cl"
    using put same parts m p by (simp_all add: SetCallbacks_def session_ready_def sent_by_def Message_def)
  have "length (string_wire (sb_content name)) < 2 ^ 24" using name(2) by simp
  then obtain e rng c w prefix where send: "SendMessage cr cc p ?cl2 =
      Some (True, set_session p ((session_at p ?cl2)\<lparr>se_encoder := Some e, se_connection := c\<rparr>) (?cl2\<lparr>hb_prng := rng, hb_world := w\<rparr>))"
    "\<And>h' :: ('x, 'k, 'c, 'h, 'w) client. p < length (hb_sessions h') \<Longrightarrow> hb_prng h' = rng \<Longrightarrow> hb_world h' = w \<Longrightarrow> se_connection (session_at p h') = c \<Longrightarrow>
      se_encoder (session_at p h') = Some e \<Longrightarrow> se_decoder (session_at p h') = se_decoder (session_at p ?cl2) \<Longrightarrow>
      talking k n p h' \<and> sent_by p h' = sent_by p ?cl2 @ [seal aes bf ScrambleSession prefix (string_wire (sb_content name))]"
    "length prefix = prefix_length (cr_ssl cr) ScrambleSession"
    using message_sent [OF cr ready2(1-5)] by metis
  let ?cl3 = "set_session p ((session_at p ?cl2)\<lparr>se_encoder := Some e, se_connection := c\<rparr>) (?cl2\<lparr>hb_prng := rng, hb_world := w\<rparr>)"
  have run: "client_StartAuthentication cr cc p cl = Some (True, ?cl3)"
    using m(1) send(1) by (simp add: client_StartAuthentication_def client_AuthenticationSession_def name(1) c1(1) same(1) Let_def)
  show thesis
    by (rule that [OF run])
      (use send(2) [of ?cl3] send(3) p ready2(6) c1(2) in \<open>simp_all add: SetCallbacks_def\<close>)
qed

text \<open>The user's parameters arrive: the client sends its public key.\<close>

lemma client_answers_hello:
  fixes cl :: "('x, 'k, 'c, 'h, 'w) client"
  assumes cr: "crypto_documented cr aes bf" and talk: "talking (Suc k) (Suc (Suc n)) p cl"
    and msg: "kept others vs cursor" "reader_contents cursor = hello_wire secret @ rest"
      "8 \<le> length (sr_salt secret)" "length (sr_salt secret) \<le> 65535"
    and au: "j < length (cl_auths cl)"
    and prime: "GetPrime (cr_bn cr) (sr_index secret) = Some N" "GetGenerator (sr_index secret) = Some g" "0 < N" "N < prime_limit"
    and a: "draws (cr_bn cr) (cr_rc4 cr) g N (hb_prng cl) a"
  obtains cursor' cl' prefix where "HelloCallback cr cc j p cursor cl = Some (cursor', cl')"
    "kept others vs cursor'" "reader_contents cursor' = rest" "talking k n p cl'"
    "sent_by p cl' = sent_by p cl @ [seal aes bf ScrambleSession prefix (bn_wire (cr_bn cr) (g ^ a mod N))]"
    "length prefix = prefix_length (cr_ssl cr) ScrambleSession"
    "se_read_callback (session_at p cl') = Some (Public_key_callback j)" "hb_map cl' = hb_map cl"
    "cl_chatter cl' = cl_chatter cl" "length (hb_sessions cl') = length (hb_sessions cl)" "length (cl_auths cl') = length (cl_auths cl)"
    "cl_auths cl' ! j = (cl_auths cl ! j)\<lparr>sc_salt := sr_salt secret, sc_index := sr_index secret, sc_a := a, sc_A := g ^ a mod N\<rparr>"
proof -
  let ?lib = "cr_bn cr"
  note doc = crypto_documentedD [OF cr]
  note parts = talk [unfolded talking_def]
  then have p: "p < length (hb_sessions cl)" by (simp add: session_ready_def)
  have valid: "ValidIndex (sr_index secret)" using prime(2) by (simp add: GetGenerator_def split: bind_splits)
  let ?c0 = "cl_auths cl ! j"
  define c1 where "c1 = ?c0\<lparr>sc_salt := sr_salt secret, sc_index := sr_index secret\<rparr>"
  obtain r parsed s3 cur3 s4 where parse: "oc_copy (fst cursor) (snd cursor) = Some r" "ParseServerHello r ?c0 = Some (0, parsed, c1)"
    and skip: "skip_parsed (snd cursor) parsed = Some (s3, cur3)" "oc_destroy s3 (snd parsed) = Some s4"
    "kept others vs (s4, cur3)" "reader_contents (s4, cur3) = rest"
    by (rule parsed_copy [OF msg(1,2), where P = "\<lambda>r r'. ParseServerHello r ?c0 = Some (0, r', c1)"])
      (unfold c1_def, erule (1) ParseServerHello_reads [OF _ _ valid msg(3,4)])
  define cl1 where "cl1 = set_client_auth j c1 cl"
  have same: "Message cc p cl1 = Message cc p cl" by (simp add: Message_def cl1_def)
  obtain rng1 where rng1: "draw_exponent ?lib (cr_rc4 cr) kALength g N (hb_prng cl) = Some (a, g ^ a mod N, rng1)" "entropic (Suc n) rng1"
    using draws_entropic [OF doc(3,2) a prime(3), of kALength "Suc n"] parts by (auto simp: kALength_def)
  have P1: "GetPrime ?lib (sc_index c1) = Some N" "GetGenerator (sc_index c1) = Some g" using prime(1,2) by (simp_all add: c1_def)
  have Alim: "g ^ a mod N < prime_limit" using prime(3,4) by (meson less_trans mod_less_divisor)
  define c2 where "c2 = c1\<lparr>sc_a := a, sc_A := g ^ a mod N\<rparr>"
  obtain m where m: "FillClientPublicKey ?lib (cr_rc4 cr) (hb_prng cl) (Message cc p cl1) c1 = Some (True, rng1, m, c2)"
    "reader_contents m = bn_wire ?lib (g ^ a mod N)" "tidy [] m"
    using FillClientPublicKey_writes [OF doc(3) talking_message_tidy [OF talk] P1 rng1(1) Alim] parts unfolding same c2_def by (metis append_Nil)
  let ?cl2 = "set_client_auth j c2 (cl1\<lparr>hb_prng := rng1\<rparr>)"
  let ?cl3 = "SetCallbacks p (Some (Public_key_callback j)) None (put_Message cc p m ?cl2)"
  have ready3: "session_ready (Suc k) p ?cl3" "scrambling (se_encoder (session_at p ?cl3))" "scrambling (se_decoder (session_at p ?cl3))"
    "entropic (Suc n) (hb_prng ?cl3)" "reader_contents (Message cc p ?cl3) = bn_wire ?lib (g ^ a mod N)" "sent_by p ?cl3 = sent_by p cl"
    using put_Message_result [of "Suc k" p ?cl2 m] parts m(2,3) p rng1(2)
    by (simp_all add: SetCallbacks_def session_ready_def sent_by_def Message_def cl1_def)
  have "length (bn_wire ?lib (g ^ a mod N)) < 2 ^ 24"
    using bn_short [OF doc(3) Alim] by (simp add: bn_wire_length [OF doc(3)])
  then obtain e rng c w prefix where send: "SendMessage cr cc p ?cl3 =
      Some (True, set_session p ((session_at p ?cl3)\<lparr>se_encoder := Some e, se_connection := c\<rparr>) (?cl3\<lparr>hb_prng := rng, hb_world := w\<rparr>))"
    "\<And>h' :: ('x, 'k, 'c, 'h, 'w) client. p < length (hb_sessions h') \<Longrightarrow> hb_prng h' = rng \<Longrightarrow> hb_world h' = w \<Longrightarrow> se_connection (session_at p h') = c \<Longrightarrow>
      se_encoder (session_at p h') = Some e \<Longrightarrow> se_decoder (session_at p h') = se_decoder (session_at p ?cl3) \<Longrightarrow>
      talking k n p h' \<and> sent_by p h' = sent_by p ?cl3 @ [seal aes bf ScrambleSession prefix (bn_wire ?lib (g ^ a mod N))]"
    "length prefix = prefix_length (cr_ssl cr) ScrambleSession"
    using message_sent [OF cr ready3(1-5)] by metis
  let ?cl4 = "set_session p ((session_at p ?cl3)\<lparr>se_encoder := Some e, se_connection := c\<rparr>) (?cl3\<lparr>hb_prng := rng, hb_world := w\<rparr>)"
  have run: "HelloCallback cr cc j p cursor cl = Some ((s4, cur3), ?cl4)"
    using m(1) send(1) skip(1,2)
    by (simp add: HelloCallback_def parse cl1_def [symmetric] Let_def)
  show thesis
    by (rule that [OF run skip(3,4)])
      (use send(2) [of ?cl4] send(3) p ready3(6) au in \<open>simp_all add: SetCallbacks_def cl1_def c2_def c1_def\<close>)
qed

text \<open>The server's public key and the salt arrive: the client computes the key.\<close>

lemma client_gets_key:
  fixes cl :: "('x, 'k, 'c, 'h, 'w) client"
  assumes cr: "crypto_documented cr aes bf" and talk: "talking k n p cl"
    and msg: "kept others vs cursor" "reader_contents cursor = bn_wire (cr_bn cr) B @ salt @ rest" "length salt = kKeyLengthInBytes"
    and au: "j < length (cl_auths cl)" "c0 = cl_auths cl ! j" "sc_index c0 = index"
    and prime: "GetPrime (cr_bn cr) index = Some N" "GetGenerator index = Some g" "0 < N" "N < prime_limit"
    and pwd: "cl_chatter cl kPassword = Some pwd" "x = srp_x (cr_bn cr) (sc_username c0) (sc_salt c0) pwd"
    and B: "B = (g ^ b mod N + CalculateK (cr_bn cr) N g * (g ^ x mod N) mod N) mod N" "\<not> N dvd B"
    and fits: "sc_a c0 + CalculateU (cr_bn cr) N (sc_A c0) B * x < N"
  obtains cursor' cl' secretbuf e where
    "\<And>HandleSession. PublicKeyCallback cr cc HandleSession j p cursor cl = map_option (Pair cursor') (HandleSession p cl')"
    "kept others vs cursor'" "reader_contents cursor' = rest" "session_ready k p cl'" "hb_prng cl' = hb_prng cl"
    "reader_contents (Message cc p cl') = []" "sent_by p cl' = sent_by p cl" "hb_map cl' = hb_map cl"
    "sb_content secretbuf = BN_bn2bin (cr_bn cr) (g ^ (b * (sc_a c0 + CalculateU (cr_bn cr) N (sc_A c0) B * x)) mod N)"
    "e = new_protector cr (AesSession (ComputeKey (cr_hmac cr) salt kKeyLengthInBytes secretbuf))"
    "se_encoder (session_at p cl') = Some e" "se_decoder (session_at p cl') = Some e"
    "length (hb_sessions cl') = length (hb_sessions cl)"
proof -
  let ?lib = "cr_bn cr"
  note doc = crypto_documentedD [OF cr]
  note parts = talk [unfolded talking_def]
  then have p: "p < length (hb_sessions cl)" by (simp add: session_ready_def)
  have Blim: "B < prime_limit" unfolding B(1) using prime(3,4) by (meson less_trans mod_less_divisor)
  have P: "GetPrime ?lib (sc_index c0) = Some N" using prime(1) au(3) by simp
  define c1 where "c1 = c0\<lparr>sc_B := B\<rparr>"
  let ?mem = "cr_memory cr (hb_prng cl)"
  define ps where "ps = g ^ (b * (sc_a c0 + CalculateU ?lib N (sc_A c0) B * x)) mod N"
  have "ps < prime_limit" unfolding ps_def using prime(3,4) by (meson less_trans mod_less_divisor)
  then obtain secretbuf where buf: "ExportAsBinary_buffer ?lib ps (sb_new ?mem) = Some secretbuf" "sb_content secretbuf = BN_bn2bin ?lib ps"
    using key_exported [OF doc(3), of ps ?mem] by metis
  have "map_option (\<lambda>r. fst (snd r)) (client_GetPrivateKey ?lib pwd (sb_new ?mem) c1) = Some secretbuf"
    using client_key_computed [OF doc(3) prime(3), of c1 g x pwd b "sb_new ?mem"] prime(1,2) au(3) pwd(2) B(1) fits buf(1)
    by (simp add: c1_def ps_def)
  then obtain ok c2 where priv: "client_GetPrivateKey ?lib pwd (sb_new ?mem) c1 = Some (ok, secretbuf, c2)" by auto
  then have ok: "ok = True" by (auto simp: client_GetPrivateKey_def split: bind_splits prod.splits)
  have arrive: "\<exists>r'. (\<exists>r1. ParseServerPublicKey ?lib r c0 = Some (0, r1, c1) \<and> reader_consume r1 kKeyLengthInBytes = Some (salt, r')) \<and>
      reader_contents r' = rest \<and> kept os us r'" if r: "kept os us r" "reader_contents r = (bn_wire ?lib B @ salt) @ rest" for os us r
  proof -
    obtain r1 where r1: "ParseServerPublicKey ?lib r c0 = Some (0, r1, c1)" "reader_contents r1 = salt @ rest" "kept os us r1"
      using ParseServerPublicKey_reads [OF doc(3) r(1) _ Blim P prime(3) B(2), of "salt @ rest"] r(2) by (auto simp: c1_def)
    from kept_source.consume_prefix [OF this(3,2) msg(3)] r1(1) show ?thesis by blast
  qed
  have "reader_contents cursor = (bn_wire ?lib B @ salt) @ rest" using msg(2) by simp
  then obtain r parsed s3 cur3 s4 where copy: "oc_copy (fst cursor) (snd cursor) = Some r"
    "\<exists>r1. ParseServerPublicKey ?lib r c0 = Some (0, r1, c1) \<and> reader_consume r1 kKeyLengthInBytes = Some (salt, parsed)"
    and skip: "skip_parsed (snd cursor) parsed = Some (s3, cur3)" "oc_destroy s3 (snd parsed) = Some s4"
    "kept others vs (s4, cur3)" "reader_contents (s4, cur3) = rest"
    by (rule parsed_copy [OF msg(1), where P = "\<lambda>r r'. \<exists>r1. ParseServerPublicKey ?lib r c0 = Some (0, r1, c1) \<and>
        reader_consume r1 kKeyLengthInBytes = Some (salt, r')"]) (erule (1) arrive)
  then obtain r1 where parse: "ParseServerPublicKey ?lib r c0 = Some (0, r1, c1)" "reader_consume r1 kKeyLengthInBytes = Some (salt, parsed)"
    by blast
  have recv: "RecvSalt r1 (new_aes_key cr (hb_prng cl)) = Some (0, parsed, (new_aes_key cr (hb_prng cl))\<lparr>ak_salt := salt\<rparr>)"
    using parse(2) msg(3) doc(5) [of "hb_prng cl"] by (simp add: RecvSalt_def new_aes_key_def)
  let ?key = "ComputeKey (cr_hmac cr) salt kKeyLengthInBytes secretbuf"
  let ?e = "new_protector cr (AesSession ?key)"
  let ?cl1 = "set_client_auth j c2 (set_client_auth j c1 cl)"
  let ?cl2 = "SetDecoder p (Some ?e) (SetEncoder p (Some ?e) ?cl1)"
  have "length ?key = kKeyLengthInBytes" using doc(4) by (simp add: ComputeKey_length kSHA1Length_def)
  then have protector: "new_aes_protector cr (SetupKey (cr_hmac cr) secretbuf ((new_aes_key cr (hb_prng cl))\<lparr>ak_salt := salt\<rparr>)) = Some ?e"
    using doc(8) by (simp add: new_aes_protector_def AesSessionProtector_new_def SetupKey_def)
  have run: "PublicKeyCallback cr cc HandleSession j p cursor cl = map_option (Pair (s4, cur3)) (HandleSession p ?cl2)" for HandleSession
    using skip(1,2)
    by (cases "HandleSession p ?cl2")
      (simp_all add: PublicKeyCallback_def copy(1) parse(1) au(2) [symmetric] pwd(1) priv ok recv
        protector AuthenticationDoneHandler_def Let_def)
  show thesis
    by (rule that [OF run skip(3,4)])
      (use parts buf(2) p in \<open>simp_all add: session_ready_def sent_by_def Message_def SetDecoder_def SetEncoder_def ps_def\<close>)
qed

end

end
