(* ===== verification/UdpSteps.thy ===== *)
theory UdpSteps
  imports UdpTranscoders LoginSteps
begin

text \<open>
  What the transcoders do with a packet: it is read, decoded and given to the handler of its session, and
  what the handler sent is written to the socket.
\<close>

section \<open>Packets\<close>

lemma packet_stored:
  assumes "bs \<noteq> []" "length bs \<le> kMaxPacketSize" "ic_commit (ic_reserve (fst empty_reader) kMaxPacketSize) bs = Some s"
  shows "kept [] [] (s, snd empty_reader)" "reader_contents (s, snd empty_reader) = bs"
proof -
  have out: "out_ok [snd empty_reader] (fst empty_reader)" using empty_reader_ok(1) by (simp add: out_ok_tidy)
  have "0 < kMaxPacketSize" by (simp add: kMaxPacketSize_def)
  note reserve = reserved [OF out this]
  have "length bs \<le> ic_contiguous (ic_reserve (fst empty_reader) kMaxPacketSize)" using reserve(3) assms(2) by simp
  from commit_fills [OF reserve(1,2) this] assms(3) have "written [snd empty_reader] (fst empty_reader) bs s"
    using reserve(4) by auto
  note sent = written_tidy [OF empty_reader_ok(1) this assms(1)]
  show "reader_contents (s, snd empty_reader) = bs" using sent(2) empty_reader_ok(2) by simp
  then show "kept [] [] (s, snd empty_reader)" using sent(1) assms(2) by (intro fresh_kept) (simp_all add: kMaxPacketSize_def)
qed

lemma room_in_packet: "bs \<noteq> [] \<Longrightarrow> length bs \<le> kMaxPacketSize \<Longrightarrow> room_to_read (ic_reserve s kMaxPacketSize) bs"
  using reserve_room [of kMaxPacketSize s] by (simp add: room_to_read_def)

lemma packet_decoded:
  assumes "crypto_documented cr aes bf" "kind_ok (pt_kind e)" "kept [] [] r"
    "reader_contents r = packet_of cr aes bf (pt_kind e) prefix m" "length prefix = prefix_length (cr_ssl cr) (pt_kind e)"
    "m \<noteq> []" "length m < 2 ^ 24"
  obtains r' d x where "Decode (cr_ssl cr) r (fst empty_reader) e = Some (SUCCEEDED, r', d, e\<lparr>pt_ctx := x\<rparr>)"
    "kept [] [] (d, snd empty_reader)" "reader_contents (d, snd empty_reader) = m"
proof -
  have out: "out_ok [snd empty_reader] (fst empty_reader)" using empty_reader_ok(1) by (simp add: out_ok_tidy)
  have r: "reader_ok [] r" "length m + 64 < 2 ^ 32" using assms(3,7) by simp_all
  obtain r' d x where dec: "Decode (cr_ssl cr) r (fst empty_reader) e = Some (SUCCEEDED, r', d, e\<lparr>pt_ctx := x\<rparr>)"
    "written [snd empty_reader] (fst empty_reader) m d"
    using Decode_writes [OF crypto_documentedD(1) [OF assms(1)] assms(2) out r(1) assms(4) [unfolded packet_of_def] assms(5) r(2)] by blast
  note sent = written_tidy [OF empty_reader_ok(1) dec(2) assms(6)]
  have "reader_contents (d, snd empty_reader) = m" using sent(2) empty_reader_ok(2) by simp
  moreover from this have "kept [] [] (d, snd empty_reader)" using sent(1) assms(7) by (intro fresh_kept) simp_all
  ultimately show thesis using dec(1) that by blast
qed

text \<open>What is short enough for a packet, whoever encodes it.\<close>

definition short :: "bytes \<Rightarrow> bool" where
  "short m \<longleftrightarrow> m \<noteq> [] \<and> length m + 96 \<le> kMaxPacketSize"

lemma short_packet:
  assumes "crypto_documented cr aes bf" "short m" "length prefix = prefix_length (cr_ssl cr) kind"
  shows "packet_of cr aes bf kind prefix m \<noteq> []" "length (packet_of cr aes bf kind prefix m) \<le> kMaxPacketSize" "m \<noteq> []" "length m < 2 ^ 24"
  using packet_of_length [OF crypto_documentedD(1) [OF assms(1)], where kind = kind and prefix = prefix and m = m]
    crypto_documentedD(7) [OF assms(1), of kind] assms(2,3)
  by (auto simp: short_def kMaxPacketSize_def)

lemma udp_class_Message: "cc_Message (udp_class cr) c = uc_buffer c" "cc_Message (udp_client_class cr) k = uk_buffer k"
  by (simp_all add: udp_class_def udp_Message_def udp_client_class_def udp_client_Message_def)

lemma bn_wire_fits:
  assumes "bn_documented lib" "n < prime_limit"
  shows "short (bn_wire lib n)" "length salt = kKeyLengthInBytes \<Longrightarrow> short (bn_wire lib n @ salt)"
  using bn_short [OF assms] bn_wire_length [OF assms(1), of n]
  by (auto simp: short_def kMaxPacketSize_def kKeyLengthInBytes_def)

text \<open>A channel that takes a new session by setting its handlers.\<close>

definition takes_sessions :: "('h, ('x, 'k, 'c, 'g, 'w, 'e) hub_scheme) channel \<Rightarrow> bool" where
  "takes_sessions ch \<longleftrightarrow> (\<forall>p h. \<exists>readh closeh. ch_HandleConnect ch p h = Some (SetCallbacks p readh closeh h))"

section \<open>The server\<close>

lemma hub_update_simps [simp]:
  "session_at p (h\<lparr>hb_world := w, hb_prng := rng\<rparr>) = session_at p h"
  "GetSession key (set_session p s h) = GetSession key h" "GetSession key (h\<lparr>hb_world := w\<rparr>) = GetSession key h"
  by (simp_all add: session_at_def GetSession_def)

text \<open>The packet of a session that scrambles reaches its handler.\<close>

lemma udp_packet_handled:
  assumes cr: "crypto_documented cr aes bf" and r: "kept [] [] r" "reader_contents r = packet_of cr aes bf ScrambleSession prefix m"
      "length prefix = prefix_length (cr_ssl cr) ScrambleSession" "m \<noteq> []" "length m < 2 ^ 24"
    and p: "p < length (hb_sessions sv)" "scrambling (se_decoder (session_at p sv))"
    and session: "GetSession key sv = (Ready, Some p)"
  obtains e data where "udp_HandlePacket cr call key address r sv =
      (let sv' = set_session p ((session_at p sv)\<lparr>se_decoder := Some e\<rparr>) sv
       in do { (_, sv) \<leftarrow> HandlePacket call p data sv'; Some sv })"
    "pt_kind e = ScrambleSession" "kept [] [] data" "reader_contents data = m"
proof -
  obtain e where e: "GetDecoder cr p sv = (Some e, set_session p ((session_at p sv)\<lparr>se_decoder := Some e\<rparr>) sv)" "pt_kind e = ScrambleSession"
    using GetDecoder_scrambles [OF p(2,1)] by blast
  have "kind_ok (pt_kind e)" by (simp add: e(2))
  from packet_decoded [OF cr this r(1) r(2,3) [folded e(2)] r(4,5)] obtain r' d x where
    d: "Decode (cr_ssl cr) r (fst empty_reader) e = Some (SUCCEEDED, r', d, e\<lparr>pt_ctx := x\<rparr>)"
    "kept [] [] (d, snd empty_reader)" "reader_contents (d, snd empty_reader) = m" by blast
  show thesis
    using session e(1) d(1) p(1) e(2)
    by (intro that [OF _ _ d(2,3), of "e\<lparr>pt_ctx := x\<rparr>"])
      (simp_all add: udp_HandlePacket_def IsReady_def new_buffer_run SetDecoder_def Let_def)
qed

text \<open>So does the first packet of a new one.\<close>

definition udp_new_session :: "connection_key \<Rightarrow> sockaddr \<Rightarrow> ('x, 'k, udp_connection, 'h, 'n udp_server) server \<Rightarrow>
    ('x, 'k, udp_connection, 'h, 'n udp_server) server" where
  "udp_new_session key address sv =
     sv\<lparr>hb_sessions := hb_sessions sv @ [Session_new (Some Start_authenticator)
          \<lparr>uc_address = Some address, uc_buffer = empty_reader, uc_slot = \<lparr>sl_address = None, sl_buffer = empty_reader\<rparr>\<rparr>],
        hb_map := um_set cn_equal cn_hash key (length (hb_sessions sv)) (hb_map sv)\<rparr>"

lemma udp_new_session_found:
  "hb_map sv \<noteq> [] \<Longrightarrow> GetSession key (udp_new_session key address sv) = (Ready, Some (length (hb_sessions sv)))"
  using connection.find_set [of "hb_map sv" key _ key] connection.eq_refl [of key]
  by (simp add: GetSession_def udp_new_session_def)

lemma udp_new_session_made:
  assumes "GetSession key sv = (NeedNewSession, None)" "hb_map sv \<noteq> []"
  shows "udp_HandlePacket cr call key (Some address) r sv = udp_HandlePacket cr call key (Some address) r (udp_new_session key address sv)"
  using assms(1) udp_new_session_found [OF assms(2), of key address]
  by (simp add: udp_HandlePacket_def udp_Connection_new_def GetPacketSlot_def new_buffer_run CreateSession_def udp_new_session_def Let_def)

lemma udp_new_session_at:
  "session_at (length (hb_sessions sv)) (udp_new_session key address sv) = Session_new (Some Start_authenticator)
     \<lparr>uc_address = Some address, uc_buffer = empty_reader, uc_slot = \<lparr>sl_address = None, sl_buffer = empty_reader\<rparr>\<rparr>"
  by (simp add: session_at_def udp_new_session_def)

text \<open>A packet is read and handled, and one that waits is written.\<close>

definition udp_serve ::
    "('x, 'k) crypto \<Rightarrow> ('h, ('x, 'k, udp_connection, 'h, 'n udp_server) server) channel \<Rightarrow> bytes \<Rightarrow> u64 \<Rightarrow>
     ('x, 'k, udp_connection, 'h, 'n udp_server) server \<Rightarrow> ('x, 'k, udp_connection, 'h, 'n udp_server) server option" where
  "udp_serve cr ch memory this sv = do {
     (_, sv) \<leftarrow> udp_HandleRead cr ch memory this sv;
     (_, sv) \<leftarrow> udp_HandleWrite sv;
     Some sv
   }"

context datagram_net
begin

lemma udp_packet_read:
  assumes "us_socket (hb_world sv) = Some sock" "usable (Suc k) (us_net (hb_world sv))"
    "inbox (us_net (hb_world sv)) = (address, bs) # rest" "bs \<noteq> []" "length bs \<le> kMaxPacketSize"
    "dk_Add kConnectionKeySize (sa_Data address) (of_nat (sa_Size address)) (cn_new memory this) = Some key"
  obtains n r where "udp_HandleRead cr ch memory this sv =
      do { sv \<leftarrow> udp_HandlePacket cr (call_server cr (udp_class cr) ch) key (Some address) r
             (sv\<lparr>hb_world := (hb_world sv)\<lparr>us_net := n\<rparr>\<rparr>); Some (MORE, sv) }"
    "kept [] [] r" "reader_contents r = bs" "usable k n" "inbox n = rest" "sent n = sent (us_net (hb_world sv))"
proof -
  from packet_read [OF assms(2,3) room_in_packet [OF assms(4,5)]] obtain s n where
    n: "ds_Read sock (ic_reserve (fst empty_reader) kMaxPacketSize) (us_net (hb_world sv)) = Some (OK, Some address, s, n)"
      "ic_commit (ic_reserve (fst empty_reader) kMaxPacketSize) bs = Some s"
      "usable k n" "inbox n = rest" "sent n = sent (us_net (hb_world sv))" by blast
  show thesis
    using n(1) assms(1,6) packet_stored [OF assms(4,5) n(2)] n(3-5)
    by (intro that [of "(s, snd empty_reader)" n]) (simp_all add: udp_HandleRead_def new_buffer_run)
qed

text \<open>The oldest packet of the queue is written.\<close>

lemma udp_flushes:
  assumes "udp_ready peer ib st (Suc k) c (hb_world sv)" "udp_waiting c (hb_world sv) = (a, bs) # ps"
  obtains q n status where "udp_HandleWrite sv = Some (status, sv\<lparr>hb_world := (hb_world sv)\<lparr>us_queue := q, us_net := n\<rparr>\<rparr>)"
    "udp_ready peer ib (st @ [(a, bs)]) k c ((hb_world sv)\<lparr>us_queue := q, us_net := n\<rparr>)" "udp_waiting c ((hb_world sv)\<lparr>us_queue := q, us_net := n\<rparr>) = ps"
proof -
  let ?u = "hb_world sv"
  note parts = assms(1) [unfolded udp_ready_def]
  obtain slot slots where q: "dq_queue (us_queue ?u) = slot # slots" "sl_address slot = Some a" "reader_contents (sl_buffer slot) = bs"
    "map (\<lambda>slot. (the (sl_address slot), reader_contents (sl_buffer slot))) slots = ps"
    using assms(2) parts by (auto simp: udp_waiting_def)
  have "sendable (sl_buffer slot)" using parts q(1) by simp
  with packet_written [of k "us_net ?u" "sl_buffer slot" a] parts obtain r n where
    n: "dc_Write sock (sl_buffer slot) a (us_net ?u) = Some (OK, r, n)" "usable k n" "inbox n = inbox (us_net ?u)"
      "sent n = sent (us_net ?u) @ [(a, bs)]" unfolding q(3) by blast
  show thesis
    by (rule that [of _ n "(us_queue ?u)\<lparr>dq_queue := slots\<rparr>"])
      (use n q parts in \<open>simp_all add: udp_HandleWrite_def DatagramQueue_HandleWrite_def udp_ready_def udp_waiting_def datagram_channel.truncate_def\<close>)
qed

text \<open>The handler of a session changes what \<open>udp.talking\<close> says; then what it sent first is written.\<close>

lemma udp_talk_flushed:
  fixes sv :: "('x, 'k, udp_connection, 'h, 'n udp_server) server"
  assumes "udp.session_ready peer ib st (Suc k) p sv" "udp.sent_by p sv = (a, bs) # ps"
  obtains status sv' where "udp_HandleWrite sv = Some (status, sv')" "udp.session_ready peer ib (st @ [(a, bs)]) k p sv'" "udp.sent_by p sv' = ps"
    "\<exists>w. sv' = sv\<lparr>hb_world := w\<rparr>"
proof -
  have ready: "p < length (hb_sessions sv)" "udp_ready peer ib st (Suc k) (se_connection (session_at p sv)) (hb_world sv)"
    "udp_waiting (se_connection (session_at p sv)) (hb_world sv) = (a, bs) # ps"
    using assms by (simp_all add: udp.session_ready_def udp.sent_by_def)
  from udp_flushes [OF ready(2,3)] obtain q n status where
    "udp_HandleWrite sv = Some (status, sv\<lparr>hb_world := (hb_world sv)\<lparr>us_queue := q, us_net := n\<rparr>\<rparr>)"
    "udp_ready peer ib (st @ [(a, bs)]) k (se_connection (session_at p sv)) ((hb_world sv)\<lparr>us_queue := q, us_net := n\<rparr>)"
    "udp_waiting (se_connection (session_at p sv)) ((hb_world sv)\<lparr>us_queue := q, us_net := n\<rparr>) = ps" by blast
  with ready(1) show thesis by (intro that) (auto simp: udp.session_ready_def udp.sent_by_def)
qed

text \<open>The next packet of a session that scrambles is given to its handler.\<close>

lemma udp_server_receives:
  fixes sv :: "('x, 'k, udp_connection, 'h, 'n udp_server) server"
  assumes cr: "crypto_documented cr aes bf"
    and talk: "udp.talking cr peer ((peer, packet_of cr aes bf ScrambleSession prefix m) # rest) st (Suc k) n p sv" "udp.sent_by p sv = []"
    and m: "length prefix = prefix_length (cr_ssl cr) ScrambleSession" "short m"
    and key: "GetSession key sv = (Ready, Some p)"
      "dk_Add kConnectionKeySize (sa_Data peer) (of_nat (sa_Size peer)) (cn_new memory this) = Some key"
  obtains sv' data where "udp_HandleRead cr ch memory this sv =
      do { (_, sv) \<leftarrow> HandlePacket (call_server cr (udp_class cr) ch) p data sv'; Some (MORE, sv) }"
    "kept [] [] data" "reader_contents data = m" "udp.talking cr peer rest st k n p sv'" "udp.sent_by p sv' = []"
    "se_read_callback (session_at p sv') = se_read_callback (session_at p sv)" "sv_auths sv' = sv_auths sv" "hb_map sv' = hb_map sv"
    "hb_prng sv' = hb_prng sv"
proof -
  note parts = talk(1) [unfolded udp.talking_def udp.session_ready_def udp_ready_def]
  note len = short_packet [OF cr m(2,1)]
  have net: "us_socket (hb_world sv) = Some sock" "usable (Suc k) (us_net (hb_world sv))"
    "inbox (us_net (hb_world sv)) = (peer, packet_of cr aes bf ScrambleSession prefix m) # rest"
    using parts by simp_all
  obtain nt r where read: "udp_HandleRead cr ch memory this sv =
      do { sv \<leftarrow> udp_HandlePacket cr (call_server cr (udp_class cr) ch) key (Some peer) r (sv\<lparr>hb_world := (hb_world sv)\<lparr>us_net := nt\<rparr>\<rparr>);
           Some (MORE, sv) }"
    "kept [] [] r" "reader_contents r = packet_of cr aes bf ScrambleSession prefix m"
    "usable k nt" "inbox nt = rest" "sent nt = sent (us_net (hb_world sv))"
    by (rule udp_packet_read [OF net len(1,2) key(2)])
  define sv1 where "sv1 = sv\<lparr>hb_world := (hb_world sv)\<lparr>us_net := nt\<rparr>\<rparr>"
  have sv1: "p < length (hb_sessions sv1)" "scrambling (se_decoder (session_at p sv1))" "GetSession key sv1 = (Ready, Some p)"
    using parts key(1) by (simp_all add: sv1_def)
  obtain e data where handled: "udp_HandlePacket cr (call_server cr (udp_class cr) ch) key (Some peer) r sv1 =
      (let sv' = set_session p ((session_at p sv1)\<lparr>se_decoder := Some e\<rparr>) sv1
       in do { (_, sv) \<leftarrow> HandlePacket (call_server cr (udp_class cr) ch) p data sv'; Some sv })"
    "pt_kind e = ScrambleSession" "kept [] [] data" "reader_contents data = m"
    by (rule udp_packet_handled [OF cr read(2,3) m(1) len(3,4) sv1])
  let ?sv2 = "set_session p ((session_at p sv1)\<lparr>se_decoder := Some e\<rparr>) sv1"
  have "udp_HandleRead cr ch memory this sv = do { (_, sv) \<leftarrow> HandlePacket (call_server cr (udp_class cr) ch) p data ?sv2; Some (MORE, sv) }"
    unfolding read(1) handled(1) [unfolded sv1_def] sv1_def
    by (cases "HandlePacket (call_server cr (udp_class cr) ch) p data ?sv2") (simp_all add: Let_def sv1_def case_prod_unfold)
  then show thesis
    by (rule that [OF _ handled(3,4)])
      (use sv1(1) handled(2) parts talk(2) read(4-6) in
        \<open>auto simp: udp.talking_def udp.session_ready_def udp.sent_by_def udp_ready_def udp_waiting_def sv1_def scrambling_def Message_def\<close>)
qed

definition udp_between :: "('x, 'k) crypto \<Rightarrow> sockaddr \<Rightarrow> (sockaddr \<times> bytes) list \<Rightarrow> (sockaddr \<times> bytes) list \<Rightarrow> nat \<Rightarrow> nat \<Rightarrow>
    connection_key \<Rightarrow> nat \<Rightarrow> nat \<Rightarrow> srp_secret \<Rightarrow> ('x, 'k, udp_connection, 'h, 'n udp_server) server \<Rightarrow> bool" where
  "udp_between cr peer ib st k n key p j secret sv \<longleftrightarrow>
     udp.talking cr peer ib st k n p sv \<and> udp.sent_by p sv = [] \<and> GetSession key sv = (Ready, Some p) \<and>
     se_read_callback (session_at p sv) = Some (Parse_public_key j) \<and> j < length (sv_auths sv) \<and>
     ss_secret (au_srps (sv_auths sv ! j)) = secret"

text \<open>The first packet of a client, with the name of its user.\<close>

lemma udp_server_greets:
  fixes sv :: "('x, 'k, udp_connection, 'h, 'n udp_server) server"
  assumes cr: "crypto_documented cr aes bf"
    and world: "us_socket (hb_world sv) = Some sock" "dq_channel (us_queue (hb_world sv)) = Some (datagram_channel.truncate sock)"
      "dq_queue (us_queue (hb_world sv)) = []" "usable (Suc (Suc (Suc k))) (us_net (hb_world sv))"
    and packet: "inbox (us_net (hb_world sv)) = (address, packet_of cr aes bf ScrambleSession prefix (string_wire username)) # rest"
      "length prefix = prefix_length (cr_ssl cr) ScrambleSession" "short (string_wire username)"
    and new: "dk_Add kConnectionKeySize (sa_Data address) (of_nat (sa_Size address)) (cn_new memory this) = Some key"
      "GetSession key sv = (NeedNewSession, None)" "hb_map sv \<noteq> []" "entropic (Suc n) (hb_prng sv)"
    and user: "on_file username stored sv"
      "FromSecret (cr_bn cr) empty_reader stored \<lparr>sr_index = 0, sr_salt = [], sr_x = 0, sr_v = 0\<rparr> = Some (True, secret)"
      "short (hello_wire secret)"
  obtains sv' prefix' where "udp_serve cr ch memory this sv = Some sv'" "length prefix' = prefix_length (cr_ssl cr) ScrambleSession"
    "udp_between cr address rest (sent (us_net (hb_world sv)) @ [(address, packet_of cr aes bf ScrambleSession prefix' (hello_wire secret))])
       k n key (length (hb_sessions sv)) (length (sv_auths sv)) secret sv'"
proof -
  let ?p = "length (hb_sessions sv)"
  note len = short_packet [OF cr packet(3,2)]
  obtain nt r where read: "udp_HandleRead cr ch memory this sv =
      do { sv \<leftarrow> udp_HandlePacket cr (call_server cr (udp_class cr) ch) key (Some address) r (sv\<lparr>hb_world := (hb_world sv)\<lparr>us_net := nt\<rparr>\<rparr>);
           Some (MORE, sv) }"
    "kept [] [] r" "reader_contents r = packet_of cr aes bf ScrambleSession prefix (string_wire username)"
    "usable (Suc (Suc k)) nt" "inbox nt = rest" "sent nt = sent (us_net (hb_world sv))"
    by (rule udp_packet_read [OF world(1,4) packet(1) len(1,2) new(1)])
  define sv1 where "sv1 = udp_new_session key address (sv\<lparr>hb_world := (hb_world sv)\<lparr>us_net := nt\<rparr>\<rparr>)"
  have at: "session_at ?p sv1 = Session_new (Some Start_authenticator)
     \<lparr>uc_address = Some address, uc_buffer = empty_reader, uc_slot = \<lparr>sl_address = None, sl_buffer = empty_reader\<rparr>\<rparr>"
    using udp_new_session_at [where sv = "sv\<lparr>hb_world := (hb_world sv)\<lparr>us_net := nt\<rparr>\<rparr>" and key = key and address = address] by (simp add: sv1_def)
  have found: "GetSession key sv1 = (Ready, Some ?p)"
    using udp_new_session_found [where sv = "sv\<lparr>hb_world := (hb_world sv)\<lparr>us_net := nt\<rparr>\<rparr>" and key = key and address = address] new(3) by (simp add: sv1_def)
  have sv1: "?p < length (hb_sessions sv1)" "hb_world sv1 = (hb_world sv)\<lparr>us_net := nt\<rparr>" "hb_prng sv1 = hb_prng sv" "sv_auths sv1 = sv_auths sv"
    "sv_userdb sv1 = sv_userdb sv" "sv_opens sv1 = sv_opens sv"
    by (simp_all add: sv1_def udp_new_session_def)
  have fresh: "scrambling (se_decoder (session_at ?p sv1))" by (simp add: at scrambling_def Session_new_def)
  obtain e data where handled: "udp_HandlePacket cr (call_server cr (udp_class cr) ch) key (Some address) r sv1 =
      (let sv' = set_session ?p ((session_at ?p sv1)\<lparr>se_decoder := Some e\<rparr>) sv1
       in do { (_, sv) \<leftarrow> HandlePacket (call_server cr (udp_class cr) ch) ?p data sv'; Some sv })"
    "pt_kind e = ScrambleSession" "kept [] [] data" "reader_contents data = string_wire username"
    by (rule udp_packet_handled [OF cr read(2,3) packet(2) len(3,4) sv1(1) fresh found])
  define sv2 where "sv2 = set_session ?p ((session_at ?p sv1)\<lparr>se_decoder := Some e\<rparr>) sv1"
  have ready: "udp.talking cr address rest (sent (us_net (hb_world sv))) (Suc (Suc k)) (Suc n) ?p sv2" "udp.sent_by ?p sv2 = []"
    using sv1 at handled(2) world new(4) read(4-6) empty_reader_ok
    by (simp_all add: udp.talking_def udp.session_ready_def udp.sent_by_def udp_ready_def udp_waiting_def sv2_def scrambling_def Message_def
        udp_class_Message Session_new_def)
  have callback: "se_read_callback (session_at ?p sv2) = Some Start_authenticator" using sv1(1) by (simp add: sv2_def at Session_new_def)
  have stored: "on_file username stored sv2" using user(1) sv1(5,6) by (auto simp: sv2_def set_session_def intro: on_file_cong)
  have lens: "length username \<le> 65535" "length (sr_salt secret) \<le> 65535"
    using packet(3) user(3) by (simp_all add: short_def hello_wire_def kMaxPacketSize_def)
  have "reader_contents data = string_wire username @ []" using handled(4) by simp
  from udp.server_answers_hello [OF cr ready(1) handled(3) this lens(1) stored user(2) lens(2)]
  obtain cursor' sv3 prefix' where start: "StartAuthentication cr (udp_class cr) ?p data sv2 = Some (cursor', sv3)"
    and talk: "udp.talking cr address rest (sent (us_net (hb_world sv))) (Suc k) n ?p sv3"
    and out: "udp.sent_by ?p sv3 = udp.sent_by ?p sv2 @ [(address, packet_of cr aes bf ScrambleSession prefix' (hello_wire secret))]"
      "length prefix' = prefix_length (cr_ssl cr) ScrambleSession"
    and waits: "se_read_callback (session_at ?p sv3) = Some (Parse_public_key (length (sv_auths sv2)))" "hb_map sv3 = hb_map sv2"
      "length (sv_auths sv2) < length (sv_auths sv3)" "ss_secret (au_srps (sv_auths sv3 ! length (sv_auths sv2))) = secret" by metis
  have "GetSession key (sv\<lparr>hb_world := (hb_world sv)\<lparr>us_net := nt\<rparr>\<rparr>) = (NeedNewSession, None)" using new(2) by simp
  from udp_new_session_made [OF this, of cr "call_server cr (udp_class cr) ch" address r] new(3)
  have run: "udp_HandleRead cr ch memory this sv = Some (MORE, sv3)"
    using read(1) handled(1) start callback by (simp add: sv1_def [symmetric] sv2_def [symmetric] HandlePacket_def)
  note parts = talk [unfolded udp.talking_def]
  have "udp.sent_by ?p sv3 = [(address, packet_of cr aes bf ScrambleSession prefix' (hello_wire secret))]" using out(1) ready(2) by simp
  then obtain status sv4 where flush: "udp_HandleWrite sv3 = Some (status, sv4)" "udp.sent_by ?p sv4 = []"
    "udp.session_ready address rest (sent (us_net (hb_world sv)) @ [(address, packet_of cr aes bf ScrambleSession prefix' (hello_wire secret))]) k ?p sv4"
    "\<exists>w. sv4 = sv3\<lparr>hb_world := w\<rparr>"
    using udp_talk_flushed [of address rest "sent (us_net (hb_world sv))" k ?p sv3] parts by blast
  have auths: "sv_auths sv2 = sv_auths sv" "GetSession key sv2 = (Ready, Some ?p)" using found by (simp_all add: sv2_def sv1)
  show thesis
    by (rule that [OF _ out(2), of sv4])
      (use run flush parts waits [unfolded auths(1)] auths(2) in \<open>auto simp: udp_serve_def udp_between_def udp.talking_def Message_def GetSession_def\<close>)
qed

text \<open>The packet with the client's public key.\<close>

lemma udp_server_agrees:
  fixes sv :: "('x, 'k, udp_connection, 'h, 'n udp_server) server"
  assumes cr: "crypto_documented cr aes bf" and ch: "takes_sessions ch"
    and state: "udp_between cr peer ((peer, packet_of cr aes bf ScrambleSession prefix (bn_wire (cr_bn cr) A)) # rest) st
      (Suc (Suc (Suc k))) (Suc (Suc (Suc n))) key p j secret sv"
      "length prefix = prefix_length (cr_ssl cr) ScrambleSession"
      "dk_Add kConnectionKeySize (sa_Data peer) (of_nat (sa_Size peer)) (cn_new memory this) = Some key"
    and prime: "GetPrime (cr_bn cr) (sr_index secret) = Some N" "GetGenerator (sr_index secret) = Some g" "0 < N" "N < prime_limit"
    and A: "A = g ^ a mod N" "\<not> N dvd A" and v: "sr_v secret = g ^ x mod N"
    and b: "draws (cr_bn cr) (cr_rc4 cr) g N (hb_prng sv) b"
    and B: "B = (g ^ b mod N + CalculateK (cr_bn cr) N g * sr_v secret mod N) mod N"
    and fits: "a + CalculateU (cr_bn cr) N A B * x < N"
  obtains sv' prefix' salt secretbuf e where "udp_serve cr ch memory this sv = Some sv'"
    "length prefix' = prefix_length (cr_ssl cr) ScrambleSession" "length salt = kKeyLengthInBytes"
    "udp.session_ready peer rest (st @ [(peer, packet_of cr aes bf ScrambleSession prefix' (bn_wire (cr_bn cr) B @ salt))]) k p sv'"
    "udp.sent_by p sv' = []" "GetSession key sv' = (Ready, Some p)"
    "sb_content secretbuf = BN_bn2bin (cr_bn cr) (g ^ (b * (a + CalculateU (cr_bn cr) N A B * x)) mod N)"
    "e = new_protector cr (AesSession (ComputeKey (cr_hmac cr) salt kKeyLengthInBytes secretbuf))"
    "se_encoder (session_at p sv') = Some e" "se_decoder (session_at p sv') = Some e"
proof -
  note between = state(1) [unfolded udp_between_def]
  let ?m = "bn_wire (cr_bn cr) A"
  have "A < prime_limit" using A(1) prime(3,4) by (meson less_trans mod_less_divisor)
  then have fits_packet: "short ?m" by (rule bn_wire_fits [OF crypto_documentedD(3) [OF cr]])
  have talk0: "udp.talking cr peer ((peer, packet_of cr aes bf ScrambleSession prefix ?m) # rest) st
      (Suc (Suc (Suc k))) (Suc (Suc (Suc n))) p sv" "udp.sent_by p sv = []" "GetSession key sv = (Ready, Some p)"
    using between by simp_all
  obtain sv2 data where receive: "udp_HandleRead cr ch memory this sv =
      do { (_, sv) \<leftarrow> HandlePacket (call_server cr (udp_class cr) ch) p data sv2; Some (MORE, sv) }"
    "kept [] [] data" "reader_contents data = ?m"
    "udp.talking cr peer rest st (Suc (Suc k)) (Suc (Suc (Suc n))) p sv2" "udp.sent_by p sv2 = []"
    and same: "se_read_callback (session_at p sv2) = se_read_callback (session_at p sv)" "sv_auths sv2 = sv_auths sv" "hb_map sv2 = hb_map sv" "hb_prng sv2 = hb_prng sv"
    by (rule udp_server_receives [OF cr talk0(1,2) state(2) fits_packet talk0(3) state(3)])
  have ready: "udp.talking cr peer rest st (Suc (Suc k)) (Suc (Suc (Suc n))) p sv2" "udp.sent_by p sv2 = []"
    "se_read_callback (session_at p sv2) = Some (Parse_public_key j)" "j < length (sv_auths sv2)"
    "ss_secret (au_srps (sv_auths sv2 ! j)) = secret" "GetSession key sv2 = (Ready, Some p)"
    using receive(4,5) same between by (simp_all add: GetSession_def)
  have m: "reader_contents data = ?m @ []" using receive(3) by simp
  obtain cursor' sv3 prefix' salt secretbuf e' where
    step: "\<And>HandleConnect. ParsePublicKeyCallback cr (udp_class cr) HandleConnect j p data sv2 = map_option (Pair cursor') (HandleConnect p sv3)"
    and talk: "udp.session_ready peer rest st (Suc k) p sv3"
    and out: "udp.sent_by p sv3 = udp.sent_by p sv2 @ [(peer, packet_of cr aes bf ScrambleSession prefix' (bn_wire (cr_bn cr) B @ salt))]"
      "length prefix' = prefix_length (cr_ssl cr) ScrambleSession" "length salt = kKeyLengthInBytes" "hb_map sv3 = hb_map sv2"
    and agreed: "sb_content secretbuf = BN_bn2bin (cr_bn cr) (g ^ (b * (a + CalculateU (cr_bn cr) N A B * x)) mod N)"
      "e' = new_protector cr (AesSession (ComputeKey (cr_hmac cr) salt kKeyLengthInBytes secretbuf))"
      "se_encoder (session_at p sv3) = Some e'" "se_decoder (session_at p sv3) = Some e'"
    by (rule udp.server_answers_key [OF cr ready(1) receive(2) m ready(4,5) prime A v b [folded same(4)] B fits]) (rule that)
  obtain h c where connect: "ch_HandleConnect ch p sv3 = Some (SetCallbacks p h c sv3)" using ch unfolding takes_sessions_def by blast
  let ?sv4 = "SetCallbacks p h c sv3"
  have run: "udp_HandleRead cr ch memory this sv = Some (MORE, ?sv4)"
    using receive(1) step [of "ch_HandleConnect ch"] connect ready(3) by (simp add: HandlePacket_def)
  have p3: "p < length (hb_sessions sv3)" using talk by (simp add: udp.session_ready_def)
  then have "udp.session_ready peer rest st (Suc k) p ?sv4"
    "udp.sent_by p ?sv4 = [(peer, packet_of cr aes bf ScrambleSession prefix' (bn_wire (cr_bn cr) B @ salt))]"
    using talk out(1) ready(2) by (simp_all add: udp.session_ready_def udp.sent_by_def SetCallbacks_def)
  from udp_talk_flushed [OF this] obtain status sv5 where flush: "udp_HandleWrite ?sv4 = Some (status, sv5)" "udp.sent_by p sv5 = []"
    "udp.session_ready peer rest (st @ [(peer, packet_of cr aes bf ScrambleSession prefix' (bn_wire (cr_bn cr) B @ salt))]) k p sv5"
    "\<exists>w. sv5 = ?sv4\<lparr>hb_world := w\<rparr>" by blast
  show thesis
    by (rule that [OF _ out(2,3) flush(3,2) _ agreed(1,2)])
      (use run flush(1,4) agreed(3,4) p3 ready(6) out(4) in \<open>auto simp: udp_serve_def SetCallbacks_def GetSession_def\<close>)
qed

end

section \<open>The client\<close>

lemma udp_client_packet_handled:
  assumes cr: "crypto_documented cr aes bf" and r: "kept [] [] r" "reader_contents r = packet_of cr aes bf ScrambleSession prefix m"
      "length prefix = prefix_length (cr_ssl cr) ScrambleSession" "m \<noteq> []" "length m < 2 ^ 24"
    and p: "p < length (hb_sessions cl)" "scrambling (se_decoder (session_at p cl))"
    and session: "GetSession (uk_key c) cl = (Ready, Some p)"
  obtains e data where "udp_client_HandlePacket cr call c r cl =
      (let cl' = set_session p ((session_at p cl)\<lparr>se_decoder := Some e\<rparr>) cl
       in do { (_, cl) \<leftarrow> HandlePacket call p data cl'; Some cl })"
    "pt_kind e = ScrambleSession" "kept [] [] data" "reader_contents data = m"
proof -
  obtain e where e: "GetDecoder cr p cl = (Some e, set_session p ((session_at p cl)\<lparr>se_decoder := Some e\<rparr>) cl)" "pt_kind e = ScrambleSession"
    using GetDecoder_scrambles [OF p(2,1)] by blast
  have "kind_ok (pt_kind e)" by (simp add: e(2))
  from packet_decoded [OF cr this r(1) r(2,3) [folded e(2)] r(4,5)] obtain r' d x where
    d: "Decode (cr_ssl cr) r (fst empty_reader) e = Some (SUCCEEDED, r', d, e\<lparr>pt_ctx := x\<rparr>)"
    "kept [] [] (d, snd empty_reader)" "reader_contents (d, snd empty_reader) = m" by blast
  show thesis
    using session e(1) d(1) p(1) e(2)
    by (intro that [OF _ _ d(2,3), of "e\<lparr>pt_ctx := x\<rparr>"])
      (simp_all add: udp_client_HandlePacket_def udp_client_GetKey_def IsReady_def new_buffer_run SetDecoder_def Let_def)
qed

definition udp_answer ::
    "('x, 'k) crypto \<Rightarrow> ('h, ('x, 'k, 'n udp_client_connection, 'h, 'n) client) channel \<Rightarrow> nat \<Rightarrow>
     ('x, 'k, 'n udp_client_connection, 'h, 'n) client \<Rightarrow> ('x, 'k, 'n udp_client_connection, 'h, 'n) client option" where
  "udp_answer cr ch p cl = do {
     (_, cl) \<leftarrow> udp_client_HandleRead cr ch p cl;
     (_, cl) \<leftarrow> udp_client_HandleWrite p cl;
     Some cl
   }"

context bound_net
begin

lemma udp_client_packet_read:
  assumes "uk_socket (se_connection (session_at p cl)) = sock" "usable (Suc k) (hb_world cl)"
    "inbox (hb_world cl) = bs # rest" "bs \<noteq> []" "length bs \<le> kMaxPacketSize"
  obtains n r where "udp_client_HandleRead cr ch p cl =
      do { cl \<leftarrow> udp_client_HandlePacket cr (call_client cr (udp_client_class cr) ch) (se_connection (session_at p cl)) r
             (cl\<lparr>hb_world := n\<rparr>); Some (MORE, cl) }"
    "kept [] [] r" "reader_contents r = bs" "usable k n" "inbox n = rest" "sent n = sent (hb_world cl)"
proof -
  from packet_read [OF assms(2,3) room_in_packet [OF assms(4,5)]] obtain s n where
    n: "bc_Read sock (ic_reserve (fst empty_reader) kMaxPacketSize) (hb_world cl) = Some (OK, s, n)"
      "ic_commit (ic_reserve (fst empty_reader) kMaxPacketSize) bs = Some s"
      "usable k n" "inbox n = rest" "sent n = sent (hb_world cl)" by blast
  show thesis
    using n(1) assms(1) packet_stored [OF assms(4,5) n(2)] n(3-5)
    by (intro that [of "(s, snd empty_reader)" n]) (simp_all add: udp_client_HandleRead_def new_buffer_run Let_def)
qed

lemma udp_client_flushes:
  assumes "p < length (hb_sessions cl)" "udp_client_ready key ib st (Suc k) (se_connection (session_at p cl)) (hb_world cl)"
    "udp_client_waiting (se_connection (session_at p cl)) (hb_world cl) = bs # ps"
  obtains c n status where "udp_client_HandleWrite p cl =
      Some (status, set_session p ((session_at p cl)\<lparr>se_connection := c\<rparr>) (cl\<lparr>hb_world := n\<rparr>))"
    "udp_client_ready key ib (st @ [bs]) k c n" "udp_client_waiting c n = ps"
    "uk_buffer c = uk_buffer (se_connection (session_at p cl))"
proof -
  let ?c = "se_connection (session_at p cl)"
  note parts = assms(2) [unfolded udp_client_ready_def]
  obtain b rest where q: "pq_queue (uk_queue ?c) = b # rest" "reader_contents b = bs" "map reader_contents rest = ps"
    using assms(3) by (auto simp: udp_client_waiting_def)
  have "sendable b" using parts q(1) by simp
  with packet_written [of k "hb_world cl" b] parts obtain r n where
    n: "bc_Write sock b (hb_world cl) = Some (OK, r, n)" "usable k n" "inbox n = inbox (hb_world cl)"
      "sent n = sent (hb_world cl) @ [bs]" unfolding q(2) by blast
  show thesis
    by (rule that [of _ "?c\<lparr>uk_queue := (uk_queue ?c)\<lparr>pq_queue := rest\<rparr>\<rparr>" n])
      (use n q parts in \<open>simp_all add: udp_client_HandleWrite_def ToSend_def Sent_def Pending_def udp_client_ready_def udp_client_waiting_def Let_def\<close>)
qed

lemma udp_client_talk_flushed:
  fixes cl :: "('x, 'k, 'n udp_client_connection, 'h, 'n) client"
  assumes "udp.session_ready key ib st (Suc k) p cl" "udp.sent_by p cl = bs # ps"
  obtains status cl' where "udp_client_HandleWrite p cl = Some (status, cl')" "udp.session_ready key ib (st @ [bs]) k p cl'" "udp.sent_by p cl' = ps"
    "\<exists>c n. cl' = set_session p ((session_at p cl)\<lparr>se_connection := c\<rparr>) (cl\<lparr>hb_world := n\<rparr>) \<and> uk_buffer c = uk_buffer (se_connection (session_at p cl))"
proof -
  have ready: "p < length (hb_sessions cl)" "udp_client_ready key ib st (Suc k) (se_connection (session_at p cl)) (hb_world cl)"
    "udp_client_waiting (se_connection (session_at p cl)) (hb_world cl) = bs # ps"
    using assms by (simp_all add: udp.session_ready_def udp.sent_by_def)
  from udp_client_flushes [OF ready] obtain c n status where flush: "udp_client_HandleWrite p cl =
      Some (status, set_session p ((session_at p cl)\<lparr>se_connection := c\<rparr>) (cl\<lparr>hb_world := n\<rparr>))"
    "udp_client_ready key ib (st @ [bs]) k c n" "udp_client_waiting c n = ps" "uk_buffer c = uk_buffer (se_connection (session_at p cl))" by blast
  then show thesis using ready(1) by (intro that [OF flush(1)]) (auto simp: udp.session_ready_def udp.sent_by_def)
qed

text \<open>A session of the client that waits for a message with the handler \<open>callback\<close>.\<close>

definition udp_client_between :: "('x, 'k) crypto \<Rightarrow> connection_key \<Rightarrow> bytes list \<Rightarrow> bytes list \<Rightarrow> nat \<Rightarrow> nat \<Rightarrow> nat \<Rightarrow>
    'h client_handler \<Rightarrow> ('x, 'k, 'n udp_client_connection, 'h, 'n) client \<Rightarrow> bool" where
  "udp_client_between cr key ib st k n p callback cl \<longleftrightarrow>
     udp.talking cr key ib st k n p cl \<and> udp.sent_by p cl = [] \<and> GetSession key cl = (Ready, Some p) \<and>
     se_read_callback (session_at p cl) = Some callback"

lemma udp_client_written:
  fixes cl :: "('x, 'k, 'n udp_client_connection, 'h, 'n) client"
  assumes "udp.talking cr key ib st (Suc k) n p cl" "udp.sent_by p cl = [bs]" "GetSession key cl = (Ready, Some p)"
    "se_read_callback (session_at p cl) = Some callback"
  obtains status cl' where "udp_client_HandleWrite p cl = Some (status, cl')" "udp_client_between cr key ib (st @ [bs]) k n p callback cl'"
    "cl_auths cl' = cl_auths cl" "cl_chatter cl' = cl_chatter cl"
proof -
  note parts = assms(1) [unfolded udp.talking_def]
  have "udp.session_ready key ib st (Suc k) p cl" "p < length (hb_sessions cl)" using parts by (simp_all add: udp.session_ready_def)
  with udp_client_talk_flushed [OF _ assms(2)] obtain status cl' c nt where flush: "udp_client_HandleWrite p cl = Some (status, cl')"
    "udp.session_ready key ib (st @ [bs]) k p cl'" "udp.sent_by p cl' = []"
    "cl' = set_session p ((session_at p cl)\<lparr>se_connection := c\<rparr>) (cl\<lparr>hb_world := nt\<rparr>)" "uk_buffer c = uk_buffer (se_connection (session_at p cl))"
    "p < length (hb_sessions cl)" by metis
  show thesis
    by (rule that [OF flush(1)])
      (use flush(2-) assms(3,4) parts in \<open>simp_all add: udp_client_between_def udp.talking_def Message_def udp_class_Message\<close>)
qed

text \<open>The first packet of a client.\<close>

lemma udp_client_greets:
  fixes cl :: "('x, 'k, 'n udp_client_connection, 'h, 'n) client"
  assumes cr: "crypto_documented cr aes bf"
    and connect: "parse destination = Some address" "Connect address (hb_world cl) = Some (Some c, nt)"
      "udp_client_ready key ib st (Suc (Suc k)) c nt" "udp_client_waiting c nt = []" "reader_contents (uk_buffer c) = []"
    and client: "hb_map cl \<noteq> []" "entropic (Suc n) (hb_prng cl)" "cl_chatter cl kUserName = Some name" "length (sb_content name) \<le> 65535"
  obtains cl1 status cl' prefix where
    "AddConnection cr (udp_client_class cr) parse Connect udp_client_GetKey destination cl = Some cl1"
    "udp_client_HandleWrite (length (hb_sessions cl)) cl1 = Some (status, cl')" "length prefix = prefix_length (cr_ssl cr) ScrambleSession"
    "udp_client_between cr key ib (st @ [packet_of cr aes bf ScrambleSession prefix (string_wire (sb_content name))]) k n
       (length (hb_sessions cl)) (Hello_callback (length (cl_auths cl))) cl'"
    "length (cl_auths cl) < length (cl_auths cl')" "sc_username (cl_auths cl' ! length (cl_auths cl)) = sb_content name"
    "cl_chatter cl' = cl_chatter cl"
proof -
  let ?p = "length (hb_sessions cl)"
  define cl0 where "cl0 = cl\<lparr>hb_world := nt, hb_sessions := hb_sessions cl @ [Session_new None c]\<rparr>"
  have cl0: "session_at ?p cl0 = Session_new None c" "hb_world cl0 = nt" "?p < length (hb_sessions cl0)" "hb_prng cl0 = hb_prng cl"
    "cl_auths cl0 = cl_auths cl" "cl_chatter cl0 = cl_chatter cl" "hb_map cl0 = hb_map cl"
    by (simp_all add: cl0_def session_at_def)
  have talk: "udp.talking cr key ib st (Suc (Suc k)) (Suc n) ?p cl0" "udp.sent_by ?p cl0 = []"
    using cl0 connect(3-5) client(2)
    by (simp_all add: udp.talking_def udp.session_ready_def udp.sent_by_def scrambling_def Session_new_def Message_def udp_class_Message)
  obtain cl1 prefix where start: "client_StartAuthentication cr (udp_client_class cr) ?p cl0 = Some (True, cl1)"
    "udp.talking cr key ib st (Suc k) n ?p cl1"
    "udp.sent_by ?p cl1 = udp.sent_by ?p cl0 @ [packet_of cr aes bf ScrambleSession prefix (string_wire (sb_content name))]"
    "length prefix = prefix_length (cr_ssl cr) ScrambleSession"
    "se_read_callback (session_at ?p cl1) = Some (Hello_callback (length (cl_auths cl0)))" "hb_map cl1 = hb_map cl0"
    "cl_chatter cl1 = cl_chatter cl0" "length (hb_sessions cl1) = length (hb_sessions cl0)"
    "length (cl_auths cl0) < length (cl_auths cl1)" "sc_username (cl_auths cl1 ! length (cl_auths cl0)) = sb_content name"
    by (rule udp.client_says_hello [OF cr talk(1) client(3) [folded cl0(6)] client(4)])
  let ?cl2 = "cl1\<lparr>hb_map := um_set cn_equal cn_hash key ?p (hb_map cl1)\<rparr>"
  have key: "uk_key (se_connection (session_at ?p cl1)) = key"
    using start(2) by (simp add: udp.talking_def udp.session_ready_def udp_client_ready_def)
  have add: "AddConnection cr (udp_client_class cr) parse Connect udp_client_GetKey destination cl = Some ?cl2"
    using connect(1,2) start(1) key by (simp add: AddConnection_def ClientSession_new_def udp_client_GetKey_def cl0_def Let_def)
  have two: "udp.talking cr key ib st (Suc k) n ?p ?cl2" "se_read_callback (session_at ?p ?cl2) = Some (Hello_callback (length (cl_auths cl)))"
    "udp.sent_by ?p ?cl2 = [packet_of cr aes bf ScrambleSession prefix (string_wire (sb_content name))]"
    using start(2,3,5) talk(2) cl0(5) by (simp_all add: udp.talking_def udp.session_ready_def udp.sent_by_def session_at_def Message_def)
  have found: "GetSession key ?cl2 = (Ready, Some ?p)"
    using connection.find_set [of "hb_map cl1" key _ key] connection.eq_refl [of key] client(1) start(6) cl0(7) by (simp add: GetSession_def)
  obtain status cl' where written: "udp_client_HandleWrite ?p ?cl2 = Some (status, cl')"
    "udp_client_between cr key ib (st @ [packet_of cr aes bf ScrambleSession prefix (string_wire (sb_content name))]) k n ?p
      (Hello_callback (length (cl_auths cl))) cl'" "cl_auths cl' = cl_auths ?cl2" "cl_chatter cl' = cl_chatter ?cl2"
    by (rule udp_client_written [OF two(1,3) found two(2)])
  show thesis by (rule that [OF add written(1) start(4) written(2)]) (simp_all add: written(3,4) start(7,9,10) cl0(5,6) start(9,10) [unfolded cl0(5)])
qed

text \<open>The next packet of a session that scrambles is given to its handler.\<close>

lemma udp_client_receives:
  fixes cl :: "('x, 'k, 'n udp_client_connection, 'h, 'n) client"
  assumes cr: "crypto_documented cr aes bf"
    and state: "udp_client_between cr key (packet_of cr aes bf ScrambleSession prefix m # rest) st (Suc k) n p callback cl"
    and m: "length prefix = prefix_length (cr_ssl cr) ScrambleSession" "short m"
  obtains cl' data where "udp_client_HandleRead cr ch p cl =
      do { (_, cl) \<leftarrow> call_client cr (udp_client_class cr) ch callback p data cl'; Some (MORE, cl) }"
    "kept [] [] data" "reader_contents data = m" "udp.talking cr key rest st k n p cl'" "udp.sent_by p cl' = []"
    "cl_auths cl' = cl_auths cl" "cl_chatter cl' = cl_chatter cl" "GetSession key cl' = (Ready, Some p)" "hb_prng cl' = hb_prng cl"
proof -
  let ?c = "se_connection (session_at p cl)" and ?call = "call_client cr (udp_client_class cr) ch"
  note between = state [unfolded udp_client_between_def]
  note parts = between [unfolded udp.talking_def udp.session_ready_def udp_client_ready_def]
  note len = short_packet [OF cr m(2,1)]
  have net: "uk_socket ?c = sock" "usable (Suc k) (hb_world cl)" "inbox (hb_world cl) = packet_of cr aes bf ScrambleSession prefix m # rest"
    using parts by simp_all
  obtain nt r where read: "udp_client_HandleRead cr ch p cl = do { cl \<leftarrow> udp_client_HandlePacket cr ?call ?c r (cl\<lparr>hb_world := nt\<rparr>); Some (MORE, cl) }"
    "kept [] [] r" "reader_contents r = packet_of cr aes bf ScrambleSession prefix m"
    "usable k nt" "inbox nt = rest" "sent nt = sent (hb_world cl)"
    by (rule udp_client_packet_read [OF net len(1,2)])
  define cl1 where "cl1 = cl\<lparr>hb_world := nt\<rparr>"
  have cl1: "p < length (hb_sessions cl1)" "scrambling (se_decoder (session_at p cl1))" "GetSession (uk_key ?c) cl1 = (Ready, Some p)"
    using parts by (simp_all add: cl1_def)
  obtain e data where handled: "udp_client_HandlePacket cr ?call ?c r cl1 =
      (let cl' = set_session p ((session_at p cl1)\<lparr>se_decoder := Some e\<rparr>) cl1 in do { (_, cl) \<leftarrow> HandlePacket ?call p data cl'; Some cl })"
    "pt_kind e = ScrambleSession" "kept [] [] data" "reader_contents data = m"
    by (rule udp_client_packet_handled [OF cr read(2,3) m(1) len(3,4) cl1])
  let ?cl2 = "set_session p ((session_at p cl1)\<lparr>se_decoder := Some e\<rparr>) cl1"
  have "se_read_callback (session_at p ?cl2) = Some callback" using cl1(1) parts by (simp add: cl1_def)
  then have "udp_client_HandleRead cr ch p cl = do { (_, cl) \<leftarrow> ?call callback p data ?cl2; Some (MORE, cl) }"
    unfolding read(1) handled(1) [unfolded cl1_def] cl1_def
    by (cases "?call callback p data ?cl2") (simp_all add: Let_def cl1_def case_prod_unfold HandlePacket_def)
  then show thesis
    by (rule that [OF _ handled(3,4)])
      (use cl1(1) handled(2) parts read(4-6) in
        \<open>auto simp: udp.talking_def udp.session_ready_def udp.sent_by_def udp_client_ready_def udp_client_waiting_def cl1_def scrambling_def Message_def\<close>)
qed

text \<open>The packet with the parameters of the user.\<close>

lemma udp_client_answers:
  fixes cl :: "('x, 'k, 'n udp_client_connection, 'h, 'n) client"
  assumes cr: "crypto_documented cr aes bf"
    and state: "udp_client_between cr key (packet_of cr aes bf ScrambleSession prefix (hello_wire secret) # rest) st
      (Suc (Suc (Suc k))) (Suc (Suc n)) p (Hello_callback j) cl" "length prefix = prefix_length (cr_ssl cr) ScrambleSession"
    and secret: "short (hello_wire secret)" "8 \<le> length (sr_salt secret)" and au: "j < length (cl_auths cl)"
    and prime: "GetPrime (cr_bn cr) (sr_index secret) = Some N" "GetGenerator (sr_index secret) = Some g" "0 < N" "N < prime_limit"
    and a: "draws (cr_bn cr) (cr_rc4 cr) g N (hb_prng cl) a"
  obtains cl' prefix' where "udp_answer cr ch p cl = Some cl'" "length prefix' = prefix_length (cr_ssl cr) ScrambleSession"
    "udp_client_between cr key rest (st @ [packet_of cr aes bf ScrambleSession prefix' (bn_wire (cr_bn cr) (g ^ a mod N))])
      k n p (Public_key_callback j) cl'"
    "j < length (cl_auths cl')" "cl_chatter cl' = cl_chatter cl"
    "cl_auths cl' ! j = (cl_auths cl ! j)\<lparr>sc_salt := sr_salt secret, sc_index := sr_index secret, sc_a := a, sc_A := g ^ a mod N\<rparr>"
proof -
  obtain cl1 data where receive: "udp_client_HandleRead cr ch p cl =
      do { (_, cl) \<leftarrow> call_client cr (udp_client_class cr) ch (Hello_callback j) p data cl1; Some (MORE, cl) }"
    "kept [] [] data" "reader_contents data = hello_wire secret" "udp.talking cr key rest st (Suc (Suc k)) (Suc (Suc n)) p cl1" "udp.sent_by p cl1 = []"
    "cl_auths cl1 = cl_auths cl" "cl_chatter cl1 = cl_chatter cl" "GetSession key cl1 = (Ready, Some p)" "hb_prng cl1 = hb_prng cl"
    by (rule udp_client_receives [OF cr state secret(1)])
  have m: "reader_contents data = hello_wire secret @ []" using receive(3) by simp
  have salt: "length (sr_salt secret) \<le> 65535" using secret(1) by (simp add: short_def hello_wire_def kMaxPacketSize_def)
  obtain cursor' cl2 prefix' where step: "HelloCallback cr (udp_client_class cr) j p data cl1 = Some (cursor', cl2)"
    "udp.talking cr key rest st (Suc k) n p cl2"
    "udp.sent_by p cl2 = udp.sent_by p cl1 @ [packet_of cr aes bf ScrambleSession prefix' (bn_wire (cr_bn cr) (g ^ a mod N))]"
    "length prefix' = prefix_length (cr_ssl cr) ScrambleSession"
    "se_read_callback (session_at p cl2) = Some (Public_key_callback j)" "hb_map cl2 = hb_map cl1"
    "cl_chatter cl2 = cl_chatter cl1" "length (cl_auths cl2) = length (cl_auths cl1)"
    "cl_auths cl2 ! j = (cl_auths cl1 ! j)\<lparr>sc_salt := sr_salt secret, sc_index := sr_index secret, sc_a := a, sc_A := g ^ a mod N\<rparr>"
    by (rule udp.client_answers_hello [OF cr receive(4,2) m secret(2) salt au [folded receive(6)] prime a [folded receive(9)]]) (rule that)
  have "udp.sent_by p cl2 = [packet_of cr aes bf ScrambleSession prefix' (bn_wire (cr_bn cr) (g ^ a mod N))]" "GetSession key cl2 = (Ready, Some p)"
    using step(3,6) receive(5,8) by (simp_all add: GetSession_def)
  from udp_client_written [OF step(2) this step(5)] obtain status cl3 where flush: "udp_client_HandleWrite p cl2 = Some (status, cl3)"
    "udp_client_between cr key rest (st @ [packet_of cr aes bf ScrambleSession prefix' (bn_wire (cr_bn cr) (g ^ a mod N))]) k n p (Public_key_callback j) cl3"
    "cl_auths cl3 = cl_auths cl2" "cl_chatter cl3 = cl_chatter cl2" by blast
  have "udp_answer cr ch p cl = Some cl3" using receive(1) step(1) flush(1) by (simp add: udp_answer_def)
  then show thesis
    by (rule that [OF _ step(4) flush(2)]) (use flush(3,4) step(7-9) receive(6,7) au in simp_all)
qed

text \<open>The packet with the server's public key and the salt.\<close>

lemma udp_client_agrees:
  fixes cl :: "('x, 'k, 'n udp_client_connection, 'h, 'n) client"
  assumes cr: "crypto_documented cr aes bf" and ch: "takes_sessions ch"
    and state: "udp_client_between cr key (packet_of cr aes bf ScrambleSession prefix (bn_wire (cr_bn cr) B @ salt) # rest) st
      (Suc k) n p (Public_key_callback j) cl" "length prefix = prefix_length (cr_ssl cr) ScrambleSession" "length salt = kKeyLengthInBytes"
    and au: "j < length (cl_auths cl)" "c0 = cl_auths cl ! j" "sc_index c0 = index"
    and prime: "GetPrime (cr_bn cr) index = Some N" "GetGenerator index = Some g" "0 < N" "N < prime_limit"
    and pwd: "cl_chatter cl kPassword = Some pwd" "x = srp_x (cr_bn cr) (sc_username c0) (sc_salt c0) pwd"
    and B: "B = (g ^ b mod N + CalculateK (cr_bn cr) N g * (g ^ x mod N) mod N) mod N" "\<not> N dvd B"
    and fits: "sc_a c0 + CalculateU (cr_bn cr) N (sc_A c0) B * x < N"
  obtains cl' secretbuf e where "udp_client_HandleRead cr ch p cl = Some (MORE, cl')" "udp.session_ready key rest st k p cl'"
    "GetSession key cl' = (Ready, Some p)"
    "sb_content secretbuf = BN_bn2bin (cr_bn cr) (g ^ (b * (sc_a c0 + CalculateU (cr_bn cr) N (sc_A c0) B * x)) mod N)"
    "e = new_protector cr (AesSession (ComputeKey (cr_hmac cr) salt kKeyLengthInBytes secretbuf))"
    "se_encoder (session_at p cl') = Some e" "se_decoder (session_at p cl') = Some e"
proof -
  have "B < prime_limit" using B(1) prime(3,4) by (meson less_trans mod_less_divisor)
  then have fits_packet: "short (bn_wire (cr_bn cr) B @ salt)" using state(3) by (rule bn_wire_fits [OF crypto_documentedD(3) [OF cr]])
  obtain cl1 data where receive: "udp_client_HandleRead cr ch p cl =
      do { (_, cl) \<leftarrow> call_client cr (udp_client_class cr) ch (Public_key_callback j) p data cl1; Some (MORE, cl) }"
    "kept [] [] data" "reader_contents data = bn_wire (cr_bn cr) B @ salt" "udp.talking cr key rest st k n p cl1"
    "cl_auths cl1 = cl_auths cl" "cl_chatter cl1 = cl_chatter cl" "GetSession key cl1 = (Ready, Some p)"
    by (rule udp_client_receives [OF cr state(1,2) fits_packet])
  have m: "reader_contents data = bn_wire (cr_bn cr) B @ salt @ []" using receive(3) by simp
  obtain cursor' cl2 secretbuf e where step: "\<And>HandleSession. PublicKeyCallback cr (udp_client_class cr) HandleSession j p data cl1 =
      map_option (Pair cursor') (HandleSession p cl2)"
    "udp.session_ready key rest st k p cl2" "hb_map cl2 = hb_map cl1"
    "sb_content secretbuf = BN_bn2bin (cr_bn cr) (g ^ (b * (sc_a c0 + CalculateU (cr_bn cr) N (sc_A c0) B * x)) mod N)"
    "e = new_protector cr (AesSession (ComputeKey (cr_hmac cr) salt kKeyLengthInBytes secretbuf))"
    "se_encoder (session_at p cl2) = Some e" "se_decoder (session_at p cl2) = Some e"
    by (rule udp.client_gets_key [OF cr receive(4,2) m state(3) au(1,2) [folded receive(5)] au(3) prime pwd(1) [folded receive(6)] pwd(2) B fits]) (rule that)
  obtain h c where connect: "ch_HandleConnect ch p cl2 = Some (SetCallbacks p h c cl2)" using ch unfolding takes_sessions_def by blast
  have run: "udp_client_HandleRead cr ch p cl = Some (MORE, SetCallbacks p h c cl2)"
    using receive(1) step(1) [of "ch_HandleConnect ch"] connect by simp
  have "p < length (hb_sessions cl2)" using step(2) by (simp add: udp.session_ready_def)
  then show thesis
    by (intro that [OF run _ _ step(4,5)]) (use step(2,3,6,7) receive(7) in \<open>simp_all add: udp.session_ready_def SetCallbacks_def GetSession_def\<close>)
qed

end

end
