(* ===== verification/UdpSockets.thy ===== *)
theory UdpSockets
  imports UdpSteps SocketTransport
begin

text \<open>
  The sockets of \<open>SocketTransport\<close> are what the datagram transcoders rely on, as long as the kernel accepts the
  changes to its interest list and takes and gives whole packets.
\<close>

section \<open>A socket as a channel\<close>

definition datagram_socket_at :: "nat \<Rightarrow> 'c \<Rightarrow> 'c \<Rightarrow> 'c net datagram_socket" where
  "datagram_socket_at p readh writeh =
     \<lparr>dc_Write = (\<lambda>r a n. Socket_Write p (Some a) r n), dc_WantWrite = WantWrite p (Some writeh),
      ds_Read = Socket_Read, ds_WantRead = WantRead p (Some readh)\<rparr>"

text \<open>A bound channel has no use for the address.\<close>

definition bound_channel_at :: "nat \<Rightarrow> 'c \<Rightarrow> 'c \<Rightarrow> 'c net bound_channel" where
  "bound_channel_at p readh writeh =
     \<lparr>bc_Read = (\<lambda>s n. do { (status, _, s, n) \<leftarrow> Socket_Read s n; Some (status, s, n) }),
      bc_Write = (\<lambda>r n. Socket_Write p None r n), bc_WantRead = WantRead p (Some readh), bc_WantWrite = WantWrite p (Some writeh)\<rparr>"

section \<open>A kernel that does not fail\<close>

text \<open>
  The socket can be used \<open>k\<close> more times: that many more changes and packets are accepted, the counter of pending
  writes has room, and every packet that waits has an address of a family the code knows. \<open>sendmsg\<close> takes the
  whole of any packet: it has room for more than a packet can have.
\<close>

definition takes_all :: "errno + nat \<Rightarrow> bool" where
  "takes_all a = (case a of Inl _ \<Rightarrow> False | Inr w \<Rightarrow> 2 ^ 32 \<le> w)"

definition has_sender :: "errno + bytes \<times> bytes \<times> nat \<Rightarrow> bool" where
  "has_sender a = (case a of Inl _ \<Rightarrow> False | Inr (_, raw, socksize) \<Rightarrow> Sockaddr_Parse_raw raw socksize \<noteq> None)"

definition net_usable :: "nat \<Rightarrow> nat \<Rightarrow> 'c net \<Rightarrow> bool" where
  "net_usable p k n \<longleftrightarrow> socket_good p n \<and> 0 \<le> dp_poll_fd (nt_dispatcher n) \<and> k \<le> length (dp_ctl (nt_dispatcher n)) \<and>
     sk_pending_writes (nt_sockets n ! p) + int k < 2 ^ 31 - 1 \<and>
     k \<le> length (kn_sendmsg (nt_kernel n)) \<and> list_all takes_all (kn_sendmsg (nt_kernel n)) \<and>
     list_all has_sender (kn_recvfrom (nt_kernel n))"

fun received :: "errno + bytes \<times> bytes \<times> nat \<Rightarrow> sockaddr \<times> bytes" where
  "received (Inr (data, raw, socksize)) = (the (Sockaddr_Parse_raw raw socksize), data)"
| "received (Inl e) = undefined"

definition net_inbox :: "'c net \<Rightarrow> (sockaddr \<times> bytes) list" where
  "net_inbox n = map received (kn_recvfrom (nt_kernel n))"

fun sent_packets :: "syscall list \<Rightarrow> (sockaddr option \<times> bytes) list" where
  "sent_packets [] = []"
| "sent_packets (c # cs) = (case c of Sys_sendmsg fd a bs \<Rightarrow> (a, bs) # sent_packets cs | _ \<Rightarrow> sent_packets cs)"

lemma sent_packets_append [simp]: "sent_packets (cs @ ds) = sent_packets cs @ sent_packets ds"
  by (induction cs) (auto split: syscall.split)

definition net_sent :: "'c net \<Rightarrow> (sockaddr option \<times> bytes) list" where
  "net_sent n = sent_packets (kn_log (nt_kernel n))"

section \<open>Each use succeeds\<close>

lemma epoll_ctl_uses: "epoll_ctl fd e d = (ok, d') \<Longrightarrow> length (dp_ctl d) \<le> Suc (length (dp_ctl d'))"
  by (auto simp: epoll_ctl_def split: list.splits bool.splits)

lemma SetFd_answers:
  assumes "0 \<le> dp_poll_fd d"
  obtains ok d' where "SetFd fd on clear r w d = Some (ok, d')" "dp_poll_fd d' = dp_poll_fd d"
    "length (dp_ctl d) \<le> Suc (length (dp_ctl d'))"
proof (cases "dp_fd_events d fd")
  case None
  let ?e = "added_event fd on r w"
  obtain ok d1 where ctl: "epoll_ctl fd (Some (ev_events ?e, length (dp_heap d))) (d\<lparr>dp_heap := dp_heap d @ [?e]\<rparr>) = (ok, d1)" by fastforce
  have "SetFd fd on clear r w d = Some (if ok then (True, d1\<lparr>dp_fd_events := (dp_fd_events d1)(fd := Some (length (dp_heap d)))\<rparr>) else (False, d1))"
    using assms None ctl
    by (cases "on AND EV_READ = 0"; cases "on AND EV_WRITE = 0") (simp_all add: SetFd_def AddFd_def added_event_def Let_def)
  with epoll_ctl_result(4) [OF ctl] epoll_ctl_uses [OF ctl] show thesis by (cases ok) (auto intro: that)
next
  case (Some q)
  let ?data = "changed_event on clear r w (dp_heap d ! q)" and ?d = "d\<lparr>dp_heap := (dp_heap d)[q := changed_event on clear r w (dp_heap d ! q)]\<rparr>"
  obtain ok d1 where ctl: "epoll_ctl fd (Some (ev_events ?data, q)) ?d = (ok, d1)" by fastforce
  have "SetFd fd on clear r w d = Some (if ev_events (dp_heap d ! q) = ev_events ?data then (True, ?d) else
      if \<not> ok then (False, d1\<lparr>dp_heap := (dp_heap d1)[q := ?data\<lparr>ev_events := ev_events (dp_heap d ! q)\<rparr>]\<rparr>) else (True, d1))"
    using assms Some ctl by (simp add: SetFd_def ModFd_def Let_def)
  with epoll_ctl_result(4) [OF ctl] epoll_ctl_uses [OF ctl] show thesis
    by (cases ok; cases "ev_events (dp_heap d ! q) = ev_events ?data") (auto intro: that)
qed

lemma WantWrite_succeeds:
  assumes "net_usable p (Suc k) n"
  obtains n' where "WantWrite p callback n = Some n'" "net_usable p k n'" "nt_kernel n' = nt_kernel n"
proof -
  note use = assms [unfolded net_usable_def]
  obtain fd r w pw pr where sk: "nt_sockets n ! p = Socket fd r w pw pr" by (cases "nt_sockets n ! p")
  obtain ok d where d: "SetFd fd EV_WRITE EV_NONE None (Some (Write_handler p)) (nt_dispatcher n) = Some (ok, d)"
    "dp_poll_fd d = dp_poll_fd (nt_dispatcher n)" "length (dp_ctl (nt_dispatcher n)) \<le> Suc (length (dp_ctl d))"
    using SetFd_answers use by metis
  let ?w = "case callback of None \<Rightarrow> w | Some c \<Rightarrow> Some c" and ?n = "if pw = 0 then n\<lparr>nt_dispatcher := d\<rparr> else n"
  have run: "WantWrite p callback n = Some (set_socket p (Socket fd r ?w (pw + 1) pr) ?n)"
    using use d(1) by (simp add: WantWrite_def sk dispatch_def increment_def)
  have "accepting n" using use by (auto simp: accepting_def)
  from WantWrite_good [OF _ this run] have good: "socket_good p (set_socket p (Socket fd r ?w (pw + 1) pr) ?n)" using use by simp
  then have "p < length (nt_sockets n)" using use by (simp add: socket_good_def)
  with use good d(2,3) sk show thesis by (intro that [OF run]) (auto simp: net_usable_def set_socket_def)
qed

lemma Read_succeeds:
  assumes "net_usable p (Suc k) n" "kn_recvfrom (nt_kernel n) = Inr (bs, raw, socksize) # rest" "room_to_read s bs"
    "Sockaddr_Parse_raw raw socksize = Some a"
  obtains s' n' where "Socket_Read s n = Some (OK, Some a, s', n')" "ic_commit s bs = Some s'" "net_usable p k n'"
    "kn_recvfrom (nt_kernel n') = rest" "kn_log (nt_kernel n') = kn_log (nt_kernel n)"
proof -
  note use = assms(1) [unfolded net_usable_def]
  have room: "bs \<noteq> []" "length bs \<le> ic_contiguous s" "0 < ic_contiguous s"
    using assms(3) by (auto simp: room_to_read_def intro: less_le_trans [of 0 "length bs"])
  then obtain s' where s': "ic_commit s bs = Some s'" by (simp add: ic_commit_def)
  let ?n = "n\<lparr>nt_kernel := (nt_kernel n)\<lparr>kn_recvfrom := rest\<rparr>\<rparr>"
  have "Socket_Read s n = Some (OK, Some a, s', ?n)" using assms(2,4) room s' by (simp add: Socket_Read_def)
  moreover have "net_usable p k ?n" using use assms(2) by (auto simp: net_usable_def socket_good_def)
  ultimately show thesis using s' by (intro that [of s' ?n]) simp_all
qed

lemma Write_succeeds:
  assumes "net_usable p (Suc k) n" "sendable r"
  obtains r' n' where "Socket_Write p remote r n = Some (OK, r', n')" "net_usable p k n'" "net_sent n' = net_sent n @ [(remote, reader_contents r)]"
    "kn_recvfrom (nt_kernel n') = kn_recvfrom (nt_kernel n)"
proof -
  note use = assms(1) [unfolded net_usable_def]
  obtain s cur where r: "r = (s, cur)" by fastforce
  have ok: "readable s cur []" "oc_limited cur = None" "length (cs_chunks s) \<le> kIovecSize"
    using assms(2) by (simp_all add: r sendable_def reader_ok_def)
  have short: "length (unread s cur) < 2 ^ 32" using ok(1) by (simp add: readable_def)
  obtain w as where w: "kn_sendmsg (nt_kernel n) = Inr w # as" "2 ^ 32 \<le> w"
    using use by (cases "kn_sendmsg (nt_kernel n)") (auto simp: takes_all_def split: sum.splits)
  obtain vect where vect: "oc_iovec s cur = Some (vect, length (concat vect))" "concat vect = unread s cur"
    using iovec_prefix [OF ok(1,2)] ok(3) by (metis append_Nil2)
  obtain s' cur' where adv: "oc_increment s cur (length (concat vect)) = Some (s', cur')"
    using increment_advances [OF ok(1), of "length (concat vect)"] vect(2) ok(2) by (auto simp: within_limit_def)
  let ?n = "sys (Sys_sendmsg (sk_fd (nt_sockets n ! p)) remote (unread s cur)) (n\<lparr>nt_kernel := (nt_kernel n)\<lparr>kn_sendmsg := as\<rparr>\<rparr>)"
  have run: "Socket_Write p remote r n = Some (OK, (s', cur'), ?n)"
    using w short vect adv by (simp add: Socket_Write_def r)
  show thesis
    by (rule that [OF run]) (use use w(1) in \<open>auto simp: net_usable_def net_sent_def sys_def socket_good_def r reader_contents_def\<close>)
qed

definition sent_to :: "'c net \<Rightarrow> (sockaddr \<times> bytes) list" where
  "sent_to n = map (apfst the) (net_sent n)"

definition net_data_inbox :: "'c net \<Rightarrow> bytes list" where
  "net_data_inbox n = map snd (net_inbox n)"

definition sent_data :: "'c net \<Rightarrow> bytes list" where
  "sent_data n = map snd (net_sent n)"

lemma inbox_head:
  assumes "net_usable p k n" "net_inbox n = (a, bs) # rest"
  obtains raw socksize as where "kn_recvfrom (nt_kernel n) = Inr (bs, raw, socksize) # as" "Sockaddr_Parse_raw raw socksize = Some a"
    "map received as = rest"
proof (cases "kn_recvfrom (nt_kernel n)")
  case (Cons x xs)
  with assms(1) obtain d raw socksize where "x = Inr (d, raw, socksize)" "Sockaddr_Parse_raw raw socksize \<noteq> None"
    by (cases x) (auto simp: net_usable_def has_sender_def)
  with assms(2) Cons that show thesis by (auto simp: net_inbox_def)
qed (use assms(2) in \<open>simp add: net_inbox_def\<close>)

text \<open>What waits is untouched by a change of the interest list, and so is what was sent.\<close>

lemma same_kernel: "nt_kernel n' = nt_kernel n \<Longrightarrow> net_inbox n' = net_inbox n \<and> net_sent n' = net_sent n"
  by (simp add: net_inbox_def net_sent_def)

interpretation socket_net: datagram_net "datagram_socket_at p readh writeh" "net_usable p" net_inbox sent_to for p readh writeh
proof
  fix k and n :: "'a net"
  assume "net_usable p (Suc k) n"
  then obtain n' where "WantWrite p (Some writeh) n = Some n'" "net_usable p k n'" "nt_kernel n' = nt_kernel n" by (rule WantWrite_succeeds)
  then show "\<exists>n'. dc_WantWrite (datagram_socket_at p readh writeh) n = Some n' \<and> net_usable p k n' \<and> net_inbox n' = net_inbox n \<and> sent_to n' = sent_to n"
    using same_kernel [of n' n] by (auto simp: datagram_socket_at_def sent_to_def)
next
  fix k a bs rest s and n :: "'a net"
  assume use: "net_usable p (Suc k) n" and waits: "net_inbox n = (a, bs) # rest" and room: "room_to_read s bs"
  obtain raw socksize as where k: "kn_recvfrom (nt_kernel n) = Inr (bs, raw, socksize) # as" "Sockaddr_Parse_raw raw socksize = Some a"
    "map received as = rest" by (rule inbox_head [OF use waits])
  obtain s' n' where "Socket_Read s n = Some (OK, Some a, s', n')" "ic_commit s bs = Some s'" "net_usable p k n'"
    "kn_recvfrom (nt_kernel n') = as" "kn_log (nt_kernel n') = kn_log (nt_kernel n)" by (rule Read_succeeds [OF use k(1) room k(2)])
  then show "\<exists>s' n'. ds_Read (datagram_socket_at p readh writeh) s n = Some (OK, Some a, s', n') \<and> ic_commit s bs = Some s' \<and>
      net_usable p k n' \<and> net_inbox n' = rest \<and> sent_to n' = sent_to n"
    using k(3) by (auto simp: datagram_socket_at_def net_inbox_def sent_to_def net_sent_def)
next
  fix k r a and n :: "'a net"
  assume "net_usable p (Suc k) n" "sendable r"
  from Write_succeeds [OF this] obtain r' n' where "Socket_Write p (Some a) r n = Some (OK, r', n')" "net_usable p k n'"
    "net_sent n' = net_sent n @ [(Some a, reader_contents r)]" "kn_recvfrom (nt_kernel n') = kn_recvfrom (nt_kernel n)" by blast
  then show "\<exists>r' n'. dc_Write (datagram_socket_at p readh writeh) r a n = Some (OK, r', n') \<and> net_usable p k n' \<and> net_inbox n' = net_inbox n \<and>
      sent_to n' = sent_to n @ [(a, reader_contents r)]"
    by (auto simp: datagram_socket_at_def net_inbox_def sent_to_def)
qed

interpretation bound_socket: bound_net "bound_channel_at p readh writeh" "net_usable p" net_data_inbox sent_data for p readh writeh
proof
  fix k and n :: "'a net"
  assume "net_usable p (Suc k) n"
  then obtain n' where "WantWrite p (Some writeh) n = Some n'" "net_usable p k n'" "nt_kernel n' = nt_kernel n" by (rule WantWrite_succeeds)
  then show "\<exists>n'. bc_WantWrite (bound_channel_at p readh writeh) n = Some n' \<and> net_usable p k n' \<and> net_data_inbox n' = net_data_inbox n \<and> sent_data n' = sent_data n"
    using same_kernel [of n' n] by (auto simp: bound_channel_at_def sent_data_def net_data_inbox_def)
next
  fix k bs rest s and n :: "'a net"
  assume use: "net_usable p (Suc k) n" and waits: "net_data_inbox n = bs # rest" and room: "room_to_read s bs"
  from waits obtain a rest' where "net_inbox n = (a, bs) # rest'" "map snd rest' = rest" by (auto simp: net_data_inbox_def)
  with inbox_head [OF use] obtain raw socksize as where k: "kn_recvfrom (nt_kernel n) = Inr (bs, raw, socksize) # as"
    "Sockaddr_Parse_raw raw socksize = Some a" "map snd (map received as) = rest" by metis
  obtain s' n' where "Socket_Read s n = Some (OK, Some a, s', n')" "ic_commit s bs = Some s'" "net_usable p k n'"
    "kn_recvfrom (nt_kernel n') = as" "kn_log (nt_kernel n') = kn_log (nt_kernel n)" by (rule Read_succeeds [OF use k(1) room k(2)])
  then show "\<exists>s' n'. bc_Read (bound_channel_at p readh writeh) s n = Some (OK, s', n') \<and> ic_commit s bs = Some s' \<and>
      net_usable p k n' \<and> net_data_inbox n' = rest \<and> sent_data n' = sent_data n"
    using k(3) by (auto simp: bound_channel_at_def net_inbox_def sent_data_def net_sent_def net_data_inbox_def)
next
  fix k r and n :: "'a net"
  assume "net_usable p (Suc k) n" "sendable r"
  from Write_succeeds [OF this] obtain r' n' where "Socket_Write p None r n = Some (OK, r', n')" "net_usable p k n'"
    "net_sent n' = net_sent n @ [(None, reader_contents r)]" "kn_recvfrom (nt_kernel n') = kn_recvfrom (nt_kernel n)" by blast
  then show "\<exists>r' n'. bc_Write (bound_channel_at p readh writeh) r n = Some (OK, r', n') \<and> net_usable p k n' \<and> net_data_inbox n' = net_data_inbox n \<and>
      sent_data n' = sent_data n @ [reader_contents r]"
    by (auto simp: bound_channel_at_def net_inbox_def sent_data_def net_data_inbox_def)
qed

end
