(* ===== verification/UdpLogin.thy ===== *)
theory UdpLogin
  imports UdpSockets
begin

text \<open>
  A login over UDP, from \<open>Start\<close> and \<open>AddConnection\<close> on: the two programs, each with its sockets, dispatcher
  and kernel, and the network that hands each packet one of them has sent to the other.
\<close>

section \<open>The transports\<close>

definition listen_on :: "'c \<Rightarrow> 'c \<Rightarrow> sockaddr \<Rightarrow> 'c net \<Rightarrow> ('c net datagram_socket option \<times> 'c net) option" where
  "listen_on readh writeh address n = do {
     (p, n) \<leftarrow> DatagramListenOn address n;
     Some (map_option (\<lambda>p. datagram_socket_at p readh writeh) p, n)
   }"

definition connect_to :: "'c \<Rightarrow> 'c \<Rightarrow> sockaddr \<Rightarrow> 'c net \<Rightarrow> ('c net bound_channel option \<times> 'c net) option" where
  "connect_to readh writeh address n = do {
     (p, n) \<leftarrow> DatagramConnect address n;
     Some (map_option (\<lambda>p. bound_channel_at p readh writeh) p, n)
   }"

section \<open>The network\<close>

text \<open>A packet arrives from the raw address \<open>from\<close>; the last one sent.\<close>

definition net_arrives :: "bytes \<times> nat \<Rightarrow> bytes \<Rightarrow> 'c net \<Rightarrow> 'c net" where
  "net_arrives from bs n =
     n\<lparr>nt_kernel := (nt_kernel n)\<lparr>kn_recvfrom := kn_recvfrom (nt_kernel n) @ [Inr (bs, fst from, snd from)]\<rparr>\<rparr>"

definition server_gets ::
    "bytes \<times> nat \<Rightarrow> ('x, 'k, 'n udp_client_connection, 'g, 'c net) client \<Rightarrow>
     ('x, 'k, udp_connection, 'h, 'd net udp_server) server \<Rightarrow> ('x, 'k, udp_connection, 'h, 'd net udp_server) server" where
  "server_gets from cl sv =
     sv\<lparr>hb_world := (hb_world sv)\<lparr>us_net := net_arrives from (last (sent_data (hb_world cl))) (us_net (hb_world sv))\<rparr>\<rparr>"

definition client_gets ::
    "bytes \<times> nat \<Rightarrow> ('x, 'k, udp_connection, 'h, 'd net udp_server) server \<Rightarrow>
     ('x, 'k, 'n udp_client_connection, 'g, 'c net) client \<Rightarrow> ('x, 'k, 'n udp_client_connection, 'g, 'c net) client" where
  "client_gets from sv cl = cl\<lparr>hb_world := net_arrives from (snd (last (sent_to (us_net (hb_world sv))))) (hb_world cl)\<rparr>"

section \<open>The two ends\<close>

text \<open>What does not change: where each listens or connects to, the raw address the other sees, the addresses of objects.\<close>

record ('x, 'k, 'h, 'g, 'c, 'd) ends =
  en_crypto :: "('x, 'k) crypto"
  en_parse :: "bytes \<Rightarrow> sockaddr option"
  en_destination :: bytes
  en_listen :: sockaddr
  en_client :: "bytes \<times> nat"
  en_server :: "bytes \<times> nat"
  en_memory :: bytes
  en_client_this :: u64
  en_server_this :: u64
  en_client_handlers :: "'c \<times> 'c"
  en_server_handlers :: "'d \<times> 'd"
  en_client_channel :: "('g, ('x, 'k, 'c net udp_client_connection, 'g, 'c net) client) channel"
  en_server_channel :: "('h, ('x, 'k, udp_connection, 'h, 'd net udp_server) server) channel"

text \<open>Up to the client having the user's parameters, and the rest.\<close>

definition udp_hello ::
    "('x, 'k, 'h, 'g, 'c, 'd) ends \<Rightarrow> ('x, 'k, 'c net udp_client_connection, 'g, 'c net) client \<Rightarrow>
     ('x, 'k, udp_connection, 'h, 'd net udp_server) server \<Rightarrow>
     (('x, 'k, 'c net udp_client_connection, 'g, 'c net) client \<times> ('x, 'k, udp_connection, 'h, 'd net udp_server) server) option" where
  "udp_hello en cl sv = do {
     let cr = en_crypto en;
     let p = length (hb_sessions cl);
     (started, u) \<leftarrow> UdpServer_Start (listen_on (fst (en_server_handlers en)) (snd (en_server_handlers en)) (en_listen en)) (hb_world sv);
     fatal_unless started;
     let sv = sv\<lparr>hb_world := u\<rparr>;
     cl \<leftarrow> AddConnection cr (udp_client_class cr) (en_parse en)
       (udp_Connect (connect_to (fst (en_client_handlers en)) (snd (en_client_handlers en))) (en_memory en) (en_client_this en))
       udp_client_GetKey (en_destination en) cl;
     (_, cl) \<leftarrow> udp_client_HandleWrite p cl;
     sv \<leftarrow> udp_serve cr (en_server_channel en) (en_memory en) (en_server_this en) (server_gets (en_client en) cl sv);
     Some (client_gets (en_server en) sv cl, sv)
   }"

definition udp_keys ::
    "('x, 'k, 'h, 'g, 'c, 'd) ends \<Rightarrow> nat \<Rightarrow> ('x, 'k, 'c net udp_client_connection, 'g, 'c net) client \<Rightarrow>
     ('x, 'k, udp_connection, 'h, 'd net udp_server) server \<Rightarrow>
     (('x, 'k, 'c net udp_client_connection, 'g, 'c net) client \<times> ('x, 'k, udp_connection, 'h, 'd net udp_server) server) option" where
  "udp_keys en p cl sv = do {
     let cr = en_crypto en;
     cl \<leftarrow> udp_answer cr (en_client_channel en) p cl;
     sv \<leftarrow> udp_serve cr (en_server_channel en) (en_memory en) (en_server_this en) (server_gets (en_client en) cl sv);
     (_, cl) \<leftarrow> udp_client_HandleRead cr (en_client_channel en) p (client_gets (en_server en) sv cl);
     Some (cl, sv)
   }"

section \<open>A machine that is just started\<close>

text \<open>Its next descriptor is free, and nothing fails the next \<open>k\<close> times it is asked for.\<close>

definition fresh_machine :: "nat \<Rightarrow> 'c net \<Rightarrow> bool" where
  "fresh_machine k n \<longleftrightarrow>
     dispatcher_inv (nt_dispatcher n) \<and> list_all (\<lambda>b. b) (dp_ctl (nt_dispatcher n)) \<and> k < length (dp_ctl (nt_dispatcher n)) \<and>
     0 \<le> dp_poll_fd (nt_dispatcher n) \<and> k < 2 ^ 31 - 1 \<and>
     (case kn_socket (nt_kernel n) of [] \<Rightarrow> False | fd # _ \<Rightarrow> 0 \<le> fd \<and> dp_fd_events (nt_dispatcher n) fd = None) \<and>
     (\<exists>as. kn_connect (nt_kernel n) = True # as) \<and> (\<exists>as. kn_bind (nt_kernel n) = True # as) \<and>
     k \<le> length (kn_sendmsg (nt_kernel n)) \<and> list_all takes_all (kn_sendmsg (nt_kernel n)) \<and>
     kn_recvfrom (nt_kernel n) = [] \<and> sent_packets (kn_log (nt_kernel n)) = []"

lemma WantRead_succeeds:
  assumes "socket_good p n" "0 \<le> dp_poll_fd (nt_dispatcher n)" "k < length (dp_ctl (nt_dispatcher n))"
    "nt_sockets n ! p = Socket_new fd"
  obtains n' where "WantRead p callback n = Some n'" "socket_good p n'" "nt_kernel n' = nt_kernel n"
    "0 \<le> dp_poll_fd (nt_dispatcher n')" "k \<le> length (dp_ctl (nt_dispatcher n'))" "sk_pending_writes (nt_sockets n' ! p) = 0"
proof -
  obtain ok d where d: "SetFd fd EV_READ EV_NONE (Some (Read_handler p)) None (nt_dispatcher n) = Some (ok, d)"
    "dp_poll_fd d = dp_poll_fd (nt_dispatcher n)" "length (dp_ctl (nt_dispatcher n)) \<le> Suc (length (dp_ctl d))"
    using SetFd_answers [OF assms(2)] by metis
  let ?n = "set_socket p (Socket fd callback None 0 1) (n\<lparr>nt_dispatcher := d\<rparr>)"
  have run: "WantRead p callback n = Some ?n"
    using d(1) by (cases callback) (simp_all add: WantRead_def assms(4) Socket_new_def dispatch_def increment_def)
  have "accepting n" using assms(3) by (auto simp: accepting_def)
  from WantRead_good [OF assms(1) this run] have good: "socket_good p ?n" .
  have "p < length (nt_sockets n)" using assms(1) by (simp add: socket_good_def)
  with good d(2,3) assms(2,3) show thesis by (intro that [OF run good]) (auto simp: set_socket_def)
qed

text \<open>A new socket that waits for packets is usable.\<close>

lemma opened_usable:
  assumes fresh: "fresh_machine k n" and kernel: "kn_sendmsg k' = kn_sendmsg (nt_kernel n)" "kn_recvfrom k' = []" "sent_packets (kn_log k') = []"
    and fd: "kn_socket (nt_kernel n) = fd # fds"
  obtains n' where "WantRead (length (nt_sockets n)) callback (snd (new_socket fd (n\<lparr>nt_kernel := k'\<rparr>))) = Some n'"
    "net_usable (length (nt_sockets n)) k n'" "net_inbox n' = []" "net_sent n' = []"
proof -
  let ?p = "length (nt_sockets n)" and ?n = "snd (new_socket fd (n\<lparr>nt_kernel := k'\<rparr>))"
  note m = fresh [unfolded fresh_machine_def fd list.case]
  have n: "new_socket fd (n\<lparr>nt_kernel := k'\<rparr>) = (?p, ?n)" "nt_dispatcher ?n = nt_dispatcher n" "nt_kernel ?n = k'" "nt_sockets ?n ! ?p = Socket_new fd"
    by (simp_all add: new_socket_def)
  have "socket_good ?p ?n" by (rule new_socket_good [OF _ _ _ n(1)]) (use m in simp_all)
  moreover have "0 \<le> dp_poll_fd (nt_dispatcher ?n)" "k < length (dp_ctl (nt_dispatcher ?n))" using m by (simp_all add: n(2))
  ultimately obtain n' where "WantRead ?p callback ?n = Some n'" "socket_good ?p n'" "nt_kernel n' = nt_kernel ?n"
    "0 \<le> dp_poll_fd (nt_dispatcher n')" "k \<le> length (dp_ctl (nt_dispatcher n'))" "sk_pending_writes (nt_sockets n' ! ?p) = 0"
    by (rule WantRead_succeeds [OF _ _ _ n(4)])
  with m n(3) kernel show thesis by (intro that) (auto simp: net_usable_def net_inbox_def net_sent_def)
qed

lemma listening:
  assumes "fresh_machine k (us_net u)"
  obtains n' where "UdpServer_Start (listen_on readh writeh address) u =
      Some (True, u\<lparr>us_socket := Some (datagram_socket_at (length (nt_sockets (us_net u))) readh writeh),
        us_queue := (us_queue u)\<lparr>dq_channel := Some (datagram_channel.truncate (datagram_socket_at (length (nt_sockets (us_net u))) readh writeh))\<rparr>,
        us_net := n'\<rparr>)"
    "net_usable (length (nt_sockets (us_net u))) k n'" "net_inbox n' = []" "sent_to n' = []"
proof -
  let ?n = "us_net u" and ?p = "length (nt_sockets (us_net u))"
  obtain fd fds bs where k: "kn_socket (nt_kernel ?n) = fd # fds" "0 \<le> fd" "kn_bind (nt_kernel ?n) = True # bs"
    using assms by (auto simp: fresh_machine_def split: list.splits)
  let ?k = "(nt_kernel ?n)\<lparr>kn_socket := fds, kn_bind := bs, kn_log := kn_log (nt_kernel ?n) @
    [Sys_socket (sa_Family address) False, Sys_bind fd (take (sa_Size address) (sa_Data address))]\<rparr>"
  let ?n1 = "snd (new_socket fd (?n\<lparr>nt_kernel := ?k\<rparr>))"
  have "listen_on readh writeh address ?n = Some (Some (datagram_socket_at ?p readh writeh), ?n1)"
    using k by (simp add: listen_on_def DatagramListenOn_def sys_socket_def sys_bind_def sys_def keep_fd_def new_socket_def)
  moreover obtain n' where "WantRead ?p (Some readh) ?n1 = Some n'" "net_usable ?p k n'" "net_inbox n' = []" "net_sent n' = []"
    by (rule opened_usable [OF assms _ _ _ k(1), of ?k "Some readh"]) (use assms in \<open>auto simp: fresh_machine_def\<close>)
  ultimately show thesis
    by (intro that [of n']) (simp_all add: UdpServer_Start_def SetChannel_def datagram_socket_at_def sent_to_def Let_def)
qed

lemma connected:
  assumes "fresh_machine k n"
  obtains n' where "udp_Connect (connect_to readh writeh) memory this address n =
      Some (Some \<lparr>uk_key = cn_new memory this, uk_socket = bound_channel_at (length (nt_sockets n)) readh writeh,
        uk_queue = PacketQueue_new, uk_buffer = empty_reader\<rparr>, n')"
    "net_usable (length (nt_sockets n)) k n'" "net_data_inbox n' = []" "sent_data n' = []"
proof -
  let ?p = "length (nt_sockets n)"
  obtain fd fds bs where k: "kn_socket (nt_kernel n) = fd # fds" "0 \<le> fd" "kn_connect (nt_kernel n) = True # bs"
    using assms by (auto simp: fresh_machine_def split: list.splits)
  let ?k = "(nt_kernel n)\<lparr>kn_socket := fds, kn_connect := bs, kn_log := kn_log (nt_kernel n) @
    [Sys_socket (sa_Family address) False, Sys_connect fd (take (sa_Size address) (sa_Data address))]\<rparr>"
  let ?n1 = "snd (new_socket fd (n\<lparr>nt_kernel := ?k\<rparr>))"
  have "connect_to readh writeh address n = Some (Some (bound_channel_at ?p readh writeh), ?n1)"
    using k by (simp add: connect_to_def DatagramConnect_def sys_socket_def sys_connect_def sys_def keep_fd_def new_socket_def)
  moreover obtain n' where "WantRead ?p (Some readh) ?n1 = Some n'" "net_usable ?p k n'" "net_inbox n' = []" "net_sent n' = []"
    by (rule opened_usable [OF assms _ _ _ k(1), of ?k "Some readh"]) (use assms in \<open>auto simp: fresh_machine_def\<close>)
  ultimately show thesis
    by (intro that [of n'])
      (simp_all add: udp_Connect_def udp_client_Connection_new_def new_buffer_run bound_channel_at_def sent_data_def net_data_inbox_def)
qed

text \<open>A packet that arrives is behind the others; nothing else changes.\<close>

lemma received_from: "received (Inr (bs, from)) = (the (Sockaddr_Parse_raw (fst from) (snd from)), bs)"
  by (cases "from") simp

lemma arrives:
  assumes "Sockaddr_Parse_raw (fst from) (snd from) = Some a"
  shows "net_usable p k (net_arrives from bs n) = net_usable p k n" "net_inbox (net_arrives from bs n) = net_inbox n @ [(a, bs)]"
    "net_data_inbox (net_arrives from bs n) = net_data_inbox n @ [bs]" "sent_to (net_arrives from bs n) = sent_to n"
    "sent_data (net_arrives from bs n) = sent_data n"
  using assms by (auto simp: received_from net_arrives_def net_usable_def socket_good_def net_inbox_def net_data_inbox_def sent_to_def sent_data_def net_sent_def
      has_sender_def)

lemma server_between_gets:
  assumes "Sockaddr_Parse_raw (fst from) (snd from) = Some peer" "sent_data (hb_world cl) = st' @ [bs]"
    "socket_net.udp_between q readh writeh cr peer ib st k n key p j secret sv"
  shows "socket_net.udp_between q readh writeh cr peer (ib @ [(peer, bs)]) st k n key p j secret (server_gets from cl sv)"
  using assms(2,3)
  by (simp add: socket_net.udp_between_def socket_net.udp.talking_def socket_net.udp.session_ready_def socket_net.udp.sent_by_def
      socket_net.udp_ready_def socket_net.udp_waiting_def server_gets_def arrives [OF assms(1)] Message_def)

lemma client_between_gets:
  assumes "Sockaddr_Parse_raw (fst from) (snd from) = Some a" "sent_to (us_net (hb_world sv)) = st' @ [(a', bs)]"
    "bound_socket.udp_client_between q readh writeh cr key ib st k n p callback cl"
  shows "bound_socket.udp_client_between q readh writeh cr key (ib @ [bs]) st k n p callback (client_gets from sv cl)"
  using assms(2,3)
  by (simp add: bound_socket.udp_client_between_def bound_socket.udp.talking_def bound_socket.udp.session_ready_def bound_socket.udp.sent_by_def
      bound_socket.udp_client_ready_def bound_socket.udp_client_waiting_def client_gets_def arrives [OF assms(1)] Message_def)

section \<open>The login\<close>

text \<open>What a login starts from: OpenSSL works, and so do the machines; each side knows the other's address.\<close>

definition login_ready ::
    "(bytes \<Rightarrow> bytes \<Rightarrow> bytes \<Rightarrow> bytes) \<Rightarrow> (bytes \<Rightarrow> bytes \<Rightarrow> bytes \<Rightarrow> bytes) \<Rightarrow> sockaddr \<Rightarrow> connection_key \<Rightarrow> ('x, 'k, 'h, 'g, 'c, 'd) ends \<Rightarrow>
     ('x, 'k, 'c net udp_client_connection, 'g, 'c net) client \<Rightarrow> ('x, 'k, udp_connection, 'h, 'd net udp_server) server \<Rightarrow> bool" where
  "login_ready aes bf peer key en cl sv \<longleftrightarrow>
     crypto_documented (en_crypto en) aes bf \<and> takes_sessions (en_client_channel en) \<and> takes_sessions (en_server_channel en) \<and>
     en_parse en (en_destination en) \<noteq> None \<and> Sockaddr_Parse_raw (fst (en_client en)) (snd (en_client en)) = Some peer \<and>
     Sockaddr_Parse_raw (fst (en_server en)) (snd (en_server en)) \<noteq> None \<and>
     dk_Add kConnectionKeySize (sa_Data peer) (of_nat (sa_Size peer)) (cn_new (en_memory en) (en_server_this en)) = Some key \<and>
     fresh_machine 6 (hb_world cl) \<and> hb_map cl \<noteq> [] \<and> entropic 3 (hb_prng cl) \<and>
     fresh_machine 6 (us_net (hb_world sv)) \<and> hb_map sv \<noteq> [] \<and> entropic 4 (hb_prng sv) \<and>
     dq_queue (us_queue (hb_world sv)) = [] \<and> GetSession key sv = (NeedNewSession, None)"

abbreviation client_waits where
  "client_waits en cl0 \<equiv> bound_socket.udp_client_between (length (nt_sockets (hb_world cl0))) (fst (en_client_handlers en))
     (snd (en_client_handlers en)) (en_crypto en) (cn_new (en_memory en) (en_client_this en))"

abbreviation server_waits where
  "server_waits en sv0 \<equiv> socket_net.udp_between (length (nt_sockets (us_net (hb_world sv0)))) (fst (en_server_handlers en))
     (snd (en_server_handlers en)) (en_crypto en)"

lemma hello_exchanged:
  fixes cl :: "('x, 'k, 'c net udp_client_connection, 'g, 'c net) client" and sv :: "('x, 'k, udp_connection, 'h, 'd net udp_server) server"
  assumes ready: "login_ready aes bf peer key en cl sv"
    and user: "cl_chatter cl kUserName = Some name" "short (string_wire (sb_content name))" "on_file (sb_content name) stored sv"
    and secret: "FromSecret (cr_bn (en_crypto en)) empty_reader stored \<lparr>sr_index = 0, sr_salt = [], sr_x = 0, sr_v = 0\<rparr> = Some (True, secret)"
      "short (hello_wire secret)"
  obtains cl1 sv1 st st' prefix where "udp_hello en cl sv = Some (cl1, sv1)" "length prefix = prefix_length (cr_ssl (en_crypto en)) ScrambleSession"
    "client_waits en cl [packet_of (en_crypto en) aes bf ScrambleSession prefix (hello_wire secret)] st 4 2
       (length (hb_sessions cl)) (Hello_callback (length (cl_auths cl))) cl1"
    "length (cl_auths cl) < length (cl_auths cl1)" "sc_username (cl_auths cl1 ! length (cl_auths cl)) = sb_content name"
    "cl_chatter cl1 = cl_chatter cl"
    "server_waits en sv peer [] st' 3 3 key (length (hb_sessions sv)) (length (sv_auths sv)) secret sv1"
proof -
  let ?cr = "en_crypto en" and ?key = "cn_new (en_memory en) (en_client_this en)"
  let ?q = "length (nt_sockets (us_net (hb_world sv)))" and ?r = "fst (en_server_handlers en)" and ?w = "snd (en_server_handlers en)"
  note r = ready [unfolded login_ready_def]
  have cr: "crypto_documented ?cr aes bf" using r by simp
  from r have "fresh_machine 6 (us_net (hb_world sv))" by simp
  from listening [OF this] obtain n' where listen: "UdpServer_Start (listen_on ?r ?w (en_listen en)) (hb_world sv) =
      Some (True, (hb_world sv)\<lparr>us_socket := Some (datagram_socket_at ?q ?r ?w),
        us_queue := (us_queue (hb_world sv))\<lparr>dq_channel := Some (datagram_channel.truncate (datagram_socket_at ?q ?r ?w))\<rparr>, us_net := n'\<rparr>)"
    "net_usable ?q 6 n'" "net_inbox n' = []" "sent_to n' = []" by metis
  define u where "u = (hb_world sv)\<lparr>us_socket := Some (datagram_socket_at ?q ?r ?w),
        us_queue := (us_queue (hb_world sv))\<lparr>dq_channel := Some (datagram_channel.truncate (datagram_socket_at ?q ?r ?w))\<rparr>, us_net := n'\<rparr>"
  obtain address where address: "en_parse en (en_destination en) = Some address" using r by auto
  from r have "fresh_machine 6 (hb_world cl)" by simp
  from connected [OF this] obtain m' where connect: "udp_Connect (connect_to (fst (en_client_handlers en)) (snd (en_client_handlers en)))
      (en_memory en) (en_client_this en) address (hb_world cl) =
      Some (Some \<lparr>uk_key = ?key, uk_socket = bound_channel_at (length (nt_sockets (hb_world cl))) (fst (en_client_handlers en)) (snd (en_client_handlers en)),
        uk_queue = PacketQueue_new, uk_buffer = empty_reader\<rparr>, m')" (is "_ = Some (Some ?c, _)")
    "net_usable (length (nt_sockets (hb_world cl))) 6 m'" "net_data_inbox m' = []" "sent_data m' = []" by metis
  have fresh: "bound_socket.udp_client_ready (length (nt_sockets (hb_world cl))) (fst (en_client_handlers en)) (snd (en_client_handlers en))
      ?key [] [] (Suc (Suc 4)) ?c m'" "bound_socket.udp_client_waiting ?c m' = []" "reader_contents (uk_buffer ?c) = []"
    using connect(2-4) empty_reader_ok by (simp_all add: bound_socket.udp_client_ready_def bound_socket.udp_client_waiting_def PacketQueue_new_def)
  have client: "hb_map cl \<noteq> []" "entropic (Suc 2) (hb_prng cl)" "length (sb_content name) \<le> 65535"
    using r user(2) by (simp_all add: short_def kMaxPacketSize_def)
  obtain cl1 status cl2 prefix where greet:
    "AddConnection ?cr (udp_client_class ?cr) (en_parse en) (udp_Connect (connect_to (fst (en_client_handlers en)) (snd (en_client_handlers en)))
      (en_memory en) (en_client_this en)) udp_client_GetKey (en_destination en) cl = Some cl1"
    "udp_client_HandleWrite (length (hb_sessions cl)) cl1 = Some (status, cl2)" "length prefix = prefix_length (cr_ssl ?cr) ScrambleSession"
    "client_waits en cl [] ([] @ [packet_of ?cr aes bf ScrambleSession prefix (string_wire (sb_content name))]) 4 2
       (length (hb_sessions cl)) (Hello_callback (length (cl_auths cl))) cl2"
    "length (cl_auths cl) < length (cl_auths cl2)" "sc_username (cl_auths cl2 ! length (cl_auths cl)) = sb_content name"
    "cl_chatter cl2 = cl_chatter cl"
    by (rule bound_socket.udp_client_greets [where parse = "en_parse en" and destination = "en_destination en" and cl = cl and
          Connect = "udp_Connect (connect_to (fst (en_client_handlers en)) (snd (en_client_handlers en))) (en_memory en) (en_client_this en)",
          OF cr address connect(1) fresh client(1,2) user(1) client(3)])
  have sent: "sent_data (hb_world cl2) = [] @ [packet_of ?cr aes bf ScrambleSession prefix (string_wire (sb_content name))]"
    using greet(4) by (simp add: bound_socket.udp_client_between_def bound_socket.udp.talking_def bound_socket.udp.session_ready_def
        bound_socket.udp_client_ready_def)
  let ?from = "en_client en"
  have peer: "Sockaddr_Parse_raw (fst ?from) (snd ?from) = Some peer" using r by simp
  define sv1 where "sv1 = server_gets ?from cl2 (sv\<lparr>hb_world := u\<rparr>)"
  have sv1: "us_socket (hb_world sv1) = Some (datagram_socket_at ?q ?r ?w)"
    "dq_channel (us_queue (hb_world sv1)) = Some (datagram_channel.truncate (datagram_socket_at ?q ?r ?w))" "dq_queue (us_queue (hb_world sv1)) = []"
    "net_usable ?q (Suc (Suc (Suc 3))) (us_net (hb_world sv1))"
    "net_inbox (us_net (hb_world sv1)) = (peer, packet_of ?cr aes bf ScrambleSession prefix (string_wire (sb_content name))) # []"
    "GetSession key sv1 = (NeedNewSession, None)" "hb_map sv1 \<noteq> []" "entropic (Suc 3) (hb_prng sv1)" "on_file (sb_content name) stored sv1"
    using r listen(2-4) sent user(3)
    by (auto simp: sv1_def u_def server_gets_def arrives [OF peer] GetSession_def intro: on_file_cong)
  have add: "dk_Add kConnectionKeySize (sa_Data peer) (of_nat (sa_Size peer)) (cn_new (en_memory en) (en_server_this en)) = Some key" using r by simp
  obtain sv2 prefix' where serve: "udp_serve ?cr (en_server_channel en) (en_memory en) (en_server_this en) sv1 = Some sv2"
    "length prefix' = prefix_length (cr_ssl ?cr) ScrambleSession"
    "server_waits en sv peer [] (sent_to (us_net (hb_world sv1)) @ [(peer, packet_of ?cr aes bf ScrambleSession prefix' (hello_wire secret))]) 3 3
      key (length (hb_sessions sv1)) (length (sv_auths sv1)) secret sv2"
    by (rule socket_net.udp_server_greets [OF cr sv1(1-5) greet(3) user(2) add sv1(6-9) secret])
  have sent': "sent_to (us_net (hb_world sv2)) = sent_to (us_net (hb_world sv1)) @ [(peer, packet_of ?cr aes bf ScrambleSession prefix' (hello_wire secret))]"
    using serve(3) by (simp add: socket_net.udp_between_def socket_net.udp.talking_def socket_net.udp.session_ready_def socket_net.udp_ready_def)
  obtain a where "Sockaddr_Parse_raw (fst (en_server en)) (snd (en_server en)) = Some a" using r by auto
  from client_between_gets [OF this sent' greet(4)] have gets: "client_waits en cl [packet_of ?cr aes bf ScrambleSession prefix' (hello_wire secret)]
      [packet_of ?cr aes bf ScrambleSession prefix (string_wire (sb_content name))] 4 2
      (length (hb_sessions cl)) (Hello_callback (length (cl_auths cl))) (client_gets (en_server en) sv2 cl2)" by simp
  have run: "udp_hello en cl sv = Some (client_gets (en_server en) sv2 cl2, sv2)"
    using listen(1) greet(1,2) serve(1) by (simp add: udp_hello_def Let_def u_def [symmetric] sv1_def [symmetric])
  have same: "length (hb_sessions sv1) = length (hb_sessions sv)" "sv_auths sv1 = sv_auths sv" by (simp_all add: sv1_def server_gets_def)
  show thesis
    by (rule that [OF run serve(2) gets _ _ _ serve(3) [unfolded same]]) (use greet(5-7) in \<open>simp_all add: client_gets_def\<close>)
qed

text \<open>What both sides have at the end.\<close>

definition share_key :: "('x, 'k) crypto \<Rightarrow> bytes \<Rightarrow> nat \<Rightarrow> nat \<Rightarrow> ('x, 'k, 'c, 'h, 'w, 'e) hub_scheme \<Rightarrow> ('x, 'k, 'd, 'g, 'v, 'f) hub_scheme \<Rightarrow> bool" where
  "share_key cr aes p q cl sv \<longleftrightarrow>
     (let e = Some (new_protector cr (AesSession aes))
      in se_encoder (session_at p cl) = e \<and> se_decoder (session_at p cl) = e \<and>
         se_encoder (session_at q sv) = e \<and> se_decoder (session_at q sv) = e)"

lemma keys_exchanged:
  fixes cl :: "('x, 'k, 'c net udp_client_connection, 'g, 'c net) client" and sv :: "('x, 'k, udp_connection, 'h, 'd net udp_server) server"
  assumes ready: "login_ready aes bf peer key en cl0 sv0"
    and client: "client_waits en cl0 [packet_of (en_crypto en) aes bf ScrambleSession pre (hello_wire secret)] st 4 2 p (Hello_callback i) cl"
      "length pre = prefix_length (cr_ssl (en_crypto en)) ScrambleSession" "i < length (cl_auths cl)" "cl_chatter cl kPassword = Some pwd"
    and server: "server_waits en sv0 peer [] st' 3 3 key q j secret sv"
    and secret: "short (hello_wire secret)" "8 \<le> length (sr_salt secret)"
      "sr_v secret = g ^ srp_x (cr_bn (en_crypto en)) (sc_username (cl_auths cl ! i)) (sr_salt secret) pwd mod N"
    and prime: "GetPrime (cr_bn (en_crypto en)) (sr_index secret) = Some N" "GetGenerator (sr_index secret) = Some g" "2 ^ 1000 < N" "N < prime_limit"
    and draws: "draws (cr_bn (en_crypto en)) (cr_rc4 (en_crypto en)) g N (hb_prng cl) a" "draws (cr_bn (en_crypto en)) (cr_rc4 (en_crypto en)) g N (hb_prng sv) b"
    and key: "\<not> N dvd g ^ b + CalculateK (cr_bn (en_crypto en)) N g * sr_v secret"
  obtains cl' sv' salt secretbuf aeskey where "udp_keys en p cl sv = Some (cl', sv')" "length salt = kKeyLengthInBytes"
    "sb_content secretbuf = BN_bn2bin (cr_bn (en_crypto en)) (g ^ (b * (a +
      CalculateU (cr_bn (en_crypto en)) N (g ^ a mod N) ((g ^ b mod N + CalculateK (cr_bn (en_crypto en)) N g * sr_v secret mod N) mod N) *
      srp_x (cr_bn (en_crypto en)) (sc_username (cl_auths cl ! i)) (sr_salt secret) pwd)) mod N)"
    "aeskey = ComputeKey (cr_hmac (en_crypto en)) salt kKeyLengthInBytes secretbuf" "share_key (en_crypto en) aeskey p q cl' sv'"
proof -
  let ?cr = "en_crypto en" and ?x = "srp_x (cr_bn (en_crypto en)) (sc_username (cl_auths cl ! i)) (sr_salt secret) pwd"
  let ?A = "g ^ a mod N" and ?B = "(g ^ b mod N + CalculateK (cr_bn (en_crypto en)) N g * sr_v secret mod N) mod N"
  note r = ready [unfolded login_ready_def]
  have cr: "crypto_documented ?cr aes bf" and ch: "takes_sessions (en_client_channel en)" "takes_sessions (en_server_channel en)"
    and peer: "Sockaddr_Parse_raw (fst (en_client en)) (snd (en_client en)) = Some peer"
    and add: "dk_Add kConnectionKeySize (sa_Data peer) (of_nat (sa_Size peer)) (cn_new (en_memory en) (en_server_this en)) = Some key"
    using r by simp_all
  note lib = crypto_documentedD(3) [OF cr]
  have N0: "0 < N" using prime(3) by linarith
  have four: "4 = Suc (Suc (Suc 1))" "2 = Suc (Suc 0)" "3 = Suc (Suc (Suc 0))" by simp_all
  obtain cl1 prefix1 where answer: "udp_answer ?cr (en_client_channel en) p cl = Some cl1" "length prefix1 = prefix_length (cr_ssl ?cr) ScrambleSession"
    "client_waits en cl0 [] (st @ [packet_of ?cr aes bf ScrambleSession prefix1 (bn_wire (cr_bn ?cr) ?A)]) 1 0 p (Public_key_callback i) cl1"
    "i < length (cl_auths cl1)" "cl_chatter cl1 = cl_chatter cl"
    "cl_auths cl1 ! i = (cl_auths cl ! i)\<lparr>sc_salt := sr_salt secret, sc_index := sr_index secret, sc_a := a, sc_A := ?A\<rparr>"
    by (rule bound_socket.udp_client_answers [OF cr client(1) [unfolded four] client(2) secret(1,2) client(3) prime(1,2) N0 prime(4) draws(1)])
  have sent: "sent_data (hb_world cl1) = st @ [packet_of ?cr aes bf ScrambleSession prefix1 (bn_wire (cr_bn ?cr) ?A)]"
    using answer(3) by (simp add: bound_socket.udp_client_between_def bound_socket.udp.talking_def bound_socket.udp.session_ready_def
        bound_socket.udp_client_ready_def)
  from server_between_gets [OF peer sent server] have server1: "server_waits en sv0 peer [(peer, packet_of ?cr aes bf ScrambleSession prefix1 (bn_wire (cr_bn ?cr) ?A))] st'
    (Suc (Suc (Suc 0))) (Suc (Suc (Suc 0))) key q j secret (server_gets (en_client en) cl1 sv)" by (simp add: numeral_3_eq_3)
  have A: "\<not> N dvd ?A" using draws(1) by (auto simp: draws_def dvd_mod_iff)
  have fits: "a + CalculateU (cr_bn ?cr) N ?A ?B * ?x < N"
    using draws(1) exponent_fits [OF lib _ prime(3)]
    unfolding draws_def CalculateU_def srp_x_def SetFromBinary_def Digest_SHA1_def Let_def by blast
  have b: "draws (cr_bn ?cr) (cr_rc4 ?cr) g N (hb_prng (server_gets (en_client en) cl1 sv)) b" using draws(2) by (simp add: server_gets_def)
  obtain sv1 prefix2 salt buf2 e where serve: "udp_serve ?cr (en_server_channel en) (en_memory en) (en_server_this en) (server_gets (en_client en) cl1 sv) = Some sv1"
    "length prefix2 = prefix_length (cr_ssl ?cr) ScrambleSession" "length salt = kKeyLengthInBytes"
    "socket_net.udp.session_ready (length (nt_sockets (us_net (hb_world sv0)))) (fst (en_server_handlers en)) (snd (en_server_handlers en))
      peer [] (st' @ [(peer, packet_of ?cr aes bf ScrambleSession prefix2 (bn_wire (cr_bn ?cr) ?B @ salt))]) 0 q sv1"
    "sb_content buf2 = BN_bn2bin (cr_bn ?cr) (g ^ (b * (a + CalculateU (cr_bn ?cr) N ?A ?B * ?x)) mod N)"
    "e = new_protector ?cr (AesSession (ComputeKey (cr_hmac ?cr) salt kKeyLengthInBytes buf2))"
    "se_encoder (session_at q sv1) = Some e" "se_decoder (session_at q sv1) = Some e"
    by (rule socket_net.udp_server_agrees [OF cr ch(2) server1 answer(2) add prime(1,2) N0 prime(4) refl A secret(3) b refl fits])
  have sent2: "sent_to (us_net (hb_world sv1)) = st' @ [(peer, packet_of ?cr aes bf ScrambleSession prefix2 (bn_wire (cr_bn ?cr) ?B @ salt))]"
    using serve(4) by (simp add: socket_net.udp.session_ready_def socket_net.udp_ready_def)
  obtain from_server where "Sockaddr_Parse_raw (fst (en_server en)) (snd (en_server en)) = Some from_server" using r by auto
  from client_between_gets [OF this sent2 answer(3)] have client1: "client_waits en cl0 [packet_of ?cr aes bf ScrambleSession prefix2 (bn_wire (cr_bn ?cr) ?B @ salt)]
    (st @ [packet_of ?cr aes bf ScrambleSession prefix1 (bn_wire (cr_bn ?cr) ?A)]) (Suc 0) 0 p (Public_key_callback i) (client_gets (en_server en) sv1 cl1)"
    by simp
  let ?cl2 = "client_gets (en_server en) sv1 cl1"
  have au: "i < length (cl_auths ?cl2)" "cl_auths ?cl2 ! i = (cl_auths cl ! i)\<lparr>sc_salt := sr_salt secret, sc_index := sr_index secret, sc_a := a, sc_A := ?A\<rparr>"
    "cl_chatter ?cl2 kPassword = Some pwd"
    using answer(4-6) client(4) by (simp_all add: client_gets_def)
  define c0 where "c0 = (cl_auths cl ! i)\<lparr>sc_salt := sr_salt secret, sc_index := sr_index secret, sc_a := a, sc_A := ?A\<rparr>"
  have c0: "c0 = cl_auths ?cl2 ! i" "sc_index c0 = sr_index secret" "?x = srp_x (cr_bn ?cr) (sc_username c0) (sc_salt c0) pwd" "sc_a c0 = a" "sc_A c0 = ?A"
    using au(2) by (simp_all add: c0_def)
  have B: "?B = (g ^ b mod N + CalculateK (cr_bn ?cr) N g * (g ^ ?x mod N) mod N) mod N" "\<not> N dvd ?B"
    using key secret(3) by (simp_all add: mod_add_eq dvd_eq_mod_eq_0)
  obtain cl3 buf3 e3 where fin: "udp_client_HandleRead ?cr (en_client_channel en) p ?cl2 = Some (MORE, cl3)"
    "sb_content buf3 = BN_bn2bin (cr_bn ?cr) (g ^ (b * (sc_a c0 + CalculateU (cr_bn ?cr) N (sc_A c0) ?B * ?x)) mod N)"
    "e3 = new_protector ?cr (AesSession (ComputeKey (cr_hmac ?cr) salt kKeyLengthInBytes buf3))"
    "se_encoder (session_at p cl3) = Some e3" "se_decoder (session_at p cl3) = Some e3"
    by (rule bound_socket.udp_client_agrees [OF cr ch(1) client1 serve(2,3) au(1) c0(1,2) prime(1,2) N0 prime(4) au(3) c0(3) B fits [folded c0(4,5)]])
  have same: "ComputeKey (cr_hmac ?cr) salt kKeyLengthInBytes buf3 = ComputeKey (cr_hmac ?cr) salt kKeyLengthInBytes buf2"
    using fin(2) serve(5) c0(4,5) by (simp add: ComputeKey_def)
  have run: "udp_keys en p cl sv = Some (cl3, sv1)" using answer(1) serve(1) fin(1) by (simp add: udp_keys_def Let_def)
  show thesis
    by (rule that [OF run serve(3,5) refl]) (simp add: share_key_def serve(6-8) fin(3-5) same Let_def)
qed

section \<open>Properties\<close>


section \<open>A login that can be computed\<close>

definition sample_crypto :: "(bytes, unit) crypto" where
  "sample_crypto = \<lparr>cr_ssl = trailer_ssl, cr_rc4 = one_rc4, cr_bn = concrete_bn, cr_hmac = (\<lambda>key m. replicate 20 1), cr_ctx = [],
     cr_memory = (\<lambda>p. replicate 64 0)\<rparr>"

lemma sample_crypto_documented: "crypto_documented sample_crypto (\<lambda>key iv m. m @ [0]) (\<lambda>key iv m. m @ [0])"
proof -
  have "prefix_length trailer_ssl kind \<le> 64" for kind by (cases kind) (simp_all add: trailer_ssl_def trailer_evp_def)
  then show ?thesis
    using trailer_ssl_documented concrete_bn_documented
    by (simp add: crypto_documented_def sample_crypto_def rc4_documented_def one_rc4_def kSHA1Length_def kKeyLengthInBytes_def)
qed

definition sample_address :: "bytes \<times> nat" where
  "sample_address = (family_bytes af_inet @ replicate 14 1, 16)"

definition sample_channel :: "(unit, ('x, 'k, 'c, 'g, 'w, 'e) hub_scheme) channel" where
  "sample_channel = \<lparr>ch_HandleConnect = (\<lambda>p h. Some (SetCallbacks p None None h)), ch_Read = (\<lambda>_ _ r h. Some (r, h))\<rparr>"

definition sample_ends :: "(bytes, unit, unit, unit, unit, unit) ends" where
  "sample_ends = \<lparr>en_crypto = sample_crypto, en_parse = (\<lambda>_. Some (IPv4Sockaddr (fst sample_address))), en_destination = [],
     en_listen = IPv4Sockaddr (fst sample_address), en_client = sample_address, en_server = sample_address,
     en_memory = replicate 20 0, en_client_this = 1, en_server_this = 2, en_client_handlers = ((), ()), en_server_handlers = ((), ()),
     en_client_channel = sample_channel, en_server_channel = sample_channel\<rparr>"

definition sample_machine :: "unit net" where
  "sample_machine = \<lparr>nt_sockets = [], nt_dispatcher = snd (Dispatcher_Init 3 (Dispatcher_new (replicate 7 True))),
     nt_kernel = quiet_kernel\<lparr>kn_socket := [7], kn_connect := [True], kn_bind := [True], kn_sendmsg := replicate 6 (Inr (2 ^ 32))\<rparr>\<rparr>"

lemma sample_machine_fresh: "fresh_machine 6 sample_machine"
proof -
  have "dispatcher_inv (nt_dispatcher sample_machine)"
    using dispatcher_inv_new by (simp add: sample_machine_def dispatcher_inv_def Dispatcher_Init_def)
  then show ?thesis
    by (simp add: fresh_machine_def sample_machine_def Dispatcher_Init_def Dispatcher_new_def quiet_kernel_def takes_all_def list_all_iff)
qed

definition sample_prng :: "unit prng" where
  "sample_prng = \<lparr>pr_reseed = 1000, pr_key = (), pr_entropy = replicate 4 (Some [])\<rparr>"

definition bobs_name :: static_buffer where
  "bobs_name = \<lparr>sb_data = str ''bob'', sb_used = 3\<rparr>"

lemma bobs_name: "sb_content bobs_name = str ''bob''"
  by (simp add: bobs_name_def sb_content_def)

definition bobs_client :: "(bytes, unit, unit net udp_client_connection, unit, unit net) client" where
  "bobs_client = \<lparr>hb_prng = sample_prng, hb_sessions = [], hb_map = [[]], hb_deleted = [], hb_world = sample_machine, cl_auths = [],
     cl_chatter = (\<lambda>t. Some (case t of kUserName \<Rightarrow> bobs_name | kPassword \<Rightarrow> bobs_password))\<rparr>"

text \<open>The file of the server has Bob's line.\<close>

definition bobs_server :: "(bytes, unit, udp_connection, unit, unit net udp_server) server" where
  "bobs_server = \<lparr>hb_prng = sample_prng, hb_sessions = [], hb_map = [[]], hb_deleted = [],
     hb_world = \<lparr>us_queue = DatagramSenderPacketQueue_new, us_socket = None, us_net = sample_machine\<rparr>, sv_auths = [], sv_userdb = udb_new,
     sv_opens = [(True, Lock_ok, [Read_data (user_line (str ''bob'', the (ToSecret concrete_bn empty_reader (the bobs_secret))))])]\<rparr>"

lemma bob_on_file: "on_file (str ''bob'') (the (ToSecret concrete_bn empty_reader (the bobs_secret))) bobs_server"
proof -
  let ?stored = "the (ToSecret concrete_bn empty_reader (the bobs_secret))"
  have parsed: "ParseFd [Read_data (user_line (str ''bob'', ?stored))] [] = (True, [(str ''bob'', ?stored)])"
    by (rule user_file_parsed) (simp_all add: sm_ok_def ValidUsername_def ch_colon_def ch_eol_def user_line_def)
  let ?u = "\<lparr>udb_open = True, udb_users = [(str ''bob'', ?stored)]\<rparr>"
  have "udb_Open True Lock_ok [Read_data (user_line (str ''bob'', ?stored))] udb_new = Some (True, ?u)"
    using parsed by (simp add: udb_Open_def udb_new_def Let_def)
  moreover have "GetUser (str ''bob'') ?u = (True, Some ?stored)" by (simp add: GetUser_def sm_find_def)
  ultimately show ?thesis unfolding on_file_def by (intro exI [of _ ?u] exI [of _ "[]"]) (simp add: UserDbSession_open_def bobs_server_def)
qed

lemma sample_login_ready:
  "\<exists>key. login_ready (\<lambda>key iv m. m @ [0]) (\<lambda>key iv m. m @ [0]) (IPv4Sockaddr (fst sample_address)) key sample_ends bobs_client bobs_server"
proof -
  have parse: "Sockaddr_Parse_raw (fst sample_address) (snd sample_address) = Some (IPv4Sockaddr (fst sample_address))"
    by (simp add: Sockaddr_Parse_raw_def IPv4_Parse_raw_def sample_address_def family_bytes_def)
  have "length (fst sample_address) = 16" by (simp add: sample_address_def family_bytes_def)
  then obtain key where key: "dk_Add kConnectionKeySize (fst sample_address) 16 (cn_new (replicate 20 0) 2) = Some key"
    by (simp add: dk_Add_def kConnectionKeySize_def cn_new_def)
  have channels: "takes_sessions (sample_channel :: (unit, ('x, 'k, 'c, 'g, 'w, 'e) hub_scheme) channel)"
    by (auto simp: takes_sessions_def sample_channel_def)
  have entropy: "entropic n sample_prng" if "n \<le> 4" for n
    using that by (simp add: entropic_def sample_prng_def list_all_iff)
  show ?thesis
    by (intro exI [of _ key])
      (simp add: login_ready_def sample_ends_def sample_crypto_documented channels parse key bobs_client_def bobs_server_def sample_machine_fresh
        entropy DatagramSenderPacketQueue_new_def GetSession_def um_find_def bucket_def)
qed

lemma sample_login_parts:
  "cr_rc4 sample_crypto = one_rc4" "length (hb_sessions bobs_client) = 0" "length (hb_sessions bobs_server) = 0"
  "en_crypto sample_ends = sample_crypto"
  by (simp_all add: sample_ends_def sample_crypto_def bobs_client_def bobs_server_def)


end
