(* ===== verification/SessionTable.thy ===== *)
theory SessionTable
  imports Sessions
begin

text \<open>
  The table of a connection manager over the life of the program: which sessions a key can find, and what
  an error does to them.
\<close>

section \<open>What happens to the table\<close>

text \<open>
  A session is made for a key that has none, a transcoder reports an error with the session it found for the
  key, and handlers do what they like with the sessions, the protectors and the rest of the program, but
  for the table.
\<close>

inductive hub_runs ::
    "('x, 'k, 'c, 'w) connection_class \<Rightarrow> 'h \<Rightarrow> ('x, 'k, 'c, 'h, 'w, 'e) hub_scheme \<Rightarrow> ('x, 'k, 'c, 'h, 'w, 'e) hub_scheme \<Rightarrow> bool"
  for cc start where
  at_start: "hub_runs cc start h h"
| create: "hub_runs cc start h h1 \<Longrightarrow> GetSession key h1 = (NeedNewSession, None) \<Longrightarrow>
    CreateSession start key c h1 = (session, h2) \<Longrightarrow> hub_runs cc start h h2"
| error: "hub_runs cc start h h1 \<Longrightarrow> GetSession key h1 = (Ready, Some p) \<Longrightarrow>
    report_error cc (Some p) key reason h1 = Some h2 \<Longrightarrow> hub_runs cc start h h2"
| handlers: "hub_runs cc start h h1 \<Longrightarrow> hb_map h2 = hb_map h1 \<Longrightarrow> hb_deleted h2 = hb_deleted h1 \<Longrightarrow>
    length (hb_sessions h2) = length (hb_sessions h1) \<Longrightarrow> hub_runs cc start h h2"

text \<open>
  Every session in the table is an object that was not given to \<open>DeleteLater\<close>, under one key only, and no
  object was given to it twice.
\<close>

definition table_ok :: "('x, 'k, 'c, 'h, 'w, 'e) hub_scheme \<Rightarrow> bool" where
  "table_ok h \<longleftrightarrow> hb_map h \<noteq> [] \<and> distinct (hb_deleted h) \<and> (\<forall>p \<in> set (hb_deleted h). p < length (hb_sessions h)) \<and>
     (\<forall>k p. um_find cn_equal cn_hash (hb_map h) k = Some p \<longrightarrow> p < length (hb_sessions h) \<and> p \<notin> set (hb_deleted h) \<and>
        (\<forall>k'. um_find cn_equal cn_hash (hb_map h) k' = Some p \<longrightarrow> cn_equal k k'))"

lemma table_okD:
  assumes "table_ok h"
  shows "hb_map h \<noteq> []" "distinct (hb_deleted h)" "p \<in> set (hb_deleted h) \<Longrightarrow> p < length (hb_sessions h)"
    "um_find cn_equal cn_hash (hb_map h) k = Some p \<Longrightarrow> p < length (hb_sessions h)"
    "um_find cn_equal cn_hash (hb_map h) k = Some p \<Longrightarrow> p \<notin> set (hb_deleted h)"
    "um_find cn_equal cn_hash (hb_map h) k = Some p \<Longrightarrow> um_find cn_equal cn_hash (hb_map h) k' = Some p \<Longrightarrow> cn_equal k k'"
  using assms by (auto simp: table_ok_def)

lemma table_new: "0 < n \<Longrightarrow> hb_map h = um_new n \<Longrightarrow> hb_deleted h = [] \<Longrightarrow> table_ok h"
  by (simp add: table_ok_def connection.find_new)

lemma create_table:
  assumes ok: "table_ok h" and new: "GetSession key h = (NeedNewSession, None)" and run: "CreateSession start key c h = (session, h')"
  shows "table_ok h'"
proof -
  note facts = table_okD [OF ok]
  have none: "um_find cn_equal cn_hash (hb_map h) key = None" using new by (simp add: GetSession_def split: option.splits)
  have h': "hb_map h' = um_set cn_equal cn_hash key (length (hb_sessions h)) (hb_map h)" "hb_deleted h' = hb_deleted h"
    "length (hb_sessions h') = Suc (length (hb_sessions h))"
    using run by (auto simp: CreateSession_def Let_def)
  note found = connection.find_set [OF facts(1), of key "length (hb_sessions h)", folded h'(1)]
  have old: "p < length (hb_sessions h)" if "um_find cn_equal cn_hash (hb_map h') k = Some p" "\<not> cn_equal key k" for k p
    using that found facts(4) by simp
  show ?thesis
    unfolding table_ok_def h'(2,3)
  proof (intro conjI allI impI ballI)
    show "hb_map h' \<noteq> []" using facts(1) by (simp add: h'(1))
    show "distinct (hb_deleted h)" by (rule facts(2))
    show "p < Suc (length (hb_sessions h))" if "p \<in> set (hb_deleted h)" for p using facts(3) [OF that] by simp
    fix k p
    assume k: "um_find cn_equal cn_hash (hb_map h') k = Some p"
    show "p < Suc (length (hb_sessions h))" "p \<notin> set (hb_deleted h)"
      using k found [of k] facts(3) [of p] facts(4,5) [of k p] by (auto split: if_splits)
    fix k'
    assume "um_find cn_equal cn_hash (hb_map h') k' = Some p"
    with k found show "cn_equal k k'"
      using old [of k p] old [of k' p] facts(6) [of k p k'] connection.eq_sym [of key k] connection.eq_trans [of k key k']
      by (auto split: if_splits)
  qed
qed

text \<open>An error takes the session out of the table, closes it and gives it to \<open>DeleteLater\<close>, and does nothing else to the table.\<close>

lemma error_result:
  assumes ok: "table_ok h" and found: "GetSession key h = (Ready, Some p)" and run: "report_error cc (Some p) key reason h = Some h'"
  shows "hb_map h' = um_erase cn_equal cn_hash key (hb_map h)" "hb_deleted h' = hb_deleted h @ [p]"
    "length (hb_sessions h') = length (hb_sessions h)" "um_find cn_equal cn_hash (hb_map h) key = Some p"
proof -
  show some: "um_find cn_equal cn_hash (hb_map h) key = Some p" using found by (simp add: GetSession_def split: option.splits)
  show "hb_map h' = um_erase cn_equal cn_hash key (hb_map h)" "hb_deleted h' = hb_deleted h @ [p]"
    "length (hb_sessions h') = length (hb_sessions h)"
    using run by (auto simp: report_error_def session_HandleError_def some session_Close_def session_at_def set_session_def Let_def split: bind_splits)
qed

lemma error_table:
  assumes ok: "table_ok h" and found: "GetSession key h = (Ready, Some p)" and run: "report_error cc (Some p) key reason h = Some h'"
  shows "table_ok h'"
proof -
  note facts = table_okD [OF ok] and h' = error_result [OF assms]
  note erased = connection.find_erase [OF facts(1), of key, folded h'(1)]
  have other: "p' \<noteq> p" if "um_find cn_equal cn_hash (hb_map h') k = Some p'" for k p'
    using that erased [of k] facts(6) [OF h'(4), of k] by (auto split: if_splits)
  have "hb_map h' \<noteq> []" "distinct (hb_deleted h')" "\<forall>q \<in> set (hb_deleted h'). q < length (hb_sessions h')"
    using facts(1,2,3,4) facts(5) [OF h'(4)] h' by auto
  moreover have "q < length (hb_sessions h')" "q \<notin> set (hb_deleted h')" "um_find cn_equal cn_hash (hb_map h') k' = Some q \<Longrightarrow> cn_equal k k'"
    if "um_find cn_equal cn_hash (hb_map h') k = Some q" for k k' q
    using that other [OF that] erased [of k] erased [of k'] facts(4,5) [of k q] facts(6) [of k q k'] by (auto simp: h'(2,3) split: if_splits)
  ultimately show ?thesis unfolding table_ok_def by blast
qed

lemma hub_runs_table: "hub_runs cc start h h' \<Longrightarrow> table_ok h \<Longrightarrow> table_ok h'"
proof (induction rule: hub_runs.induct)
  case (handlers h h1 h2)
  then show ?case by (simp add: table_ok_def)
qed (auto intro: create_table error_table)

section \<open>A table with two sessions\<close>

text \<open>A manager whose connections do nothing, after packets from two keys and an error on the first session.\<close>

definition quiet_connection :: "(unit, unit, unit, unit) connection_class" where
  "quiet_connection =
     \<lparr>cc_Message = \<lambda>_. empty_reader, cc_put_Message = \<lambda>_ c. c, cc_SendMessage = \<lambda>e g c w. Some (True, None, e, g, c, w),
      cc_Close = \<lambda>c w. Some (c, w)\<rparr>"

definition empty_hub :: "(unit, unit, unit, nat, unit) hub" where
  "empty_hub =
     \<lparr>hb_prng = \<lparr>pr_reseed = 0, pr_key = (), pr_entropy = []\<rparr>, hb_sessions = [], hb_map = um_new (Suc 6), hb_deleted = [], hb_world = ()\<rparr>"

definition two_sessions :: "(unit, unit, unit, nat, unit) hub" where
  "two_sessions = snd (CreateSession 0 (cn_new [] 2) () (snd (CreateSession 0 (cn_new [] 1) () empty_hub)))"

lemma two_sessions_run: "hub_runs quiet_connection 0 empty_hub two_sessions"
proof -
  let ?one = "snd (CreateSession 0 (cn_new [] 1) () empty_hub)"
  have "hub_runs quiet_connection 0 empty_hub ?one"
    by (rule hub_runs.create [OF hub_runs.at_start, of "cn_new [] 1" empty_hub 0 "()" "fst (CreateSession 0 (cn_new [] 1) () empty_hub)"])
      (code_simp | simp)+
  then show ?thesis unfolding two_sessions_def
    by (rule hub_runs.create [of _ _ _ ?one "cn_new [] 2" "()" "fst (CreateSession 0 (cn_new [] 2) () ?one)"]) (code_simp | simp)+
qed

section \<open>Properties\<close>

text \<open>C14. Whatever a manager that starts with an empty table goes through, a session that a key finds is an
  object that exists and was not given to \<open>DeleteLater\<close>, different keys find different sessions, and no
  session is deleted twice.\<close>

theorem sessions_found_are_live:
  assumes "hb_map h = um_new (Suc n)" "hb_deleted h = []" "hub_runs cc start h h'"
  shows "distinct (hb_deleted h') \<and>
    (\<forall>k p. GetSession k h' = (Ready, Some p) \<longrightarrow> p < length (hb_sessions h') \<and> p \<notin> set (hb_deleted h') \<and>
      (\<forall>k'. GetSession k' h' = (Ready, Some p) \<longrightarrow> cn_equal k k'))"
proof -
  have "table_ok h'" using hub_runs_table [OF assms(3)] table_new [OF _ assms(1,2)] by simp
  note facts = table_okD [OF this]
  have "GetSession k h' = (Ready, Some p) \<longleftrightarrow> um_find cn_equal cn_hash (hb_map h') k = Some p" for k p
    by (simp add: GetSession_def split: option.splits)
  with facts show ?thesis by blast
qed

text \<open>C15. An error that a transcoder reports for the session it found never makes the manager abort (the check
  that a session deletes itself and no other always passes): it takes this session out of the table and leaves
  every other key's session in it.\<close>

theorem error_removes_only_its_session:
  assumes "hb_map h = um_new (Suc n)" "hb_deleted h = []" "hub_runs cc start h h'" "GetSession key h' = (Ready, Some p)"
    and close: "\<And>c w. cc_Close cc c w \<noteq> None"
  shows "\<exists>h''. report_error cc (Some p) key reason h' = Some h'' \<and> GetSession key h'' = (NeedNewSession, None) \<and>
    hb_deleted h'' = hb_deleted h' @ [p] \<and> (\<forall>k. cn_equal key k \<or> GetSession k h'' = GetSession k h')"
proof -
  have ok: "table_ok h'" using hub_runs_table [OF assms(3)] table_new [OF _ assms(1,2)] by simp
  have some: "um_find cn_equal cn_hash (hb_map h') key = Some p" using assms(4) by (simp add: GetSession_def split: option.splits)
  obtain c w where "cc_Close cc (se_connection (session_at p h')) (hb_world h') = Some (c, w)"
    using close [of "se_connection (session_at p h')" "hb_world h'"] by auto
  then obtain h'' where run: "report_error cc (Some p) key reason h' = Some h''"
    by (auto simp: report_error_def session_HandleError_def some session_Close_def session_at_def)
  note r = error_result [OF ok assms(4) run]
  show ?thesis
    using run r connection.find_erase [OF table_okD(1) [OF ok], of key] connection.eq_refl [of key]
    by (intro exI [of _ h'']) (simp add: GetSession_def)
qed

theorem sessions_found_are_live_witness:
  "hb_map empty_hub = um_new (Suc 6) \<and> hb_deleted empty_hub = [] \<and> GetSession (cn_new [] 1) two_sessions = (Ready, Some 0) \<and>
     0 \<notin> set (hb_deleted two_sessions)"
proof -
  have "hb_map empty_hub = um_new (Suc 6)" "hb_deleted empty_hub = []" "GetSession (cn_new [] 1) two_sessions = (Ready, Some 0)"
    by code_simp+
  with sessions_found_are_live [OF _ _ two_sessions_run, of 6] show ?thesis by blast
qed

theorem error_removes_only_its_session_witness:
  "\<exists>h. report_error quiet_connection (Some 0) (cn_new [] 1) Decoding two_sessions = Some h \<and>
     GetSession (cn_new [] 1) h = (NeedNewSession, None) \<and> hb_deleted h = hb_deleted two_sessions @ [0] \<and>
     (\<forall>k. cn_equal (cn_new [] 1) k \<or> GetSession k h = GetSession k two_sessions)"
  by (rule error_removes_only_its_session [OF _ _ two_sessions_run, of 6]) (code_simp | simp add: quiet_connection_def)+

end
