(* ===== verification/LastChunk.thy ===== *)
theory LastChunk
  imports Serializers "HOL-Library.Sublist"
begin

text \<open>
  When all that a cursor has to read lies in the last chunk, it can be read in one piece. That is so after a
  read into room that was reserved, and stays so while the cursor moves on.
\<close>

definition last_data :: "chunkset \<Rightarrow> bytes" where
  "last_data s = (if cs_chunks s = [] then [] else ck_data (last (cs_chunks s)))"

definition in_last :: "reader \<Rightarrow> bool" where
  "in_last r \<longleftrightarrow> length (reader_contents r) \<le> length (last_data (fst r))"

section \<open>One piece\<close>

lemma chunks_suffix:
  assumes "oc_chunks s cur = Some cs" "cs \<noteq> []"
  shows "cs_chunks s \<noteq> []" "last cs = last (cs_chunks s)"
proof -
  obtain k where k: "cs = drop k (cs_chunks s)"
    using assms(1) by (auto simp: oc_chunks_def cs_after_def split: if_splits) (metis drop_0)
  with assms(2) show "cs_chunks s \<noteq> []" "last cs = last (cs_chunks s)" by auto
qed

lemma concat_longer_than_last: "cs \<noteq> [] \<Longrightarrow> length (ck_data (last cs)) \<le> length (concat (map ck_data cs))"
  by (induction cs rule: rev_induct) simp_all

text \<open>What is read in one go is then everything.\<close>

lemma in_one_piece:
  assumes r: "readable s cur others" and last: "in_last (s, cur)"
  shows "oc_data s cur = Some (unread s cur)" "oc_contiguous s cur = Some (length (unread s cur))"
proof -
  have "oc_data s cur = Some (unread s cur) \<and> oc_contiguous s cur = Some (length (unread s cur))"
  proof (rule cursor_facts [of s cur others])
    show "buf_inv s (cur # others)" using r by (simp add: readable_def)
  next
    fix cs
    assume cs: "oc_chunks s cur = Some cs" "unread s cur = drop (oc_offset cur) (ck_view cs)"
      "if cs = [] then oc_prev cur = 0 \<and> oc_offset cur = 0 else oc_offset cur \<le> ck_used (hd cs)"
      "gap_free (cs_chunks s) \<Longrightarrow> gap_free cs"
    then have gaps: "gap_free cs" using r by (simp add: readable_def)
    show ?thesis
    proof (cases cs)
      case Nil
      with cs show ?thesis by (simp add: oc_data_def oc_contiguous_def ck_view_def)
    next
      case (Cons c ds)
      then have "last cs = last (cs_chunks s)" "cs_chunks s \<noteq> []" using chunks_suffix [OF cs(1)] by simp_all
      with last have short: "length (unread s cur) \<le> length (ck_data (last (c # ds)))"
        by (simp add: in_last_def reader_contents_def last_data_def Cons)
      have off: "oc_offset cur \<le> ck_used c" using cs(3) Cons by simp
      show ?thesis
      proof (cases "oc_offset cur < ck_used c")
        case True
        have "ds = []"
        proof (rule ccontr)
          assume "ds \<noteq> []"
          with short True show False using concat_longer_than_last [of ds] by (simp add: cs(2) Cons ck_view_def)
        qed
        with True show ?thesis using cs(1,2) Cons by (simp add: oc_data_def oc_contiguous_def ck_view_def)
      next
        case False
        with off have off: "oc_offset cur = ck_used c" by simp
        show ?thesis
        proof (cases ds)
          case Nil
          with off cs(1,2) Cons show ?thesis by (simp add: oc_data_def oc_contiguous_def ck_view_def)
        next
          fix d es
          assume ds: "ds = d # es"
          have "es = []"
          proof (rule ccontr)
            assume "es \<noteq> []"
            moreover from this have "ck_data d \<noteq> []" using gaps Cons ds by (cases es) auto
            ultimately show False using short concat_longer_than_last [of es] by (cases "ck_data d") (simp_all add: cs(2) Cons ds off ck_view_def)
          qed
          with off cs(1,2) Cons ds show ?thesis by (simp add: oc_data_def oc_contiguous_def ck_view_def)
        qed
      qed
    qed
  qed
  then show "oc_data s cur = Some (unread s cur)" "oc_contiguous s cur = Some (length (unread s cur))" by simp_all
qed

section \<open>It stays so\<close>

text \<open>A cursor's move changes no data, but frees chunks at the front.\<close>

definition data_left :: "chunkset \<Rightarrow> chunkset \<Rightarrow> bool" where
  "data_left s s' \<longleftrightarrow> suffix (map ck_data (cs_chunks s')) (map ck_data (cs_chunks s))"

lemma data_left_refl [simp]: "data_left s s"
  by (simp add: data_left_def)

lemma data_left_trans: "data_left s s' \<Longrightarrow> data_left s' s'' \<Longrightarrow> data_left s s''"
  unfolding data_left_def by (rule suffix_order.trans)

lemma unreference_data_left: "cs_unreference s p = Some (q, s') \<Longrightarrow> data_left s s'"
proof -
  assume run: "cs_unreference s p = Some (q, s')"
  have same: "map ck_data ((cs_chunks s)[i := ck_reference (- 1) (cs_chunks s ! i)]) = map ck_data (cs_chunks s)" for i
    by (cases "i < length (cs_chunks s)") (auto intro!: nth_equalityI simp: nth_list_update ck_reference_def)
  then show ?thesis using run
    by (auto simp: cs_unreference_def data_left_def Let_def map_tl suffix_tl split: if_splits bind_splits)
qed

lemma move_data_left: "oc_move_next s cur = Some (s', cur') \<Longrightarrow> data_left s s'"
  by (auto simp: oc_move_next_def dest: unreference_data_left split: bind_splits option.splits)

lemma increment_loop_data_left: "oc_increment_loop s cur n = Some q \<Longrightarrow> data_left s (fst q)"
  by (erule oc_increment_loop.raw_induct [rotated])
    (auto split: bind_splits if_splits list.splits dest!: move_data_left intro: data_left_trans simp: Let_def)

lemma increment_data_left: "oc_increment s cur n = Some (s', cur') \<Longrightarrow> data_left s s'"
  by (auto simp: oc_increment_def dest: increment_loop_data_left split: bind_splits)

lemma copy_data_left: "oc_copy s cur = Some (s', cur') \<Longrightarrow> data_left s s'"
proof -
  assume run: "oc_copy s cur = Some (s', cur')"
  have data: "ck_data \<circ> ck_reference 1 = ck_data" by (simp add: fun_eq_iff ck_reference_def)
  have joined: "map ck_data (take i cs) @ map (ck_data \<circ> ck_reference 1) (drop i cs) = map ck_data cs" for i cs
    by (simp only: data flip: map_append) simp
  from run show ?thesis
    by (auto simp: oc_copy_def cs_reference_from_def data_left_def Let_def joined split: if_splits bind_splits) (simp add: data)
qed

lemma unreference_chain_data_left: "cs_unreference_chain s p = Some s' \<Longrightarrow> data_left s s'"
  by (erule cs_unreference_chain.raw_induct [rotated])
    (auto split: bind_splits option.splits dest!: unreference_data_left intro: data_left_trans)

lemma destroy_data_left: "oc_destroy s cur = Some s' \<Longrightarrow> data_left s s'"
  unfolding oc_destroy_def cs_unreference_from_def by (drule unreference_chain_data_left) (simp add: data_left_def)

lemma consume_loop_data_left: "oc_consume_loop s cur n acc = Some q \<Longrightarrow> data_left s (fst (snd q))"
  by (erule oc_consume_loop.raw_induct [rotated])
    (auto split: bind_splits if_splits dest!: increment_data_left intro: data_left_trans simp: Let_def)

lemma consume_data_left: "oc_consume s cur n = Some (bs, s', cur') \<Longrightarrow> data_left s s'"
  unfolding oc_consume_def by (drule consume_loop_data_left) simp

lemma in_last_left:
  assumes left: "data_left s s'" and inv: "cur_ok s' cur'" and short: "length (unread s' cur') \<le> length (last_data s)"
  shows "in_last (s', cur')"
proof (cases "cs_chunks s' = []")
  case True
  then have "unread s' cur' = []" using inv
    by (auto simp: unread_def cur_ok_def oc_chunks_def cs_after_def split: option.splits list.splits if_splits)
  then show ?thesis by (simp add: in_last_def reader_contents_def)
next
  case False
  then have "last (map ck_data (cs_chunks s')) = last (map ck_data (cs_chunks s))" "cs_chunks s \<noteq> []"
    using left by (auto simp: data_left_def suffix_def)
  with False short show ?thesis by (simp add: in_last_def reader_contents_def last_data_def last_map)
qed

lemma increment_in_last:
  assumes r: "readable s cur others" and n: "n \<le> length (unread s cur)" "within_limit cur n" and last: "in_last (s, cur)"
  obtains s' cur' where "oc_increment s cur n = Some (s', cur')" "advanced s cur others n s' cur'" "in_last (s', cur')"
proof -
  obtain s' cur' where run: "oc_increment s cur n = Some (s', cur')" "advanced s cur others n s' cur'"
    using increment_advances [OF r n] by blast
  have "in_last (s', cur')"
    by (rule in_last_left [OF increment_data_left [OF run(1)]])
      (use run(2) last in \<open>auto simp: advanced_def buf_inv_def in_last_def reader_contents_def\<close>)
  with run show thesis by (rule that)
qed

section \<open>It is so after a read\<close>

lemma commit_last: "ic_commit s bs = Some s' \<Longrightarrow> length bs \<le> length (last_data s')"
  by (auto simp: ic_commit_def last_data_def ck_write_def split: if_splits bind_splits)

lemma read_arrives:
  assumes tidy: "tidy others (s, cur)" and run: "ic_commit (ic_reserve s n) bs = Some s'" "bs \<noteq> []"
  shows "tidy others (s', cur)" "reader_contents (s', cur) = reader_contents (s, cur) @ bs" "length bs \<le> length (last_data s')"
proof -
  have t: "buf_inv s (cur # others)" "gap_free (cs_chunks s)" "cs_chunks s = [] \<or> ck_data (last (cs_chunks s)) \<noteq> []" "oc_limited cur = None"
    using tidy by (simp_all add: tidy_def)
  note reserve = reserve_grows [OF t(1), of n]
  have room: "length bs \<le> ic_contiguous (ic_reserve s n)" using run by (auto simp: ic_commit_def split: bind_splits)
  with run(2) have ne: "cs_chunks (ic_reserve s n) \<noteq> []" by (auto simp: ic_contiguous_def)
  have chain: "chain_inv (ic_reserve s n) (map oc_prev (cur # others))" using reserve(1) by (simp add: buf_inv_def)
  obtain s2 where c: "ic_commit (ic_reserve s n) bs = Some s2" "chain_inv s2 (map oc_prev (cur # others))" "grows (ic_reserve s n) bs s2"
    "gap_free (cs_chunks s2) = gap_free (cs_chunks (ic_reserve s n))" "cs_chunks s2 \<noteq> []"
    "ck_data (last (cs_chunks s2)) = ck_data (last (cs_chunks (ic_reserve s n))) @ bs"
    by (rule commit_grows [OF chain room ne])
  then have s2: "s2 = s'" using run(1) by simp
  have grows: "grows s bs s'" using grows_trans [OF reserve(2) c(3)] by (simp add: s2)
  have inv: "buf_inv s' (cur # others)" using buf_inv_grows [OF t(1) c(2) [unfolded s2] grows] .
  show "tidy others (s', cur)"
    using inv c(4-6) reserve(3) [OF t(2)] t(3,4) run(2) by (auto simp: tidy_def s2)
  show "reader_contents (s', cur) = reader_contents (s, cur) @ bs"
    using grows_cursor(2) [OF grows] t(1) by (simp add: reader_contents_def buf_inv_def)
  show "length bs \<le> length (last_data s')" by (rule commit_last [OF run(1)])
qed

text \<open>What was read into a buffer that had been emptied can be had in one piece.\<close>

lemma arrived_in_last: "reader_contents (s, cur) = bs \<Longrightarrow> length bs \<le> length (last_data s) \<Longrightarrow> in_last (s, cur)"
  by (simp add: in_last_def)

end
