(* ===== verification/Netlink.thy ===== *)
theory Netlink
  imports LastChunk IpManager SocketTransport
begin

text \<open>
  \<open>src/src/linux/netlink-interfaces.h\<close> and \<open>.cc\<close>: the messages that configure interfaces and routes, and the
  replies to them. The kernel's structures are the bytes they have in memory, the least significant byte of
  a number first; reading past what was received has no result.
\<close>

section \<open>The kernel's structures\<close>

definition host16 :: "u16 \<Rightarrow> bytes" where
  "host16 w = rev (be16 w)"

definition host32 :: "u32 \<Rightarrow> bytes" where
  "host32 w = rev (be32 w)"

definition peek16 :: "bytes \<Rightarrow> nat \<Rightarrow> u16 option" where
  "peek16 bs at = (case take 2 (drop at bs) of [a, b] \<Rightarrow> Some (of_be16 b a) | _ \<Rightarrow> None)"

definition peek32 :: "bytes \<Rightarrow> nat \<Rightarrow> u32 option" where
  "peek32 bs at = (case take 4 (drop at bs) of [a, b, c, d] \<Rightarrow> Some (of_be32 d c b a) | _ \<Rightarrow> None)"

definition NLMSG_ERROR :: u16 where "NLMSG_ERROR = 2"
definition NLMSG_DONE :: u16 where "NLMSG_DONE = 3"
definition RTM_NEWLINK :: u16 where "RTM_NEWLINK = 16"
definition RTM_NEWADDR :: u16 where "RTM_NEWADDR = 20"
definition RTM_DELADDR :: u16 where "RTM_DELADDR = 21"
definition RTM_NEWROUTE :: u16 where "RTM_NEWROUTE = 24"
definition RTM_DELROUTE :: u16 where "RTM_DELROUTE = 25"
definition RTM_GETROUTE :: u16 where "RTM_GETROUTE = 26"

definition NLM_F_REQUEST :: u16 where "NLM_F_REQUEST = 1"
definition NLM_F_ACK :: u16 where "NLM_F_ACK = 4"
definition NLM_F_DUMP :: u16 where "NLM_F_DUMP = 0x300"
definition NLM_F_REPLACE :: u16 where "NLM_F_REPLACE = 0x100"
definition NLM_F_EXCL :: u16 where "NLM_F_EXCL = 0x200"
definition NLM_F_CREATE :: u16 where "NLM_F_CREATE = 0x400"

definition IFLA_IFNAME :: u16 where "IFLA_IFNAME = 3"
definition IFA_LOCAL :: u16 where "IFA_LOCAL = 2"
definition RTA_DST :: u16 where "RTA_DST = 1"
definition RTA_OIF :: u16 where "RTA_OIF = 4"
definition RTA_GATEWAY :: u16 where "RTA_GATEWAY = 5"
definition RTA_PREFSRC :: u16 where "RTA_PREFSRC = 7"
definition RTA_METRICS :: u16 where "RTA_METRICS = 8"

lemmas netlink_numbers = NLMSG_ERROR_def NLMSG_DONE_def RTM_NEWROUTE_def RTA_DST_def RTA_OIF_def RTA_GATEWAY_def
  RTA_PREFSRC_def RTA_METRICS_def

definition RT_SCOPE_UNIVERSE :: byte where "RT_SCOPE_UNIVERSE = 0"
definition RT_SCOPE_LINK :: byte where "RT_SCOPE_LINK = 253"
definition RT_SCOPE_HOST :: byte where "RT_SCOPE_HOST = 254"
definition RT_TABLE_MAIN :: byte where "RT_TABLE_MAIN = 254"
definition RTPROT_BOOT :: byte where "RTPROT_BOOT = 3"
definition RTN_UNICAST :: byte where "RTN_UNICAST = 1"
definition IFF_UP :: u32 where "IFF_UP = 1"

text \<open>\<open>GetRaw\<close> and \<open>Family\<close> of an address, whose number is in network order.\<close>

fun ip_Raw :: "ip_address \<Rightarrow> bytes" where
  "ip_Raw (IPv4Address a) = be32 a"
| "ip_Raw (IPv6Address a b c d) = be32 a @ be32 b @ be32 c @ be32 d"

fun ip_family_byte :: "ip_address \<Rightarrow> byte" where
  "ip_family_byte (IPv4Address a) = af_inet"
| "ip_family_byte (IPv6Address a b c d) = af_inet6"

text \<open>\<open>struct ifinfomsg\<close>, \<open>struct ifaddrmsg\<close> and \<open>struct rtmsg\<close>, with the fields that are set.\<close>

definition ifinfomsg :: "u32 \<Rightarrow> u32 \<Rightarrow> bytes" where
  "ifinfomsg flags change = [0, 0, 0, 0, 0, 0, 0, 0] @ host32 flags @ host32 change"

definition ifaddrmsg :: "byte \<Rightarrow> byte \<Rightarrow> byte \<Rightarrow> u32 \<Rightarrow> bytes" where
  "ifaddrmsg family prefixlen scope index = [family, prefixlen, 0, scope] @ host32 index"

definition rtmsg :: "byte \<Rightarrow> byte \<Rightarrow> byte \<Rightarrow> byte \<Rightarrow> byte \<Rightarrow> byte \<Rightarrow> bytes" where
  "rtmsg family dst_len table protocol scope type = [family, dst_len, 0, 0, table, protocol, scope, type, 0, 0, 0, 0]"

section \<open>Messages\<close>

text \<open>A message: the fields of its \<open>nlmsghdr\<close>, and the bytes that its structure has after it.\<close>

record nl_message =
  nlmsg_len :: u32
  nlmsg_type :: u16
  nlmsg_flags :: u16
  nlmsg_seq :: u32
  nlmsg_pid :: u32
  nlmsg_rest :: bytes

definition nlmsghdr :: "nl_message \<Rightarrow> bytes" where
  "nlmsghdr m = host32 (nlmsg_len m) @ host16 (nlmsg_type m) @ host16 (nlmsg_flags m) @ host32 (nlmsg_seq m) @ host32 (nlmsg_pid m)"

text \<open>The \<open>nlmsg_len\<close> bytes that \<open>Send\<close> is to send.\<close>

definition nl_bytes :: "nl_message \<Rightarrow> bytes" where
  "nl_bytes m = take (unat (nlmsg_len m)) (nlmsghdr m @ nlmsg_rest m)"

definition rta_align :: "nat \<Rightarrow> nat" where
  "rta_align n = (n + 3) div 4 * 4"

definition nlmsg_align :: "u32 \<Rightarrow> u32" where
  "nlmsg_align n = (n + 3) AND NOT 3"

text \<open>The attribute is written at the end of the message; past the end of the structure there is no result.\<close>

definition AddAttribute :: "u16 \<Rightarrow> bytes \<Rightarrow> nl_message \<Rightarrow> nl_message option" where
  "AddAttribute attribute data m =
     (let at = unat (nlmsg_len m) - 16;
          rta = host16 (of_nat (4 + length data)) @ host16 attribute @ data
      in if length (nlmsg_rest m) < at + length rta then None
         else Some (m\<lparr>nlmsg_rest := take at (nlmsg_rest m) @ rta @ drop (at + length rta) (nlmsg_rest m),
                      nlmsg_len := nlmsg_len m + of_nat (rta_align (4 + length data))\<rparr>))"

text \<open>The size of a name is cut to 16 bits.\<close>

definition LinkMessage :: "u16 \<Rightarrow> u16 \<Rightarrow> u32 \<Rightarrow> u32 \<Rightarrow> bytes \<Rightarrow> u32 \<Rightarrow> u32 \<Rightarrow> nl_message option" where
  "LinkMessage type flags sequence pid ifname change ifflags =
     AddAttribute IFLA_IFNAME (take ((length ifname + 1) mod 2 ^ 16) (ifname @ [0]))
       \<lparr>nlmsg_len = 16 + 16, nlmsg_type = type, nlmsg_flags = flags, nlmsg_seq = sequence, nlmsg_pid = pid,
        nlmsg_rest = ifinfomsg ifflags change @ replicate 128 0\<rparr>"

definition IfAddrMessage :: "u16 \<Rightarrow> u16 \<Rightarrow> u32 \<Rightarrow> u32 \<Rightarrow> ip_address \<Rightarrow> u16 \<Rightarrow> u32 \<Rightarrow> nl_message option" where
  "IfAddrMessage type flags sequence pid address cidr index =
     AddAttribute IFA_LOCAL (ip_Raw address)
       \<lparr>nlmsg_len = 16 + 8, nlmsg_type = type, nlmsg_flags = flags, nlmsg_seq = sequence, nlmsg_pid = pid,
        nlmsg_rest = ifaddrmsg (ip_family_byte address) (ucast cidr) RT_SCOPE_HOST index @ replicate 128 0\<rparr>"

definition DumpRoutesMessage :: "u16 \<Rightarrow> u16 \<Rightarrow> u32 \<Rightarrow> u32 \<Rightarrow> nl_message" where
  "DumpRoutesMessage type flags sequence pid =
     \<lparr>nlmsg_len = 16 + 12, nlmsg_type = type, nlmsg_flags = flags, nlmsg_seq = sequence, nlmsg_pid = pid,
      nlmsg_rest = replicate 12 0\<rparr>"

definition SetRoutesMessage ::
    "u16 \<Rightarrow> u16 \<Rightarrow> u32 \<Rightarrow> u32 \<Rightarrow> ip_address \<Rightarrow> u16 \<Rightarrow> ip_address option \<Rightarrow> ip_address option \<Rightarrow> u32 \<Rightarrow> nl_message option" where
  "SetRoutesMessage type flags sequence pid network cidr gateway source index = do {
     let scope = (if gateway = None then RT_SCOPE_LINK else RT_SCOPE_UNIVERSE);
     let m = \<lparr>nlmsg_len = 16 + 12, nlmsg_type = type, nlmsg_flags = flags, nlmsg_seq = sequence, nlmsg_pid = pid,
        nlmsg_rest = rtmsg (ip_family_byte network) (ucast cidr) RT_TABLE_MAIN RTPROT_BOOT scope RTN_UNICAST @ replicate 128 0\<rparr>;
     m \<leftarrow> AddAttribute RTA_DST (ip_Raw network) m;
     m \<leftarrow> AddAttribute RTA_OIF (host32 index) m;
     m \<leftarrow> (case gateway of
        None \<Rightarrow> Some m
      | Some g \<Rightarrow> do {
          fatal_unless (ip_family_byte g = ip_family_byte network);
          AddAttribute RTA_GATEWAY (ip_Raw g) m
        });
     (case source of None \<Rightarrow> Some m | Some s \<Rightarrow> AddAttribute RTA_PREFSRC (ip_Raw s) m)
   }"

section \<open>Replies\<close>

datatype parsing_result = Reply_OK | Reply_MORE | Reply_ERROR

record routing_entry =
  re_source :: "ip_address option"
  re_destination :: ip_range
  re_gateway :: "ip_address option"
  re_interface :: u32
  re_metric :: int

definition RoutingEntry_new :: routing_entry where
  "RoutingEntry_new = \<lparr>re_source = None, re_destination = IPRange_new, re_gateway = None, re_interface = 0, re_metric = 0\<rparr>"

text \<open>
  \<open>bs\<close> is what can be read at the header. \<open>nlmsg_len - sizeof(nlmsghdr)\<close> is a \<open>size_t\<close>, which is very large when
  it would be negative.
\<close>

definition ParseErrorHeader :: "bytes \<Rightarrow> parsing_result option" where
  "ParseErrorHeader bs = do {
     len \<leftarrow> peek32 bs 0;
     type \<leftarrow> peek16 bs 4;
     fatal_unless (type = NLMSG_ERROR);
     (if 16 \<le> len \<and> len - 16 < 20 then Some Reply_ERROR
      else do {
        error \<leftarrow> peek32 bs 16;
        Some (if error \<noteq> 0 then Reply_ERROR else Reply_OK)
      })
   }"

definition ParseIPAddress :: "byte \<Rightarrow> bytes \<Rightarrow> nat \<Rightarrow> ip_address option option" where
  "ParseIPAddress family bs at =
     (if family = af_inet then
        (case take 4 (drop at bs) of [a, b, c, d] \<Rightarrow> Some (Some (IPv4Address (of_be32 a b c d))) | _ \<Rightarrow> None)
      else if family = af_inet6 then
        (case take 16 (drop at bs) of
           [a, b, c, d, e, f, g, h, i, j, k, l, m, n, p, q] \<Rightarrow>
             Some (Some (IPv6Address (of_be32 a b c d) (of_be32 e f g h) (of_be32 i j k l) (of_be32 m n p q)))
         | _ \<Rightarrow> None)
      else Some None)"

text \<open>One attribute, whose data is at \<open>at\<close>. \<open>Parse\<close> may have no result: 1 is shifted by 32 bits for an IPv4 prefix of no bits.\<close>

definition parse_attribute :: "byte \<Rightarrow> byte \<Rightarrow> u16 \<Rightarrow> bytes \<Rightarrow> nat \<Rightarrow> routing_entry \<Rightarrow> routing_entry option" where
  "parse_attribute family dst_len type bs at e =
     (if type = RTA_DST then do {
        address \<leftarrow> ParseIPAddress family bs at;
        (case address of
           None \<Rightarrow> Some e
         | Some a \<Rightarrow> do {
             (_, r) \<leftarrow> IPRange_set a (uint dst_len) (re_destination e);
             Some (e\<lparr>re_destination := r\<rparr>)
           })
      }
      else if type = RTA_PREFSRC then do { address \<leftarrow> ParseIPAddress family bs at; Some (e\<lparr>re_source := address\<rparr>) }
      else if type = RTA_GATEWAY then do { address \<leftarrow> ParseIPAddress family bs at; Some (e\<lparr>re_gateway := address\<rparr>) }
      else if type = RTA_OIF then do { index \<leftarrow> peek32 bs at; Some (e\<lparr>re_interface := index\<rparr>) }
      else if type = RTA_METRICS then do { metric \<leftarrow> peek32 bs at; Some (e\<lparr>re_metric := sint metric\<rparr>) }
      else Some e)"

lemma rta_align_le: "n \<le> rta_align n"
  by (simp add: rta_align_def)

text \<open>\<open>RTA_OK\<close> and \<open>RTA_NEXT\<close>: \<open>left\<close>, an int, gets smaller in each round.\<close>

function parse_attributes :: "byte \<Rightarrow> byte \<Rightarrow> bytes \<Rightarrow> nat \<Rightarrow> int \<Rightarrow> routing_entry \<Rightarrow> routing_entry option" where
  "parse_attributes family dst_len bs at left e =
     (if left < 4 then Some e
      else case peek16 bs at of
        None \<Rightarrow> None
      | Some rta_len \<Rightarrow>
          (if rta_len < 4 \<or> left < uint rta_len then Some e
           else case peek16 bs (at + 2) of
             None \<Rightarrow> None
           | Some type \<Rightarrow>
               (case parse_attribute family dst_len type bs (at + 4) e of
                  None \<Rightarrow> None
                | Some e \<Rightarrow> parse_attributes family dst_len bs (at + rta_align (unat rta_len)) (left - int (rta_align (unat rta_len))) e)))"
  by pat_completeness auto

termination
proof (relation "measure (\<lambda>(family, dst_len, bs, at, left, e). nat left)", goal_cases)
  case (2 family dst_len bs at left e rta_len type e')
  then have "4 \<le> unat rta_len" by (simp add: word_less_nat_alt not_less)
  then have "0 < rta_align (unat rta_len)" using rta_align_le [of "unat rta_len"] by simp
  with 2 show ?case by simp
qed simp

declare parse_attributes.simps [simp del]

text \<open>
  A route without destination is the one for all addresses of its gateway's family. The fields of \<open>rtmsg\<close> are
  only read where an attribute follows them.
\<close>

definition AddRoutingEntry ::
    "(bytes \<Rightarrow> ip_address option) \<Rightarrow> (bytes \<Rightarrow> ip_address option) \<Rightarrow> bytes \<Rightarrow> routing_entry list \<Rightarrow> routing_entry list option" where
  "AddRoutingEntry pton4 pton6 bs entries = do {
     len \<leftarrow> peek32 bs 0;
     let (family, dst_len) = (case take 2 (drop 16 bs) of [family, dst_len] \<Rightarrow> (family, dst_len) | _ \<Rightarrow> (0, 0));
     entry \<leftarrow> parse_attributes family dst_len bs 28 (sint (len - 28)) RoutingEntry_new;
     entry \<leftarrow> (case re_gateway entry of
        None \<Rightarrow> Some entry
      | Some g \<Rightarrow>
          (if IPRange_IsInitialized (re_destination entry) then Some entry
           else do {
             (_, r) \<leftarrow> IPRange_Parse pton4 pton6 (str (if ip_Family g = AF_INET then ''0.0.0.0/0'' else ''::/0'')) (re_destination entry);
             Some (entry\<lparr>re_destination := r\<rparr>)
           }));
     Some (entries @ [entry])
   }"

text \<open>
  The loop over the messages of a reply. \<open>nlmsg_len\<close> is looked at first when there is more than what can be
  read in one go. A message of length 0 makes it loop for ever.
\<close>

partial_function (option) reply_loop ::
    "(bytes \<Rightarrow> parsing_result \<times> 'e \<Rightarrow> (parsing_result \<times> 'e) option) \<Rightarrow> reader \<Rightarrow> parsing_result \<times> 'e \<Rightarrow>
     ((parsing_result \<times> 'e) \<times> reader) option" where
  "reply_loop handle r status = do {
     here \<leftarrow> oc_contiguous (fst r) (snd r);
     (if here = 0 then Some (status, r)
      else do {
        left \<leftarrow> oc_left (fst r) (snd r);
        bs \<leftarrow> oc_data (fst r) (snd r);
        let bs = take here bs;
        broken \<leftarrow> (if here < left then
            (if here < 16 then Some True else do { len \<leftarrow> peek32 bs 0; Some (here < unat (nlmsg_align len)) })
          else Some False);
        fatal_unless (\<not> broken);
        status \<leftarrow> handle bs status;
        len \<leftarrow> peek32 bs 0;
        r \<leftarrow> oc_increment (fst r) (snd r) (unat (nlmsg_align len));
        reply_loop handle r status
      })
   }"

definition reply_step :: "bytes \<Rightarrow> parsing_result \<times> unit \<Rightarrow> (parsing_result \<times> unit) option" where
  "reply_step bs st = do {
     type \<leftarrow> peek16 bs 4;
     (if type = NLMSG_ERROR then do { status \<leftarrow> ParseErrorHeader bs; Some (status, ()) }
      else if type = NLMSG_DONE then Some (if fst st = Reply_MORE then Reply_OK else fst st, ())
      else Some st)
   }"

definition ParseReply :: "reader \<Rightarrow> unit \<Rightarrow> ((parsing_result \<times> unit) \<times> reader) option" where
  "ParseReply r u = reply_loop reply_step r (Reply_MORE, u)"

definition dump_step ::
    "(bytes \<Rightarrow> ip_address option) \<Rightarrow> (bytes \<Rightarrow> ip_address option) \<Rightarrow> bytes \<Rightarrow> parsing_result \<times> routing_entry list \<Rightarrow>
     (parsing_result \<times> routing_entry list) option" where
  "dump_step pton4 pton6 bs st = do {
     type \<leftarrow> peek16 bs 4;
     (if type = NLMSG_ERROR then do { status \<leftarrow> ParseErrorHeader bs; Some (status, snd st) }
      else if type = NLMSG_DONE then Some (if fst st = Reply_MORE then Reply_OK else fst st, snd st)
      else if type = RTM_NEWROUTE then do { entries \<leftarrow> AddRoutingEntry pton4 pton6 bs (snd st); Some (fst st, entries) }
      else Some st)
   }"

definition DumpRoutes_ParseReply ::
    "(bytes \<Rightarrow> ip_address option) \<Rightarrow> (bytes \<Rightarrow> ip_address option) \<Rightarrow> reader \<Rightarrow> routing_entry list \<Rightarrow>
     ((parsing_result \<times> routing_entry list) \<times> reader) option" where
  "DumpRoutes_ParseReply pton4 pton6 r entries = reply_loop (dump_step pton4 pton6) r (Reply_MORE, entries)"

section \<open>The socket\<close>

text \<open>
  \<open>nl_fd\<close> and \<open>nl_seq\<close> are the object's fields. The rest is the system: the process, what the calls will answer
  (\<open>send\<close> with the number of bytes or -1), the indexes of the interfaces, and what was sent.
\<close>

record netlink =
  nl_fd :: int
  nl_seq :: int
  nl_pid :: u32
  nl_socket :: "int list"
  nl_send :: "int list"
  nl_recv :: "(errno + bytes) list"
  nl_index :: "bytes \<Rightarrow> u32"
  nl_sent :: "bytes list"

definition GetSeq :: "netlink \<Rightarrow> (u32 \<times> netlink) option" where
  "GetSeq nl = do {
     sequence \<leftarrow> increment (nl_seq nl);
     Some (of_int sequence, nl\<lparr>nl_seq := sequence\<rparr>)
   }"

definition nl_Init :: "netlink \<Rightarrow> (bool \<times> netlink) option" where
  "nl_Init nl =
     (if 0 \<le> nl_fd nl then Some (True, nl)
      else do {
        (fd, answers) \<leftarrow> answer (nl_socket nl);
        Some (0 \<le> fd, nl\<lparr>nl_fd := fd, nl_socket := answers\<rparr>)
      })"

text \<open>The number of bytes is returned as a truth value, so that -1 is true.\<close>

definition nl_Send :: "nl_message \<Rightarrow> netlink \<Rightarrow> (bool \<times> netlink) option" where
  "nl_Send m nl = do {
     (nsent, answers) \<leftarrow> answer (nl_send nl);
     Some (nsent \<noteq> 0, nl\<lparr>nl_send := answers, nl_sent := nl_sent nl @ [nl_bytes m]\<rparr>)
   }"

text \<open>\<open>recv\<close> gives as much of a reply as there is room for; a reply that fills the room is taken to have more behind it.\<close>

fun recv_loop :: "(errno + bytes) list \<Rightarrow> chunkset \<Rightarrow> (bool \<times> chunkset \<times> (errno + bytes) list) option" where
  "recv_loop [] s = None"
| "recv_loop (a # as) s =
     (let s = ic_reserve s 4096
      in case a of
           Inl e \<Rightarrow> (if e \<noteq> EAGAIN then Some (False, s, as) else recv_loop as s)
         | Inr reply \<Rightarrow>
             (let bs = take (ic_contiguous s) reply
              in if length bs < ic_contiguous s then do { s \<leftarrow> ic_commit s bs; Some (True, s, as) }
                 else do { s \<leftarrow> ic_commit s bs; recv_loop as s }))"

definition nl_Recv :: "chunkset \<Rightarrow> netlink \<Rightarrow> (bool \<times> chunkset \<times> netlink) option" where
  "nl_Recv s nl = do {
     (ok, s, answers) \<leftarrow> recv_loop (nl_recv nl) s;
     Some (ok, s, nl\<lparr>nl_recv := answers\<rparr>)
   }"

partial_function (option) chat_loop ::
    "(reader \<Rightarrow> 'e \<Rightarrow> ((parsing_result \<times> 'e) \<times> reader) option) \<Rightarrow> reader \<Rightarrow> 'e \<Rightarrow> netlink \<Rightarrow> (bool \<times> 'e \<times> netlink) option" where
  "chat_loop parse r e nl = do {
     (ok, s, nl) \<leftarrow> nl_Recv (fst r) nl;
     (if \<not> ok then Some (False, e, nl)
      else do {
        ((result, e), r) \<leftarrow> parse (s, snd r) e;
        (if result = Reply_OK then Some (True, e, nl)
         else if result \<noteq> Reply_MORE then Some (False, e, nl)
         else chat_loop parse r e nl)
      })
   }"

definition Chat ::
    "(reader \<Rightarrow> 'e \<Rightarrow> ((parsing_result \<times> 'e) \<times> reader) option) \<Rightarrow> nl_message \<Rightarrow> 'e \<Rightarrow> netlink \<Rightarrow> (bool \<times> 'e \<times> netlink) option" where
  "Chat parse m e nl = do {
     (ok, nl) \<leftarrow> nl_Init nl;
     (if \<not> ok then Some (False, e, nl)
      else do {
        (sent, nl) \<leftarrow> nl_Send m nl;
        (if \<not> sent then Some (False, e, nl)
         else do {
           buffer \<leftarrow> new_buffer;
           chat_loop parse buffer e nl
         })
      })
   }"

definition confirm :: "nl_message option \<Rightarrow> netlink \<Rightarrow> (bool \<times> netlink) option" where
  "confirm message nl = do {
     m \<leftarrow> message;
     (ok, _, nl) \<leftarrow> Chat ParseReply m () nl;
     Some (ok, nl)
   }"

section \<open>Routes and interfaces\<close>

definition GetRoutes ::
    "(bytes \<Rightarrow> ip_address option) \<Rightarrow> (bytes \<Rightarrow> ip_address option) \<Rightarrow> routing_entry list \<Rightarrow> netlink \<Rightarrow>
     (bool \<times> routing_entry list \<times> netlink) option" where
  "GetRoutes pton4 pton6 entries nl = do {
     (sequence, nl) \<leftarrow> GetSeq nl;
     let m = DumpRoutesMessage RTM_GETROUTE (NLM_F_REQUEST OR NLM_F_DUMP) sequence (nl_pid nl);
     (ok, found, nl) \<leftarrow> Chat (DumpRoutes_ParseReply pton4 pton6) m [] nl;
     Some (ok, if ok then found else entries, nl)
   }"

definition AddRoute ::
    "ip_address \<Rightarrow> u16 \<Rightarrow> ip_address option \<Rightarrow> ip_address option \<Rightarrow> u32 \<Rightarrow> netlink \<Rightarrow> (bool \<times> netlink) option" where
  "AddRoute network cidr gateway source index nl = do {
     (sequence, nl) \<leftarrow> GetSeq nl;
     confirm (SetRoutesMessage RTM_NEWROUTE (NLM_F_ACK OR NLM_F_REQUEST OR NLM_F_CREATE OR NLM_F_REPLACE) sequence (nl_pid nl)
       network cidr gateway source index) nl
   }"

definition DelRoute ::
    "ip_address \<Rightarrow> u16 \<Rightarrow> ip_address option \<Rightarrow> ip_address option \<Rightarrow> u32 \<Rightarrow> netlink \<Rightarrow> (bool \<times> netlink) option" where
  "DelRoute network cidr gateway source index nl = do {
     (sequence, nl) \<leftarrow> GetSeq nl;
     confirm (SetRoutesMessage RTM_DELROUTE (NLM_F_ACK OR NLM_F_REQUEST OR NLM_F_CREATE OR NLM_F_REPLACE) sequence (nl_pid nl)
       network cidr gateway source index) nl
   }"

record interface =
  if_name :: bytes
  if_index :: u32

definition Enable :: "interface \<Rightarrow> netlink \<Rightarrow> (bool \<times> netlink) option" where
  "Enable i nl = do {
     (sequence, nl) \<leftarrow> GetSeq nl;
     confirm (LinkMessage RTM_NEWLINK (NLM_F_REQUEST OR NLM_F_ACK) sequence (nl_pid nl) (if_name i) IFF_UP IFF_UP) nl
   }"

definition Disable :: "interface \<Rightarrow> netlink \<Rightarrow> (bool \<times> netlink) option" where
  "Disable i nl = do {
     (sequence, nl) \<leftarrow> GetSeq nl;
     confirm (LinkMessage RTM_NEWLINK (NLM_F_REQUEST OR NLM_F_ACK) sequence (nl_pid nl) (if_name i) IFF_UP 0) nl
   }"

definition AddAddress :: "interface \<Rightarrow> ip_address \<Rightarrow> u16 \<Rightarrow> netlink \<Rightarrow> (bool \<times> netlink) option" where
  "AddAddress i address cidr nl = do {
     (sequence, nl) \<leftarrow> GetSeq nl;
     confirm (IfAddrMessage RTM_NEWADDR (NLM_F_REQUEST OR NLM_F_CREATE OR NLM_F_ACK OR NLM_F_EXCL) sequence (nl_pid nl)
       address cidr (if_index i)) nl
   }"

definition DelAddress :: "interface \<Rightarrow> ip_address \<Rightarrow> u16 \<Rightarrow> netlink \<Rightarrow> (bool \<times> netlink) option" where
  "DelAddress i address cidr nl = do {
     (sequence, nl) \<leftarrow> GetSeq nl;
     confirm (IfAddrMessage RTM_DELADDR (NLM_F_REQUEST OR NLM_F_ACK) sequence (nl_pid nl) address cidr (if_index i)) nl
   }"

definition GetInterface :: "bytes \<Rightarrow> netlink \<Rightarrow> interface option" where
  "GetInterface name nl = (if nl_index nl name = 0 then None else Some \<lparr>if_name = name, if_index = nl_index nl name\<rparr>)"

end
