(* ===== verification/Tunnels.thy ===== *)
theory Tunnels
  imports Netlink UdpTranscoders
begin

text \<open>
  \<open>src/src/tun-tap-common.h\<close>, \<open>.cc\<close>, \<open>tun-tap-server-channel.h\<close>, \<open>.cc\<close> and \<open>tun-tap-client-channel.h\<close>, \<open>.cc\<close>: what happens
  once a user has logged in. Each side opens a tunnel device and carries packets between it and the
  session; the server first sends the two addresses of the tunnel.

  The devices, the netlink socket and the tunnels are part of the host, as the sockets and the dispatcher
  are. The host is some part of what a transcoder keeps: \<open>pa_get\<close> and \<open>pa_put\<close> say where.
\<close>

section \<open>The host\<close>

text \<open>What the system calls for the device will answer, the modes that were asked for, and what was written.\<close>

record tunnel_kernel =
  tk_open :: "int list"
  tk_ioctl :: "bytes option list"
  tk_read :: "(errno + bytes) list"
  tk_writev :: "(errno + nat) list"
  tk_modes :: "(int \<times> u16) list"
  tk_written :: "(int \<times> bytes) list"

text \<open>The \<open>Session\<close> of a channel with its \<open>TunTapDevice\<close>.\<close>

record tunnel =
  tu_session :: nat
  tu_queue :: packet_queue
  tu_fd :: int
  tu_device :: bytes
  tu_address :: "ip_address option"
  tu_interface :: "interface option"

record 'c host = "'c net" +
  ho_tunnels :: "tunnel list"
  ho_kernel :: tunnel_kernel
  ho_netlink :: netlink

record ('w, 'n) part =
  pa_get :: "'w \<Rightarrow> 'n"
  pa_put :: "'n \<Rightarrow> 'w \<Rightarrow> 'w"

definition set_tunnel :: "nat \<Rightarrow> tunnel \<Rightarrow> ('c, 'e) host_scheme \<Rightarrow> ('c, 'e) host_scheme" where
  "set_tunnel t tu n = n\<lparr>ho_tunnels := (ho_tunnels n)[t := tu]\<rparr>"

definition Tunnel_new :: "nat \<Rightarrow> tunnel" where
  "Tunnel_new session = \<lparr>tu_session = session, tu_queue = PacketQueue_new, tu_fd = - 1, tu_device = [], tu_address = None, tu_interface = None\<rparr>"

section \<open>The device\<close>

definition IFF_TUN :: u16 where "IFF_TUN = 1"
definition IFF_TAP :: u16 where "IFF_TAP = 2"
definition IFF_NO_PI :: u16 where "IFF_NO_PI = 0x1000"

definition tun_Open :: "u16 \<Rightarrow> tunnel \<Rightarrow> ('c, 'e) host_scheme \<Rightarrow> (bool \<times> tunnel \<times> ('c, 'e) host_scheme) option" where
  "tun_Open type tu n = do {
     (fd, answers) \<leftarrow> answer (tk_open (ho_kernel n));
     let n = n\<lparr>ho_kernel := (ho_kernel n)\<lparr>tk_open := answers\<rparr>\<rparr>;
     let tu = tu\<lparr>tu_fd := fd\<rparr>;
     (if fd < 0 then Some (False, tu, n)
      else do {
        (name, answers) \<leftarrow> answer (tk_ioctl (ho_kernel n));
        let n = n\<lparr>ho_kernel := (ho_kernel n)\<lparr>tk_ioctl := answers, tk_modes := tk_modes (ho_kernel n) @ [(fd, type OR IFF_NO_PI)]\<rparr>\<rparr>;
        (case name of
           None \<Rightarrow> Some (False, tu, close_fd fd n)
         | Some name \<Rightarrow> Some (True, tu\<lparr>tu_device := name\<rparr>, n))
      })
   }"

definition tun_Close :: "tunnel \<Rightarrow> ('c, 'e) host_scheme \<Rightarrow> ('c, 'e) host_scheme" where
  "tun_Close tu n = close_fd (tu_fd tu) n"

definition tun_destroy :: "tunnel \<Rightarrow> ('c, 'e) host_scheme \<Rightarrow> ('c, 'e) host_scheme" where
  "tun_destroy tu n = (if 0 < tu_fd tu then tun_Close tu n else n)"

text \<open>\<open>read\<close> gives one packet, cut to the room there is.\<close>

definition tun_Read :: "reader \<Rightarrow> nat \<Rightarrow> ('c, 'e) host_scheme \<Rightarrow> (bool \<times> reader \<times> ('c, 'e) host_scheme) option" where
  "tun_Read r max_size n = do {
     let s = ic_reserve (fst r) max_size;
     (received, answers) \<leftarrow> retry (tk_read (ho_kernel n));
     let n = n\<lparr>ho_kernel := (ho_kernel n)\<lparr>tk_read := answers\<rparr>\<rparr>;
     (case received of
        Inl e \<Rightarrow> Some (False, (s, snd r), n)
      | Inr packet \<Rightarrow> do {
          s \<leftarrow> ic_commit s (take (ic_contiguous s) packet);
          Some (True, (s, snd r), n)
        })
   }"

text \<open>\<open>writev\<close> takes a number of the bytes of the vector; a packet that it took a part of is not written again.\<close>

definition tun_Write :: "tunnel \<Rightarrow> reader \<Rightarrow> ('c, 'e) host_scheme \<Rightarrow> (bool \<times> reader \<times> ('c, 'e) host_scheme) option" where
  "tun_Write tu r n = do {
     (vect, towrite) \<leftarrow> oc_iovec (fst r) (snd r);
     (sent, answers) \<leftarrow> retry (tk_writev (ho_kernel n));
     let n = n\<lparr>ho_kernel := (ho_kernel n)\<lparr>tk_writev := answers\<rparr>\<rparr>;
     (case sent of
        Inl e \<Rightarrow> Some (False, r, n)
      | Inr k \<Rightarrow> do {
          let n = n\<lparr>ho_kernel := (ho_kernel n)\<lparr>tk_written := tk_written (ho_kernel n) @ [(tu_fd tu, take k (concat vect))]\<rparr>\<rparr>;
          r \<leftarrow> oc_increment (fst r) (snd r) towrite;
          Some (True, r, n)
        })
   }"

section \<open>Packets between the session and the device\<close>

text \<open>The two channels repeat each other's text for these three callbacks.\<close>

definition TunTapWriteCallback :: "nat \<Rightarrow> ('c, 'e) host_scheme \<Rightarrow> ('c, 'e) host_scheme option" where
  "TunTapWriteCallback t n = do {
     let tu = ho_tunnels n ! t;
     (ok, tu, n) \<leftarrow> (if Pending (tu_queue tu) = 0 then Some (True, tu, n)
       else do {
         b \<leftarrow> ToSend (tu_queue tu);
         (ok, _, n) \<leftarrow> tun_Write tu b n;
         (if \<not> ok then Some (False, tu, n)
          else do { q \<leftarrow> Sent (tu_queue tu); Some (True, tu\<lparr>tu_queue := q\<rparr>, n) })
       });
     let n = set_tunnel t tu n;
     (if ok \<and> Pending (tu_queue tu) = 0 then dispatch (SetFd (tu_fd tu) EV_NONE EV_WRITE None None) n else Some n)
   }"

definition PacketCallback :: "nat \<Rightarrow> reader \<Rightarrow> ('c, 'e) host_scheme \<Rightarrow> (reader \<times> ('c, 'e) host_scheme) option" where
  "PacketCallback t cursor n = do {
     let tu = ho_tunnels n ! t;
     (b, q) \<leftarrow> ToQueue (tu_queue tu);
     (_, s, cur, d) \<leftarrow> encode_cursor (fst cursor) (snd cursor) (fst b);
     q \<leftarrow> Queued (q\<lparr>pq_to_queue := Some (d, snd b)\<rparr>);
     let n = set_tunnel t (tu\<lparr>tu_queue := q\<rparr>) n;
     n \<leftarrow> (if Pending q = 1 then dispatch (SetFd (tu_fd tu) EV_WRITE EV_NONE None (Some (Tunnel_write_handler t))) n else Some n);
     Some ((s, cur), n)
   }"

definition tunnel_packet_size :: nat where "tunnel_packet_size = 4096"

definition set_part :: "('w, 'n) part \<Rightarrow> 'n \<Rightarrow> ('x, 'k, 'c, 'h, 'w, 'e) hub_scheme \<Rightarrow> ('x, 'k, 'c, 'h, 'w, 'e) hub_scheme" where
  "set_part pa n h = h\<lparr>hb_world := pa_put pa n (hb_world h)\<rparr>"

definition TunTapReadCallback ::
    "('w, ('b, 'z) host_scheme) part \<Rightarrow> ('x, 'k) crypto \<Rightarrow> ('x, 'k, 'c, 'w) connection_class \<Rightarrow> nat \<Rightarrow>
     ('x, 'k, 'c, 'h, 'w, 'e) hub_scheme \<Rightarrow> ('x, 'k, 'c, 'h, 'w, 'e) hub_scheme option" where
  "TunTapReadCallback pa cr cc t h = do {
     let n = pa_get pa (hb_world h);
     let p = tu_session (ho_tunnels n ! t);
     (ok, message, n) \<leftarrow> tun_Read (Message cc p h) tunnel_packet_size n;
     let h = put_Message cc p message (set_part pa n h);
     (if \<not> ok then Some h
      else do {
        (_, h) \<leftarrow> SendMessage cr cc p h;
        Some h
      })
   }"

section \<open>The settings of a tunnel\<close>

definition USE_TAP :: byte where "USE_TAP = push_bit 0 1"

definition encode_setting :: "bytes \<times> bytes \<Rightarrow> reader \<Rightarrow> (bool \<times> reader) option" where
  "encode_setting x r = do { r \<leftarrow> encode_pair (encode_string reader_add) (encode_string reader_add) x r; Some (True, r) }"

definition decode_settings :: "reader \<Rightarrow> ((bytes \<times> bytes) list, reader) decoded" where
  "decode_settings r = decode_vector reader_consume (decode_pair (decode_string reader_consume) (decode_string reader_consume)) r"

definition SERVER_ADDRESS :: bytes where "SERVER_ADDRESS = str ''SERVER_ADDRESS''"
definition CLIENT_ADDRESS :: bytes where "CLIENT_ADDRESS = str ''CLIENT_ADDRESS''"

section \<open>The server's channel\<close>

record 'c tunnel_server = "'c host" +
  ts_range :: ip_range
  ts_manager :: "ip_manager option"
  ts_local :: "ip_address option"

definition TunTapServer_Init ::
    "(bytes \<Rightarrow> ip_address option) \<Rightarrow> (bytes \<Rightarrow> ip_address option) \<Rightarrow> 'c tunnel_server \<Rightarrow> (bool \<times> 'c tunnel_server) option" where
  "TunTapServer_Init pton4 pton6 n = do {
     (ok, entries, nl) \<leftarrow> GetRoutes pton4 pton6 [] (ho_netlink n);
     let n = n\<lparr>ho_netlink := nl\<rparr>;
     (found, range) \<leftarrow> FindUsableRange pton4 pton6 (if ok then Some (map re_destination entries) else None) (ts_range n);
     let n = n\<lparr>ts_range := range\<rparr>;
     (if \<not> found then Some (False, n)
      else do {
        (address, manager) \<leftarrow> AllocateIP (IPManager_new range);
        Some (address \<noteq> None, n\<lparr>ts_manager := Some manager, ts_local := address\<rparr>)
      })
   }"

text \<open>What failed is only logged; a null pointer that is followed has no result.\<close>

definition TunTapServer_HandleConnect ::
    "('w, 'b tunnel_server) part \<Rightarrow> (ip_address \<Rightarrow> bytes) \<Rightarrow> ('x, 'k) crypto \<Rightarrow> ('x, 'k, 'c, 'w) connection_class \<Rightarrow> nat \<Rightarrow>
     ('x, 'k, 'c, nat, 'w) server \<Rightarrow> ('x, 'k, 'c, nat, 'w) server option" where
  "TunTapServer_HandleConnect pa ntop cr cc p sv = do {
     let n = pa_get pa (hb_world sv);
     let t = length (ho_tunnels n);
     let sv = SetCallbacks p (Some (Channel_reads t)) (Some (Channel_closed t)) sv;
     (_, tu, n) \<leftarrow> tun_Open IFF_TUN (Tunnel_new p) n;
     manager \<leftarrow> ts_manager n;
     (address, manager) \<leftarrow> AllocateIP manager;
     let n = n\<lparr>ts_manager := Some manager\<rparr>;
     let interface = GetInterface (tu_device tu) (ho_netlink n);
     i \<leftarrow> interface;
     server_address \<leftarrow> ts_local n;
     (_, nl) \<leftarrow> Enable i (ho_netlink n);
     (_, nl) \<leftarrow> AddAddress i server_address (of_int (ip_Length server_address)) nl;
     client_address \<leftarrow> address;
     (_, nl) \<leftarrow> AddRoute client_address (of_int (ip_Length client_address)) None (Some server_address) (if_index i) nl;
     let tu = tu\<lparr>tu_address := address, tu_interface := interface\<rparr>;
     let sv = set_part pa (n\<lparr>ho_netlink := nl, ho_tunnels := ho_tunnels n @ [tu]\<rparr>) sv;
     (_, message) \<leftarrow> encode_u8 reader_add 0 (Message cc p sv);
     (_, message) \<leftarrow> encode_vector reader_add encode_setting
        [(SERVER_ADDRESS, ntop server_address), (CLIENT_ADDRESS, ntop client_address)] message;
     (sent, sv) \<leftarrow> SendMessage cr cc p (put_Message cc p message sv);
     (if \<not> sent then Some sv
      else do {
        n \<leftarrow> dispatch (AddFd (tu_fd tu) EV_READ (Some (Tunnel_read_handler t)) None) (pa_get pa (hb_world sv));
        Some (set_part pa n sv)
      })
   }"

text \<open>\<open>delete this\<close>.\<close>

definition ClientCloseCallback :: "nat \<Rightarrow> 'c tunnel_server \<Rightarrow> 'c tunnel_server option" where
  "ClientCloseCallback t n = do {
     let tu = ho_tunnels n ! t;
     n \<leftarrow> (case tu_address tu of
        None \<Rightarrow> Some n
      | Some address \<Rightarrow> do {
          manager \<leftarrow> ts_manager n;
          (_, manager) \<leftarrow> ReturnIP address manager;
          Some (n\<lparr>ts_manager := Some manager\<rparr>)
        });
     Some (tun_destroy tu n)
   }"

definition tunnel_server_channel ::
    "('w, 'b tunnel_server) part \<Rightarrow> (ip_address \<Rightarrow> bytes) \<Rightarrow> ('x, 'k) crypto \<Rightarrow> ('x, 'k, 'c, 'w) connection_class \<Rightarrow>
     (nat, ('x, 'k, 'c, nat, 'w) server) channel" where
  "tunnel_server_channel pa ntop cr cc = \<lparr>ch_HandleConnect = TunTapServer_HandleConnect pa ntop cr cc,
     ch_Read = (\<lambda>t p cursor sv. do {
       (cursor, n) \<leftarrow> PacketCallback t cursor (pa_get pa (hb_world sv));
       Some (cursor, set_part pa n sv)
     })\<rparr>"

section \<open>The client's channel\<close>

datatype tunnel_reader = Server_config nat | Server_packet nat

definition TunTapClient_HandleSession ::
    "('w, 'b host) part \<Rightarrow> nat \<Rightarrow> ('x, 'k, 'c, tunnel_reader, 'w) client \<Rightarrow> ('x, 'k, 'c, tunnel_reader, 'w) client option" where
  "TunTapClient_HandleSession pa p cl =
     (let n = pa_get pa (hb_world cl);
          cl = set_part pa (n\<lparr>ho_tunnels := ho_tunnels n @ [Tunnel_new p]\<rparr>) cl
      in Some (SetCallbacks p (Some (Client_channel_reads (Server_config (length (ho_tunnels n))))) None cl))"

text \<open>The last setting of the name counts, also when it is no address.\<close>

definition find_address ::
    "(bytes \<Rightarrow> ip_address option) \<Rightarrow> (bytes \<Rightarrow> ip_address option) \<Rightarrow> bytes \<Rightarrow> (bytes \<times> bytes) list \<Rightarrow> ip_address option" where
  "find_address pton4 pton6 name values =
     fold (\<lambda>(n, v) address. if n = name then ip_Parse pton4 pton6 v else address) values None"

text \<open>The interface, its address and the route of a tunnel that was opened; false when one of them could not be set.\<close>

definition configure_tunnel ::
    "tunnel \<Rightarrow> ip_address option \<Rightarrow> ip_address option \<Rightarrow> netlink \<Rightarrow> (bool \<times> netlink) option" where
  "configure_tunnel tu client_address server_address nl =
     (case GetInterface (tu_device tu) nl of
        None \<Rightarrow> Some (False, nl)
      | Some i \<Rightarrow> do {
          (ok, nl) \<leftarrow> Enable i nl;
          (if \<not> ok then Some (False, nl)
           else do {
             client_address \<leftarrow> client_address;
             (ok, nl) \<leftarrow> AddAddress i client_address (of_int (ip_Length client_address)) nl;
             (if \<not> ok then Some (False, nl)
              else do {
                server_address \<leftarrow> server_address;
                AddRoute server_address (of_int (ip_Length server_address)) None (Some client_address) (if_index i) nl
              })
           })
        })"

definition ServerConfigCallback ::
    "('w, 'b host) part \<Rightarrow> (bytes \<Rightarrow> ip_address option) \<Rightarrow> (bytes \<Rightarrow> ip_address option) \<Rightarrow> nat \<Rightarrow> nat \<Rightarrow> reader \<Rightarrow>
     ('x, 'k, 'c, tunnel_reader, 'w) client \<Rightarrow> (reader \<times> ('x, 'k, 'c, tunnel_reader, 'w) client) option" where
  "ServerConfigCallback pa pton4 pton6 t p cursor cl = do {
     (_, flags, cursor) \<leftarrow> decode_u8 reader_consume cursor;
     (case flags of
        None \<Rightarrow> Some (cursor, cl)
      | Some flags \<Rightarrow> do {
          (_, settings, cursor) \<leftarrow> decode_settings cursor;
          (case settings of
             None \<Rightarrow> Some (cursor, cl)
           | Some settings \<Rightarrow> do {
               let n = pa_get pa (hb_world cl);
               (ok, tu, n) \<leftarrow> tun_Open (if flags AND USE_TAP \<noteq> 0 then IFF_TAP else IFF_TUN) (ho_tunnels n ! t) n;
               let n = set_tunnel t tu n;
               (if \<not> ok then Some (cursor, set_part pa n cl)
                else do {
                  (ok, nl) \<leftarrow> configure_tunnel tu (find_address pton4 pton6 CLIENT_ADDRESS settings)
                    (find_address pton4 pton6 SERVER_ADDRESS settings) (ho_netlink n);
                  let n = n\<lparr>ho_netlink := nl\<rparr>;
                  (if \<not> ok then Some (cursor, set_part pa n cl)
                   else do {
                     let cl = SetCallbacks p (Some (Client_channel_reads (Server_packet t))) None cl;
                     n \<leftarrow> dispatch (AddFd (tu_fd tu) EV_READ (Some (Tunnel_read_handler t)) None) n;
                     Some (cursor, set_part pa n cl)
                   })
                })
             })
        })
   }"

definition tunnel_client_channel ::
    "('w, 'b host) part \<Rightarrow> (bytes \<Rightarrow> ip_address option) \<Rightarrow> (bytes \<Rightarrow> ip_address option) \<Rightarrow>
     (tunnel_reader, ('x, 'k, 'c, tunnel_reader, 'w) client) channel" where
  "tunnel_client_channel pa pton4 pton6 = \<lparr>ch_HandleConnect = TunTapClient_HandleSession pa,
     ch_Read = (\<lambda>h p cursor cl.
       (case h of
          Server_config t \<Rightarrow> ServerConfigCallback pa pton4 pton6 t p cursor cl
        | Server_packet t \<Rightarrow> do {
            (cursor, n) \<leftarrow> PacketCallback t cursor (pa_get pa (hb_world cl));
            Some (cursor, set_part pa n cl)
          }))\<rparr>"

end
