(* ===== verification/NetlinkReplies.thy ===== *)
theory NetlinkReplies
  imports Netlink
begin

text \<open>
  What the messages of \<open>Netlink\<close> look like in memory, how replies are read, and that the routes that are set
  are the routes that are read.
\<close>

section \<open>Numbers in memory\<close>

lemma length_le [simp]: "length (host16 v) = 2" "length (host32 w) = 4"
  by (simp_all add: host16_def host32_def)

lemma peek16_host16 [simp]: "length pre = at \<Longrightarrow> peek16 (pre @ host16 w @ rest) at = Some w"
  by (simp add: peek16_def host16_def be16_def)

lemma peek32_host32 [simp]: "length pre = at \<Longrightarrow> peek32 (pre @ host32 w @ rest) at = Some w"
  by (simp add: peek32_def host32_def be32_def)

lemma peek_append:
  "at + 2 \<le> length bs \<Longrightarrow> peek16 (bs @ rest) at = peek16 bs at"
  "at + 4 \<le> length bs \<Longrightarrow> peek32 (bs @ rest) at = peek32 bs at"
  by (simp_all add: peek16_def peek32_def)

lemma take_4_cases: "4 \<le> length bs \<Longrightarrow> \<exists>a b c d. take 4 bs = [a, b, c, d]"
proof -
  assume "4 \<le> length bs"
  then have "length (take 4 bs) = Suc (Suc (Suc (Suc 0)))" by simp
  then show ?thesis by (auto simp only: length_Suc_conv length_0_conv)
qed

lemma take_2_cases: "2 \<le> length bs \<Longrightarrow> \<exists>a b. take 2 bs = [a, b]"
proof -
  assume "2 \<le> length bs"
  then have "length (take 2 bs) = Suc (Suc 0)" by simp
  then show ?thesis by (auto simp only: length_Suc_conv length_0_conv)
qed

lemma peeks:
  shows "at + 2 \<le> length bs \<Longrightarrow> \<exists>w. peek16 bs at = Some w" and "at + 4 \<le> length bs \<Longrightarrow> \<exists>w. peek32 bs at = Some w"
proof -
  assume "at + 2 \<le> length bs"
  then have "2 \<le> length (drop at bs)" unfolding length_drop by linarith
  from take_2_cases [OF this] obtain a b where "take 2 (drop at bs) = [a, b]" by blast
  then show "\<exists>w. peek16 bs at = Some w" by (simp add: peek16_def)
next
  assume "at + 4 \<le> length bs"
  then have "4 \<le> length (drop at bs)" unfolding length_drop by linarith
  from take_4_cases [OF this] obtain a b c d where "take 4 (drop at bs) = [a, b, c, d]" by blast
  then show "\<exists>w. peek32 bs at = Some w" by (simp add: peek32_def)
qed

lemma length_ip_Raw: "length (ip_Raw a) = 4 \<or> length (ip_Raw a) = 16" "4 dvd length (ip_Raw a)"
  by (cases a; simp)+

section \<open>Messages in memory\<close>

definition rta :: "u16 \<Rightarrow> bytes \<Rightarrow> bytes" where
  "rta attribute data = host16 (of_nat (4 + length data)) @ host16 attribute @ data"

lemma length_rta [simp]: "length (rta attribute data) = 4 + length data"
  by (simp add: rta_def)

text \<open>A message in the making: what was written after the header, and the zeros that follow it.\<close>

definition built :: "nl_message \<Rightarrow> bytes \<Rightarrow> nat \<Rightarrow> bool" where
  "built m body k \<longleftrightarrow> nlmsg_rest m = body @ replicate k 0 \<and> unat (nlmsg_len m) = 16 + length body \<and> 4 dvd length body"

lemma built_bytes: "built m body k \<Longrightarrow> nl_bytes m = nlmsghdr m @ body"
  by (simp add: built_def nl_bytes_def nlmsghdr_def)

lemma built_length: "built m body k \<Longrightarrow> length (nl_bytes m) = unat (nlmsg_len m)"
  by (simp add: built_bytes nlmsghdr_def) (simp add: built_def)

lemma rta_align_id: "4 dvd n \<Longrightarrow> rta_align n = n"
  by (auto simp: rta_align_def)

lemma AddAttribute_built:
  assumes m: "built m body k" and data: "4 dvd length data" "4 + length data \<le> k" and small: "length body + k \<le> 10000"
  obtains m' where "AddAttribute attribute data m = Some m'" "built m' (body @ rta attribute data) (k - (4 + length data))"
    "nlmsg_type m' = nlmsg_type m"
proof -
  have len: "unat (nlmsg_len m) = 16 + length body" using m by (simp add: built_def)
  have "unat (of_nat (4 + length data) :: u32) = 4 + length data"
    using data small by (simp add: unat_of_nat take_bit_nat_eq_self del: of_nat_add)
  then have "unat (nlmsg_len m + of_nat (4 + length data)) = 16 + length body + (4 + length data)"
    using small data len by (subst unat_add_lem [THEN iffD1]) simp_all
  moreover have "4 dvd length body + (4 + length data)" using m data(1) by (simp add: built_def)
  moreover define m' where "m' = m\<lparr>nlmsg_rest := body @ rta attribute data @ replicate (k - (4 + length data)) 0,
      nlmsg_len := nlmsg_len m + of_nat (4 + length data)\<rparr>"
  moreover have "AddAttribute attribute data m = Some m'"
    using m data by (simp add: AddAttribute_def built_def Let_def m'_def rta_def rta_align_id len del: of_nat_add)
  ultimately show thesis
    by (intro that [of m']) (simp_all add: built_def del: of_nat_add)
qed

section \<open>The attributes of a route\<close>

text \<open>\<open>parse_attribute\<close> of data that is there, whatever surrounds it.\<close>

definition address_of :: "byte \<Rightarrow> bytes \<Rightarrow> ip_address option" where
  "address_of family data = (case ParseIPAddress family data 0 of Some a \<Rightarrow> a | None \<Rightarrow> None)"

lemma ParseIPAddress_raw:
  "length pre = at \<Longrightarrow> ParseIPAddress (ip_family_byte a) (pre @ ip_Raw a @ rest) at = Some (Some a)"
  by (cases a) (simp_all add: ParseIPAddress_def af_inet_def af_inet6_def be32_def)

lemma parse_attributes_step:
  assumes at: "length pre = at" and data: "4 dvd length data" "4 + length data < 2 ^ 16" and left: "int (4 + length data) \<le> left"
  shows "parse_attributes family dst_len (pre @ rta a data @ rest) at left e =
    (case parse_attribute family dst_len a (pre @ rta a data @ rest) (at + 4) e of
       None \<Rightarrow> None
     | Some e \<Rightarrow> parse_attributes family dst_len (pre @ rta a data @ rest) (at + (4 + length data)) (left - int (4 + length data)) e)"
proof -
  have u: "unat (of_nat (4 + length data) :: u16) = 4 + length data"
    using data(2) by (simp add: unat_of_nat take_bit_nat_eq_self del: of_nat_add)
  then have ui: "uint (of_nat (4 + length data) :: u16) = int (4 + length data)"
    by (metis uint_nat)
  have "\<not> (of_nat (4 + length data) :: u16) < 4" using u by (simp add: word_less_nat_alt del: of_nat_add)
  moreover have "peek16 (pre @ rta a data @ rest) at = Some (of_nat (4 + length data))" using at by (simp add: rta_def del: of_nat_add)
  moreover have "peek16 (pre @ rta a data @ rest) (at + 2) = Some a"
    using peek16_host16 [of "pre @ host16 (of_nat (4 + length data))" "at + 2" a "data @ rest"] at by (simp add: rta_def del: of_nat_add)
  moreover have "4 dvd 4 + length data" using data(1) by simp
  ultimately show ?thesis
    using left u ui
    by (subst parse_attributes.simps) (simp add: rta_align_id del: of_nat_add split: option.splits)
qed

lemma parse_attributes_end: "left < 4 \<Longrightarrow> parse_attributes family dst_len bs at left e = Some e"
  by (subst parse_attributes.simps) simp

section \<open>What \<open>AddRoute\<close> sends\<close>

definition route_bytes :: "byte \<Rightarrow> u16 \<Rightarrow> ip_address \<Rightarrow> ip_address option \<Rightarrow> ip_address option \<Rightarrow> u32 \<Rightarrow> bytes" where
  "route_bytes scope cidr network gateway source index =
     rtmsg (ip_family_byte network) (ucast cidr) RT_TABLE_MAIN RTPROT_BOOT scope RTN_UNICAST @
     rta RTA_DST (ip_Raw network) @ rta RTA_OIF (host32 index) @
     (case gateway of None \<Rightarrow> [] | Some g \<Rightarrow> rta RTA_GATEWAY (ip_Raw g)) @
     (case source of None \<Rightarrow> [] | Some a \<Rightarrow> rta RTA_PREFSRC (ip_Raw a))"

lemma length_rtmsg [simp]: "length (rtmsg a b c d e f) = 12"
  by (simp add: rtmsg_def)

lemma SetRoutesMessage_built:
  assumes "gateway = None \<or> ip_family_byte (the gateway) = ip_family_byte network"
  obtains m scope k where "SetRoutesMessage type flags sequence pid network cidr gateway source index = Some m" "nlmsg_type m = type"
    "built m (route_bytes scope cidr network gateway source index) k"
proof -
  define scope where "scope = (if gateway = None then RT_SCOPE_LINK else RT_SCOPE_UNIVERSE)"
  define body where "body = rtmsg (ip_family_byte network) (ucast cidr) RT_TABLE_MAIN RTPROT_BOOT scope RTN_UNICAST"
  define m0 where "m0 = \<lparr>nlmsg_len = 16 + 12, nlmsg_type = type, nlmsg_flags = flags, nlmsg_seq = sequence, nlmsg_pid = pid,
    nlmsg_rest = body @ replicate 128 0\<rparr>"
  have b0: "built m0 body 128" "nlmsg_type m0 = type" "length body = 12" by (simp_all add: built_def m0_def body_def)
  have raw: "length (ip_Raw x) \<le> 16" for x using length_ip_Raw(1) [of x] by auto
  obtain m1 where m1: "AddAttribute RTA_DST (ip_Raw network) m0 = Some m1"
    "built m1 (body @ rta RTA_DST (ip_Raw network)) (128 - (4 + length (ip_Raw network)))" "nlmsg_type m1 = type"
    using AddAttribute_built [OF b0(1) length_ip_Raw(2), of network RTA_DST] raw [of network] b0(2,3) by auto
  define b1 where "b1 = body @ rta RTA_DST (ip_Raw network)"
  have l1: "length b1 \<le> 32" using raw [of network] b0(3) by (simp add: b1_def)
  define k1 where "k1 = 128 - (4 + length (ip_Raw network))"
  have k1: "100 \<le> k1" "k1 \<le> 128" using raw [of network] by (simp_all add: k1_def)
  obtain m2 where m2: "AddAttribute RTA_OIF (host32 index) m1 = Some m2"
    "built m2 (b1 @ rta RTA_OIF (host32 index)) (k1 - (4 + length (host32 index)))" "nlmsg_type m2 = type"
    using AddAttribute_built [OF m1(2) [folded b1_def k1_def], of "host32 index" RTA_OIF] k1 m1(3) l1 by auto
  define b2 where "b2 = b1 @ rta RTA_OIF (host32 index)"
  define k2 where "k2 = k1 - (4 + length (host32 index))"
  have l2: "length b2 \<le> 40" "90 \<le> k2" "k2 \<le> 128" using k1 l1 by (simp_all add: b2_def k2_def)
  define b3 where "b3 = b2 @ (case gateway of None \<Rightarrow> [] | Some g \<Rightarrow> rta RTA_GATEWAY (ip_Raw g))"
  obtain m3 k3 where m3: "(case gateway of None \<Rightarrow> Some m2 | Some g \<Rightarrow> do {
          fatal_unless (ip_family_byte g = ip_family_byte network); AddAttribute RTA_GATEWAY (ip_Raw g) m2 }) = Some m3"
    "built m3 b3 k3" "nlmsg_type m3 = type" "70 \<le> k3" "k3 \<le> 128"
  proof (cases gateway)
    case None
    with m2 l2 show thesis by (intro that [of m2 k2]) (simp_all add: b3_def b2_def k2_def)
  next
    case (Some g)
    obtain m where "AddAttribute RTA_GATEWAY (ip_Raw g) m2 = Some m"
      "built m (b2 @ rta RTA_GATEWAY (ip_Raw g)) (k2 - (4 + length (ip_Raw g)))" "nlmsg_type m = type"
      using AddAttribute_built [OF m2(2) [folded b2_def k2_def] length_ip_Raw(2), of g RTA_GATEWAY] raw [of g] m2(3) l2 by auto
    with Some assms raw [of g] l2 show thesis by (intro that [of m "k2 - (4 + length (ip_Raw g))"]) (simp_all add: b3_def)
  qed
  have l3: "length b3 \<le> 60" using l2(1) raw [of "the gateway"] by (cases gateway) (simp_all add: b3_def)
  have run: "SetRoutesMessage type flags sequence pid network cidr gateway source index =
      (case source of None \<Rightarrow> Some m3 | Some s \<Rightarrow> AddAttribute RTA_PREFSRC (ip_Raw s) m3)"
    unfolding SetRoutesMessage_def Let_def scope_def [symmetric] body_def [symmetric] m0_def [symmetric]
    by (simp only: m1(1) m2(1) m3(1) bind.bind_lunit)
  show thesis
  proof (cases source)
    case None
    with m3 run show thesis
      by (intro that [of m3 scope k3]) (simp_all add: route_bytes_def body_def b3_def b2_def b1_def)
  next
    case (Some a)
    obtain m where "AddAttribute RTA_PREFSRC (ip_Raw a) m3 = Some m"
      "built m (b3 @ rta RTA_PREFSRC (ip_Raw a)) (k3 - (4 + length (ip_Raw a)))" "nlmsg_type m = type"
      using AddAttribute_built [OF m3(2) length_ip_Raw(2), of a RTA_PREFSRC] raw [of a] m3(3-5) l3 by auto
    with Some run show thesis
      by (intro that [of m scope "k3 - (4 + length (ip_Raw a))"]) (simp_all add: route_bytes_def body_def b3_def b2_def b1_def)
  qed
qed

section \<open>A route is read\<close>

text \<open>The attribute \<open>a\<close> with the data \<open>d\<close> changes an entry by \<open>f\<close>, wherever it is.\<close>

definition attribute_does :: "byte \<Rightarrow> byte \<Rightarrow> u16 \<times> bytes \<times> (routing_entry \<Rightarrow> routing_entry) \<Rightarrow> bool" where
  "attribute_does family dst_len x = (case x of (a, d, f) \<Rightarrow> 4 dvd length d \<and> length d \<le> 16 \<and>
     (\<forall>pre rest at e. length pre = at \<longrightarrow> parse_attribute family dst_len a (pre @ d @ rest) at e = Some (f e)))"

definition attribute_bytes :: "(u16 \<times> bytes \<times> (routing_entry \<Rightarrow> routing_entry)) list \<Rightarrow> bytes" where
  "attribute_bytes as = concat (map (\<lambda>(a, d, f). rta a d) as)"

lemma parse_attributes_list:
  assumes "list_all (attribute_does family dst_len) as" "length pre = at" "left = int (length (attribute_bytes as))"
  shows "parse_attributes family dst_len (pre @ attribute_bytes as @ rest) at left e = Some (fold (\<lambda>(a, d, f) e. f e) as e)"
  using assms
proof (induction as arbitrary: pre at left e)
  case Nil
  then show ?case by (simp add: parse_attributes_end attribute_bytes_def)
next
  case (Cons x as)
  obtain a d f where x: "x = (a, d, f)" by (cases x)
  have d: "4 dvd length d" "4 + length d < 2 ^ 16"
    and does: "\<And>pre rest at e. length pre = at \<Longrightarrow> parse_attribute family dst_len a (pre @ d @ rest) at e = Some (f e)"
    using Cons.prems(1) by (auto simp: attribute_does_def x)
  have here: "parse_attribute family dst_len a (pre @ rta a d @ attribute_bytes as @ rest) (at + 4) e = Some (f e)"
    using does [of "pre @ host16 (of_nat (4 + length d)) @ host16 a" "at + 4" "attribute_bytes as @ rest" e] Cons.prems(2)
    by (simp add: rta_def del: of_nat_add)
  have IH: "parse_attributes family dst_len ((pre @ rta a d) @ attribute_bytes as @ rest) (at + (4 + length d)) (int (length (attribute_bytes as))) (f e) =
      Some (fold (\<lambda>(a, d, f) e. f e) as (f e))"
    by (rule Cons.IH) (use Cons.prems in \<open>simp_all add: x\<close>)
  have bytes: "attribute_bytes (x # as) = rta a d @ attribute_bytes as" by (simp add: attribute_bytes_def x)
  have left: "left - int (4 + length d) = int (length (attribute_bytes as))" "int (4 + length d) \<le> left"
    using Cons.prems(3) by (simp_all add: bytes)
  show ?case
    unfolding bytes
    using parse_attributes_step [OF Cons.prems(2) d left(2), of family dst_len a "attribute_bytes as @ rest" e] here IH
    by (simp add: left(1) [simplified] x)
qed

lemma interface_does: "attribute_does family dst_len (RTA_OIF, host32 index, re_interface_update (\<lambda>_. index))"
  by (simp add: attribute_does_def parse_attribute_def netlink_numbers)

lemma address_does:
  assumes "ip_family_byte a = family"
  shows "attribute_does family dst_len (RTA_GATEWAY, ip_Raw a, re_gateway_update (\<lambda>_. Some a))"
    "attribute_does family dst_len (RTA_PREFSRC, ip_Raw a, re_source_update (\<lambda>_. Some a))"
  using length_ip_Raw [of a] ParseIPAddress_raw [of _ _ a]
  by (auto simp: attribute_does_def parse_attribute_def netlink_numbers simp flip: assms)

lemma route_read:
  assumes m: "built m (route_bytes scope cidr network gateway source index) k"
    and cidr: "uint cidr < 256" and range: "IPRange_set network (uint cidr) IPRange_new = Some (ok, destination)"
    and family: "gateway = None \<or> ip_family_byte (the gateway) = ip_family_byte network"
      "source = None \<or> ip_family_byte (the source) = ip_family_byte network"
  shows "AddRoutingEntry pton4 pton6 (nl_bytes m @ rest) entries =
    Some (entries @ [\<lparr>re_source = source, re_destination = destination, re_gateway = gateway, re_interface = index, re_metric = 0\<rparr>])"
proof -
  define fam where "fam = ip_family_byte network"
  define dl where "dl = (ucast cidr :: byte)"
  define as :: "(u16 \<times> bytes \<times> (routing_entry \<Rightarrow> routing_entry)) list" where "as = (RTA_OIF, host32 index, re_interface_update (\<lambda>_. index)) #
      (case gateway of None \<Rightarrow> [] | Some g \<Rightarrow> [(RTA_GATEWAY, ip_Raw g, re_gateway_update (\<lambda>_. gateway))]) @
      (case source of None \<Rightarrow> [] | Some a \<Rightarrow> [(RTA_PREFSRC, ip_Raw a, re_source_update (\<lambda>_. source))])"
  let ?head = "nlmsghdr m @ rtmsg fam dl RT_TABLE_MAIN RTPROT_BOOT scope RTN_UNICAST"
  let ?dst = "rta RTA_DST (ip_Raw network)"
  have uint_dl: "uint dl = uint cidr" using cidr by (simp add: dl_def unsigned_ucast_eq take_bit_int_eq_self)
  have raw: "length (ip_Raw x) \<le> 16" for x using length_ip_Raw(1) [of x] by auto
  have does: "list_all (attribute_does fam dl) as"
    unfolding as_def
    by (cases gateway; cases source) (use family interface_does [of fam dl index] address_does [of _ fam] in \<open>simp_all add: fam_def\<close>)
  have bytes: "nl_bytes m @ rest = ?head @ ?dst @ attribute_bytes as @ rest"
    by (cases gateway; cases source)
      (simp_all add: built_bytes [OF m] route_bytes_def as_def attribute_bytes_def fam_def dl_def)
  have head: "length ?head = 28" by (simp add: nlmsghdr_def)
  define L where "L = length ?dst + length (attribute_bytes as)"
  have L: "L \<le> 1000" using raw [of network] raw [of "the gateway"] raw [of "the source"]
    by (cases gateway; cases source) (simp_all add: L_def attribute_bytes_def as_def)
  have "unat (nlmsg_len m) = 28 + L"
    using m arg_cong [OF bytes, of length] head by (simp add: built_bytes [OF m] built_def L_def nlmsghdr_def)
  then have "nlmsg_len m = of_nat (28 + L)" by (metis of_nat_unat ucast_id)
  then have "nlmsg_len m - 28 = of_nat L" by simp
  moreover have "sint (of_nat L :: u32) = int L" using L by (simp add: signed_of_nat signed_take_bit_int_eq_self)
  ultimately have left: "sint (nlmsg_len m - 28) = int L" by simp
  have start: "peek32 (nl_bytes m @ rest) 0 = Some (nlmsg_len m)"
    using peek32_host32 [of "[]" 0] by (simp add: built_bytes [OF m] nlmsghdr_def)
  have fields: "take 2 (drop 16 (nl_bytes m @ rest)) = [fam, dl]"
    by (simp add: bytes nlmsghdr_def rtmsg_def)
  have "parse_attribute fam dl RTA_DST (?head @ ?dst @ attribute_bytes as @ rest) (28 + 4) RoutingEntry_new =
      Some (RoutingEntry_new\<lparr>re_destination := destination\<rparr>)"
    using ParseIPAddress_raw [of "?head @ host16 (of_nat (4 + length (ip_Raw network))) @ host16 RTA_DST" "28 + 4" network "attribute_bytes as @ rest"] head range
    by (simp add: parse_attribute_def rta_def fam_def uint_dl RoutingEntry_new_def del: of_nat_add)
  moreover have "parse_attributes fam dl ((?head @ ?dst) @ attribute_bytes as @ rest) (28 + (4 + length (ip_Raw network)))
      (int (length (attribute_bytes as))) (RoutingEntry_new\<lparr>re_destination := destination\<rparr>) =
      Some (fold (\<lambda>(a, d, f) e. f e) as (RoutingEntry_new\<lparr>re_destination := destination\<rparr>))"
    by (rule parse_attributes_list [OF does]) (use head in simp_all)
  moreover have "fold (\<lambda>(a, d, f) e. f e) as (RoutingEntry_new\<lparr>re_destination := destination\<rparr>) =
      \<lparr>re_source = source, re_destination = destination, re_gateway = gateway, re_interface = index, re_metric = 0\<rparr>"
    by (cases gateway; cases source) (simp_all add: as_def RoutingEntry_new_def)
  moreover have "int L - int (4 + length (ip_Raw network)) = int (length (attribute_bytes as))" "int (4 + length (ip_Raw network)) \<le> int L"
    by (simp_all add: L_def)
  ultimately have entry: "parse_attributes fam dl (nl_bytes m @ rest) 28 (int L) RoutingEntry_new =
      Some \<lparr>re_source = source, re_destination = destination, re_gateway = gateway, re_interface = index, re_metric = 0\<rparr>"
    using parse_attributes_step [OF head length_ip_Raw(2) [of network], of "int L" fam dl RTA_DST "attribute_bytes as @ rest" RoutingEntry_new] raw [of network]
    unfolding bytes by simp
  have "rg_address destination \<noteq> None" using range by (auto simp: IPRange_set_def Let_def split: if_splits)
  then show ?thesis
    using start fields left entry by (simp add: AddRoutingEntry_def IPRange_IsInitialized_def split: option.split)
qed

section \<open>A reply is read to its end\<close>

text \<open>A message whose length is the one its header says, as it is aligned.\<close>

definition whole_message :: "bytes \<Rightarrow> bool" where
  "whole_message b \<longleftrightarrow> (\<exists>len. peek32 b 0 = Some len \<and> 16 \<le> len \<and> unat (nlmsg_align len) = length b)"

lemma unat_align_word: "unat (w AND NOT 3) = unat w div 4 * 4" for w :: u32
proof -
  have "w AND NOT 3 = push_bit 2 (drop_bit 2 w)"
  proof -
    have "(3 :: u32) = mask 2" by (simp add: mask_eq_exp_minus_1)
    then show ?thesis
      by (simp only:) (rule bit_word_eqI, simp only: bit_and_iff bit_not_iff bit_mask_iff bit_push_bit_iff bit_drop_bit_eq, auto simp: not_less le_iff_add)
  qed
  moreover have "unat (drop_bit 2 w) = unat w div 4" by (simp add: drop_bit_eq_div unat_div_distrib)
  moreover have "unat w div 4 * 4 < 2 ^ 32" using unsigned_less [where ?'a = nat, of w] by simp
  ultimately show ?thesis by (simp add: push_bit_eq_mult unat_word_ariths)
qed

lemma nlmsg_align_len:
  assumes "0 < unat (nlmsg_align len)"
  shows "unat len \<le> unat (nlmsg_align len)"
proof -
  have len: "unat len < 2 ^ 32" using unsigned_less [where ?'a = nat, of len] by simp
  have "unat len + 3 < 2 ^ 32"
  proof (rule ccontr)
    assume "\<not> unat len + 3 < 2 ^ 32"
    then have "(unat len + 3) mod 2 ^ 32 = (unat len + 3 - 2 ^ 32) mod 2 ^ 32" by (intro le_mod_geq) simp
    also have "\<dots> < 3" using len by (intro le_less_trans [OF mod_less_eq_dividend]) simp
    finally have "unat (len + 3) < 3" by (simp add: unat_word_ariths)
    then show False using assms unfolding nlmsg_align_def unat_align_word by simp
  qed
  then have "unat (len + 3) = unat len + 3" by (simp add: unat_word_ariths)
  then show ?thesis unfolding nlmsg_align_def unat_align_word by simp
qed

lemma whole_messageE:
  assumes "whole_message b"
  obtains len where "peek32 b 0 = Some len" "16 \<le> len" "unat (nlmsg_align len) = length b" "16 \<le> length b" "unat len \<le> length b"
proof -
  obtain len where len: "peek32 b 0 = Some len" "16 \<le> len" "unat (nlmsg_align len) = length b"
    using assms by (auto simp: whole_message_def)
  have "b \<noteq> []" using len(1) by (auto simp: peek32_def)
  then have "unat len \<le> length b" using nlmsg_align_len [of len] len(3) by simp
  moreover have "16 \<le> unat len" using len(2) by (simp add: word_le_nat_alt)
  ultimately show thesis using len by (intro that) simp_all
qed

text \<open>A message is handled with all that follows it in sight.\<close>

fun handle_all :: "(bytes \<Rightarrow> 'st \<Rightarrow> 'st option) \<Rightarrow> bytes list \<Rightarrow> 'st \<Rightarrow> 'st option" where
  "handle_all handle [] st = Some st"
| "handle_all handle (b # bs) st = do { st \<leftarrow> handle (b @ concat bs) st; handle_all handle bs st }"

lemma reply_loop_runs:
  assumes "list_all whole_message bs" "tidy [] r" "in_last r" "reader_contents r = concat bs" "length (concat bs) < 2 ^ 32"
    "handle_all handle bs st = Some st'"
  shows "\<exists>r'. reply_loop handle r st = Some (st', r') \<and> tidy [] r' \<and> reader_contents r' = []"
  using assms
proof (induction bs arbitrary: r st)
  case Nil
  obtain s cur where r: "r = (s, cur)" by fastforce
  have "readable s cur []" using Nil.prems(2,4) tidy_reader_ok [of "[]" r] by (simp add: r reader_ok_def)
  from in_one_piece(2) [OF this] Nil.prems show ?case by (subst reply_loop.simps) (simp add: r reader_contents_def)
next
  case (Cons b bs)
  obtain s cur where r: "r = (s, cur)" by fastforce
  obtain len where len: "peek32 b 0 = Some len" "16 \<le> len" "unat (nlmsg_align len) = length b" "16 \<le> length b"
    by (rule whole_messageE [of b]) (use Cons.prems(1) in auto)
  have ok: "readable s cur []" "oc_limited cur = None"
    using Cons.prems(2,4,5) tidy_reader_ok [of "[]" r] by (simp_all add: r reader_ok_def tidy_def)
  have u: "unread s cur = b @ concat bs" using Cons.prems(4) by (simp add: r reader_contents_def)
  note piece = in_one_piece [OF ok(1) Cons.prems(3) [unfolded r]]
  have left: "oc_left s cur = Some (length (b @ concat bs))"
    using left_size [of s cur "[]"] ok Cons.prems(5) by (simp add: readable_def u)
  obtain st1 where st1: "handle (b @ concat bs) st = Some st1" "handle_all handle bs st1 = Some st'"
    using Cons.prems(6) by (auto split: bind_splits)
  have n: "length b \<le> length (unread s cur)" "within_limit cur (length b)" using ok(2) by (simp_all add: u within_limit_def)
  obtain s' cur' where inc: "oc_increment s cur (length b) = Some (s', cur')" "advanced s cur [] (length b) s' cur'" "in_last (s', cur')"
    by (rule increment_in_last [OF ok(1) n Cons.prems(3) [unfolded r]])
  have "reader_contents (s', cur') = concat bs" using inc(2) by (simp add: advanced_def reader_contents_def u)
  moreover have "tidy [] (s', cur')" by (rule tidy_advanced [OF Cons.prems(2) [unfolded r] inc(2)])
  ultimately have "\<exists>r'. reply_loop handle (s', cur') st1 = Some (st', r') \<and> tidy [] r' \<and> reader_contents r' = []"
    using Cons.prems(1,5) inc(3) st1(2) by (intro Cons.IH) simp_all
  moreover have "b \<noteq> []" using len(4) by auto
  moreover have "peek32 (b @ concat bs) 0 = Some len" using len(1,4) peek_append(2) [of 0 b "concat bs"] by simp
  ultimately show ?case
    using piece left st1(1) inc(1) len(3) \<open>b \<noteq> []\<close> by (subst reply_loop.simps) (simp add: r u)
qed

section \<open>Replies that come in several pieces\<close>

lemma nl_Recv_one:
  assumes recv: "nl_recv nl = Inr bs # rest" "bs \<noteq> []" "length bs < 4096" and r: "tidy [] (s, cur)" "reader_contents (s, cur) = []"
  obtains s' where "nl_Recv s nl = Some (True, s', nl\<lparr>nl_recv := rest\<rparr>)" "tidy [] (s', cur)" "reader_contents (s', cur) = bs" "in_last (s', cur)"
proof -
  have room: "length bs < ic_contiguous (ic_reserve s 4096)" using reserve_room [of 4096 s] recv(3) by linarith
  then obtain s' where s': "ic_commit (ic_reserve s 4096) bs = Some s'"
    using recv(2) by (auto simp: ic_commit_def)
  note arrives = read_arrives [OF r(1) s' recv(2)]
  have "reader_contents (s', cur) = bs" using arrives(2) r(2) by simp
  moreover from this arrives(3) have "in_last (s', cur)" by (rule arrived_in_last)
  moreover have "nl_Recv s nl = Some (True, s', nl\<lparr>nl_recv := rest\<rparr>)"
    using room s' by (simp add: nl_Recv_def recv(1) Let_def)
  ultimately show thesis using arrives(1) by (intro that)
qed

text \<open>What the replies say, as long as they are to be followed by more.\<close>

fun read_replies :: "(bytes \<Rightarrow> parsing_result \<times> 'e \<Rightarrow> (parsing_result \<times> 'e) option) \<Rightarrow> bytes list list \<Rightarrow> 'e \<Rightarrow> 'e option" where
  "read_replies step [] e = None"
| "read_replies step (bs # bss) e = do {
     st \<leftarrow> handle_all step bs (Reply_MORE, e);
     (if fst st = Reply_OK then (if bss = [] then Some (snd st) else None)
      else if fst st = Reply_MORE then read_replies step bss (snd st) else None)
   }"

definition readable_reply :: "bytes list \<Rightarrow> bool" where
  "readable_reply bs \<longleftrightarrow> list_all whole_message bs \<and> concat bs \<noteq> [] \<and> length (concat bs) < 4096"

lemma reply_received:
  assumes "bs \<noteq> []" "length bs < 4096"
  obtains r where "tidy [] r" "reader_contents r = bs" "in_last r"
proof -
  obtain s cur where r: "empty_reader = (s, cur)" by fastforce
  define nl where "nl = \<lparr>nl_fd = 0, nl_seq = 0, nl_pid = 0, nl_socket = [], nl_send = [], nl_recv = [Inr bs], nl_index = \<lambda>_. 0, nl_sent = []\<rparr>"
  have recv: "nl_recv nl = Inr bs # []" by (simp add: nl_def)
  obtain s' where "tidy [] (s', cur)" "reader_contents (s', cur) = bs" "in_last (s', cur)"
    by (rule nl_Recv_one [OF recv assms empty_reader_ok(1,2) [unfolded r]])
  then show thesis by (rule that)
qed

lemma chat_loop_runs:
  assumes "list_all readable_reply bss" "nl_recv nl = map (\<lambda>bs. Inr (concat bs)) bss @ rest" "read_replies step bss e = Some e'"
    "tidy [] r" "reader_contents r = []" "\<And>r e. parse r e = reply_loop step r (Reply_MORE, e)"
  shows "chat_loop parse r e nl = Some (True, e', nl\<lparr>nl_recv := rest\<rparr>)"
  using assms(1-5)
proof (induction bss arbitrary: r e nl)
  case Nil
  then show ?case by simp
next
  case (Cons bs bss)
  have bs: "list_all whole_message bs" "concat bs \<noteq> []" "length (concat bs) < 4096"
    using Cons.prems(1) by (simp_all add: readable_reply_def)
  obtain s cur where r: "r = (s, cur)" by fastforce
  have recv: "nl_recv nl = Inr (concat bs) # map (\<lambda>bs. Inr (concat bs)) bss @ rest" using Cons.prems(2) by simp
  obtain s' where s': "nl_Recv s nl = Some (True, s', nl\<lparr>nl_recv := map (\<lambda>bs. Inr (concat bs)) bss @ rest\<rparr>)" "tidy [] (s', cur)"
    "reader_contents (s', cur) = concat bs" "in_last (s', cur)"
    by (rule nl_Recv_one [OF recv bs(2,3) Cons.prems(4,5) [unfolded r]])
  obtain result e1 where st: "handle_all step bs (Reply_MORE, e) = Some (result, e1)"
    and next_st: "if result = Reply_OK then bss = [] \<and> e1 = e' else result = Reply_MORE \<and> read_replies step bss e1 = Some e'"
    using Cons.prems(3) by (auto split: bind_splits if_splits)
  have short: "length (concat bs) < 2 ^ 32" using bs(3) by simp
  obtain r' where r': "reply_loop step (s', cur) (Reply_MORE, e) = Some ((result, e1), r')" "tidy [] r'" "reader_contents r' = []"
    using reply_loop_runs [OF bs(1) s'(2,4,3) short st] by blast
  show ?case
  proof (cases "result = Reply_OK")
    case True
    then show ?thesis using s'(1) r'(1) next_st Cons.prems(2) by (subst chat_loop.simps) (simp add: r assms(6))
  next
    case False
    then have more: "result = Reply_MORE" "read_replies step bss e1 = Some e'" using next_st by simp_all
    have "chat_loop parse r' e1 (nl\<lparr>nl_recv := map (\<lambda>bs. Inr (concat bs)) bss @ rest\<rparr>) = Some (True, e', nl\<lparr>nl_recv := rest\<rparr>)"
      using Cons.IH [of "nl\<lparr>nl_recv := map (\<lambda>bs. Inr (concat bs)) bss @ rest\<rparr>" e1 r'] Cons.prems(1) more(2) r'(2,3) by simp
    then show ?thesis using s'(1) r'(1) more(1) by (subst chat_loop.simps) (simp add: r assms(6))
  qed
qed

lemma Chat_runs:
  assumes "0 \<le> nl_fd nl" "nl_send nl = n # sends" "n \<noteq> 0" "list_all readable_reply bss" "nl_recv nl = map (\<lambda>bs. Inr (concat bs)) bss @ rest"
    "read_replies step bss e = Some e'" "\<And>r e. parse r e = reply_loop step r (Reply_MORE, e)"
  shows "Chat parse m e nl = Some (True, e', nl\<lparr>nl_send := sends, nl_sent := nl_sent nl @ [nl_bytes m], nl_recv := rest\<rparr>)"
proof -
  have "chat_loop parse empty_reader e (nl\<lparr>nl_send := sends, nl_sent := nl_sent nl @ [nl_bytes m]\<rparr>) =
      Some (True, e', nl\<lparr>nl_send := sends, nl_sent := nl_sent nl @ [nl_bytes m], nl_recv := rest\<rparr>)"
    using chat_loop_runs [OF assms(4) _ assms(6) empty_reader_ok(1,2) assms(7),
        of "nl\<lparr>nl_send := sends, nl_sent := nl_sent nl @ [nl_bytes m]\<rparr>" rest] assms(5) by simp
  then show ?thesis using assms(1-3) by (simp add: Chat_def nl_Init_def nl_Send_def new_buffer_run)
qed

section \<open>The kernel's list of routes\<close>

text \<open>The message of a route, as \<open>AddRoute\<close> builds it, and the entry it stands for.\<close>

definition route_message :: "nl_message \<Rightarrow> routing_entry \<Rightarrow> bool" where
  "route_message m e \<longleftrightarrow> (\<exists>flags sequence pid network cidr ok.
     SetRoutesMessage RTM_NEWROUTE flags sequence pid network cidr (re_gateway e) (re_source e) (re_interface e) = Some m \<and>
     uint cidr < 256 \<and> IPRange_set network (uint cidr) IPRange_new = Some (ok, re_destination e) \<and>
     (re_source e = None \<or> ip_family_byte (the (re_source e)) = ip_family_byte network)) \<and> re_metric e = 0"

definition done_message :: "nl_message \<Rightarrow> bool" where
  "done_message m \<longleftrightarrow> nlmsg_type m = NLMSG_DONE \<and> (\<exists>body. built m body 0)"

lemma built_whole:
  assumes "built m body k"
  shows "whole_message (nl_bytes m)" "peek16 (nl_bytes m @ rest) 4 = Some (nlmsg_type m)"
proof -
  have len: "unat (nlmsg_len m) = 16 + length body" "4 dvd length body" using assms by (simp_all add: built_def)
  have "unat (nlmsg_len m) < 2 ^ 32" using unsigned_less [where ?'a = nat, of "nlmsg_len m"] by simp
  moreover have "4 dvd unat (nlmsg_len m)" using len by simp
  ultimately have "unat (nlmsg_len m) + 3 < 2 ^ 32" by (auto simp: dvd_def)
  then have "unat (nlmsg_len m + 3) = unat (nlmsg_len m) + 3" by (simp add: unat_word_ariths)
  then have "unat (nlmsg_align (nlmsg_len m)) = (unat (nlmsg_len m) + 3) div 4 * 4"
    unfolding nlmsg_align_def unat_align_word by simp
  also have "\<dots> = unat (nlmsg_len m)" using len by (auto simp: dvd_def)
  finally have "unat (nlmsg_align (nlmsg_len m)) = length (nl_bytes m)" using len(1) by (simp add: built_bytes [OF assms] nlmsghdr_def)
  moreover have "peek32 (nl_bytes m) 0 = Some (nlmsg_len m)"
    using peek32_host32 [of "[]" 0] by (simp add: built_bytes [OF assms] nlmsghdr_def)
  moreover have "16 \<le> nlmsg_len m" using len(1) by (simp add: word_le_nat_alt)
  ultimately show "whole_message (nl_bytes m)" by (auto simp: whole_message_def)
  show "peek16 (nl_bytes m @ rest) 4 = Some (nlmsg_type m)"
    by (simp add: built_bytes [OF assms] nlmsghdr_def)
qed

lemma route_messageE:
  assumes "route_message m e"
  obtains body k where "built m body k" "nlmsg_type m = RTM_NEWROUTE"
    "AddRoutingEntry pton4 pton6 (nl_bytes m @ rest) entries = Some (entries @ [e])"
proof -
  obtain flags sequence pid network cidr ok where
    set: "SetRoutesMessage RTM_NEWROUTE flags sequence pid network cidr (re_gateway e) (re_source e) (re_interface e) = Some m" and
    facts: "uint cidr < 256" "IPRange_set network (uint cidr) IPRange_new = Some (ok, re_destination e)"
      "re_source e = None \<or> ip_family_byte (the (re_source e)) = ip_family_byte network" "re_metric e = 0"
    using assms by (auto simp: route_message_def)
  have family: "re_gateway e = None \<or> ip_family_byte (the (re_gateway e)) = ip_family_byte network"
    using set by (auto simp: SetRoutesMessage_def Let_def split: bind_splits option.splits)
  obtain m' scope k where m': "SetRoutesMessage RTM_NEWROUTE flags sequence pid network cidr (re_gateway e) (re_source e) (re_interface e) = Some m'"
    "nlmsg_type m' = RTM_NEWROUTE" "built m' (route_bytes scope cidr network (re_gateway e) (re_source e) (re_interface e)) k"
    by (rule SetRoutesMessage_built [OF family])
  with set have m: "m' = m" by simp
  have "\<lparr>re_source = re_source e, re_destination = re_destination e, re_gateway = re_gateway e, re_interface = re_interface e, re_metric = 0\<rparr> = e"
    using facts(4) by simp
  with route_read [OF m'(3) [unfolded m] facts(1,2) family facts(3), of pton4 pton6 rest entries]
  have "AddRoutingEntry pton4 pton6 (nl_bytes m @ rest) entries = Some (entries @ [e])" by simp
  with m'(2,3) show thesis unfolding m by (intro that)
qed

lemma routes_handled:
  assumes "\<forall>x \<in> set part. route_message (fst x) (snd x)"
  shows "handle_all (dump_step pton4 pton6) (map (\<lambda>x. nl_bytes (fst x)) part @ bs) (st, entries) =
    handle_all (dump_step pton4 pton6) bs (st, entries @ map snd part)"
  using assms
proof (induction part arbitrary: entries)
  case (Cons x part)
  let ?rest = "concat (map (\<lambda>x. nl_bytes (fst x)) part @ bs)"
  have route: "route_message (fst x) (snd x)" using Cons.prems by simp
  obtain body k where x: "built (fst x) body k" "nlmsg_type (fst x) = RTM_NEWROUTE"
    "AddRoutingEntry pton4 pton6 (nl_bytes (fst x) @ ?rest) entries = Some (entries @ [snd x])"
    by (rule route_messageE [OF route])
  have "dump_step pton4 pton6 (nl_bytes (fst x) @ ?rest) (st, entries) = Some (st, entries @ [snd x])"
    using x(3) built_whole(2) [OF x(1), of ?rest] by (simp add: dump_step_def x(2) netlink_numbers)
  with Cons show ?case by simp
qed simp

lemma route_blocks_whole: "\<forall>x \<in> set part. route_message (fst x) (snd x) \<Longrightarrow> list_all whole_message (map (\<lambda>x. nl_bytes (fst x)) part)"
  unfolding list_all_iff by (metis (no_types, lifting) built_whole(1) imageE list.set_map route_messageE)

lemma replies_read:
  assumes "\<forall>part \<in> set (final # parts). \<forall>x \<in> set part. route_message (fst x) (snd x)" "done_message finish"
  shows "read_replies (dump_step pton4 pton6) (map (map (\<lambda>x. nl_bytes (fst x))) parts @ [map (\<lambda>x. nl_bytes (fst x)) final @ [nl_bytes finish]]) entries =
    Some (entries @ map snd (concat parts @ final))"
  using assms(1)
proof (induction parts arbitrary: entries)
  case Nil
  obtain body where "built finish body 0" "nlmsg_type finish = NLMSG_DONE" using assms(2) by (auto simp: done_message_def)
  then have "handle_all (dump_step pton4 pton6) [nl_bytes finish] (Reply_MORE, entries @ map snd final) = Some (Reply_OK, entries @ map snd final)"
    using built_whole(2) [of finish body 0 "[]"] by (simp add: dump_step_def netlink_numbers)
  with Nil show ?case by (simp add: routes_handled)
next
  case (Cons part parts)
  have "handle_all (dump_step pton4 pton6) (map (\<lambda>x. nl_bytes (fst x)) part) (Reply_MORE, entries) = Some (Reply_MORE, entries @ map snd part)"
    using routes_handled [of part pton4 pton6 "[]"] Cons.prems by simp
  with Cons show ?case by simp
qed

section \<open>The status of a reply\<close>

definition message_type :: "bytes \<Rightarrow> u16 option" where
  "message_type b = peek16 b 4"

definition says_the_end :: "bytes \<Rightarrow> bool" where
  "says_the_end b \<longleftrightarrow> message_type b = Some NLMSG_ERROR \<or> message_type b = Some NLMSG_DONE"

lemma reply_step_whole:
  assumes "whole_message b"
  obtains status where "reply_step (b @ rest) (st, ()) = Some (status, ())"
    "status = Reply_MORE \<longleftrightarrow> st = Reply_MORE \<and> \<not> says_the_end b" "status = Reply_ERROR \<Longrightarrow> st = Reply_ERROR \<or> message_type b = Some NLMSG_ERROR"
proof -
  obtain len where len: "peek32 b 0 = Some len" "16 \<le> len" "16 \<le> length b" "unat len \<le> length b"
    by (rule whole_messageE [OF assms])
  obtain type where type: "peek16 b 4 = Some type" using peeks(1) [of 4 b] len(3) by auto
  have start: "peek32 (b @ rest) 0 = Some len" "peek16 (b @ rest) 4 = Some type"
    using peek_append [of _ b rest] len type by simp_all
  have "unat (len - 16) = unat len - 16" using len(2) by (subst unat_sub) simp_all
  then have "20 \<le> len - 16 \<Longrightarrow> 20 \<le> length b" using len(4) by (simp add: word_le_nat_alt)
  then have error: "20 \<le> len - 16 \<Longrightarrow> \<exists>w. peek32 (b @ rest) 16 = Some w"
    using peeks(2) [of 16 b] peek_append(2) [of 16 b rest] by simp
  show thesis
  proof (cases "type = NLMSG_ERROR")
    case True
    obtain status where status: "ParseErrorHeader (b @ rest) = Some status" "status \<noteq> Reply_MORE"
    proof (cases "len - 16 < 20")
      case True
      then show thesis using start len(2) by (intro that [of Reply_ERROR]) (simp_all add: ParseErrorHeader_def \<open>type = NLMSG_ERROR\<close>)
    next
      case False
      with error obtain w where "peek32 (b @ rest) 16 = Some w" by (auto simp: not_less)
      with False show thesis
        using start len(2) by (intro that [of "if w \<noteq> 0 then Reply_ERROR else Reply_OK"]) (simp_all add: ParseErrorHeader_def \<open>type = NLMSG_ERROR\<close>)
    qed
    with True start show thesis
      by (intro that [of status]) (simp_all add: reply_step_def says_the_end_def message_type_def type)
  next
    case False
    with start show thesis
      by (intro that [of "if type = NLMSG_DONE \<and> st = Reply_MORE then Reply_OK else st"])
        (auto simp: reply_step_def says_the_end_def message_type_def type split: if_splits)
  qed
qed

lemma reply_steps_whole:
  assumes "list_all whole_message bs"
  shows "\<exists>status. handle_all reply_step bs (st, ()) = Some (status, ()) \<and>
    (status = Reply_MORE \<longleftrightarrow> st = Reply_MORE \<and> \<not> list_ex says_the_end bs) \<and>
    (status = Reply_ERROR \<longrightarrow> st = Reply_ERROR \<or> (\<exists>b \<in> set bs. message_type b = Some NLMSG_ERROR))"
  using assms
proof (induction bs arbitrary: st)
  case (Cons b bs)
  have whole: "whole_message b" using Cons.prems by simp
  obtain status where status: "reply_step (b @ concat bs) (st, ()) = Some (status, ())"
    "status = Reply_MORE \<longleftrightarrow> st = Reply_MORE \<and> \<not> says_the_end b" "status = Reply_ERROR \<Longrightarrow> st = Reply_ERROR \<or> message_type b = Some NLMSG_ERROR"
    using reply_step_whole [OF whole, of "concat bs" st] by blast
  show ?case using Cons.IH [of status] Cons.prems status by auto
qed simp

section \<open>The other messages fit\<close>

lemma IfAddrMessage_fits:
  "\<exists>m. IfAddrMessage type flags sequence pid network cidr index = Some m \<and> length (nl_bytes m) = unat (nlmsg_len m)"
  using length_ip_Raw(1) [of network] by (auto simp: IfAddrMessage_def AddAttribute_def Let_def nl_bytes_def nlmsghdr_def ifaddrmsg_def rta_align_def)

lemma LinkMessage_fits:
  assumes "length name < 65535"
  shows "if length name \<le> 123
     then \<exists>m. LinkMessage type flags sequence pid name change ifflags = Some m \<and> length (nl_bytes m) = unat (nlmsg_len m)
     else LinkMessage type flags sequence pid name change ifflags = None"
proof (cases "length name \<le> 123")
  case True
  define n where "n = rta_align (5 + length name)"
  have n: "n \<le> 128" using True by (simp add: n_def rta_align_def)
  then have "unat (32 + of_nat n :: u32) = 32 + n" by (simp add: unat_word_ariths unat_of_nat take_bit_nat_eq_self)
  with True n assms show ?thesis
    by (simp add: LinkMessage_def AddAttribute_def Let_def nl_bytes_def nlmsghdr_def ifinfomsg_def flip: n_def)
next
  case False
  with assms show ?thesis by (simp add: LinkMessage_def AddAttribute_def Let_def ifinfomsg_def)
qed

section \<open>A request that is confirmed\<close>

text \<open>The kernel's answer to a request that it carried out: an error message with the number 0.\<close>

definition is_ack :: "bytes \<Rightarrow> bool" where
  "is_ack b \<longleftrightarrow> whole_message b \<and> length b < 4096 \<and> message_type b = Some NLMSG_ERROR \<and> peek32 b 16 = Some 0 \<and>
     (\<exists>len. peek32 b 0 = Some len \<and> 36 \<le> len)"

text \<open>The next \<open>k\<close> requests can be sent, and are confirmed.\<close>

definition confirming :: "nat \<Rightarrow> netlink \<Rightarrow> bool" where
  "confirming k nl \<longleftrightarrow> 0 \<le> nl_fd nl \<and> nl_seq nl + int k < 2 ^ 31 \<and>
     (\<exists>ns sends. nl_send nl = ns @ sends \<and> length ns = k \<and> 0 \<notin> set ns) \<and>
     (\<exists>acks rest. nl_recv nl = map Inr acks @ rest \<and> length acks = k \<and> list_all is_ack acks)"

definition same_system :: "netlink \<Rightarrow> netlink \<Rightarrow> bool" where
  "same_system nl nl' \<longleftrightarrow> nl_pid nl' = nl_pid nl \<and> nl_index nl' = nl_index nl"

lemma ack_confirms:
  assumes "is_ack b"
  shows "read_replies reply_step [[b]] () = Some ()" "readable_reply [b]"
proof -
  obtain len where b: "peek16 b 4 = Some NLMSG_ERROR" "peek32 b 0 = Some len" "36 \<le> len" "peek32 b 16 = Some 0"
    using assms by (auto simp: is_ack_def message_type_def)
  have "unat (len - 16) = unat len - 16" using b(3) by (subst unat_sub) (simp_all add: word_le_nat_alt)
  then have "\<not> len - 16 < 20" using b(3) by (simp add: word_less_nat_alt word_le_nat_alt)
  then show "read_replies reply_step [[b]] () = Some ()"
    using b by (simp add: reply_step_def ParseErrorHeader_def)
  show "readable_reply [b]" using assms b(2) by (auto simp: is_ack_def readable_reply_def peek32_def)
qed

lemma request_confirmed:
  assumes "confirming (Suc k) nl"
  obtains nl1 where "GetSeq nl = Some (of_int (nl_seq nl + 1), nl1)" "same_system nl nl1"
    "\<forall>m. \<exists>nl'. confirm (Some m) nl1 = Some (True, nl') \<and> confirming k nl' \<and> same_system nl nl' \<and> nl_sent nl' = nl_sent nl @ [nl_bytes m]"
proof -
  obtain ns sends where ns: "nl_send nl = ns @ sends" "length ns = Suc k" "0 \<notin> set ns" using assms by (auto simp: confirming_def)
  obtain n ns' where n: "nl_send nl = n # ns' @ sends" "length ns' = k" "0 \<notin> set ns'" "n \<noteq> 0" using ns by (cases ns) auto
  obtain acks rest where acks: "nl_recv nl = map Inr acks @ rest" "length acks = Suc k" "list_all is_ack acks" using assms by (auto simp: confirming_def)
  obtain b acks' where b: "nl_recv nl = Inr b # map Inr acks' @ rest" "length acks' = k" "list_all is_ack acks'" "is_ack b"
    using acks by (cases acks) auto
  define nl1 where "nl1 = nl\<lparr>nl_seq := nl_seq nl + 1\<rparr>"
  have "GetSeq nl = Some (of_int (nl_seq nl + 1), nl1)" using assms by (simp add: GetSeq_def increment_def nl1_def confirming_def)
  moreover have "same_system nl nl1" by (simp add: same_system_def nl1_def)
  moreover have "\<forall>m. \<exists>nl'. confirm (Some m) nl1 = Some (True, nl') \<and> confirming k nl' \<and> same_system nl nl' \<and> nl_sent nl' = nl_sent nl @ [nl_bytes m]"
  proof
    fix m
    define nl' where "nl' = nl1\<lparr>nl_send := ns' @ sends, nl_sent := nl_sent nl1 @ [nl_bytes m], nl_recv := map Inr acks' @ rest\<rparr>"
    have parse: "ParseReply r u = reply_loop reply_step r (Reply_MORE, u)" for r u by (simp add: ParseReply_def)
    have "Chat ParseReply m () nl1 = Some (True, (), nl')"
      unfolding nl'_def
      by (rule Chat_runs [where bss = "[[b]]" and step = reply_step, OF _ _ n(4) _ _ ack_confirms(1) [OF b(4)] parse])
        (use assms n(1) b(1) ack_confirms(2) [OF b(4)] in \<open>simp_all add: nl1_def confirming_def\<close>)
    moreover have "confirming k nl'" using assms n b by (auto simp: confirming_def nl'_def nl1_def)
    ultimately show "\<exists>nl'. confirm (Some m) nl1 = Some (True, nl') \<and> confirming k nl' \<and> same_system nl nl' \<and> nl_sent nl' = nl_sent nl @ [nl_bytes m]"
      by (intro exI [of _ nl']) (simp add: confirm_def same_system_def nl'_def nl1_def)
  qed
  ultimately show thesis by (rule that)
qed

text \<open>So the requests a tunnel needs are made.\<close>

lemma requests_confirmed:
  assumes "confirming (Suc k) nl"
  shows "length (if_name i) \<le> 123 \<Longrightarrow> \<exists>nl' m. Enable i nl = Some (True, nl') \<and> confirming k nl' \<and> same_system nl nl' \<and> nl_sent nl' = nl_sent nl @ [nl_bytes m] \<and>
      LinkMessage RTM_NEWLINK (NLM_F_REQUEST OR NLM_F_ACK) (of_int (nl_seq nl + 1)) (nl_pid nl) (if_name i) IFF_UP IFF_UP = Some m"
    and "\<exists>nl' m. AddAddress i address cidr nl = Some (True, nl') \<and> confirming k nl' \<and> same_system nl nl' \<and> nl_sent nl' = nl_sent nl @ [nl_bytes m] \<and>
      IfAddrMessage RTM_NEWADDR (NLM_F_REQUEST OR NLM_F_CREATE OR NLM_F_ACK OR NLM_F_EXCL) (of_int (nl_seq nl + 1)) (nl_pid nl) address cidr (if_index i) = Some m"
    and "\<exists>nl' m. AddRoute network cidr None source index nl = Some (True, nl') \<and> confirming k nl' \<and> same_system nl nl' \<and> nl_sent nl' = nl_sent nl @ [nl_bytes m] \<and>
      SetRoutesMessage RTM_NEWROUTE (NLM_F_ACK OR NLM_F_REQUEST OR NLM_F_CREATE OR NLM_F_REPLACE) (of_int (nl_seq nl + 1)) (nl_pid nl) network cidr None source index = Some m"
proof -
  obtain nl1 where nl1: "GetSeq nl = Some (of_int (nl_seq nl + 1), nl1)" "same_system nl nl1"
    "\<forall>m. \<exists>nl'. confirm (Some m) nl1 = Some (True, nl') \<and> confirming k nl' \<and> same_system nl nl' \<and> nl_sent nl' = nl_sent nl @ [nl_bytes m]"
    by (rule request_confirmed [OF assms])
  have pid: "nl_pid nl1 = nl_pid nl" using nl1(2) by (simp add: same_system_def)
  show "\<exists>nl' m. Enable i nl = Some (True, nl') \<and> confirming k nl' \<and> same_system nl nl' \<and> nl_sent nl' = nl_sent nl @ [nl_bytes m] \<and>
      LinkMessage RTM_NEWLINK (NLM_F_REQUEST OR NLM_F_ACK) (of_int (nl_seq nl + 1)) (nl_pid nl) (if_name i) IFF_UP IFF_UP = Some m"
    if "length (if_name i) \<le> 123"
  proof -
    have "\<exists>m. LinkMessage RTM_NEWLINK (NLM_F_REQUEST OR NLM_F_ACK) (of_int (nl_seq nl + 1)) (nl_pid nl) (if_name i) IFF_UP IFF_UP = Some m"
      using LinkMessage_fits [of "if_name i" RTM_NEWLINK "NLM_F_REQUEST OR NLM_F_ACK" "of_int (nl_seq nl + 1)" "nl_pid nl" IFF_UP IFF_UP] that by auto
    then show ?thesis using nl1(1,3) pid unfolding Enable_def by (auto simp del: of_int_add)
  qed
  show "\<exists>nl' m. AddAddress i address cidr nl = Some (True, nl') \<and> confirming k nl' \<and> same_system nl nl' \<and> nl_sent nl' = nl_sent nl @ [nl_bytes m] \<and>
      IfAddrMessage RTM_NEWADDR (NLM_F_REQUEST OR NLM_F_CREATE OR NLM_F_ACK OR NLM_F_EXCL) (of_int (nl_seq nl + 1)) (nl_pid nl) address cidr (if_index i) = Some m"
    using IfAddrMessage_fits [of RTM_NEWADDR "NLM_F_REQUEST OR NLM_F_CREATE OR NLM_F_ACK OR NLM_F_EXCL" "of_int (nl_seq nl + 1)" "nl_pid nl" address cidr "if_index i"]
      nl1(1,3) pid unfolding AddAddress_def by (auto simp del: of_int_add)
  obtain m scope j where "SetRoutesMessage RTM_NEWROUTE (NLM_F_ACK OR NLM_F_REQUEST OR NLM_F_CREATE OR NLM_F_REPLACE) (of_int (nl_seq nl + 1)) (nl_pid nl) network cidr None source index = Some m"
    "built m (route_bytes scope cidr network None source index) j"
    by (rule SetRoutesMessage_built [where gateway = None]) auto
  then show "\<exists>nl' m. AddRoute network cidr None source index nl = Some (True, nl') \<and> confirming k nl' \<and> same_system nl nl' \<and> nl_sent nl' = nl_sent nl @ [nl_bytes m] \<and>
      SetRoutesMessage RTM_NEWROUTE (NLM_F_ACK OR NLM_F_REQUEST OR NLM_F_CREATE OR NLM_F_REPLACE) (of_int (nl_seq nl + 1)) (nl_pid nl) network cidr None source index = Some m"
    using nl1(1,3) pid unfolding AddRoute_def by (auto simp del: of_int_add)
qed

section \<open>Examples\<close>

text \<open>The route to 10.0.0.0/8 over interface 1, and the kernel's last message.\<close>

definition example_route :: nl_message where
  "example_route = \<lparr>nlmsg_len = 44, nlmsg_type = 24, nlmsg_flags = 0, nlmsg_seq = 0, nlmsg_pid = 0,
     nlmsg_rest = [2, 8, 0, 0, 254, 3, 253, 1, 0, 0, 0, 0, 8, 0, 1, 0, 10, 0, 0, 0, 8, 0, 4, 0, 1, 0, 0, 0] @ replicate 112 0\<rparr>"

definition example_entry :: routing_entry where
  "example_entry = \<lparr>re_source = None, re_destination = snd (the (IPRange_set (IPv4Address 0x0A000000) 8 IPRange_new)),
     re_gateway = None, re_interface = 1, re_metric = 0\<rparr>"

definition example_done :: nl_message where
  "example_done = \<lparr>nlmsg_len = 20, nlmsg_type = 3, nlmsg_flags = 0, nlmsg_seq = 0, nlmsg_pid = 0, nlmsg_rest = [0, 0, 0, 0]\<rparr>"

lemma example_route_message: "route_message example_route example_entry"
proof -
  have "SetRoutesMessage RTM_NEWROUTE 0 0 0 (IPv4Address 0x0A000000) 8 None None 1 = Some example_route" by code_simp
  moreover have "IPRange_set (IPv4Address 0x0A000000) 8 IPRange_new \<noteq> None" by code_simp
  ultimately show ?thesis
    unfolding route_message_def example_entry_def
    by (intro conjI exI [of _ "0 :: u16"] exI [of _ "0 :: u32"] exI [of _ "IPv4Address 0x0A000000"] exI [of _ "8 :: u16"]
        exI [of _ "fst (the (IPRange_set (IPv4Address 0x0A000000) 8 IPRange_new))"]) auto
qed

lemma example_done_message: "done_message example_done"
proof -
  have "4 dvd length [0 :: byte, 0, 0, 0]" by code_simp
  then have "built example_done [0, 0, 0, 0] 0" by (simp add: built_def example_done_def)
  then show ?thesis by (auto simp: done_message_def example_done_def NLMSG_DONE_def)
qed

definition example_netlink :: "(errno + bytes) list \<Rightarrow> netlink" where
  "example_netlink replies = \<lparr>nl_fd = 5, nl_seq = 0, nl_pid = 1, nl_socket = [], nl_send = [28], nl_recv = replies, nl_index = \<lambda>_. 1, nl_sent = []\<rparr>"

text \<open>The kernel's acknowledgement of a request.\<close>

definition ack_message :: bytes where
  "ack_message = host32 36 @ host16 2 @ replicate 30 0"

lemma ack_message_ok: "is_ack ack_message"
proof -
  have "peek32 ack_message 0 = Some 36" "unat (nlmsg_align 36) = length ack_message" "(36 :: u32) \<le> 36" "(16 :: u32) \<le> 36" by code_simp+
  then have "whole_message ack_message" "\<exists>len. peek32 ack_message 0 = Some len \<and> 36 \<le> len" unfolding whole_message_def by blast+
  moreover have "length ack_message < 4096" "message_type ack_message = Some NLMSG_ERROR" "peek32 ack_message 16 = Some 0" by code_simp+
  ultimately show ?thesis by (simp add: is_ack_def)
qed

section \<open>Properties\<close>







end
