(* ===== verification/TunnelPackets.thy ===== *)
theory TunnelPackets
  imports Tunnels NetlinkReplies
begin

text \<open>
  What the tunnels do with the packets of a session: each is offered to the device once, whole and in order, and the
  kernel is asked to say when the device can be written to exactly while packets wait.
\<close>

section \<open>What the kernel waits for\<close>

definition device_watched :: "nat \<Rightarrow> int \<Rightarrow> bool \<Rightarrow> handler dispatcher \<Rightarrow> bool" where
  "device_watched t fd waiting d \<longleftrightarrow> dispatcher_inv d \<and> list_all (\<lambda>b. b) (dp_ctl d) \<and>
     (\<exists>q. dp_fd_events d fd = Some q \<and> ev_events (dp_heap d ! q) = EPOLLIN OR (if waiting then EPOLLOUT else 0) \<and>
        ev_read (dp_heap d ! q) = Some (Tunnel_read_handler t) \<and>
        (waiting \<longrightarrow> ev_write (dp_heap d ! q) = Some (Tunnel_write_handler t)))"

lemma device_SetFd:
  assumes "device_watched t fd waiting d" "dp_ctl d \<noteq> []"
  shows "SetFd fd EV_WRITE EV_NONE None (Some (Tunnel_write_handler t)) d = Some (ok, d') \<Longrightarrow> device_watched t fd True d'"
    and "SetFd fd EV_NONE EV_WRITE None None d = Some (ok, d') \<Longrightarrow> device_watched t fd False d'"
proof -
  have d: "dispatcher_inv d" "list_all (\<lambda>b. b) (dp_ctl d)" using assms(1) by (simp_all add: device_watched_def)
  show "device_watched t fd True d'" if run: "SetFd fd EV_WRITE EV_NONE None (Some (Tunnel_write_handler t)) d = Some (ok, d')"
    using SetFd_accepted [OF d assms(2) run] SetFd_inv(1) [OF d(1) run] list_all_suffix [OF SetFd_suffix [OF run] d(2)] assms(1)
    by (auto simp: device_watched_def changed_event_def Let_def EPOLLIN_def EPOLLOUT_def split: if_splits)
  show "device_watched t fd False d'" if run: "SetFd fd EV_NONE EV_WRITE None None d = Some (ok, d')"
    using SetFd_accepted [OF d assms(2) run] SetFd_inv(1) [OF d(1) run] list_all_suffix [OF SetFd_suffix [OF run] d(2)] assms(1)
    by (auto simp: device_watched_def changed_event_def Let_def EPOLLIN_def EPOLLOUT_def split: if_splits)
qed

section \<open>A packet is copied and written in one piece\<close>

definition whole_packet :: "reader \<Rightarrow> bool" where
  "whole_packet b \<longleftrightarrow> reader_ok [] b \<and> length (cs_chunks (fst b)) \<le> kIovecSize"

lemma copy_loop_chunk_count:
  assumes "encode_cursor_loop s cur d = Some q"
  shows "length (cs_chunks (snd (snd q))) = length (cs_chunks d)"
  using assms
  by (rule encode_cursor_loop.raw_induct [rotated])
    (auto split: bind_splits if_splits dest: commit_chunk_count)

lemma copied_packet:
  assumes "reader_ok [] r"
  obtains s cur d where "encode_cursor (fst r) (snd r) (fst empty_reader) = Some (True, s, cur, d)" "whole_packet (d, snd empty_reader)"
    "reader_contents (d, snd empty_reader) = reader_contents r" "reader_contents (s, cur) = []"
proof -
  have r: "readable (fst r) (snd r) []" "oc_limited (snd r) = None" using assms by (simp_all add: reader_ok_def)
  have buf: "buf_inv (fst empty_reader) [snd empty_reader]" using empty_reader_ok(1) by (simp add: tidy_def)
  obtain s cur d where copy: "encode_cursor (fst r) (snd r) (fst empty_reader) = Some (True, s, cur, d)" "unread s cur = []"
    "buf_inv d [snd empty_reader]" "unread d (snd empty_reader) = unread (fst empty_reader) (snd empty_reader) @ unread (fst r) (snd r)"
    using EncodeToBuffer_moves_everything [OF r buf] by auto
  have contents: "reader_contents (d, snd empty_reader) = reader_contents r"
    using copy(4) empty_reader_ok(2) by (simp add: reader_contents_def)
  have "length (cs_chunks d) \<le> 1"
    using copy(1) reserve_chunk_count [of "fst empty_reader"] copy_loop_chunk_count
    by (auto simp: encode_cursor_def empty_reader_def cs_new_def split: bind_splits)
  then have "gap_free (cs_chunks d)" "length (cs_chunks d) \<le> kIovecSize"
    by (cases "cs_chunks d"; simp add: kIovecSize_def)+
  moreover have "oc_limited (snd empty_reader) = None" by (simp add: empty_reader_def)
  moreover have "length (unread d (snd empty_reader)) < 2 ^ 32"
    using contents r(1) by (simp add: reader_contents_def readable_def)
  ultimately have "whole_packet (d, snd empty_reader)" using copy(3) by (simp add: whole_packet_def reader_ok_def readable_def)
  with copy(1,2) contents show thesis by (intro that) (simp_all add: reader_contents_def)
qed

lemma tun_Write_whole:
  assumes b: "whole_packet b" and run: "tun_Write tu b n = Some (ok, b', n')"
  shows "if ok then (\<exists>k. tk_written (ho_kernel n') = tk_written (ho_kernel n) @ [(tu_fd tu, take k (reader_contents b))])
    else tk_written (ho_kernel n') = tk_written (ho_kernel n)"
    "nt_dispatcher n' = nt_dispatcher n" "ho_tunnels n' = ho_tunnels n"
proof -
  have ok: "readable (fst b) (snd b) []" "oc_limited (snd b) = None" "length (cs_chunks (fst b)) \<le> kIovecSize"
    using b by (simp_all add: whole_packet_def reader_ok_def)
  obtain vect where vect: "oc_iovec (fst b) (snd b) = Some (vect, length (concat vect))" "unread (fst b) (snd b) = concat vect"
    by (rule iovec_prefix [OF ok(1,2)]) (use ok(3) in auto)
  show "if ok then (\<exists>k. tk_written (ho_kernel n') = tk_written (ho_kernel n) @ [(tu_fd tu, take k (reader_contents b))])
    else tk_written (ho_kernel n') = tk_written (ho_kernel n)"
    using run vect by (auto simp: tun_Write_def Let_def reader_contents_def split: bind_splits sum.splits) blast
  show "nt_dispatcher n' = nt_dispatcher n" "ho_tunnels n' = ho_tunnels n"
    using run by (auto simp: tun_Write_def Let_def split: bind_splits sum.splits)
qed

section \<open>What a tunnel goes through\<close>

text \<open>The rest of the program does anything but touch the tunnel, its descriptor and its device.\<close>

definition others_leave :: "nat \<Rightarrow> ('c, 'e) host_scheme \<Rightarrow> ('c, 'e) host_scheme \<Rightarrow> bool" where
  "others_leave t n n' \<longleftrightarrow>
     t < length (ho_tunnels n') \<and> ho_tunnels n' ! t = ho_tunnels n ! t \<and>
     dispatcher_runs (nt_dispatcher n) (nt_dispatcher n') \<and> suffix (dp_ctl (nt_dispatcher n')) (dp_ctl (nt_dispatcher n)) \<and>
     dp_fd_events (nt_dispatcher n') (tu_fd (ho_tunnels n ! t)) = dp_fd_events (nt_dispatcher n) (tu_fd (ho_tunnels n ! t)) \<and>
     (\<forall>q. dp_fd_events (nt_dispatcher n) (tu_fd (ho_tunnels n ! t)) = Some q \<longrightarrow> dp_heap (nt_dispatcher n') ! q = dp_heap (nt_dispatcher n) ! q) \<and>
     (\<exists>ws. tk_written (ho_kernel n') = tk_written (ho_kernel n) @ ws \<and> list_all (\<lambda>w. fst w \<noteq> tu_fd (ho_tunnels n ! t)) ws)"

inductive tunnel_runs :: "nat \<Rightarrow> ('c, 'e) host_scheme \<Rightarrow> bytes list \<Rightarrow> ('c, 'e) host_scheme \<Rightarrow> bool" for t where
  start: "tunnel_runs t n [] n"
| packet: "tunnel_runs t n ps n1 \<Longrightarrow> reader_ok [] r \<Longrightarrow> PacketCallback t r n1 = Some (r', n2) \<Longrightarrow>
    tunnel_runs t n (ps @ [reader_contents r]) n2"
| writable: "tunnel_runs t n ps n1 \<Longrightarrow> TunTapWriteCallback t n1 = Some n2 \<Longrightarrow> tunnel_runs t n ps n2"
| others: "tunnel_runs t n ps n1 \<Longrightarrow> others_leave t n1 n2 \<Longrightarrow> tunnel_runs t n ps n2"

definition written_to :: "int \<Rightarrow> ('c, 'e) host_scheme \<Rightarrow> bytes list" where
  "written_to fd n = map snd (filter (\<lambda>w. fst w = fd) (tk_written (ho_kernel n)))"

text \<open>Of the packets \<open>ps\<close>, the first were offered, and the rest wait. Of an offered packet the device took some front part.\<close>

definition tunnel_good :: "nat \<Rightarrow> int \<Rightarrow> bytes list \<Rightarrow> ('c, 'e) host_scheme \<Rightarrow> bool" where
  "tunnel_good t fd ps n \<longleftrightarrow> t < length (ho_tunnels n) \<and>
     (let tu = ho_tunnels n ! t; waiting = pq_queue (tu_queue tu) in
       tu_fd tu = fd \<and> pq_to_queue (tu_queue tu) = None \<and> list_all whole_packet waiting \<and>
       device_watched t fd (waiting \<noteq> []) (nt_dispatcher n) \<and>
       (\<exists>offered. ps = offered @ map reader_contents waiting \<and> list_all2 (\<lambda>w p. \<exists>k. w = take k p) (written_to fd n) offered))"

lemma PacketCallback_good:
  assumes good: "tunnel_good t fd ps n" "dp_ctl (nt_dispatcher n) \<noteq> []" and r: "reader_ok [] r" and run: "PacketCallback t r n = Some (r', n')"
  shows "tunnel_good t fd (ps @ [reader_contents r]) n'"
proof -
  define tu where "tu = ho_tunnels n ! t"
  define waiting where "waiting = pq_queue (tu_queue tu)"
  have tu: "t < length (ho_tunnels n)" "tu_fd tu = fd" "pq_to_queue (tu_queue tu) = None" "list_all whole_packet waiting"
    "device_watched t fd (waiting \<noteq> []) (nt_dispatcher n)"
    and offered: "\<exists>offered. ps = offered @ map reader_contents waiting \<and> list_all2 (\<lambda>w p. \<exists>k. w = take k p) (written_to fd n) offered"
    using good(1) by (simp_all add: tunnel_good_def Let_def tu_def waiting_def)
  obtain s cur d where copy: "encode_cursor (fst r) (snd r) (fst empty_reader) = Some (True, s, cur, d)" "whole_packet (d, snd empty_reader)"
    "reader_contents (d, snd empty_reader) = reader_contents r"
    by (rule copied_packet [OF r])
  define q where "q = (tu_queue tu)\<lparr>pq_queue := waiting @ [(d, snd empty_reader)], pq_to_queue := None\<rparr>"
  define n1 where "n1 = set_tunnel t (tu\<lparr>tu_queue := q\<rparr>) n"
  have same: "tunnel_good t fd (ps @ [reader_contents r]) n2" if "ho_tunnels n2 = ho_tunnels n1" "ho_kernel n2 = ho_kernel n"
    "device_watched t fd True (nt_dispatcher n2)" for n2
  proof -
    have "ho_tunnels n2 ! t = tu\<lparr>tu_queue := q\<rparr>" "t < length (ho_tunnels n2)" using that(1) tu(1) by (simp_all add: n1_def set_tunnel_def)
    moreover have "written_to fd n2 = written_to fd n" using that(2) by (simp add: written_to_def)
    ultimately show ?thesis using tu(2,4) copy(2,3) offered that(3) by (auto simp: tunnel_good_def Let_def q_def)
  qed
  have eq: "(if Pending q = 1 then dispatch (SetFd fd EV_WRITE EV_NONE None (Some (Tunnel_write_handler t))) n1 else Some n1) = Some n'"
    using run tu(2,3) copy(1)
    by (auto simp: PacketCallback_def Let_def ToQueue_def new_buffer_run Queued_def tu_def [symmetric] waiting_def [symmetric] q_def n1_def
        split: bind_splits if_splits prod.splits)
  have n1: "nt_dispatcher n1 = nt_dispatcher n" "ho_kernel n1 = ho_kernel n" by (simp_all add: n1_def set_tunnel_def)
  show ?thesis
  proof (cases "waiting = []")
    case True
    then have "dispatch (SetFd fd EV_WRITE EV_NONE None (Some (Tunnel_write_handler t))) n1 = Some n'" using eq by (simp add: q_def Pending_def)
    then obtain ok d' where d': "SetFd fd EV_WRITE EV_NONE None (Some (Tunnel_write_handler t)) (nt_dispatcher n) = Some (ok, d')" "n' = n1\<lparr>nt_dispatcher := d'\<rparr>"
      by (rule dispatch_result) (simp add: n1)
    show ?thesis by (rule same) (use device_SetFd(1) [OF tu(5) good(2) d'(1)] in \<open>simp_all add: d'(2) n1\<close>)
  next
    case False
    then have "n' = n1" using eq by (simp add: q_def Pending_def)
    with False tu(5) show ?thesis by (intro same) (simp_all add: n1)
  qed
qed

lemma TunTapWriteCallback_good:
  assumes good: "tunnel_good t fd ps n" "dp_ctl (nt_dispatcher n) \<noteq> []" and run: "TunTapWriteCallback t n = Some n'"
  shows "tunnel_good t fd ps n'"
proof -
  define tu where "tu = ho_tunnels n ! t"
  define waiting where "waiting = pq_queue (tu_queue tu)"
  have tu: "t < length (ho_tunnels n)" "tu_fd tu = fd" "pq_to_queue (tu_queue tu) = None" "list_all whole_packet waiting"
    "device_watched t fd (waiting \<noteq> []) (nt_dispatcher n)"
    using good(1) by (simp_all add: tunnel_good_def Let_def tu_def waiting_def)
  obtain offered where offered: "ps = offered @ map reader_contents waiting" "list_all2 (\<lambda>w p. \<exists>k. w = take k p) (written_to fd n) offered"
    using good(1) by (auto simp: tunnel_good_def Let_def tu_def waiting_def)
  show ?thesis
  proof (cases waiting)
    case Nil
    then have "dispatch (SetFd fd EV_NONE EV_WRITE None None) (set_tunnel t tu n) = Some n'"
      using run tu(2) by (simp add: TunTapWriteCallback_def Let_def tu_def [symmetric] waiting_def [symmetric] Pending_def)
    then obtain ok d where d: "SetFd fd EV_NONE EV_WRITE None None (nt_dispatcher n) = Some (ok, d)" "n' = set_tunnel t tu n\<lparr>nt_dispatcher := d\<rparr>"
      by (rule dispatch_result) (simp add: set_tunnel_def)
    have "ho_tunnels n' = ho_tunnels n" "written_to fd n' = written_to fd n" by (simp_all add: d(2) set_tunnel_def tu_def written_to_def)
    with device_SetFd(2) [OF tu(5) good(2) d(1)] tu offered Nil show ?thesis
      by (simp add: tunnel_good_def Let_def tu_def [symmetric] waiting_def [symmetric] d(2))
  next
    case (Cons b bs)
    obtain ok b' n1 where w: "tun_Write tu b n = Some (ok, b', n1)"
      "n' = set_tunnel t tu n1 \<and> \<not> ok \<or> ok \<and> (if bs = [] then dispatch (SetFd fd EV_NONE EV_WRITE None None)
        (set_tunnel t (tu\<lparr>tu_queue := (tu_queue tu)\<lparr>pq_queue := bs\<rparr>\<rparr>) n1) = Some n' else n' = set_tunnel t (tu\<lparr>tu_queue := (tu_queue tu)\<lparr>pq_queue := bs\<rparr>\<rparr>) n1)"
      using run tu(2) Cons
      by (auto simp: TunTapWriteCallback_def Let_def tu_def [symmetric] Pending_def ToSend_def Sent_def waiting_def split: bind_splits if_splits)
    have b: "whole_packet b" using tu(4) Cons by simp
    note wrote = tun_Write_whole [OF b w(1)]
    show ?thesis
    proof (cases ok)
      case False
      with w(2) have n': "n' = set_tunnel t tu n1" by simp
      have "ho_tunnels n' = ho_tunnels n" "written_to fd n' = written_to fd n" "nt_dispatcher n' = nt_dispatcher n"
        using wrote False by (simp_all add: n' set_tunnel_def tu_def written_to_def)
      with tu offered show ?thesis
        by (simp add: tunnel_good_def Let_def tu_def [symmetric] waiting_def [symmetric])
    next
      case True
      then obtain k where k: "tk_written (ho_kernel n1) = tk_written (ho_kernel n) @ [(fd, take k (reader_contents b))]" using wrote(1) tu(2) by auto
      let ?tu = "tu\<lparr>tu_queue := (tu_queue tu)\<lparr>pq_queue := bs\<rparr>\<rparr>"
      have same: "tunnel_good t fd ps n2" if "ho_tunnels n2 = (ho_tunnels n)[t := ?tu]" "ho_kernel n2 = ho_kernel n1"
        "device_watched t fd (bs \<noteq> []) (nt_dispatcher n2)" for n2
      proof -
        have "written_to fd n2 = written_to fd n @ [take k (reader_contents b)]" using that(2) k by (simp add: written_to_def)
        moreover have "ps = (offered @ [reader_contents b]) @ map reader_contents bs" using offered(1) Cons by simp
        moreover have "list_all2 (\<lambda>w p. \<exists>k. w = take k p) (written_to fd n @ [take k (reader_contents b)]) (offered @ [reader_contents b])"
          using offered(2) by (auto intro: list_all2_appendI)
        ultimately show ?thesis using that tu Cons
          by (auto simp: tunnel_good_def Let_def waiting_def [symmetric] intro!: exI [of _ "offered @ [reader_contents b]"])
      qed
      show ?thesis
      proof (cases "bs = []")
        case True
        with w(2) \<open>ok\<close> have "dispatch (SetFd fd EV_NONE EV_WRITE None None) (set_tunnel t ?tu n1) = Some n'" by simp
        then obtain ok' d where d: "SetFd fd EV_NONE EV_WRITE None None (nt_dispatcher n) = Some (ok', d)" "n' = set_tunnel t ?tu n1\<lparr>nt_dispatcher := d\<rparr>"
          by (rule dispatch_result) (simp add: set_tunnel_def wrote(2))
        show ?thesis by (rule same) (use device_SetFd(2) [OF tu(5) good(2) d(1)] True wrote(3) in \<open>simp_all add: d(2) set_tunnel_def\<close>)
      next
        case False
        with w(2) \<open>ok\<close> have n': "n' = set_tunnel t ?tu n1" by simp
        show ?thesis by (rule same) (use tu(5) Cons False wrote(2,3) in \<open>simp_all add: n' set_tunnel_def\<close>)
      qed
    qed
  qed
qed

lemma others_leave_good:
  assumes "tunnel_good t fd ps n" "others_leave t n n'"
  shows "tunnel_good t fd ps n'"
proof -
  have fd: "tu_fd (ho_tunnels n ! t) = fd" using assms(1) by (simp add: tunnel_good_def Let_def)
  have "written_to fd n' = written_to fd n" using assms(2) fd by (auto simp: others_leave_def written_to_def list_all_iff filter_empty_conv)
  moreover have "device_watched t fd waiting (nt_dispatcher n')" if "device_watched t fd waiting (nt_dispatcher n)" for waiting
    using that assms(2) fd dispatcher_runs_inv list_all_suffix by (auto simp: device_watched_def others_leave_def)
  ultimately show ?thesis using assms by (simp add: tunnel_good_def others_leave_def Let_def)
qed

lemma dispatch_SetFd_answers: "dispatch (SetFd fd on clear readh writeh) n = Some n' \<Longrightarrow> suffix (dp_ctl (nt_dispatcher n')) (dp_ctl (nt_dispatcher n))"
  by (auto elim!: dispatch_result dest: SetFd_suffix)

lemma tunnel_step_answers:
  "PacketCallback t r n = Some (r', n') \<Longrightarrow> suffix (dp_ctl (nt_dispatcher n')) (dp_ctl (nt_dispatcher n))"
  "TunTapWriteCallback t n = Some n' \<Longrightarrow> suffix (dp_ctl (nt_dispatcher n')) (dp_ctl (nt_dispatcher n))"
proof -
  have tunnel: "nt_dispatcher (set_tunnel t tu n) = nt_dispatcher n" for tu and n :: "('c, 'e) host_scheme" by (simp add: set_tunnel_def)
  have wrote: "nt_dispatcher n1 = nt_dispatcher n" if "tun_Write tu b n = Some (ok, b', n1)" for tu b ok b' and n n1 :: "('c, 'e) host_scheme"
    using that by (auto simp: tun_Write_def Let_def split: bind_splits sum.splits)
  show "suffix (dp_ctl (nt_dispatcher n')) (dp_ctl (nt_dispatcher n))" if "PacketCallback t r n = Some (r', n')"
    using that by (auto simp: PacketCallback_def Let_def tunnel dest!: dispatch_SetFd_answers split: bind_splits if_splits)
  show "suffix (dp_ctl (nt_dispatcher n')) (dp_ctl (nt_dispatcher n))" if "TunTapWriteCallback t n = Some n'"
    using that by (auto simp: TunTapWriteCallback_def Let_def tunnel dest!: dispatch_SetFd_answers wrote split: bind_splits if_splits)
qed

lemma tunnel_runs_good:
  "tunnel_runs t n ps n' \<Longrightarrow> tunnel_good t fd [] n \<Longrightarrow> dp_ctl (nt_dispatcher n') \<noteq> [] \<Longrightarrow> tunnel_good t fd ps n'"
proof (induction rule: tunnel_runs.induct)
  case (packet n ps n1 r r' n2)
  then have "dp_ctl (nt_dispatcher n1) \<noteq> []" using suffix_nonempty [OF tunnel_step_answers(1)] by blast
  with packet show ?case using PacketCallback_good by blast
next
  case (writable n ps n1 n2)
  then have "dp_ctl (nt_dispatcher n1) \<noteq> []" using suffix_nonempty [OF tunnel_step_answers(2)] by blast
  with writable show ?case using TunTapWriteCallback_good by blast
next
  case (others n ps n1 n2)
  then have "dp_ctl (nt_dispatcher n1) \<noteq> []" using suffix_nonempty by (auto simp: others_leave_def)
  with others show ?case using others_leave_good by blast
qed

lemma added_device_good:
  assumes "dispatcher_inv (nt_dispatcher n)" "list_all (\<lambda>b. b) (dp_ctl (nt_dispatcher n))"
    "t < length (ho_tunnels n)" "tu_queue (ho_tunnels n ! t) = PacketQueue_new" "tu_fd (ho_tunnels n ! t) = fd" "written_to fd n = []"
    "AddFd fd EV_READ (Some (Tunnel_read_handler t)) None (nt_dispatcher n) = Some (True, d)"
  shows "tunnel_good t fd [] (n\<lparr>nt_dispatcher := d\<rparr>)"
proof -
  have "device_watched t fd False d"
    using AddFd_inv(1) [OF assms(1,7)] assms(2,7)
    by (auto simp: device_watched_def AddFd_def epoll_ctl_def Let_def split: bind_splits list.splits bool.splits)
  with assms show ?thesis by (simp add: tunnel_good_def Let_def PacketQueue_new_def written_to_def)
qed

section \<open>Properties\<close>


definition quiet_tunnels :: tunnel_kernel where
  "quiet_tunnels = \<lparr>tk_open = [], tk_ioctl = [], tk_read = [], tk_writev = [], tk_modes = [], tk_written = []\<rparr>"

definition sample_host :: "unit host" where
  "sample_host = net.extend (sample_net\<lparr>nt_dispatcher := snd (Dispatcher_Init 3 (Dispatcher_new [True, True, True]))\<rparr>) \<lparr>ho_tunnels = [(Tunnel_new 0)\<lparr>tu_fd := 9\<rparr>], ho_kernel = quiet_tunnels, ho_netlink = example_netlink []\<rparr>"


end
