(* ===== verification/TunnelSettings.thy ===== *)
theory TunnelSettings
  imports TunnelPackets
begin

text \<open>
  The two ends of a tunnel: what the server makes of a new session and the settings it sends are what the client
  makes of them.
\<close>

section \<open>The settings on the wire\<close>

definition settings_wire :: "(ip_address \<Rightarrow> bytes) \<Rightarrow> ip_address \<Rightarrow> ip_address \<Rightarrow> bytes" where
  "settings_wire ntop server client = [0] @ be16 2 @
     (string_wire SERVER_ADDRESS @ string_wire (ntop server)) @ (string_wire CLIENT_ADDRESS @ string_wire (ntop client))"

lemma setting_names: "length SERVER_ADDRESS = 14" "length CLIENT_ADDRESS = 14" "SERVER_ADDRESS \<noteq> CLIENT_ADDRESS"
  by (simp_all add: SERVER_ADDRESS_def CLIENT_ADDRESS_def str_def)

lemma setting_written:
  assumes "length a \<le> uint16_max" "length b \<le> uint16_max"
  shows "cursor_sink.writes others encode_setting (a, b) (string_wire a @ string_wire b)"
  unfolding cursor_sink.writes_def
proof (intro allI impI)
  fix r :: reader assume r: "tidy others r"
  obtain r1 where r1: "encode_string reader_add a r = Some (True, r1)" "reader_contents r1 = reader_contents r @ string_wire a" "tidy others r1"
    using cursor_sink.writes_string [OF assms(1)] r unfolding cursor_sink.writes_def by blast
  obtain r2 where "encode_string reader_add b r1 = Some (True, r2)" "reader_contents r2 = reader_contents r1 @ string_wire b" "tidy others r2"
    using cursor_sink.writes_string [OF assms(2)] r1(3) unfolding cursor_sink.writes_def by blast
  with r1 show "\<exists>r'. encode_setting (a, b) r = Some (True, r') \<and> reader_contents r' = reader_contents r @ string_wire a @ string_wire b \<and> tidy others r'"
    by (simp add: encode_setting_def encode_pair_def)
qed

lemma settings_written:
  assumes r: "tidy [] r" "reader_contents r = []" and short: "length (ntop server) \<le> uint16_max" "length (ntop client) \<le> uint16_max"
  obtains r1 r2 where "encode_u8 reader_add 0 r = Some (True, r1)"
    "encode_vector reader_add encode_setting [(SERVER_ADDRESS, ntop server), (CLIENT_ADDRESS, ntop client)] r1 = Some (True, r2)"
    "tidy [] r2" "reader_contents r2 = settings_wire ntop server client"
proof -
  obtain r1 where r1: "encode_u8 reader_add 0 r = Some (True, r1)" "reader_contents r1 = [0]" "tidy [] r1"
    using cursor_sink.writes_numbers(1) r unfolding cursor_sink.writes_def by fastforce
  let ?xs = "[(SERVER_ADDRESS, ntop server), (CLIENT_ADDRESS, ntop client)]"
  have "cursor_sink.writes [] encode_setting x (string_wire (fst x) @ string_wire (snd x))" if "x \<in> set ?xs" for x
  proof -
    have "length (fst x) \<le> uint16_max" "length (snd x) \<le> uint16_max" using that short by (auto simp: setting_names uint16_max_def)
    from setting_written [OF this] show ?thesis by simp
  qed
  moreover have count: "length ?xs \<le> uint16_max" by (simp add: uint16_max_def)
  ultimately have
    "cursor_sink.writes [] (encode_vector reader_add encode_setting) ?xs (be16 (of_nat (length ?xs)) @ concat (map (\<lambda>x. string_wire (fst x) @ string_wire (snd x)) ?xs))"
    by (intro cursor_sink.writes_vector)
  then obtain r2 where "encode_vector reader_add encode_setting ?xs r1 = Some (True, r2)" "tidy [] r2"
    "reader_contents r2 = [0] @ be16 (of_nat (length ?xs)) @ concat (map (\<lambda>x. string_wire (fst x) @ string_wire (snd x)) ?xs)"
    using r1(2,3) unfolding cursor_sink.writes_def by fastforce
  with r1(1) show thesis by (intro that) (simp_all add: settings_wire_def)
qed

lemma settings_read:
  assumes r: "reader_ok [] r" "reader_contents r = settings_wire ntop server client"
    and short: "length (ntop server) \<le> uint16_max" "length (ntop client) \<le> uint16_max"
  obtains r1 r2 where "decode_u8 reader_consume r = Some (0, Some 0, r1)"
    "decode_settings r1 = Some (0, Some [(SERVER_ADDRESS, ntop server), (CLIENT_ADDRESS, ntop client)], r2)" "reader_contents r2 = []" "reader_ok [] r2"
proof -
  let ?xs = "[(SERVER_ADDRESS, ntop server), (CLIENT_ADDRESS, ntop client)]"
  have wire: "settings_wire ntop server client = [0] @ (be16 (of_nat (length ?xs)) @ concat (map (\<lambda>x. string_wire (fst x) @ string_wire (snd x)) ?xs)) @ []"
    by (simp add: settings_wire_def)
  obtain r1 where r1: "decode_u8 reader_consume r = Some (0, Some 0, r1)" "reader_ok [] r1"
    "reader_contents r1 = (be16 (of_nat (length ?xs)) @ concat (map (\<lambda>x. string_wire (fst x) @ string_wire (snd x)) ?xs)) @ []"
    using cursor_source.readsD [OF cursor_source.reads_numbers(1) r(1) r(2) [unfolded wire]] by blast
  have "cursor_source.reads [] (decode_pair (decode_string reader_consume) (decode_string reader_consume)) x (string_wire (fst x) @ string_wire (snd x))"
    if "x \<in> set ?xs" for x
  proof -
    have "length (fst x) \<le> uint16_max" "length (snd x) \<le> uint16_max" using that short by (auto simp: setting_names uint16_max_def)
    from cursor_source.reads_pair [OF cursor_source.reads_string [OF this(1)] cursor_source.reads_string [OF this(2)]] show ?thesis by simp
  qed
  moreover have "length ?xs \<le> uint16_max" by (simp add: uint16_max_def)
  ultimately have "cursor_source.reads [] (decode_vector reader_consume (decode_pair (decode_string reader_consume) (decode_string reader_consume))) ?xs
      (be16 (of_nat (length ?xs)) @ concat (map (\<lambda>x. string_wire (fst x) @ string_wire (snd x)) ?xs))"
    by (intro cursor_source.reads_vector)
  from cursor_source.readsD [OF this r1(2,3)] obtain r2 where
    "decode_settings r1 = Some (0, Some ?xs, r2)" "reader_contents r2 = []" "reader_ok [] r2"
    unfolding decode_settings_def by blast
  with r1(1) show thesis by (rule that)
qed

section \<open>An end of a tunnel\<close>

text \<open>The device can be opened, and what netlink and the dispatcher are asked for is done.\<close>

definition tunnel_possible :: "int \<Rightarrow> bytes \<Rightarrow> ('c, 'e) host_scheme \<Rightarrow> bool" where
  "tunnel_possible fd name n \<longleftrightarrow> (\<exists>opens. tk_open (ho_kernel n) = fd # opens) \<and> 0 \<le> fd \<and> (\<exists>names. tk_ioctl (ho_kernel n) = Some name # names) \<and>
     length name \<le> 123 \<and> nl_index (ho_netlink n) name \<noteq> 0 \<and> confirming 3 (ho_netlink n)"

text \<open>The requests that give the interface its own address and a route to the other one.\<close>

definition interface_set_up :: "bytes \<Rightarrow> ip_address \<Rightarrow> ip_address \<Rightarrow> netlink \<Rightarrow> netlink \<Rightarrow> bool" where
  "interface_set_up name own other nl nl' \<longleftrightarrow> (\<exists>flags1 seq1 m1 flags2 seq2 m2 flags3 seq3 m3.
     LinkMessage RTM_NEWLINK flags1 seq1 (nl_pid nl) name IFF_UP IFF_UP = Some m1 \<and>
     IfAddrMessage RTM_NEWADDR flags2 seq2 (nl_pid nl) own (of_int (ip_Length own)) (nl_index nl name) = Some m2 \<and>
     SetRoutesMessage RTM_NEWROUTE flags3 seq3 (nl_pid nl) other (of_int (ip_Length other)) None (Some own) (nl_index nl name) = Some m3 \<and>
     nl_sent nl' = nl_sent nl @ [nl_bytes m1, nl_bytes m2, nl_bytes m3])"

lemma tunnel_opened:
  assumes "tunnel_possible fd name n"
  obtains n1 where "tun_Open type tu n = Some (True, tu\<lparr>tu_fd := fd, tu_device := name\<rparr>, n1)" "ho_netlink n1 = ho_netlink n" "ho_tunnels n1 = ho_tunnels n"
    "nt_dispatcher n1 = nt_dispatcher n" "tk_modes (ho_kernel n1) = tk_modes (ho_kernel n) @ [(fd, type OR IFF_NO_PI)]" "host.more n1 = host.more n"
  using assms by (auto simp: tunnel_possible_def tun_Open_def Let_def)

lemma requests_made:
  assumes "confirming 3 nl" "length name \<le> 123"
  obtains nl1 nl2 nl3 where "Enable \<lparr>if_name = name, if_index = nl_index nl name\<rparr> nl = Some (True, nl1)"
    "AddAddress \<lparr>if_name = name, if_index = nl_index nl name\<rparr> own (of_int (ip_Length own)) nl1 = Some (True, nl2)"
    "AddRoute other (of_int (ip_Length other)) None (Some own) (nl_index nl name) nl2 = Some (True, nl3)"
    "interface_set_up name own other nl nl3"
proof -
  let ?i = "\<lparr>if_name = name, if_index = nl_index nl name\<rparr>"
  have three: "confirming (Suc 2) nl" using assms(1) by (simp add: numeral_3_eq_3)
  obtain nl1 m1 where m1: "Enable ?i nl = Some (True, nl1)" "confirming 2 nl1" "same_system nl nl1" "nl_sent nl1 = nl_sent nl @ [nl_bytes m1]"
    "LinkMessage RTM_NEWLINK (NLM_F_REQUEST OR NLM_F_ACK) (of_int (nl_seq nl + 1)) (nl_pid nl) name IFF_UP IFF_UP = Some m1"
    using requests_confirmed(1) [OF three, of ?i] assms(2) by auto
  have two: "confirming (Suc 1) nl1" using m1(2) by (simp add: numeral_2_eq_2)
  obtain nl2 m2 where m2: "AddAddress ?i own (of_int (ip_Length own)) nl1 = Some (True, nl2)" "confirming 1 nl2" "same_system nl1 nl2" "nl_sent nl2 = nl_sent nl1 @ [nl_bytes m2]"
    "IfAddrMessage RTM_NEWADDR (NLM_F_REQUEST OR NLM_F_CREATE OR NLM_F_ACK OR NLM_F_EXCL) (of_int (nl_seq nl1 + 1)) (nl_pid nl1) own (of_int (ip_Length own)) (nl_index nl name) = Some m2"
    using requests_confirmed(2) [OF two, of ?i own "of_int (ip_Length own)"] by auto
  have one: "confirming (Suc 0) nl2" using m2(2) by simp
  obtain nl3 m3 where m3: "AddRoute other (of_int (ip_Length other)) None (Some own) (nl_index nl name) nl2 = Some (True, nl3)" "nl_sent nl3 = nl_sent nl2 @ [nl_bytes m3]"
    "SetRoutesMessage RTM_NEWROUTE (NLM_F_ACK OR NLM_F_REQUEST OR NLM_F_CREATE OR NLM_F_REPLACE) (of_int (nl_seq nl2 + 1)) (nl_pid nl2) other (of_int (ip_Length other)) None (Some own) (nl_index nl name) = Some m3"
    using requests_confirmed(3) [OF one, of other "of_int (ip_Length other)" "Some own" "nl_index nl name"] by auto
  have "interface_set_up name own other nl nl3"
    unfolding interface_set_up_def
    using m1(3-5) m2(3-5) m3(2,3) by (intro exI conjI) (auto simp: same_system_def)
  with m1(1) m2(1) m3(1) show thesis by (rule that)
qed

section \<open>The client's end\<close>

definition client_set_up ::
    "('w, 'b host) part \<Rightarrow> nat \<Rightarrow> nat \<Rightarrow> int \<Rightarrow> bytes \<Rightarrow> ip_address \<Rightarrow> ip_address \<Rightarrow>
     ('x, 'k, 'c, tunnel_reader, 'w) client \<Rightarrow> ('x, 'k, 'c, tunnel_reader, 'w) client \<Rightarrow> bool" where
  "client_set_up pa t p fd name own other cl cl' \<longleftrightarrow>
     (let n = pa_get pa (hb_world cl); n' = pa_get pa (hb_world cl') in
       interface_set_up name own other (ho_netlink n) (ho_netlink n') \<and>
       tu_fd (ho_tunnels n' ! t) = fd \<and> tk_modes (ho_kernel n') = tk_modes (ho_kernel n) @ [(fd, IFF_TUN OR IFF_NO_PI)] \<and>
       se_read_callback (session_at p cl') = Some (Client_channel_reads (Server_packet t)) \<and>
       (\<exists>q. dp_interest (nt_dispatcher n') fd = Some (EPOLLIN, q) \<and> ev_read (dp_heap (nt_dispatcher n') ! q) = Some (Tunnel_read_handler t)))"

lemma AddFd_accepted:
  assumes "0 \<le> dp_poll_fd (nt_dispatcher n)" "dp_ctl (nt_dispatcher n) = True # answers"
  obtains n' where "dispatch (AddFd fd EV_READ (Some h) None) n = Some n'"
    "\<exists>q. dp_interest (nt_dispatcher n') fd = Some (EPOLLIN, q) \<and> ev_read (dp_heap (nt_dispatcher n') ! q) = Some h" "\<exists>d. n' = n\<lparr>nt_dispatcher := d\<rparr>"
  using assms by (auto simp: dispatch_def AddFd_def epoll_ctl_def Let_def)

lemma ServerConfigCallback_sets_up:
  assumes lens: "\<And>n w. pa_get pa (pa_put pa n w) = n"
    and cursor: "reader_ok [] cursor" "reader_contents cursor = settings_wire ntop server client"
    and short: "length (ntop server) \<le> uint16_max" "length (ntop client) \<le> uint16_max"
    and parsed: "ip_Parse pton4 pton6 (ntop server) = Some server" "ip_Parse pton4 pton6 (ntop client) = Some client"
    and host: "tunnel_possible fd name (pa_get pa (hb_world cl))" "t < length (ho_tunnels (pa_get pa (hb_world cl)))" "p < length (hb_sessions cl)"
      "0 \<le> dp_poll_fd (nt_dispatcher (pa_get pa (hb_world cl)))" "dp_ctl (nt_dispatcher (pa_get pa (hb_world cl))) = True # answers"
  shows "\<exists>cursor' cl'. ServerConfigCallback pa pton4 pton6 t p cursor cl = Some (cursor', cl') \<and> reader_contents cursor' = [] \<and>
    client_set_up pa t p fd name client server cl cl'"
proof -
  let ?n = "pa_get pa (hb_world cl)"
  define nl where "nl = ho_netlink ?n"
  obtain r1 r2 where decoded: "decode_u8 reader_consume cursor = Some (0, Some 0, r1)"
    "decode_settings r1 = Some (0, Some [(SERVER_ADDRESS, ntop server), (CLIENT_ADDRESS, ntop client)], r2)" "reader_contents r2 = []"
    by (rule settings_read [OF cursor short])
  have found: "find_address pton4 pton6 CLIENT_ADDRESS [(SERVER_ADDRESS, ntop server), (CLIENT_ADDRESS, ntop client)] = Some client"
    "find_address pton4 pton6 SERVER_ADDRESS [(SERVER_ADDRESS, ntop server), (CLIENT_ADDRESS, ntop client)] = Some server"
    using parsed setting_names(3) by (simp_all add: find_address_def)
  define tu where "tu = (ho_tunnels ?n ! t)\<lparr>tu_fd := fd, tu_device := name\<rparr>"
  obtain n1 where n1: "tun_Open IFF_TUN (ho_tunnels ?n ! t) ?n = Some (True, tu, n1)" "ho_netlink n1 = nl" "ho_tunnels n1 = ho_tunnels ?n"
    "nt_dispatcher n1 = nt_dispatcher ?n" "tk_modes (ho_kernel n1) = tk_modes (ho_kernel ?n) @ [(fd, IFF_TUN OR IFF_NO_PI)]"
    using tunnel_opened [OF host(1)] unfolding tu_def nl_def by metis
  have possible: "confirming 3 nl" "length name \<le> 123" "nl_index nl name \<noteq> 0" using host(1) by (simp_all add: tunnel_possible_def nl_def)
  obtain nl1 nl2 nl3 where requests: "Enable \<lparr>if_name = name, if_index = nl_index nl name\<rparr> nl = Some (True, nl1)"
    "AddAddress \<lparr>if_name = name, if_index = nl_index nl name\<rparr> client (of_int (ip_Length client)) nl1 = Some (True, nl2)"
    "AddRoute server (of_int (ip_Length server)) None (Some client) (nl_index nl name) nl2 = Some (True, nl3)"
    "interface_set_up name client server nl nl3"
    by (rule requests_made [OF possible(1,2)])
  have "configure_tunnel tu (Some client) (Some server) nl = Some (True, nl3)"
    using requests(1-3) possible(3) by (simp add: configure_tunnel_def GetInterface_def tu_def)
  moreover define n2 where "n2 = (set_tunnel t tu n1)\<lparr>ho_netlink := nl3\<rparr>"
  moreover have "0 \<le> dp_poll_fd (nt_dispatcher n2)" "dp_ctl (nt_dispatcher n2) = True # answers"
    using host(4,5) n1(4) by (simp_all add: n2_def set_tunnel_def)
  then obtain n3 where n3: "dispatch (AddFd fd EV_READ (Some (Tunnel_read_handler t)) None) n2 = Some n3"
    "\<exists>q. dp_interest (nt_dispatcher n3) fd = Some (EPOLLIN, q) \<and> ev_read (dp_heap (nt_dispatcher n3) ! q) = Some (Tunnel_read_handler t)"
    "\<exists>d. n3 = n2\<lparr>nt_dispatcher := d\<rparr>"
    by (rule AddFd_accepted)
  moreover define cl' where "cl' = set_part pa n3 (SetCallbacks p (Some (Client_channel_reads (Server_packet t))) None cl)"
  ultimately have "ServerConfigCallback pa pton4 pton6 t p cursor cl = Some (r2, cl')"
    using decoded n1(1,2) found
    by (simp add: ServerConfigCallback_def Let_def set_tunnel_def USE_TAP_def) (simp add: tu_def)
  moreover have "client_set_up pa t p fd name client server cl cl'"
    using n1(3,5) n3(2,3) requests(4) host(2,3)
    by (auto simp: client_set_up_def Let_def cl'_def set_part_def lens n2_def set_tunnel_def tu_def nl_def SetCallbacks_def session_at_def set_session_def)
  ultimately show ?thesis using decoded(3) by blast
qed

section \<open>The server's end\<close>

definition server_set_up ::
    "('w, 'b tunnel_server) part \<Rightarrow> nat \<Rightarrow> nat \<Rightarrow> int \<Rightarrow> bytes \<Rightarrow> ip_address \<Rightarrow> ip_address \<Rightarrow>
     ('x, 'k, 'c, nat, 'w) server \<Rightarrow> ('x, 'k, 'c, nat, 'w) server \<Rightarrow> bool" where
  "server_set_up pa t p fd name own other sv sv' \<longleftrightarrow>
     (let n = pa_get pa (hb_world sv); n' = pa_get pa (hb_world sv') in
       interface_set_up name own other (ho_netlink n) (ho_netlink n') \<and>
       tu_fd (ho_tunnels n' ! t) = fd \<and> tu_address (ho_tunnels n' ! t) = Some other \<and>
       tk_modes (ho_kernel n') = tk_modes (ho_kernel n) @ [(fd, IFF_TUN OR IFF_NO_PI)] \<and>
       se_read_callback (session_at p sv') = Some (Channel_reads t))"

text \<open>What is left to do once the settings are in the message buffer.\<close>

definition send_then_watch ::
    "('w, 'b tunnel_server) part \<Rightarrow> ('x, 'k) crypto \<Rightarrow> ('x, 'k, 'c, 'w) connection_class \<Rightarrow> nat \<Rightarrow> nat \<Rightarrow> int \<Rightarrow>
     ('x, 'k, 'c, nat, 'w) server \<Rightarrow> ('x, 'k, 'c, nat, 'w) server option" where
  "send_then_watch pa cr cc t p fd sv = do {
     (sent, sv) \<leftarrow> SendMessage cr cc p sv;
     (if \<not> sent then Some sv
      else do {
        n \<leftarrow> dispatch (AddFd fd EV_READ (Some (Tunnel_read_handler t)) None) (pa_get pa (hb_world sv));
        Some (set_part pa n sv)
      })
   }"

lemma same_channel:
  fixes a b :: "'c tunnel_server"
  assumes "host.more a = host.more b"
  shows "ts_local a = ts_local b" "ts_manager a = ts_manager b"
  using assms by (cases a; cases b; simp)+

lemma HandleConnect_sends:
  assumes lens: "\<And>n w. pa_get pa (pa_put pa n w) = n" and buffer: "\<And>r c. cc_Message cc (cc_put_Message cc r c) = r"
    and message: "tidy [] (Message cc p sv)" "reader_contents (Message cc p sv) = []" "p < length (hb_sessions sv)"
    and short: "length (ntop server) \<le> uint16_max" "length (ntop client) \<le> uint16_max"
    and host: "tunnel_possible fd name (pa_get pa (hb_world sv))"
    and addresses: "ts_local (pa_get pa (hb_world sv)) = Some server" "ts_manager (pa_get pa (hb_world sv)) = Some manager"
      "AllocateIP manager = Some (Some client, manager')"
  defines "t \<equiv> length (ho_tunnels (pa_get pa (hb_world sv)))"
  shows "\<exists>sv1. TunTapServer_HandleConnect pa ntop cr cc p sv = send_then_watch pa cr cc t p fd sv1 \<and>
    reader_contents (Message cc p sv1) = settings_wire ntop server client \<and> tidy [] (Message cc p sv1) \<and>
    server_set_up pa t p fd name server client sv sv1"
proof -
  let ?n = "pa_get pa (hb_world sv)"
  define nl where "nl = ho_netlink ?n"
  define tu where "tu = (Tunnel_new p)\<lparr>tu_fd := fd, tu_device := name\<rparr>"
  obtain n1 where n1: "tun_Open IFF_TUN (Tunnel_new p) ?n = Some (True, tu, n1)" "ho_netlink n1 = nl" "ho_tunnels n1 = ho_tunnels ?n"
    "tk_modes (ho_kernel n1) = tk_modes (ho_kernel ?n) @ [(fd, IFF_TUN OR IFF_NO_PI)]" "host.more n1 = host.more ?n"
    using tunnel_opened [OF host] unfolding tu_def nl_def by metis
  have server: "ts_local n1 = Some server" "ts_manager n1 = Some manager"
    using addresses(1,2) same_channel [OF n1(5)] by simp_all
  have possible: "confirming 3 nl" "length name \<le> 123" "nl_index nl name \<noteq> 0" using host by (simp_all add: tunnel_possible_def nl_def)
  obtain nl1 nl2 nl3 where requests: "Enable \<lparr>if_name = name, if_index = nl_index nl name\<rparr> nl = Some (True, nl1)"
    "AddAddress \<lparr>if_name = name, if_index = nl_index nl name\<rparr> server (of_int (ip_Length server)) nl1 = Some (True, nl2)"
    "AddRoute client (of_int (ip_Length client)) None (Some server) (nl_index nl name) nl2 = Some (True, nl3)"
    "interface_set_up name server client nl nl3"
    by (rule requests_made [OF possible(1,2)])
  obtain r1 r2 where written: "encode_u8 reader_add 0 (Message cc p sv) = Some (True, r1)"
    "encode_vector reader_add encode_setting [(SERVER_ADDRESS, ntop server), (CLIENT_ADDRESS, ntop client)] r1 = Some (True, r2)"
    "tidy [] r2" "reader_contents r2 = settings_wire ntop server client"
    by (rule settings_written [OF message(1,2) short])
  define tu1 where "tu1 = tu\<lparr>tu_address := Some client, tu_interface := Some \<lparr>if_name = name, if_index = nl_index nl name\<rparr>\<rparr>"
  define n2 where "n2 = n1\<lparr>ts_manager := Some manager', ho_netlink := nl3, ho_tunnels := ho_tunnels ?n @ [tu1]\<rparr>"
  define sv0 where "sv0 = SetCallbacks p (Some (Channel_reads t)) (Some (Channel_closed t)) sv"
  define sv1 where "sv1 = put_Message cc p r2 (set_part pa n2 sv0)"
  have same: "Message cc p (set_part pa n sv0) = Message cc p sv" "Message cc p sv1 = r2" for n
    using message(3) by (simp_all add: Message_def sv0_def sv1_def SetCallbacks_def set_part_def session_at_def set_session_def put_Message_def buffer)
  have "TunTapServer_HandleConnect pa ntop cr cc p sv = send_then_watch pa cr cc t p fd sv1"
    using n1(1-3) server addresses(3) possible(3) requests(1-3) written(1,2)
    by (simp add: TunTapServer_HandleConnect_def send_then_watch_def Let_def GetInterface_def sv0_def [symmetric] t_def [symmetric] same
        tu1_def n2_def sv1_def tu_def cong del: if_weak_cong)
  moreover have "server_set_up pa t p fd name server client sv sv1"
    using n1(4) requests(4) message(3)
    by (simp add: server_set_up_def Let_def sv1_def put_Message_def set_part_def lens sv0_def SetCallbacks_def session_at_def set_session_def n2_def
        t_def nth_append tu1_def tu_def nl_def)
  ultimately show ?thesis using written(3,4) same(2) by auto
qed

section \<open>Properties\<close>


definition ready_netlink :: netlink where
  "ready_netlink = \<lparr>nl_fd = 5, nl_seq = 0, nl_pid = 1, nl_socket = [], nl_send = [40, 40, 40], nl_recv = map Inr (replicate 3 ack_message),
     nl_index = \<lambda>_. 7, nl_sent = []\<rparr>"

lemma ready_netlink_confirms: "confirming 3 ready_netlink"
  unfolding confirming_def
  by (intro conjI exI [of _ "[40, 40, 40]"] exI [of _ "replicate 3 ack_message"] exI [of _ "[]"])
    (simp_all add: ready_netlink_def ack_message_ok list_all_iff)

definition ready_host :: "unit host" where
  "ready_host = sample_host\<lparr>ho_tunnels := [Tunnel_new 0], ho_kernel := quiet_tunnels\<lparr>tk_open := [9], tk_ioctl := [Some (str ''tun0'')]\<rparr>, ho_netlink := ready_netlink\<rparr>"

lemma ready_host_possible: "tunnel_possible 9 (str ''tun0'') (host.extend ready_host x)" "tunnel_possible 9 (str ''tun0'') ready_host"
  using ready_netlink_confirms
  by (simp_all add: tunnel_possible_def ready_host_def host.defs quiet_tunnels_def str_def) (simp_all add: ready_netlink_def)

definition sample_gateway :: "unit tunnel_server" where
  "sample_gateway = host.extend ready_host \<lparr>ts_range = sample_range, ts_manager = Some (snd (the (AllocateIP (IPManager_new sample_range)))),
     ts_local = Some (IPv4Address 0x0a000001)\<rparr>"

text \<open>A connection whose state is its message buffer.\<close>

definition buffer_class :: "(bytes, unit, reader, 'w) connection_class" where
  "buffer_class = \<lparr>cc_Message = (\<lambda>c. c), cc_put_Message = (\<lambda>r c. r),
     cc_SendMessage = (\<lambda>e p c w. Some (True, None, e, p, empty_reader, w)), cc_Close = (\<lambda>c w. Some (c, w))\<rparr>"

definition whole :: "('n, 'n) part" where
  "whole = \<lparr>pa_get = (\<lambda>w. w), pa_put = (\<lambda>n w. n)\<rparr>"

definition idle_prng :: "unit prng" where
  "idle_prng = \<lparr>pr_reseed = 0, pr_key = (), pr_entropy = []\<rparr>"

definition sample_server :: "(bytes, unit, reader, nat, unit tunnel_server) server" where
  "sample_server = \<lparr>hb_prng = idle_prng, hb_sessions = [Session_new None empty_reader], hb_map = [[]], hb_deleted = [], hb_world = sample_gateway,
     sv_auths = [], sv_userdb = udb_new, sv_opens = []\<rparr>"

definition sample_client :: "(bytes, unit, reader, tunnel_reader, unit host) client" where
  "sample_client = \<lparr>hb_prng = idle_prng, hb_sessions = [Session_new None empty_reader], hb_map = [[]], hb_deleted = [], hb_world = ready_host,
     cl_auths = [], cl_chatter = (\<lambda>_. None)\<rparr>"

definition address_text :: "ip_address \<Rightarrow> bytes" where
  "address_text a = (case a of IPv4Address w \<Rightarrow> be32 w | _ \<Rightarrow> [])"

definition address_of_text :: "bytes \<Rightarrow> ip_address option" where
  "address_of_text bs = (case bs of [a, b, c, d] \<Rightarrow> Some (IPv4Address (of_be32 a b c d)) | _ \<Rightarrow> None)"


end
