(* ===== verification/TcpTranscoders.thy ===== *)
theory TcpTranscoders
  imports UdpTranscoders
begin

text \<open>
  \<open>src/src/server-tcp-transcoder.h\<close>, \<open>.cc\<close> and \<open>src/src/client-tcp-transcoder.h\<close>, \<open>.cc\<close>: the messages of a
  session on a stream. A message is the size, the padding and the data, encrypted; the receiver decrypts as
  much as it needs of what has arrived.

  The two connections have the same text, but for the class names: the definitions are about either, with
  what differs in a record, \<open>tcp_side\<close>.
\<close>

section \<open>The connection\<close>

record 'n stream_channel = "'n bound_channel" +
  sc_Close :: "'n \<Rightarrow> 'n option"

text \<open>\<open>decoder_\<close> points to the decoder of a session, and is that session's index.\<close>

record 'n tcp_connection =
  tc_key :: connection_key
  tc_channel :: "'n stream_channel"
  tc_session :: "nat option"
  tc_decoder :: "nat option"
  tc_in_encrypted :: reader
  tc_in_cleartext :: reader
  tc_out_cleartext :: reader
  tc_out_encrypted :: reader

definition kReadSize :: nat where "kReadSize = 4096"

text \<open>\<open>this\<close> is the address of the new connection; \<open>memory\<close> is what its key's buffer held.\<close>

definition tcp_Connection_new ::
    "bytes \<Rightarrow> u64 \<Rightarrow> 'n stream_channel \<Rightarrow> 'n \<Rightarrow> ('n tcp_connection \<times> 'n) option" where
  "tcp_Connection_new memory this channel n = do {
     b1 \<leftarrow> new_buffer;
     b2 \<leftarrow> new_buffer;
     b3 \<leftarrow> new_buffer;
     b4 \<leftarrow> new_buffer;
     n \<leftarrow> bc_WantRead channel n;
     Some (\<lparr>tc_key = cn_new memory this, tc_channel = channel, tc_session = None, tc_decoder = None,
            tc_in_encrypted = b1, tc_in_cleartext = b2, tc_out_cleartext = b3, tc_out_encrypted = b4\<rparr>, n)
   }"

definition tcp_Message :: "'n tcp_connection \<Rightarrow> reader" where
  "tcp_Message c = tc_out_cleartext c"

definition tcp_Header :: "'n tcp_connection \<Rightarrow> reader" where
  "tcp_Header c = tc_out_encrypted c"

definition tcp_Close :: "'n tcp_connection \<Rightarrow> 'n \<Rightarrow> ('n tcp_connection \<times> 'n) option" where
  "tcp_Close c n = do { n \<leftarrow> sc_Close (tc_channel c) n; Some (c, n) }"

section \<open>Sending\<close>

text \<open>
  The size, as 16 bits, the padding and the message, through the encoder. \<open>AddPadding\<close>'s result is not looked
  at. All three errors are reported in the same way.
\<close>

definition encode_frame ::
    "('x, 'k) crypto \<Rightarrow> 'x protector \<Rightarrow> 'k prng \<Rightarrow> reader \<Rightarrow> chunkset \<Rightarrow>
     (bool \<times> 'x protector \<times> 'k prng \<times> reader \<times> chunkset) option" where
  "encode_frame cr e prng message d = do {
     let lib = pt_cipher (cr_ssl cr) (pt_kind e);
     (ok, prng, d, e) \<leftarrow> encoder_Start (cr_ssl cr) (cr_rc4 cr) (cr_memory cr prng) prng d NoPadding e;
     (if \<not> ok then Some (False, e, prng, message, d)
      else do {
        size \<leftarrow> new_buffer;
        left \<leftarrow> oc_left (fst message) (snd message);
        (_, size) \<leftarrow> encode_u16 reader_add (of_nat left) size;
        (ok, size, d, x) \<leftarrow> Encoder_Continue lib size d (pt_ctx e);
        (if \<not> ok then Some (False, e\<lparr>pt_ctx := x\<rparr>, prng, message, d)
         else do {
           (_, prng, d, x) \<leftarrow> AddPadding lib (cr_rc4 cr) (cr_memory cr prng) prng d (of_nat left + 2) x;
           (ok, message, d, x) \<leftarrow> Encoder_Continue lib message d x;
           (if \<not> ok then Some (False, e\<lparr>pt_ctx := x\<rparr>, prng, message, d)
            else do {
              (ok, d, x) \<leftarrow> Encoder_End lib d x;
              Some (ok, e\<lparr>pt_ctx := x\<rparr>, prng, message, d)
            })
         })
      })
   }"

definition tcp_SendMessage ::
    "('x, 'k) crypto \<Rightarrow> 'x protector option \<Rightarrow> 'k prng \<Rightarrow> 'n tcp_connection \<Rightarrow> 'n \<Rightarrow>
     (bool \<times> (connection_key \<times> CloseReason) option \<times> 'x protector option \<times> 'k prng \<times> 'n tcp_connection \<times> 'n) option" where
  "tcp_SendMessage cr encoder prng c n = do {
     n \<leftarrow> bc_WantWrite (tc_channel c) n;
     let out = tc_out_encrypted c;
     (case encoder of
        Some e \<Rightarrow> do {
          (ok, e, prng, message, d) \<leftarrow> encode_frame cr e prng (tc_out_cleartext c) (fst out);
          let c = c\<lparr>tc_out_cleartext := message, tc_out_encrypted := (d, snd out)\<rparr>;
          Some (ok, if ok then None else Some (tc_key c, Encoding), Some e, prng, c, n)
        }
      | None \<Rightarrow> do {
          (_, s, cur, d) \<leftarrow> encode_cursor (fst (tc_out_cleartext c)) (snd (tc_out_cleartext c)) (fst out);
          Some (True, None, None, prng, c\<lparr>tc_out_cleartext := (s, cur), tc_out_encrypted := (d, snd out)\<rparr>, n)
        })
   }"

text \<open>Where the object is, its network, and what its manager does for a key without a session.\<close>

record ('n, 's) tcp_side =
  ts_get :: "'s \<Rightarrow> 'n tcp_connection"
  ts_put :: "'n tcp_connection \<Rightarrow> 's \<Rightarrow> 's"
  ts_net :: "'s \<Rightarrow> 'n"
  ts_put_net :: "'n \<Rightarrow> 's \<Rightarrow> 's"
  ts_CreateSession :: "connection_key \<Rightarrow> 's \<Rightarrow> nat option \<times> 's"

text \<open>What \<open>Write\<close> returns is not looked at.\<close>

definition tcp_HandleWrite :: "('n, 's) tcp_side \<Rightarrow> 's \<Rightarrow> (processing_state \<times> 's) option" where
  "tcp_HandleWrite side s = do {
     let c = ts_get side s;
     (_, out, n) \<leftarrow> bc_Write (tc_channel c) (tc_out_encrypted c) (ts_net side s);
     left \<leftarrow> oc_left (fst out) (snd out);
     Some (if left = 0 then DONE else MORE, ts_put side (c\<lparr>tc_out_encrypted := out\<rparr>) (ts_put_net side n s))
   }"

section \<open>Receiving\<close>

type_synonym ('x, 'k, 'n, 'h, 'w, 'e) tcp_hub = "('x, 'k, 'n tcp_connection, 'h, 'w, 'e) hub_scheme"

text \<open>A step of the loop returns from the handler, or goes on.\<close>

type_synonym 's tcp_step = "(processing_state \<times> 's) + 's"

definition and_then :: "'s tcp_step option \<Rightarrow> ('s \<Rightarrow> 's tcp_step option) \<Rightarrow> 's tcp_step option" where
  "and_then step f = do {
     r \<leftarrow> step;
     (case r of Inl returned \<Rightarrow> Some (Inl returned) | Inr s \<Rightarrow> f s)
   }"

definition tcp_HandleError ::
    "('x, 'k, 'n tcp_connection, 'w) connection_class \<Rightarrow> ('n, ('x, 'k, 'n, 'h, 'w, 'e) tcp_hub) tcp_side \<Rightarrow> nat option \<Rightarrow>
     CloseReason \<Rightarrow> ('x, 'k, 'n, 'h, 'w, 'e) tcp_hub \<Rightarrow> ('x, 'k, 'n, 'h, 'w, 'e) tcp_hub option" where
  "tcp_HandleError cc side session error s =
     (let key = tc_key (ts_get side s)
      in case session of
           Some p \<Rightarrow> session_HandleError cc p key error s
         | None \<Rightarrow> manager_HandleError cc key error s)"

definition tcp_HandleDecodeError ::
    "('x, 'k, 'n tcp_connection, 'w) connection_class \<Rightarrow> ('n, ('x, 'k, 'n, 'h, 'w, 'e) tcp_hub) tcp_side \<Rightarrow> nat option \<Rightarrow>
     Result \<Rightarrow> ('x, 'k, 'n, 'h, 'w, 'e) tcp_hub \<Rightarrow> (processing_state \<times> ('x, 'k, 'n, 'h, 'w, 'e) tcp_hub) option" where
  "tcp_HandleDecodeError cc side session result s =
     (if result = MORE_DATA_REQUIRED then Some (MORE, s)
      else do { s \<leftarrow> tcp_HandleError cc side session Decoding s; Some (DONE, s) })"

text \<open>The first part of the loop: the session of the connection. \<open>session_\<close> is set by both calls of the manager.\<close>

definition find_session ::
    "('x, 'k, 'n tcp_connection, 'w) connection_class \<Rightarrow> ('n, ('x, 'k, 'n, 'h, 'w, 'e) tcp_hub) tcp_side \<Rightarrow>
     ('x, 'k, 'n, 'h, 'w, 'e) tcp_hub \<Rightarrow> ('x, 'k, 'n, 'h, 'w, 'e) tcp_hub tcp_step option" where
  "find_session cc side s =
     (let c = ts_get side s in
      case tc_session c of
        Some p \<Rightarrow> Some (Inr s)
      | None \<Rightarrow>
          (let key = tc_key c;
               (state, session) = GetSession key s;
               (session, s) = (if state = NeedNewSession then ts_CreateSession side key s else (session, s));
               s = ts_put side ((ts_get side s)\<lparr>tc_session := session\<rparr>) s
           in case session of
                None \<Rightarrow> do { s \<leftarrow> tcp_HandleError cc side None Manager s; Some (Inl (DONE, s)) }
              | Some p \<Rightarrow>
                  (let state = (if state = NeedNewSession \<or> state = Ready then IsReady key p s else state)
                   in if state = Ready then Some (Inr s)
                      else if state = NeedMoreData then Some (Inl (MORE, s))
                      else do { s \<leftarrow> tcp_HandleError cc side session Manager s; Some (Inl (DONE, s)) })))"

text \<open>
  The decoder is started on a copy of the cursor, which the connection's own cursor follows when that succeeds.
  \<open>LeftSize() - encrypted.LeftSize()\<close> is an unsigned int.
\<close>

definition start_decoder ::
    "('x, 'k) crypto \<Rightarrow> ('x, 'k, 'n tcp_connection, 'w) connection_class \<Rightarrow> ('n, ('x, 'k, 'n, 'h, 'w, 'e) tcp_hub) tcp_side \<Rightarrow>
     ('x, 'k, 'n, 'h, 'w, 'e) tcp_hub \<Rightarrow> ('x, 'k, 'n, 'h, 'w, 'e) tcp_hub tcp_step option" where
  "start_decoder cr cc side s =
     (case tc_decoder (ts_get side s) of
        Some q \<Rightarrow> Some (Inr s)
      | None \<Rightarrow> do {
          p \<leftarrow> tc_session (ts_get side s);
          let (decoder, s) = GetDecoder cr p s;
          decoder \<leftarrow> decoder;
          let own = snd (tc_in_encrypted (ts_get side s));
          encrypted \<leftarrow> oc_copy (fst (tc_in_encrypted (ts_get side s))) own;
          (result, encrypted, decoder) \<leftarrow> decoder_Start (cr_ssl cr) encrypted NoPadding decoder;
          let s = SetDecoder p (Some decoder) s;
          (if result \<noteq> SUCCEEDED then do {
             cs \<leftarrow> oc_destroy (fst encrypted) (snd encrypted);
             let s = ts_put side ((ts_get side s)\<lparr>tc_in_encrypted := (cs, own)\<rparr>) s;
             v \<leftarrow> tcp_HandleDecodeError cc side (Some p) result s;
             Some (Inl v)
           }
           else do {
             left \<leftarrow> oc_left (fst encrypted) own;
             encrypted_left \<leftarrow> oc_left (fst encrypted) (snd encrypted);
             (cs, own) \<leftarrow> oc_increment (fst encrypted) own (left - encrypted_left);
             cs \<leftarrow> oc_destroy cs (snd encrypted);
             Some (Inr (ts_put side ((ts_get side s)\<lparr>tc_in_encrypted := (cs, own), tc_decoder := Some p\<rparr>) s))
           })
        })"

text \<open>\<open>decoder_->Continue\<close> from the encrypted to the clear buffer.\<close>

definition continue_decoding ::
    "('x, 'k) crypto \<Rightarrow> ('n, ('x, 'k, 'n, 'h, 'w, 'e) tcp_hub) tcp_side \<Rightarrow> nat \<Rightarrow>
     ('x, 'k, 'n, 'h, 'w, 'e) tcp_hub \<Rightarrow> (Result \<times> ('x, 'k, 'n, 'h, 'w, 'e) tcp_hub) option" where
  "continue_decoding cr side until s = do {
     let c = ts_get side s;
     q \<leftarrow> tc_decoder c;
     decoder \<leftarrow> se_decoder (session_at q s);
     (result, encrypted, d, x) \<leftarrow> Decoder_Continue (pt_cipher (cr_ssl cr) (pt_kind decoder)) (of_nat until)
        (tc_in_encrypted c) (fst (tc_in_cleartext c)) (pt_ctx decoder);
     let s = SetDecoder q (Some (decoder\<lparr>pt_ctx := x\<rparr>)) s;
     Some (result, ts_put side ((ts_get side s)\<lparr>tc_in_encrypted := encrypted, tc_in_cleartext := (d, snd (tc_in_cleartext c))\<rparr>) s)
   }"

definition decode_size ::
    "('x, 'k) crypto \<Rightarrow> ('x, 'k, 'n tcp_connection, 'w) connection_class \<Rightarrow> ('n, ('x, 'k, 'n, 'h, 'w, 'e) tcp_hub) tcp_side \<Rightarrow>
     ('x, 'k, 'n, 'h, 'w, 'e) tcp_hub \<Rightarrow> ('x, 'k, 'n, 'h, 'w, 'e) tcp_hub tcp_step option" where
  "decode_size cr cc side s = do {
     let clear = tc_in_cleartext (ts_get side s);
     left \<leftarrow> oc_left (fst clear) (snd clear);
     (if left < 2 then do {
        (result, s) \<leftarrow> continue_decoding cr side (2 - left) s;
        (if result \<noteq> SUCCEEDED then do {
           v \<leftarrow> tcp_HandleDecodeError cc side (tc_session (ts_get side s)) result s;
           Some (Inl v)
         }
         else Some (Inr s))
      }
      else Some (Inr s))
   }"

text \<open>The end of the scope of the copied cursor \<open>cleartext\<close>.\<close>

definition clear_chunks :: "('n, 's) tcp_side \<Rightarrow> 's \<Rightarrow> chunkset" where
  "clear_chunks side s = fst (tc_in_cleartext (ts_get side s))"

definition set_clear_chunks :: "('n, 's) tcp_side \<Rightarrow> chunkset \<Rightarrow> 's \<Rightarrow> 's" where
  "set_clear_chunks side cs s = (let c = ts_get side s in ts_put side (c\<lparr>tc_in_cleartext := (cs, snd (tc_in_cleartext c))\<rparr>) s)"

definition leave_scope :: "('n, 's) tcp_side \<Rightarrow> cursor \<Rightarrow> 's \<Rightarrow> 's option" where
  "leave_scope side cleartext s = do {
     cs \<leftarrow> oc_destroy (clear_chunks side s) cleartext;
     Some (set_clear_chunks side cs s)
   }"

text \<open>A whole message: the padding is skipped, the data handed to the session, and all of it left behind.\<close>

definition deliver ::
    "('x, 'k) crypto \<Rightarrow> ('x, 'k, 'n tcp_connection, 'w) connection_class \<Rightarrow>
     ('h \<Rightarrow> nat \<Rightarrow> reader \<Rightarrow> ('x, 'k, 'n, 'h, 'w, 'e) tcp_hub \<Rightarrow> (reader \<times> ('x, 'k, 'n, 'h, 'w, 'e) tcp_hub) option) \<Rightarrow>
     ('n, ('x, 'k, 'n, 'h, 'w, 'e) tcp_hub) tcp_side \<Rightarrow> u16 \<Rightarrow> cursor \<Rightarrow> ('x, 'k, 'n, 'h, 'w, 'e) tcp_hub \<Rightarrow>
     ('x, 'k, 'n, 'h, 'w, 'e) tcp_hub tcp_step option" where
  "deliver cr cc call side n cleartext s = do {
     p \<leftarrow> tc_session (ts_get side s);
     q \<leftarrow> tc_decoder (ts_get side s);
     decoder \<leftarrow> se_decoder (session_at q s);
     let lib = pt_cipher (cr_ssl cr) (pt_kind decoder);
     (result, padsize, (cs, cleartext)) \<leftarrow> RemovePadding lib (clear_chunks side s, cleartext) (ucast n + 2);
     (if result \<noteq> SUCCEEDED then do {
        v \<leftarrow> tcp_HandleDecodeError cc side (Some p) result (set_clear_chunks side cs s);
        s \<leftarrow> leave_scope side cleartext (snd v);
        Some (Inl (fst v, s))
      }
      else do {
        (_, cs, x) \<leftarrow> Decoder_End lib cs (pt_ctx decoder);
        cleartext \<leftarrow> oc_limit cs cleartext (unat n);
        let s = SetDecoder q (Some (decoder\<lparr>pt_ctx := x\<rparr>)) (set_clear_chunks side cs s);
        ((cs, cleartext), s) \<leftarrow> HandlePacket call p (cs, cleartext) s;
        let c = ts_get side s;
        (cs, own) \<leftarrow> oc_increment cs (snd (tc_in_cleartext c)) (unat n + unat padsize + 2);
        let s = ts_put side (c\<lparr>tc_session := None, tc_decoder := None, tc_in_cleartext := (cs, own)\<rparr>) s;
        s \<leftarrow> leave_scope side cleartext s;
        Some (Inr s)
      })
   }"

definition read_packet ::
    "('x, 'k) crypto \<Rightarrow> ('x, 'k, 'n tcp_connection, 'w) connection_class \<Rightarrow>
     ('h \<Rightarrow> nat \<Rightarrow> reader \<Rightarrow> ('x, 'k, 'n, 'h, 'w, 'e) tcp_hub \<Rightarrow> (reader \<times> ('x, 'k, 'n, 'h, 'w, 'e) tcp_hub) option) \<Rightarrow>
     ('n, ('x, 'k, 'n, 'h, 'w, 'e) tcp_hub) tcp_side \<Rightarrow> ('x, 'k, 'n, 'h, 'w, 'e) tcp_hub \<Rightarrow>
     ('x, 'k, 'n, 'h, 'w, 'e) tcp_hub tcp_step option" where
  "read_packet cr cc call side s = do {
     let clear = tc_in_cleartext (ts_get side s);
     copied \<leftarrow> oc_copy (fst clear) (snd clear);
     (missing, size, (cs, cleartext)) \<leftarrow> decode_u16 reader_consume copied;
     let s = set_clear_chunks side cs s;
     (if missing \<noteq> 0 then do { s \<leftarrow> leave_scope side cleartext s; Some (Inl (MORE, s)) }
      else do {
        size \<leftarrow> size;
        left \<leftarrow> oc_left cs cleartext;
        (result, s) \<leftarrow> (if left < unat size then continue_decoding cr side (unat size - left) s else Some (SUCCEEDED, s));
        (if result \<noteq> SUCCEEDED then do {
           v \<leftarrow> tcp_HandleDecodeError cc side (tc_session (ts_get side s)) result s;
           s \<leftarrow> leave_scope side cleartext (snd v);
           Some (Inl (fst v, s))
         }
         else do {
           left \<leftarrow> oc_left (clear_chunks side s) cleartext;
           (if left < unat size then do { s \<leftarrow> leave_scope side cleartext s; Some (Inl (MORE, s)) }
            else deliver cr cc call side size cleartext s)
         })
      })
   }"

definition read_step ::
    "('x, 'k) crypto \<Rightarrow> ('x, 'k, 'n tcp_connection, 'w) connection_class \<Rightarrow>
     ('h \<Rightarrow> nat \<Rightarrow> reader \<Rightarrow> ('x, 'k, 'n, 'h, 'w, 'e) tcp_hub \<Rightarrow> (reader \<times> ('x, 'k, 'n, 'h, 'w, 'e) tcp_hub) option) \<Rightarrow>
     ('n, ('x, 'k, 'n, 'h, 'w, 'e) tcp_hub) tcp_side \<Rightarrow> ('x, 'k, 'n, 'h, 'w, 'e) tcp_hub \<Rightarrow>
     ('x, 'k, 'n, 'h, 'w, 'e) tcp_hub tcp_step option" where
  "read_step cr cc call side s =
     and_then (and_then (and_then (find_session cc side s) (start_decoder cr cc side)) (decode_size cr cc side))
       (read_packet cr cc call side)"

text \<open>The loop, as long as there are encrypted bytes; it is not bounded by the data, since a decoder need not take any.\<close>

partial_function (option) read_loop ::
    "('x, 'k) crypto \<Rightarrow> ('x, 'k, 'n tcp_connection, 'w) connection_class \<Rightarrow>
     ('h \<Rightarrow> nat \<Rightarrow> reader \<Rightarrow> ('x, 'k, 'n, 'h, 'w, 'e) tcp_hub \<Rightarrow> (reader \<times> ('x, 'k, 'n, 'h, 'w, 'e) tcp_hub) option) \<Rightarrow>
     ('n, ('x, 'k, 'n, 'h, 'w, 'e) tcp_hub) tcp_side \<Rightarrow> ('x, 'k, 'n, 'h, 'w, 'e) tcp_hub \<Rightarrow>
     (processing_state \<times> ('x, 'k, 'n, 'h, 'w, 'e) tcp_hub) option" where
  "read_loop cr cc call side s = do {
     left \<leftarrow> oc_left (fst (tc_in_encrypted (ts_get side s))) (snd (tc_in_encrypted (ts_get side s)));
     (if left = 0 then Some (MORE, s)
      else do {
        r \<leftarrow> read_step cr cc call side s;
        (case r of Inl returned \<Rightarrow> Some returned | Inr s \<Rightarrow> read_loop cr cc call side s)
      })
   }"

definition tcp_HandleRead ::
    "('x, 'k) crypto \<Rightarrow> ('x, 'k, 'n tcp_connection, 'w) connection_class \<Rightarrow>
     ('h \<Rightarrow> nat \<Rightarrow> reader \<Rightarrow> ('x, 'k, 'n, 'h, 'w, 'e) tcp_hub \<Rightarrow> (reader \<times> ('x, 'k, 'n, 'h, 'w, 'e) tcp_hub) option) \<Rightarrow>
     ('n, ('x, 'k, 'n, 'h, 'w, 'e) tcp_hub) tcp_side \<Rightarrow> ('x, 'k, 'n, 'h, 'w, 'e) tcp_hub \<Rightarrow>
     (processing_state \<times> ('x, 'k, 'n, 'h, 'w, 'e) tcp_hub) option" where
  "tcp_HandleRead cr cc call side s = do {
     let c = ts_get side s;
     (status, cs, n) \<leftarrow> bc_Read (tc_channel c) (ic_reserve (fst (tc_in_encrypted c)) kReadSize) (ts_net side s);
     let s = ts_put side (c\<lparr>tc_in_encrypted := (cs, snd (tc_in_encrypted c))\<rparr>) (ts_put_net side n s);
     (if status \<noteq> OK then do {
        s \<leftarrow> tcp_HandleError cc side None (if status = CLOSED then Shutdown else System) s;
        Some (DONE, s)
      }
      else read_loop cr cc call side s)
   }"

section \<open>The client\<close>

definition tcp_client_SendMessage ::
    "('x, 'k) crypto \<Rightarrow> 'x protector option \<Rightarrow> 'k prng \<Rightarrow> 'n tcp_connection \<Rightarrow> 'n \<Rightarrow>
     (bool \<times> (connection_key \<times> CloseReason) option \<times> 'x protector option \<times> 'k prng \<times> 'n tcp_connection \<times> 'n) option" where
  "tcp_client_SendMessage cr encoder prng c n = tcp_SendMessage cr encoder prng c n"

definition tcp_client_class :: "('x, 'k) crypto \<Rightarrow> ('x, 'k, 'n tcp_connection, 'n) connection_class" where
  "tcp_client_class cr = \<lparr>cc_Message = tcp_Message, cc_put_Message = (\<lambda>r c. c\<lparr>tc_out_cleartext := r\<rparr>),
     cc_SendMessage = tcp_client_SendMessage cr, cc_Close = tcp_Close\<rparr>"

definition tcp_client_GetKey :: "'n tcp_connection \<Rightarrow> connection_key" where
  "tcp_client_GetKey c = tc_key c"

text \<open>\<open>connect\<close> is the transport's \<open>StreamConnect\<close>.\<close>

definition tcp_Connect ::
    "(sockaddr \<Rightarrow> 'n \<Rightarrow> ('n stream_channel option \<times> 'n) option) \<Rightarrow> bytes \<Rightarrow> u64 \<Rightarrow> sockaddr \<Rightarrow> 'n \<Rightarrow>
     ('n tcp_connection option \<times> 'n) option" where
  "tcp_Connect connect memory this address n = do {
     (channel, n) \<leftarrow> connect address n;
     (case channel of
        None \<Rightarrow> Some (None, n)
      | Some channel \<Rightarrow> do {
          (c, n) \<leftarrow> tcp_Connection_new memory this channel n;
          Some (Some c, n)
        })
   }"

text \<open>A client's connection is the one of the session \<open>p\<close> that \<open>AddConnection\<close> made for it.\<close>

definition client_side :: "nat \<Rightarrow> ('n, ('x, 'k, 'n tcp_connection, 'h, 'n) client) tcp_side" where
  "client_side p =
     \<lparr>ts_get = \<lambda>cl. se_connection (session_at p cl),
      ts_put = \<lambda>c cl. set_session p ((session_at p cl)\<lparr>se_connection := c\<rparr>) cl,
      ts_net = hb_world, ts_put_net = \<lambda>n cl. cl\<lparr>hb_world := n\<rparr>,
      ts_CreateSession = \<lambda>key cl. client_CreateSession key (se_connection (session_at p cl)) cl\<rparr>"

definition tcp_client_HandleWrite ::
    "nat \<Rightarrow> ('x, 'k, 'n tcp_connection, 'h, 'n) client \<Rightarrow> (processing_state \<times> ('x, 'k, 'n tcp_connection, 'h, 'n) client) option" where
  "tcp_client_HandleWrite p cl = tcp_HandleWrite (client_side p) cl"

definition tcp_client_HandleRead ::
    "('x, 'k) crypto \<Rightarrow> ('h, ('x, 'k, 'n tcp_connection, 'h, 'n) client) channel \<Rightarrow> nat \<Rightarrow>
     ('x, 'k, 'n tcp_connection, 'h, 'n) client \<Rightarrow> (processing_state \<times> ('x, 'k, 'n tcp_connection, 'h, 'n) client) option" where
  "tcp_client_HandleRead cr ch p cl =
     tcp_HandleRead cr (tcp_client_class cr) (call_client cr (tcp_client_class cr) ch) (client_side p) cl"

section \<open>The server\<close>

text \<open>
  \<open>ac_AcceptConnection\<close> is given the number of the new connection, whose handlers its channel will call. A
  connection has no session when it is accepted: it is \<open>Inl c\<close> then, and \<open>Inr p\<close> once it is the one of the session \<open>p\<close>.
\<close>

record 'n accepting_channel =
  ac_WantConnection :: "'n \<Rightarrow> 'n option"
  ac_AcceptConnection :: "nat \<Rightarrow> 'n \<Rightarrow> ('n stream_channel option \<times> 'n) option"

record 'n tcp_server =
  tr_socket :: "'n accepting_channel option"
  tr_connections :: "('n tcp_connection + nat) list"
  tr_net :: 'n

definition TcpServer_Start ::
    "('n \<Rightarrow> ('n accepting_channel option \<times> 'n) option) \<Rightarrow> 'n tcp_server \<Rightarrow> (bool \<times> 'n tcp_server) option" where
  "TcpServer_Start listen u = do {
     (socket, n) \<leftarrow> listen (tr_net u);
     let u = u\<lparr>tr_socket := socket, tr_net := n\<rparr>;
     (case socket of
        None \<Rightarrow> Some (False, u)
      | Some socket \<Rightarrow> do {
          n \<leftarrow> ac_WantConnection socket (tr_net u);
          Some (True, u\<lparr>tr_net := n\<rparr>)
        })
   }"

definition tcp_HandleConnection ::
    "bytes \<Rightarrow> u64 \<Rightarrow> 'n tcp_server \<Rightarrow> (processing_state \<times> 'n tcp_server) option" where
  "tcp_HandleConnection memory this u = do {
     socket \<leftarrow> tr_socket u;
     (channel, n) \<leftarrow> ac_AcceptConnection socket (length (tr_connections u)) (tr_net u);
     (case channel of
        None \<Rightarrow> Some (MORE, u\<lparr>tr_net := n\<rparr>)
      | Some channel \<Rightarrow> do {
          (c, n) \<leftarrow> tcp_Connection_new memory this channel n;
          Some (MORE, u\<lparr>tr_connections := tr_connections u @ [Inl c], tr_net := n\<rparr>)
        })
   }"

definition on_net ::
    "('n \<Rightarrow> ('a \<times> 'n) option) \<Rightarrow> 'n tcp_server \<Rightarrow> ('a \<times> 'n tcp_server) option" where
  "on_net f u = do { (a, n) \<leftarrow> f (tr_net u); Some (a, u\<lparr>tr_net := n\<rparr>) }"

definition tcp_server_SendMessage ::
    "('x, 'k) crypto \<Rightarrow> 'x protector option \<Rightarrow> 'k prng \<Rightarrow> 'n tcp_connection \<Rightarrow> 'n tcp_server \<Rightarrow>
     (bool \<times> (connection_key \<times> CloseReason) option \<times> 'x protector option \<times> 'k prng \<times> 'n tcp_connection \<times> 'n tcp_server) option" where
  "tcp_server_SendMessage cr encoder prng c u = do {
     (ok, report, encoder, prng, c, n) \<leftarrow> tcp_SendMessage cr encoder prng c (tr_net u);
     Some (ok, report, encoder, prng, c, u\<lparr>tr_net := n\<rparr>)
   }"

definition tcp_server_class :: "('x, 'k) crypto \<Rightarrow> ('x, 'k, 'n tcp_connection, 'n tcp_server) connection_class" where
  "tcp_server_class cr = \<lparr>cc_Message = tcp_Message, cc_put_Message = (\<lambda>r c. c\<lparr>tc_out_cleartext := r\<rparr>),
     cc_SendMessage = tcp_server_SendMessage cr, cc_Close = (\<lambda>c. on_net (tcp_Close c))\<rparr>"

definition get_connection ::
    "nat \<Rightarrow> ('x, 'k, 'n tcp_connection, 'h, 'n tcp_server) server \<Rightarrow> 'n tcp_connection" where
  "get_connection i sv =
     (case tr_connections (hb_world sv) ! i of Inl c \<Rightarrow> c | Inr p \<Rightarrow> se_connection (session_at p sv))"

definition place_connection ::
    "nat \<Rightarrow> 'n tcp_connection + nat \<Rightarrow> ('x, 'k, 'n tcp_connection, 'h, 'n tcp_server) server \<Rightarrow>
     ('x, 'k, 'n tcp_connection, 'h, 'n tcp_server) server" where
  "place_connection i at_place sv =
     sv\<lparr>hb_world := (hb_world sv)\<lparr>tr_connections := (tr_connections (hb_world sv))[i := at_place]\<rparr>\<rparr>"

definition put_connection ::
    "nat \<Rightarrow> 'n tcp_connection \<Rightarrow> ('x, 'k, 'n tcp_connection, 'h, 'n tcp_server) server \<Rightarrow>
     ('x, 'k, 'n tcp_connection, 'h, 'n tcp_server) server" where
  "put_connection i c sv =
     (case tr_connections (hb_world sv) ! i of
        Inl _ \<Rightarrow> place_connection i (Inl c) sv
      | Inr p \<Rightarrow> set_session p ((session_at p sv)\<lparr>se_connection := c\<rparr>) sv)"

definition create_for ::
    "nat \<Rightarrow> connection_key \<Rightarrow> ('x, 'k, 'n tcp_connection, 'h, 'n tcp_server) server \<Rightarrow>
     nat option \<times> ('x, 'k, 'n tcp_connection, 'h, 'n tcp_server) server" where
  "create_for i key sv =
     (let (session, sv) = CreateSession Start_authenticator key (get_connection i sv) sv
      in (session, case session of None \<Rightarrow> sv | Some p \<Rightarrow> place_connection i (Inr p) sv))"

definition server_side :: "nat \<Rightarrow> ('n, ('x, 'k, 'n tcp_connection, 'h, 'n tcp_server) server) tcp_side" where
  "server_side i =
     \<lparr>ts_get = get_connection i, ts_put = put_connection i,
      ts_net = (\<lambda>sv. tr_net (hb_world sv)), ts_put_net = (\<lambda>n sv. sv\<lparr>hb_world := (hb_world sv)\<lparr>tr_net := n\<rparr>\<rparr>),
      ts_CreateSession = create_for i\<rparr>"

definition tcp_server_HandleWrite ::
    "nat \<Rightarrow> ('x, 'k, 'n tcp_connection, 'h, 'n tcp_server) server \<Rightarrow>
     (processing_state \<times> ('x, 'k, 'n tcp_connection, 'h, 'n tcp_server) server) option" where
  "tcp_server_HandleWrite i sv = tcp_HandleWrite (server_side i) sv"

definition tcp_server_HandleRead ::
    "('x, 'k) crypto \<Rightarrow> ('h, ('x, 'k, 'n tcp_connection, 'h, 'n tcp_server) server) channel \<Rightarrow> nat \<Rightarrow>
     ('x, 'k, 'n tcp_connection, 'h, 'n tcp_server) server \<Rightarrow>
     (processing_state \<times> ('x, 'k, 'n tcp_connection, 'h, 'n tcp_server) server) option" where
  "tcp_server_HandleRead cr ch i sv =
     tcp_HandleRead cr (tcp_server_class cr) (call_server cr (tcp_server_class cr) ch) (server_side i) sv"

end
