(* ===== verification/DaemonControl.thy ===== *)
theory DaemonControl
  imports TcpTranscoders UdpSockets
begin

text \<open>
  The control socket: \<open>src/src/ipc-client.h\<close>, \<open>.cc\<close>, \<open>ipc-server.h\<close>, \<open>daemon-controller.cc\<close>, \<open>daemon-controller-server.h\<close>,
  \<open>.cc\<close>, \<open>daemon-controller-client.h\<close>, \<open>.cc\<close>, \<open>uvpn-ctl.cc\<close>, and the two classes that the repository's generator made
  of \<open>src/src/ipc/daemon-controller.ipc\<close>. A remote call is its number, 16 bits with a sign, and its argument.

  \<open>IpcServerInterface::Send\<close> and \<open>SetChannel\<close> are declared and nowhere defined: \<open>Send\<close> is an argument.
\<close>

section \<open>The interface of a client\<close>

record 'n ipc_client =
  ipc_channel :: "'n bound_channel option"
  ipc_read_buffer :: reader
  ipc_write_buffer :: reader

definition ipc_client_new :: "'n ipc_client option" where
  "ipc_client_new = do {
     r \<leftarrow> new_buffer;
     w \<leftarrow> new_buffer;
     Some \<lparr>ipc_channel = None, ipc_read_buffer = r, ipc_write_buffer = w\<rparr>
   }"

definition ipc_SetChannel :: "'n bound_channel \<Rightarrow> 'n ipc_client \<Rightarrow> 'n \<Rightarrow> ('n ipc_client \<times> 'n) option" where
  "ipc_SetChannel channel i n = do {
     n \<leftarrow> bc_WantRead channel n;
     let r = ipc_read_buffer i;
     Some (i\<lparr>ipc_channel := Some channel, ipc_read_buffer := (ic_reserve (fst r) 8192, snd r)\<rparr>, n)
   }"

text \<open>
  The virtual \<open>Dispatch\<close> changes the state \<open>'s\<close> of the program and returns an \<open>int\<close>. It reads through a copy of
  the buffer's own cursor, which follows it when the result is not positive. The copy is destroyed at the end
  of its scope, after the \<open>Reserve\<close>.
\<close>

type_synonym 's dispatch = "reader \<Rightarrow> 's \<Rightarrow> (int \<times> reader \<times> 's) option"

partial_function (option) ipc_parse_loop :: "'s dispatch \<Rightarrow> reader \<Rightarrow> 's \<Rightarrow> (reader \<times> 's) option" where
  "ipc_parse_loop disp r st = do {
     copied \<leftarrow> oc_copy (fst r) (snd r);
     (result, parsing, st) \<leftarrow> disp copied st;
     (if 0 < result then do {
        cs \<leftarrow> oc_destroy (ic_reserve (fst parsing) (nat result)) (snd parsing);
        Some ((cs, snd r), st)
      }
      else do {
        left \<leftarrow> oc_left (fst parsing) (snd r);
        parsing_left \<leftarrow> oc_left (fst parsing) (snd parsing);
        (cs, own) \<leftarrow> oc_increment (fst parsing) (snd r) (left - parsing_left);
        cs \<leftarrow> oc_destroy cs (snd parsing);
        ipc_parse_loop disp (cs, own) st
      })
   }"

text \<open>What \<open>Read\<close> and \<open>Write\<close> return is not looked at.\<close>

definition ipc_HandleRead ::
    "'s dispatch \<Rightarrow> 'n ipc_client \<Rightarrow> 's \<Rightarrow> 'n \<Rightarrow> (processing_state \<times> 'n ipc_client \<times> 's \<times> 'n) option" where
  "ipc_HandleRead disp i st n = do {
     channel \<leftarrow> ipc_channel i;
     (_, cs, n) \<leftarrow> bc_Read channel (fst (ipc_read_buffer i)) n;
     (r, st) \<leftarrow> ipc_parse_loop disp (cs, snd (ipc_read_buffer i)) st;
     Some (MORE, i\<lparr>ipc_read_buffer := r\<rparr>, st, n)
   }"

definition ipc_HandleWrite :: "'n ipc_client \<Rightarrow> 'n \<Rightarrow> (processing_state \<times> 'n ipc_client \<times> 'n) option" where
  "ipc_HandleWrite i n = do {
     channel \<leftarrow> ipc_channel i;
     (_, w, n) \<leftarrow> bc_Write channel (ipc_write_buffer i) n;
     left \<leftarrow> oc_left (fst w) (snd w);
     Some (if left \<noteq> 0 then MORE else DONE, i\<lparr>ipc_write_buffer := w\<rparr>, n)
   }"

definition ipc_Send :: "'n ipc_client \<Rightarrow> 'n \<Rightarrow> ('n ipc_client \<times> 'n) option" where
  "ipc_Send i n = do {
     channel \<leftarrow> ipc_channel i;
     n \<leftarrow> bc_WantWrite channel n;
     Some (i, n)
   }"

section \<open>The calls\<close>

text \<open>The methods that the two sides implement, with their arguments.\<close>

datatype client_rpc =
    ServerShowClientsReply "bytes list"
  | RequestServerStatusReply "bytes list"
  | GetParameterFromUserRequest "bytes list"

datatype server_rpc =
    ClientConnectRequest bytes
  | ServerShowClientsRequest
  | RequestServerStatusRequest "bytes list"
  | GetParameterFromUserReply "bytes list"

text \<open>All senders write the number, then the argument. What the encoders return is not looked at.\<close>

definition put_number :: "u16 \<Rightarrow> reader \<Rightarrow> reader option" where
  "put_number num w = do { (_, w) \<leftarrow> encode_s16 reader_add num w; Some w }"

definition put_string :: "u16 \<Rightarrow> bytes \<Rightarrow> reader \<Rightarrow> reader option" where
  "put_string num x w = do {
     w \<leftarrow> put_number num w;
     (_, w) \<leftarrow> encode_string reader_add x w;
     Some w
   }"

definition put_strings :: "u16 \<Rightarrow> bytes list \<Rightarrow> reader \<Rightarrow> reader option" where
  "put_strings num xs w = do {
     w \<leftarrow> put_number num w;
     (_, w) \<leftarrow> encode_vector reader_add (encode_string reader_add) xs w;
     Some w
   }"

subsection \<open>Sent by the client\<close>

definition client_sends :: "(reader \<Rightarrow> reader option) \<Rightarrow> 'n ipc_client \<Rightarrow> 'n \<Rightarrow> ('n ipc_client \<times> 'n) option" where
  "client_sends put i n = do {
     w \<leftarrow> put (ipc_write_buffer i);
     ipc_Send (i\<lparr>ipc_write_buffer := w\<rparr>) n
   }"

definition SendRequestClientConnect :: "bytes \<Rightarrow> 'n ipc_client \<Rightarrow> 'n \<Rightarrow> ('n ipc_client \<times> 'n) option" where
  "SendRequestClientConnect server = client_sends (put_string 1 server)"

definition SendRequestServerShowClients :: "'n ipc_client \<Rightarrow> 'n \<Rightarrow> ('n ipc_client \<times> 'n) option" where
  "SendRequestServerShowClients = client_sends (put_number 2)"

definition SendRequestRequestServerStatus :: "bytes list \<Rightarrow> 'n ipc_client \<Rightarrow> 'n \<Rightarrow> ('n ipc_client \<times> 'n) option" where
  "SendRequestRequestServerStatus server = client_sends (put_strings 3 server)"

definition SendReplyForGetParameterFromUser :: "bytes list \<Rightarrow> 'n ipc_client \<Rightarrow> 'n \<Rightarrow> ('n ipc_client \<times> 'n) option" where
  "SendReplyForGetParameterFromUser value = client_sends (put_strings (- 16384) value)"

subsection \<open>Sent by the server\<close>

record ipc_server =
  ips_read_buffer :: reader
  ips_write_buffer :: reader

definition server_sends ::
    "('n \<Rightarrow> 'n option) \<Rightarrow> (reader \<Rightarrow> reader option) \<Rightarrow> ipc_server \<Rightarrow> 'n \<Rightarrow> (ipc_server \<times> 'n) option" where
  "server_sends send put i n = do {
     w \<leftarrow> put (ips_write_buffer i);
     n \<leftarrow> send n;
     Some (i\<lparr>ips_write_buffer := w\<rparr>, n)
   }"

definition SendReplyForServerShowClients ::
    "('n \<Rightarrow> 'n option) \<Rightarrow> bytes list \<Rightarrow> ipc_server \<Rightarrow> 'n \<Rightarrow> (ipc_server \<times> 'n) option" where
  "SendReplyForServerShowClients send client = server_sends send (put_strings (- 2) client)"

definition SendReplyForRequestServerStatus ::
    "('n \<Rightarrow> 'n option) \<Rightarrow> bytes list \<Rightarrow> ipc_server \<Rightarrow> 'n \<Rightarrow> (ipc_server \<times> 'n) option" where
  "SendReplyForRequestServerStatus send status = server_sends send (put_strings (- 3) status)"

definition SendRequestGetParameterFromUser ::
    "('n \<Rightarrow> 'n option) \<Rightarrow> bytes list \<Rightarrow> ipc_server \<Rightarrow> 'n \<Rightarrow> (ipc_server \<times> 'n) option" where
  "SendRequestGetParameterFromUser send name = server_sends send (put_strings 16384 name)"

section \<open>Dispatch\<close>

text \<open>The \<open>Parse\<close> methods have the same text, but for the argument's type and the method that is called.\<close>

definition parse_argument ::
    "(reader \<Rightarrow> ('a, reader) decoded) \<Rightarrow> ('a \<Rightarrow> 's \<Rightarrow> 's option) \<Rightarrow> 's dispatch" where
  "parse_argument decode process cursor st = do {
     (result, arg, cursor) \<leftarrow> decode cursor;
     (case arg of
        None \<Rightarrow> Some (int result, cursor, st)
      | Some arg \<Rightarrow> do { st \<leftarrow> process arg st; Some (0, cursor, st) })
   }"

abbreviation get_string :: "reader \<Rightarrow> (bytes, reader) decoded" where
  "get_string \<equiv> decode_string reader_consume"

abbreviation get_strings :: "reader \<Rightarrow> (bytes list, reader) decoded" where
  "get_strings \<equiv> decode_vector reader_consume (decode_string reader_consume)"

definition client_Dispatch :: "(client_rpc \<Rightarrow> 's \<Rightarrow> 's option) \<Rightarrow> 's dispatch" where
  "client_Dispatch process cursor st = do {
     (result, num, cursor) \<leftarrow> decode_s16 reader_consume cursor;
     (case num of
        None \<Rightarrow> Some (int result, cursor, st)
      | Some num \<Rightarrow>
          (if num = - 2 then parse_argument get_strings (\<lambda>x. process (ServerShowClientsReply x)) cursor st
           else if num = - 3 then parse_argument get_strings (\<lambda>x. process (RequestServerStatusReply x)) cursor st
           else if num = 16384 then parse_argument get_strings (\<lambda>x. process (GetParameterFromUserRequest x)) cursor st
           else Some (- 1, cursor, st)))
   }"

definition server_Dispatch :: "(server_rpc \<Rightarrow> 's \<Rightarrow> 's option) \<Rightarrow> 's dispatch" where
  "server_Dispatch process cursor st = do {
     (result, num, cursor) \<leftarrow> decode_s16 reader_consume cursor;
     (case num of
        None \<Rightarrow> Some (int result, cursor, st)
      | Some num \<Rightarrow>
          (if num = 1 then parse_argument get_string (\<lambda>x. process (ClientConnectRequest x)) cursor st
           else if num = 2 then do { st \<leftarrow> process ServerShowClientsRequest st; Some (0, cursor, st) }
           else if num = 3 then parse_argument get_strings (\<lambda>x. process (RequestServerStatusRequest x)) cursor st
           else if num = - 16384 then parse_argument get_strings (\<lambda>x. process (GetParameterFromUserReply x)) cursor st
           else Some (- 1, cursor, st)))
   }"

section \<open>The daemons and the control program\<close>

text \<open>\<open>MakeName\<close>, with the number of the process that calls it.\<close>

definition MakeName :: "nat \<Rightarrow> bytes \<Rightarrow> bytes \<Rightarrow> bytes" where
  "MakeName pid type name = str ''/var/run/uvpn/uvpn-ctl.'' @ type @ str ''.'' @ name @ str ''.'' @ ToString_nat pid"

definition Controller_Connect ::
    "bytes \<Rightarrow> nat \<Rightarrow> bytes \<Rightarrow> bytes \<Rightarrow> ('c, 'e) net_scheme \<Rightarrow> (nat option \<times> ('c, 'e) net_scheme) option" where
  "Controller_Connect memory pid type name = DatagramConnect (Local_new memory (MakeName pid type name))"

definition Controller_Listen ::
    "bytes \<Rightarrow> nat \<Rightarrow> bytes \<Rightarrow> bytes \<Rightarrow> ('c, 'e) net_scheme \<Rightarrow> (nat option \<times> ('c, 'e) net_scheme) option" where
  "Controller_Listen memory pid type name = StreamListenOn (Local_new memory (MakeName pid type name))"

text \<open>
  \<open>DaemonControllerServer\<close>. A \<open>Connection\<close> is made for every client and nothing keeps it: here they are in the order of
  their creation, with the channel that each owns. Managers are pointers.
\<close>

record 'n daemon_server =
  ds_channel :: "'n accepting_channel option"
  ds_clients :: "nat list"
  ds_servers :: "nat list"
  ds_connections :: "('n stream_channel \<times> ipc_server) list"

definition daemon_server_new :: "'n daemon_server" where
  "daemon_server_new = \<lparr>ds_channel = None, ds_clients = [], ds_servers = [], ds_connections = []\<rparr>"

definition daemon_Listen :: "'n accepting_channel \<Rightarrow> 'n daemon_server \<Rightarrow> 'n \<Rightarrow> ('n daemon_server \<times> 'n) option" where
  "daemon_Listen channel d n = do {
     n \<leftarrow> ac_WantConnection channel n;
     Some (d\<lparr>ds_channel := Some channel\<rparr>, n)
   }"

definition daemon_HandleConnection :: "'n daemon_server \<Rightarrow> 'n \<Rightarrow> (processing_state \<times> 'n daemon_server \<times> 'n) option" where
  "daemon_HandleConnection d n = do {
     accepting \<leftarrow> ds_channel d;
     (channel, n) \<leftarrow> ac_AcceptConnection accepting (length (ds_connections d)) n;
     (case channel of
        None \<Rightarrow> Some (MORE, d, n)
      | Some channel \<Rightarrow> do {
          r \<leftarrow> new_buffer;
          w \<leftarrow> new_buffer;
          let connection = (channel, \<lparr>ips_read_buffer = r, ips_write_buffer = w\<rparr>);
          Some (MORE, d\<lparr>ds_connections := ds_connections d @ [connection]\<rparr>, n)
        })
   }"

definition daemon_AddClient :: "nat \<Rightarrow> 'n daemon_server \<Rightarrow> 'n daemon_server" where
  "daemon_AddClient manager d = d\<lparr>ds_clients := ds_clients d @ [manager]\<rparr>"

definition daemon_AddServer :: "nat \<Rightarrow> 'n daemon_server \<Rightarrow> 'n daemon_server" where
  "daemon_AddServer manager d = d\<lparr>ds_servers := ds_servers d @ [manager]\<rparr>"

text \<open>The methods that the calls end in have empty bodies, on both sides.\<close>

definition connection_process :: "server_rpc \<Rightarrow> 'n daemon_server \<Rightarrow> 'n daemon_server option" where
  "connection_process rpc d = Some d"

definition daemon_client_process :: "client_rpc \<Rightarrow> 'n ipc_client \<Rightarrow> 'n ipc_client option" where
  "daemon_client_process rpc i = Some i"

text \<open>
  \<open>UvpnCtl\<close>: its client and the options. \<open>init\<close>, \<open>connect\<close> and \<open>start\<close> are the dispatcher's \<open>Init\<close> and \<open>Start\<close>, and
  \<open>Controller_Connect\<close>.
\<close>

record 'n uvpn_ctl =
  ctl_type :: bytes
  ctl_name :: bytes
  ctl_server :: bytes
  ctl_client :: "'n ipc_client"

definition ctl_CommandClientConnect :: "'n uvpn_ctl \<Rightarrow> 'n \<Rightarrow> ('n uvpn_ctl \<times> 'n) option" where
  "ctl_CommandClientConnect c n = do {
     (i, n) \<leftarrow> SendRequestClientConnect (ctl_server c) (ctl_client c) n;
     Some (c\<lparr>ctl_client := i\<rparr>, n)
   }"

definition ctl_Init ::
    "('n \<Rightarrow> bool \<times> 'n) \<Rightarrow> (bytes \<Rightarrow> bytes \<Rightarrow> 'n \<Rightarrow> ('n bound_channel option \<times> 'n) option) \<Rightarrow>
     ('n uvpn_ctl \<Rightarrow> 'n \<Rightarrow> ('n uvpn_ctl \<times> 'n) option) \<Rightarrow> 'n uvpn_ctl \<Rightarrow> 'n \<Rightarrow> (bool \<times> 'n uvpn_ctl \<times> 'n) option" where
  "ctl_Init init connect start c n =
     (case init n of
        (False, n) \<Rightarrow> Some (False, c, n)
      | (True, n) \<Rightarrow> do {
          (channel, n) \<leftarrow> connect (ctl_type c) (ctl_name c) n;
          (case channel of
             None \<Rightarrow> Some (False, c, n)
           | Some channel \<Rightarrow> do {
               (i, n) \<leftarrow> ipc_SetChannel channel (ctl_client c) n;
               (c, n) \<leftarrow> start (c\<lparr>ctl_client := i\<rparr>) n;
               Some (True, c, n)
             })
        })"

end
