(* ===== verification/CopiedCursors.thy ===== *)
theory CopiedCursors
  imports LastChunk
begin

text \<open>
  What the readers of streams share: a message is read through a copy of the buffer's cursor, which the buffer's own
  cursor follows once the message was there as a whole.
\<close>

section \<open>Buffers without unused room\<close>

text \<open>The cursors that read find no room that was reserved and not used.\<close>

definition used :: "cursor list \<Rightarrow> bytes list \<Rightarrow> reader \<Rightarrow> bool" where
  "used others vs r \<longleftrightarrow> kept others vs r \<and> all_used (cs_chunks (fst r))"

interpretation used_source: byte_source reader_consume reader_contents "used others vs" for others vs
proof
  fix r n
  assume r: "used others vs r"
  obtain s cur where eq: "r = (s, cur)" by fastforce
  from r have "readable s cur others" "within_limit cur n" by (simp_all add: eq used_def kept_def reader_ok_def within_limit_def)
  from consume_loop [OF this, of "[]"] obtain s' cur' where
    s': "oc_consume s cur n = Some (take n (reader_contents r), s', cur')" "advanced s cur others n s' cur'"
    by (auto simp: oc_consume_def reader_contents_def eq)
  have "used others vs (s', cur')" "reader_contents (s', cur') = drop n (reader_contents r)"
    using kept_advanced [OF _ s'(2), of vs] r s'(2) by (simp_all add: used_def eq advanced_def)
  with s'(1) show "\<exists>s'. reader_consume r n = Some (take n (reader_contents r), s') \<and>
      reader_contents s' = drop n (reader_contents r) \<and> used others vs s'"
    by (auto simp: reader_consume_def eq)
qed

section \<open>The copied cursor\<close>

lemma copy_used:
  assumes "used [] [] (s, cur)"
  obtains s' where "oc_copy s cur = Some (s', cur)" "used [cur] [reader_contents (s, cur)] (s', cur)"
    "reader_contents (s', cur) = reader_contents (s, cur)"
proof -
  have r: "buf_inv s [cur]" "gap_free (cs_chunks s)" "length (unread s cur) < 2 ^ 32" "oc_limited cur = None" "all_used (cs_chunks s)"
    using assms by (simp_all add: used_def reader_ok_def readable_def)
  show thesis
  proof (rule copy_cursor [OF r(1), of cur])
    fix s'
    assume "oc_copy s cur = Some (s', cur)" "buf_inv s' (cur # [cur])" "\<And>c. unread s' c = unread s c"
      "gap_free (cs_chunks s') = gap_free (cs_chunks s)" "all_used (cs_chunks s') = all_used (cs_chunks s)"
    with r show thesis by (intro that [of s']) (simp_all add: used_def kept_def reader_ok_def readable_def reader_contents_def)
  qed simp
qed

lemma buf_inv_swap: "buf_inv s [a, b] \<Longrightarrow> buf_inv s [b, a]"
  by (rule buf_inv_perm) simp_all

text \<open>The buffer's own cursor follows the copy.\<close>

lemma follow_copy:
  assumes u: "used [own] [w @ rest] (s, cur)" "reader_contents (s, cur) = rest" and own: "oc_limited own = None" "length (w @ rest) < 2 ^ 32"
  obtains left s1 own1 s2 where "oc_left s own = Some left" "oc_left s cur = Some (length rest)"
    "oc_increment s own (left - length rest) = Some (s1, own1)" "oc_destroy s1 cur = Some s2"
    "used [] [] (s2, own1)" "reader_contents (s2, own1) = rest"
proof -
  have r: "buf_inv s [cur, own]" "gap_free (cs_chunks s)" "length rest < 2 ^ 32" "oc_limited cur = None" "all_used (cs_chunks s)"
    "unread s own = w @ rest" "unread s cur = rest"
    using u by (simp_all add: used_def kept_def reader_ok_def readable_def reader_contents_def)
  note swapped = buf_inv_swap [OF r(1)]
  have left: "oc_left s own = Some (length (w @ rest))" "oc_left s cur = Some (length rest)"
    using left_size [OF swapped] left_size [OF r(1)] own r(3,4,6,7) by simp_all
  have n: "readable s own [cur]" "length w \<le> length (unread s own)" "within_limit own (length w)"
    using swapped r(2,6) own by (simp_all add: readable_def within_limit_def)
  from increment_advances [OF n] obtain s1 own1 where
    inc: "oc_increment s own (length w) = Some (s1, own1)" "advanced s own [cur] (length w) s1 own1" by blast
  have adv: "buf_inv s1 [own1, cur]" "gap_free (cs_chunks s1)" "unread s1 own1 = rest" "oc_limited own1 = None" "all_used (cs_chunks s1)"
    using inc(2) own(1) r(5,6) by (simp_all add: advanced_def)
  show thesis
  proof (rule destroy_cursor [OF buf_inv_swap [OF adv(1)]])
    fix s2
    assume "oc_destroy s1 cur = Some s2" "buf_inv s2 [own1]" "\<And>c. c \<in> set [own1] \<Longrightarrow> unread s2 c = unread s1 c"
      "gap_free (cs_chunks s1) \<Longrightarrow> gap_free (cs_chunks s2)" "all_used (cs_chunks s1) \<Longrightarrow> all_used (cs_chunks s2)"
    with adv r(3) left inc(1) show thesis
      by (intro that [of "length (w @ rest)" s1 own1 s2])
        (simp_all add: used_def reader_ok_def readable_def reader_contents_def)
  qed
qed


text \<open>The copy is given up.\<close>

lemma drop_copy:
  assumes "used [own] [w] (s, cur)" "oc_limited own = None" "length w < 2 ^ 32"
  obtains s' where "oc_destroy s cur = Some s'" "used [] [] (s', own)" "reader_contents (s', own) = w"
proof -
  have r: "buf_inv s [cur, own]" "gap_free (cs_chunks s)" "all_used (cs_chunks s)" "unread s own = w"
    using assms(1) by (simp_all add: used_def kept_def reader_ok_def readable_def)
  show thesis
  proof (rule destroy_cursor [OF r(1)])
    fix s'
    assume "oc_destroy s cur = Some s'" "buf_inv s' [own]" "\<And>c. c \<in> set [own] \<Longrightarrow> unread s' c = unread s c"
      "gap_free (cs_chunks s) \<Longrightarrow> gap_free (cs_chunks s')" "all_used (cs_chunks s) \<Longrightarrow> all_used (cs_chunks s')"
    with r assms(2,3) show thesis
      by (intro that [of s']) (simp_all add: used_def reader_ok_def readable_def reader_contents_def)
  qed
qed

text \<open>When the copy goes, the room that was reserved stays, since the buffer's own cursor can reach it.\<close>

lemma destroy_room:
  assumes inv: "buf_inv s (cur # others)" and c: "c \<in> set others" and run: "oc_destroy s cur = Some s'" and ne: "cs_chunks s \<noteq> []"
  shows "ic_contiguous s' = ic_contiguous s"
proof -
  let ?s = "s\<lparr>cs_refcount := cs_refcount s - 1\<rparr>"
  have eq: "bodies ?s p = bodies s p" for p by (simp add: bodies_map)
  have live: "live (s\<lparr>cs_refcount := n\<rparr>) = live s" for n by (rule ext) (simp add: live_def)
  have links: "links_inv ?s (oc_prev cur # map oc_prev others)"
    using inv by (simp add: buf_inv_def chain_inv_def links_inv_def live)
  obtain cs where "bodies ?s (oc_prev cur) = Some cs"
    using cursor_facts [OF inv] unfolding eq by metis
  from unreference_chain [OF links this] have bodies: "bodies s' (oc_prev c) = bodies s (oc_prev c)"
    using run c by (auto simp: oc_destroy_def cs_unreference_from_def eq)
  have "cur_ok s c" using buf_inv_cur_ok [OF inv] c by simp
  then obtain cs where cs: "oc_chunks s c = Some cs" "cs \<noteq> []"
    using ne by (auto simp: cur_ok_def oc_chunks_def cs_after_def split: option.splits list.splits)
  have "map_option (map ck_body) (oc_chunks s' c) = Some (map ck_body cs)"
    using oc_chunks_bodies [of s' c] oc_chunks_bodies [of s c] bodies cs(1) by simp
  then obtain cs' where cs': "oc_chunks s' c = Some cs'" "map ck_body cs' = map ck_body cs" by auto
  then have ne': "cs' \<noteq> []" using cs(2) by auto
  have "ck_body (last cs') = ck_body (last cs)"
    using cs'(2) cs(2) ne' by (metis last_map)
  then have "ck_data (last cs') = ck_data (last cs)" "ck_size (last cs') = ck_size (last cs)" by (metis ck_body_simps)+
  with chunks_suffix [OF cs] chunks_suffix [OF cs'(1) ne'] show ?thesis
    by (simp add: ic_contiguous_def ck_available_def)
qed

section \<open>Streams cut anywhere\<close>

text \<open>\<open>p\<close> is what has arrived of the first of the messages \<open>cs\<close>, and not all of it.\<close>

definition cut_in :: "('m \<Rightarrow> bytes) \<Rightarrow> bytes \<Rightarrow> 'm list \<Rightarrow> bool" where
  "cut_in wire p cs \<longleftrightarrow> (if cs = [] then p = [] else \<exists>q. wire (hd cs) = p @ q \<and> q \<noteq> [])"

lemma cut_stream:
  "x @ y = concat (map wire cs) \<Longrightarrow>
   \<exists>cs1 cs2 p. cs = cs1 @ cs2 \<and> x = concat (map wire cs1) @ p \<and> p @ y = concat (map wire cs2) \<and> cut_in wire p cs2"
proof (induction cs arbitrary: x)
  case (Cons c cs)
  show ?case
  proof (cases "length x < length (wire c)")
    case True
    then obtain q where "wire c = x @ q" "q \<noteq> []"
      using append_split_short [of "wire c" "concat (map wire cs)" x y] Cons.prems by auto
    then have "c # cs = [] @ c # cs \<and> x = concat (map wire []) @ x \<and> x @ y = concat (map wire (c # cs)) \<and> cut_in wire x (c # cs)"
      using Cons.prems by (auto simp: cut_in_def)
    then show ?thesis by blast
  next
    case False
    then obtain x' where x': "x = wire c @ x'" "concat (map wire cs) = x' @ y"
      using append_split_long [of "wire c" "concat (map wire cs)" x y] Cons.prems by auto
    then obtain cs1 cs2 p where "cs = cs1 @ cs2 \<and> x' = concat (map wire cs1) @ p \<and> p @ y = concat (map wire cs2) \<and> cut_in wire p cs2"
      using Cons.IH [of x'] by auto
    then have "c # cs = (c # cs1) @ cs2 \<and> x = concat (map wire (c # cs1)) @ p \<and> p @ y = concat (map wire cs2) \<and> cut_in wire p cs2"
      using x'(1) by simp
    then show ?thesis by blast
  qed
qed (auto simp: cut_in_def)

end
