(* ===== verification/Streams.thy ===== *)
theory Streams
  imports UdpTranscoders
begin

text \<open>What a program relies on that reads a stream socket through a \<open>BoundChannel\<close>.\<close>

text \<open>
  What a stream socket does, by its documentation: as long as data is on its way, a read with room takes some of
  it, in order, and loses nothing.
\<close>

definition stream_documented :: "('n, 'e) bound_channel_scheme \<Rightarrow> ('n \<Rightarrow> bytes) \<Rightarrow> bool" where
  "stream_documented channel inflight \<longleftrightarrow> (\<forall>n s. inflight n \<noteq> [] \<longrightarrow> ic_contiguous s \<noteq> 0 \<longrightarrow>
     (\<exists>bs s' n'. bc_Read channel s n = Some (OK, s', n') \<and> ic_commit s bs = Some s' \<and> bs \<noteq> [] \<and> inflight n = bs @ inflight n'))"

end
