(* ===== verification/ControlCalls.thy ===== *)
theory ControlCalls
  imports DaemonControl CopiedCursors Streams
begin

text \<open>
  The calls of the control socket arrive, however the stream is cut into reads. The locale \<open>rpc_protocol\<close> is what the
  loop of the reader needs of a \<open>Dispatch\<close>; both classes that the generator made are interpretations of it.
\<close>

section \<open>What a protocol of calls is\<close>

context byte_source
begin

text \<open>On a part of the encoding the decoder fails with some positive number.\<close>

definition stalls :: "('s \<Rightarrow> ('a, 's) decoded) \<Rightarrow> bytes \<Rightarrow> bool" where
  "stalls dec w \<longleftrightarrow> (\<forall>s q. ok s \<longrightarrow> w = contents s @ q \<longrightarrow> q \<noteq> [] \<longrightarrow>
     (\<exists>n s'. dec s = Some (n, None, s') \<and> 0 < n \<and> ok s'))"

lemma stallsD: "stalls dec w \<Longrightarrow> ok s \<Longrightarrow> w = contents s @ q \<Longrightarrow> q \<noteq> [] \<Longrightarrow> \<exists>n s'. dec s = Some (n, None, s') \<and> 0 < n \<and> ok s'"
  by (auto simp: stalls_def)

lemma hints_stalls: "hints dec w \<Longrightarrow> stalls dec w"
  by (fastforce simp: hints_def stalls_def)

lemma stalls_elements:
  assumes "\<And>x. x \<in> set xs \<Longrightarrow> reads dec x (w x)" "\<And>x. x \<in> set xs \<Longrightarrow> stalls dec (w x)" "ok s"
    "concat (map w xs) = contents s @ q" "q \<noteq> []"
  shows "\<exists>n s'. decode_elements dec (length xs) data s = Some (n, None, s') \<and> 0 < n \<and> ok s'"
  using assms
proof (induction xs arbitrary: s data)
  case (Cons x xs)
  show ?case
  proof (cases "length (contents s) < length (w x)")
    case True
    then obtain q' where q': "w x = contents s @ q'" "q' \<noteq> []"
      using append_split_short [of "w x" "concat (map w xs)" "contents s" q] Cons.prems(4) by auto
    from stallsD [OF Cons.prems(2) Cons.prems(3) this] show ?thesis by auto
  next
    case False
    then obtain p where p: "contents s = w x @ p" "concat (map w xs) = p @ q"
      using append_split_long [of "w x" "concat (map w xs)" "contents s" q] Cons.prems(4) by auto
    from readsD [OF Cons.prems(1) Cons.prems(3) p(1)] obtain s1 where
      s1: "dec s = Some (0, Some x, s1)" "contents s1 = p" "ok s1" by auto
    from Cons.IH [OF Cons.prems(1,2) s1(3) _ Cons.prems(5), of "data @ [x]"] p(2) s1 show ?thesis by simp
  qed
qed simp

lemma stalls_vector:
  assumes "length xs \<le> uint16_max" "\<And>x. x \<in> set xs \<Longrightarrow> reads dec x (w x)" "\<And>x. x \<in> set xs \<Longrightarrow> stalls dec (w x)"
  shows "stalls (decode_vector consume dec) (be16 (of_nat (length xs)) @ concat (map w xs))"
  unfolding stalls_def
proof (intro allI impI)
  fix s and q :: bytes
  let ?n = "of_nat (length xs) :: u16"
  assume s: "ok s" "be16 ?n @ concat (map w xs) = contents s @ q" "q \<noteq> []"
  show "\<exists>n s'. decode_vector consume dec s = Some (n, None, s') \<and> 0 < n \<and> ok s'"
  proof (cases "length (contents s) < 2")
    case True
    then obtain q' where q': "be16 ?n = contents s @ q'" "q' \<noteq> []"
      using append_split_short [OF s(2)] by auto
    from hintsD [OF hints_numbers(2) s(1) q'] show ?thesis by (auto simp: decode_vector_def)
  next
    case False
    then obtain p where p: "contents s = be16 ?n @ p" "concat (map w xs) = p @ q"
      using append_split_long [OF s(2)] by auto
    with readsD [OF reads_numbers(2) s(1)] obtain s1 where
      s1: "decode_u16 consume s = Some (0, Some ?n, s1)" "contents s1 = p" "ok s1" by blast
    have "concat (map w xs) = contents s1 @ q" using p(2) s1(2) by simp
    from stalls_elements [OF assms(2,3) s1(3) this s(3), of "[]"] s1(1) unat_length_u16 [OF assms(1)]
    show ?thesis by (auto simp: decode_vector_def)
  qed
qed

end


text \<open>
  A protocol: \<open>disp\<close> handles the call that a buffer starts with and consumes its encoding, \<open>wire\<close>; on a part of one
  it changes nothing, and says so.
\<close>

locale rpc_protocol =
  fixes disp :: "('rpc \<Rightarrow> 's \<Rightarrow> 's option) \<Rightarrow> reader \<Rightarrow> 's \<Rightarrow> (int \<times> reader \<times> 's) option"
    and wire :: "'rpc \<Rightarrow> bytes"
    and fits :: "'rpc \<Rightarrow> bool"
  assumes whole_call: "fits c \<Longrightarrow> used others vs r \<Longrightarrow> reader_contents r = wire c @ rest \<Longrightarrow> handle c st = Some st' \<Longrightarrow>
      \<exists>r'. disp handle r st = Some (0, r', st') \<and> used others vs r' \<and> reader_contents r' = rest"
    and part_of_call: "fits c \<Longrightarrow> used others vs r \<Longrightarrow> wire c = reader_contents r @ q \<Longrightarrow> q \<noteq> [] \<Longrightarrow>
      \<exists>n r'. disp handle r st = Some (n, r', st) \<and> 0 < n \<and> used others vs r'"
    and wire_not_empty: "fits c \<Longrightarrow> wire c \<noteq> []"

text \<open>The calls are handled one after the other.\<close>

fun handle_calls :: "('rpc \<Rightarrow> 's \<Rightarrow> 's option) \<Rightarrow> 'rpc list \<Rightarrow> 's \<Rightarrow> 's option" where
  "handle_calls handle [] st = Some st"
| "handle_calls handle (c # cs) st = do { st \<leftarrow> handle c st; handle_calls handle cs st }"

section \<open>The loop of the reader\<close>

text \<open>A buffer that was read to its end, and has room.\<close>

definition awaiting :: "reader \<Rightarrow> bool" where
  "awaiting r \<longleftrightarrow> buf_inv (fst r) [snd r] \<and> gap_free (cs_chunks (fst r)) \<and> oc_limited (snd r) = None \<and> ic_contiguous (fst r) \<noteq> 0"

lemma ask_for_more:
  assumes u: "used [own] [tail] (s, cur)" and own: "oc_limited own = None" and n: "0 < n"
  obtains s' where "oc_destroy (ic_reserve s n) cur = Some s'" "awaiting (s', own)" "reader_contents (s', own) = tail"
proof -
  have r: "buf_inv s [cur, own]" "gap_free (cs_chunks s)" "all_used (cs_chunks s)" "unread s own = tail"
    using u by (simp_all add: used_def kept_def reader_ok_def readable_def)
  note reserve = reserve_grows [OF r(1), of n]
  let ?s = "ic_reserve s n"
  have gaps: "gap_free (cs_chunks ?s)" using reserve(3) [OF r(2)] r(3) by (auto simp: all_used_gap_free)
  have room: "n \<le> ic_contiguous ?s" by (rule reserve_room)
  then have ne: "cs_chunks ?s \<noteq> []" using n by (auto simp: ic_contiguous_def)
  have "cur_ok s own" using buf_inv_cur_ok [OF r(1)] by simp
  from grows_cursor(2) [OF reserve(2) this] have tail: "unread ?s own = tail" using r(4) by simp
  show thesis
  proof (rule destroy_cursor [OF reserve(1)])
    fix s'
    assume s': "oc_destroy ?s cur = Some s'" "buf_inv s' [own]" "\<And>c. c \<in> set [own] \<Longrightarrow> unread s' c = unread ?s c"
      "gap_free (cs_chunks ?s) \<Longrightarrow> gap_free (cs_chunks s')"
    have "ic_contiguous s' = ic_contiguous ?s" by (rule destroy_room [OF reserve(1) _ s'(1) ne, of own]) simp
    then have "awaiting (s', own)" using s' gaps own room n by (simp add: awaiting_def)
    moreover have "reader_contents (s', own) = tail" using s'(3) tail by (simp add: reader_contents_def)
    ultimately show thesis using s'(1) by (intro that)
  qed
qed

context rpc_protocol
begin

lemma loop_handles_calls:
  assumes "list_all fits cs" "used [] [] r" "reader_contents r = concat (map wire cs) @ tail" "fits c" "wire c = tail @ q" "q \<noteq> []"
    "handle_calls handle cs st = Some st'"
  shows "\<exists>r'. ipc_parse_loop (disp handle) r st = Some (r', st') \<and> awaiting r' \<and> reader_contents r' = tail"
  using assms(1-3,7)
proof (induction cs arbitrary: r st)
  case Nil
  obtain s own where r: "r = (s, own)" by fastforce
  have own: "oc_limited own = None" using Nil.prems(2) by (simp add: r used_def reader_ok_def)
  obtain s1 where s1: "oc_copy s own = Some (s1, own)" "used [own] [tail] (s1, own)" "reader_contents (s1, own) = tail"
    by (rule copy_used [OF Nil.prems(2) [unfolded r]]) (use Nil.prems(3) in \<open>simp add: r\<close>)
  from part_of_call [OF assms(4) s1(2), of q handle st] assms(5,6) s1(3) obtain n p where
    p: "disp handle (s1, own) st = Some (n, p, st)" "0 < n" "used [own] [tail] p" by auto
  have "used [own] [tail] (fst p, snd p)" "0 < nat n" using p(2,3) by simp_all
  from ask_for_more [OF this(1) own this(2)] obtain s' where
    "oc_destroy (ic_reserve (fst p) (nat n)) (snd p) = Some s'" "awaiting (s', own)" "reader_contents (s', own) = tail" .
  then show ?case using s1(1) p(1,2) Nil.prems(4) by (subst ipc_parse_loop.simps) (simp add: r)
next
  case (Cons c' cs)
  obtain s own where r: "r = (s, own)" by fastforce
  let ?rest = "concat (map wire cs) @ tail"
  have own: "oc_limited own = None" "length (wire c' @ ?rest) < 2 ^ 32"
    using Cons.prems(2,3) by (simp_all add: r used_def reader_ok_def readable_def reader_contents_def)
  obtain st1 where st1: "handle c' st = Some st1" "handle_calls handle cs st1 = Some st'"
    using Cons.prems(4) by (auto split: bind_splits)
  have c': "fits c'" "list_all fits cs" using Cons.prems(1) by simp_all
  obtain s1 where s1: "oc_copy s own = Some (s1, own)" "used [own] [wire c' @ ?rest] (s1, own)" "reader_contents (s1, own) = wire c' @ ?rest"
    by (rule copy_used [OF Cons.prems(2) [unfolded r]]) (use Cons.prems(3) in \<open>simp add: r\<close>)
  from whole_call [where handle = handle and st = st, OF c'(1) s1(2,3) st1(1)] obtain p where
    p: "disp handle (s1, own) st = Some (0, p, st1)" "used [own] [wire c' @ ?rest] p" "reader_contents p = ?rest" by blast
  obtain left s2 own2 s3 where f: "oc_left (fst p) own = Some left" "oc_left (fst p) (snd p) = Some (length ?rest)"
    "oc_increment (fst p) own (left - length ?rest) = Some (s2, own2)" "oc_destroy s2 (snd p) = Some s3"
    "used [] [] (s3, own2)" "reader_contents (s3, own2) = ?rest"
    by (rule follow_copy [of own "wire c'" ?rest "fst p" "snd p"]) (use p(2,3) own in simp_all)
  from Cons.IH [OF c'(2) f(5,6) st1(2)] s1(1) p(1) f(1-4) show ?case
    by (subst ipc_parse_loop.simps) (simp add: r)
qed

end


section \<open>The calls are protocols\<close>

definition strings_wire :: "bytes list \<Rightarrow> bytes" where
  "strings_wire xs = be16 (of_nat (length xs)) @ concat (map string_wire xs)"

definition strings_fit :: "bytes list \<Rightarrow> bool" where
  "strings_fit xs \<longleftrightarrow> length xs \<le> uint16_max \<and> list_all (\<lambda>x. length x \<le> uint16_max) xs"

lemma get_strings:
  assumes "strings_fit xs"
  shows "used_source.reads others vs get_strings xs (strings_wire xs)" "used_source.stalls others vs get_strings (strings_wire xs)"
proof -
  have fit: "length xs \<le> uint16_max" "\<And>x. x \<in> set xs \<Longrightarrow> length x \<le> uint16_max"
    using assms by (simp_all add: strings_fit_def list_all_iff)
  show "used_source.reads others vs get_strings xs (strings_wire xs)"
    unfolding strings_wire_def by (intro used_source.reads_vector used_source.reads_string fit)
  show "used_source.stalls others vs get_strings (strings_wire xs)"
    unfolding strings_wire_def
    by (intro used_source.stalls_vector used_source.reads_string used_source.hints_stalls used_source.hints_string fit)
qed

lemma get_string:
  assumes "length x \<le> uint16_max"
  shows "used_source.reads others vs get_string x (string_wire x)" "used_source.stalls others vs get_string (string_wire x)"
  by (rule used_source.reads_string [OF assms], rule used_source.hints_stalls [OF used_source.hints_string [OF assms]])

lemma parse_argument_whole:
  assumes "used_source.reads others vs decode x w" "used others vs r" "reader_contents r = w @ rest" "process x st = Some st'"
  shows "\<exists>r'. parse_argument decode process r st = Some (0, r', st') \<and> used others vs r' \<and> reader_contents r' = rest"
  using used_source.readsD [OF assms(1-3)] assms(4) by (auto simp: parse_argument_def)

lemma parse_argument_part:
  assumes "used_source.stalls others vs decode w" "used others vs r" "w = reader_contents r @ q" "q \<noteq> []"
  shows "\<exists>n r'. parse_argument decode process r st = Some (n, r', st) \<and> 0 < n \<and> used others vs r'"
  using used_source.stallsD [OF assms] by (auto simp: parse_argument_def)

text \<open>The number that a call starts with.\<close>

lemma read_number:
  assumes "used others vs r" "reader_contents r = be16 num @ rest"
  obtains r' where "decode_s16 reader_consume r = Some (0, Some num, r')" "used others vs r'" "reader_contents r' = rest"
  using used_source.readsD [OF used_source.reads_numbers(2) assms] by (auto simp: decode_s16_def)

lemma part_of_number:
  assumes "used others vs r" "be16 num @ w = reader_contents r @ q" "q \<noteq> []"
  obtains (number) n r' where "decode_s16 reader_consume r = Some (n, None, r')" "0 < n" "used others vs r'"
    | (argument) r' where "decode_s16 reader_consume r = Some (0, Some num, r')" "used others vs r'" "w = reader_contents r' @ q"
proof (cases "length (reader_contents r) < 2")
  case True
  then obtain q' where q': "be16 num = reader_contents r @ q'" "q' \<noteq> []"
    using append_split_short [OF assms(2)] by auto
  from used_source.hintsD [OF used_source.hints_numbers(2) assms(1) q'] show thesis
    using number by (auto simp: decode_s16_def)
next
  case False
  then obtain p where "reader_contents r = be16 num @ p" "w = p @ q"
    using append_split_long [OF assms(2)] by auto
  with read_number [OF assms(1)] argument show thesis by metis
qed

fun client_wire :: "client_rpc \<Rightarrow> bytes" where
  "client_wire (ServerShowClientsReply xs) = be16 (- 2) @ strings_wire xs"
| "client_wire (RequestServerStatusReply xs) = be16 (- 3) @ strings_wire xs"
| "client_wire (GetParameterFromUserRequest xs) = be16 16384 @ strings_wire xs"

fun client_fits :: "client_rpc \<Rightarrow> bool" where
  "client_fits (ServerShowClientsReply xs) = strings_fit xs"
| "client_fits (RequestServerStatusReply xs) = strings_fit xs"
| "client_fits (GetParameterFromUserRequest xs) = strings_fit xs"

fun server_wire :: "server_rpc \<Rightarrow> bytes" where
  "server_wire (ClientConnectRequest x) = be16 1 @ string_wire x"
| "server_wire ServerShowClientsRequest = be16 2"
| "server_wire (RequestServerStatusRequest xs) = be16 3 @ strings_wire xs"
| "server_wire (GetParameterFromUserReply xs) = be16 (- 16384) @ strings_wire xs"

fun server_fits :: "server_rpc \<Rightarrow> bool" where
  "server_fits (ClientConnectRequest x) = (length x \<le> uint16_max)"
| "server_fits ServerShowClientsRequest = True"
| "server_fits (RequestServerStatusRequest xs) = strings_fit xs"
| "server_fits (GetParameterFromUserReply xs) = strings_fit xs"

interpretation client_calls: rpc_protocol client_Dispatch client_wire client_fits
proof
  fix c :: client_rpc and others vs r rest handle and st st' :: 's
  assume c: "client_fits c" "used others vs r" "reader_contents r = client_wire c @ rest" "handle c st = Some st'"
  obtain num xs process where shape: "client_wire c = be16 num @ strings_wire xs" "strings_fit xs" "process xs st = Some st'"
    "\<And>r r'. decode_s16 reader_consume r = Some (0, Some num, r') \<Longrightarrow> client_Dispatch handle r st = parse_argument get_strings process r' st"
    using c(1,4) by (cases c) (auto simp: client_Dispatch_def intro: that)
  obtain r1 where r1: "decode_s16 reader_consume r = Some (0, Some num, r1)" "used others vs r1" "reader_contents r1 = strings_wire xs @ rest"
    by (rule read_number [OF c(2)]) (use c(3) shape(1) in auto)
  from parse_argument_whole [where process = process and st = st, OF get_strings(1) [OF shape(2)] r1(2,3) shape(3)] shape(4) [OF r1(1)]
  show "\<exists>r'. client_Dispatch handle r st = Some (0, r', st') \<and> used others vs r' \<and> reader_contents r' = rest" by simp
next
  fix c :: client_rpc and others vs r q handle and st :: 's
  assume c: "client_fits c" "used others vs r" "client_wire c = reader_contents r @ q" "q \<noteq> []"
  obtain num xs process where shape: "client_wire c = be16 num @ strings_wire xs" "strings_fit xs"
    "\<And>r r'. decode_s16 reader_consume r = Some (0, Some num, r') \<Longrightarrow> client_Dispatch handle r st = parse_argument get_strings process r' st"
    using c(1) by (cases c) (auto simp: client_Dispatch_def intro: that)
  show "\<exists>n r'. client_Dispatch handle r st = Some (n, r', st) \<and> 0 < n \<and> used others vs r'"
  proof (rule part_of_number [OF c(2) _ c(4), of num "strings_wire xs"])
    fix r1 assume r1: "decode_s16 reader_consume r = Some (0, Some num, r1)" "used others vs r1" "strings_wire xs = reader_contents r1 @ q"
    from parse_argument_part [where process = process and st = st, OF get_strings(2) [OF shape(2)] r1(2,3) c(4)] shape(3) [OF r1(1)] show ?thesis by simp
  qed (use c(3) shape(1) in \<open>auto simp: client_Dispatch_def\<close>)
next
  show "client_wire c \<noteq> []" for c by (cases c) (simp_all add: be16_def)
qed


text \<open>One of the server's calls has no argument, and one a single string.\<close>

interpretation server_calls: rpc_protocol server_Dispatch server_wire server_fits
proof
  fix c :: server_rpc and others vs r rest handle and st st' :: 's
  assume c: "server_fits c" "used others vs r" "reader_contents r = server_wire c @ rest" "handle c st = Some st'"
  show "\<exists>r'. server_Dispatch handle r st = Some (0, r', st') \<and> used others vs r' \<and> reader_contents r' = rest"
  proof (cases "c = ServerShowClientsRequest")
    case True
    with c(3) have "reader_contents r = be16 2 @ rest" by simp
    with True c(4) show ?thesis by (elim read_number [OF c(2)]) (simp add: server_Dispatch_def)
  next
    case False
    obtain num w where shape: "server_wire c = be16 num @ w" and run: "\<And>r1. decode_s16 reader_consume r = Some (0, Some num, r1) \<Longrightarrow>
        used others vs r1 \<Longrightarrow> reader_contents r1 = w @ rest \<Longrightarrow>
        \<exists>r'. server_Dispatch handle r st = Some (0, r', st') \<and> used others vs r' \<and> reader_contents r' = rest"
    proof (cases c)
      case (ClientConnectRequest x)
      show thesis
        by (rule that [of 1 "string_wire x"])
          (use c(1,4) ClientConnectRequest parse_argument_whole [OF get_string(1)] in \<open>auto simp: server_Dispatch_def\<close>)
    next
      case (RequestServerStatusRequest xs)
      show thesis
        by (rule that [of 3 "strings_wire xs"])
          (use c(1,4) RequestServerStatusRequest parse_argument_whole [OF get_strings(1)] in \<open>auto simp: server_Dispatch_def\<close>)
    next
      case (GetParameterFromUserReply xs)
      show thesis
        by (rule that [of "- 16384" "strings_wire xs"])
          (use c(1,4) GetParameterFromUserReply parse_argument_whole [OF get_strings(1)] in \<open>auto simp: server_Dispatch_def\<close>)
    qed (use False in simp)
    show ?thesis by (rule read_number [OF c(2), of num "w @ rest"]) (use c(3) shape run in simp_all)
  qed
next
  fix c :: server_rpc and others vs r q handle and st :: 's
  assume c: "server_fits c" "used others vs r" "server_wire c = reader_contents r @ q" "q \<noteq> []"
  obtain num w where shape: "server_wire c = be16 num @ w" and run: "\<And>r1. decode_s16 reader_consume r = Some (0, Some num, r1) \<Longrightarrow>
      used others vs r1 \<Longrightarrow> w = reader_contents r1 @ q \<Longrightarrow>
      \<exists>n r'. server_Dispatch handle r st = Some (n, r', st) \<and> 0 < n \<and> used others vs r'"
  proof (cases c)
    case (ClientConnectRequest x)
    show thesis
      by (rule that [of 1 "string_wire x"])
        (use c(1,4) ClientConnectRequest parse_argument_part [OF get_string(2)] in \<open>auto simp: server_Dispatch_def\<close>)
  next
    case ServerShowClientsRequest
    show thesis by (rule that [of 2 "[]"]) (use c(4) ServerShowClientsRequest in simp_all)
  next
    case (RequestServerStatusRequest xs)
    show thesis
      by (rule that [of 3 "strings_wire xs"])
        (use c(1,4) RequestServerStatusRequest parse_argument_part [OF get_strings(2)] in \<open>auto simp: server_Dispatch_def\<close>)
  next
    case (GetParameterFromUserReply xs)
    show thesis
      by (rule that [of "- 16384" "strings_wire xs"])
        (use c(1,4) GetParameterFromUserReply parse_argument_part [OF get_strings(2)] in \<open>auto simp: server_Dispatch_def\<close>)
  qed
  show "\<exists>n r'. server_Dispatch handle r st = Some (n, r', st) \<and> 0 < n \<and> used others vs r'"
  proof (rule part_of_number [OF c(2) _ c(4), of num w])
    fix r1 assume "decode_s16 reader_consume r = Some (0, Some num, r1)" "used others vs r1" "w = reader_contents r1 @ q"
    then show ?thesis by (rule run)
  qed (use c(3) shape in \<open>auto simp: server_Dispatch_def\<close>)
next
  show "server_wire c \<noteq> []" for c by (cases c) (simp_all add: be16_def)
qed


section \<open>A stream of calls\<close>

lemma room_filled:
  assumes a: "awaiting (s, cur)" and run: "ic_commit s bs = Some s'" "bs \<noteq> []"
    and short: "length (reader_contents (s, cur) @ bs) < 2 ^ 32"
  shows "used [] [] (s', cur)" "reader_contents (s', cur) = reader_contents (s, cur) @ bs"
proof -
  have inv: "buf_inv s [cur]" "gap_free (cs_chunks s)" "oc_limited cur = None" "cs_chunks s \<noteq> []"
    using a by (auto simp: awaiting_def ic_contiguous_def)
  have room: "length bs \<le> ic_contiguous s" using run by (auto simp: ic_commit_def split: bind_splits)
  have chain: "chain_inv s (map oc_prev [cur])" using inv(1) by (simp add: buf_inv_def)
  obtain s2 where c: "ic_commit s bs = Some s2" "chain_inv s2 (map oc_prev [cur])" "grows s bs s2"
    "gap_free (cs_chunks s2) = gap_free (cs_chunks s)" "cs_chunks s2 \<noteq> []"
    "ck_data (last (cs_chunks s2)) = ck_data (last (cs_chunks s)) @ bs"
    by (rule commit_grows [OF chain room inv(4)])
  then have s2: "s2 = s'" using run(1) by simp
  show contents: "reader_contents (s', cur) = reader_contents (s, cur) @ bs"
    using grows_cursor(2) [OF c(3) [unfolded s2]] inv(1) by (simp add: reader_contents_def buf_inv_def)
  show "used [] [] (s', cur)"
    using buf_inv_grows [OF inv(1) c(2,3)] c(4-6) inv(2,3) run(2) short contents
    by (simp add: used_def reader_ok_def readable_def reader_contents_def all_used_gap_free s2)
qed

primrec ipc_reads :: "nat \<Rightarrow> 's dispatch \<Rightarrow> 'n ipc_client \<Rightarrow> 's \<Rightarrow> 'n \<Rightarrow> ('n ipc_client \<times> 's \<times> 'n) option" where
  "ipc_reads 0 disp i st n = Some (i, st, n)"
| "ipc_reads (Suc k) disp i st n = do { (_, i, st, n) \<leftarrow> ipc_HandleRead disp i st n; ipc_reads k disp i st n }"

lemma handle_calls_append: "handle_calls handle (cs @ ds) st = do { st \<leftarrow> handle_calls handle cs st; handle_calls handle ds st }"
  by (induction cs arbitrary: st) (auto split: bind_splits)

context rpc_protocol
begin

lemma one_read:
  assumes doc: "stream_documented channel inflight" and i: "ipc_channel i = Some channel" "awaiting (ipc_read_buffer i)"
    and stream: "reader_contents (ipc_read_buffer i) @ inflight n = concat (map wire cs)" "list_all fits cs"
      "length (concat (map wire cs)) < 2 ^ 32" "inflight n \<noteq> []" "handle_calls handle cs st = Some st'"
  obtains i' st1 n' cs' where "ipc_HandleRead (disp handle) i st n = Some (MORE, i', st1, n')" "ipc_channel i' = Some channel"
    "awaiting (ipc_read_buffer i')" "reader_contents (ipc_read_buffer i') @ inflight n' = concat (map wire cs')" "list_all fits cs'"
    "length (concat (map wire cs')) \<le> length (concat (map wire cs))" "cut_in wire (reader_contents (ipc_read_buffer i')) cs'"
    "length (inflight n') < length (inflight n)" "handle_calls handle cs' st1 = Some st'"
proof -
  obtain s cur where r: "ipc_read_buffer i = (s, cur)" by fastforce
  have "ic_contiguous s \<noteq> 0" using i(2) by (simp add: r awaiting_def)
  with doc stream(4) obtain bs s' n' where
    rd: "bc_Read channel s n = Some (OK, s', n')" "ic_commit s bs = Some s'" "bs \<noteq> []" "inflight n = bs @ inflight n'"
    unfolding stream_documented_def by blast
  let ?x = "reader_contents (s, cur) @ bs"
  have x: "?x @ inflight n' = concat (map wire cs)" using stream(1) rd(4) by (simp add: r)
  then have "length (concat (map wire cs)) = length ?x + length (inflight n')" by (metis length_append)
  then have short: "length ?x < 2 ^ 32" using stream(3) by linarith
  note filled = room_filled [OF i(2) [unfolded r] rd(2,3) short]
  obtain cs1 cs2 p where cut: "cs = cs1 @ cs2" "?x = concat (map wire cs1) @ p" "p @ inflight n' = concat (map wire cs2)" "cut_in wire p cs2"
    using cut_stream [OF x] by blast
  have fits: "list_all fits cs1" "list_all fits cs2" using stream(2) by (simp_all add: cut(1))
  have "\<exists>c q. fits c \<and> wire c = p @ q \<and> q \<noteq> []"
  proof (cases cs2)
    case Nil
    then have "cs1 \<noteq> []" "p = []" using stream(1,4) cut(1,4) by (auto simp: cut_in_def)
    with fits(1) wire_not_empty show ?thesis by (cases cs1) auto
  next
    case (Cons c cs3)
    then show ?thesis using cut(4) fits(2) by (auto simp: cut_in_def)
  qed
  then obtain c q where c: "fits c" "wire c = p @ q" "q \<noteq> []" by blast
  obtain st1 where st1: "handle_calls handle cs1 st = Some st1" "handle_calls handle cs2 st1 = Some st'"
    using stream(5) by (auto simp: cut(1) handle_calls_append split: bind_splits)
  from loop_handles_calls [OF fits(1) filled(1) _ c st1(1)] filled(2) cut(2) obtain r' where
    r': "ipc_parse_loop (disp handle) (s', cur) st = Some (r', st1)" "awaiting r'" "reader_contents r' = p" by auto
  show thesis
    by (rule that [of "i\<lparr>ipc_read_buffer := r'\<rparr>" st1 n' cs2])
      (use i(1) rd r' cut fits(2) st1(2) in \<open>simp_all add: ipc_HandleRead_def r\<close>)
qed

lemma stream_handled:
  assumes "stream_documented channel inflight" "ipc_channel i = Some channel" "awaiting (ipc_read_buffer i)"
    "reader_contents (ipc_read_buffer i) @ inflight n = concat (map wire cs)" "list_all fits cs"
    "length (concat (map wire cs)) < 2 ^ 32" "cut_in wire (reader_contents (ipc_read_buffer i)) cs" "handle_calls handle cs st = Some st'"
  shows "\<exists>k i' n'. k \<le> length (inflight n) \<and> ipc_reads k (disp handle) i st n = Some (i', st', n') \<and> inflight n' = [] \<and>
    reader_contents (ipc_read_buffer i') = []"
  using assms(2-8)
proof (induction "length (inflight n)" arbitrary: i st n cs rule: less_induct)
  case less
  show ?case
  proof (cases "inflight n = []")
    case True
    have "cs = []"
    proof (rule ccontr)
      assume ne: "cs \<noteq> []"
      then obtain q where q: "wire (hd cs) = reader_contents (ipc_read_buffer i) @ q" "q \<noteq> []"
        using less.prems(6) by (auto simp: cut_in_def)
      have "length (reader_contents (ipc_read_buffer i)) = length (concat (map wire cs))"
        using less.prems(3) True by simp
      with q ne show False by (cases cs) auto
    qed
    with less.prems True have "ipc_reads 0 (disp handle) i st n = Some (i, st', n)" "reader_contents (ipc_read_buffer i) = []" by simp_all
    with True show ?thesis by blast
  next
    case False
    obtain i' st1 n' cs' where s: "ipc_HandleRead (disp handle) i st n = Some (MORE, i', st1, n')" "ipc_channel i' = Some channel"
      "awaiting (ipc_read_buffer i')" "reader_contents (ipc_read_buffer i') @ inflight n' = concat (map wire cs')" "list_all fits cs'"
      "length (concat (map wire cs')) \<le> length (concat (map wire cs))" "cut_in wire (reader_contents (ipc_read_buffer i')) cs'"
      "length (inflight n') < length (inflight n)" "handle_calls handle cs' st1 = Some st'"
      by (rule one_read [OF assms(1) less.prems(1-5) False less.prems(7)])
    have "length (concat (map wire cs')) < 2 ^ 32" using s(6) less.prems(5) by linarith
    from less.hyps [OF s(8,2-5) this s(7,9)] obtain k i2 n2 where
      "k \<le> length (inflight n')" "ipc_reads k (disp handle) i' st1 n' = Some (i2, st', n2)" "inflight n2 = []"
      "reader_contents (ipc_read_buffer i2) = []" by blast
    with s(1,8) show ?thesis by (intro exI [of _ "Suc k"]) auto
  qed
qed

end


section \<open>Sending\<close>

lemma put_strings_writes:
  assumes "strings_fit xs" "tidy others w"
  shows "\<exists>w'. put_strings num xs w = Some w' \<and> reader_contents w' = reader_contents w @ be16 num @ strings_wire xs \<and> tidy others w'"
proof -
  have fit: "length xs \<le> uint16_max" "\<And>x. x \<in> set xs \<Longrightarrow> length x \<le> uint16_max"
    using assms(1) by (simp_all add: strings_fit_def list_all_iff)
  obtain w1 where w1: "encode_u16 reader_add num w = Some (True, w1)" "reader_contents w1 = reader_contents w @ be16 num" "tidy others w1"
    using cursor_sink.writes_numbers(2) assms(2) unfolding cursor_sink.writes_def by blast
  obtain w2 where "encode_vector reader_add (encode_string reader_add) xs w1 = Some (True, w2)"
    "reader_contents w2 = reader_contents w1 @ strings_wire xs" "tidy others w2"
    using cursor_sink.writes_vector [OF fit(1) cursor_sink.writes_string [OF fit(2)]] w1(3)
    unfolding cursor_sink.writes_def strings_wire_def by blast
  with w1 show ?thesis by (simp add: put_strings_def put_number_def encode_s16_def)
qed

text \<open>The server's side of a call to the client.\<close>

fun send_call :: "('n \<Rightarrow> 'n option) \<Rightarrow> client_rpc \<Rightarrow> ipc_server \<Rightarrow> 'n \<Rightarrow> (ipc_server \<times> 'n) option" where
  "send_call send (ServerShowClientsReply xs) = SendReplyForServerShowClients send xs"
| "send_call send (RequestServerStatusReply xs) = SendReplyForRequestServerStatus send xs"
| "send_call send (GetParameterFromUserRequest xs) = SendRequestGetParameterFromUser send xs"

fun send_calls :: "('n \<Rightarrow> 'n option) \<Rightarrow> client_rpc list \<Rightarrow> ipc_server \<Rightarrow> 'n \<Rightarrow> (ipc_server \<times> 'n) option" where
  "send_calls send [] i n = Some (i, n)"
| "send_calls send (c # cs) i n = do { (i, n) \<leftarrow> send_call send c i n; send_calls send cs i n }"

lemma send_call_writes:
  assumes "client_fits c" "tidy [] (ips_write_buffer i)" "send_call send c i n = Some (i', n')"
  shows "reader_contents (ips_write_buffer i') = reader_contents (ips_write_buffer i) @ client_wire c \<and> tidy [] (ips_write_buffer i')"
proof -
  obtain num xs where c: "client_wire c = be16 num @ strings_wire xs" "strings_fit xs" "send_call send c = server_sends send (put_strings num xs)"
    using assms(1)
    by (cases c) (auto simp: SendReplyForServerShowClients_def SendReplyForRequestServerStatus_def SendRequestGetParameterFromUser_def intro: that)
  from put_strings_writes [OF c(2) assms(2), of num] assms(3) show ?thesis
    by (auto simp: c(1,3) server_sends_def split: bind_splits)
qed

lemma send_calls_write:
  assumes "list_all client_fits cs" "tidy [] (ips_write_buffer i)" "send_calls send cs i n = Some (i', n')"
  shows "reader_contents (ips_write_buffer i') = reader_contents (ips_write_buffer i) @ concat (map client_wire cs)"
  using assms
proof (induction cs arbitrary: i n)
  case (Cons c cs)
  obtain i1 n1 where i1: "send_call send c i n = Some (i1, n1)" "send_calls send cs i1 n1 = Some (i', n')"
    using Cons.prems(3) by (auto split: bind_splits)
  have "client_fits c" "list_all client_fits cs" using Cons.prems(1) by simp_all
  from send_call_writes [OF this(1) Cons.prems(2) i1(1)] Cons.IH [OF this(2) _ i1(2)] show ?case by simp
qed simp

lemma send_calls_run:
  assumes "list_all client_fits cs" "tidy [] (ips_write_buffer i)"
  obtains i' where "send_calls Some cs i n = Some (i', n)"
proof -
  have "\<exists>i'. send_calls Some cs i n = Some (i', n)" using assms
  proof (induction cs arbitrary: i)
    case (Cons c cs)
    obtain num xs where c: "strings_fit xs" "send_call Some c i n = server_sends Some (put_strings num xs) i n"
      using Cons.prems(1)
      by (cases c) (auto simp: SendReplyForServerShowClients_def SendReplyForRequestServerStatus_def SendRequestGetParameterFromUser_def intro: that)
    from put_strings_writes [OF c(1) Cons.prems(2), of num] obtain w where
      "put_strings num xs (ips_write_buffer i) = Some w" by blast
    then have i1: "send_call Some c i n = Some (i\<lparr>ips_write_buffer := w\<rparr>, n)" by (simp add: c(2) server_sends_def)
    let ?i1 = "i\<lparr>ips_write_buffer := w\<rparr>"
    have "tidy [] (ips_write_buffer ?i1)" using send_call_writes [OF _ Cons.prems(2) i1] Cons.prems(1) by simp
    with Cons.IH [OF _ this] Cons.prems(1) i1 show ?case by simp
  qed simp
  with that show thesis by blast
qed

lemma new_client_awaits:
  assumes "ipc_client_new = Some i" "ipc_SetChannel channel i n = Some (i', n')"
  shows "ipc_channel i' = Some channel" "awaiting (ipc_read_buffer i')" "reader_contents (ipc_read_buffer i') = []"
proof -
  have i': "ipc_channel i' = Some channel" "ipc_read_buffer i' = (ic_reserve (fst empty_reader) 8192, snd empty_reader)"
    using assms by (auto simp: ipc_client_new_def ipc_SetChannel_def new_buffer_run split: bind_splits)
  then show "ipc_channel i' = Some channel" by simp
  obtain s cur where r: "empty_reader = (s, cur)" by fastforce
  have e: "buf_inv s [cur]" "gap_free (cs_chunks s)" "cs_chunks s = [] \<or> ck_data (last (cs_chunks s)) \<noteq> []" "oc_limited cur = None"
    "unread s cur = []"
    using empty_reader_ok by (simp_all add: r tidy_def reader_contents_def)
  note reserve = reserve_grows [OF e(1), of 8192]
  have "ic_contiguous (ic_reserve s 8192) \<noteq> 0" using reserve_room [of 8192 s] by linarith
  then show "awaiting (ipc_read_buffer i')" using reserve(1) reserve(3) [OF e(2)] e(3,4) by (simp add: i'(2) r awaiting_def)
  have "cur_ok s cur" using e(1) by (simp add: buf_inv_def)
  from grows_cursor(2) [OF reserve(2) this] show "reader_contents (ipc_read_buffer i') = []"
    by (simp add: i'(2) r reader_contents_def e(5))
qed

section \<open>Properties\<close>


text \<open>A socket that gives at most three bytes at a time.\<close>

definition slow_channel :: "bytes bound_channel" where
  "slow_channel = \<lparr>bc_Read = \<lambda>s n. do {
       let bs = take (min 3 (ic_contiguous s)) n;
       s \<leftarrow> ic_commit s bs;
       Some (OK, s, drop (length bs) n)
     }, bc_Write = \<lambda>r n. Some (OK, r, n), bc_WantRead = Some, bc_WantWrite = Some\<rparr>"

lemma slow_channel_documented: "stream_documented slow_channel (\<lambda>n. n)"
  unfolding stream_documented_def
proof (intro allI impI)
  fix n :: bytes and s
  assume n: "n \<noteq> []" "ic_contiguous s \<noteq> 0"
  define bs where "bs = take (min 3 (ic_contiguous s)) n"
  have bs: "bs \<noteq> []" "length bs \<le> ic_contiguous s" "bs @ drop (length bs) n = n"
    using n by (auto simp: bs_def min_def)
  then obtain s' where "ic_commit s bs = Some s'" by (simp add: ic_commit_def)
  then have "bc_Read slow_channel s n = Some (OK, s', drop (length bs) n)" by (simp add: slow_channel_def Let_def bs_def)
  with bs \<open>ic_commit s bs = Some s'\<close> show "\<exists>bs s' n'. bc_Read slow_channel s n = Some (OK, s', n') \<and> ic_commit s bs = Some s' \<and> bs \<noteq> [] \<and> n = bs @ n'"
    by (intro exI [of _ bs] exI [of _ s'] exI [of _ "drop (length bs) n"]) simp
qed


definition sample_calls :: "client_rpc list" where
  "sample_calls = [ServerShowClientsReply [str ''bob'', []], GetParameterFromUserRequest []]"

lemma sample_calls_fit: "list_all client_fits sample_calls" "length (concat (map client_wire sample_calls)) < 2 ^ 32"
  by (simp_all add: sample_calls_def strings_fit_def uint16_max_def strings_wire_def be16_def)


end
