(* ===== verification/NetworkCommands.thy ===== *)
theory NetworkCommands
  imports NetlinkReplies
begin

text \<open>
  \<open>src/src/uvpn-ip-config.cc\<close>: the program that shows and changes routes and interfaces. \<open>LOG_FATAL\<close> ends the program,
  which is \<open>None\<close>. \<open>pton4\<close> and \<open>pton6\<close> are \<open>inet_pton\<close>, \<open>ntop\<close> prints an address; what is printed to the
  standard output is returned.
\<close>

section \<open>Printing\<close>

text \<open>\<open>%-ns\<close>.\<close>

definition pad_right :: "nat \<Rightarrow> bytes \<Rightarrow> bytes" where
  "pad_right n s = s @ replicate (n - length s) 32"

definition route_heading :: bytes where
  "route_heading = str ''network            gateway         source          int metric'' @ [10]"

definition route_line :: "(ip_address \<Rightarrow> bytes) \<Rightarrow> routing_entry \<Rightarrow> bytes" where
  "route_line ntop e =
     pad_right 19 (IPRange_AsString ntop (re_destination e)) @
     pad_right 16 (case re_gateway e of Some a \<Rightarrow> ntop a | None \<Rightarrow> str ''connected'') @
     pad_right 16 (case re_source e of Some a \<Rightarrow> ntop a | None \<Rightarrow> str ''0.0.0.0'') @
     pad_right 4 (decimal (sint (re_interface e))) @ decimal (re_metric e) @ [10]"

section \<open>The arguments\<close>

type_synonym pton = "bytes \<Rightarrow> ip_address option"

definition parse_network :: "pton \<Rightarrow> pton \<Rightarrow> bytes \<Rightarrow> (ip_address \<times> u16) option" where
  "parse_network pton4 pton6 text = do {
     (ok, network) \<leftarrow> IPRange_Parse pton4 pton6 text IPRange_new;
     fatal_unless ok;
     address \<leftarrow> rg_address network;
     Some (address, rg_cidr network)
   }"

definition parse_gateway :: "pton \<Rightarrow> pton \<Rightarrow> bytes list \<Rightarrow> ip_address option option" where
  "parse_gateway pton4 pton6 args =
     (case args of
        [] \<Rightarrow> Some None
      | text # _ \<Rightarrow> do { gateway \<leftarrow> ip_Parse pton4 pton6 text; Some (Some gateway) })"

text \<open>\<open>argv[1]\<close>, \<open>argv[2]\<close> and \<open>argv[3]\<close> of \<open>add\<close> and \<open>del\<close>.\<close>

definition route_arguments ::
    "pton \<Rightarrow> pton \<Rightarrow> bytes list \<Rightarrow> netlink \<Rightarrow> (ip_address \<times> u16 \<times> ip_address option \<times> u32) option" where
  "route_arguments pton4 pton6 args nl =
     (case args of
        device # text # rest \<Rightarrow> do {
          interface \<leftarrow> GetInterface device nl;
          (address, cidr) \<leftarrow> parse_network pton4 pton6 text;
          gateway \<leftarrow> parse_gateway pton4 pton6 rest;
          Some (address, cidr, gateway, if_index interface)
        }
      | _ \<Rightarrow> None)"

section \<open>The commands\<close>

text \<open>What \<open>GetRoutes\<close>, \<open>AddRoute\<close> and \<open>DelRoute\<close> return is not looked at.\<close>

definition HandleRoutes ::
    "pton \<Rightarrow> pton \<Rightarrow> (ip_address \<Rightarrow> bytes) \<Rightarrow> bytes list \<Rightarrow> netlink \<Rightarrow> (bytes \<times> netlink) option" where
  "HandleRoutes pton4 pton6 ntop argv nl =
     (case argv of
        [] \<Rightarrow> None
      | command # args \<Rightarrow>
          (if command = str ''show'' then do {
             (_, entries, nl) \<leftarrow> GetRoutes pton4 pton6 [] nl;
             Some (route_heading @ concat (map (route_line ntop) entries), nl)
           }
           else if command = str ''add'' then do {
             (address, cidr, gateway, index) \<leftarrow> route_arguments pton4 pton6 args nl;
             (_, nl) \<leftarrow> AddRoute address cidr gateway None index nl;
             Some ([], nl)
           }
           else if command = str ''del'' then do {
             (address, cidr, gateway, index) \<leftarrow> route_arguments pton4 pton6 args nl;
             (_, nl) \<leftarrow> DelRoute address cidr gateway None index nl;
             Some ([], nl)
           }
           else None))"

text \<open>The result says whether the command succeeded.\<close>

definition HandleInterface :: "pton \<Rightarrow> pton \<Rightarrow> bytes list \<Rightarrow> netlink \<Rightarrow> (bool \<times> netlink) option" where
  "HandleInterface pton4 pton6 argv nl =
     (case argv of
        name # command # args \<Rightarrow> do {
          interface \<leftarrow> GetInterface name nl;
          (if command = str ''up'' then Enable interface nl
           else if command = str ''down'' then Disable interface nl
           else if command = str ''add'' then
             (case args of
                [] \<Rightarrow> None
              | text # _ \<Rightarrow> do {
                  (address, cidr) \<leftarrow> parse_network pton4 pton6 text;
                  AddAddress interface address cidr nl
                })
           else if command = str ''del'' then
             (case args of
                [] \<Rightarrow> None
              | text # _ \<Rightarrow> do {
                  (address, cidr) \<leftarrow> parse_network pton4 pton6 text;
                  DelAddress interface address cidr nl
                })
           else None)
        }
      | _ \<Rightarrow> None)"

definition ip_config_main ::
    "pton \<Rightarrow> pton \<Rightarrow> (ip_address \<Rightarrow> bytes) \<Rightarrow> bytes list \<Rightarrow> netlink \<Rightarrow> (bytes \<times> netlink) option" where
  "ip_config_main pton4 pton6 ntop argv nl =
     (case argv of
        program # command # args \<Rightarrow>
          (if command = str ''routes'' then HandleRoutes pton4 pton6 ntop args nl
           else if command = str ''interface'' then do { (_, nl) \<leftarrow> HandleInterface pton4 pton6 args nl; Some ([], nl) }
           else None)
      | _ \<Rightarrow> None)"


section \<open>Properties\<close>

lemma parse_v4_network:
  assumes "pton4 text = Some (IPv4Address w)" "of_char (CHR ''/'') \<notin> set text" "1 \<le> cidr" "cidr \<le> 32"
  shows "parse_network pton4 pton6 (text @ of_char (CHR ''/'') # ToString_nat cidr) = Some (IPv4Address (w AND network_mask cidr), of_nat cidr)"
proof -
  obtain r where r: "IPRange_set (IPv4Address w) (int cidr) IPRange_new = Some (True, r)" "v4_range r (w AND network_mask cidr) (32 - cidr)"
    "rg_cidr r = of_nat cidr"
    using IPRange_set_v4 [OF assms(3,4)] by blast
  have "split_slash (text @ of_char (CHR ''/'') # ToString_nat cidr) = (text, Some (ToString_nat cidr))"
    unfolding split_slash_def Let_def using until_first [OF assms(2), of "ToString_nat cidr"] by simp
  moreover have "strtol10 (ToString_nat cidr) = (int cidr, [])"
    using strtol10_ToString [of cidr "[]"] assms(4) by simp
  moreover have "int_of_long (int cidr) = int cidr"
    using assms(4) by (simp add: int_of_long_def signed_take_bit_int_eq_self)
  ultimately have "IPRange_Parse pton4 pton6 (text @ of_char (CHR ''/'') # ToString_nat cidr) IPRange_new = Some (True, r)"
    using r(1) assms(1) by (simp add: IPRange_Parse_def ip_Parse_def ToString_digits)
  with r(2,3) show ?thesis by (simp add: parse_network_def v4_range_def)
qed

text \<open>\<open>interface <name> add <address>/<cidr>\<close> asks the kernel to give the interface the address of the network: the bits
  of the host in what the user typed are lost.\<close>

theorem interface_add_loses_the_host:
  assumes "GetInterface name nl = Some i" "confirming 1 nl"
    "pton4 text = Some (IPv4Address w)" "of_char (CHR ''/'') \<notin> set text" "1 \<le> cidr" "cidr \<le> 32"
  shows "\<exists>nl' m. HandleInterface pton4 pton6 [name, str ''add'', text @ of_char (CHR ''/'') # ToString_nat cidr] nl = Some (True, nl') \<and>
    nl_sent nl' = nl_sent nl @ [nl_bytes m] \<and>
    IfAddrMessage RTM_NEWADDR (NLM_F_REQUEST OR NLM_F_CREATE OR NLM_F_ACK OR NLM_F_EXCL) (of_int (nl_seq nl + 1)) (nl_pid nl)
      (IPv4Address (w AND network_mask cidr)) (of_nat cidr) (if_index i) = Some m"
proof -
  have "confirming (Suc 0) nl" using assms(2) by simp
  from requests_confirmed(2) [OF this, of i "IPv4Address (w AND network_mask cidr)" "of_nat cidr"] parse_v4_network [where ?pton4.0 = pton4 and ?pton6.0 = pton6, OF assms(3-6)]
  show ?thesis by (auto simp: HandleInterface_def assms(1))
qed


lemma interface_add_loses_the_host_witness:
  "\<exists>nl' m. HandleInterface (\<lambda>_. Some (IPv4Address 0x0A000005)) (\<lambda>_. None) [str ''eth0'', str ''add'', str ''10.0.0.5/24''] (example_netlink [Inr ack_message]) = Some (True, nl') \<and>
    nl_sent nl' = [nl_bytes m] \<and> IfAddrMessage RTM_NEWADDR 0x605 1 1 (IPv4Address 0x0A000000) 24 1 = Some m"
proof -
  let ?nl = "example_netlink [Inr ack_message]"
  have "nl_send ?nl = [28] @ [] \<and> length [28 :: int] = 1 \<and> 0 \<notin> set [28 :: int]" by (simp add: example_netlink_def)
  moreover have "nl_recv ?nl = map Inr [ack_message] @ [] \<and> length [ack_message] = 1 \<and> list_all is_ack [ack_message]"
    using ack_message_ok by (simp add: example_netlink_def)
  moreover have "0 \<le> nl_fd ?nl" "nl_seq ?nl + int 1 < 2 ^ 31" by (simp_all add: example_netlink_def)
  ultimately have c: "confirming 1 ?nl" unfolding confirming_def by blast
  have i: "GetInterface (str ''eth0'') ?nl = Some \<lparr>if_name = str ''eth0'', if_index = 1\<rparr>" by (simp add: GetInterface_def example_netlink_def)
  have slash: "of_char (CHR ''/'') \<notin> set (str ''10.0.0.5'')" by simp
  have mask: "network_mask 24 = 0xFFFFFF00" by (simp add: network_mask_def)
  have typed: "str ''10.0.0.5/24'' = str ''10.0.0.5'' @ of_char (CHR ''/'') # ToString_nat 24"
    by (simp add: ToString_nat.simps ch_digit_def)
  have flags: "NLM_F_REQUEST OR NLM_F_CREATE OR NLM_F_ACK OR NLM_F_EXCL = 0x605"
    by (simp add: NLM_F_REQUEST_def NLM_F_CREATE_def NLM_F_ACK_def NLM_F_EXCL_def)
  from interface_add_loses_the_host [where ?pton4.0 = "\<lambda>_. Some (IPv4Address 0x0A000005)" and ?pton6.0 = "\<lambda>_. None", OF i c refl slash, of 24]
  show ?thesis unfolding typed by (simp add: flags mask example_netlink_def)
qed

end
