(* ===== verification/Terminal.thy ===== *)
theory Terminal
  imports Password SocketTransport
begin

text \<open>
  \<open>src/src/terminal.h\<close>, \<open>.cc\<close> and \<open>src/src/terminal-user-chatter.h\<close>, \<open>.cc\<close>, with \<open>fd_read_once\<close> and \<open>fd_write\<close> of
  \<open>src/src/fd-helpers.h\<close>: what the user is asked and what is read.

  The terminal is its attributes, what each system call on it will answer, and a record of what was done: a read is
  recorded with the attributes it was made under.
\<close>

section \<open>The terminal\<close>

record termios =
  c_iflag :: u32
  c_oflag :: u32
  c_lflag :: u32

definition IGNCR :: u32 where "IGNCR = 128"
definition ICRNL :: u32 where "ICRNL = 256"
definition OPOST :: u32 where "OPOST = 1"
definition ONLCR :: u32 where "ONLCR = 4"
definition ICANON :: u32 where "ICANON = 2"
definition ECHO :: u32 where "ECHO = 8"
definition ECHONL :: u32 where "ECHONL = 64"

datatype tty_event = Tty_write bytes | Tty_read termios bytes | Tty_close int

text \<open>A \<open>tcgetattr\<close> that fails leaves in the object what its memory held.\<close>

record tty =
  ty_attributes :: termios
  ty_open :: "int list"
  ty_tcgetattr :: "termios option list"
  ty_tcsetattr :: "bool list"
  ty_read :: "(errno + bytes) list"
  ty_write :: "(errno + nat) list"
  ty_log :: "tty_event list"

definition log_tty :: "tty_event \<Rightarrow> tty \<Rightarrow> tty" where
  "log_tty e t = t\<lparr>ty_log := ty_log t @ [e]\<rparr>"

section \<open>Reading and writing\<close>

text \<open>What \<open>write\<close> took, and the answers that are left.\<close>

fun fd_write :: "bytes \<Rightarrow> (errno + nat) list \<Rightarrow> (bool \<times> bytes \<times> (errno + nat) list) option" where
  "fd_write [] answers = Some (True, [], answers)"
| "fd_write (b # bs) [] = None"
| "fd_write (b # bs) (a # answers) =
     (case a of
        Inl e \<Rightarrow> (if e = EAGAIN then fd_write (b # bs) answers else Some (False, [], answers))
      | Inr written \<Rightarrow> do {
          (ok, out, answers) \<leftarrow> fd_write (drop written (b # bs)) answers;
          Some (ok, take written (b # bs) @ out, answers)
        })"

definition Print :: "bytes \<Rightarrow> tty \<Rightarrow> (bool \<times> tty) option" where
  "Print message t = do {
     (ok, out, answers) \<leftarrow> fd_write message (ty_write t);
     Some (ok, log_tty (Tty_write out) (t\<lparr>ty_write := answers\<rparr>))
   }"

text \<open>\<open>None\<close> for the result -1.\<close>

definition fd_read_once :: "nat \<Rightarrow> tty \<Rightarrow> (bytes option \<times> tty) option" where
  "fd_read_once bsize t = do {
     (a, answers) \<leftarrow> retry (ty_read t);
     let t = t\<lparr>ty_read := answers\<rparr>;
     (case a of
        Inl e \<Rightarrow> Some (None, t)
      | Inr line \<Rightarrow> Some (Some (take bsize line), log_tty (Tty_read (ty_attributes t) (take bsize line)) t))
   }"

definition ch_newline :: byte where "ch_newline = of_char (CHR ''\<newline>'')"

text \<open>A line into \<open>buffer\<close>, of which \<open>bsize\<close> bytes may be used, with a 0 behind it.\<close>

definition ReadLine :: "bytes \<Rightarrow> nat \<Rightarrow> tty \<Rightarrow> (int \<times> bytes \<times> tty) option" where
  "ReadLine buffer bsize t = do {
     (line, t) \<leftarrow> fd_read_once (bsize - 1) t;
     (case line of
        None \<Rightarrow> Some (- 1, buffer, t)
      | Some line \<Rightarrow>
          (let r = (if line \<noteq> [] \<and> last line = ch_newline then length line - 1 else length line);
               buffer = line @ drop (length line) buffer
           in Some (int r, buffer[r := 0], t)))
   }"

definition kBufferSize_tty :: nat where "kBufferSize_tty = 4096"

definition ReadLine_string :: "bytes \<Rightarrow> tty \<Rightarrow> (bytes option \<times> tty) option" where
  "ReadLine_string memory t = do {
     (r, buffer, t) \<leftarrow> ReadLine memory (kBufferSize_tty - 1) t;
     Some (if r < 0 then None else Some (take (nat r) buffer), t)
   }"

section \<open>Passwords\<close>

definition State_new :: "tty \<Rightarrow> (termios \<times> tty) option" where
  "State_new t = do {
     (failed, answers) \<leftarrow> answer (ty_tcgetattr t);
     Some (case failed of None \<Rightarrow> ty_attributes t | Some memory \<Rightarrow> memory, t\<lparr>ty_tcgetattr := answers\<rparr>)
   }"

definition tcsetattr :: "termios \<Rightarrow> tty \<Rightarrow> (bool \<times> tty) option" where
  "tcsetattr a t = do {
     (ok, answers) \<leftarrow> answer (ty_tcsetattr t);
     let t = t\<lparr>ty_tcsetattr := answers\<rparr>;
     Some (ok, if ok then t\<lparr>ty_attributes := a\<rparr> else t)
   }"

definition State_destroy :: "termios \<Rightarrow> tty \<Rightarrow> tty option" where
  "State_destroy state t = do { (_, t) \<leftarrow> tcsetattr state t; Some t }"

definition SetPasswordReadMode :: "termios \<Rightarrow> tty \<Rightarrow> (bool \<times> tty) option" where
  "SetPasswordReadMode state t =
     tcsetattr \<lparr>c_iflag = (c_iflag state AND NOT IGNCR) OR ICRNL,
                c_oflag = c_oflag state OR (OPOST OR ONLCR),
                c_lflag = (c_lflag state AND NOT ECHO) OR (ICANON OR ECHONL)\<rparr> t"

definition ReadPassword :: "bytes \<Rightarrow> static_buffer \<Rightarrow> tty \<Rightarrow> (bool \<times> static_buffer \<times> tty) option" where
  "ReadPassword message buffer t = do {
     (state, t) \<leftarrow> State_new t;
     (ok, t) \<leftarrow> SetPasswordReadMode state t;
     (if \<not> ok then do { t \<leftarrow> State_destroy state t; Some (False, buffer, t) }
      else do {
        (_, t) \<leftarrow> Print message t;
        (r, bs, t) \<leftarrow> ReadLine (sb_data buffer) kStaticBufferSize t;
        let buffer = buffer\<lparr>sb_data := bs\<rparr>;
        t \<leftarrow> State_destroy state t;
        (if r < 0 then Some (False, buffer, t) else Some (True, sb_Resize r buffer, t))
      })
   }"

definition Terminal_new :: "tty \<Rightarrow> (int \<times> tty) option" where
  "Terminal_new t = do { (fd, answers) \<leftarrow> answer (ty_open t); Some (fd, t\<lparr>ty_open := answers\<rparr>) }"

definition Terminal_destroy :: "int \<Rightarrow> tty \<Rightarrow> tty" where
  "Terminal_destroy fd t = log_tty (Tty_close fd) t"

section \<open>The questions of an authenticator\<close>

datatype input_type = T_PASSWORD | T_STRING | T_NUMERIC

record input_descriptor =
  id_type :: input_type
  id_name :: bytes
  id_prompt :: bytes
  id_description :: bytes

definition username_descriptor :: input_descriptor where
  "username_descriptor = \<lparr>id_type = T_STRING, id_name = str ''username'', id_prompt = str ''Username'',
     id_description = str ''The username to use to authenticate you with the remote server''\<rparr>"

definition password_descriptor :: input_descriptor where
  "password_descriptor = \<lparr>id_type = T_PASSWORD, id_name = str ''password'', id_prompt = str ''Password'',
     id_description = str ''The password associated with the specified username''\<rparr>"

definition TerminalUserChatter_Get :: "input_descriptor \<Rightarrow> static_buffer \<Rightarrow> tty \<Rightarrow> (bool \<times> static_buffer \<times> tty) option" where
  "TerminalUserChatter_Get descriptor data t = do {
     (fd, t) \<leftarrow> Terminal_new t;
     (_, t) \<leftarrow> Print (id_prompt descriptor) t;
     (_, t) \<leftarrow> Print (str '': '') t;
     (status, data, t) \<leftarrow>
       (if id_type descriptor = T_PASSWORD then ReadPassword [] data t
        else do {
          (r, bs, t) \<leftarrow> ReadLine (sb_data data) kStaticBufferSize t;
          let data = data\<lparr>sb_data := bs\<rparr>;
          (if r < 0 then Some (False, data, t) else Some (True, sb_Resize r data, t))
        });
     Some (status, data, Terminal_destroy fd t)
   }"


section \<open>What a password read does\<close>

text \<open>A line without its end.\<close>

definition chomp :: "bytes \<Rightarrow> bytes" where
  "chomp line = (if line \<noteq> [] \<and> last line = ch_newline then butlast line else line)"

lemma chomp_length: "line \<noteq> [] \<and> last line = ch_newline \<Longrightarrow> length (chomp line) = length line - 1"
  "\<not> (line \<noteq> [] \<and> last line = ch_newline) \<Longrightarrow> length (chomp line) = length line"
  by (auto simp: chomp_def)

lemma chomp_take: "take (length (chomp line)) line = chomp line"
  by (simp add: chomp_def butlast_conv_take)

lemma ReadLine_typed:
  assumes "ReadLine buffer bsize t = Some (r, buffer', t')" "0 \<le> r"
  obtains line answers where "t' = log_tty (Tty_read (ty_attributes t) line) (t\<lparr>ty_read := answers\<rparr>)" "length line \<le> bsize - 1"
    "buffer' = (line @ drop (length line) buffer)[length (chomp line) := 0]" "r = int (length (chomp line))"
proof -
  obtain a answers where a: "retry (ty_read t) = Some (a, answers)"
    using assms(1) by (auto simp: ReadLine_def fd_read_once_def split: bind_splits)
  show thesis
  proof (cases a)
    case (Inl e)
    with assms a show thesis by (simp add: ReadLine_def fd_read_once_def)
  next
    case (Inr data)
    let ?line = "take (bsize - 1) data"
    have run: "fd_read_once (bsize - 1) t = Some (Some ?line, log_tty (Tty_read (ty_attributes t) ?line) (t\<lparr>ty_read := answers\<rparr>))"
      using a Inr by (simp add: fd_read_once_def)
    have n: "(if ?line \<noteq> [] \<and> last ?line = ch_newline then length ?line - 1 else length ?line) = length (chomp ?line)"
      using chomp_length [of ?line] by (auto split: if_splits)
    from assms(1) have "Some (int (length (chomp ?line)), (?line @ drop (length ?line) buffer)[length (chomp ?line) := 0],
        log_tty (Tty_read (ty_attributes t) ?line) (t\<lparr>ty_read := answers\<rparr>)) = Some (r, buffer', t')"
      by (simp only: ReadLine_def run bind.simps option.simps Let_def n split)
    then show thesis by (intro that [of ?line answers]) simp_all
  qed
qed

definition hidden :: "termios \<Rightarrow> termios" where
  "hidden a = \<lparr>c_iflag = (c_iflag a AND NOT IGNCR) OR ICRNL, c_oflag = c_oflag a OR (OPOST OR ONLCR),
     c_lflag = (c_lflag a AND NOT ECHO) OR (ICANON OR ECHONL)\<rparr>"

lemma hidden_echo: "c_lflag (hidden a) AND ECHO = 0"
proof -
  have "(c_lflag a AND NOT ECHO) AND ECHO = 0" "(ICANON OR ECHONL) AND ECHO = 0"
    by (simp_all add: and.assoc ECHO_def ICANON_def ECHONL_def)
  then show ?thesis by (simp add: hidden_def word_ao_dist)
qed

lemma Print_log: "Print message t = Some (ok, t') \<Longrightarrow> \<exists>out answers. t' = log_tty (Tty_write out) (t\<lparr>ty_write := answers\<rparr>)"
  by (auto simp: Print_def split: bind_splits)

text \<open>What a \<open>ReadPassword\<close> that succeeds does, when the attributes could be had.\<close>

lemma ReadPassword_typed:
  assumes run: "ReadPassword message buffer t = Some (True, buffer', t')" and gets: "ty_tcgetattr t = None # gs"
  obtains out line restored where "ty_log t' = ty_log t @ [Tty_write out, Tty_read (hidden (ty_attributes t)) line]"
    "sb_data buffer' = (line @ drop (length line) (sb_data buffer))[length (chomp line) := 0]" "sb_used buffer' = int (length (chomp line))"
    "length line \<le> 4095" "ty_tcgetattr t' = gs" "ty_tcsetattr t = True # restored # ty_tcsetattr t'"
    "ty_attributes t' = (if restored then ty_attributes t else hidden (ty_attributes t))" "ty_open t' = ty_open t"
proof -
  let ?a = "ty_attributes t"
  have state: "State_new t = Some (?a, t\<lparr>ty_tcgetattr := gs\<rparr>)" using gets by (simp add: State_new_def)
  obtain b sets where b: "ty_tcsetattr t = b # sets"
    using run by (cases "ty_tcsetattr t") (auto simp: ReadPassword_def state SetPasswordReadMode_def tcsetattr_def)
  have b
  proof (rule ccontr)
    assume "\<not> b"
    with b have "SetPasswordReadMode ?a (t\<lparr>ty_tcgetattr := gs\<rparr>) = Some (False, t\<lparr>ty_tcgetattr := gs, ty_tcsetattr := sets\<rparr>)"
      by (simp add: SetPasswordReadMode_def tcsetattr_def)
    with run show False by (auto simp: ReadPassword_def state split: bind_splits)
  qed
  with b have sets: "ty_tcsetattr t = True # sets" by simp
  define t1 where "t1 = t\<lparr>ty_tcgetattr := gs, ty_tcsetattr := sets, ty_attributes := hidden ?a\<rparr>"
  have mode: "SetPasswordReadMode ?a (t\<lparr>ty_tcgetattr := gs\<rparr>) = Some (True, t1)"
    using sets by (simp add: SetPasswordReadMode_def tcsetattr_def t1_def hidden_def)
  obtain pk t2 where print: "Print message t1 = Some (pk, t2)"
    using run by (auto simp: ReadPassword_def state mode split: bind_splits)
  obtain r bs t3 where read: "ReadLine (sb_data buffer) kStaticBufferSize t2 = Some (r, bs, t3)"
    using run by (auto simp: ReadPassword_def state mode print split: bind_splits)
  obtain t4 where restore: "State_destroy ?a t3 = Some t4"
    using run by (auto simp: ReadPassword_def state mode print read Let_def split: bind_splits)
  have r: "0 \<le> r" "buffer' = sb_Resize r (buffer\<lparr>sb_data := bs\<rparr>)" "t' = t4"
    using run by (auto simp: ReadPassword_def state mode print read restore Let_def split: if_splits)
  obtain out ws where t2: "t2 = log_tty (Tty_write out) (t1\<lparr>ty_write := ws\<rparr>)" using Print_log [OF print] by blast
  obtain line rs where line: "t3 = log_tty (Tty_read (ty_attributes t2) line) (t2\<lparr>ty_read := rs\<rparr>)" "length line \<le> kStaticBufferSize - 1"
    "bs = (line @ drop (length line) (sb_data buffer))[length (chomp line) := 0]" "r = int (length (chomp line))"
    by (rule ReadLine_typed [OF read r(1)])
  have len: "length (chomp line) \<le> length line" by (simp add: chomp_def)
  obtain restored sets' where s': "sets = restored # sets'" "t4 = (if restored then t3\<lparr>ty_tcsetattr := sets', ty_attributes := ?a\<rparr> else t3\<lparr>ty_tcsetattr := sets'\<rparr>)"
  proof -
    have "ty_tcsetattr t3 = sets" by (simp add: line(1) t2 t1_def log_tty_def)
    with restore that show thesis by (cases sets) (auto simp: State_destroy_def tcsetattr_def Let_def)
  qed
  show thesis
    by (rule that [of out line restored])
      (use r(2,3) line len s' sets in \<open>auto simp: t2 t1_def log_tty_def sb_Resize_def kStaticBufferSize_def\<close>)
qed


text \<open>And when it succeeds.\<close>

lemma ReadPassword_runs:
  assumes "ty_tcgetattr t = None # gs" "ty_tcsetattr t = True # True # sets" "fd_write message (ty_write t) = Some (wok, out, ws)"
    "retry (ty_read t) = Some (Inr line, rs)" "length line \<le> 4095"
  shows "ReadPassword message buffer t = Some (True,
    \<lparr>sb_data = (line @ drop (length line) (sb_data buffer))[length (chomp line) := 0], sb_used = int (length (chomp line))\<rparr>,
    t\<lparr>ty_tcgetattr := gs, ty_tcsetattr := sets, ty_write := ws, ty_read := rs,
      ty_log := ty_log t @ [Tty_write out, Tty_read (hidden (ty_attributes t)) line]\<rparr>)"
proof -
  have n: "(if line \<noteq> [] \<and> last line = ch_newline then length line - 1 else length line) = length (chomp line)"
    using chomp_length [of line] by auto
  have "length (chomp line) \<le> 4096" using assms(5) chomp_length [of line] by (cases "line \<noteq> [] \<and> last line = ch_newline") auto
  moreover have "t\<lparr>ty_attributes := ty_attributes t\<rparr> = t" by simp
  ultimately show ?thesis
    using assms n
    by (simp add: ReadPassword_def State_new_def SetPasswordReadMode_def tcsetattr_def Print_def log_tty_def ReadLine_def fd_read_once_def
        State_destroy_def kStaticBufferSize_def sb_Resize_def hidden_def Let_def)
qed

section \<open>Properties\<close>


definition sample_tty :: tty where
  "sample_tty = \<lparr>ty_attributes = \<lparr>c_iflag = 0, c_oflag = 0, c_lflag = 8\<rparr>, ty_open = [3], ty_tcgetattr = [None, None],
     ty_tcsetattr = [True, True, True, True], ty_read = [Inl EAGAIN, Inr (str ''secret'' @ [ch_newline]), Inr [ch_newline]],
     ty_write = [Inr 17, Inr 18], ty_log = []\<rparr>"


end
