(* ===== verification/UserAdmin.thy ===== *)
theory UserAdmin
  imports Terminal Hashing LoginSteps
begin

text \<open>
  \<open>src/src/uvpn-user.cc\<close>: the program that adds, deletes and shows the users of the database. The databases of this
  program and of the server are the same file; \<open>opens\<close> is what the kernel answers when the file is opened, \<open>wr\<close> what a
  write does to it.
\<close>

section \<open>A password, typed twice\<close>

text \<open>
  Each attempt has two passwords on the stack; \<open>memories\<close> says what their buffers hold when they are constructed.
\<close>

fun password_attempts :: "(bytes \<times> bytes) list \<Rightarrow> static_buffer \<Rightarrow> tty \<Rightarrow> (bool \<times> static_buffer \<times> tty) option" where
  "password_attempts [] retval t = Some (False, retval, t)"
| "password_attempts ((m1, m2) # memories) retval t = do {
     let password = sb_new m1;
     (ok, retval, t) \<leftarrow> ReadPassword (str ''Insert password: '') retval t;
     (if \<not> ok then Some (False, retval, t)
      else do {
        (ok, confirm, t) \<leftarrow> ReadPassword (str ''Confirm password: '') (sb_new m2) t;
        (if \<not> ok then Some (False, retval, t)
         else if sb_SameAs password confirm then Some (True, retval, t)
         else password_attempts memories retval t)
      })
   }"

definition GetPassword ::
    "(bytes \<times> bytes) \<times> (bytes \<times> bytes) \<times> (bytes \<times> bytes) \<Rightarrow> static_buffer \<Rightarrow> tty \<Rightarrow> (bool \<times> static_buffer \<times> tty) option" where
  "GetPassword memories retval t =
     (case memories of (m1, m2, m3) \<Rightarrow> do {
        (fd, t) \<leftarrow> Terminal_new t;
        (ok, retval, t) \<leftarrow> password_attempts [m1, m2, m3] retval t;
        Some (ok, retval, Terminal_destroy fd t)
      })"

section \<open>The commands\<close>

type_synonym memories = "bytes \<times> (bytes \<times> bytes) \<times> (bytes \<times> bytes) \<times> (bytes \<times> bytes)"

text \<open>
  The program's world: the terminal, the database and its file, the kernel's answers to opening it, the random numbers
  and the object that secrets are made with. What is printed is \<open>ua_output\<close>. The result of opening the database is not
  looked at; its destructor closes it.
\<close>

record 'k user_admin =
  ua_tty :: tty
  ua_udb :: udb
  ua_file :: bytes
  ua_opens :: "(bool \<times> lock_result \<times> read_result list) list"
  ua_prng :: "'k prng"
  ua_secret :: srp_secret
  ua_output :: bytes

definition Session_open :: "'k user_admin \<Rightarrow> 'k user_admin option" where
  "Session_open a = do {
     ((opened, lock, reads), answers) \<leftarrow> answer (ua_opens a);
     (_, u) \<leftarrow> udb_Open opened lock reads (ua_udb a);
     Some (a\<lparr>ua_opens := answers, ua_udb := u\<rparr>)
   }"

definition Session_close :: "'k user_admin \<Rightarrow> 'k user_admin" where
  "Session_close a = a\<lparr>ua_udb := snd (udb_Close (ua_udb a))\<rparr>"

definition commit_file :: "(bytes \<Rightarrow> bytes \<Rightarrow> bytes) \<Rightarrow> 'k user_admin \<Rightarrow> bool \<times> 'k user_admin" where
  "commit_file wr a = (case Commit wr (ua_udb a) (ua_file a) of (ok, file) \<Rightarrow> (ok, a\<lparr>ua_file := file\<rparr>))"

definition cmd_AddUser ::
    "bn_lib \<Rightarrow> 'k rc4_lib \<Rightarrow> (bytes \<Rightarrow> bytes \<Rightarrow> bytes) \<Rightarrow> memories \<Rightarrow> bytes list \<Rightarrow> 'k user_admin \<Rightarrow> (bool \<times> 'k user_admin) option" where
  "cmd_AddUser lib rl wr memories argv a =
     (case argv of
        [] \<Rightarrow> Some (False, a)
      | username # _ \<Rightarrow>
          (if \<not> ValidUsername username then Some (False, a)
           else do {
             (ok, password, t) \<leftarrow> GetPassword (snd memories) (sb_new (fst memories)) (ua_tty a);
             let a = a\<lparr>ua_tty := t\<rparr>;
             (if \<not> ok then Some (False, a)
              else do {
                (ok, secret, prng) \<leftarrow> FromPassword_new_salt lib rl username password (ua_prng a) (ua_secret a);
                let a = a\<lparr>ua_secret := secret, ua_prng := prng\<rparr>;
                (if \<not> ok then Some (False, a)
                 else do {
                   fresh \<leftarrow> new_buffer;
                   tostore \<leftarrow> ToSecret lib fresh (ua_secret a);
                   a \<leftarrow> Session_open a;
                   let (ok, u) = AddUser username tostore (ua_udb a);
                   let a = a\<lparr>ua_udb := u\<rparr>;
                   (if \<not> ok then Some (False, Session_close a)
                    else (let (ok, a) = commit_file wr a in Some (ok, Session_close a)))
                 })
              })
           }))"

definition cmd_DelUser :: "(bytes \<Rightarrow> bytes \<Rightarrow> bytes) \<Rightarrow> bytes list \<Rightarrow> 'k user_admin \<Rightarrow> (bool \<times> 'k user_admin) option" where
  "cmd_DelUser wr argv a =
     (case argv of
        [] \<Rightarrow> Some (False, a)
      | username # _ \<Rightarrow> do {
          a \<leftarrow> Session_open a;
          let (ok, u) = DelUser username (ua_udb a);
          let a = a\<lparr>ua_udb := u\<rparr>;
          (if \<not> ok then Some (False, Session_close a)
           else (let (ok, a) = commit_file wr a in Some (ok, Session_close a)))
        })"

text \<open>OpenSSL's \<open>BN_bn2hex\<close> is an argument.\<close>

definition ToAscii :: "(nat \<Rightarrow> bytes) \<Rightarrow> srp_secret \<Rightarrow> bytes" where
  "ToAscii bn2hex s =
     str ''index: '' @ decimal (sr_index s) @ [ch_newline] @ str ''salt: '' @ ConvertToHex (sr_salt s) @
     [ch_newline] @ str ''v: '' @ bn2hex (sr_v s)"

definition cmd_GetUser :: "bn_lib \<Rightarrow> (nat \<Rightarrow> bytes) \<Rightarrow> bytes list \<Rightarrow> 'k user_admin \<Rightarrow> (bool \<times> 'k user_admin) option" where
  "cmd_GetUser lib bn2hex argv a =
     (case argv of
        [] \<Rightarrow> Some (False, a)
      | username # _ \<Rightarrow> do {
          a \<leftarrow> Session_open a;
          (case snd (GetUser username (ua_udb a)) of
             None \<Rightarrow> Some (False, Session_close a)
           | Some stored \<Rightarrow> do {
               fresh \<leftarrow> new_buffer;
               (ok, secret) \<leftarrow> FromSecret lib fresh stored (ua_secret a);
               let a = a\<lparr>ua_secret := secret\<rparr>;
               (if \<not> ok then Some (False, Session_close a)
                else
                  (let line = str ''username: '' @ username @ [ch_newline] @ ToAscii bn2hex secret @ [ch_newline]
                   in Some (True, Session_close (a\<lparr>ua_output := ua_output a @ line\<rparr>))))
             })
        })"

text \<open>\<open>main\<close>; \<open>change\<close> and \<open>generate\<close> do nothing. The program's status is 0 whatever the command returned.\<close>

definition uvpn_user_main ::
    "bn_lib \<Rightarrow> 'k rc4_lib \<Rightarrow> (nat \<Rightarrow> bytes) \<Rightarrow> (bytes \<Rightarrow> bytes \<Rightarrow> bytes) \<Rightarrow> memories \<Rightarrow> bytes list \<Rightarrow> 'k user_admin \<Rightarrow> 'k user_admin option" where
  "uvpn_user_main lib rl bn2hex wr memories argv a =
     (case argv of
        program # command # args \<Rightarrow> do {
          secret \<leftarrow> SrpSecret_new 1;
          let a = a\<lparr>ua_udb := udb_new, ua_secret := secret\<rparr>;
          (_, a) \<leftarrow>
            (if command = str ''add'' then cmd_AddUser lib rl wr memories args a
             else if command = str ''del'' then cmd_DelUser wr args a
             else if command = str ''change'' \<or> command = str ''generate'' then Some (True, a)
             else if command = str ''get'' then cmd_GetUser lib bn2hex args a
             else None);
          Some a
        }
      | _ \<Rightarrow> None)"


section \<open>What is confirmed\<close>

text \<open>What a password leaves in its memory: its destructor overwrites it with zeros.\<close>

definition shredded :: bytes where
  "shredded = replicate kStaticBufferSize 0"

lemma same_as_shredded:
  assumes "sb_SameAs (sb_new shredded) c" "sb_data c = (line @ drop (length line) shredded)[length (chomp line) := 0]" "length line \<le> 4095"
  shows "set (chomp line) \<subseteq> {0}"
proof -
  have len: "length (chomp line) \<le> length line" by (simp add: chomp_def)
  have "take kStaticBufferSize (sb_data c) = shredded"
    using assms(1) by (simp add: sb_SameAs_def sb_new_def shredded_def)
  moreover have "length (sb_data c) = kStaticBufferSize" using assms(2,3) by (simp add: shredded_def kStaticBufferSize_def)
  ultimately have "sb_data c = shredded" by simp
  moreover have "take (length (chomp line)) (sb_data c) = chomp line" using len by (simp add: assms(2) chomp_take)
  ultimately have "chomp line = take (length (chomp line)) shredded" by simp
  then have "set (chomp line) \<subseteq> set shredded" by (metis set_take_subset)
  then show ?thesis by (simp add: shredded_def kStaticBufferSize_def split: if_splits)
qed

lemma attempts_accept:
  assumes "password_attempts ms retval t = Some (True, pw, t')" "set ms \<subseteq> {(shredded, shredded)}" "list_all (\<lambda>g. g = None) (ty_tcgetattr t)"
  shows "\<exists>l o1 a1 line1 o2 a2 line2. ty_log t' = l @ [Tty_write o1, Tty_read a1 line1, Tty_write o2, Tty_read a2 line2] \<and>
    sb_content pw = chomp line1 \<and> set (chomp line2) \<subseteq> {0}"
  using assms
proof (induction ms arbitrary: retval t)
  case (Cons m ms)
  have m: "m = (shredded, shredded)" "set ms \<subseteq> {(shredded, shredded)}" using Cons.prems(2) by auto
  obtain ok1 p1 t1 where r1: "ReadPassword (str ''Insert password: '') retval t = Some (ok1, p1, t1)"
    using Cons.prems(1) by (auto simp: m(1) Let_def simp del: str_simps split: bind_splits)
  have ok1 using Cons.prems(1) by (cases ok1) (auto simp: m(1) r1 Let_def simp del: str_simps)
  with r1 have r1: "ReadPassword (str ''Insert password: '') retval t = Some (True, p1, t1)" by simp
  obtain ok2 p2 t2 where r2: "ReadPassword (str ''Confirm password: '') (sb_new shredded) t1 = Some (ok2, p2, t2)"
    using Cons.prems(1) by (auto simp: m(1) r1 Let_def simp del: str_simps split: bind_splits)
  have ok2 using Cons.prems(1) by (cases ok2) (auto simp: m(1) r1 r2 Let_def simp del: str_simps)
  with r2 have r2: "ReadPassword (str ''Confirm password: '') (sb_new shredded) t1 = Some (True, p2, t2)" by simp
  obtain gs where gs: "ty_tcgetattr t = None # gs" "list_all (\<lambda>g. g = None) gs"
    using Cons.prems(3) r1 by (cases "ty_tcgetattr t") (auto simp: ReadPassword_def State_new_def)
  obtain o1 line1 where e1: "ty_log t1 = ty_log t @ [Tty_write o1, Tty_read (hidden (ty_attributes t)) line1]"
    "sb_data p1 = (line1 @ drop (length line1) (sb_data retval))[length (chomp line1) := 0]" "sb_used p1 = int (length (chomp line1))"
    "length line1 \<le> 4095" "ty_tcgetattr t1 = gs"
    by (rule ReadPassword_typed [OF r1 gs(1)])
  obtain gs2 where gs2: "gs = None # gs2" "list_all (\<lambda>g. g = None) gs2"
    using gs(2) r2 e1(5) by (cases gs) (auto simp: ReadPassword_def State_new_def)
  obtain o2 line2 where e2: "ty_log t2 = ty_log t1 @ [Tty_write o2, Tty_read (hidden (ty_attributes t1)) line2]"
    "sb_data p2 = (line2 @ drop (length line2) (sb_data (sb_new shredded)))[length (chomp line2) := 0]" "length line2 \<le> 4095" "ty_tcgetattr t2 = gs2"
    by (rule ReadPassword_typed [OF r2 e1(5) [unfolded gs2(1)]])
  have rest: "(if sb_SameAs (sb_new shredded) p2 then Some (True, p1, t2) else password_attempts ms p1 t2) = Some (True, pw, t')"
    using Cons.prems(1) by (simp add: m(1) r1 r2 Let_def del: str_simps)
  show ?case
  proof (cases "sb_SameAs (sb_new shredded) p2")
    case True
    with rest have same: "p1 = pw" "t2 = t'" by simp_all
    have "length (chomp line1) \<le> length line1" by (simp add: chomp_def)
    then have "sb_content pw = chomp line1" by (simp add: same [symmetric] sb_content_def e1(2,3) chomp_take)
    moreover have "set (chomp line2) \<subseteq> {0}"
      using same_as_shredded [OF True _ e2(3)] e2(2) by (simp add: sb_new_def)
    moreover have "ty_log t' = ty_log t @ [Tty_write o1, Tty_read (hidden (ty_attributes t)) line1, Tty_write o2, Tty_read (hidden (ty_attributes t1)) line2]"
      using e1(1) e2(1) same(2) by simp
    ultimately show ?thesis by blast
  next
    case False
    with rest have "password_attempts ms p1 t2 = Some (True, pw, t')" by simp
    then show ?thesis by (rule Cons.IH [OF _ m(2)]) (use gs2(2) e2(4) in simp)
  qed
qed simp

section \<open>Properties\<close>

text \<open>C25. The two lines that the user types are never compared: in memory that earlier passwords have overwritten, a
  password is accepted only if the line that should confirm it is empty (or holds nothing but zero bytes), whatever
  the password is. So a user who types the same password twice is refused.\<close>

theorem GetPassword_accepts_empty_confirmations_only:
  assumes "GetPassword ((shredded, shredded), (shredded, shredded), (shredded, shredded)) retval t = Some (True, pw, t')"
    "list_all (\<lambda>g. g = None) (ty_tcgetattr t)"
  shows "\<exists>l o1 a1 line1 o2 a2 line2 fd. ty_log t' = l @ [Tty_write o1, Tty_read a1 line1, Tty_write o2, Tty_read a2 line2, Tty_close fd] \<and>
    sb_content pw = chomp line1 \<and> set (chomp line2) \<subseteq> {0}"
proof -
  obtain fd answers where "ty_open t = fd # answers" using assms(1) by (cases "ty_open t") (auto simp: GetPassword_def Terminal_new_def)
  then obtain t1 where t1: "password_attempts [(shredded, shredded), (shredded, shredded), (shredded, shredded)] retval (t\<lparr>ty_open := answers\<rparr>) = Some (True, pw, t1)"
    "t' = log_tty (Tty_close fd) t1"
    using assms(1) by (auto simp: GetPassword_def Terminal_new_def Terminal_destroy_def simp del: password_attempts.simps split: bind_splits)
  from attempts_accept [OF t1(1)] assms(2) obtain l o1 a1 line1 o2 a2 line2 where
    "ty_log t1 = l @ [Tty_write o1, Tty_read a1 line1, Tty_write o2, Tty_read a2 line2]" "sb_content pw = chomp line1" "set (chomp line2) \<subseteq> {0}"
    by auto
  with t1(2) have "ty_log t' = l @ [Tty_write o1, Tty_read a1 line1, Tty_write o2, Tty_read a2 line2, Tty_close fd]" by (simp add: log_tty_def)
  with \<open>sb_content pw = chomp line1\<close> \<open>set (chomp line2) \<subseteq> {0}\<close> show ?thesis by blast
qed


text \<open>A user types a password and confirms it with an empty line.\<close>

lemma empty_line_kept: "([ch_newline] @ drop (length [ch_newline]) shredded)[0 := 0] = shredded"
  by (simp add: shredded_def kStaticBufferSize_def flip: replicate_Suc)

definition typed_secret :: "bytes \<Rightarrow> static_buffer" where
  "typed_secret memory = \<lparr>sb_data = (str ''secret'' @ [ch_newline] @ drop 7 memory)[6 := 0], sb_used = 6\<rparr>"

lemma sample_password:
  obtains t' where "GetPassword ((shredded, shredded), ms) (sb_new memory) sample_tty = Some (True, typed_secret memory, t')"
proof -
  let ?t = "sample_tty\<lparr>ty_open := []\<rparr>"
  let ?a = "str ''Insert password: ''" and ?b = "str ''Confirm password: ''"
  have o1: "fd_write ?a (ty_write ?t) = Some (True, ?a, [Inr 18])" by (simp add: sample_tty_def)
  have t1: "ty_tcgetattr ?t = None # [None]" "ty_tcsetattr ?t = True # True # [True, True]"
    "retry (ty_read ?t) = Some (Inr (str ''secret'' @ [ch_newline]), [Inr [ch_newline]])"
    by (simp_all add: sample_tty_def)
  let ?l1 = "str ''secret'' @ [ch_newline]"
  have r1: "ReadPassword ?a (sb_new memory) ?t = Some (True,
      \<lparr>sb_data = (?l1 @ drop (length ?l1) (sb_data (sb_new memory)))[length (chomp ?l1) := 0], sb_used = int (length (chomp ?l1))\<rparr>,
      ?t\<lparr>ty_tcgetattr := [None], ty_tcsetattr := [True, True], ty_write := [Inr 18], ty_read := [Inr [ch_newline]],
        ty_log := ty_log ?t @ [Tty_write ?a, Tty_read (hidden (ty_attributes ?t)) ?l1]\<rparr>)"
    by (rule ReadPassword_runs) (use o1 t1 in simp_all)
  have c1: "chomp ?l1 = str ''secret''" by (simp add: chomp_def)
  have p1: "\<lparr>sb_data = (?l1 @ drop (length ?l1) (sb_data (sb_new memory)))[length (chomp ?l1) := 0], sb_used = int (length (chomp ?l1))\<rparr> = typed_secret memory"
    unfolding c1 by (simp add: typed_secret_def sb_new_def eval_nat_numeral)
  define t2 where "t2 = ?t\<lparr>ty_tcgetattr := [None], ty_tcsetattr := [True, True], ty_write := [Inr 18], ty_read := [Inr [ch_newline]],
        ty_log := ty_log ?t @ [Tty_write ?a, Tty_read (hidden (ty_attributes ?t)) ?l1]\<rparr>"
  have o2: "fd_write ?b (ty_write t2) = Some (True, ?b, [])" by (simp add: t2_def)
  have c2: "chomp [ch_newline] = []" by (simp add: chomp_def)
  obtain t3 where r2: "ReadPassword ?b (sb_new shredded) t2 = Some (True,
      \<lparr>sb_data = ([ch_newline] @ drop (length [ch_newline]) (sb_data (sb_new shredded)))[length (chomp [ch_newline]) := 0],
       sb_used = int (length (chomp [ch_newline]))\<rparr>, t3)"
    using ReadPassword_runs [of t2 "[]" "[]" ?b True ?b "[]" "[ch_newline]" "[]"] o2 by (auto simp: t2_def simp del: str_simps)
  have same: "sb_SameAs (sb_new shredded) \<lparr>sb_data = ([ch_newline] @ drop (length [ch_newline]) (sb_data (sb_new shredded)))[length (chomp [ch_newline]) := 0],
       sb_used = int (length (chomp [ch_newline]))\<rparr>"
    using empty_line_kept by (simp add: sb_SameAs_def sb_new_def c2)
  have run: "password_attempts ((shredded, shredded) # rest) (sb_new memory) ?t = Some (True, typed_secret memory, t3)" for rest
    unfolding password_attempts.simps Let_def r1 p1 t2_def [symmetric] using r2 same by simp
  have "Terminal_new sample_tty = Some (3, ?t)" by (simp add: Terminal_new_def sample_tty_def)
  with run show thesis
    by (intro that [of "Terminal_destroy 3 t3"]) (cases ms, simp add: GetPassword_def del: password_attempts.simps)
qed

lemma GetPassword_accepts_empty_confirmations_only_witness:
  "\<exists>pw t' l o1 a1 line1 o2 a2 line2 fd.
    GetPassword ((shredded, shredded), (shredded, shredded), (shredded, shredded)) (sb_new []) sample_tty = Some (True, pw, t') \<and>
    ty_log t' = l @ [Tty_write o1, Tty_read a1 line1, Tty_write o2, Tty_read a2 line2, Tty_close fd] \<and>
    chomp line1 = str ''secret'' \<and> set (chomp line2) \<subseteq> {0}"
proof -
  obtain t' where run: "GetPassword ((shredded, shredded), (shredded, shredded), (shredded, shredded)) (sb_new []) sample_tty = Some (True, typed_secret [], t')"
    by (rule sample_password)
  have "list_all (\<lambda>g. g = None) (ty_tcgetattr sample_tty)" by (simp add: sample_tty_def)
  from GetPassword_accepts_empty_confirmations_only [OF run this] obtain l o1 a1 line1 o2 a2 line2 fd where
    h: "ty_log t' = l @ [Tty_write o1, Tty_read a1 line1, Tty_write o2, Tty_read a2 line2, Tty_close fd]"
      "sb_content (typed_secret []) = chomp line1" "set (chomp line2) \<subseteq> {0}" by blast
  have "sb_content (typed_secret []) = str ''secret''" by (simp add: sb_content_def typed_secret_def)
  with run h show ?thesis by metis
qed


text \<open>What \<open>AddUser\<close> does once it has a password.\<close>

lemma cmd_AddUser_value:
  assumes lib: "bn_documented lib" "rc4_documented rl" "entropic 1 (ua_prng a)" and wr: "\<And>file data. wr file data = file @ data"
    and prime: "GetPrime lib (sr_index (ua_secret a)) = Some N" "GetGenerator (sr_index (ua_secret a)) = Some g"
    and onfile: "ua_udb a = udb_new" "ua_opens a = (True, Lock_ok, reads) # opens" "reads_ok reads"
      "read_bytes reads = concat (map user_line es)" "sm_ok es" "list_all (\<lambda>e. ValidUsername (fst e)) es"
    and name: "ValidUsername name" and got: "GetPassword (snd memories) (sb_new (fst memories)) (ua_tty a) = Some (True, password, t')"
  obtains stored secret refused added where
    "cmd_AddUser lib rl wr memories (name # args) a = Some (if sm_find es name = None then (True, added) else (False, refused))"
    "ua_file added = concat (map user_line (sm_set name stored es))"
    "FromSecret lib empty_reader stored \<lparr>sr_index = 0, sr_salt = [], sr_x = 0, sr_v = 0\<rparr> = Some (True, secret)"
    "length (sr_salt secret) = 16" "sr_v secret = g ^ srp_x lib name (sr_salt secret) password mod N"
proof -
  let ?i = "sr_index (ua_secret a)"
  have valid: "ValidIndex ?i" using prime(2) by (simp add: GetGenerator_def split: bind_splits)
  have N: "0 < N" "N < prime_limit" using GetPrime_bounds [OF lib(1) valid] prime(1) by auto
  obtain salt p' where salt: "Get rl (replicate kSaltLen 0) (ua_prng a) = Some (salt, p')" "length salt = 16"
    using Get_returns [OF lib(2), of 0 "ua_prng a" "replicate kSaltLen 0"] lib(3) by (auto simp: kSaltLen_def)
  let ?x = "srp_x lib name salt password"
  define s where "s = (ua_secret a)\<lparr>sr_salt := salt, sr_index := ?i, sr_x := ?x, sr_v := g ^ ?x mod N\<rparr>"
  have made: "FromPassword_new_salt lib rl name password (ua_prng a) (ua_secret a) = Some (True, s, p')"
    using FromPassword_values [OF lib(1) prime N(1), of name salt password "ua_secret a"] salt(1)
    by (simp add: FromPassword_new_salt_def s_def)
  have fresh: "fresh_reader empty_reader" using empty_reader_ok by (simp add: fresh_reader_def)
  have sec: "sr_v s < prime_limit" "4 \<le> length (sr_salt s)" "length (sr_salt s) \<le> 65535" "ValidIndex (sr_index s)"
    using N(2) mod_less_divisor [OF N(1), of "g ^ ?x"] salt(2) valid by (simp_all add: s_def)
  have zero: "sr_index \<lparr>sr_index = 0, sr_salt = [], sr_x = 0, sr_v = 0\<rparr> = 0" by simp
  obtain stored s' where stored: "ToSecret lib empty_reader s = Some stored"
    "FromSecret lib empty_reader stored \<lparr>sr_index = 0, sr_salt = [], sr_x = 0, sr_v = 0\<rparr> = Some (True, s')"
    "sr_index s' = sr_index s" "sr_salt s' = sr_salt s" "sr_v s' = sr_v s"
    by (rule secret_restored [OF lib(1) fresh sec(4,1-3) zero])
  have parsed: "ParseFd reads [] = (True, es)" by (rule user_file_parsed [OF onfile(5,6,3,4)])
  define a1 where "a1 = a\<lparr>ua_tty := t', ua_secret := s, ua_prng := p'\<rparr>"
  define a2 where "a2 = a1\<lparr>ua_opens := opens, ua_udb := \<lparr>udb_open = True, udb_users = es\<rparr>\<rparr>"
  have opened: "Session_open a1 = Some a2"
    using onfile(1,2) parsed by (simp add: Session_open_def a1_def a2_def udb_Open_def udb_new_def Let_def)
  let ?es = "sm_set name stored es"
  let ?added = "Session_close (a2\<lparr>ua_udb := \<lparr>udb_open = True, udb_users = ?es\<rparr>, ua_file := commit_entries wr ?es []\<rparr>)"
  have "cmd_AddUser lib rl wr memories (name # args) a =
      Some (if sm_find es name = None then (True, ?added) else (False, Session_close (a2\<lparr>ua_udb := ua_udb a2\<rparr>)))"
    using name by (simp add: cmd_AddUser_def got made stored(1) opened [unfolded a1_def] new_buffer_run AddUser_def Let_def
        commit_file_def Commit_def a2_def)
  moreover have "ua_file ?added = concat (map user_line ?es)"
    using commit_entries_lines [of wr ?es "[]"] wr by (simp add: Session_close_def)
  ultimately show thesis by (rule that [OF _ _ stored(2)]) (use stored(4,5) salt(2) in \<open>simp_all add: s_def\<close>)
qed

text \<open>C22. When \<open>uvpn-user add\<close> succeeds on a file that an earlier run left, the file holds the users it held and the new
  one; a server that then opens it finds the user's secret, and reads from it a salt of 16 bytes and the verifier of
  the password that was accepted.\<close>

theorem added_user_is_on_file:
  assumes lib: "bn_documented lib" "rc4_documented rl" "entropic 1 (ua_prng a)" and wr: "\<And>file data. wr file data = file @ data"
    and run: "cmd_AddUser lib rl wr memories (name # args) a = Some (True, a')"
    and prime: "GetPrime lib (sr_index (ua_secret a)) = Some N" "GetGenerator (sr_index (ua_secret a)) = Some g"
    and onfile: "ua_udb a = udb_new" "ua_opens a = (True, Lock_ok, reads) # opens" "reads_ok reads"
      "read_bytes reads = concat (map user_line es)" "sm_ok es" "list_all (\<lambda>e. ValidUsername (fst e)) es"
    and server: "sv_userdb sv = udb_new" "sv_opens sv = (True, Lock_ok, reads') # opens'" "reads_ok reads'" "read_bytes reads' = ua_file a'"
  shows "\<exists>password t' stored secret. GetPassword (snd memories) (sb_new (fst memories)) (ua_tty a) = Some (True, password, t') \<and>
    ParseFd reads' [] = (True, sm_set name stored es) \<and> sm_find es name = None \<and> on_file name stored sv \<and>
    FromSecret lib empty_reader stored \<lparr>sr_index = 0, sr_salt = [], sr_x = 0, sr_v = 0\<rparr> = Some (True, secret) \<and>
    length (sr_salt secret) = 16 \<and> sr_v secret = g ^ srp_x lib name (sr_salt secret) password mod N"
proof -
  have name: "ValidUsername name" using run by (simp add: cmd_AddUser_def split: if_splits)
  obtain ok password t' where got: "GetPassword (snd memories) (sb_new (fst memories)) (ua_tty a) = Some (ok, password, t')"
    using run name by (auto simp: cmd_AddUser_def split: bind_splits)
  have ok using run name by (cases ok) (simp_all add: cmd_AddUser_def got Let_def)
  note got = got [simplified this]
  obtain stored secret refused added where v:
    "cmd_AddUser lib rl wr memories (name # args) a = Some (if sm_find es name = None then (True, added) else (False, refused))"
    "ua_file added = concat (map user_line (sm_set name stored es))"
    "FromSecret lib empty_reader stored \<lparr>sr_index = 0, sr_salt = [], sr_x = 0, sr_v = 0\<rparr> = Some (True, secret)"
    "length (sr_salt secret) = 16" "sr_v secret = g ^ srp_x lib name (sr_salt secret) password mod N"
    by (rule cmd_AddUser_value [where wr = wr, OF lib wr prime onfile name got])
  have new: "sm_find es name = None" "added = a'" using v(1) run by (auto split: if_splits)
  let ?es = "sm_set name stored es"
  have valid_iff: "list_all (\<lambda>e. ValidUsername (fst e)) m \<longleftrightarrow> (\<forall>k\<in>fst ` set m. ValidUsername k)" for m :: "(bytes, bytes) std_map"
    by (simp add: list_all_iff)
  have "list_all (\<lambda>e. ValidUsername (fst e)) ?es" using onfile(6) name unfolding valid_iff by (simp add: sm_set_keys)
  with user_file_parsed [OF sm_set_ok [OF onfile(5)]] server(3,4) v(2) new(2)
  have reread: "ParseFd reads' [] = (True, ?es)" by simp
  then have "on_file name stored sv"
    unfolding on_file_def UserDbSession_open_def server(1,2)
    by (intro exI [of _ "\<lparr>udb_open = True, udb_users = ?es\<rparr>"] exI [of _ opens'])
      (simp add: udb_Open_def udb_new_def Let_def GetUser_def sm_find_set)
  with got reread new(1) v(3-5) show ?thesis by blast
qed


definition sample_admin :: "unit user_admin" where
  "sample_admin = \<lparr>ua_tty = sample_tty, ua_udb = udb_new, ua_file = [], ua_opens = [(True, Lock_ok, [])],
     ua_prng = \<lparr>pr_reseed = 1000, pr_key = (), pr_entropy = [Some (replicate kSeedSize 0)]\<rparr>,
     ua_secret = \<lparr>sr_index = 1, sr_salt = [], sr_x = 0, sr_v = 0\<rparr>, ua_output = []\<rparr>"

definition server_reading :: "bytes \<Rightarrow> (bytes, unit, reader, nat, unit) server" where
  "server_reading on_disk = \<lparr>hb_prng = ua_prng sample_admin, hb_sessions = [], hb_map = [[]], hb_deleted = [], hb_world = (),
     sv_auths = [], sv_userdb = udb_new, sv_opens = [(True, Lock_ok, [Read_data on_disk])]\<rparr>"

lemma added_user_is_on_file_witness:
  "\<exists>a' stored. cmd_AddUser concrete_bn one_rc4 (@) ([], (shredded, shredded), (shredded, shredded), (shredded, shredded)) [str ''bob''] sample_admin =
      Some (True, a') \<and> on_file (str ''bob'') stored (server_reading (ua_file a'))"
proof -
  let ?m = "([], (shredded, shredded), (shredded, shredded), (shredded, shredded)) :: memories"
  have valid: "ValidIndex 1" by (simp add: ValidIndex_def kValidPrimes_def)
  then obtain N where N: "GetPrime concrete_bn 1 = Some N" by (rule GetPrime_bounds [OF concrete_bn_documented])
  obtain g where g: "GetGenerator 1 = Some g" using valid by (simp add: GetGenerator_def)
  have prime: "GetPrime concrete_bn (sr_index (ua_secret sample_admin)) = Some N" "GetGenerator (sr_index (ua_secret sample_admin)) = Some g"
    using N g by (simp_all add: sample_admin_def)
  have lib: "bn_documented concrete_bn" "rc4_documented one_rc4" "entropic 1 (ua_prng sample_admin)"
    by (simp_all add: concrete_bn_documented rc4_documented_def one_rc4_def entropic_def sample_admin_def)
  have start: "ua_udb sample_admin = udb_new" "ua_opens sample_admin = (True, Lock_ok, []) # []" "reads_ok []"
    "read_bytes [] = concat (map user_line [])" "sm_ok ([] :: (bytes, bytes) std_map)" "list_all (\<lambda>e. ValidUsername (fst e)) ([] :: (bytes, bytes) std_map)"
    by (simp_all add: sample_admin_def sm_ok_def)
  have name: "ValidUsername (str ''bob'')" by (simp add: ValidUsername_def ch_colon_def ch_eol_def)
  obtain t' where got: "GetPassword (snd ?m) (sb_new (fst ?m)) (ua_tty sample_admin) = Some (True, typed_secret [], t')"
    using sample_password [of "((shredded, shredded), (shredded, shredded))" "[]"] by (auto simp: sample_admin_def)
  obtain stored added where run: "cmd_AddUser concrete_bn one_rc4 (@) ?m [str ''bob''] sample_admin = Some (True, added)"
    "ua_file added = concat (map user_line (sm_set (str ''bob'') stored []))"
    by (rule cmd_AddUser_value [where wr = "(@)" and args = "[]", OF lib _ prime start name got]) (simp_all add: sm_find_def)
  have "ua_file added \<noteq> []" by (simp add: run(2) user_line_def)
  then have server: "sv_userdb (server_reading (ua_file added)) = udb_new"
    "sv_opens (server_reading (ua_file added)) = (True, Lock_ok, [Read_data (ua_file added)]) # []"
    "reads_ok [Read_data (ua_file added)]" "read_bytes [Read_data (ua_file added)] = ua_file added"
    by (simp_all add: server_reading_def)
  from added_user_is_on_file [where wr = "(@)", OF lib _ run(1) prime start server] run(1) show ?thesis by auto
qed

end
