(* ===== verification/Digests.thy ===== *)
theory Digests
  imports BigNumber Hashing
begin

text \<open>
  The rest of \<open>src/src/openssl-helpers.h\<close> and \<open>.cc\<close>: the operations on big numbers that the exchange of keys does not
  need, and the objects that compute a digest or an authentication code piece by piece. \<open>Digest_SHA1\<close> and the parameter
  \<open>hmac\<close> of the other theories are what these objects return.
\<close>

section \<open>Big numbers\<close>

text \<open>The functions of OpenSSL that only these operations call. \<open>BN_dec2bn\<close> also returns the number of digits it read.\<close>

record bn_text_lib = bn_lib +
  BN_add :: "nat \<Rightarrow> nat \<Rightarrow> nat option"
  BN_mul :: "nat \<Rightarrow> nat \<Rightarrow> nat option"
  BN_dec2bn :: "bytes \<Rightarrow> nat \<times> nat"
  BN_bn2dec :: "nat \<Rightarrow> bytes"
  BN_bn2hex :: "nat \<Rightarrow> bytes"

definition Mod :: "'a bn_lib_scheme \<Rightarrow> nat \<Rightarrow> nat \<Rightarrow> nat option" where
  "Mod lib base m = BN_mod lib base m"

definition BigNumber_Add :: "bn_text_lib \<Rightarrow> nat \<Rightarrow> nat \<Rightarrow> nat option" where
  "BigNumber_Add lib add1 add2 = BN_add lib add1 add2"

definition Mul :: "bn_text_lib \<Rightarrow> nat \<Rightarrow> nat \<Rightarrow> nat option" where
  "Mul lib base mul = BN_mul lib base mul"

definition BigNumber_new :: nat where
  "BigNumber_new = 0"

definition IsZero :: "nat \<Rightarrow> bool" where
  "IsZero a \<longleftrightarrow> a = 0"

text \<open>\<open>BN_set_word\<close> takes an unsigned long: a negative int becomes a number close to \<open>2 ^ 64\<close>.\<close>

definition SetFromInt :: "32 word \<Rightarrow> nat" where
  "SetFromInt value = unat (scast value :: 64 word)"

definition SetFromAscii :: "bn_text_lib \<Rightarrow> bytes \<Rightarrow> bool \<times> nat" where
  "SetFromAscii lib value = (case BN_dec2bn lib value of (n, a) \<Rightarrow> (n = length value, a))"

text \<open>The buffer that is allocated and its size.\<close>

definition ExportAsBinary_new :: "'a bn_lib_scheme \<Rightarrow> nat \<Rightarrow> bytes \<times> nat" where
  "ExportAsBinary_new lib a = (BN_bn2bin lib a, BN_num_bytes lib a)"

definition ExportAsAscii :: "bn_text_lib \<Rightarrow> nat \<Rightarrow> bytes" where
  "ExportAsAscii lib a = BN_bn2dec lib a"

definition ExportAsHex :: "bn_text_lib \<Rightarrow> nat \<Rightarrow> bytes" where
  "ExportAsHex lib a = BN_bn2hex lib a"

section \<open>Digests\<close>

text \<open>A context of OpenSSL is \<open>'c\<close>; \<open>None\<close> and \<open>False\<close> are the error returns, which end the program.\<close>

record 'c md_lib =
  EVP_DigestInit_ex :: "'c option"
  EVP_DigestUpdate :: "'c \<Rightarrow> bytes \<Rightarrow> 'c option"
  EVP_DigestFinal_ex :: "'c \<Rightarrow> bytes"
  EVP_MD_CTX_cleanup :: "'c \<Rightarrow> bool"

definition Digest_new :: "'c md_lib \<Rightarrow> 'c option" where
  "Digest_new engine = EVP_DigestInit_ex engine"

definition Digest_destroy :: "'c md_lib \<Rightarrow> 'c \<Rightarrow> unit option" where
  "Digest_destroy engine ctx = fatal_unless (EVP_MD_CTX_cleanup engine ctx)"

definition Digest_Update :: "'c md_lib \<Rightarrow> 'c \<Rightarrow> bytes \<Rightarrow> 'c option" where
  "Digest_Update engine ctx value = EVP_DigestUpdate engine ctx value"

definition Digest_Get :: "'c md_lib \<Rightarrow> 'c \<Rightarrow> bytes" where
  "Digest_Get engine ctx = EVP_DigestFinal_ex engine ctx"

fun append_hex :: "bytes \<Rightarrow> bytes \<Rightarrow> bytes" where
  "append_hex [] retval = retval"
| "append_hex (c # digest) retval = append_hex digest (AppendCharToHex c retval)"

definition Digest_ToString :: "'c md_lib \<Rightarrow> 'c \<Rightarrow> bytes" where
  "Digest_ToString engine ctx = append_hex (Digest_Get engine ctx) []"

text \<open>A digest from its construction to its destruction, with the updates in between.\<close>

fun Digest_updates :: "'c md_lib \<Rightarrow> 'c \<Rightarrow> bytes list \<Rightarrow> 'c option" where
  "Digest_updates engine ctx [] = Some ctx"
| "Digest_updates engine ctx (value # values) = do {
     ctx \<leftarrow> Digest_Update engine ctx value;
     Digest_updates engine ctx values
   }"

definition Digest_of :: "'c md_lib \<Rightarrow> bytes list \<Rightarrow> bytes option" where
  "Digest_of engine values = do {
     ctx \<leftarrow> Digest_new engine;
     ctx \<leftarrow> Digest_updates engine ctx values;
     _ \<leftarrow> Digest_destroy engine ctx;
     Some (Digest_Get engine ctx)
   }"

section \<open>Authentication codes\<close>

text \<open>The results of \<open>HMAC_Init_ex\<close>, \<open>HMAC_Update\<close> and \<open>HMAC_Final\<close> are not looked at.\<close>

record 'c hmac_lib =
  HMAC_Init_ex :: "'c \<Rightarrow> bytes \<Rightarrow> 'c"
  HMAC_Update :: "'c \<Rightarrow> bytes \<Rightarrow> 'c"
  HMAC_Final :: "'c \<Rightarrow> bytes \<times> 'c"

definition Hmac_new :: "'c hmac_lib \<Rightarrow> 'c \<Rightarrow> bytes \<Rightarrow> 'c" where
  "Hmac_new engine ctx password = HMAC_Init_ex engine ctx password"

definition Hmac_Update :: "'c hmac_lib \<Rightarrow> 'c \<Rightarrow> bytes \<Rightarrow> 'c" where
  "Hmac_Update engine ctx data = HMAC_Update engine ctx data"

definition Hmac_Get :: "'c hmac_lib \<Rightarrow> 'c \<Rightarrow> bytes \<times> 'c" where
  "Hmac_Get engine ctx = HMAC_Final engine ctx"

definition Hmac_of :: "'c hmac_lib \<Rightarrow> 'c \<Rightarrow> bytes \<Rightarrow> bytes list \<Rightarrow> bytes \<times> 'c" where
  "Hmac_of engine ctx password values =
     Hmac_Get engine (foldl (Hmac_Update engine) (Hmac_new engine ctx password) values)"

text \<open>\<open>ComputeKey\<close>, with the one context that all its \<open>Hmac\<close> objects use.\<close>

fun rounds_with :: "'c hmac_lib \<Rightarrow> bytes \<Rightarrow> nat \<Rightarrow> bytes \<Rightarrow> bytes \<Rightarrow> 'c \<Rightarrow> bytes \<times> 'c" where
  "rounds_with engine pwd 0 hash key ctx = (key, ctx)"
| "rounds_with engine pwd (Suc j) hash key ctx =
     (let (hash, ctx) = Hmac_of engine ctx pwd [hash] in rounds_with engine pwd j hash (xor_bytes key hash) ctx)"

definition block_with :: "'c hmac_lib \<Rightarrow> bytes \<Rightarrow> bytes \<Rightarrow> nat \<Rightarrow> nat \<Rightarrow> 'c \<Rightarrow> bytes \<times> 'c" where
  "block_with engine pwd salt i cplen ctx =
     (let (hash, ctx) = Hmac_of engine ctx pwd [salt, be32 (of_nat i)]
      in rounds_with engine pwd (kPbkdfRounds - 1) hash (take cplen hash) ctx)"

function loop_with :: "'c hmac_lib \<Rightarrow> bytes \<Rightarrow> bytes \<Rightarrow> nat \<Rightarrow> nat \<Rightarrow> 'c \<Rightarrow> bytes" where
  "loop_with engine pwd salt i keylen ctx =
     (if keylen = 0 then []
      else let cplen = min kSHA1Length keylen; (key, ctx) = block_with engine pwd salt i cplen ctx
           in key @ loop_with engine pwd salt (i + 1) (keylen - cplen) ctx)"
  by pat_completeness auto
termination
  by (relation "measure (\<lambda>(engine, pwd, salt, i, keylen, ctx). keylen)") (auto simp: kSHA1Length_def)

declare loop_with.simps [simp del]

definition ComputeKey_with :: "'c hmac_lib \<Rightarrow> 'c \<Rightarrow> bytes \<Rightarrow> nat \<Rightarrow> static_buffer \<Rightarrow> bytes" where
  "ComputeKey_with engine ctx salt keylen pwd = loop_with engine (sb_content pwd) salt 1 keylen ctx"

section \<open>They are what the other theories take them to be\<close>

text \<open>What the manual says: a digest or a code is that of all the data of the updates, whatever the pieces.\<close>

definition digest_documented :: "'c md_lib \<Rightarrow> (bytes \<Rightarrow> bytes) \<Rightarrow> bool" where
  "digest_documented engine h \<longleftrightarrow>
     (\<exists>ctx. EVP_DigestInit_ex engine = Some ctx \<and>
       (\<forall>values. \<exists>ctx'. Digest_updates engine ctx values = Some ctx' \<and> EVP_DigestFinal_ex engine ctx' = h (concat values) \<and>
          EVP_MD_CTX_cleanup engine ctx'))"

definition hmac_documented :: "'c hmac_lib \<Rightarrow> (bytes \<Rightarrow> bytes \<Rightarrow> bytes) \<Rightarrow> bool" where
  "hmac_documented engine hmac \<longleftrightarrow> (\<forall>ctx pwd values. fst (Hmac_of engine ctx pwd values) = hmac pwd (concat values))"

lemma digest_of_pieces: "digest_documented engine (EVP_sha1 lib) \<Longrightarrow> Digest_of engine values = Some (Digest_SHA1 lib values)"
proof -
  assume doc: "digest_documented engine (EVP_sha1 lib)"
  then obtain ctx where ctx: "EVP_DigestInit_ex engine = Some ctx"
    "\<forall>values. \<exists>ctx'. Digest_updates engine ctx values = Some ctx' \<and> EVP_DigestFinal_ex engine ctx' = EVP_sha1 lib (concat values) \<and>
       EVP_MD_CTX_cleanup engine ctx'" unfolding digest_documented_def by blast
  then obtain ctx' where "Digest_updates engine ctx values = Some ctx'" "EVP_DigestFinal_ex engine ctx' = EVP_sha1 lib (concat values)"
    "EVP_MD_CTX_cleanup engine ctx'" by blast
  with ctx(1) show ?thesis
    by (simp add: Digest_of_def Digest_new_def Digest_destroy_def Digest_Get_def Digest_SHA1_def)
qed

lemma append_hex_is_hex_loop: "append_hex cs hex = hex_loop cs hex"
  by (induction cs arbitrary: hex) simp_all

lemma Digest_ToString_is_ConvertToHex: "Digest_ToString engine ctx = ConvertToHex (Digest_Get engine ctx)"
  by (simp add: Digest_ToString_def ConvertToHex_def append_hex_is_hex_loop)

lemma Hmac_of_pieces: "hmac_documented engine hmac \<Longrightarrow> \<exists>ctx'. Hmac_of engine ctx pwd values = (hmac pwd (concat values), ctx')"
  by (metis hmac_documented_def prod.collapse)

lemma rounds_with_hmac:
  assumes "hmac_documented engine hmac"
  shows "\<exists>ctx'. rounds_with engine pwd n hash key ctx = (pbkdf_rounds hmac pwd n hash key, ctx')"
proof (induction n arbitrary: hash key ctx)
  case (Suc n)
  obtain ctx1 where "Hmac_of engine ctx pwd [hash] = (hmac pwd hash, ctx1)"
    using Hmac_of_pieces [OF assms, of ctx pwd "[hash]"] by auto
  with Suc show ?case by (simp add: Let_def)
qed simp

lemma loop_with_hmac:
  assumes "hmac_documented engine hmac"
  shows "loop_with engine pwd salt i keylen ctx = pbkdf_loop hmac kPbkdfRounds pwd salt i keylen"
proof (induction keylen arbitrary: i ctx rule: less_induct)
  case (less keylen)
  show ?case
  proof (cases "keylen = 0")
    case False
    let ?n = "min kSHA1Length keylen"
    obtain ctx1 where "Hmac_of engine ctx pwd [salt, be32 (of_nat i)] = (hmac pwd (salt @ be32 (of_nat i)), ctx1)"
      using Hmac_of_pieces [OF assms, of ctx pwd "[salt, be32 (of_nat i)]"] by auto
    with rounds_with_hmac [OF assms] obtain ctx2 where "block_with engine pwd salt i ?n ctx = (pbkdf_block hmac kPbkdfRounds pwd salt i ?n, ctx2)"
      by (fastforce simp: block_with_def pbkdf_block_def Let_def)
    moreover have "keylen - ?n < keylen" using False by (simp add: kSHA1Length_def)
    ultimately show ?thesis using False less [of "keylen - ?n" "i + 1"]
      by (simp add: loop_with.simps [of _ _ _ _ keylen] pbkdf_loop.simps [of _ _ _ _ _ keylen] Let_def)
  qed (simp add: loop_with.simps pbkdf_loop.simps)
qed

lemma ComputeKey_with_hmac:
  "hmac_documented engine hmac \<Longrightarrow> ComputeKey_with engine ctx salt keylen pwd = ComputeKey hmac salt keylen pwd"
  by (simp add: ComputeKey_with_def ComputeKey_def loop_with_hmac)

end
