(* ===== verification/BlockCiphers.thy ===== *)
theory BlockCiphers
  imports Protectors CopiedCursors
begin

text \<open>
  The ciphers without OpenSSL's padding, as the stream transcoders use them: what has been given to a context decides
  what has come out of it, whole blocks at a time.
\<close>

section \<open>What OpenSSL promises of them\<close>

definition whole :: "nat \<Rightarrow> bytes \<Rightarrow> bytes" where
  "whole b m = take (length m div b * b) m"

lemma whole_simps [simp]: "whole b [] = []" "b dvd length m \<Longrightarrow> whole b m = m"
  by (simp_all add: whole_def)

lemma whole_length: "length (whole b m) = length m - length m mod b"
  by (simp add: whole_def minus_mod_eq_div_mult [symmetric])

lemma whole_dvd: "b dvd length (whole b m)"
  by (simp add: whole_length minus_mod_eq_div_mult)

text \<open>
  After any updates from the context \<open>x\<close>, the outputs are \<open>f\<close> of the whole blocks that were given, and \<open>P\<close> holds of
  the number of bytes given and the context.
\<close>

definition blockwise ::
    "('x \<Rightarrow> bytes \<Rightarrow> (bytes \<times> 'x) option) \<Rightarrow> nat \<Rightarrow> (bytes \<Rightarrow> bytes) \<Rightarrow> (nat \<Rightarrow> 'x \<Rightarrow> bool) \<Rightarrow> 'x \<Rightarrow> bool" where
  "blockwise up b f P x \<longleftrightarrow> (\<forall>cs. \<exists>x'. evp_updates up x cs = Some (f (whole b (concat cs)), x') \<and> P (length (concat cs)) x')"

definition encrypted_bytes :: "'x evp_lib \<Rightarrow> nat \<Rightarrow> 'x \<Rightarrow> bool" where
  "encrypted_bytes lib n x \<longleftrightarrow> (unat (EVP_CIPHER_block_size lib) dvd n \<longrightarrow> (\<exists>x'. EVP_EncryptFinal_ex lib x = Some ([], x')))"

definition decrypted_bytes :: "'x evp_lib \<Rightarrow> nat \<Rightarrow> 'x \<Rightarrow> bool" where
  "decrypted_bytes lib n x \<longleftrightarrow> unat (ctx_buf_len lib x) = n mod unat (EVP_CIPHER_block_size lib) \<and>
     (unat (EVP_CIPHER_block_size lib) dvd n \<longrightarrow> (\<exists>x'. EVP_DecryptFinal_ex lib x = Some ([], x')))"

text \<open>
  \<open>EVP_CIPHER_CTX_set_padding(ctx, 0)\<close>: an update writes the blocks that are complete, the context keeps the rest (its
  \<open>buf_len\<close>), and \<open>Final\<close> writes nothing and fails when a block is not complete.
\<close>

definition unpadded_documented :: "'x evp_lib \<Rightarrow> (bytes \<Rightarrow> bytes \<Rightarrow> bytes \<Rightarrow> bytes) \<Rightarrow> (bytes \<Rightarrow> bytes \<Rightarrow> bytes \<Rightarrow> bytes) \<Rightarrow> bool" where
  "unpadded_documented lib enc dec \<longleftrightarrow>
     (let block = EVP_CIPHER_block_size lib; b = unat block; ivlen = EVP_CIPHER_iv_length lib
      in 2 \<le> b \<and> b \<le> 32 \<and> block AND (block - 1) = 0 \<and>
        (\<forall>x key iv. length key = EVP_CIPHER_key_length lib \<and> ivlen \<le> length iv \<longrightarrow>
          (\<exists>x0. EVP_EncryptInit_ex lib x key iv = Some x0 \<and>
            blockwise (EVP_EncryptUpdate lib) b (enc key (take ivlen iv)) (encrypted_bytes lib) (EVP_CIPHER_CTX_set_padding lib False x0)) \<and>
          (\<exists>x0. EVP_DecryptInit_ex lib x key iv = Some x0 \<and>
            blockwise (EVP_DecryptUpdate lib) b (dec key (take ivlen iv)) (decrypted_bytes lib) (EVP_CIPHER_CTX_set_padding lib False x0))) \<and>
        (\<forall>key iv m. b dvd length m \<longrightarrow> length (enc key iv m) = length m \<and> length (dec key iv m) = length m \<and> dec key iv (enc key iv m) = m))"

definition ssl_unpadded ::
    "'x openssl \<Rightarrow> (bytes \<Rightarrow> bytes \<Rightarrow> bytes \<Rightarrow> bytes) \<Rightarrow> (bytes \<Rightarrow> bytes \<Rightarrow> bytes \<Rightarrow> bytes) \<Rightarrow>
     (bytes \<Rightarrow> bytes \<Rightarrow> bytes \<Rightarrow> bytes) \<Rightarrow> (bytes \<Rightarrow> bytes \<Rightarrow> bytes \<Rightarrow> bytes) \<Rightarrow> bool" where
  "ssl_unpadded ssl aes bf aes' bf' \<longleftrightarrow>
     unpadded_documented (kAES_256_CBC ssl) aes aes' \<and> unpadded_documented (kBF_CBC ssl) bf bf' \<and>
     EVP_CIPHER_key_length (kAES_256_CBC ssl) = kKeyLengthInBytes \<and> 0 < EVP_CIPHER_iv_length (kAES_256_CBC ssl) \<and>
     0 < EVP_CIPHER_iv_length (kBF_CBC ssl) \<and> EVP_CIPHER_iv_length (kBF_CBC ssl) \<le> EVP_CIPHER_key_length (kBF_CBC ssl)"

abbreviation block_of :: "'x openssl \<Rightarrow> protector_kind \<Rightarrow> nat" where
  "block_of ssl k \<equiv> unat (EVP_CIPHER_block_size (pt_cipher ssl k))"

lemma ssl_unpaddedD:
  assumes "ssl_unpadded ssl aes bf aes' bf'"
  shows "2 \<le> block_of ssl k" "block_of ssl k \<le> 32"
    "EVP_CIPHER_block_size (pt_cipher ssl k) AND (EVP_CIPHER_block_size (pt_cipher ssl k) - 1) = 0"
    "block_of ssl k dvd length m \<Longrightarrow> length (sealed ssl aes bf k salt m) = length m"
    "block_of ssl k dvd length m \<Longrightarrow> length (sealed ssl aes' bf' k salt m) = length m"
    "block_of ssl k dvd length m \<Longrightarrow> sealed ssl aes' bf' k salt (sealed ssl aes bf k salt m) = m"
    "0 < prefix_length ssl k"
  using assms by (cases k; auto simp: ssl_unpadded_def unpadded_documented_def Let_def)+

section \<open>A context in use\<close>

text \<open>The context after \<open>fed\<close> was given to it.\<close>

definition fed_to ::
    "('x \<Rightarrow> bytes \<Rightarrow> (bytes \<times> 'x) option) \<Rightarrow> nat \<Rightarrow> (bytes \<Rightarrow> bytes) \<Rightarrow> (nat \<Rightarrow> 'x \<Rightarrow> bool) \<Rightarrow> bytes \<Rightarrow> 'x \<Rightarrow> bool" where
  "fed_to up b f P fed x \<longleftrightarrow>
     (\<exists>x0 cs out. blockwise up b f P x0 \<and> evp_updates up x0 cs = Some (out, x) \<and> concat cs = fed)"

lemma evp_updates_append:
  "evp_updates up x (cs @ ds) = do {
     (out, x) \<leftarrow> evp_updates up x cs;
     (outs, x) \<leftarrow> evp_updates up x ds;
     Some (out @ outs, x)
   }"
proof (induction cs arbitrary: x)
  case Nil
  then show ?case by (cases "evp_updates up x ds") auto
next
  case (Cons c cs)
  then show ?case by (auto split: bind_split)
qed

lemma fed_to_start: "blockwise up b f P x \<Longrightarrow> fed_to up b f P [] x"
  unfolding fed_to_def by (intro exI [of _ x] exI [of _ "[]"] exI [of _ "[]"]) simp

lemma fed_to_facts: "fed_to up b f P fed x \<Longrightarrow> P (length fed) x"
  unfolding fed_to_def blockwise_def by (metis Pair_inject option.inject)

lemma fed_to_updates:
  assumes "fed_to up b f P fed x"
  obtains out x' where "evp_updates up x cs = Some (out, x')" "f (whole b fed) @ out = f (whole b (fed @ concat cs))"
    "fed_to up b f P (fed @ concat cs) x'"
proof -
  obtain x0 cs0 out0 where x0: "blockwise up b f P x0" "evp_updates up x0 cs0 = Some (out0, x)" "concat cs0 = fed"
    using assms unfolding fed_to_def by blast
  obtain x' where all: "evp_updates up x0 (cs0 @ cs) = Some (f (whole b (concat (cs0 @ cs))), x')"
    using x0(1) unfolding blockwise_def by blast
  have "out0 = f (whole b fed)" using x0 unfolding blockwise_def by (metis Pair_inject option.inject)
  moreover obtain out where "evp_updates up x cs = Some (out, x')" "out0 @ out = f (whole b (fed @ concat cs))"
    using all x0(2,3) by (auto simp: evp_updates_append split: bind_splits)
  moreover have "fed_to up b f P (fed @ concat cs) x'"
    unfolding fed_to_def using x0(1,3) all by (intro exI [of _ x0] exI [of _ "cs0 @ cs"]) auto
  ultimately show thesis using that by simp
qed

lemma fed_to_update:
  assumes "fed_to up b f P fed x"
  obtains out x' where "up x c = Some (out, x')" "f (whole b fed) @ out = f (whole b (fed @ c))" "fed_to up b f P (fed @ c) x'"
proof -
  obtain out x' where "evp_updates up x [c] = Some (out, x')" "f (whole b fed) @ out = f (whole b (fed @ concat [c]))"
    "fed_to up b f P (fed @ concat [c]) x'" by (rule fed_to_updates [OF assms])
  then show thesis by (intro that) (auto split: bind_splits)
qed

section \<open>Rounding\<close>

lemma power_of_two_block:
  assumes "(w :: u32) AND (w - 1) = 0" "2 \<le> unat w" "unat w \<le> 32"
  obtains k where "w = 2 ^ k" "1 \<le> k" "k \<le> 5"
proof -
  have "unat w \<in> set [2..<33]" unfolding set_upt using assms(2,3) by (auto simp del: upt_rec_numeral)
  then have "w \<in> of_nat ` set [2..<33]" by (rule image_eqI [rotated]) simp
  then have "w \<in> {2, 3, 4, 5, 6, 7, 8, 9, 10, 11, 12, 13, 14, 15, 16, 17, 18, 19, 20, 21, 22, 23, 24, 25, 26, 27, 28, 29, 30, 31, 32}"
    by (simp only: upt_rec_numeral list.set image_insert image_empty of_nat_numeral) simp
  with assms(1) have "w = 2 \<or> w = 4 \<or> w = 8 \<or> w = 16 \<or> w = 32" by auto
  then have "w = 2 ^ 1 \<or> w = 2 ^ 2 \<or> w = 2 ^ 3 \<or> w = 2 ^ 4 \<or> w = 2 ^ 5" by simp
  then show thesis using that by fastforce
qed

lemma and_not_mask: "unat ((w :: u32) AND NOT (mask k)) = unat w div 2 ^ k * 2 ^ k"
proof -
  have "w AND NOT (mask k) = push_bit k (drop_bit k w)" by (rule bit_word_eqI) (auto simp: bit_simps)
  moreover have "unat (push_bit k (drop_bit k w)) = unat w div 2 ^ k * 2 ^ k"
  proof -
    have le: "unat w div 2 ^ k * 2 ^ k \<le> unat w" by (rule div_times_less_eq_dividend)
    have "unat w < 2 ^ 32" using unsigned_less [of w] by simp
    with le have "unat w div 2 ^ k * 2 ^ k < 2 ^ 32" by linarith
    moreover have "unat (push_bit k (drop_bit k w)) = take_bit 32 (push_bit k (drop_bit k (unat w)))"
      using \<open>unat w < 2 ^ 32\<close> by (simp only: unsigned_push_bit_eq unsigned_drop_bit_eq) (simp add: take_bit_nat_eq_self)
    ultimately show ?thesis by (simp only: drop_bit_eq_div push_bit_eq_mult) (simp add: take_bit_nat_eq_self)
  qed
  ultimately show ?thesis by simp
qed

text \<open>The size of the blocks that hold \<open>n\<close> bytes.\<close>

definition blocks :: "nat \<Rightarrow> nat \<Rightarrow> nat" where
  "blocks b n = (n + b - 1) div b * b"

lemma unat_round_up:
  assumes "EVP_CIPHER_block_size lib AND (EVP_CIPHER_block_size lib - 1) = 0" "2 \<le> unat (EVP_CIPHER_block_size lib)"
    "unat (EVP_CIPHER_block_size lib) \<le> 32" "n + 32 < 2 ^ 32"
  shows "unat (round_up lib (of_nat n)) = blocks (unat (EVP_CIPHER_block_size lib)) n"
proof -
  obtain k where k: "EVP_CIPHER_block_size lib = 2 ^ k" "1 \<le> k" "k \<le> 5" by (rule power_of_two_block [OF assms(1-3)])
  have small: "(2 :: nat) ^ k \<le> 2 ^ 5" by (rule power_increasing) (use k(3) in simp_all)
  have b: "unat (EVP_CIPHER_block_size lib) = 2 ^ k" proof -
    have "unat (of_nat (2 ^ k) :: u32) = 2 ^ k" using small by (simp only: unat_of_nat) (simp add: take_bit_nat_eq_self)
    then show ?thesis by (simp add: k(1))
  qed
  have mask: "EVP_CIPHER_block_size lib - 1 = mask k" by (simp add: k(1) mask_eq_exp_minus_1)
  have "of_nat n + EVP_CIPHER_block_size lib - 1 = (of_nat (n + (2 ^ k - 1)) :: u32)" 
    by (simp only: k(1) of_nat_add of_nat_diff [OF one_le_power] of_nat_power of_nat_numeral of_nat_1) simp
  moreover have "n + (2 ^ k - 1) < 2 ^ 32" using assms(4) small by simp
  ultimately have "unat (of_nat n + EVP_CIPHER_block_size lib - 1) = n + (2 ^ k - 1)"
    by (simp add: unat_of_nat take_bit_nat_eq_self del: of_nat_add)
  then show ?thesis unfolding round_up_def mask and_not_mask b blocks_def by simp
qed


section \<open>Memory that is written to\<close>

text \<open>Room that was reserved may be left in the last chunk.\<close>

definition open_out :: "cursor list \<Rightarrow> chunkset \<Rightarrow> bool" where
  "open_out curs d \<longleftrightarrow> buf_inv d curs \<and> gap_free (cs_chunks d)"

definition poured :: "cursor list \<Rightarrow> chunkset \<Rightarrow> bytes \<Rightarrow> chunkset \<Rightarrow> bool" where
  "poured curs d bs d' \<longleftrightarrow> open_out curs d' \<and> grows d bs d'"

lemma poured_trans: "poured curs d bs d' \<Longrightarrow> poured curs d' bs' d'' \<Longrightarrow> poured curs d (bs @ bs') d''"
  using grows_trans by (auto simp: poured_def)

lemma poured_unread: "poured curs d bs d' \<Longrightarrow> buf_inv d curs \<Longrightarrow> c \<in> set curs \<Longrightarrow> unread d' c = unread d c @ bs"
  by (auto simp: poured_def intro: grows_cursor(2) buf_inv_cur_ok)

lemma reserve_open:
  assumes "open_out curs d" "n \<le> kRoundedSize"
  shows "poured curs d [] (ic_reserve d n)"
  using reserve_grows [of d curs n] assms by (simp add: poured_def open_out_def)

lemma commit_open:
  assumes "open_out curs d" "length bs \<le> ic_contiguous d" "cs_chunks d \<noteq> []"
  obtains d' where "ic_commit d bs = Some d'" "poured curs d bs d'" "cs_chunks d' \<noteq> []" "ic_contiguous d' = ic_contiguous d - length bs"
proof -
  have inv: "buf_inv d curs" "gap_free (cs_chunks d)" using assms(1) by (simp_all add: open_out_def)
  then have chain: "chain_inv d (map oc_prev curs)" by (simp add: buf_inv_def)
  obtain d' where "ic_commit d bs = Some d'" "chain_inv d' (map oc_prev curs)" "grows d bs d'"
    "gap_free (cs_chunks d') = gap_free (cs_chunks d)" "cs_chunks d' \<noteq> []" "ic_contiguous d' = ic_contiguous d - length bs"
    by (rule commit_grows [OF chain assms(2,3)])
  with inv buf_inv_grows [OF inv(1)] show thesis by (intro that) (simp_all add: poured_def open_out_def)
qed

lemma reserve_chunks: "0 < n \<Longrightarrow> cs_chunks (ic_reserve d n) \<noteq> []"
  using reserve_room [of n d] by (auto simp: ic_contiguous_def)

section \<open>A step of the decoder\<close>

lemma blocks_bounds:
  assumes "0 < b" "0 < n"
  shows "b dvd blocks b n" "n \<le> blocks b n" "blocks b n < n + b" "b \<le> blocks b n"
proof -
  show "b dvd blocks b n" by (simp add: blocks_def)
  have eq: "blocks b n = n + b - 1 - (n + b - 1) mod b"
    unfolding blocks_def by (simp add: minus_mod_eq_div_mult)
  have "(n + b - 1) mod b < b" using assms(1) by simp
  then show "n \<le> blocks b n" "blocks b n < n + b" using assms unfolding eq by linarith+
  with assms \<open>b dvd blocks b n\<close> show "b \<le> blocks b n" by (auto dest: dvd_imp_le)
qed

lemma Decoder_Continue_piece:
  fixes lib :: "'x evp_lib"
  defines "b \<equiv> unat (EVP_CIPHER_block_size lib)"
  assumes lib: "EVP_CIPHER_block_size lib AND (EVP_CIPHER_block_size lib - 1) = 0" "2 \<le> b" "b \<le> 32"
    and fed: "fed_to (EVP_DecryptUpdate lib) b D (decrypted_bytes lib) fed x" and D: "\<And>m. b dvd length m \<Longrightarrow> length (D m) = length m"
    and src: "used [] [] (s, cur)" "in_last (s, cur)" "reader_contents (s, cur) = e" "length e + 64 \<le> kRoundedSize"
    and until: "0 < until" "until + 64 < 2 ^ 32" and d: "open_out curs d"
    and t: "t = min (blocks b until - length fed mod b) (length e)"
  obtains s' cur' d' x' out where "Decoder_Continue lib (of_nat until) (s, cur) d x = Some (SUCCEEDED, (s', cur'), d', x')"
    "used [] [] (s', cur')" "in_last (s', cur')" "reader_contents (s', cur') = drop t e"
    "fed_to (EVP_DecryptUpdate lib) b D (decrypted_bytes lib) (fed @ take t e) x'"
    "D (whole b fed) @ out = D (whole b (fed @ take t e))" "poured curs d out d'"
proof -
  let ?n = "length e" and ?U = "blocks b until" and ?h = "length fed mod b"
  have r: "readable s cur []" "oc_limited cur = None" "all_used (cs_chunks s)" "unread s cur = e"
    using src(1,3) by (simp_all add: used_def reader_ok_def reader_contents_def)
  have left: "oc_left s cur = Some ?n" using left_size [of s cur "[]"] r by (simp add: readable_def)
  have U: "unat (round_up lib (of_nat until)) = ?U" using unat_round_up [OF lib(1), of until] lib(2,3) until(2) by (simp add: b_def)
  have pos: "0 < b" using lib(2) by simp
  note bounds = blocks_bounds [OF pos until(1)]
  have h: "?h < b" "unat (ctx_buf_len lib x) = ?h"
    using fed_to_facts [OF fed] pos by (simp_all add: decrypted_bytes_def b_def)
  have "?n + 32 < 2 ^ 32" "EVP_CIPHER_block_size lib \<le> 32" using src(4) lib(3) by (simp_all add: kRoundedSize_def b_def word_le_nat_alt)
  from room_for_left [OF this(2,1)] have room: "room_for lib ?n = ?n + b" by (simp add: b_def)
  have fits: "?n + b \<le> kRoundedSize" using src(4) lib(3) by simp
  let ?d = "ic_reserve d (?n + b)"
  note reserved = reserve_open [OF d fits]
  have chunks: "cs_chunks ?d \<noteq> []" using pos by (intro reserve_chunks) simp
  have run: "Decoder_Continue lib (of_nat until) (s, cur) d x = decrypt_loop lib (round_up lib (of_nat until)) (ctx_buf_len lib x) (s, cur) ?d x"
    using lib(1) left room by (simp add: Decoder_Continue_def)
  have U0: "round_up lib (of_nat until) \<noteq> 0" using U bounds(4) pos by (auto simp: unat_eq_zero)
  show thesis
  proof (cases "e = []")
    case True
    then have "decrypt_loop lib (round_up lib (of_nat until)) (ctx_buf_len lib x) (s, cur) ?d x = Some (SUCCEEDED, (s, cur), ?d, x)"
      using left by (subst decrypt_loop.simps) simp
    with run show thesis using True t src(1-3) fed reserved
      by (intro that [of s cur ?d x "[]"]) simp_all
  next
    case False
    have more: "\<not> (round_up lib (of_nat until) \<noteq> 0 \<and> round_up lib (of_nat until) \<le> ctx_buf_len lib x)"
      using h bounds(4) U by (simp add: word_le_nat_alt)
    have piece: "oc_data s cur = Some e" "oc_contiguous s cur = Some ?n"
      using in_one_piece [OF r(1) src(2)] r(4) by simp_all
    have "unat (round_up lib (of_nat until) - ctx_buf_len lib x) = ?U - ?h"
      using U h bounds(4) by (simp add: unat_sub word_le_nat_alt)
    then have todo: "min (unat (round_up lib (of_nat until) - ctx_buf_len lib x)) ?n = t" by (simp add: t)
    obtain out x' where out: "EVP_DecryptUpdate lib x (take t e) = Some (out, x')"
      "D (whole b fed) @ out = D (whole b (fed @ take t e))"
      "fed_to (EVP_DecryptUpdate lib) b D (decrypted_bytes lib) (fed @ take t e) x'"
      by (rule fed_to_update [OF fed])
    have t_le: "t \<le> ?n" by (simp add: t)
    have "length (D (whole b fed)) + length out = length (D (whole b (fed @ take t e)))"
      using out(2) by (metis length_append)
    then have out_len: "length fed - ?h + length out = length fed + t - (length fed + t) mod b"
      using t_le by (simp add: D whole_dvd whole_length min_absorb2)
    have "length fed - ?h + ?h = length fed" by simp
    then have out_room: "length out \<le> ?n + b" using out_len t_le h(1) by linarith
    have "t \<le> length (unread s cur)" "within_limit cur t" using r(2,4) t_le by (simp_all add: within_limit_def)
    from increment_in_last [OF r(1) this src(2)] obtain s' cur' where
      inc: "oc_increment s cur t = Some (s', cur')" "advanced s cur [] t s' cur'" "in_last (s', cur')" .
    have src': "used [] [] (s', cur')" "reader_contents (s', cur') = drop t e"
      using inc(2) r by (auto simp: used_def reader_ok_def readable_def advanced_def reader_contents_def)
    have "open_out curs ?d" using reserved by (simp add: poured_def)
    moreover have "length out \<le> ic_contiguous ?d" by (rule order_trans [OF out_room reserve_room])
    ultimately obtain d' where d': "ic_commit ?d out = Some d'" "poured curs ?d out d'"
      by (rule commit_open [OF _ _ chunks])
    have first: "decrypt_loop lib (round_up lib (of_nat until)) (ctx_buf_len lib x) (s, cur) ?d x =
        decrypt_loop lib (round_up lib (of_nat until)) (ctx_buf_len lib x + of_nat (length out)) (s', cur') d' x'"
      using left False more piece U0 todo out(1) inc(1) d'(1) by (subst decrypt_loop.simps) simp
    have left': "oc_left s' cur' = Some (?n - t)"
      using left_size [of s' cur' "[]"] src' by (simp add: used_def reader_ok_def readable_def reader_contents_def)
    have stop: "?n - t = 0 \<or> round_up lib (of_nat until) \<le> ctx_buf_len lib x + of_nat (length out)"
    proof (cases "t = ?n")
      case False
      then have t_eq: "t = ?U - ?h" using t by simp
      then have "length fed + t = length fed - ?h + ?U" using bounds(4) h(1) \<open>length fed - ?h + ?h = length fed\<close> by linarith
      then have "(length fed + t) mod b = 0" using bounds(1) by (simp add: minus_mod_eq_div_mult mod_add_left_eq dvd_add)
      then have out_U: "length out = ?U" using out_len t_eq bounds(4) h(1) \<open>length fed - ?h + ?h = length fed\<close> by linarith
      have "?U + ?h < 2 ^ 32" using bounds(3) h(1) until(2) lib(3) by linarith
      then have "unat (ctx_buf_len lib x + of_nat (length out)) = ?h + ?U"
        using h(2) by (simp add: out_U unat_add_lem [THEN iffD1] unat_of_nat take_bit_nat_eq_self)
      then show ?thesis using U by (simp add: word_le_nat_alt)
    qed simp
    then have "decrypt_loop lib (round_up lib (of_nat until)) (ctx_buf_len lib x + of_nat (length out)) (s', cur') d' x' =
        Some (SUCCEEDED, (s', cur'), d', x')"
      using left' U0 by (subst decrypt_loop.simps) auto
    with run first have "Decoder_Continue lib (of_nat until) (s, cur) d x = Some (SUCCEEDED, (s', cur'), d', x')" by simp
    then show thesis by (rule that [OF _ src'(1) inc(3) src'(2) out(3,2)]) (use poured_trans [OF reserved d'(2)] in simp)
  qed
qed


section \<open>A protector starts\<close>

lemma unpadded_starts:
  assumes "unpadded_documented lib enc dec" "length key = EVP_CIPHER_key_length lib" "EVP_CIPHER_iv_length lib \<le> length iv"
  obtains x0 x1 where "Encoder_Start lib key iv NoPadding x = (True, x0)"
    "fed_to (EVP_EncryptUpdate lib) (unat (EVP_CIPHER_block_size lib)) (enc key (take (EVP_CIPHER_iv_length lib) iv)) (encrypted_bytes lib) [] x0"
    "Decoder_Start lib key iv NoPadding x = (SUCCEEDED, x1)"
    "fed_to (EVP_DecryptUpdate lib) (unat (EVP_CIPHER_block_size lib)) (dec key (take (EVP_CIPHER_iv_length lib) iv)) (decrypted_bytes lib) [] x1"
proof -
  obtain e d where "EVP_EncryptInit_ex lib x key iv = Some e" "EVP_DecryptInit_ex lib x key iv = Some d"
    "blockwise (EVP_EncryptUpdate lib) (unat (EVP_CIPHER_block_size lib)) (enc key (take (EVP_CIPHER_iv_length lib) iv)) (encrypted_bytes lib)
      (EVP_CIPHER_CTX_set_padding lib False e)"
    "blockwise (EVP_DecryptUpdate lib) (unat (EVP_CIPHER_block_size lib)) (dec key (take (EVP_CIPHER_iv_length lib) iv)) (decrypted_bytes lib)
      (EVP_CIPHER_CTX_set_padding lib False d)"
    using assms unfolding unpadded_documented_def Let_def by metis
  then show thesis
    by (intro that [of "EVP_CIPHER_CTX_set_padding lib False e" "EVP_CIPHER_CTX_set_padding lib False d"] fed_to_start)
      (simp_all add: Encoder_Start_def Decoder_Start_def)
qed

abbreviation deciphers where
  "deciphers ssl aes' bf' k salt fed x \<equiv>
     fed_to (EVP_DecryptUpdate (pt_cipher ssl k)) (block_of ssl k) (sealed ssl aes' bf' k salt) (decrypted_bytes (pt_cipher ssl k)) fed x"

abbreviation enciphers where
  "enciphers ssl aes bf k salt fed x \<equiv>
     fed_to (EVP_EncryptUpdate (pt_cipher ssl k)) (block_of ssl k) (sealed ssl aes bf k salt) (encrypted_bytes (pt_cipher ssl k)) fed x"

lemma decoder_waits:
  assumes "used others vs r" "length (reader_contents r) < prefix_length ssl (pt_kind pt)"
  obtains r' where "decoder_Start ssl r NoPadding pt = Some (MORE_DATA_REQUIRED, r', pt)" "used others vs r'"
proof -
  obtain r' where "reader_consume r (prefix_length ssl (pt_kind pt)) = Some (reader_contents r, r')" "used others vs r'"
    using used_source.consume_takes [OF assms(1), of "prefix_length ssl (pt_kind pt)"] assms(2) by auto
  with assms(2) show thesis
    by (intro that [of r'])
      (cases "pt_kind pt"; simp add: decoder_Start_def AesDecoder_Start_def ScrambleDecoder_Start_def)+
qed

lemma decoder_starts_unpadded:
  assumes doc: "ssl_unpadded ssl aes bf aes' bf'" "kind_ok (pt_kind pt)"
    and r: "used others vs r" "reader_contents r = salt @ rest" "length salt = prefix_length ssl (pt_kind pt)"
  obtains r' x where "decoder_Start ssl r NoPadding pt = Some (SUCCEEDED, r', pt\<lparr>pt_ctx := x\<rparr>)" "used others vs r'"
    "reader_contents r' = rest" "data_left (fst r) (fst r')" "deciphers ssl aes' bf' (pt_kind pt) salt [] x"
proof -
  obtain r' where r': "reader_consume r (prefix_length ssl (pt_kind pt)) = Some (salt, r')" "used others vs r'" "reader_contents r' = rest"
    using used_source.consume_takes [OF r(1), of "prefix_length ssl (pt_kind pt)"] r(2,3) by auto
  have left: "data_left (fst r) (fst r')"
    using r'(1) consume_data_left [of "fst r" "snd r"] by (cases r') (auto simp: reader_consume_def)
  show thesis
  proof (cases "pt_kind pt")
    case (AesSession key)
    have "unpadded_documented (kAES_256_CBC ssl) aes aes'" "length key = EVP_CIPHER_key_length (kAES_256_CBC ssl)"
      "EVP_CIPHER_iv_length (kAES_256_CBC ssl) \<le> length salt"
      using doc r(3) AesSession by (simp_all add: ssl_unpadded_def)
    from unpadded_starts [OF this] obtain x1 where "Decoder_Start (kAES_256_CBC ssl) key salt NoPadding (pt_ctx pt) = (SUCCEEDED, x1)"
      "fed_to (EVP_DecryptUpdate (kAES_256_CBC ssl)) (unat (EVP_CIPHER_block_size (kAES_256_CBC ssl)))
        (aes' key (take (EVP_CIPHER_iv_length (kAES_256_CBC ssl)) salt)) (decrypted_bytes (kAES_256_CBC ssl)) [] x1" by metis
    moreover have "sealed ssl aes' bf' (AesSession key) salt = aes' key salt" by (rule ext) simp
    ultimately show thesis using r' left r(3) AesSession
      by (intro that [of r' x1]) (simp_all add: decoder_Start_def AesDecoder_Start_def)
  next
    case ScrambleSession
    have "unpadded_documented (kBF_CBC ssl) bf bf'" "length salt = EVP_CIPHER_key_length (kBF_CBC ssl)"
      "EVP_CIPHER_iv_length (kBF_CBC ssl) \<le> length salt"
      using doc r(3) ScrambleSession by (simp_all add: ssl_unpadded_def)
    from unpadded_starts [OF this] obtain x1 where "Decoder_Start (kBF_CBC ssl) salt salt NoPadding (pt_ctx pt) = (SUCCEEDED, x1)"
      "fed_to (EVP_DecryptUpdate (kBF_CBC ssl)) (unat (EVP_CIPHER_block_size (kBF_CBC ssl)))
        (bf' salt (take (EVP_CIPHER_iv_length (kBF_CBC ssl)) salt)) (decrypted_bytes (kBF_CBC ssl)) [] x1" by metis
    moreover have "sealed ssl aes' bf' ScrambleSession salt = bf' salt (take (EVP_CIPHER_iv_length (kBF_CBC ssl)) salt)" by (rule ext) simp
    ultimately show thesis using r' left r(3) ScrambleSession
      by (intro that [of r' x1]) (simp_all add: decoder_Start_def ScrambleDecoder_Start_def)
  qed
qed


end
