(* ===== verification/TcpEndpoints.thy ===== *)
theory TcpEndpoints
  imports TcpTranscoders BlockCiphers Streams
begin

text \<open>
  What a connection of \<open>TcpTranscoders\<close> does with the bytes that have arrived, step by step: the locale \<open>tcp_endpoint\<close>
  says where a connection and the decoder of its session are, and is interpreted on the clients and the servers.
\<close>

section \<open>Where the connection is\<close>

lemma world_simps [simp]:
  "session_at p (s\<lparr>hb_world := n\<rparr>) = session_at p s" "session_at p (s\<lparr>hb_prng := g\<rparr>) = session_at p s"
  by (simp_all add: session_at_def)

locale tcp_endpoint =
  fixes side :: "('n, ('x, 'k, 'n, 'h, 'w, 'e) tcp_hub) tcp_side"
    and p :: nat
    and fit :: "('x, 'k, 'n, 'h, 'w, 'e) tcp_hub \<Rightarrow> bool"
  assumes fit_session: "fit s \<Longrightarrow> p < length (hb_sessions s)"
    and get_put: "fit s \<Longrightarrow> ts_get side (ts_put side c s) = c"
    and put_fit: "fit s \<Longrightarrow> fit (ts_put side c s)"
    and put_others: "fit s \<Longrightarrow> hb_map (ts_put side c s) = hb_map s" "fit s \<Longrightarrow> ts_net side (ts_put side c s) = ts_net side s"
      "fit s \<Longrightarrow> se_decoder (session_at p (ts_put side c s)) = se_decoder (session_at p s)"
      "fit s \<Longrightarrow> se_read_callback (session_at p (ts_put side c s)) = se_read_callback (session_at p s)"
    and decoder_fit: "fit s \<Longrightarrow> fit (SetDecoder p d s)"
    and decoder_others: "fit s \<Longrightarrow> ts_get side (SetDecoder p d s) = ts_get side s"
      "fit s \<Longrightarrow> ts_net side (SetDecoder p d s) = ts_net side s"
    and net_fit: "fit s \<Longrightarrow> fit (ts_put_net side n s)"
    and net_others: "fit s \<Longrightarrow> ts_net side (ts_put_net side n s) = n" "fit s \<Longrightarrow> ts_get side (ts_put_net side n s) = ts_get side s"
      "hb_sessions (ts_put_net side n s) = hb_sessions s" "hb_map (ts_put_net side n s) = hb_map s"

interpretation tcp_clients: tcp_endpoint "client_side p" p "\<lambda>cl. p < length (hb_sessions cl)" for p
  by unfold_locales (simp_all add: client_side_def SetDecoder_def)

text \<open>The connection \<open>i\<close> of the server is that of the session \<open>p\<close>.\<close>

definition serves :: "nat \<Rightarrow> nat \<Rightarrow> ('x, 'k, 'n tcp_connection, 'h, 'n tcp_server) server \<Rightarrow> bool" where
  "serves i p sv \<longleftrightarrow> p < length (hb_sessions sv) \<and> i < length (tr_connections (hb_world sv)) \<and> tr_connections (hb_world sv) ! i = Inr p"

interpretation tcp_servers: tcp_endpoint "server_side i" p "serves i p" for i p
  by unfold_locales (simp_all add: server_side_def SetDecoder_def serves_def get_connection_def put_connection_def)

section \<open>What it holds\<close>

text \<open>The encrypted bytes that are left: all but the first \<open>n\<close> of them are in the last chunk.\<close>

definition source :: "nat \<Rightarrow> bytes \<Rightarrow> 'n tcp_connection \<Rightarrow> bool" where
  "source n e c \<longleftrightarrow> used [] [] (tc_in_encrypted c) \<and> reader_contents (tc_in_encrypted c) = e \<and>
     length e \<le> n + length (last_data (fst (tc_in_encrypted c)))"

text \<open>What has been decrypted; \<open>xs\<close> are the copies of the cursor.\<close>

definition sink :: "cursor list \<Rightarrow> bytes \<Rightarrow> 'n tcp_connection \<Rightarrow> bool" where
  "sink xs bs c \<longleftrightarrow> open_out (snd (tc_in_cleartext c) # xs) (fst (tc_in_cleartext c)) \<and> reader_contents (tc_in_cleartext c) = bs \<and>
     oc_limited (snd (tc_in_cleartext c)) = None"

lemma source_in_last: "source 0 e c \<Longrightarrow> in_last (tc_in_encrypted c)"
  by (simp add: source_def in_last_def)

lemma source_mono: "source 0 e c \<Longrightarrow> source n e c"
  by (simp add: source_def)

text \<open>The session of the connection is in the manager's table, and has a decoder of the kind \<open>k\<close> and the handler \<open>h\<close>.\<close>

definition steady ::
    "('n, ('x, 'k, 'n, 'h, 'w, 'e) tcp_hub) tcp_side \<Rightarrow> nat \<Rightarrow> (('x, 'k, 'n, 'h, 'w, 'e) tcp_hub \<Rightarrow> bool) \<Rightarrow> protector_kind \<Rightarrow>
     'h \<Rightarrow> ('x, 'k, 'n, 'h, 'w, 'e) tcp_hub \<Rightarrow> bool" where
  "steady side p fit k h s \<longleftrightarrow> fit s \<and> um_find cn_equal cn_hash (hb_map s) (tc_key (ts_get side s)) = Some p \<and>
     se_read_callback (session_at p s) = Some h \<and> (\<exists>pt. se_decoder (session_at p s) = Some pt \<and> pt_kind pt = k)"

text \<open>Between two messages, with the beginning \<open>e\<close> of the next one.\<close>

definition idle ::
    "('x, 'k) crypto \<Rightarrow> ('n, ('x, 'k, 'n, 'h, 'w, 'e) tcp_hub) tcp_side \<Rightarrow> nat \<Rightarrow> (('x, 'k, 'n, 'h, 'w, 'e) tcp_hub \<Rightarrow> bool) \<Rightarrow>
     protector_kind \<Rightarrow> 'h \<Rightarrow> bytes \<Rightarrow> ('x, 'k, 'n, 'h, 'w, 'e) tcp_hub \<Rightarrow> bool" where
  "idle cr side p fit k h e s \<longleftrightarrow> steady side p fit k h s \<and> tc_session (ts_get side s) \<in> {None, Some p} \<and> tc_decoder (ts_get side s) = None \<and>
     source (prefix_length (cr_ssl cr) k) e (ts_get side s) \<and> sink [] [] (ts_get side s)"

text \<open>In a message: the decoder was given \<open>fed\<close>, of which \<open>dec\<close> makes the clear text.\<close>

definition receiving ::
    "('x, 'k) crypto \<Rightarrow> ('n, ('x, 'k, 'n, 'h, 'w, 'e) tcp_hub) tcp_side \<Rightarrow> nat \<Rightarrow> (('x, 'k, 'n, 'h, 'w, 'e) tcp_hub \<Rightarrow> bool) \<Rightarrow>
     protector_kind \<Rightarrow> 'h \<Rightarrow> (bytes \<Rightarrow> bytes) \<Rightarrow> cursor list \<Rightarrow> bytes \<Rightarrow> bytes \<Rightarrow> ('x, 'k, 'n, 'h, 'w, 'e) tcp_hub \<Rightarrow> bool" where
  "receiving cr side p fit k h dec xs fed e s \<longleftrightarrow>
     steady side p fit k h s \<and> tc_session (ts_get side s) = Some p \<and> tc_decoder (ts_get side s) = Some p \<and>
     (\<exists>pt. se_decoder (session_at p s) = Some pt \<and> pt_kind pt = k \<and>
        fed_to (EVP_DecryptUpdate (pt_cipher (cr_ssl cr) k)) (block_of (cr_ssl cr) k) dec (decrypted_bytes (pt_cipher (cr_ssl cr) k)) fed (pt_ctx pt)) \<and>
     source 0 e (ts_get side s) \<and> sink xs (dec (whole (block_of (cr_ssl cr) k) fed)) (ts_get side s)"

text \<open>What the steps leave alone.\<close>

definition alike :: "('n, ('x, 'k, 'n, 'h, 'w, 'e) tcp_hub) tcp_side \<Rightarrow> ('x, 'k, 'n, 'h, 'w, 'e) tcp_hub \<Rightarrow> ('x, 'k, 'n, 'h, 'w, 'e) tcp_hub \<Rightarrow> bool" where
  "alike side s s' \<longleftrightarrow> ts_net side s' = ts_net side s \<and> tc_channel (ts_get side s') = tc_channel (ts_get side s)"

lemma alike_refl [simp]: "alike side s s"
  by (simp add: alike_def)

lemma alike_trans: "alike side s s' \<Longrightarrow> alike side s' s'' \<Longrightarrow> alike side s s''"
  by (simp add: alike_def)

section \<open>The steps\<close>

context tcp_endpoint
begin

lemma session_found:
  assumes "idle cr side p fit k h e s"
  obtains s' where "find_session cc side s = Some (Inr s')" "idle cr side p fit k h e s'" "tc_session (ts_get side s') = Some p" "alike side s s'"
proof (cases "tc_session (ts_get side s)")
  case None
  have fit: "fit s" "um_find cn_equal cn_hash (hb_map s) (tc_key (ts_get side s)) = Some p"
    "se_read_callback (session_at p s) = Some h" using assms by (simp_all add: idle_def steady_def)
  let ?s = "ts_put side ((ts_get side s)\<lparr>tc_session := Some p\<rparr>) s"
  have "find_session cc side s = Some (Inr ?s)" using None fit by (simp add: find_session_def GetSession_def IsReady_def)
  moreover have "idle cr side p fit k h e ?s" using assms fit
    by (simp add: idle_def steady_def get_put put_fit put_others source_def sink_def)
  ultimately show thesis using fit by (intro that [of ?s]) (simp_all add: alike_def get_put put_others)
next
  case (Some q)
  then have "q = p" using assms by (simp add: idle_def)
  with Some assms show thesis by (intro that [of s]) (simp_all add: find_session_def)
qed

lemma put_decoder:
  assumes "fit s"
  shows "se_decoder (session_at p (SetDecoder p d s)) = d" "se_read_callback (session_at p (SetDecoder p d s)) = se_read_callback (session_at p s)"
    "hb_map (SetDecoder p d s) = hb_map s"
  using fit_session [OF assms] by (simp_all add: SetDecoder_def)

lemma start_waits:
  assumes "idle cr side p fit k h e s" "tc_session (ts_get side s) = Some p" "length e < prefix_length (cr_ssl cr) k"
  obtains s' where "start_decoder cr cc side s = Some (Inl (MORE, s'))" "idle cr side p fit k h e s'" "alike side s s'"
proof -
  let ?c = "ts_get side s"
  have steady: "fit s" "um_find cn_equal cn_hash (hb_map s) (tc_key ?c) = Some p"
    "se_read_callback (session_at p s) = Some h" using assms(1) by (simp_all add: idle_def steady_def)
  obtain pt where pt: "se_decoder (session_at p s) = Some pt" "pt_kind pt = k" using assms(1) by (auto simp: idle_def steady_def)
  obtain cs own where enc: "tc_in_encrypted ?c = (cs, own)" by fastforce
  have src: "used [] [] (cs, own)" "reader_contents (cs, own) = e" using assms(1) by (simp_all add: idle_def source_def enc)
  have own: "oc_limited own = None" "length e < 2 ^ 32"
    using src by (auto simp: used_def reader_ok_def readable_def reader_contents_def)
  obtain s1 where s1: "oc_copy cs own = Some (s1, own)" "used [own] [e] (s1, own)" "reader_contents (s1, own) = e"
    by (rule copy_used [OF src(1)]) (use src(2) in simp)
  have short: "length (reader_contents (s1, own)) < prefix_length (cr_ssl cr) (pt_kind pt)" using s1(3) assms(3) pt(2) by simp
  obtain r where r: "decoder_Start (cr_ssl cr) (s1, own) NoPadding pt = Some (MORE_DATA_REQUIRED, r, pt)" "used [own] [e] r"
    by (rule decoder_waits [OF s1(2) short])
  have "used [own] [e] (fst r, snd r)" using r(2) by simp
  from drop_copy [OF this own] obtain s2 where s2: "oc_destroy (fst r) (snd r) = Some s2" "used [] [] (s2, own)" "reader_contents (s2, own) = e" .
  let ?s = "SetDecoder p (Some pt) s"
  let ?s' = "ts_put side ((ts_get side ?s)\<lparr>tc_in_encrypted := (s2, own)\<rparr>) ?s"
  have fit: "fit ?s" by (rule decoder_fit [OF steady(1)])
  have "tc_decoder ?c = None" using assms(1) by (simp add: idle_def)
  then have "start_decoder cr cc side s = Some (Inl (MORE, ?s'))"
    using assms(2) pt(1) enc s1(1) r(1) s2(1) by (simp add: start_decoder_def GetDecoder_def tcp_HandleDecodeError_def Let_def)
  moreover have "idle cr side p fit k h e ?s'"
    using assms(1,3) fit steady s2 pt put_decoder [OF steady(1)]
    by (simp add: idle_def steady_def get_put put_fit put_others decoder_others source_def sink_def)
  ultimately show thesis using fit steady(1) by (intro that [of ?s']) (simp_all add: alike_def get_put put_others decoder_others)
qed

lemma start_succeeds:
  assumes "idle cr side p fit k h (salt @ rest) s" "tc_session (ts_get side s) = Some p" "length salt = prefix_length (cr_ssl cr) k"
    and deal: "ssl_unpadded (cr_ssl cr) aes bf aes' bf'" "kind_ok k"
  obtains s' where "start_decoder cr cc side s = Some (Inr s')" "alike side s s'"
    "receiving cr side p fit k h (sealed (cr_ssl cr) aes' bf' k salt) [] [] rest s'"
proof -
  let ?c = "ts_get side s"
  have steady: "fit s" "um_find cn_equal cn_hash (hb_map s) (tc_key ?c) = Some p"
    "se_read_callback (session_at p s) = Some h" using assms(1) by (simp_all add: idle_def steady_def)
  obtain pt where pt: "se_decoder (session_at p s) = Some pt" "pt_kind pt = k" using assms(1) by (auto simp: idle_def steady_def)
  obtain cs own where enc: "tc_in_encrypted ?c = (cs, own)" by fastforce
  have src: "used [] [] (cs, own)" "reader_contents (cs, own) = salt @ rest" "length rest \<le> length (last_data cs)"
    using assms(1,3) by (simp_all add: idle_def source_def enc)
  have own: "oc_limited own = None" "length (salt @ rest) < 2 ^ 32"
    using src(1,2) by (auto simp: used_def reader_ok_def readable_def reader_contents_def)
  obtain s1 where s1: "oc_copy cs own = Some (s1, own)" "used [own] [salt @ rest] (s1, own)" "reader_contents (s1, own) = salt @ rest"
    by (rule copy_used [OF src(1)]) (use src(2) in simp)
  obtain r x where r: "decoder_Start (cr_ssl cr) (s1, own) NoPadding pt = Some (SUCCEEDED, r, pt\<lparr>pt_ctx := x\<rparr>)"
    "used [own] [salt @ rest] r" "reader_contents r = rest" "data_left s1 (fst r)" "deciphers (cr_ssl cr) aes' bf' k salt [] x"
    using decoder_starts_unpadded [of "cr_ssl cr" aes bf aes' bf' pt "[own]" "[salt @ rest]" "(s1, own)" salt rest] deal pt(2) s1(2,3) assms(3)
    by auto
  obtain left s2 own2 s3 where f: "oc_left (fst r) own = Some left" "oc_left (fst r) (snd r) = Some (length rest)"
    "oc_increment (fst r) own (left - length rest) = Some (s2, own2)" "oc_destroy s2 (snd r) = Some s3"
    "used [] [] (s3, own2)" "reader_contents (s3, own2) = rest"
    by (rule follow_copy [of own salt rest "fst r" "snd r"]) (use r(2,3) own in simp_all)
  have "data_left cs s3"
    using copy_data_left [OF s1(1)] r(4) increment_data_left [OF f(3)] destroy_data_left [OF f(4)] by (blast intro: data_left_trans)
  then have "in_last (s3, own2)"
    by (rule in_last_left) (use f(5,6) src(3) in \<open>auto simp: used_def reader_ok_def readable_def reader_contents_def buf_inv_def\<close>)
  then have src': "source 0 rest (ts_get side s\<lparr>tc_in_encrypted := (s3, own2), tc_decoder := Some p\<rparr>)"
    using f(5,6) by (simp add: source_def in_last_def)
  let ?s = "SetDecoder p (Some (pt\<lparr>pt_ctx := x\<rparr>)) s"
  let ?s' = "ts_put side ((ts_get side ?s)\<lparr>tc_in_encrypted := (s3, own2), tc_decoder := Some p\<rparr>) ?s"
  have fit: "fit ?s" by (rule decoder_fit [OF steady(1)])
  have "tc_decoder ?c = None" using assms(1) by (simp add: idle_def)
  then have "start_decoder cr cc side s = Some (Inr ?s')"
    using assms(2) pt(1) enc s1(1) r(1) f(1-4) decoder_others(1) [OF steady(1)] by (simp add: start_decoder_def GetDecoder_def)
  moreover have "receiving cr side p fit k h (sealed (cr_ssl cr) aes' bf' k salt) [] [] rest ?s'"
    using assms(1,2) fit steady pt r(5) src' put_decoder [OF steady(1)] ssl_unpaddedD(5) [OF deal(1), of k "[]" salt]
    by (simp add: receiving_def idle_def steady_def get_put put_fit put_others decoder_others sink_def)
  ultimately show thesis using fit steady(1) by (intro that [of ?s']) (simp_all add: alike_def get_put put_others decoder_others)
qed

lemma start_goes_on: "receiving cr side p fit k h dec xs fed e s \<Longrightarrow> start_decoder cr cc side s = Some (Inr s)"
  by (simp add: receiving_def start_decoder_def)

lemma continue_step:
  fixes cr :: "('x, 'k) crypto"
  assumes rec: "receiving cr side p fit k h dec xs fed e s" and deal: "ssl_unpadded (cr_ssl cr) aes bf aes' bf'"
    and dec: "\<And>m. block_of (cr_ssl cr) k dvd length m \<Longrightarrow> length (dec m) = length m"
    and e: "length e + 64 \<le> kRoundedSize" and until: "0 < until" "until + 64 < 2 ^ 32"
    and t: "t = min (blocks (block_of (cr_ssl cr) k) until - length fed mod block_of (cr_ssl cr) k) (length e)"
  obtains s' out where "continue_decoding cr side until s = Some (SUCCEEDED, s')" "alike side s s'"
    "receiving cr side p fit k h dec xs (fed @ take t e) (drop t e) s'"
    "dec (whole (block_of (cr_ssl cr) k) fed) @ out = dec (whole (block_of (cr_ssl cr) k) (fed @ take t e))"
    "\<And>x. x \<in> set xs \<Longrightarrow> unread (clear_chunks side s') x = unread (clear_chunks side s) x @ out"
proof -
  let ?c = "ts_get side s" and ?lib = "pt_cipher (cr_ssl cr) k" and ?b = "block_of (cr_ssl cr) k"
  have steady: "fit s" "um_find cn_equal cn_hash (hb_map s) (tc_key ?c) = Some p" "tc_decoder ?c = Some p"
    "se_read_callback (session_at p s) = Some h"
    using rec by (simp_all add: receiving_def steady_def)
  obtain pt where pt: "se_decoder (session_at p s) = Some pt" "pt_kind pt = k"
    "fed_to (EVP_DecryptUpdate ?lib) ?b dec (decrypted_bytes ?lib) fed (pt_ctx pt)"
    using rec by (auto simp: receiving_def)
  obtain cs cur where enc: "tc_in_encrypted ?c = (cs, cur)" by fastforce
  obtain d own where clear: "tc_in_cleartext ?c = (d, own)" by fastforce
  have src: "used [] [] (cs, cur)" "in_last (cs, cur)" "reader_contents (cs, cur) = e"
    using rec source_in_last [of e ?c] by (simp_all add: receiving_def source_def enc)
  have d: "open_out (own # xs) d" "unread d own = dec (whole ?b fed)" "oc_limited own = None"
    using rec by (simp_all add: receiving_def sink_def clear reader_contents_def)
  obtain cs' cur' d' x' out where step: "Decoder_Continue ?lib (of_nat until) (cs, cur) d (pt_ctx pt) = Some (SUCCEEDED, (cs', cur'), d', x')"
    "used [] [] (cs', cur')" "in_last (cs', cur')" "reader_contents (cs', cur') = drop t e"
    "fed_to (EVP_DecryptUpdate ?lib) ?b dec (decrypted_bytes ?lib) (fed @ take t e) x'"
    "dec (whole ?b fed) @ out = dec (whole ?b (fed @ take t e))" "poured (own # xs) d out d'"
    by (rule Decoder_Continue_piece [OF ssl_unpaddedD(3,1,2) [OF deal] pt(3) dec src e until d(1) t])
  have grown: "unread d' x = unread d x @ out" if "x \<in> set (own # xs)" for x
    using poured_unread [OF step(7) _ that] d(1) by (simp add: open_out_def)
  let ?s = "SetDecoder p (Some (pt\<lparr>pt_ctx := x'\<rparr>)) s"
  let ?s' = "ts_put side (?c\<lparr>tc_in_encrypted := (cs', cur'), tc_in_cleartext := (d', own)\<rparr>) ?s"
  have fit: "fit ?s" by (rule decoder_fit [OF steady(1)])
  have "continue_decoding cr side until s = Some (SUCCEEDED, ?s')"
    using steady(3) pt(1,2) enc clear step(1) decoder_others(1) [OF steady(1)] by (simp add: continue_decoding_def Let_def)
  moreover have "receiving cr side p fit k h dec xs (fed @ take t e) (drop t e) ?s'"
    using rec fit steady pt(2) step(2-7) grown [of own] d put_decoder [OF steady(1)]
    by (simp add: receiving_def steady_def get_put put_fit put_others decoder_others source_def sink_def clear reader_contents_def
        in_last_def poured_def)
  moreover have "unread (clear_chunks side ?s') x = unread (clear_chunks side s) x @ out" if "x \<in> set xs" for x
    using grown [of x] that fit by (simp add: clear_chunks_def get_put clear)
  ultimately show thesis using step(6) fit steady(1)
    by (intro that [of ?s' out]) (simp_all add: alike_def get_put put_others decoder_others)
qed

text \<open>The copied cursor.\<close>

lemma receiving_sink:
  "receiving cr side p fit k h dec xs fed e s \<Longrightarrow> fit s \<and> sink xs (dec (whole (block_of (cr_ssl cr) k) fed)) (ts_get side s)"
  by (simp add: receiving_def steady_def)

lemma copy_taken:
  assumes "sink [] bs (ts_get side s)" "length bs < 2 ^ 32"
  obtains cs own where "oc_copy (fst (tc_in_cleartext (ts_get side s))) (snd (tc_in_cleartext (ts_get side s))) = Some (cs, own)"
    "own = snd (tc_in_cleartext (ts_get side s))" "kept [own] [bs] (cs, own)" "reader_contents (cs, own) = bs"
proof -
  obtain d own where clear: "tc_in_cleartext (ts_get side s) = (d, own)" by fastforce
  have d: "buf_inv d [own]" "gap_free (cs_chunks d)" "unread d own = bs" "oc_limited own = None"
    using assms(1) by (simp_all add: sink_def clear reader_contents_def open_out_def)
  show thesis
  proof (rule copy_cursor [OF d(1), of own])
    fix cs
    assume "oc_copy d own = Some (cs, own)" "buf_inv cs (own # [own])" "\<And>c. unread cs c = unread d c"
      "gap_free (cs_chunks cs) = gap_free (cs_chunks d)"
    with d assms(2) show thesis
      by (intro that [of cs own]) (simp_all add: clear kept_def reader_ok_def readable_def reader_contents_def)
  qed simp
qed

lemma chunks_put:
  assumes "fit s"
  shows "ts_get side (set_clear_chunks side cs s) = (ts_get side s)\<lparr>tc_in_cleartext := (cs, snd (tc_in_cleartext (ts_get side s)))\<rparr>"
    "fit (set_clear_chunks side cs s)" "alike side s (set_clear_chunks side cs s)" "clear_chunks side (set_clear_chunks side cs s) = cs"
    "steady side p fit k h s \<Longrightarrow> steady side p fit k h (set_clear_chunks side cs s)"
    "se_decoder (session_at p (set_clear_chunks side cs s)) = se_decoder (session_at p s)"
  using assms by (simp_all add: set_clear_chunks_def clear_chunks_def alike_def steady_def Let_def get_put put_fit put_others)

lemma copy_kept:
  assumes "fit s" "sink [] bs (ts_get side s)" "own = snd (tc_in_cleartext (ts_get side s))" "kept [own] [bs] (cs, cur)"
  shows "sink [cur] bs (ts_get side (set_clear_chunks side cs s))"
proof -
  have "buf_inv cs [own, cur]" by (rule buf_inv_swap) (use assms(4) in \<open>simp add: kept_def reader_ok_def readable_def\<close>)
  with assms show ?thesis by (simp add: chunks_put sink_def open_out_def reader_contents_def kept_def reader_ok_def readable_def)
qed

lemma copy_read:
  assumes rec: "receiving cr side p fit k h dec [] fed e s" and own: "own = snd (tc_in_cleartext (ts_get side s))"
    and kept: "kept [own] [dec (whole (block_of (cr_ssl cr) k) fed)] (cs, cur)"
  shows "receiving cr side p fit k h dec [cur] fed e (set_clear_chunks side cs s)"
  using rec copy_kept [OF _ _ own kept] receiving_sink [OF rec] by (simp add: receiving_def chunks_put source_def)

lemma scope_closed:
  assumes "fit s" "sink [cur] bs (ts_get side s)"
  obtains cs where "leave_scope side cur s = Some (set_clear_chunks side cs s)" "sink [] bs (ts_get side (set_clear_chunks side cs s))"
proof -
  obtain d own where clear: "tc_in_cleartext (ts_get side s) = (d, own)" by fastforce
  have d: "buf_inv d [own, cur]" "gap_free (cs_chunks d)" "unread d own = bs" "oc_limited own = None"
    using assms(2) by (simp_all add: sink_def clear open_out_def reader_contents_def)
  show thesis
  proof (rule destroy_cursor [OF buf_inv_swap [OF d(1)]])
    fix cs
    assume "oc_destroy d cur = Some cs" "buf_inv cs [own]" "\<And>c. c \<in> set [own] \<Longrightarrow> unread cs c = unread d c"
      "gap_free (cs_chunks d) \<Longrightarrow> gap_free (cs_chunks cs)"
    with d assms(1) show thesis
      by (intro that [of cs]) (simp_all add: leave_scope_def clear_chunks_def clear chunks_put sink_def open_out_def reader_contents_def)
  qed
qed

lemma scope_left:
  assumes rec: "receiving cr side p fit k h dec [cur] fed e s"
  obtains s' where "leave_scope side cur s = Some s'" "receiving cr side p fit k h dec [] fed e s'" "alike side s s'"
proof -
  note sink = receiving_sink [OF rec]
  obtain cs where cs: "leave_scope side cur s = Some (set_clear_chunks side cs s)"
    "sink [] (dec (whole (block_of (cr_ssl cr) k) fed)) (ts_get side (set_clear_chunks side cs s))"
    using sink by (blast elim: scope_closed)
  with rec sink show thesis by (intro that [of "set_clear_chunks side cs s"]) (simp_all add: receiving_def chunks_put source_def)
qed

end

section \<open>Frames\<close>

text \<open>A message on the wire: the random prefix of its protector, the padding and the message.\<close>

definition frame_text :: "bytes \<times> bytes \<times> bytes \<Rightarrow> bytes" where
  "frame_text f = (case f of (salt, padding, m) \<Rightarrow> be16 (of_nat (length m)) @ padding @ m)"

definition frame ::
    "'x openssl \<Rightarrow> (bytes \<Rightarrow> bytes \<Rightarrow> bytes \<Rightarrow> bytes) \<Rightarrow> (bytes \<Rightarrow> bytes \<Rightarrow> bytes \<Rightarrow> bytes) \<Rightarrow> protector_kind \<Rightarrow> bytes \<times> bytes \<times> bytes \<Rightarrow> bytes" where
  "frame ssl aes bf k f = fst f @ sealed ssl aes bf k (fst f) (frame_text f)"

definition frame_ok :: "'x openssl \<Rightarrow> protector_kind \<Rightarrow> bytes \<times> bytes \<times> bytes \<Rightarrow> bool" where
  "frame_ok ssl k f \<longleftrightarrow> (case f of (salt, padding, m) \<Rightarrow>
     length salt = prefix_length ssl k \<and> length padding = unat (pad_for (pt_cipher ssl k) (of_nat (length m) + 2)) \<and> length m \<le> uint16_max)"

lemma pad_length:
  assumes "0 < unat (EVP_CIPHER_block_size lib)" "unat (EVP_CIPHER_block_size lib) \<le> 255" "n < 2 ^ 32"
  shows "unat (pad_for lib (of_nat n)) = unat (EVP_CIPHER_block_size lib) - n mod unat (EVP_CIPHER_block_size lib)"
proof -
  let ?b = "unat (EVP_CIPHER_block_size lib)"
  have n: "unat (of_nat n :: u32) = n" using assms(3) by (simp add: unat_of_nat take_bit_nat_eq_self)
  have "of_nat n mod EVP_CIPHER_block_size lib \<le> EVP_CIPHER_block_size lib"
    using word_mod_less_divisor [of "EVP_CIPHER_block_size lib" "of_nat n"] assms(1)
    by (simp add: word_less_nat_alt order.strict_implies_order)
  then have "unat (EVP_CIPHER_block_size lib - of_nat n mod EVP_CIPHER_block_size lib) = ?b - n mod ?b"
    by (simp add: unat_sub unat_mod n)
  then show ?thesis using assms(1,2) by (simp add: pad_for_def unsigned_ucast_eq take_bit_nat_eq_self)
qed

lemma padded_blocks: "0 < b \<Longrightarrow> n mod b \<noteq> 0 \<Longrightarrow> n + (b - n mod b) = blocks b n"
proof -
  assume b: "0 < b" "n mod b \<noteq> 0"
  then have bound: "0 < n" by (cases n) simp_all
  note up = blocks_bounds [OF b(1) bound]
  have eq: "n - n mod b + b = n + (b - n mod b)"
    using mod_less_divisor [OF b(1), of n] mod_less_eq_dividend [of n b] by linarith
  have "b dvd n - n mod b" by (simp add: minus_mod_eq_div_mult)
  from dvd_add [OF this dvd_refl] have "b dvd n + (b - n mod b)" unfolding eq .
  then obtain x y where xy: "n + (b - n mod b) = b * x" "blocks b n = b * y" using up(1) by (auto elim!: dvdE)
  have "b * x < b * (y + 1)" "b * y < b * (x + 1)"
    unfolding distrib_left mult_1_right using xy up(2,3) b mod_less_divisor [OF b(1), of n] by linarith+
  then have "x < y + 1" "y < x + 1" by (simp_all only: mult_less_cancel1)
  then have "x = y" by simp
  with xy show ?thesis by simp
qed

lemma frame_lengths:
  assumes "ssl_unpadded ssl aes bf aes' bf'" "frame_ok ssl k (salt, padding, m)" "(length m + 2) mod block_of ssl k \<noteq> 0"
  shows "length (frame_text (salt, padding, m)) = blocks (block_of ssl k) (length m + 2)"
    "block_of ssl k dvd length (frame_text (salt, padding, m))" "unat (of_nat (length m) :: u16) = length m"
    "length (sealed ssl aes bf k salt (frame_text (salt, padding, m))) = blocks (block_of ssl k) (length m + 2)"
    "sealed ssl aes' bf' k salt (sealed ssl aes bf k salt (frame_text (salt, padding, m))) = frame_text (salt, padding, m)"
proof -
  note b = ssl_unpaddedD [OF assms(1), of k]
  have "length padding = block_of ssl k - (length m + 2) mod block_of ssl k"
    using pad_length [of "pt_cipher ssl k" "length m + 2"] b(1,2) assms(2) by (simp add: frame_ok_def uint16_max_def add.commute)
  then have "length (frame_text (salt, padding, m)) = length m + 2 + (block_of ssl k - (length m + 2) mod block_of ssl k)"
    by (simp add: frame_text_def)
  then show len: "length (frame_text (salt, padding, m)) = blocks (block_of ssl k) (length m + 2)"
    using padded_blocks [of "block_of ssl k" "length m + 2"] b(1) assms(3) by simp
  have "0 < block_of ssl k" using b(1) by simp
  from blocks_bounds(1) [OF this, of "length m + 2"] show dvd: "block_of ssl k dvd length (frame_text (salt, padding, m))" by (simp add: len)
  show "unat (of_nat (length m) :: u16) = length m" using assms(2) by (intro cursor_source.unat_length_u16) (simp add: frame_ok_def)
  show "length (sealed ssl aes bf k salt (frame_text (salt, padding, m))) = blocks (block_of ssl k) (length m + 2)"
    using b(4) [OF dvd] len by simp
  show "sealed ssl aes' bf' k salt (sealed ssl aes bf k salt (frame_text (salt, padding, m))) = frame_text (salt, padding, m)"
    by (rule b(6) [OF dvd])
qed

text \<open>What the decoder has made of the first bytes.\<close>

lemma deciphered_prefix:
  assumes "fed_to up b D P fed x" "\<And>m. b dvd length m \<Longrightarrow> length (D m) = length m" "fed @ q = c" "b dvd length c"
  shows "D (whole b fed) = take (length (whole b fed)) (D c)"
proof -
  obtain out where "D (whole b fed) @ out = D (whole b (fed @ q))" by (rule fed_to_update [OF assms(1), of q])
  then have "D c = D (whole b fed) @ out" using assms(3,4) by simp
  then show ?thesis using assms(2) [OF whole_dvd, of fed] by simp
qed

section \<open>Reading a packet\<close>

lemma sink_left:
  assumes "sink xs bs c" "length bs < 2 ^ 32"
  shows "oc_left (fst (tc_in_cleartext c)) (snd (tc_in_cleartext c)) = Some (length bs)"
  using left_size [of "fst (tc_in_cleartext c)" "snd (tc_in_cleartext c)" xs] assms
  by (simp add: sink_def open_out_def reader_contents_def)

lemma blocks_less: "0 < b \<Longrightarrow> b dvd j \<Longrightarrow> j < n \<Longrightarrow> blocks b (n - j) = blocks b n - j"
proof -
  assume b: "0 < b" "b dvd j" "j < n"
  then obtain i where i: "j = i * b" by (auto simp: mult.commute elim: dvdE)
  have "n + b - 1 = (n - j + b - 1) + i * b" using b(1,3) unfolding i by linarith
  then have "(n + b - 1) div b = i + (n - j + b - 1) div b"
    unfolding \<open>n + b - 1 = (n - j + b - 1) + i * b\<close> using b(1) by (subst div_mult_self1) simp_all
  then show ?thesis unfolding blocks_def i by (simp add: distrib_right)
qed

context tcp_endpoint
begin

lemma size_decoded:
  fixes cr :: "('x, 'k) crypto" and k :: protector_kind
  defines "b \<equiv> block_of (cr_ssl cr) k"
  assumes rec: "receiving cr side p fit k h dec [] fed e s" and deal: "ssl_unpadded (cr_ssl cr) aes bf aes' bf'"
    and dec: "\<And>m. b dvd length m \<Longrightarrow> length (dec m) = length m"
    and e: "length e + 64 \<le> kRoundedSize" "length fed < 2 ^ 32"
    and t: "t = (if length fed < b then min (b - length fed) (length e) else 0)"
  obtains s' where "decode_size cr cc side s = Some (Inr s')" "alike side s s'"
    "receiving cr side p fit k h dec [] (fed @ take t e) (drop t e) s'"
proof -
  have b: "2 \<le> b" "b \<le> 32" using ssl_unpaddedD(1,2) [OF deal] by (simp_all add: b_def)
  have len: "length (dec (whole b fed)) = length fed - length fed mod b" using dec [OF whole_dvd] by (simp add: whole_length)
  then have "length (dec (whole b fed)) < 2 ^ 32" using e(2) by simp
  moreover have "sink [] (dec (whole b fed)) (ts_get side s)" using rec by (simp add: receiving_def b_def)
  ultimately have left: "oc_left (fst (tc_in_cleartext (ts_get side s))) (snd (tc_in_cleartext (ts_get side s))) = Some (length fed - length fed mod b)"
    using sink_left len by fastforce
  show thesis
  proof (cases "length fed < b")
    case True
    have "(2 + b - 1) div b = 1" using b(1) by (intro div_nat_eqI) simp_all
    then have "blocks b 2 = b" by (simp add: blocks_def)
    then have t': "t = min (blocks (block_of (cr_ssl cr) k) 2 - length fed mod block_of (cr_ssl cr) k) (length e)"
      using t True by (simp add: b_def)
    have two: "(0 :: nat) < 2" "(2 :: nat) + 64 < 2 ^ 32" by simp_all
    obtain s' where "continue_decoding cr side 2 s = Some (SUCCEEDED, s')" "alike side s s'"
      "receiving cr side p fit k h dec [] (fed @ take t e) (drop t e) s'"
      by (rule continue_step [OF rec deal dec [unfolded b_def] e(1) two t'])
    then show thesis using left True by (intro that [of s']) (simp_all add: decode_size_def)
  next
    case False
    have "b dvd length fed - length fed mod b" by (simp add: minus_mod_eq_div_mult)
    moreover have "length fed - length fed mod b \<noteq> 0"
    proof -
      have "length fed mod b < b" using b(1) by (intro mod_less_divisor) simp
      with False show ?thesis by linarith
    qed
    ultimately have "b \<le> length fed - length fed mod b" by (intro dvd_imp_le) simp_all
    with b(1) have "\<not> length fed - length fed mod b < 2" by simp
    then show thesis using left False t rec by (intro that [of s]) (simp_all add: decode_size_def)
  qed
qed


lemma clear_left:
  assumes "sink [cur] bs (ts_get side s)" "oc_limited cur = None" "length (unread (clear_chunks side s) cur) < 2 ^ 32"
  shows "oc_left (clear_chunks side s) cur = Some (length (unread (clear_chunks side s) cur))"
proof -
  have "buf_inv (clear_chunks side s) [cur, snd (tc_in_cleartext (ts_get side s))]"
    by (rule buf_inv_swap) (use assms(1) in \<open>simp add: sink_def open_out_def clear_chunks_def\<close>)
  from left_size [OF this] assms(2,3) show ?thesis by simp
qed

text \<open>Before the first block there is no size.\<close>

lemma no_size_yet:
  fixes cr :: "('x, 'k) crypto" and k :: protector_kind
  assumes rec: "receiving cr side p fit k h dec [] fed e s" and nil: "dec (whole (block_of (cr_ssl cr) k) fed) = []"
  obtains s' where "read_packet cr cc call side s = Some (Inl (MORE, s'))" "alike side s s'" "receiving cr side p fit k h dec [] fed e s'"
proof -
  have short: "length (dec (whole (block_of (cr_ssl cr) k) fed)) < 2 ^ 32" by (simp add: nil)
  obtain cs own where copied: "oc_copy (fst (tc_in_cleartext (ts_get side s))) (snd (tc_in_cleartext (ts_get side s))) = Some (cs, own)"
    "own = snd (tc_in_cleartext (ts_get side s))" "kept [own] [dec (whole (block_of (cr_ssl cr) k) fed)] (cs, own)"
    "reader_contents (cs, own) = dec (whole (block_of (cr_ssl cr) k) fed)"
    by (rule copy_taken [OF conjunct2 [OF receiving_sink [OF rec]] short])
  from kept_source.hintsD [OF kept_source.hints_numbers(2) copied(3), of 0 "be16 0"] copied(4) nil obtain m cs1 cur where
    d: "decode_u16 reader_consume (cs, own) = Some (m, None, (cs1, cur))" "0 < m" "kept [own] [dec (whole (block_of (cr_ssl cr) k) fed)] (cs1, cur)"
    by (auto simp: be16_def)
  note read = copy_read [OF rec copied(2) d(3)] chunks_put(3,4) [OF conjunct1 [OF receiving_sink [OF rec]], of cs1]
  obtain s' where "leave_scope side cur (set_clear_chunks side cs1 s) = Some s'" "receiving cr side p fit k h dec [] fed e s'"
    "alike side (set_clear_chunks side cs1 s) s'" by (rule scope_left [OF read(1)])
  then show thesis using copied(1) d(1,2) alike_trans [OF read(2)] by (intro that [of s']) (simp_all add: read_packet_def Let_def)
qed

text \<open>As much as the packet needs is decrypted.\<close>

lemma packet_read_on:
  fixes cr :: "('x, 'k) crypto" and k :: protector_kind and n :: u16
  defines "b \<equiv> block_of (cr_ssl cr) k"
  assumes rec: "receiving cr side p fit k h dec [] fed e s" and deal: "ssl_unpadded (cr_ssl cr) aes bf aes' bf'"
    and dec: "\<And>m. b dvd length m \<Longrightarrow> length (dec m) = length m"
    and e: "length e + 64 \<le> kRoundedSize" and t: "t = min (length c - length fed) (length e)"
    and c: "fed @ take t e @ u = c" "dec c = be16 n @ w" "length c = blocks b (unat n + 2)" and started: "b \<le> length fed"
  obtains s' cur where "alike side s s'" "receiving cr side p fit k h dec [cur] (fed @ take t e) (drop t e) s'" "oc_limited cur = None"
    "be16 n @ unread (clear_chunks side s') cur = take (length (whole b (fed @ take t e))) (dec c)"
    "read_packet cr cc call side s = (if length (whole b (fed @ take t e)) < unat n + 2
       then do { s \<leftarrow> leave_scope side cur s'; Some (Inl (MORE, s)) } else deliver cr cc call side n cur s')"
proof -
  let ?D = "dec (whole b fed)" and ?L = "length (whole b fed)"
  have b: "2 \<le> b" "b \<le> 32" using ssl_unpaddedD(1,2) [OF deal] by (simp_all add: b_def)
  have pos: "0 < b" "0 < unat n + 2" using b(1) by simp_all
  note bounds = blocks_bounds [OF pos]
  have dvd: "b dvd length c" using bounds(1) c(3) by simp
  have n: "unat n < 65536" using unsigned_less [of n] by simp
  then have c_short: "length c < 70000" using bounds(3) b(2) c(3) by simp
  obtain x where pt: "fed_to (EVP_DecryptUpdate (pt_cipher (cr_ssl cr) k)) b dec (decrypted_bytes (pt_cipher (cr_ssl cr) k)) fed x"
    using rec by (auto simp: receiving_def b_def)
  have D: "?D = take ?L (dec c)" by (rule deciphered_prefix [OF pt dec c(1) dvd])
  have "b dvd ?L" by (rule whole_dvd)
  moreover have "0 < ?L" using started mod_less_divisor [OF pos(1), of "length fed"] unfolding whole_length by linarith
  ultimately have L: "2 \<le> ?L" using b(1) by (auto dest: dvd_imp_le)
  have fed_c: "length fed \<le> length c" using arg_cong [OF c(1), of length] by simp
  have L_fed: "?L \<le> length fed" by (simp add: whole_length)
  have "take ?L (be16 n @ w) = be16 n @ take (?L - 2) w" using L by (cases ?L; cases "?L - 1"; simp add: be16_def)
  with D c(2) have D2: "?D = be16 n @ take (?L - 2) w" by simp
  have len_D: "length ?D = ?L" by (rule dec [OF whole_dvd])
  have D_short: "length ?D < 2 ^ 32" using len_D L_fed fed_c c_short by simp
  obtain cs own where copied: "oc_copy (fst (tc_in_cleartext (ts_get side s))) (snd (tc_in_cleartext (ts_get side s))) = Some (cs, own)"
    "own = snd (tc_in_cleartext (ts_get side s))" "kept [own] [?D] (cs, own)" "reader_contents (cs, own) = ?D"
    unfolding b_def by (rule copy_taken [OF conjunct2 [OF receiving_sink [OF rec]] D_short [unfolded b_def]])
  from kept_source.readsD [OF kept_source.reads_numbers(2) copied(3), of n "take (?L - 2) w"] copied(4) D2 obtain cs1 cur where
    d: "decode_u16 reader_consume (cs, own) = Some (0, Some n, (cs1, cur))" "kept [own] [?D] (cs1, cur)"
      "reader_contents (cs1, cur) = take (?L - 2) w" by auto
  let ?s = "set_clear_chunks side cs1 s"
  note read = copy_read [OF rec copied(2) d(2) [unfolded b_def]] chunks_put(3,4) [OF conjunct1 [OF receiving_sink [OF rec]], of cs1]
  have cur: "oc_limited cur = None" using d(2) by (simp add: kept_def reader_ok_def)
  have un: "be16 n @ unread (clear_chunks side ?s) cur = ?D" using d(3) D2 read(3) by (simp add: reader_contents_def)
  have len: "length (unread (clear_chunks side ?s) cur) = ?L - 2" using arg_cong [OF un, of length] len_D by (simp add: be16_def)
  have left: "oc_left cs1 cur = Some (?L - 2)"
    using clear_left [OF conjunct2 [OF receiving_sink [OF read(1)]] cur] len read(3) L_fed fed_c c_short by simp
  have c_eq: "length c - ?L = blocks b (unat n + 2 - ?L)" if "?L < unat n + 2"
    using blocks_less [OF pos(1) whole_dvd that] c(3) by simp
  obtain s' result where go: "alike side s s'" "receiving cr side p fit k h dec [cur] (fed @ take t e) (drop t e) s'"
    "be16 n @ unread (clear_chunks side s') cur = take (length (whole b (fed @ take t e))) (dec c)"
    "(if ?L - 2 < unat n then continue_decoding cr side (unat n - (?L - 2)) ?s else Some (SUCCEEDED, ?s)) = Some (SUCCEEDED, s')"
  proof (cases "?L - 2 < unat n")
    case True
    then have short: "?L < unat n + 2" by simp
    have until: "unat n - (?L - 2) = unat n + 2 - ?L" using L True by linarith
    have "blocks b (unat n + 2 - ?L) - length fed mod b = length c - length fed"
      using c_eq [OF short] unfolding whole_length by (simp add: diff_diff_add)
    then have t': "t = min (blocks (block_of (cr_ssl cr) k) (unat n + 2 - ?L) - length fed mod block_of (cr_ssl cr) k) (length e)"
      using t by (simp add: b_def)
    have bound: "0 < unat n + 2 - ?L" "unat n + 2 - ?L + 64 < 2 ^ 32" using short n by simp_all
    obtain s' out where step: "continue_decoding cr side (unat n + 2 - ?L) ?s = Some (SUCCEEDED, s')" "alike side ?s s'"
      "receiving cr side p fit k h dec [cur] (fed @ take t e) (drop t e) s'"
      "?D @ out = dec (whole b (fed @ take t e))"
      "unread (clear_chunks side s') cur = unread (clear_chunks side ?s) cur @ out"
      unfolding b_def
      apply (rule continue_step [OF read(1) deal dec [unfolded b_def] e bound [unfolded b_def] t' [unfolded b_def]], assumption)
      subgoal premises q by (rule q(1) [OF q(2-5) q(6)]) simp
      done
    have c2: "(fed @ take t e) @ u = c" using c(1) by simp
    obtain x' where "fed_to (EVP_DecryptUpdate (pt_cipher (cr_ssl cr) k)) b dec (decrypted_bytes (pt_cipher (cr_ssl cr) k)) (fed @ take t e) x'"
      using step(3) by (auto simp: receiving_def b_def)
    from deciphered_prefix [OF this dec c2 dvd] have D3: "dec (whole b (fed @ take t e)) = take (length (whole b (fed @ take t e))) (dec c)" .
    have "be16 n @ unread (clear_chunks side s') cur = ?D @ out" using step(5) un by simp
    with step D3 True until alike_trans [OF read(2) step(2)] show thesis by (intro that [of s']) simp_all
  next
    case False
    then have "blocks b (unat n + 2) \<le> ?L"
    proof -
      assume "\<not> ?L - 2 < unat n"
      then have "unat n + 2 \<le> ?L" using L by linarith
      then have "unat n + 2 + b - 1 < (?L div b + 1) * b" using whole_dvd [of b fed] pos(1) by (auto simp: distrib_right elim!: dvdE)
      then have "(unat n + 2 + b - 1) div b \<le> ?L div b" using pos(1) by (simp add: less_mult_imp_div_less less_Suc_eq_le [symmetric])
      then show ?thesis using whole_dvd [of b fed] by (auto simp: blocks_def elim!: dvdE intro: mult_right_mono)
    qed
    then have "length fed = length c" "t = 0" using L_fed fed_c t c(3) by simp_all
    then show thesis using False un read D by (intro that [of ?s]) simp_all
  qed
  have len': "length (unread (clear_chunks side s') cur) = length (whole b (fed @ take t e)) - 2"
  proof -
    have "length (whole b (fed @ take t e)) \<le> length (dec c)"
      using arg_cong [OF c(1), of length] by (simp add: whole_length dec [OF dvd])
    then show ?thesis using arg_cong [OF go(3), of length] by (simp add: be16_def)
  qed
  have "length (whole b (fed @ take t e)) \<le> length c" using arg_cong [OF c(1), of length] by (simp add: whole_length)
  then have left': "oc_left (clear_chunks side s') cur = Some (length (whole b (fed @ take t e)) - 2)"
    using clear_left [OF conjunct2 [OF receiving_sink [OF go(2)]] cur] len' c_short by simp
  have "2 \<le> length (whole b (fed @ take t e))" 
    using arg_cong [OF go(3), of length] by (simp add: be16_def)
  then have test: "length (whole b (fed @ take t e)) - 2 < unat n \<longleftrightarrow> length (whole b (fed @ take t e)) < unat n + 2" by linarith
  show thesis
    by (rule that [OF go(1,2) cur go(3)])
      (use copied(1) d(1) left left' go(4) test in \<open>simp add: read_packet_def Let_def cong del: if_weak_cong\<close>)
qed

end

section \<open>Delivering a packet\<close>

text \<open>The data of a message, with the limit that \<open>LimitLeftSize\<close> has set, in a buffer that \<open>own\<close> keeps as well.\<close>

definition message_in :: "cursor \<Rightarrow> bytes \<Rightarrow> reader \<Rightarrow> bool" where
  "message_in own m r \<longleftrightarrow> readable (fst r) (snd r) [own] \<and> reader_contents r = m \<and> oc_limited (snd r) = Some (length m)"

text \<open>What a handler must keep of the connection.\<close>

definition kept_up ::
    "('n, ('x, 'k, 'n, 'h, 'w, 'e) tcp_hub) tcp_side \<Rightarrow> nat \<Rightarrow> (('x, 'k, 'n, 'h, 'w, 'e) tcp_hub \<Rightarrow> bool) \<Rightarrow> protector_kind \<Rightarrow>
     'h \<Rightarrow> ('n \<Rightarrow> bytes) \<Rightarrow> ('x, 'k, 'n, 'h, 'w, 'e) tcp_hub \<Rightarrow> ('x, 'k, 'n, 'h, 'w, 'e) tcp_hub \<Rightarrow> bool" where
  "kept_up side p fit k h inflight s s' \<longleftrightarrow> steady side p fit k h s' \<and>
     tc_in_encrypted (ts_get side s') = tc_in_encrypted (ts_get side s) \<and>
     snd (tc_in_cleartext (ts_get side s')) = snd (tc_in_cleartext (ts_get side s)) \<and>
     tc_channel (ts_get side s') = tc_channel (ts_get side s) \<and> inflight (ts_net side s') = inflight (ts_net side s)"

text \<open>The handler \<open>h\<close> returns and keeps a list of the messages that it was given.\<close>

definition hears ::
    "('n, ('x, 'k, 'n, 'h, 'w, 'e) tcp_hub) tcp_side \<Rightarrow> nat \<Rightarrow> (('x, 'k, 'n, 'h, 'w, 'e) tcp_hub \<Rightarrow> bool) \<Rightarrow> protector_kind \<Rightarrow>
     'h \<Rightarrow> ('h \<Rightarrow> nat \<Rightarrow> reader \<Rightarrow> ('x, 'k, 'n, 'h, 'w, 'e) tcp_hub \<Rightarrow> (reader \<times> ('x, 'k, 'n, 'h, 'w, 'e) tcp_hub) option) \<Rightarrow>
     ('n \<Rightarrow> bytes) \<Rightarrow> ('n \<Rightarrow> bytes list) \<Rightarrow> bool" where
  "hears side p fit k h call inflight log \<longleftrightarrow> (\<forall>s r m. steady side p fit k h s \<longrightarrow> message_in (snd (tc_in_cleartext (ts_get side s))) m r \<longrightarrow>
     (\<exists>r' s'. call h p r s = Some (r', s') \<and> buf_inv (fst r') [snd r', snd (tc_in_cleartext (ts_get side s))] \<and> gap_free (cs_chunks (fst r')) \<and>
       unread (fst r') (snd (tc_in_cleartext (ts_get side s))) = unread (fst r) (snd (tc_in_cleartext (ts_get side s))) \<and>
       kept_up side p fit k h inflight s s' \<and> log (ts_net side s') = log (ts_net side s) @ [m]))"

lemma empty_commit: "ic_commit d [] = Some d"
  by (simp add: ic_commit_def)

context tcp_endpoint
begin

lemma packet_delivered:
  fixes cr :: "('x, 'k) crypto" and k :: protector_kind and n :: u16
  defines "b \<equiv> block_of (cr_ssl cr) k"
  assumes rec: "receiving cr side p fit k h dec [cur] c e s" and cur: "oc_limited cur = None"
    and deal: "ssl_unpadded (cr_ssl cr) aes bf aes' bf'"
    and c: "b dvd length c" "dec c = be16 n @ padding @ m" "length m = unat n" "length padding = unat (pad_for (pt_cipher (cr_ssl cr) k) (ucast n + 2))"
    and un: "unread (clear_chunks side s) cur = padding @ m" and short: "length padding \<le> 32"
    and heard: "hears side p fit k h call inflight log"
  obtains s' where "deliver cr cc call side n cur s = Some (Inr s')" "idle cr side p fit k h e s'"
    "tc_channel (ts_get side s') = tc_channel (ts_get side s)" "inflight (ts_net side s') = inflight (ts_net side s)"
    "log (ts_net side s') = log (ts_net side s) @ [m]"
proof -
  let ?c = "ts_get side s" and ?lib = "pt_cipher (cr_ssl cr) k" and ?cs = "clear_chunks side s"
  have fit: "fit s" using rec by (simp add: receiving_def steady_def)
  have n: "unat n < 65536" using unsigned_less [of n] by simp
  obtain pt where pt: "se_decoder (session_at p s) = Some pt" "pt_kind pt = k" "decrypted_bytes ?lib (length c) (pt_ctx pt)"
    using rec fed_to_facts by (fastforce simp: receiving_def)
  obtain own where own: "tc_in_cleartext ?c = (?cs, own)" by (cases "tc_in_cleartext ?c") (auto simp: clear_chunks_def)
  have d: "buf_inv ?cs [own, cur]" "gap_free (cs_chunks ?cs)" "unread ?cs own = dec c" "oc_limited own = None"
    using rec c(1) own by (simp_all add: receiving_def sink_def open_out_def reader_contents_def b_def)
  have pad: "length padding = unat (pad_for ?lib (ucast n + 2))" by (rule c(4))
  have kept: "kept [own] [dec c] (?cs, cur)"
    using buf_inv_swap [OF d(1)] d(2,3) cur un short n c(3) by (simp add: kept_def reader_ok_def readable_def)
  have r: "readable ?cs cur [own]" "length padding \<le> length (unread ?cs cur)" "within_limit cur (length padding)"
    using kept un cur by (simp_all add: kept_def reader_ok_def within_limit_def)
  obtain cs1 cur1 where inc: "oc_increment ?cs cur (length padding) = Some (cs1, cur1)" "advanced ?cs cur [own] (length padding) cs1 cur1"
    using increment_advances [OF r] by blast
  note moved = kept_advanced [OF kept inc(2)]
  have left: "oc_left ?cs cur = Some (length padding + length m)" using clear_left [OF conjunct2 [OF receiving_sink [OF rec]] cur] un short n c(3) by simp
  have remove: "RemovePadding ?lib (?cs, cur) (ucast n + 2) = Some (SUCCEEDED, pad_for ?lib (ucast n + 2), (cs1, cur1))"
    using left inc(1) unfolding RemovePadding_def Let_def pad [symmetric] by simp
  have m: "unread cs1 cur1 = m" using moved(2) un by (simp add: reader_contents_def)
  have k1: "buf_inv cs1 [cur1, own]" "gap_free (cs_chunks cs1)" "unread cs1 own = dec c" "oc_limited cur1 = None"
    using moved(1) by (simp_all add: kept_def reader_ok_def readable_def)
  have "oc_left cs1 cur1 = Some (length m)" using left_size [OF k1(1)] k1(4) m n c(3) by simp
  then have limit: "oc_limit cs1 cur1 (unat n) = Some (cur1\<lparr>oc_limited := Some (length m)\<rparr>)" using c(3) by (simp add: oc_limit_def)
  obtain x' where final: "EVP_DecryptFinal_ex ?lib (pt_ctx pt) = Some ([], x')"
    using pt(3) c(1) by (auto simp: decrypted_bytes_def b_def)
  let ?pt = "pt\<lparr>pt_ctx := EVP_CIPHER_CTX_cleanup ?lib x'\<rparr>"
  let ?s0 = "set_clear_chunks side cs1 s"
  have fit0: "fit ?s0" using fit by (simp add: set_clear_chunks_def Let_def put_fit)
  let ?s1 = "SetDecoder p (Some ?pt) ?s0"
  have s1: "steady side p fit k h ?s1" "ts_get side ?s1 = ?c\<lparr>tc_in_cleartext := (cs1, own)\<rparr>" "ts_net side ?s1 = ts_net side s"
    using rec fit fit0 own pt(2)
    by (simp_all add: receiving_def steady_def decoder_fit decoder_others put_decoder set_clear_chunks_def Let_def get_put put_fit put_others)
  have own1: "snd (tc_in_cleartext (ts_get side ?s1)) = own" by (simp add: s1(2))
  have "message_in own m (cs1, cur1\<lparr>oc_limited := Some (length m)\<rparr>)"
    using k1(1,2) m n c(3) by (simp add: message_in_def readable_def reader_contents_def buf_inv_def)
  with heard s1(1) own1 obtain r2 s2 where
    "call h p (cs1, cur1\<lparr>oc_limited := Some (length m)\<rparr>) ?s1 = Some (r2, s2) \<and> buf_inv (fst r2) [snd r2, own] \<and> gap_free (cs_chunks (fst r2)) \<and>
       unread (fst r2) own = unread cs1 own \<and> kept_up side p fit k h inflight ?s1 s2 \<and> log (ts_net side s2) = log (ts_net side ?s1) @ [m]"
    unfolding hears_def by (metis fst_conv)
  moreover obtain cs2 cur2 where "r2 = (cs2, cur2)" by fastforce
  ultimately have heard2: "call h p (cs1, cur1\<lparr>oc_limited := Some (length m)\<rparr>) ?s1 = Some ((cs2, cur2), s2)"
    "buf_inv cs2 [cur2, own]" "gap_free (cs_chunks cs2)" "unread cs2 own = dec c" "kept_up side p fit k h inflight ?s1 s2"
    "log (ts_net side s2) = log (ts_net side s) @ [m]"
    using s1(3) k1(3) by simp_all
  have packet: "HandlePacket call p (cs1, cur1\<lparr>oc_limited := Some (length m)\<rparr>) ?s1 = Some ((cs2, cur2), s2)"
    using s1(1) heard2(1) by (simp add: HandlePacket_def steady_def)
  have kept2: "steady side p fit k h s2" "tc_in_encrypted (ts_get side s2) = tc_in_encrypted ?c" "snd (tc_in_cleartext (ts_get side s2)) = own"
    "tc_channel (ts_get side s2) = tc_channel ?c" "inflight (ts_net side s2) = inflight (ts_net side s)"
    using heard2(5) s1(2,3) by (simp_all add: kept_up_def)
  have len: "length (dec c) = unat n + length padding + 2" using c(2,3) by (simp add: be16_def)
  have own2: "readable cs2 own [cur2]" "unat n + length padding + 2 \<le> length (unread cs2 own)" "within_limit own (unat n + length padding + 2)"
    using buf_inv_swap [OF heard2(2)] heard2(3,4) len short n d(4) by (simp_all add: readable_def within_limit_def)
  obtain cs3 own3 where inc3: "oc_increment cs2 own (unat n + length padding + 2) = Some (cs3, own3)"
    "advanced cs2 own [cur2] (unat n + length padding + 2) cs3 own3"
    using increment_advances [OF own2] by blast
  have k3: "buf_inv cs3 [own3, cur2]" "gap_free (cs_chunks cs3)" "unread cs3 own3 = []" "oc_limited own3 = None"
    using inc3(2) heard2(4) len d(4) by (simp_all add: advanced_def)
  let ?s3 = "ts_put side ((ts_get side s2)\<lparr>tc_session := None, tc_decoder := None, tc_in_cleartext := (cs3, own3)\<rparr>) s2"
  have fit2: "fit s2" using kept2(1) by (simp add: steady_def)
  obtain cs4 where cs4: "oc_destroy cs3 cur2 = Some cs4" "buf_inv cs4 [own3]" "unread cs4 own3 = []" "gap_free (cs_chunks cs4)"
    by (rule destroy_cursor [OF buf_inv_swap [OF k3(1)]]) (use k3 in simp)
  let ?s4 = "set_clear_chunks side cs4 ?s3"
  have s4: "ts_get side ?s4 = (ts_get side s2)\<lparr>tc_session := None, tc_decoder := None, tc_in_cleartext := (cs4, own3)\<rparr>"
    "ts_net side ?s4 = ts_net side s2" "steady side p fit k h ?s4"
    using fit2 kept2(1) by (simp_all add: set_clear_chunks_def Let_def get_put put_fit put_others steady_def)
  have sess: "tc_session ?c = Some p" "tc_decoder ?c = Some p" using rec by (simp_all add: receiving_def)
  have "deliver cr cc call side n cur s = Some (Inr ?s4)"
    using sess pt(1,2) remove final limit packet inc3(1) kept2(3) cs4(1) fit2 pad
    by (simp add: deliver_def Let_def Decoder_End_def empty_commit leave_scope_def clear_chunks_def get_put put_fit)
  moreover have "idle cr side p fit k h e ?s4"
    using s4 rec cs4 k3(4) kept2(2) source_mono [of e]
    by (simp add: idle_def receiving_def source_def sink_def open_out_def reader_contents_def)
  ultimately show thesis using s4 kept2(4,5) heard2(6) by (intro that [of ?s4]) simp_all
qed

text \<open>A frame of which all the data was decrypted: \<open>c\<close> is what its decoder is given.\<close>

lemma packet_part:
  fixes cr :: "('x, 'k) crypto" and k :: protector_kind
  defines "b \<equiv> block_of (cr_ssl cr) k"
  assumes rec: "receiving cr side p fit k h dec [] fed e s" and deal: "ssl_unpadded (cr_ssl cr) aes bf aes' bf'"
    and dec: "\<And>m. b dvd length m \<Longrightarrow> length (dec m) = length m" and e: "length e + 64 \<le> kRoundedSize"
    and c: "fed @ e @ u = c" "u \<noteq> []" "dec c = be16 n @ w" "length c = blocks b (unat n + 2)" and first: "length fed < b \<longrightarrow> e = []"
  obtains s' where "read_packet cr cc call side s = Some (Inl (MORE, s'))" "receiving cr side p fit k h dec [] (fed @ e) [] s'" "alike side s s'"
proof (cases "length fed < b")
  case True
  have "whole b fed = []" using True by (simp add: whole_def)
  moreover have "length (dec []) = length ([] :: bytes)" by (rule dec) simp
  ultimately have "dec (whole (block_of (cr_ssl cr) k) fed) = []" by (simp add: b_def)
  then obtain s' where "read_packet cr cc call side s = Some (Inl (MORE, s'))" "alike side s s'" "receiving cr side p fit k h dec [] fed e s'"
    by (rule no_size_yet [OF rec])
  then show thesis using first True by (intro that [of s']) simp_all
next
  case False
  have t: "length e = min (length c - length fed) (length e)" using c(1) by auto
  have c': "fed @ take (length e) e @ u = c" using c(1) by simp
  have started: "b \<le> length fed" using False by simp
  obtain s' cur where s': "alike side s s'" "receiving cr side p fit k h dec [cur] (fed @ take (length e) e) (drop (length e) e) s'"
    "oc_limited cur = None" "be16 n @ unread (clear_chunks side s') cur = take (length (whole b (fed @ take (length e) e))) (dec c)"
    "read_packet cr cc call side s = (if length (whole b (fed @ take (length e) e)) < unat n + 2
       then do { s \<leftarrow> leave_scope side cur s'; Some (Inl (MORE, s)) } else deliver cr cc call side n cur s')"
    unfolding b_def
    by (rule packet_read_on [OF rec deal dec [unfolded b_def] e t c' c(3) c(4) [unfolded b_def] started [unfolded b_def]], assumption)
  have b: "2 \<le> b" using ssl_unpaddedD(1) [OF deal] by (simp add: b_def)
  have "length (fed @ e) < length c" using c(1,2) by auto
  then have "length (whole b (fed @ e)) < length c" by (simp add: whole_length)
  moreover have w: "length (whole b (fed @ e)) = length (fed @ e) div b * b"
    using div_times_less_eq_dividend [of "length (fed @ e)" b] unfolding whole_def length_take by linarith
  ultimately have "length (fed @ e) div b * b < (unat n + 2 + b - 1) div b * b" by (simp only: c(4) blocks_def)
  then have "length (fed @ e) div b + 1 \<le> (unat n + 2 + b - 1) div b" by (simp only: mult_less_cancel2) simp
  then have "(length (fed @ e) div b + 1) * b \<le> unat n + 2 + b - 1"
    using div_times_less_eq_dividend [of "unat n + 2 + b - 1" b] by (meson mult_le_mono1 order_trans)
  then have "length (whole b (fed @ e)) < unat n + 2" using b unfolding w distrib_right by linarith
  moreover obtain s2 where "leave_scope side cur s' = Some s2" "receiving cr side p fit k h dec [] (fed @ take (length e) e) (drop (length e) e) s2" "alike side s' s2"
    by (rule scope_left [OF s'(2)])
  ultimately show thesis using s'(5) alike_trans [OF s'(1)] by (intro that [of s2]) simp_all
qed

lemma packet_whole:
  fixes cr :: "('x, 'k) crypto" and k :: protector_kind and n :: u16
  defines "b \<equiv> block_of (cr_ssl cr) k"
  assumes rec: "receiving cr side p fit k h dec [] fed e s" and deal: "ssl_unpadded (cr_ssl cr) aes bf aes' bf'"
    and dec: "\<And>m. b dvd length m \<Longrightarrow> length (dec m) = length m" and e: "length e + 64 \<le> kRoundedSize"
    and c: "fed @ e = c @ rest" "dec c = be16 n @ padding @ m" "length c = blocks b (unat n + 2)"
    and m: "length m = unat n" "length padding = unat (pad_for (pt_cipher (cr_ssl cr) k) (ucast n + 2))" "length padding \<le> 32"
    and started: "b \<le> length fed" "length fed \<le> length c" and heard: "hears side p fit k h call inflight log"
  obtains s' where "read_packet cr cc call side s = Some (Inr s')" "idle cr side p fit k h rest s'"
    "tc_channel (ts_get side s') = tc_channel (ts_get side s)" "inflight (ts_net side s') = inflight (ts_net side s)"
    "log (ts_net side s') = log (ts_net side s) @ [m]"
proof -
  have b: "0 < b" "2 \<le> b" using ssl_unpaddedD(1) [OF deal, of k] by (simp_all add: b_def)
  have dvd: "b dvd length c" using blocks_bounds(1) [OF b(1)] c(3) by simp
  obtain q where q: "c = fed @ q" "e = q @ rest"
    using c(1) started(2) by (auto simp: append_eq_append_conv2)
  let ?t = "min (length c - length fed) (length e)"
  have t: "take ?t e = q" "drop ?t e = rest" using q by auto
  have c': "fed @ take ?t e @ [] = c" using q t by simp
  obtain s' cur where s': "alike side s s'" "receiving cr side p fit k h dec [cur] (fed @ take ?t e) (drop ?t e) s'"
    "oc_limited cur = None" "be16 n @ unread (clear_chunks side s') cur = take (length (whole b (fed @ take ?t e))) (dec c)"
    "read_packet cr cc call side s = (if length (whole b (fed @ take ?t e)) < unat n + 2
       then do { s \<leftarrow> leave_scope side cur s'; Some (Inl (MORE, s)) } else deliver cr cc call side n cur s')"
    unfolding b_def
    by (rule packet_read_on [OF rec deal dec [unfolded b_def] e refl c' c(2) c(3) [unfolded b_def] started(1) [unfolded b_def]], assumption)
  have all: "fed @ take ?t e = c" using c' by simp
  have "whole b c = c" using dvd by simp
  moreover have "length (dec c) = length c" by (rule dec [OF dvd])
  moreover have "unat n + 2 \<le> length c" using blocks_bounds(2) [OF b(1), of "unat n + 2"] c(3) by simp
  ultimately have run: "read_packet cr cc call side s = deliver cr cc call side n cur s'" "be16 n @ unread (clear_chunks side s') cur = be16 n @ padding @ m"
    using s'(4,5) c(2) unfolding all by simp_all
  then have un: "unread (clear_chunks side s') cur = padding @ m" by simp
  have rec': "receiving cr side p fit k h dec [cur] c rest s'" using s'(2) unfolding all t(2) .
  obtain s2 where "deliver cr cc call side n cur s' = Some (Inr s2)" "idle cr side p fit k h rest s2"
    "tc_channel (ts_get side s2) = tc_channel (ts_get side s')" "inflight (ts_net side s2) = inflight (ts_net side s')"
    "log (ts_net side s2) = log (ts_net side s') @ [m]"
    by (rule packet_delivered [OF rec' s'(3) deal dvd [unfolded b_def] c(2) m(1,2) un m(3) heard])
  with run(1) s'(1) show thesis by (intro that [of s2]) (simp_all add: alike_def)
qed

end

end
