(* ===== verification/TcpStreams.thy ===== *)
theory TcpStreams
  imports TcpEndpoints
begin

text \<open>
  A stream of messages that arrives in pieces: whatever the pieces are, the read loop of a connection hands the
  messages to the handler of its session, one after the other.
\<close>

section \<open>Where a read may stop\<close>

text \<open>The messages that the receiver can take; see below for the others.\<close>

definition good_frame :: "'x openssl \<Rightarrow> protector_kind \<Rightarrow> bytes \<times> bytes \<times> bytes \<Rightarrow> bool" where
  "good_frame ssl k f \<longleftrightarrow> frame_ok ssl k f \<and> (length (snd (snd f)) + 2) mod block_of ssl k \<noteq> 0"

text \<open>Of a frame, \<open>x\<close> was taken before, and \<open>e\<close> has not been looked at.\<close>

definition partway ::
    "('x, 'k) crypto \<Rightarrow> ('n, ('x, 'k, 'n, 'h, 'w, 'e) tcp_hub) tcp_side \<Rightarrow> nat \<Rightarrow> (('x, 'k, 'n, 'h, 'w, 'e) tcp_hub \<Rightarrow> bool) \<Rightarrow>
     protector_kind \<Rightarrow> 'h \<Rightarrow> (bytes \<Rightarrow> bytes \<Rightarrow> bytes) \<Rightarrow> bytes \<Rightarrow> bytes \<Rightarrow> ('x, 'k, 'n, 'h, 'w, 'e) tcp_hub \<Rightarrow> bool" where
  "partway cr side p fit k h decode x e s \<longleftrightarrow>
     (let l = prefix_length (cr_ssl cr) k
      in if length x < l then idle cr side p fit k h (x @ e) s
         else receiving cr side p fit k h (decode (take l x)) [] (drop l x) e s)"

context tcp_endpoint
begin

text \<open>The first three parts of a turn.\<close>

lemma turn_starts_waiting:
  fixes cr :: "('x, 'k) crypto" and k :: protector_kind
  assumes at: "partway cr side p fit k h decode x e s" and short: "length (x @ e) < prefix_length (cr_ssl cr) k"
  obtains s' where "read_step cr cc call side s = Some (Inl (MORE, s'))" "partway cr side p fit k h decode (x @ e) [] s'" "alike side s s'"
proof -
  have i: "idle cr side p fit k h (x @ e) s" using at short by (simp add: partway_def Let_def)
  obtain s1 where s1: "find_session cc side s = Some (Inr s1)" "idle cr side p fit k h (x @ e) s1" "tc_session (ts_get side s1) = Some p" "alike side s s1"
    by (rule session_found [OF i])
  obtain s2 where s2: "start_decoder cr cc side s1 = Some (Inl (MORE, s2))" "idle cr side p fit k h (x @ e) s2" "alike side s1 s2"
    by (rule start_waits [OF s1(2,3) short])
  show thesis using s1(1) s2 short alike_trans [OF s1(4) s2(3)]
    by (intro that [of s2]) (simp_all add: read_step_def and_then_def partway_def Let_def)
qed

lemma turn_starts:
  fixes cr :: "('x, 'k) crypto" and k :: protector_kind
  defines "b \<equiv> block_of (cr_ssl cr) k" and "l \<equiv> prefix_length (cr_ssl cr) k"
  assumes deal: "ssl_unpadded (cr_ssl cr) aes bf aes' bf'" "kind_ok k"
    and at: "partway cr side p fit k h (sealed (cr_ssl cr) aes' bf' k) x e s" and long: "l \<le> length (x @ e)"
    and short: "length e + 64 \<le> kRoundedSize" "length x < 2 ^ 32"
  obtains s' fed e' where "read_step cr cc call side s = read_packet cr cc call side s'" "alike side s s'"
    "receiving cr side p fit k h (sealed (cr_ssl cr) aes' bf' k (take l (x @ e))) [] fed e' s'" "fed @ e' = drop l (x @ e)"
    "length fed < b \<longrightarrow> e' = []" "length fed \<le> max b (length (drop l x))" "length e' \<le> length e"
proof -
  let ?D = "sealed (cr_ssl cr) aes' bf' k (take l (x @ e))"
  have start: "\<exists>s1 fed1 e1. and_then (find_session cc side s) (start_decoder cr cc side) = Some (Inr s1) \<and> alike side s s1 \<and>
      receiving cr side p fit k h ?D [] fed1 e1 s1 \<and> fed1 @ e1 = drop l (x @ e) \<and> fed1 = drop l x \<and> length e1 \<le> length e"
  proof (cases "length x < l")
    case True
    have "x @ e = take l (x @ e) @ drop l (x @ e)" by (simp only: append_take_drop_id)
    then have i: "idle cr side p fit k h (take l (x @ e) @ drop l (x @ e)) s" using at True by (simp add: partway_def Let_def l_def)
    obtain s1 where s1: "find_session cc side s = Some (Inr s1)" "idle cr side p fit k h (take l (x @ e) @ drop l (x @ e)) s1"
      "tc_session (ts_get side s1) = Some p" "alike side s s1" by (rule session_found [OF i])
    have len: "length (take l (x @ e)) = prefix_length (cr_ssl cr) k" using long by (simp add: l_def)
    obtain s2 where s2: "start_decoder cr cc side s1 = Some (Inr s2)" "alike side s1 s2" "receiving cr side p fit k h ?D [] [] (drop l (x @ e)) s2"
      by (rule start_succeeds [OF s1(2,3) len deal])
    show ?thesis
      by (intro exI [of _ s2] exI [of _ "[]"] exI [of _ "drop l (x @ e)"])
        (use s1(1) s2 True alike_trans [OF s1(4) s2(2)] in \<open>simp add: and_then_def\<close>)
  next
    case False
    then have "receiving cr side p fit k h ?D [] (drop l x) e s" using at by (simp add: partway_def Let_def l_def)
    moreover from this have "find_session cc side s = Some (Inr s)" by (simp add: receiving_def find_session_def)
    ultimately show ?thesis using start_goes_on False
      by (intro exI [of _ s] exI [of _ "drop l x"] exI [of _ e]) (auto simp: and_then_def)
  qed
  then obtain s1 fed1 e1 where s1: "and_then (find_session cc side s) (start_decoder cr cc side) = Some (Inr s1)" "alike side s s1"
    "receiving cr side p fit k h ?D [] fed1 e1 s1" "fed1 @ e1 = drop l (x @ e)" "fed1 = drop l x" "length e1 \<le> length e" by blast
  have dec: "length (?D m) = length m" if "block_of (cr_ssl cr) k dvd length m" for m using ssl_unpaddedD(5) [OF deal(1) that] .
  have bounds: "length e1 + 64 \<le> kRoundedSize" "length fed1 < 2 ^ 32" using s1(5,6) short by simp_all
  let ?t = "if length fed1 < block_of (cr_ssl cr) k then min (block_of (cr_ssl cr) k - length fed1) (length e1) else 0"
  obtain s2 where s2: "decode_size cr cc side s1 = Some (Inr s2)" "alike side s1 s2"
    "receiving cr side p fit k h ?D [] (fed1 @ take ?t e1) (drop ?t e1) s2"
    by (rule size_decoded [OF s1(3) deal(1) dec bounds refl])
  show thesis
  proof (rule that [of s2 "fed1 @ take ?t e1" "drop ?t e1"])
    show "read_step cr cc call side s = read_packet cr cc call side s2" using s1(1) s2(1) by (simp add: read_step_def and_then_def)
    show "alike side s s2" by (rule alike_trans [OF s1(2) s2(2)])
    show "receiving cr side p fit k h ?D [] (fed1 @ take ?t e1) (drop ?t e1) s2" by (rule s2(3))
    show "(fed1 @ take ?t e1) @ drop ?t e1 = drop l (x @ e)" using s1(4) by simp
    show "length (fed1 @ take ?t e1) < b \<longrightarrow> drop ?t e1 = []" by (auto simp: b_def)
    show "length (fed1 @ take ?t e1) \<le> max b (length (drop l x))" unfolding s1(5) [symmetric] by (auto simp: b_def)
    show "length (drop ?t e1) \<le> length e" using s1(6) by simp
  qed
qed

end

section \<open>A turn\<close>

text \<open>What the decoder of a frame is given, and what it makes of it.\<close>

lemma good_frameE:
  assumes "good_frame ssl k f" "ssl_unpadded ssl aes bf aes' bf'"
  obtains salt padding m c where "f = (salt, padding, m)" "frame ssl aes bf k f = salt @ c" "length salt = prefix_length ssl k"
    "sealed ssl aes' bf' k salt c = be16 (of_nat (length m)) @ padding @ m" "length m = unat (of_nat (length m) :: u16)"
    "length c = blocks (block_of ssl k) (unat (of_nat (length m) :: u16) + 2)"
    "length padding = unat (pad_for (pt_cipher ssl k) (ucast (of_nat (length m) :: u16) + 2))" "length padding \<le> 32" "length c < 70000"
proof -
  obtain salt padding m where f: "f = (salt, padding, m)" by (cases f)
  have ok: "frame_ok ssl k (salt, padding, m)" "(length m + 2) mod block_of ssl k \<noteq> 0" using assms(1) by (simp_all add: good_frame_def f)
  note facts = frame_lengths [OF assms(2) ok]
  note b = ssl_unpaddedD(1,2) [OF assms(2), of k]
  have m: "length m \<le> uint16_max" using ok(1) by (simp add: frame_ok_def)
  have conv: "(ucast (of_nat (length m) :: u16) :: u32) = of_nat (length m)"
    by (intro word_unat_eq_iff [THEN iffD2]) (use m in \<open>simp add: unsigned_ucast_eq unat_of_nat take_bit_nat_eq_self uint16_max_def\<close>)
  have "length padding = block_of ssl k - (length m + 2) mod block_of ssl k"
    using pad_length [of "pt_cipher ssl k" "length m + 2"] b ok(1) by (simp add: frame_ok_def uint16_max_def add.commute)
  then have "length padding \<le> 32" using b(2) by simp
  moreover have "blocks (block_of ssl k) (length m + 2) < 70000"
    using blocks_bounds(3) [of "block_of ssl k" "length m + 2"] b m by (simp add: uint16_max_def)
  ultimately show thesis
    by (intro that [of salt padding m "sealed ssl aes bf k salt (frame_text (salt, padding, m))"])
      (use ok(1) facts conv in \<open>simp_all add: f frame_def frame_ok_def frame_text_def\<close>)
qed

context tcp_endpoint
begin

lemma turn_part:
  fixes cr :: "('x, 'k) crypto" and k :: protector_kind
  assumes deal: "ssl_unpadded (cr_ssl cr) aes bf aes' bf'" "kind_ok k"
    and at: "partway cr side p fit k h (sealed (cr_ssl cr) aes' bf' k) x e s" and e: "length e + 64 \<le> kRoundedSize"
    and f: "good_frame (cr_ssl cr) k f" "frame (cr_ssl cr) aes bf k f = x @ e @ q" "q \<noteq> []" "length x < 2 ^ 32"
  obtains s' where "read_step cr cc call side s = Some (Inl (MORE, s'))" "alike side s s'"
    "partway cr side p fit k h (sealed (cr_ssl cr) aes' bf' k) (x @ e) [] s'"
proof (cases "length (x @ e) < prefix_length (cr_ssl cr) k")
  case True
  from turn_starts_waiting [OF at True] show thesis using that by metis
next
  case False
  let ?l = "prefix_length (cr_ssl cr) k"
  obtain salt padding m c where c: "f = (salt, padding, m)" "frame (cr_ssl cr) aes bf k f = salt @ c" "length salt = ?l"
    "sealed (cr_ssl cr) aes' bf' k salt c = be16 (of_nat (length m)) @ padding @ m" "length m = unat (of_nat (length m) :: u16)"
    "length c = blocks (block_of (cr_ssl cr) k) (unat (of_nat (length m) :: u16) + 2)"
    by (rule good_frameE [OF f(1) deal(1)])
  have long: "?l \<le> length (x @ e)" using False by simp
  have salt: "take ?l (x @ e) = salt"
    using f(2) c(2,3) long by (metis append_assoc append_eq_conv_conj take_append take_all_iff diff_is_0_eq take_0 append_Nil2)
  have rest: "drop ?l (x @ e) @ q = c"
    using f(2) c(2,3) long by (metis append_assoc append_eq_conv_conj drop_append diff_is_0_eq drop_0)
  obtain s1 fed e1 where s1: "read_step cr cc call side s = read_packet cr cc call side s1" "alike side s s1"
    "receiving cr side p fit k h (sealed (cr_ssl cr) aes' bf' k (take ?l (x @ e))) [] fed e1 s1" "fed @ e1 = drop ?l (x @ e)"
    "length fed < block_of (cr_ssl cr) k \<longrightarrow> e1 = []" "length e1 \<le> length e"
    by (rule turn_starts [OF deal at long e f(4)])
  have c1: "fed @ e1 @ q = c" using s1(4) rest by (metis append_assoc)
  have e1: "length e1 + 64 \<le> kRoundedSize" using s1(6) e by simp
  have dec: "length (sealed (cr_ssl cr) aes' bf' k salt m) = length m" if "block_of (cr_ssl cr) k dvd length m" for m
    using ssl_unpaddedD(5) [OF deal(1) that] .
  obtain s2 where s2: "read_packet cr cc call side s1 = Some (Inl (MORE, s2))"
    "receiving cr side p fit k h (sealed (cr_ssl cr) aes' bf' k salt) [] (fed @ e1) [] s2" "alike side s1 s2"
    by (rule packet_part [OF s1(3) [unfolded salt] deal(1) dec e1 c1 f(3) c(4,6) s1(5)])
  show thesis using s1(1) s2 s1(4) salt False alike_trans [OF s1(2) s2(3)] by (intro that [of s2]) (simp_all add: partway_def Let_def)
qed

lemma turn_whole:
  fixes cr :: "('x, 'k) crypto" and k :: protector_kind
  assumes deal: "ssl_unpadded (cr_ssl cr) aes bf aes' bf'" "kind_ok k"
    and at: "partway cr side p fit k h (sealed (cr_ssl cr) aes' bf' k) x (e @ rest) s" and e: "length (e @ rest) + 64 \<le> kRoundedSize"
    and f: "good_frame (cr_ssl cr) k f" "frame (cr_ssl cr) aes bf k f = x @ e" "length x < 2 ^ 32"
    and heard: "hears side p fit k h call inflight log"
  obtains s' where "read_step cr cc call side s = Some (Inr s')" "partway cr side p fit k h (sealed (cr_ssl cr) aes' bf' k) [] rest s'"
    "tc_channel (ts_get side s') = tc_channel (ts_get side s)" "inflight (ts_net side s') = inflight (ts_net side s)"
    "log (ts_net side s') = log (ts_net side s) @ [snd (snd f)]"
proof -
  let ?l = "prefix_length (cr_ssl cr) k"
  obtain salt padding m c where c: "f = (salt, padding, m)" "frame (cr_ssl cr) aes bf k f = salt @ c" "length salt = ?l"
    "sealed (cr_ssl cr) aes' bf' k salt c = be16 (of_nat (length m)) @ padding @ m" "length m = unat (of_nat (length m) :: u16)"
    "length c = blocks (block_of (cr_ssl cr) k) (unat (of_nat (length m) :: u16) + 2)"
    "length padding = unat (pad_for (pt_cipher (cr_ssl cr) k) (ucast (of_nat (length m) :: u16) + 2))" "length padding \<le> 32"
    by (rule good_frameE [OF f(1) deal(1)])
  have whole: "x @ e @ rest = salt @ c @ rest" using f(2) c(2) by simp
  have long: "?l \<le> length (x @ e @ rest)" unfolding whole using c(3) by simp
  have salt: "take ?l (x @ e @ rest) = salt" "drop ?l (x @ e @ rest) = c @ rest" unfolding whole using c(3) by simp_all
  have b: "0 < block_of (cr_ssl cr) k" using ssl_unpaddedD(1) [OF deal(1), of k] by simp
  have b_c: "block_of (cr_ssl cr) k \<le> length c" unfolding c(6) by (rule blocks_bounds(4) [OF b]) simp
  have x_c: "length (drop ?l x) \<le> length c" using arg_cong [OF f(2), of length] c(2,3) by simp
  obtain s1 fed e1 where s1: "read_step cr cc call side s = read_packet cr cc call side s1" "alike side s s1"
    "receiving cr side p fit k h (sealed (cr_ssl cr) aes' bf' k (take ?l (x @ e @ rest))) [] fed e1 s1" "fed @ e1 = drop ?l (x @ e @ rest)"
    "length fed < block_of (cr_ssl cr) k \<longrightarrow> e1 = []" "length fed \<le> max (block_of (cr_ssl cr) k) (length (drop ?l x))" "length e1 \<le> length (e @ rest)"
    by (rule turn_starts [OF deal at long e f(3)])
  have c1: "fed @ e1 = c @ rest" using s1(4) salt by simp
  have e1: "length e1 + 64 \<le> kRoundedSize" using s1(7) e by simp
  have fed: "block_of (cr_ssl cr) k \<le> length fed" 
  proof (rule ccontr)
    assume "\<not> block_of (cr_ssl cr) k \<le> length fed"
    moreover from this have "fed = c @ rest" using s1(5) c1 by simp
    ultimately show False using b_c by simp
  qed
  have fed_c: "length fed \<le> length c" using s1(6) b_c x_c by simp
  have dec: "length (sealed (cr_ssl cr) aes' bf' k salt m) = length m" if "block_of (cr_ssl cr) k dvd length m" for m
    using ssl_unpaddedD(5) [OF deal(1) that] .
  obtain s2 where s2: "read_packet cr cc call side s1 = Some (Inr s2)" "idle cr side p fit k h rest s2"
    "tc_channel (ts_get side s2) = tc_channel (ts_get side s1)" "inflight (ts_net side s2) = inflight (ts_net side s1)"
    "log (ts_net side s2) = log (ts_net side s1) @ [m]"
    by (rule packet_whole [OF s1(3) [unfolded salt] deal(1) dec e1 c1 c(4,6,5,7,8) fed fed_c heard])
  have "0 < ?l" using ssl_unpaddedD(7) [OF deal(1)] .
  with s1(1,2) s2 show thesis by (intro that [of s2]) (simp_all add: partway_def Let_def alike_def c(1))
qed

lemma something_left:
  assumes "partway cr side p fit k h decode x e s"
  obtains n where "oc_left (fst (tc_in_encrypted (ts_get side s))) (snd (tc_in_encrypted (ts_get side s))) = Some n" "n = 0 \<longrightarrow> e = []"
proof -
  obtain cs own where enc: "tc_in_encrypted (ts_get side s) = (cs, own)" by fastforce
  obtain bs where bs: "used [] [] (cs, own)" "reader_contents (cs, own) = bs" "bs = [] \<longrightarrow> e = []"
    using assms by (auto simp: partway_def Let_def idle_def receiving_def source_def enc split: if_splits)
  then have "oc_left cs own = Some (length bs)"
    using left_size [of cs own "[]"] by (simp add: used_def reader_ok_def readable_def reader_contents_def)
  with bs(3) show thesis by (intro that [of "length bs"]) (simp_all add: enc)
qed

lemma loop_delivers:
  fixes cr :: "('x, 'k) crypto" and k :: protector_kind
  assumes deal: "ssl_unpadded (cr_ssl cr) aes bf aes' bf'" "kind_ok k" and heard: "hears side p fit k h call inflight log"
    and f: "good_frame (cr_ssl cr) k f" "frame (cr_ssl cr) aes bf k f = y @ q" "q \<noteq> []"
  shows "partway cr side p fit k h (sealed (cr_ssl cr) aes' bf' k) x e s \<Longrightarrow> length e + 64 \<le> kRoundedSize \<Longrightarrow> length (x @ e) < 2 ^ 32 \<Longrightarrow>
    list_all (good_frame (cr_ssl cr) k) fs \<Longrightarrow> x @ e = concat (map (frame (cr_ssl cr) aes bf k) fs) @ y \<Longrightarrow>
    frame (cr_ssl cr) aes bf k (hd (fs @ [f])) = x @ v \<Longrightarrow> v \<noteq> [] \<Longrightarrow>
    \<exists>s'. read_loop cr cc call side s = Some (MORE, s') \<and> partway cr side p fit k h (sealed (cr_ssl cr) aes' bf' k) y [] s' \<and>
      tc_channel (ts_get side s') = tc_channel (ts_get side s) \<and> inflight (ts_net side s') = inflight (ts_net side s) \<and>
      log (ts_net side s') = log (ts_net side s) @ map (\<lambda>f. snd (snd f)) fs"
proof (induction fs arbitrary: x e s v)
  case Nil
  then have y: "y = x @ e" by simp
  obtain n where n: "oc_left (fst (tc_in_encrypted (ts_get side s))) (snd (tc_in_encrypted (ts_get side s))) = Some n" "n = 0 \<longrightarrow> e = []"
    by (rule something_left [OF Nil.prems(1)])
  show ?case
  proof (cases "n = 0")
    case True
    then have "read_loop cr cc call side s = Some (MORE, s)" using n(1) by (subst read_loop.simps) simp
    with Nil.prems(1) n(2) True y show ?thesis by auto
  next
    case False
    have fr: "frame (cr_ssl cr) aes bf k f = x @ e @ q" and x: "length x < 2 ^ 32" using f(2) y Nil.prems(3) by simp_all
    obtain s' where s': "read_step cr cc call side s = Some (Inl (MORE, s'))" "alike side s s'"
      "partway cr side p fit k h (sealed (cr_ssl cr) aes' bf' k) (x @ e) [] s'"
      by (rule turn_part [OF deal Nil.prems(1,2) f(1) fr f(3) x])
    then have "read_loop cr cc call side s = Some (MORE, s')" using n(1) False by (subst read_loop.simps) simp
    with s' y show ?thesis by (auto simp: alike_def)
  qed
next
  case (Cons g fs)
  let ?rest = "concat (map (frame (cr_ssl cr) aes bf k) fs) @ y"
  have g: "good_frame (cr_ssl cr) k g" "frame (cr_ssl cr) aes bf k g = x @ v" and fs: "list_all (good_frame (cr_ssl cr) k) fs"
    using Cons.prems(4,6) by simp_all
  then have e: "e = v @ ?rest" using Cons.prems(5) by simp
  have x: "length x < 2 ^ 32" using Cons.prems(3) by simp
  obtain n where n: "oc_left (fst (tc_in_encrypted (ts_get side s))) (snd (tc_in_encrypted (ts_get side s))) = Some n" "n = 0 \<longrightarrow> e = []"
    by (rule something_left [OF Cons.prems(1)])
  obtain s1 where s1: "read_step cr cc call side s = Some (Inr s1)" "partway cr side p fit k h (sealed (cr_ssl cr) aes' bf' k) [] ?rest s1"
    "tc_channel (ts_get side s1) = tc_channel (ts_get side s)" "inflight (ts_net side s1) = inflight (ts_net side s)"
    "log (ts_net side s1) = log (ts_net side s) @ [snd (snd g)]"
    by (rule turn_whole [OF deal Cons.prems(1) [unfolded e] Cons.prems(2) [unfolded e] g x heard])
  have run: "read_loop cr cc call side s = read_loop cr cc call side s1"
    using n s1(1) Cons.prems(7) e by (subst read_loop.simps) auto
  have next_frame: "good_frame (cr_ssl cr) k (hd (fs @ [f]))" using fs f(1) by (cases fs) simp_all
  have "0 < prefix_length (cr_ssl cr) k" using ssl_unpaddedD(7) [OF deal(1)] .
  then have ne: "frame (cr_ssl cr) aes bf k (hd (fs @ [f])) \<noteq> []"
    by (rule_tac good_frameE [OF next_frame deal(1)]) auto
  have short: "length ?rest + 64 \<le> kRoundedSize" "length ([] @ ?rest) < 2 ^ 32" using Cons.prems(2,3) unfolding e by simp_all
  from Cons.IH [OF s1(2) short fs _ _ ne] run s1(3-5) show ?case by simp
qed

end

section \<open>A read\<close>

text \<open>
  The sockets: \<open>stream_documented\<close>, with reads that leave a little of the room of a buffer, and that have nothing to do
  with the list of the messages that were heard.
\<close>

definition stream_reads :: "('n, 'e) bound_channel_scheme \<Rightarrow> ('n \<Rightarrow> bytes) \<Rightarrow> ('n \<Rightarrow> bytes list) \<Rightarrow> bool" where
  "stream_reads channel inflight log \<longleftrightarrow> stream_documented channel inflight \<and>
     (\<forall>s n status s' n'. bc_Read channel s n = Some (status, s', n') \<longrightarrow> log n' = log n \<and>
        length (inflight n) + 64 \<le> length (inflight n') + kRoundedSize)"

lemma used_tidy: "used [] [] r \<longleftrightarrow> tidy [] r \<and> length (reader_contents r) < 2 ^ 32"
  by (auto simp: used_def tidy_def reader_ok_def readable_def reader_contents_def all_used_gap_free)

definition tcp_arrived ::
    "('n, ('x, 'k, 'n, 'h, 'w, 'e) tcp_hub) tcp_side \<Rightarrow> chunkset \<Rightarrow> 'n \<Rightarrow> ('x, 'k, 'n, 'h, 'w, 'e) tcp_hub \<Rightarrow> ('x, 'k, 'n, 'h, 'w, 'e) tcp_hub" where
  "tcp_arrived side cs n s =
     ts_put side ((ts_get side s)\<lparr>tc_in_encrypted := (cs, snd (tc_in_encrypted (ts_get side s)))\<rparr>) (ts_put_net side n s)"

context tcp_endpoint
begin

lemma bytes_arrive:
  fixes cr :: "('x, 'k) crypto" and k :: protector_kind
  assumes at: "partway cr side p fit k h decode x [] s"
    and run: "ic_commit (ic_reserve (fst (tc_in_encrypted (ts_get side s))) n) bs = Some cs" "bs \<noteq> []" and short: "length (x @ bs) < 2 ^ 32"
  shows "partway cr side p fit k h decode x bs (tcp_arrived side cs w s)" "ts_net side (tcp_arrived side cs w s) = w"
    "tc_channel (ts_get side (tcp_arrived side cs w s)) = tc_channel (ts_get side s)"
proof -
  obtain s0 own where enc: "tc_in_encrypted (ts_get side s) = (s0, own)" by fastforce
  have steady: "steady side p fit k h s" using at by (auto simp: partway_def Let_def idle_def receiving_def split: if_splits)
  then have fit: "fit s" "fit (ts_put_net side w s)" by (simp_all add: steady_def net_fit)
  have sessions: "session_at p (ts_put_net side w s) = session_at p s" by (simp add: session_at_def net_others(3))
  show "ts_net side (tcp_arrived side cs w s) = w" "tc_channel (ts_get side (tcp_arrived side cs w s)) = tc_channel (ts_get side s)"
    using fit by (simp_all add: tcp_arrived_def put_others get_put net_others(1))
  define e where "e = (if length x < prefix_length (cr_ssl cr) k then x else [])"
  have e: "used [] [] (s0, own)" "reader_contents (s0, own) = e" "e = (if length x < prefix_length (cr_ssl cr) k then x else [])"
    using at by (auto simp: partway_def Let_def idle_def receiving_def source_def enc e_def split: if_splits)
  have tidy: "tidy [] (s0, own)" using e(1) by (simp add: used_tidy)
  have run0: "ic_commit (ic_reserve s0 n) bs = Some cs" using run(1) by (simp add: enc)
  note came = read_arrives [OF tidy run0 run(2)]
  have "used [] [] (cs, own)" using came(1,2) e(2,3) short by (simp add: used_tidy)
  then have src: "used [] [] (cs, own)" "reader_contents (cs, own) = e @ bs" "length bs \<le> length (last_data cs)"
    using came(2,3) e(2) by simp_all
  show "partway cr side p fit k h decode x bs (tcp_arrived side cs w s)"
    using at fit src e(3)
    by (auto simp: partway_def Let_def idle_def receiving_def steady_def tcp_arrived_def get_put put_fit put_others net_others sessions
        source_def sink_def enc)
qed

lemma one_tcp_read:
  fixes cr :: "('x, 'k) crypto" and k :: protector_kind
  assumes deal: "ssl_unpadded (cr_ssl cr) aes bf aes' bf'" "kind_ok k" and heard: "hears side p fit k h call inflight log"
    and doc: "stream_reads channel inflight log"
    and channel: "channel = tc_channel (ts_get side s)"
    and at: "partway cr side p fit k h (sealed (cr_ssl cr) aes' bf' k) x [] s"
    and stream: "x @ inflight (ts_net side s) = concat (map (frame (cr_ssl cr) aes bf k) fs)" "list_all (good_frame (cr_ssl cr) k) fs"
      "length (concat (map (frame (cr_ssl cr) aes bf k) fs)) < 2 ^ 32" "inflight (ts_net side s) \<noteq> []"
    and cut: "cut_in (frame (cr_ssl cr) aes bf k) x fs"
  obtains s' fs1 fs2 y where "tcp_HandleRead cr cc call side s = Some (MORE, s')" "fs = fs1 @ fs2"
    "partway cr side p fit k h (sealed (cr_ssl cr) aes' bf' k) y [] s'" "tc_channel (ts_get side s') = channel"
    "y @ inflight (ts_net side s') = concat (map (frame (cr_ssl cr) aes bf k) fs2)" "cut_in (frame (cr_ssl cr) aes bf k) y fs2"
    "length (inflight (ts_net side s')) < length (inflight (ts_net side s))"
    "log (ts_net side s') = log (ts_net side s) @ map (\<lambda>f. snd (snd f)) fs1"
proof -
  let ?c = "ts_get side s" and ?n = "ts_net side s"
  let ?wire = "frame (cr_ssl cr) aes bf k"
  have "0 < kReadSize" by (simp add: kReadSize_def)
  then have "ic_contiguous (ic_reserve (fst (tc_in_encrypted ?c)) kReadSize) \<noteq> 0"
    using reserve_room [of kReadSize "fst (tc_in_encrypted ?c)"] by linarith
  moreover have "stream_documented channel inflight" using doc by (simp add: stream_reads_def)
  ultimately obtain bs cs n' where
    rd: "bc_Read channel (ic_reserve (fst (tc_in_encrypted ?c)) kReadSize) ?n = Some (OK, cs, n')"
      "ic_commit (ic_reserve (fst (tc_in_encrypted ?c)) kReadSize) bs = Some cs" "bs \<noteq> []" "inflight ?n = bs @ inflight n'"
    using stream(4) unfolding stream_documented_def by blast
  have "log n' = log ?n \<and> length (inflight ?n) + 64 \<le> length (inflight n') + kRoundedSize"
    using doc rd(1) unfolding stream_reads_def by blast
  with rd(4) have quiet: "log n' = log ?n" "length bs + 64 \<le> kRoundedSize" by simp_all
  have total: "(x @ bs) @ inflight n' = concat (map ?wire fs)" using stream(1) rd(4) by simp
  then have short: "length (x @ bs) < 2 ^ 32" using stream(3) by (metis length_append add_lessD1)
  let ?s = "tcp_arrived side cs n' s"
  note arrived = bytes_arrive [OF at rd(2,3) short, of n']
  have run: "tcp_HandleRead cr cc call side s = read_loop cr cc call side ?s"
    using rd(1) channel by (simp add: tcp_HandleRead_def tcp_arrived_def Let_def)
  obtain fs1 fs2 y where c: "fs = fs1 @ fs2" "x @ bs = concat (map ?wire fs1) @ y" "y @ inflight n' = concat (map ?wire fs2)" "cut_in ?wire y fs2"
    using cut_stream [OF total] by blast
  have good: "list_all (good_frame (cr_ssl cr) k) fs1" "list_all (good_frame (cr_ssl cr) k) fs2" using stream(2) by (simp_all add: c(1))
  obtain v where v: "?wire (hd fs) = x @ v" "v \<noteq> []" "fs \<noteq> []"
    using cut stream(1,4) by (cases "fs = []") (auto simp: cut_in_def)
  have ne: "?wire g \<noteq> []" if "good_frame (cr_ssl cr) k g" for g
    using ssl_unpaddedD(7) [OF deal(1), of k] by (rule_tac good_frameE [OF that deal(1)]) auto
  have "\<exists>f q. good_frame (cr_ssl cr) k f \<and> ?wire f = y @ q \<and> q \<noteq> [] \<and> ?wire (hd (fs1 @ [f])) = x @ v"
  proof (cases fs2)
    case Nil
    then have "y = []" "fs1 = fs" using c(1,4) by (simp_all add: cut_in_def)
    with good(1) ne v show ?thesis by (intro exI [of _ "hd fs"] exI [of _ "?wire (hd fs)"]) (cases fs; simp)
  next
    case (Cons g fs3)
    then obtain q where "?wire g = y @ q" "q \<noteq> []" using c(4) by (auto simp: cut_in_def)
    moreover have "hd (fs1 @ [g]) = hd fs" using c(1) Cons by (cases fs1) simp_all
    ultimately show ?thesis using good(2) v(1) Cons by (intro exI [of _ g] exI [of _ q]) simp
  qed
  then obtain f q where f: "good_frame (cr_ssl cr) k f" "?wire f = y @ q" "q \<noteq> []" "?wire (hd (fs1 @ [f])) = x @ v" by blast
  from loop_delivers [OF deal heard f(1-3) arrived(1) quiet(2) short good(1) c(2) f(4) v(2)] obtain s' where
    "read_loop cr cc call side ?s = Some (MORE, s')" "partway cr side p fit k h (sealed (cr_ssl cr) aes' bf' k) y [] s'"
    "tc_channel (ts_get side s') = tc_channel (ts_get side ?s)" "inflight (ts_net side s') = inflight (ts_net side ?s)"
    "log (ts_net side s') = log (ts_net side ?s) @ map (\<lambda>f. snd (snd f)) fs1" by blast
  then show thesis
    using run c arrived(2,3) channel rd(3,4) quiet(1) by (intro that [of s' fs1 fs2 y]) simp_all
qed

end

end
