(* ===== verification/TcpMessages.thy ===== *)
theory TcpMessages
  imports TcpStreams
begin

text \<open>
  The sender of a stream writes the frames that the receiver takes apart: messages from a client to the handler of its
  session on the server.
\<close>

section \<open>A step of the encoder\<close>

lemma Encoder_Continue_pours:
  fixes lib :: "'x evp_lib"
  defines "b \<equiv> unat (EVP_CIPHER_block_size lib)"
  assumes b: "2 \<le> b" "b \<le> 32"
    and fed: "fed_to (EVP_EncryptUpdate lib) b E (encrypted_bytes lib) fed x" and E: "\<And>m. b dvd length m \<Longrightarrow> length (E m) = length m"
    and src: "readable s cur others" "oc_limited cur = None" "length (unread s cur) + 64 \<le> kRoundedSize" and d: "open_out curs d"
  obtains s' cur' d' x' out where "Encoder_Continue lib (s, cur) d x = Some (True, (s', cur'), d', x')"
    "advanced s cur others (length (unread s cur)) s' cur'"
    "fed_to (EVP_EncryptUpdate lib) b E (encrypted_bytes lib) (fed @ unread s cur) x'"
    "E (whole b fed) @ out = E (whole b (fed @ unread s cur))" "poured curs d out d'"
proof -
  let ?m = "unread s cur" and ?n = "length (unread s cur)"
  have left: "oc_left s cur = Some ?n" using left_size [of s cur others] src(1,2) by (simp add: readable_def)
  have "?n + 32 < 2 ^ 32" "EVP_CIPHER_block_size lib \<le> 32" using src(3) b(2) by (simp_all add: kRoundedSize_def b_def word_le_nat_alt)
  from room_for_left [OF this(2,1)] have room: "room_for lib ?n = ?n + b" by (simp add: b_def)
  have fits: "?n + b \<le> kRoundedSize" using src(3) b(2) by simp
  let ?d = "ic_reserve d (?n + b)"
  note reserved = reserve_open [OF d fits]
  have chunks: "cs_chunks ?d \<noteq> []" using b(1) by (intro reserve_chunks) simp
  have chain: "chain_inv ?d (map oc_prev curs)" using reserved by (simp add: poured_def open_out_def buf_inv_def)
  obtain cs s' cur' where loop: "concat cs = ?m" "advanced s cur others ?n s' cur'"
    "\<And>d y out y' ps. evp_updates (EVP_EncryptUpdate lib) y cs = Some (out, y') \<Longrightarrow> chain_inv d ps \<Longrightarrow> cs_chunks d \<noteq> [] \<Longrightarrow>
       length out \<le> ic_contiguous d \<Longrightarrow> \<exists>d'. encrypt_loop lib (s, cur) d y = Some (True, (s', cur'), d', y') \<and> filled ps d out d'"
    using encryption.loop_runs [OF src(1,2), of lib] by blast
  obtain out x' where out: "evp_updates (EVP_EncryptUpdate lib) x cs = Some (out, x')" "E (whole b fed) @ out = E (whole b (fed @ concat cs))"
    "fed_to (EVP_EncryptUpdate lib) b E (encrypted_bytes lib) (fed @ concat cs) x'"
    by (rule fed_to_updates [OF fed])
  have "length (E (whole b fed)) + length out = length (E (whole b (fed @ ?m)))" using out(2) loop(1) by (metis length_append)
  then have out_len: "length fed - length fed mod b + length out = length fed + ?n - (length fed + ?n) mod b"
    by (simp add: E whole_dvd whole_length)
  have "length fed mod b < b" using b(1) by (intro mod_less_divisor) simp
  moreover have "length fed - length fed mod b + length fed mod b = length fed" by simp
  ultimately have "length out \<le> ?n + b" using out_len by linarith
  then have "length out \<le> ic_contiguous ?d" by (rule order_trans [OF _ reserve_room])
  from loop(3) [OF out(1) chain chunks this] obtain d' where
    d': "encrypt_loop lib (s, cur) ?d x = Some (True, (s', cur'), d', x')" "filled (map oc_prev curs) ?d out d'" by blast
  have grows: "grows d out d'" using reserved d'(2) grows_trans [of d "[]" ?d out d'] by (simp add: poured_def filled_def)
  have "buf_inv d curs" using d by (simp add: open_out_def)
  then have "buf_inv d' curs" by (rule buf_inv_grows [OF _ _ grows]) (use d'(2) in \<open>simp add: filled_def\<close>)
  then have "poured curs d out d'" using d'(2) grows reserved by (simp add: poured_def open_out_def filled_def)
  with d'(1) left room loop(1,2) out(2,3) show thesis by (intro that [of s' cur' d' x' out]) (simp_all add: Encoder_Continue_def)
qed

section \<open>A frame is written\<close>

lemma encoder_starts_unpadded:
  assumes doc: "ssl_unpadded ssl aes bf aes' bf'" "kind_ok (pt_kind pt)" and rl: "rc4_documented rl" "entropic (Suc n) prng"
    and len: "prefix_length ssl (pt_kind pt) \<le> length stale" "prefix_length ssl (pt_kind pt) \<le> kRoundedSize" and d: "open_out curs d"
  obtains prng' d' x salt where "encoder_Start ssl rl stale prng d NoPadding pt = Some (True, prng', d', pt\<lparr>pt_ctx := x\<rparr>)"
    "length salt = prefix_length ssl (pt_kind pt)" "poured curs d salt d'" "entropic n prng'" "enciphers ssl aes bf (pt_kind pt) salt [] x"
proof -
  let ?n = "prefix_length ssl (pt_kind pt)"
  obtain salt p' where salt: "Get rl (take ?n stale) prng = Some (salt, p')" "length salt = ?n" "entropic n p'"
    using Get_returns [OF rl, of "take ?n stale"] len(1) by auto
  note reserved = reserve_open [OF d len(2)]
  have pos: "0 < ?n" using ssl_unpaddedD(7) [OF doc(1)] .
  have "open_out curs (ic_reserve d ?n)" using reserved by (simp add: poured_def)
  moreover have "length salt \<le> ic_contiguous (ic_reserve d ?n)" using salt(2) reserve_room by metis
  ultimately obtain d' where d': "ic_commit (ic_reserve d ?n) salt = Some d'" "poured curs (ic_reserve d ?n) salt d'"
    by (rule commit_open [OF _ _ reserve_chunks [OF pos]])
  have poured: "poured curs d salt d'" using poured_trans [OF reserved d'(2)] by simp
  show thesis
  proof (cases "pt_kind pt")
    case (AesSession key)
    have "unpadded_documented (kAES_256_CBC ssl) aes aes'" "length key = EVP_CIPHER_key_length (kAES_256_CBC ssl)"
      "EVP_CIPHER_iv_length (kAES_256_CBC ssl) \<le> length salt"
      using doc salt(2) AesSession by (simp_all add: ssl_unpadded_def)
    from unpadded_starts [OF this] obtain x1 where "Encoder_Start (kAES_256_CBC ssl) key salt NoPadding (pt_ctx pt) = (True, x1)"
      "fed_to (EVP_EncryptUpdate (kAES_256_CBC ssl)) (unat (EVP_CIPHER_block_size (kAES_256_CBC ssl)))
        (aes key (take (EVP_CIPHER_iv_length (kAES_256_CBC ssl)) salt)) (encrypted_bytes (kAES_256_CBC ssl)) [] x1" by metis
    moreover have "sealed ssl aes bf (AesSession key) salt = aes key salt" by (rule ext) simp
    ultimately show thesis using salt d'(1) poured AesSession
      by (intro that [of p' d' x1 salt]) (simp_all add: encoder_Start_def AesEncoder_Start_def)
  next
    case ScrambleSession
    have "unpadded_documented (kBF_CBC ssl) bf bf'" "length salt = EVP_CIPHER_key_length (kBF_CBC ssl)"
      "EVP_CIPHER_iv_length (kBF_CBC ssl) \<le> length salt"
      using doc salt(2) ScrambleSession by (simp_all add: ssl_unpadded_def)
    from unpadded_starts [OF this] obtain x1 where "Encoder_Start (kBF_CBC ssl) salt salt NoPadding (pt_ctx pt) = (True, x1)"
      "fed_to (EVP_EncryptUpdate (kBF_CBC ssl)) (unat (EVP_CIPHER_block_size (kBF_CBC ssl)))
        (bf salt (take (EVP_CIPHER_iv_length (kBF_CBC ssl)) salt)) (encrypted_bytes (kBF_CBC ssl)) [] x1" by metis
    moreover have "sealed ssl aes bf ScrambleSession salt = bf salt (take (EVP_CIPHER_iv_length (kBF_CBC ssl)) salt)" by (rule ext) simp
    ultimately show thesis using salt d'(1) poured ScrambleSession doc(1)
      by (intro that [of p' d' x1 salt]) (simp_all add: encoder_Start_def ScrambleEncoder_Start_def ssl_unpadded_def)
  qed
qed

lemma frame_written:
  fixes cr :: "('x, 'k) crypto" and e :: "'x protector"
  defines "k \<equiv> pt_kind e"
  assumes doc: "ssl_unpadded (cr_ssl cr) aes bf aes' bf'" "kind_ok k" and rl: "rc4_documented (cr_rc4 cr)" "entropic (Suc (Suc n)) prng"
    and memory: "\<And>p. 255 \<le> length (cr_memory cr p)" "prefix_length (cr_ssl cr) k \<le> 255"
    and src: "readable s cur others" "oc_limited cur = None" "length (unread s cur) + 64 \<le> kRoundedSize"
    and len: "(length (unread s cur) + 2) mod block_of (cr_ssl cr) k \<noteq> 0" and d: "open_out curs d"
  obtains e' prng' s' cur' d' salt padding where "encode_frame cr e prng (s, cur) d = Some (True, e', prng', (s', cur'), d')" "pt_kind e' = k"
    "entropic n prng'" "advanced s cur others (length (unread s cur)) s' cur'" "good_frame (cr_ssl cr) k (salt, padding, unread s cur)"
    "poured curs d (frame (cr_ssl cr) aes bf k (salt, padding, unread s cur)) d'"
proof -
  let ?m = "unread s cur" and ?lib = "pt_cipher (cr_ssl cr) k" and ?b = "block_of (cr_ssl cr) k"
  note b = ssl_unpaddedD(1,2) [OF doc(1), of k]
  have m: "length ?m \<le> uint16_max" using src(3) by (simp add: kRoundedSize_def uint16_max_def)
  have stale: "prefix_length (cr_ssl cr) (pt_kind e) \<le> length (cr_memory cr prng)" "prefix_length (cr_ssl cr) (pt_kind e) \<le> kRoundedSize"
    using memory(1) [of prng] memory(2) by (simp_all add: k_def kRoundedSize_def)
  have kind: "kind_ok (pt_kind e)" using doc(2) by (simp add: k_def)
  obtain prng1 d1 x1 salt where start: "encoder_Start (cr_ssl cr) (cr_rc4 cr) (cr_memory cr prng) prng d NoPadding e = Some (True, prng1, d1, e\<lparr>pt_ctx := x1\<rparr>)"
    "length salt = prefix_length (cr_ssl cr) k" "poured curs d salt d1" "entropic (Suc n) prng1" "enciphers (cr_ssl cr) aes bf k salt [] x1"
    unfolding k_def by (rule encoder_starts_unpadded [OF doc(1) kind rl stale d])
  let ?E = "sealed (cr_ssl cr) aes bf k salt"
  have E: "length (?E m) = length m" if "?b dvd length m" for m using ssl_unpaddedD(4) [OF doc(1) that] .
  obtain w where w: "encode_u16 reader_add (of_nat (length ?m)) empty_reader = Some (True, w)" "reader_contents w = be16 (of_nat (length ?m))" "tidy [] w"
    using cursor_sink.writes_numbers(2) [of "[]" "of_nat (length ?m)"] empty_reader_ok unfolding cursor_sink.writes_def by fastforce
  obtain ws wc where wr: "w = (ws, wc)" by fastforce
  have size: "readable ws wc []" "oc_limited wc = None" "length (unread ws wc) + 64 \<le> kRoundedSize" "unread ws wc = be16 (of_nat (length ?m))"
    using w(2,3) by (simp_all add: wr tidy_def readable_def reader_contents_def be16_def kRoundedSize_def)
  have d1: "open_out curs d1" using start(3) by (simp add: poured_def)
  obtain ws' wc' d2 x2 out2 where two: "Encoder_Continue ?lib (ws, wc) d1 x1 = Some (True, (ws', wc'), d2, x2)"
    "enciphers (cr_ssl cr) aes bf k salt ([] @ unread ws wc) x2" "?E (whole ?b []) @ out2 = ?E (whole ?b ([] @ unread ws wc))" "poured curs d1 out2 d2"
    by (rule Encoder_Continue_pours [OF b start(5) E size(1-3) d1])
  have bounds: "0 < ?b" "?b \<le> 255" "length ?m + 2 < 2 ^ 32" using b m by (simp_all add: uint16_max_def)
  have pad: "unat (pad_for ?lib (of_nat (length ?m) + 2)) = ?b - (length ?m + 2) mod ?b"
    using pad_length [OF bounds] by (simp add: add.commute)
  have "(length ?m + 2) mod ?b < ?b" using bounds(1) by simp
  then have "0 < unat (pad_for ?lib (of_nat (length ?m) + 2))" unfolding pad by simp
  then have pad_pos: "0 < pad_for ?lib (of_nat (length ?m) + 2)" by (simp add: word_less_nat_alt)
  obtain prng2 padding ps pc where padding: "length padding = unat (pad_for ?lib (of_nat (length ?m) + 2))" "readable ps pc []" "oc_limited pc = None"
    "unread ps pc = padding" "entropic n prng2"
    "AddPadding ?lib (cr_rc4 cr) (cr_memory cr prng1) prng1 d2 (of_nat (length ?m) + 2) x2 =
       do { (ok, _, d, x) \<leftarrow> Encoder_Continue ?lib (ps, pc) d2 x2; Some (ok, prng2, d, x) }"
    using AddPadding_encrypts [OF rl(1) start(4) pad_pos memory(1)] by blast
  have d2: "open_out curs d2" using two(4) by (simp add: poured_def)
  have short: "length (unread ps pc) + 64 \<le> kRoundedSize" using padding(1,4) pad b(2) by (simp add: kRoundedSize_def)
  obtain ps' pc' d3 x3 out3 where three: "Encoder_Continue ?lib (ps, pc) d2 x2 = Some (True, (ps', pc'), d3, x3)"
    "enciphers (cr_ssl cr) aes bf k salt (([] @ unread ws wc) @ unread ps pc) x3"
    "?E (whole ?b ([] @ unread ws wc)) @ out3 = ?E (whole ?b (([] @ unread ws wc) @ unread ps pc))" "poured curs d2 out3 d3"
    by (rule Encoder_Continue_pours [OF b two(2) E padding(2,3) short d2])
  have d3: "open_out curs d3" using three(4) by (simp add: poured_def)
  let ?f = "(salt, padding, ?m)"
  obtain s' cur' d4 x4 out4 where four: "Encoder_Continue ?lib (s, cur) d3 x3 = Some (True, (s', cur'), d4, x4)"
    "advanced s cur others (length ?m) s' cur'"
    "enciphers (cr_ssl cr) aes bf k salt ((([] @ unread ws wc) @ unread ps pc) @ ?m) x4"
    "?E (whole ?b (([] @ unread ws wc) @ unread ps pc)) @ out4 = ?E (whole ?b ((([] @ unread ws wc) @ unread ps pc) @ ?m))" "poured curs d3 out4 d4"
    by (rule Encoder_Continue_pours [OF b three(2) E src d3])
  have joined: "(([] @ unread ws wc) @ unread ps pc) @ ?m = frame_text ?f" by (simp add: frame_text_def size(4) padding(4))
  have ok: "frame_ok (cr_ssl cr) k ?f" using start(2) padding(1) m by (simp add: frame_ok_def)
  note lengths = frame_lengths [OF doc(1) ok len]
  have "encrypted_bytes ?lib (length (frame_text ?f)) x4" using fed_to_facts [OF four(3)] by (simp only: joined)
  then obtain x5 where x5: "EVP_EncryptFinal_ex ?lib x4 = Some ([], x5)" using lengths(2) by (auto simp: encrypted_bytes_def)
  have nil: "?E (whole ?b []) = []" using E [of "[]"] by simp
  have "out2 @ out3 @ out4 = ?E (frame_text ?f)"
  proof -
    have "(out2 @ out3) @ out4 = ?E (whole ?b (frame_text ?f))"
      using two(3) three(3) four(4) unfolding joined nil by (metis append_Nil)
    then show ?thesis using lengths(2) by simp
  qed
  then have poured: "poured curs d (frame (cr_ssl cr) aes bf k ?f) d4"
    using poured_trans [OF start(3) poured_trans [OF two(4) poured_trans [OF three(4) four(5)]]] by (simp add: frame_def)
  have left: "oc_left s cur = Some (length ?m)" using left_size [of s cur others] src(1,2) by (simp add: readable_def)
  let ?e = "e\<lparr>pt_ctx := EVP_CIPHER_CTX_cleanup ?lib x5\<rparr>"
  have "encode_frame cr e prng (s, cur) d = Some (True, ?e, prng2, (s', cur'), d4)"
    using start(1) left w(1) two(1) padding(6) three(1) four(1) x5
    by (simp add: encode_frame_def Let_def new_buffer_run wr k_def Encoder_End_def empty_commit)
  then show thesis using padding(5) four(2) ok len poured
    by (intro that [of ?e prng2 s' cur' d4 salt padding]) (simp_all add: good_frame_def k_def)
qed

section \<open>A client sends\<close>

text \<open>Each message is put into the connection's buffer, and sent.\<close>

fun tcp_send_all ::
    "('x, 'k) crypto \<Rightarrow> bytes list \<Rightarrow> 'x protector \<Rightarrow> 'k prng \<Rightarrow> 'n tcp_connection \<Rightarrow> 'n \<Rightarrow>
     ('x protector \<times> 'k prng \<times> 'n tcp_connection \<times> 'n) option" where
  "tcp_send_all cr [] e prng c n = Some (e, prng, c, n)"
| "tcp_send_all cr (m # ms) e prng c n = do {
     message \<leftarrow> reader_add (tcp_Message c) m;
     (ok, _, e, prng, c, n) \<leftarrow> tcp_client_SendMessage cr (Some e) prng (c\<lparr>tc_out_cleartext := message\<rparr>) n;
     fatal_unless ok;
     e \<leftarrow> e;
     tcp_send_all cr ms e prng c n
   }"

definition may_send :: "'n tcp_connection \<Rightarrow> bool" where
  "may_send c \<longleftrightarrow> tidy [] (tc_out_cleartext c) \<and> reader_contents (tc_out_cleartext c) = [] \<and>
     open_out [snd (tc_out_encrypted c)] (fst (tc_out_encrypted c)) \<and> (\<forall>n. \<exists>n'. bc_WantWrite (tc_channel c) n = Some n')"

text \<open>The messages that a receiver can take, and that fit into a chunk.\<close>

definition sendable :: "'x openssl \<Rightarrow> protector_kind \<Rightarrow> bytes \<Rightarrow> bool" where
  "sendable ssl k m \<longleftrightarrow> length m + 64 \<le> kRoundedSize \<and> (length m + 2) mod block_of ssl k \<noteq> 0"

definition sender_documented :: "('x, 'k) crypto \<Rightarrow> protector_kind \<Rightarrow> bool" where
  "sender_documented cr k \<longleftrightarrow> rc4_documented (cr_rc4 cr) \<and> (\<forall>p. 255 \<le> length (cr_memory cr p)) \<and> prefix_length (cr_ssl cr) k \<le> 255"

lemma message_framed:
  fixes cr :: "('x, 'k) crypto" and e :: "'x protector"
  assumes doc: "ssl_unpadded (cr_ssl cr) aes bf aes' bf'" "kind_ok (pt_kind e)" "sender_documented cr (pt_kind e)"
    and prng: "entropic (Suc (Suc j)) prng" and m: "sendable (cr_ssl cr) (pt_kind e) m" and c: "may_send c"
  obtains message e' prng' c' n' salt padding where "reader_add (tcp_Message c) m = Some message"
    "tcp_client_SendMessage cr (Some e) prng (c\<lparr>tc_out_cleartext := message\<rparr>) n = Some (True, None, Some e', prng', c', n')"
    "pt_kind e' = pt_kind e" "entropic j prng'" "may_send c'" "good_frame (cr_ssl cr) (pt_kind e) (salt, padding, m)"
    "reader_contents (tc_out_encrypted c') = reader_contents (tc_out_encrypted c) @ frame (cr_ssl cr) aes bf (pt_kind e) (salt, padding, m)"
proof -
  have t: "tidy [] (tc_out_cleartext c)" "reader_contents (tc_out_cleartext c) = []" using c by (simp_all add: may_send_def)
  obtain message where message: "reader_add (tcp_Message c) m = Some message" "reader_contents message = m" "tidy [] message"
    using cursor_sink.add_appends [OF t(1), of m] t(2) by (auto simp: tcp_Message_def)
  obtain ms mc where ms: "message = (ms, mc)" by fastforce
  obtain d out where d: "tc_out_encrypted c = (d, out)" by fastforce
  have src: "readable ms mc []" "oc_limited mc = None" "unread ms mc = m" "length (unread ms mc) + 64 \<le> kRoundedSize"
    using message(2,3) m by (simp_all add: ms tidy_def readable_def reader_contents_def sendable_def kRoundedSize_def)
  have mod: "(length (unread ms mc) + 2) mod block_of (cr_ssl cr) (pt_kind e) \<noteq> 0" using m src(3) by (simp add: sendable_def)
  have open_d: "open_out [out] d" using c by (simp add: may_send_def d)
  have sender: "rc4_documented (cr_rc4 cr)" "\<And>p. 255 \<le> length (cr_memory cr p)" "prefix_length (cr_ssl cr) (pt_kind e) \<le> 255"
    using doc(3) by (simp_all add: sender_documented_def)
  obtain e' prng' s' cur' d' salt padding where f: "encode_frame cr e prng (ms, mc) d = Some (True, e', prng', (s', cur'), d')" "pt_kind e' = pt_kind e"
    "entropic j prng'" "advanced ms mc [] (length (unread ms mc)) s' cur'" "good_frame (cr_ssl cr) (pt_kind e) (salt, padding, unread ms mc)"
    "poured [out] d (frame (cr_ssl cr) aes bf (pt_kind e) (salt, padding, unread ms mc)) d'"
    by (rule frame_written [OF doc(1,2) sender(1) prng sender(2,3) src(1,2,4) mod open_d])
  obtain n' where n': "bc_WantWrite (tc_channel c) n = Some n'" using c by (auto simp: may_send_def)
  let ?c = "c\<lparr>tc_out_cleartext := (s', cur'), tc_out_encrypted := (d', out)\<rparr>"
  have "tidy [] (s', cur')" "reader_contents (s', cur') = []"
    using f(4) message(3) src(2) by (simp_all add: tidy_def advanced_def ms reader_contents_def all_used_gap_free)
  then have "may_send ?c" using f(6) c by (simp add: may_send_def poured_def)
  moreover have "unread d' out = unread d out @ frame (cr_ssl cr) aes bf (pt_kind e) (salt, padding, m)"
    using poured_unread [OF f(6), of out] open_d src(3) by (simp add: open_out_def)
  ultimately show thesis using f(1-3,5) n' src(3) message(1)
    by (intro that [of message e' prng' ?c n' salt padding])
      (simp_all add: tcp_client_SendMessage_def tcp_SendMessage_def Let_def d ms reader_contents_def)
qed

lemma messages_sent:
  fixes cr :: "('x, 'k) crypto" and e :: "'x protector"
  assumes doc: "ssl_unpadded (cr_ssl cr) aes bf aes' bf'" "kind_ok k" "sender_documented cr k"
  shows "pt_kind e = k \<Longrightarrow> entropic (2 * length ms) prng \<Longrightarrow> list_all (sendable (cr_ssl cr) k) ms \<Longrightarrow> may_send c \<Longrightarrow>
    \<exists>e' prng' c' n' fs. tcp_send_all cr ms e prng c n = Some (e', prng', c', n') \<and> list_all (good_frame (cr_ssl cr) k) fs \<and>
      map (\<lambda>f. snd (snd f)) fs = ms \<and>
      reader_contents (tc_out_encrypted c') = reader_contents (tc_out_encrypted c) @ concat (map (frame (cr_ssl cr) aes bf k) fs)"
proof (induction ms arbitrary: e prng c n)
  case (Cons m ms)
  have kind: "kind_ok (pt_kind e)" "sender_documented cr (pt_kind e)" "entropic (Suc (Suc (2 * length ms))) prng" "sendable (cr_ssl cr) (pt_kind e) m"
    using doc Cons.prems(1-3) by simp_all
  obtain message e1 prng1 c1 n1 salt padding where one: "reader_add (tcp_Message c) m = Some message"
    "tcp_client_SendMessage cr (Some e) prng (c\<lparr>tc_out_cleartext := message\<rparr>) n = Some (True, None, Some e1, prng1, c1, n1)"
    "pt_kind e1 = pt_kind e" "entropic (2 * length ms) prng1" "may_send c1" "good_frame (cr_ssl cr) (pt_kind e) (salt, padding, m)"
    "reader_contents (tc_out_encrypted c1) = reader_contents (tc_out_encrypted c) @ frame (cr_ssl cr) aes bf (pt_kind e) (salt, padding, m)"
    by (rule message_framed [OF doc(1) kind(1,2,3,4) Cons.prems(4)])
  have "pt_kind e1 = k" "list_all (sendable (cr_ssl cr) k) ms" using one(3) Cons.prems(1,3) by simp_all
  from Cons.IH [OF this(1) one(4) this(2) one(5), of n1] obtain e' prng' c' n' fs where
    "tcp_send_all cr ms e1 prng1 c1 n1 = Some (e', prng', c', n')" "list_all (good_frame (cr_ssl cr) k) fs" "map (\<lambda>f. snd (snd f)) fs = ms"
    "reader_contents (tc_out_encrypted c') = reader_contents (tc_out_encrypted c1) @ concat (map (frame (cr_ssl cr) aes bf k) fs)" by blast
  with one Cons.prems(1) show ?case
    by (intro exI [of _ e'] exI [of _ prng'] exI [of _ c'] exI [of _ n'] exI [of _ "(salt, padding, m) # fs"]) simp
qed simp

section \<open>A server reads\<close>

text \<open>\<open>n\<close> reads, each of which has left the handler where it is.\<close>

primrec tcp_reads :: "nat \<Rightarrow> ('s \<Rightarrow> (processing_state \<times> 's) option) \<Rightarrow> 's \<Rightarrow> 's option" where
  "tcp_reads 0 read s = Some s"
| "tcp_reads (Suc n) read s = do { (state, s) \<leftarrow> read s; (if state = MORE then tcp_reads n read s else None) }"

context tcp_endpoint
begin

lemma frames_delivered:
  fixes cr :: "('x, 'k) crypto" and k :: protector_kind
  assumes deal: "ssl_unpadded (cr_ssl cr) aes bf aes' bf'" "kind_ok k" and heard: "hears side p fit k h call inflight log"
    and doc: "stream_reads channel inflight log"
  shows "tc_channel (ts_get side s) = channel \<Longrightarrow> partway cr side p fit k h (sealed (cr_ssl cr) aes' bf' k) x [] s \<Longrightarrow>
    x @ inflight (ts_net side s) = concat (map (frame (cr_ssl cr) aes bf k) fs) \<Longrightarrow> list_all (good_frame (cr_ssl cr) k) fs \<Longrightarrow>
    length (concat (map (frame (cr_ssl cr) aes bf k) fs)) < 2 ^ 32 \<Longrightarrow> cut_in (frame (cr_ssl cr) aes bf k) x fs \<Longrightarrow>
    \<exists>n s'. n \<le> length (inflight (ts_net side s)) \<and> tcp_reads n (tcp_HandleRead cr cc call side) s = Some s' \<and>
      inflight (ts_net side s') = [] \<and> log (ts_net side s') = log (ts_net side s) @ map (\<lambda>f. snd (snd f)) fs"
proof (induction "length (inflight (ts_net side s))" arbitrary: s x fs rule: less_induct)
  case less
  show ?case
  proof (cases "inflight (ts_net side s) = []")
    case True
    have "fs = []"
    proof (rule ccontr)
      assume ne: "fs \<noteq> []"
      then obtain q where q: "frame (cr_ssl cr) aes bf k (hd fs) = x @ q" "q \<noteq> []" using less.prems(6) by (auto simp: cut_in_def)
      have "length x = length (concat (map (frame (cr_ssl cr) aes bf k) fs))" using less.prems(3) True by simp
      with q ne show False by (cases fs) auto
    qed
    with True show ?thesis by (intro exI [of _ 0] exI [of _ s]) simp
  next
    case False
    obtain s1 fs1 fs2 y where r: "tcp_HandleRead cr cc call side s = Some (MORE, s1)" "fs = fs1 @ fs2"
      "partway cr side p fit k h (sealed (cr_ssl cr) aes' bf' k) y [] s1" "tc_channel (ts_get side s1) = channel"
      "y @ inflight (ts_net side s1) = concat (map (frame (cr_ssl cr) aes bf k) fs2)" "cut_in (frame (cr_ssl cr) aes bf k) y fs2"
      "length (inflight (ts_net side s1)) < length (inflight (ts_net side s))"
      "log (ts_net side s1) = log (ts_net side s) @ map (\<lambda>f. snd (snd f)) fs1"
      by (rule one_tcp_read [OF deal heard doc less.prems(1) [symmetric] less.prems(2-5) False less.prems(6)])
    have "list_all (good_frame (cr_ssl cr) k) fs2" "length (concat (map (frame (cr_ssl cr) aes bf k) fs2)) < 2 ^ 32"
      using less.prems(4,5) by (simp_all add: r(2))
    from less.hyps [OF r(7,4,3,5) this r(6)] obtain n s' where
      "n \<le> length (inflight (ts_net side s1))" "tcp_reads n (tcp_HandleRead cr cc call side) s1 = Some s'"
      "inflight (ts_net side s') = []" "log (ts_net side s') = log (ts_net side s1) @ map (\<lambda>f. snd (snd f)) fs2" by blast
    with r(1,2,7,8) show ?thesis by (intro exI [of _ "Suc n"] exI [of _ s']) simp
  qed
qed

end

section \<open>Properties\<close>


text \<open>A cipher without secrets, with blocks of two bytes.\<close>

definition pair_up :: "bytes \<Rightarrow> bytes \<Rightarrow> (bytes \<times> bytes) option" where
  "pair_up x bs = Some (whole 2 (x @ bs), drop (length (whole 2 (x @ bs))) (x @ bs))"

definition pair_final :: "bytes \<Rightarrow> (bytes \<times> bytes) option" where
  "pair_final x = (if x = [] then Some ([], []) else None)"

definition pair_evp :: "nat \<Rightarrow> bytes evp_lib" where
  "pair_evp n = \<lparr>EVP_CIPHER_key_length = n, EVP_CIPHER_iv_length = 1, EVP_CIPHER_block_size = 2,
     EVP_EncryptInit_ex = (\<lambda>x key iv. Some []), EVP_DecryptInit_ex = (\<lambda>x key iv. Some []),
     EVP_CIPHER_CTX_set_padding = (\<lambda>b x. x), EVP_EncryptUpdate = pair_up, EVP_EncryptFinal_ex = pair_final,
     EVP_DecryptUpdate = pair_up, EVP_DecryptFinal_ex = pair_final, EVP_CIPHER_CTX_cleanup = (\<lambda>x. []), ctx_buf_len = (\<lambda>x. of_nat (length x))\<rparr>"

definition pair_crypto :: "(bytes, byte) crypto" where
  "pair_crypto = \<lparr>cr_ssl = \<lparr>kAES_256_CBC = pair_evp 32, kBF_CBC = pair_evp 1\<rparr>, cr_rc4 = toy_rc4, cr_bn = concrete_bn,
     cr_hmac = (\<lambda>key m. replicate 20 1), cr_ctx = [], cr_memory = (\<lambda>p. replicate 255 0)\<rparr>"

lemma whole_append: "b dvd length u \<Longrightarrow> whole b (u @ v) = u @ whole b v"
  by (auto simp: whole_def elim!: dvdE) (cases "b = 0"; simp add: distrib_right)

definition pair_rest :: "bytes \<Rightarrow> bytes" where
  "pair_rest m = drop (length m div 2 * 2) m"

lemma pair_rest: "whole 2 m @ pair_rest m = m" "whole 2 (pair_rest m @ bs) = drop (length (whole 2 m)) (whole 2 (m @ bs))"
  "pair_rest (pair_rest m @ bs) = pair_rest (m @ bs)" "length (pair_rest m) = length m mod 2"
proof -
  show split: "whole 2 m @ pair_rest m = m" for m by (simp add: whole_def pair_rest_def)
  have "whole 2 (m @ bs) = whole 2 m @ whole 2 (pair_rest m @ bs)"
    using whole_append [OF whole_dvd, of 2 m "pair_rest m @ bs"] split [of m] by (metis append_assoc)
  then show "whole 2 (pair_rest m @ bs) = drop (length (whole 2 m)) (whole 2 (m @ bs))"
    and "pair_rest (pair_rest m @ bs) = pair_rest (m @ bs)"
    using split [of "m @ bs"] split [of "pair_rest m @ bs"] split [of m] by (metis append_eq_conv_conj, metis append_assoc same_append_eq)
  show "length (pair_rest m) = length m mod 2" by (simp add: pair_rest_def minus_div_mult_eq_mod)
qed

lemma pair_updates:
  "evp_updates pair_up (pair_rest m) cs = Some (drop (length (whole 2 m)) (whole 2 (m @ concat cs)), pair_rest (m @ concat cs))"
proof (induction cs arbitrary: m)
  case Nil
  then show ?case by simp
next
  case (Cons c cs)
  have "drop (length (whole 2 (pair_rest m @ c))) (pair_rest m @ c) = pair_rest (pair_rest m @ c)"
    using pair_rest(1) [of "pair_rest m @ c"] by (metis append_eq_conv_conj)
  then have "pair_up (pair_rest m) c = Some (drop (length (whole 2 m)) (whole 2 (m @ c)), pair_rest (m @ c))"
    by (simp add: pair_up_def pair_rest)
  moreover obtain u where "whole 2 ((m @ c) @ concat cs) = whole 2 (m @ c) @ u"
    using whole_append [OF whole_dvd, of 2 "m @ c" "pair_rest (m @ c) @ concat cs"] pair_rest(1) [of "m @ c"] by (metis append_assoc)
  moreover obtain v where "whole 2 (m @ c) = whole 2 m @ v"
    using whole_append [OF whole_dvd, of 2 m "pair_rest m @ c"] pair_rest(1) [of m] by (metis append_assoc)
  ultimately show ?case using Cons.IH [of "m @ c"] by simp
qed

lemma pair_documented: "unpadded_documented (pair_evp n) (\<lambda>key iv m. m) (\<lambda>key iv m. m)"
proof -
  have all: "evp_updates pair_up [] cs = Some (whole 2 (concat cs), pair_rest (concat cs))" for cs
    using pair_updates [of "[]" cs] by (simp add: pair_rest_def)
  have rest: "pair_rest m = [] \<longleftrightarrow> 2 dvd length m" for m
    using pair_rest(4) [of m] by (auto simp: dvd_eq_mod_eq_0)
  have "unat (of_nat (length (pair_rest m)) :: u32) = length m mod 2" for m
    using mod_less_divisor [of 2 "length m"] by (simp add: pair_rest(4) unat_of_nat take_bit_nat_eq_self del: mod_less_divisor)
  with all rest show ?thesis
    by (simp add: unpadded_documented_def blockwise_def encrypted_bytes_def decrypted_bytes_def pair_evp_def pair_final_def)
qed

lemma pair_ssl: "ssl_unpadded (cr_ssl pair_crypto) (\<lambda>key iv m. m) (\<lambda>key iv m. m) (\<lambda>key iv m. m) (\<lambda>key iv m. m)"
  by (simp add: ssl_unpadded_def pair_crypto_def pair_documented) (simp add: pair_evp_def kKeyLengthInBytes_def)

text \<open>A socket that gives at most three bytes at a time, and a handler that keeps what it is given.\<close>

definition three_bytes :: "(bytes \<times> bytes list) stream_channel" where
  "three_bytes = \<lparr>bc_Read = \<lambda>s n. do {
       let bs = take (min 3 (ic_contiguous s)) (fst n);
       s \<leftarrow> ic_commit s bs;
       Some (OK, s, drop (length bs) (fst n), snd n)
     }, bc_Write = \<lambda>r n. Some (OK, r, n), bc_WantRead = Some, bc_WantWrite = Some, sc_Close = Some\<rparr>"

lemma three_bytes_documented: "stream_reads three_bytes fst snd"
proof -
  have "length (fst n) + 64 \<le> length (fst n') + kRoundedSize \<and> snd n' = snd n" if "bc_Read three_bytes s n = Some (status, s', n')" for s n status s' n'
    using that by (auto simp: three_bytes_def Let_def kRoundedSize_def min_def split: bind_splits)
  moreover have "\<exists>bs s' n'. bc_Read three_bytes s n = Some (OK, s', n') \<and> ic_commit s bs = Some s' \<and> bs \<noteq> [] \<and> fst n = bs @ fst n'"
    if n: "fst n \<noteq> []" "ic_contiguous s \<noteq> 0" for s n
  proof -
    define bs where "bs = take (min 3 (ic_contiguous s)) (fst n)"
    have bs: "bs \<noteq> []" "length bs \<le> ic_contiguous s" "bs @ drop (length bs) (fst n) = fst n" using n by (auto simp: bs_def min_def)
    then obtain s' where "ic_commit s bs = Some s'" by (simp add: ic_commit_def)
    with bs show ?thesis
      by (intro exI [of _ bs] exI [of _ s'] exI [of _ "(drop (length bs) (fst n), snd n)"]) (simp add: three_bytes_def Let_def bs_def)
  qed
  ultimately show ?thesis unfolding stream_reads_def stream_documented_def by blast
qed

type_synonym pair_server = "(bytes, byte, (bytes \<times> bytes list) tcp_connection, unit, (bytes \<times> bytes list) tcp_server) server"

definition keeping :: "(unit, pair_server) channel" where
  "keeping = \<lparr>ch_HandleConnect = \<lambda>p sv. Some sv,
     ch_Read = \<lambda>h p r sv. Some (r, sv\<lparr>hb_world := (hb_world sv)\<lparr>tr_net := (fst (tr_net (hb_world sv)), snd (tr_net (hb_world sv)) @ [reader_contents r])\<rparr>\<rparr>)\<rparr>"

lemma keeping_hears:
  "hears (server_side 0) 0 (serves 0 0) ScrambleSession (Channel_reads ()) (call_server pair_crypto (tcp_server_class pair_crypto) keeping) fst snd"
  unfolding hears_def
proof (intro allI impI)
  fix sv :: pair_server and r m
  assume sv: "steady (server_side 0) 0 (serves 0 0) ScrambleSession (Channel_reads ()) sv"
    and r: "message_in (snd (tc_in_cleartext (ts_get (server_side 0) sv))) m r"
  let ?sv = "sv\<lparr>hb_world := (hb_world sv)\<lparr>tr_net := (fst (tr_net (hb_world sv)), snd (tr_net (hb_world sv)) @ [m])\<rparr>\<rparr>"
  have "call_server pair_crypto (tcp_server_class pair_crypto) keeping (Channel_reads ()) 0 r sv = Some (r, ?sv)"
    using r by (simp add: keeping_def message_in_def)
  moreover have "kept_up (server_side 0) 0 (serves 0 0) ScrambleSession (Channel_reads ()) fst sv ?sv"
    using sv by (auto simp: kept_up_def steady_def serves_def server_side_def get_connection_def session_at_def)
  moreover have "snd (ts_net (server_side 0) ?sv) = snd (ts_net (server_side 0) sv) @ [m]" by (simp add: server_side_def)
  ultimately show "\<exists>r' s'. call_server pair_crypto (tcp_server_class pair_crypto) keeping (Channel_reads ()) 0 r sv = Some (r', s') \<and>
      buf_inv (fst r') [snd r', snd (tc_in_cleartext (ts_get (server_side 0) sv))] \<and> gap_free (cs_chunks (fst r')) \<and>
      unread (fst r') (snd (tc_in_cleartext (ts_get (server_side 0) sv))) = unread (fst r) (snd (tc_in_cleartext (ts_get (server_side 0) sv))) \<and>
      kept_up (server_side 0) 0 (serves 0 0) ScrambleSession (Channel_reads ()) fst sv s' \<and>
      snd (ts_net (server_side 0) s') = snd (ts_net (server_side 0) sv) @ [m]"
    using r by (intro exI [of _ r] exI [of _ ?sv]) (simp add: message_in_def readable_def)
qed

definition fresh_connection :: "'n stream_channel \<Rightarrow> 'n tcp_connection" where
  "fresh_connection channel = \<lparr>tc_key = cn_new (replicate 20 0) 1, tc_channel = channel, tc_session = None, tc_decoder = None,
     tc_in_encrypted = empty_reader, tc_in_cleartext = empty_reader, tc_out_cleartext = empty_reader, tc_out_encrypted = empty_reader\<rparr>"

definition scrambler :: "bytes protector" where
  "scrambler = \<lparr>pt_kind = ScrambleSession, pt_ctx = []\<rparr>"

definition listening :: "bytes \<Rightarrow> pair_server" where
  "listening wire = \<lparr>hb_prng = Rc4Prng_new 0 [],
     hb_sessions = [\<lparr>se_encoder = None, se_decoder = Some scrambler, se_connection = fresh_connection three_bytes,
       se_read_callback = Some (Channel_reads ()), se_close_callback = None\<rparr>],
     hb_map = [[(cn_new (replicate 20 0) 1, 0)]], hb_deleted = [],
     hb_world = \<lparr>tr_socket = None, tr_connections = [Inr 0], tr_net = (wire, [])\<rparr>, sv_auths = [], sv_userdb = udb_new, sv_opens = []\<rparr>"

lemma listening_idle:
  "idle pair_crypto (server_side 0) 0 (serves 0 0) ScrambleSession (Channel_reads ()) [] (listening wire)"
proof -
  have c: "ts_get (server_side 0) (listening wire) = fresh_connection three_bytes"
    by (simp add: server_side_def get_connection_def listening_def session_at_def)
  have found: "um_find cn_equal cn_hash [[(cn_new (replicate 20 0) 1, 0 :: nat)]] (cn_new (replicate 20 0) 1) = Some 0"
    by (simp add: um_find_def bucket_def cn_equal_def dk_equal_def)
  have steady: "steady (server_side 0) 0 (serves 0 0) ScrambleSession (Channel_reads ()) (listening wire)"
    using found unfolding steady_def c
    by (simp add: serves_def listening_def session_at_def fresh_connection_def scrambler_def)
  have "used [] [] empty_reader" using empty_reader_ok by (simp add: used_tidy)
  then show ?thesis
    using steady empty_reader_ok unfolding idle_def c
    by (simp add: fresh_connection_def source_def sink_def open_out_def tidy_def)
qed

lemma fresh_sends: "may_send (fresh_connection three_bytes)"
  using empty_reader_ok by (simp add: may_send_def fresh_connection_def open_out_def tidy_def three_bytes_def)

definition two_messages :: "bytes list" where
  "two_messages = [[7], [1, 2, 3]]"

lemma two_messages_sendable: "list_all (sendable (cr_ssl pair_crypto) ScrambleSession) two_messages"
  by (simp add: two_messages_def sendable_def kRoundedSize_def pair_crypto_def pair_evp_def)

lemma pair_sender: "sender_documented pair_crypto k"
  by (cases k) (simp_all add: sender_documented_def pair_crypto_def pair_evp_def rc4_documented_def toy_rc4_def)

definition scrambling :: "byte prng" where
  "scrambling = Rc4Prng_new 0 (replicate 4 (Some [5]))"

lemma scrambling_entropic: "entropic (2 * length two_messages) scrambling"
  by (simp add: entropic_def two_messages_def scrambling_def Rc4Prng_new_def list_all_iff)

lemma two_messages_short:
  assumes "tcp_send_all pair_crypto two_messages scrambler scrambling (fresh_connection three_bytes) n = Some (e', prng', c', n')"
  shows "length (reader_contents (tc_out_encrypted c')) < 2 ^ 32"
proof -
  obtain fs where fs: "list_all (good_frame (cr_ssl pair_crypto) ScrambleSession) fs" "map (\<lambda>f. snd (snd f)) fs = two_messages"
    "reader_contents (tc_out_encrypted c') = concat (map (frame (cr_ssl pair_crypto) (\<lambda>key iv m. m) (\<lambda>key iv m. m) ScrambleSession) fs)"
    using messages_sent [OF pair_ssl _ pair_sender, of ScrambleSession scrambler two_messages scrambling "fresh_connection three_bytes" n]
      two_messages_sendable scrambling_entropic fresh_sends assms empty_reader_ok
    by (auto simp: scrambler_def fresh_connection_def)
  have "length (frame (cr_ssl pair_crypto) (\<lambda>key iv m. m) (\<lambda>key iv m. m) ScrambleSession f) < 70001" if "good_frame (cr_ssl pair_crypto) ScrambleSession f" for f
    by (rule good_frameE [OF that pair_ssl]) (simp add: pair_crypto_def pair_evp_def)
  moreover obtain f g where "fs = [f, g]" using fs(2) by (auto simp: two_messages_def)
  ultimately have "length (frame (cr_ssl pair_crypto) (\<lambda>key iv m. m) (\<lambda>key iv m. m) ScrambleSession f) < 70001"
    "length (frame (cr_ssl pair_crypto) (\<lambda>key iv m. m) (\<lambda>key iv m. m) ScrambleSession g) < 70001" using fs(1) by simp_all
  with fs(3) \<open>fs = [f, g]\<close> show ?thesis by simp
qed


end
