(* ===== verification/TcpStalls.thy ===== *)
theory TcpStalls
  imports TcpMessages
begin

text \<open>
  The messages that a receiver cannot take. \<open>AddPadding\<close> adds a whole block to a message that fills its blocks with its
  own size, and the receiver does not ask for that block: a message that fills the first block is never complete.
\<close>

section \<open>A connection that waits for padding\<close>

definition stalled ::
    "('n, ('x, 'k, 'n, 'h, 'w, 'e) tcp_hub) tcp_side \<Rightarrow> nat \<Rightarrow> (('x, 'k, 'n, 'h, 'w, 'e) tcp_hub \<Rightarrow> bool) \<Rightarrow> protector_kind \<Rightarrow> 'h \<Rightarrow> u16 \<Rightarrow>
     ('x, 'k, 'n, 'h, 'w, 'e) tcp_hub \<Rightarrow> bool" where
  "stalled side p fit k h n s \<longleftrightarrow> steady side p fit k h s \<and> tc_session (ts_get side s) = Some p \<and> tc_decoder (ts_get side s) = Some p \<and>
     tidy [] (tc_in_encrypted (ts_get side s)) \<and> (\<exists>w. sink [] (be16 n @ w) (ts_get side s) \<and> length w = unat n)"

context tcp_endpoint
begin

lemma stalled_packet:
  fixes cr :: "('x, 'k) crypto" and k :: protector_kind
  assumes s: "stalled side p fit k h n s" and pad: "unat n < unat (pad_for (pt_cipher (cr_ssl cr) k) (ucast n + 2))"
  obtains s' where "read_packet cr cc call side s = Some (Inl (MORE, s'))" "stalled side p fit k h n s'" "alike side s s'"
    "tc_in_encrypted (ts_get side s') = tc_in_encrypted (ts_get side s)"
proof -
  let ?c = "ts_get side s"
  obtain w where w: "sink [] (be16 n @ w) ?c" "length w = unat n" using s by (auto simp: stalled_def)
  have steady: "steady side p fit k h s" "fit s" "tc_session ?c = Some p" "tc_decoder ?c = Some p" using s by (simp_all add: stalled_def steady_def)
  obtain pt where pt: "se_decoder (session_at p s) = Some pt" "pt_kind pt = k" using steady(1) by (auto simp: steady_def)
  have n: "unat n < 65536" using unsigned_less [of n] by simp
  then have short: "length (be16 n @ w) < 2 ^ 32" using w(2) by (simp add: be16_def)
  obtain cs own where copied: "oc_copy (fst (tc_in_cleartext ?c)) (snd (tc_in_cleartext ?c)) = Some (cs, own)"
    "own = snd (tc_in_cleartext ?c)" "kept [own] [be16 n @ w] (cs, own)" "reader_contents (cs, own) = be16 n @ w"
    by (rule copy_taken [OF w(1) short])
  from kept_source.readsD [OF kept_source.reads_numbers(2) copied(3,4)] obtain cs1 cur where
    d: "decode_u16 reader_consume (cs, own) = Some (0, Some n, (cs1, cur))" "kept [own] [be16 n @ w] (cs1, cur)" "reader_contents (cs1, cur) = w"
    by auto
  let ?s = "set_clear_chunks side cs1 s"
  note put = chunks_put [where s = s and cs = cs1, OF steady(2)]
  have sink: "sink [cur] (be16 n @ w) (ts_get side ?s)" by (rule copy_kept [OF steady(2) w(1) copied(2) d(2)])
  have cur: "oc_limited cur = None" using d(2) by (simp add: kept_def reader_ok_def)
  have un: "unread (clear_chunks side ?s) cur = w" using d(3) put(4) by (simp add: reader_contents_def)
  have left: "oc_left cs1 cur = Some (unat n)" using clear_left [OF sink cur] un w(2) put(4) n by simp
  have remove: "RemovePadding (pt_cipher (cr_ssl cr) k) (cs1, cur) (ucast n + 2) =
      Some (MORE_DATA_REQUIRED, pad_for (pt_cipher (cr_ssl cr) k) (ucast n + 2), (cs1, cur))"
    using left pad by (simp add: RemovePadding_def Let_def)
  have fit: "fit ?s" by (rule put(2))
  let ?s2 = "set_clear_chunks side cs1 ?s"
  note put2 = chunks_put [where s = ?s and cs = cs1, OF fit]
  have sink2: "sink [cur] (be16 n @ w) (ts_get side ?s2)" using sink by (simp add: put(1) put2(1))
  obtain cs2 where cs2: "leave_scope side cur ?s2 = Some (set_clear_chunks side cs2 ?s2)" "sink [] (be16 n @ w) (ts_get side (set_clear_chunks side cs2 ?s2))"
    by (rule scope_closed [OF put2(2) sink2])
  let ?s' = "set_clear_chunks side cs2 ?s2"
  note put3 = chunks_put [where s = ?s2 and cs = cs2, OF put2(2)]
  have "deliver cr cc call side n cur ?s = Some (Inl (MORE, ?s'))"
    using steady(3,4) pt put(1,4,6) remove cs2(1) by (simp add: deliver_def Let_def tcp_HandleDecodeError_def)
  then have "read_packet cr cc call side s = Some (Inl (MORE, ?s'))"
    using copied(1) d(1) left put(4) by (simp add: read_packet_def Let_def)
  moreover have "stalled side p fit k h n ?s'"
    using s put(1) put2(1) put3(1) put3(5) [OF put2(5) [OF put(5) [OF steady(1)]]] cs2(2) w(2) by (auto simp: stalled_def)
  ultimately show thesis using put(1) put2(1) put3(1) alike_trans [OF put(3) alike_trans [OF put2(3) put3(3)]] by (intro that [of ?s']) simp_all
qed

lemma stalled_loop:
  fixes cr :: "('x, 'k) crypto" and k :: protector_kind
  assumes s: "stalled side p fit k h n s" and pad: "unat n < unat (pad_for (pt_cipher (cr_ssl cr) k) (ucast n + 2))"
    and short: "length (reader_contents (tc_in_encrypted (ts_get side s))) < 2 ^ 32"
  obtains s' where "read_loop cr cc call side s = Some (MORE, s')" "stalled side p fit k h n s'" "alike side s s'"
    "tc_in_encrypted (ts_get side s') = tc_in_encrypted (ts_get side s)"
proof -
  let ?c = "ts_get side s"
  obtain w where w: "sink [] (be16 n @ w) ?c" "length w = unat n" using s by (auto simp: stalled_def)
  have steady: "tc_session ?c = Some p" "tc_decoder ?c = Some p" "tidy [] (tc_in_encrypted ?c)" using s by (simp_all add: stalled_def)
  have "unat n < 65536" using unsigned_less [of n] by simp
  then have "length (be16 n @ w) < 2 ^ 32" using w(2) by (simp add: be16_def)
  from sink_left [OF w(1) this] have size: "decode_size cr cc side s = Some (Inr s)" by (simp add: decode_size_def be16_def)
  obtain left where left: "oc_left (fst (tc_in_encrypted ?c)) (snd (tc_in_encrypted ?c)) = Some left"
    using left_size [of "fst (tc_in_encrypted ?c)" "snd (tc_in_encrypted ?c)" "[]"] steady(3) short by (auto simp: tidy_def reader_contents_def)
  obtain s' where s': "read_packet cr cc call side s = Some (Inl (MORE, s'))" "stalled side p fit k h n s'" "alike side s s'"
    "tc_in_encrypted (ts_get side s') = tc_in_encrypted ?c" by (rule stalled_packet [OF s pad])
  have "read_step cr cc call side s = Some (Inl (MORE, s'))"
    using steady(1,2) size s'(1) by (simp add: read_step_def and_then_def find_session_def start_decoder_def)
  then have "read_loop cr cc call side s = Some (MORE, if left = 0 then s else s')" using left by (subst read_loop.simps) simp
  then show thesis using s s' by (intro that [of "if left = 0 then s else s'"]) simp_all
qed

end

section \<open>The first block\<close>

context tcp_endpoint
begin

lemma turn_short:
  fixes cr :: "('x, 'k) crypto" and k :: protector_kind
  assumes deal: "ssl_unpadded (cr_ssl cr) aes bf aes' bf'" "kind_ok k"
    and at: "partway cr side p fit k h (sealed (cr_ssl cr) aes' bf' k) x e s" and e: "length e + 64 \<le> kRoundedSize" "length x < 2 ^ 32"
    and short: "length (x @ e) < prefix_length (cr_ssl cr) k + block_of (cr_ssl cr) k"
  obtains s' where "read_step cr cc call side s = Some (Inl (MORE, s'))" "alike side s s'"
    "partway cr side p fit k h (sealed (cr_ssl cr) aes' bf' k) (x @ e) [] s'"
proof (cases "length (x @ e) < prefix_length (cr_ssl cr) k")
  case True
  from turn_starts_waiting [OF at True] show thesis using that by metis
next
  case False
  let ?l = "prefix_length (cr_ssl cr) k"
  have long: "?l \<le> length (x @ e)" using False by simp
  obtain s1 fed e1 where s1: "read_step cr cc call side s = read_packet cr cc call side s1" "alike side s s1"
    "receiving cr side p fit k h (sealed (cr_ssl cr) aes' bf' k (take ?l (x @ e))) [] fed e1 s1" "fed @ e1 = drop ?l (x @ e)"
    "length fed < block_of (cr_ssl cr) k \<longrightarrow> e1 = []"
    by (rule turn_starts [OF deal at long e])
  have "length fed + length e1 < block_of (cr_ssl cr) k" using arg_cong [OF s1(4), of length] short long by simp
  then have fed: "length fed < block_of (cr_ssl cr) k" "e1 = []" using s1(5) by simp_all
  have "length (sealed (cr_ssl cr) aes' bf' k (take ?l (x @ e)) []) = length ([] :: bytes)" by (rule ssl_unpaddedD(5) [OF deal(1)]) simp
  then have "sealed (cr_ssl cr) aes' bf' k (take ?l (x @ e)) (whole (block_of (cr_ssl cr) k) fed) = []" using fed(1) by (simp add: whole_def)
  from no_size_yet [OF s1(3) this] obtain s2 where "read_packet cr cc call side s1 = Some (Inl (MORE, s2))" "alike side s1 s2"
    "receiving cr side p fit k h (sealed (cr_ssl cr) aes' bf' k (take ?l (x @ e))) [] fed e1 s2" by metis
  then show thesis using s1(1,4) fed(2) long alike_trans [OF s1(2)] by (intro that [of s2]) (simp_all add: partway_def Let_def)
qed

lemma turn_stalls:
  fixes cr :: "('x, 'k) crypto" and k :: protector_kind
  assumes deal: "ssl_unpadded (cr_ssl cr) aes bf aes' bf'" "kind_ok k"
    and at: "partway cr side p fit k h (sealed (cr_ssl cr) aes' bf' k) x e s" and e: "length e + 64 \<le> kRoundedSize" "length x < 2 ^ 32"
    and x: "length x < prefix_length (cr_ssl cr) k + block_of (cr_ssl cr) k" "prefix_length (cr_ssl cr) k + block_of (cr_ssl cr) k \<le> length (x @ e)"
    and f: "frame_ok (cr_ssl cr) k (salt, padding, m)" "length m + 2 = block_of (cr_ssl cr) k"
      "x @ e @ q = frame (cr_ssl cr) aes bf k (salt, padding, m) @ others"
  obtains s' where "read_step cr cc call side s = Some (Inl (MORE, s'))" "stalled side p fit k h (of_nat (length m)) s'" "alike side s s'"
    "length (reader_contents (tc_in_encrypted (ts_get side s'))) \<le> length e"
proof -
  let ?l = "prefix_length (cr_ssl cr) k" and ?b = "block_of (cr_ssl cr) k" and ?n = "of_nat (length m) :: u16"
  let ?text = "frame_text (salt, padding, m)"
  let ?c = "sealed (cr_ssl cr) aes bf k salt ?text" and ?D = "sealed (cr_ssl cr) aes' bf' k salt"
  note b = ssl_unpaddedD(1,2) [OF deal(1), of k]
  have salt: "length salt = ?l" and m: "length m \<le> uint16_max" using f(1) by (simp_all add: frame_ok_def)
  have "length padding = ?b - (length m + 2) mod ?b"
    using pad_length [of "pt_cipher (cr_ssl cr) k" "length m + 2"] b f(1) by (simp add: frame_ok_def uint16_max_def add.commute)
  then have padding: "length padding = ?b" using f(2) by simp
  have "length ?text = 2 * ?b" using padding f(2) by (simp add: frame_text_def be16_def)
  then have dvd: "?b dvd length ?text" by simp
  have c: "length ?c = 2 * ?b" "?D ?c = ?text"
    using ssl_unpaddedD(4) [OF deal(1) dvd] ssl_unpaddedD(6) [OF deal(1) dvd] \<open>length ?text = 2 * ?b\<close> by simp_all
  have long: "?l \<le> length (x @ e)" using x(2) by simp
  have whole_eq: "(x @ e) @ q = salt @ ?c @ others" using f(3) by (simp add: frame_def)
  have take_salt: "take ?l (x @ e) = salt"
    using arg_cong [OF whole_eq, of "take ?l"] salt long by simp
  have first: "take ?b (drop ?l (x @ e)) = take ?b ?c"
  proof -
    have "take ?b (drop ?l ((x @ e) @ q)) = take ?b (drop ?l (salt @ ?c @ others))" by (simp only: whole_eq)
    then show ?thesis using salt long x(2) c(1) by simp
  qed
  obtain s1 fed e1 where s1: "read_step cr cc call side s = read_packet cr cc call side s1" "alike side s s1"
    "receiving cr side p fit k h (sealed (cr_ssl cr) aes' bf' k (take ?l (x @ e))) [] fed e1 s1" "fed @ e1 = drop ?l (x @ e)"
    "length fed < ?b \<longrightarrow> e1 = []" "length fed \<le> max ?b (length (drop ?l x))" "length e1 \<le> length e"
    by (rule turn_starts [OF deal at long e])
  have rec: "receiving cr side p fit k h ?D [] fed e1 s1" using s1(3) by (simp only: take_salt)
  have "length fed = ?b"
    using s1(5,6) arg_cong [OF s1(4), of length] x by (cases "length fed < ?b") auto
  then have fed: "fed = take ?b ?c" using first s1(4) by (metis append_eq_conv_conj)
  obtain y where "fed_to (EVP_DecryptUpdate (pt_cipher (cr_ssl cr) k)) ?b ?D (decrypted_bytes (pt_cipher (cr_ssl cr) k)) fed y"
    using rec by (auto simp: receiving_def)
  from deciphered_prefix [OF this ssl_unpaddedD(5) [OF deal(1)], of "drop ?b ?c" ?c] have "?D (whole ?b fed) = take ?b ?text"
    using c \<open>length fed = ?b\<close> fed by simp
  also have "\<dots> = be16 ?n @ take (length m) padding"
    using f(2) by (simp add: frame_text_def be16_def f(2) [symmetric] padding)
  finally have "sink [] (be16 ?n @ take (length m) padding) (ts_get side s1)" using receiving_sink [OF rec] by simp
  moreover have n: "unat ?n = length m" by (rule cursor_source.unat_length_u16 [OF m])
  moreover have "length (take (length m) padding) = length m" using padding f(2) by simp
  ultimately have stalled: "stalled side p fit k h ?n s1" using rec unfolding stalled_def
    by (auto simp: receiving_def source_def used_tidy)
  have "(ucast ?n :: u32) = of_nat (length m)"
    by (intro word_unat_eq_iff [THEN iffD2]) (use m in \<open>simp add: unsigned_ucast_eq unat_of_nat take_bit_nat_eq_self uint16_max_def\<close>)
  then have "unat ?n < unat (pad_for (pt_cipher (cr_ssl cr) k) (ucast ?n + 2))" using n f padding by (simp add: frame_ok_def)
  from stalled_packet [OF stalled this] obtain s2 where s2: "read_packet cr cc call side s1 = Some (Inl (MORE, s2))" "stalled side p fit k h ?n s2"
    "alike side s1 s2" "tc_in_encrypted (ts_get side s2) = tc_in_encrypted (ts_get side s1)" by metis
  show thesis using s1(1,7) s2 rec alike_trans [OF s1(2) s2(3)] by (intro that [of s2]) (simp_all add: receiving_def source_def)
qed

end

text \<open>Of the stream, \<open>x\<close> has been read.\<close>

definition held_up ::
    "('x, 'k) crypto \<Rightarrow> ('n, ('x, 'k, 'n, 'h, 'w, 'e) tcp_hub) tcp_side \<Rightarrow> nat \<Rightarrow> (('x, 'k, 'n, 'h, 'w, 'e) tcp_hub \<Rightarrow> bool) \<Rightarrow>
     protector_kind \<Rightarrow> 'h \<Rightarrow> (bytes \<Rightarrow> bytes \<Rightarrow> bytes) \<Rightarrow> u16 \<Rightarrow> bytes \<Rightarrow> ('x, 'k, 'n, 'h, 'w, 'e) tcp_hub \<Rightarrow> bool" where
  "held_up cr side p fit k h decode n x s \<longleftrightarrow>
     (if length x < prefix_length (cr_ssl cr) k + block_of (cr_ssl cr) k then partway cr side p fit k h decode x [] s
      else stalled side p fit k h n s \<and> length (reader_contents (tc_in_encrypted (ts_get side s))) \<le> length x)"

context tcp_endpoint
begin

lemma arrived_stalled:
  assumes "stalled side p fit k h n s" "ic_commit (ic_reserve (fst (tc_in_encrypted (ts_get side s))) j) bs = Some cs" "bs \<noteq> []"
  shows "stalled side p fit k h n (tcp_arrived side cs w s)" "ts_net side (tcp_arrived side cs w s) = w"
    "tc_channel (ts_get side (tcp_arrived side cs w s)) = tc_channel (ts_get side s)"
    "reader_contents (tc_in_encrypted (ts_get side (tcp_arrived side cs w s))) = reader_contents (tc_in_encrypted (ts_get side s)) @ bs"
proof -
  obtain s0 own where enc: "tc_in_encrypted (ts_get side s) = (s0, own)" by fastforce
  have steady: "steady side p fit k h s" "tidy [] (s0, own)" using assms(1) by (simp_all add: stalled_def enc)
  then have fit: "fit s" "fit (ts_put_net side w s)" by (simp_all add: steady_def net_fit)
  have sessions: "session_at p (ts_put_net side w s) = session_at p s" by (simp add: session_at_def net_others(3))
  have run0: "ic_commit (ic_reserve s0 j) bs = Some cs" using assms(2) by (simp add: enc)
  note came = read_arrives [OF steady(2) run0 assms(3)]
  have get: "ts_get side (tcp_arrived side cs w s) = (ts_get side s)\<lparr>tc_in_encrypted := (cs, own)\<rparr>"
    using fit by (simp add: tcp_arrived_def get_put net_others enc)
  show "ts_net side (tcp_arrived side cs w s) = w" using fit by (simp add: tcp_arrived_def put_others net_others)
  show "tc_channel (ts_get side (tcp_arrived side cs w s)) = tc_channel (ts_get side s)"
    "reader_contents (tc_in_encrypted (ts_get side (tcp_arrived side cs w s))) = reader_contents (tc_in_encrypted (ts_get side s)) @ bs"
    using came(2) by (simp_all add: get enc)
  have "steady side p fit k h (tcp_arrived side cs w s)"
    using steady(1) fit sessions by (simp add: steady_def tcp_arrived_def get_put put_fit put_others net_others)
  then show "stalled side p fit k h n (tcp_arrived side cs w s)"
    using assms(1) came(1) get by (auto simp: stalled_def sink_def)
qed

lemma held_up_read:
  fixes cr :: "('x, 'k) crypto" and k :: protector_kind
  assumes deal: "ssl_unpadded (cr_ssl cr) aes bf aes' bf'" "kind_ok k" and doc: "stream_reads channel inflight log"
    and at: "held_up cr side p fit k h (sealed (cr_ssl cr) aes' bf' k) (of_nat (length m)) x s" "tc_channel (ts_get side s) = channel"
    and f: "frame_ok (cr_ssl cr) k (salt, padding, m)" "length m + 2 = block_of (cr_ssl cr) k"
    and stream: "x @ inflight (ts_net side s) = frame (cr_ssl cr) aes bf k (salt, padding, m) @ others"
      "length (frame (cr_ssl cr) aes bf k (salt, padding, m) @ others) < 2 ^ 32" "inflight (ts_net side s) \<noteq> []"
  obtains s' bs where "tcp_HandleRead cr cc call side s = Some (MORE, s')" "tc_channel (ts_get side s') = channel"
    "held_up cr side p fit k h (sealed (cr_ssl cr) aes' bf' k) (of_nat (length m)) (x @ bs) s'"
    "(x @ bs) @ inflight (ts_net side s') = frame (cr_ssl cr) aes bf k (salt, padding, m) @ others"
    "length (inflight (ts_net side s')) < length (inflight (ts_net side s))" "log (ts_net side s') = log (ts_net side s)"
proof -
  let ?c = "ts_get side s" and ?n = "ts_net side s" and ?l = "prefix_length (cr_ssl cr) k + block_of (cr_ssl cr) k"
  have "stream_documented channel inflight" using doc by (simp add: stream_reads_def)
  moreover have "0 < kReadSize" by (simp add: kReadSize_def)
  then have "ic_contiguous (ic_reserve (fst (tc_in_encrypted ?c)) kReadSize) \<noteq> 0"
    using reserve_room [of kReadSize "fst (tc_in_encrypted ?c)"] by linarith
  ultimately obtain bs cs n' where
    rd: "bc_Read channel (ic_reserve (fst (tc_in_encrypted ?c)) kReadSize) ?n = Some (OK, cs, n')"
      "ic_commit (ic_reserve (fst (tc_in_encrypted ?c)) kReadSize) bs = Some cs" "bs \<noteq> []" "inflight ?n = bs @ inflight n'"
    using stream(3) unfolding stream_documented_def by blast
  have "log n' = log ?n \<and> length (inflight ?n) + 64 \<le> length (inflight n') + kRoundedSize"
    using doc rd(1) unfolding stream_reads_def by blast
  with rd(4) have quiet: "log n' = log ?n" "length bs + 64 \<le> kRoundedSize" by simp_all
  have total: "x @ bs @ inflight n' = frame (cr_ssl cr) aes bf k (salt, padding, m) @ others" using stream(1) rd(4) by simp
  then have "length x + length bs + length (inflight n') < 2 ^ 32" using stream(2) by (metis add.assoc length_append)
  then have short: "length (x @ bs) < 2 ^ 32" "length x < 2 ^ 32" by simp_all
  let ?s = "tcp_arrived side cs n' s"
  have run: "tcp_HandleRead cr cc call side s = read_loop cr cc call side ?s"
    using rd(1) at(2) by (simp add: tcp_HandleRead_def tcp_arrived_def Let_def)
  have "\<exists>s'. read_loop cr cc call side ?s = Some (MORE, s') \<and> tc_channel (ts_get side s') = channel \<and> ts_net side s' = n' \<and>
      held_up cr side p fit k h (sealed (cr_ssl cr) aes' bf' k) (of_nat (length m)) (x @ bs) s'"
  proof (cases "length x < ?l")
    case True
    then have partway: "partway cr side p fit k h (sealed (cr_ssl cr) aes' bf' k) x [] s" using at(1) by (simp add: held_up_def)
    note arrived = bytes_arrive [OF partway rd(2,3) short(1), of n']
    obtain left where left: "oc_left (fst (tc_in_encrypted (ts_get side ?s))) (snd (tc_in_encrypted (ts_get side ?s))) = Some left" "left = 0 \<longrightarrow> bs = []"
      by (rule something_left [OF arrived(1)])
    show ?thesis
    proof (cases "length (x @ bs) < ?l")
      case True
      obtain s' where "read_step cr cc call side ?s = Some (Inl (MORE, s'))" "alike side ?s s'"
        "partway cr side p fit k h (sealed (cr_ssl cr) aes' bf' k) (x @ bs) [] s'"
        by (rule turn_short [OF deal arrived(1) quiet(2) short(2) True])
      moreover from this have "read_loop cr cc call side ?s = Some (MORE, s')" using left rd(3) by (subst read_loop.simps) simp
      ultimately show ?thesis using True arrived(2,3) at(2) by (intro exI [of _ s']) (simp add: alike_def held_up_def)
    next
      case False
      then have full: "?l \<le> length (x @ bs)" by simp
      obtain s' where "read_step cr cc call side ?s = Some (Inl (MORE, s'))" "stalled side p fit k h (of_nat (length m)) s'" "alike side ?s s'"
        "length (reader_contents (tc_in_encrypted (ts_get side s'))) \<le> length bs"
        by (rule turn_stalls [OF deal arrived(1) quiet(2) short(2) \<open>length x < ?l\<close> full f total])
      moreover from this have "read_loop cr cc call side ?s = Some (MORE, s')" using left rd(3) by (subst read_loop.simps) simp
      ultimately show ?thesis using False arrived(2,3) at(2) by (intro exI [of _ s']) (simp add: alike_def held_up_def)
    qed
  next
    case False
    then have stalled: "stalled side p fit k h (of_nat (length m)) s" "length (reader_contents (tc_in_encrypted ?c)) \<le> length x"
      using at(1) by (simp_all add: held_up_def)
    note arrived = arrived_stalled [OF stalled(1) rd(2,3), of n']
    have m: "length m \<le> uint16_max" using f(1) by (simp add: frame_ok_def)
    note b = ssl_unpaddedD(1,2) [OF deal(1), of k]
    have n: "unat (of_nat (length m) :: u16) = length m" by (rule cursor_source.unat_length_u16 [OF m])
    have conv: "(ucast (of_nat (length m) :: u16) :: u32) = of_nat (length m)"
      by (intro word_unat_eq_iff [THEN iffD2]) (use m in \<open>simp add: unsigned_ucast_eq unat_of_nat take_bit_nat_eq_self uint16_max_def\<close>)
    have "unat (pad_for (pt_cipher (cr_ssl cr) k) (of_nat (length m) + 2)) = block_of (cr_ssl cr) k"
      using pad_length [of "pt_cipher (cr_ssl cr) k" "length m + 2"] b m f(2) by (simp add: uint16_max_def add.commute)
    then have pad: "unat (of_nat (length m) :: u16) < unat (pad_for (pt_cipher (cr_ssl cr) k) (ucast (of_nat (length m) :: u16) + 2))"
      using n conv f(2) by simp
    have "length (reader_contents (tc_in_encrypted (ts_get side ?s))) < 2 ^ 32" using arrived(4) stalled(2) short(1) by simp
    from stalled_loop [OF arrived(1) pad this] obtain s' where s': "read_loop cr cc call side ?s = Some (MORE, s')"
      "stalled side p fit k h (of_nat (length m)) s'" "alike side ?s s'"
      "tc_in_encrypted (ts_get side s') = tc_in_encrypted (ts_get side ?s)" by metis
    then show ?thesis using False stalled(2) arrived(2-4) at(2) by (intro exI [of _ s']) (simp add: alike_def held_up_def)
  qed
  then obtain s' where "read_loop cr cc call side ?s = Some (MORE, s')" "tc_channel (ts_get side s') = channel" "ts_net side s' = n'"
    "held_up cr side p fit k h (sealed (cr_ssl cr) aes' bf' k) (of_nat (length m)) (x @ bs) s'" by blast
  then show thesis using run rd(3,4) quiet(1) total by (intro that [of s' bs]) simp_all
qed

lemma stalls_for_ever:
  fixes cr :: "('x, 'k) crypto" and k :: protector_kind
  assumes deal: "ssl_unpadded (cr_ssl cr) aes bf aes' bf'" "kind_ok k" and doc: "stream_reads channel inflight log"
    and f: "frame_ok (cr_ssl cr) k (salt, padding, m)" "length m + 2 = block_of (cr_ssl cr) k"
    and short: "length (frame (cr_ssl cr) aes bf k (salt, padding, m) @ others) < 2 ^ 32"
  shows "held_up cr side p fit k h (sealed (cr_ssl cr) aes' bf' k) (of_nat (length m)) x s \<Longrightarrow> tc_channel (ts_get side s) = channel \<Longrightarrow>
    x @ inflight (ts_net side s) = frame (cr_ssl cr) aes bf k (salt, padding, m) @ others \<Longrightarrow>
    \<exists>r s'. tcp_reads r (tcp_HandleRead cr cc call side) s = Some s' \<and> inflight (ts_net side s') = [] \<and> log (ts_net side s') = log (ts_net side s)"
proof (induction "length (inflight (ts_net side s))" arbitrary: s x rule: less_induct)
  case less
  show ?case
  proof (cases "inflight (ts_net side s) = []")
    case True
    then show ?thesis by (intro exI [of _ 0] exI [of _ s]) simp
  next
    case False
    obtain s1 bs where r: "tcp_HandleRead cr cc call side s = Some (MORE, s1)" "tc_channel (ts_get side s1) = channel"
      "held_up cr side p fit k h (sealed (cr_ssl cr) aes' bf' k) (of_nat (length m)) (x @ bs) s1"
      "(x @ bs) @ inflight (ts_net side s1) = frame (cr_ssl cr) aes bf k (salt, padding, m) @ others"
      "length (inflight (ts_net side s1)) < length (inflight (ts_net side s))" "log (ts_net side s1) = log (ts_net side s)"
      by (rule held_up_read [OF deal doc less.prems(1,2) f less.prems(3) short False])
    from less.hyps [OF r(5,3,2,4)] obtain j s' where
      "tcp_reads j (tcp_HandleRead cr cc call side) s1 = Some s'" "inflight (ts_net side s') = []" "log (ts_net side s') = log (ts_net side s1)" by blast
    with r(1,6) show ?thesis by (intro exI [of _ "Suc j"] exI [of _ s']) simp
  qed
qed

end

section \<open>Properties\<close>

text \<open>C10. A message that is two bytes shorter than a block of the cipher, sent in the way the sender frames it, is never
  delivered: when a socket has brought all of its bytes, and whatever may follow them, the handler of the session has
  heard nothing.\<close>

theorem full_block_message_stalls_the_stream:
  fixes cr :: "('x, 'k) crypto"
  assumes "ssl_unpadded (cr_ssl cr) aes bf aes' bf'" "kind_ok k" "frame_ok (cr_ssl cr) k (salt, padding, m)" "length m + 2 = block_of (cr_ssl cr) k"
    "stream_reads channel inflight log" "idle cr (server_side i) p (serves i p) k h [] sv" "tc_channel (get_connection i sv) = channel"
    "inflight (tr_net (hb_world sv)) = frame (cr_ssl cr) aes bf k (salt, padding, m) @ others" "length (inflight (tr_net (hb_world sv))) < 2 ^ 32"
  shows "\<exists>r sv'. tcp_reads r (tcp_server_HandleRead cr ch i) sv = Some sv' \<and> inflight (tr_net (hb_world sv')) = [] \<and>
    log (tr_net (hb_world sv')) = log (tr_net (hb_world sv))"
proof -
  have at: "ts_get (server_side i) = get_connection i" "ts_net (server_side i) = (\<lambda>sv. tr_net (hb_world sv))" by (simp_all add: server_side_def)
  have reads: "tcp_HandleRead cr (tcp_server_class cr) (call_server cr (tcp_server_class cr) ch) (server_side i) = tcp_server_HandleRead cr ch i"
    by (rule ext) (simp add: tcp_server_HandleRead_def)
  have "0 < prefix_length (cr_ssl cr) k" using ssl_unpaddedD(7) [OF assms(1)] .
  then have "held_up cr (server_side i) p (serves i p) k h (sealed (cr_ssl cr) aes' bf' k) (of_nat (length m)) [] sv"
    using assms(6) by (simp add: held_up_def partway_def)
  from tcp_servers.stalls_for_ever [OF assms(1,2,5,3,4) _ this, of others "tcp_server_class cr" "call_server cr (tcp_server_class cr) ch"] assms(7-9)
  show ?thesis by (simp add: at reads)
qed

lemma full_block_message_stalls_the_stream_witness:
  "\<exists>r sv'. tcp_reads r (tcp_server_HandleRead pair_crypto keeping 0) (listening [9, 0, 0, 5, 5, 9, 0, 1, 5, 7, 7]) = Some sv' \<and>
    fst (tr_net (hb_world sv')) = [] \<and> snd (tr_net (hb_world sv')) = []"
proof -
  let ?id = "\<lambda>key iv m. m :: bytes"
  have ok: "frame_ok (cr_ssl pair_crypto) ScrambleSession ([9], [5, 5], [])"
    by (simp add: frame_ok_def pair_crypto_def pair_evp_def pad_for_def)
  have wire: "frame (cr_ssl pair_crypto) ?id ?id ScrambleSession ([9], [5, 5], []) = [9, 0, 0, 5, 5]"
    by (simp add: frame_def frame_text_def be16_def)
  have sv: "tc_channel (get_connection 0 (listening w)) = three_bytes" "tr_net (hb_world (listening w)) = (w, [])" for w
    by (simp_all add: get_connection_def listening_def session_at_def fresh_connection_def)
  have block: "length ([] :: bytes) + 2 = block_of (cr_ssl pair_crypto) ScrambleSession" by (simp add: pair_crypto_def pair_evp_def)
  have bytes: "tr_net (hb_world (listening [9, 0, 0, 5, 5, 9, 0, 1, 5, 7, 7])) = ([9, 0, 0, 5, 5, 9, 0, 1, 5, 7, 7], [])" by (rule sv(2))
  show ?thesis
    using full_block_message_stalls_the_stream [OF pair_ssl _ ok block three_bytes_documented listening_idle sv(1), of "[9, 0, 0, 5, 5, 9, 0, 1, 5, 7, 7]" "[9, 0, 1, 5, 7, 7]" keeping]
    by (simp add: bytes wire)
qed

end
