(* ===== verification/Spec2Isabelle.thy ===== *)
theory Spec2Isabelle
  imports Base64 Hashing Buffers Serializers UserDb IpManager Timers Sockaddr SrpExchange Protectors SocketTransport UdpLogin SessionTable TunnelSettings ControlCalls NetworkCommands UserAdmin Digests TcpStalls
begin

text \<open>
  uvpn is a virtual private network: a server and a client, each a process that waits for events of the
  kernel, authenticate a user with SRP-6a and then exchange packets that are encrypted with AES. This
  development models the C++ code under \<open>src/src/\<close>. The programs are layers, and so are the theories.

  The parts, from the bottom up:

  \<^item> \<open>Prelude\<close>: types, assertions, big-endian integers, generic lemmas. \<open>Text\<close>: \<open>conversions.h\<close>, numbers as text.
    \<open>Hashing\<close>: \<open>hash.h\<close>, \<open>charset.h\<close>. \<open>StdMap\<close>: \<open>std::map\<close>. \<open>Keys\<close>: \<open>static-key.h\<close>, \<open>connection-key.h\<close> and
    the \<open>unordered_map\<close>s they index (\<open>stl-helpers.h\<close>).
  \<^item> \<open>Buffers\<close>: \<open>buffer.h\<close>. A buffer is a chain of chunks with reference counts, read and written through cursors.
    \<open>buffer_refines_queues\<close> shows that every sequence of operations does what one byte queue per cursor would do.
    \<open>Serializers\<close>: \<open>serializers.h\<close>, the encoding of integers, strings and vectors on cursors; the locales
    \<open>byte_sink\<close> and \<open>byte_source\<close> are its view of a buffer, interpreted on strings and on the chunked cursors.
  \<^item> \<open>Base64\<close>, \<open>UserDb\<close>: \<open>base64.cc\<close> and \<open>userdb.cc\<close>, the file of users and their secrets.
  \<^item> \<open>Prng\<close>, \<open>Password\<close>, \<open>BigNumber\<close>, \<open>Digests\<close>: \<open>prng.cc\<close>, \<open>password.cc\<close>, \<open>openssl-helpers.cc\<close>. \<open>SrpPrimes\<close>, \<open>Srp\<close>:
    \<open>srp-common.cc\<close>, \<open>srp-passwd.cc\<close>, \<open>srp-client.cc\<close>, \<open>srp-server.cc\<close>. \<open>SrpExchange\<close> runs both sides of the protocol
    and proves that they hold the same key.
  \<^item> \<open>Protectors\<close>: \<open>openssl-protector.cc\<close>, \<open>aes-session-protector.cc\<close>, \<open>scramble-session-protector.cc\<close>, the encryption
    of messages in buffers.
  \<^item> \<open>IpAddresses\<close>, \<open>IpManager\<close>, \<open>Sockaddr\<close>: \<open>ip-addresses.cc\<close>, \<open>ip-manager.cc\<close>, \<open>sockaddr.cc\<close>.
  \<^item> \<open>Timers\<close>: \<open>linux/clock-timers.cc\<close> and \<open>event-scheduler.cc\<close>. \<open>Dispatcher\<close>: \<open>linux/epoll-dispatcher.cc\<close>, the
    registered descriptors and the interest list of the kernel. \<open>PacketQueues\<close>: \<open>packet-queue.cc\<close>.
    \<open>SocketTransport\<close>: \<open>socket-transport.cc\<close>, the sockets, their handlers and the system calls they make.
  \<^item> \<open>Sessions\<close>: \<open>server-simple-connection-manager.cc\<close> and \<open>client-simple-connection-manager.cc\<close>, the table of
    sessions, their encoders, decoders and callbacks. \<open>SessionTable\<close>: the invariant of the table.
    \<open>Authenticators\<close>: \<open>srp-server-authenticator.cc\<close> and \<open>srp-client-authenticator.cc\<close>; \<open>LoginSteps\<close>: what each
    of their handlers does.
  \<^item> \<open>UdpTranscoders\<close>: \<open>server-udp-transcoder.cc\<close> and \<open>client-udp-transcoder.cc\<close>; \<open>UdpSteps\<close>: what they do with a
    packet; \<open>UdpSockets\<close>: the sockets are what they rely on. \<open>UdpLogin\<close> puts everything together: a login over
    UDP, through both programs, their sockets, dispatchers and kernels, ends with both holding the same AES key.

  \<^item> \<open>TcpTranscoders\<close>: \<open>server-tcp-transcoder.cc\<close> and \<open>client-tcp-transcoder.cc\<close>, the framing of messages in a stream.
    \<open>LastChunk\<close>: what a buffer's last chunk holds; \<open>CopiedCursors\<close>: reading through a copy of a cursor, which the
    buffer's own cursor follows; \<open>Streams\<close>: what a stream socket promises; \<open>BlockCiphers\<close>: ciphers without padding, whole
    blocks at a time. \<open>TcpEndpoints\<close>: the locale \<open>tcp_endpoint\<close>, interpreted on clients and servers, and the steps of the read loop;
    \<open>TcpStreams\<close>: the loop over any pieces of a stream; \<open>TcpMessages\<close>: what a client sends, the handler on the server
    hears. \<open>TcpStalls\<close>: the messages for which that is not so, since the receiver does not ask for their padding.
  \<^item> \<open>Netlink\<close>: \<open>linux/netlink-interfaces.cc\<close> (\<open>interfaces.h\<close>) and its requests; \<open>NetlinkReplies\<close>: the parser of the kernel's replies
    and what is read back of what was sent. \<open>NetworkCommands\<close>: \<open>uvpn-ip-config.cc\<close>, the program over them.
  \<^item> \<open>Tunnels\<close>: \<open>tun-tap-common.cc\<close>, \<open>tun-tap-server-channel.cc\<close> and \<open>tun-tap-client-channel.cc\<close>; \<open>TunnelPackets\<close>: the
    packets that go through it; \<open>TunnelSettings\<close>: both ends of a tunnel are configured as mirror images.
  \<^item> \<open>DaemonControl\<close>: \<open>ipc-client.cc\<close>, \<open>daemon-controller.cc\<close>, \<open>daemon-controller-server.cc\<close>, \<open>uvpn-ctl.cc\<close> and the classes
    of \<open>src/ipc/\<close>, remote calls over a local socket. \<open>ControlCalls\<close>: the locale \<open>rpc_protocol\<close>, a datatype of calls that
    is written and parsed, interpreted on the calls of either side; calls arrive in order whatever pieces they come in.
  \<^item> \<open>Terminal\<close>: \<open>terminal.cc\<close>, \<open>terminal-user-chatter.cc\<close>. \<open>UserAdmin\<close>: \<open>uvpn-user.cc\<close>; what it writes is what
    the server reads when the user logs in.

  How the code is read. An object is a record with the fields of its class, and a method is a function from
  the state to the state (and the result) in the option monad: \<open>None\<close> is a call that does not return, since
  an assertion (\<open>DEBUG_FATAL_UNLESS\<close>, \<open>LOG_FATAL\<close>) failed, or what the code does is undefined. Objects that others
  point to live in lists (sessions, sockets, authenticators, chunks), and a pointer is an index. Callbacks
  (\<open>std::function\<close> of a bound method) are values of a datatype with one constructor for each method that the code
  binds, and a function that runs them. Integers are words of the width of the code where they can wrap
  around, and numbers with the test written out where the code guards them. What C++ leaves in memory that
  was not written to (\<open>StaticBuffer\<close>, keys, \<open>Sockaddr\<close>) is an argument named \<open>memory\<close>.

  What is a parameter. OpenSSL (big numbers, ciphers, RC4, SHA-1, HMAC), the kernel (what \<open>epoll_ctl\<close>, \<open>recvfrom\<close>,
  \<open>sendmsg\<close> and the others will answer), \<open>inet_pton\<close>, and what the user types are arguments of the
  definitions. The documented behaviour that a property relies on is a named hypothesis (\<open>bn_documented\<close>,
  \<open>crypto_documented\<close>, \<open>rc4_documented\<close>, \<open>fresh_machine\<close> and others), and its witness instantiates the
  parameters with concrete functions.

  Termination and fuel. Recursions follow the data, or a measure that is proved to decrease. The loops over
  a cursor are \<open>partial_function (option)\<close>, since a chain with an empty chunk in the middle makes them loop
  for ever; that they return from well-formed buffers is part of the properties about them. The answers of
  the kernel and of \<open>RAND_bytes\<close> are finite lists, and a call that finds its list empty gives \<open>None\<close>: the
  properties suppose as many answers as the code asks for, a number they state.

  Not modelled. \<open>lib/lz4\<close> is vendored and nothing includes it; \<open>tests/\<close> are the program's tests; \<open>tools/ipc\<close>
  is the generator, in Python, of the classes in \<open>src/ipc/\<close> (which are modelled). \<open>errors.h\<close>, \<open>macros.h\<close>, \<open>yaarg.h\<close> and
  \<open>backtrace.cc\<close> are logging and macros. \<open>server-crypto-connection-manager\<close>, \<open>client-crypto-connection-manager\<close> and
  \<open>server-unethical-transcoder\<close> are in no program that the \<open>Makefile\<close> builds; the first has the text of the simple manager, and
  the other two do not compile against the headers. \<open>uvpn-server.cc\<close> and \<open>uvpn-client.cc\<close> parse
  a command line and connect the objects that the other parts model. The manifest that comes with the
  development lists every file.
\<close>

end
